(* ===== verification/Prelude.thy ===== *)
theory Prelude
  imports Complex_Main "HOL-Library.AList" "HOL-Library.Multiset"
begin

text \<open>
  What the components share: JavaScript strings (code units below 256, as HOL strings), the
  insertion-ordered \<^verbatim>\<open>Map\<close> and plain objects as association lists (\<open>AList.update\<close> overwrites in
  place and appends a new key, as \<^verbatim>\<open>Map.prototype.set\<close> does), and the generic list lemmas the
  component proofs use.
\<close>

named_theorems kc_inv \<open>preservation of the component invariants\<close>
named_theorems kc_amap \<open>association lists as insertion-ordered maps\<close>

section \<open>Strings\<close>

type_synonym jstring = string

abbreviation code :: "char \<Rightarrow> nat" where
  "code c \<equiv> (of_char c :: nat)"

text \<open>\<^verbatim>\<open>toLowerCase\<close> on code units below 256.\<close>

definition lower_char :: "char \<Rightarrow> char" where
  "lower_char c = (let n = code c in
     if (65 \<le> n \<and> n \<le> 90) \<or> (192 \<le> n \<and> n \<le> 222 \<and> n \<noteq> 215) then char_of (n + 32) else c)"

definition to_lower :: "jstring \<Rightarrow> jstring" where
  "to_lower s = map lower_char s"

definition is_digit :: "char \<Rightarrow> bool" where
  "is_digit c \<longleftrightarrow> 48 \<le> code c \<and> code c \<le> 57"

definition is_lower_alpha :: "char \<Rightarrow> bool" where
  "is_lower_alpha c \<longleftrightarrow> 97 \<le> code c \<and> code c \<le> 122"

definition is_upper_alpha :: "char \<Rightarrow> bool" where
  "is_upper_alpha c \<longleftrightarrow> 65 \<le> code c \<and> code c \<le> 90"

text \<open>White space as \<^verbatim>\<open>String.prototype.trim\<close> and the regular expression class \<^verbatim>\<open>\s\<close> read it.\<close>

definition is_space :: "char \<Rightarrow> bool" where
  "is_space c \<longleftrightarrow> code c \<in> {9, 10, 11, 12, 13, 32, 160}"

definition trim :: "jstring \<Rightarrow> jstring" where
  "trim s = rev (dropWhile is_space (rev (dropWhile is_space s)))"

definition starts_with :: "jstring \<Rightarrow> jstring \<Rightarrow> bool" where
  "starts_with p s \<longleftrightarrow> take (length p) s = p"

definition str_includes :: "jstring \<Rightarrow> jstring \<Rightarrow> bool" where
  "str_includes needle hay \<longleftrightarrow>
     list_ex (\<lambda>i. starts_with needle (drop i hay)) [0..<Suc (length hay)]"

fun join :: "jstring \<Rightarrow> jstring list \<Rightarrow> jstring" where
  "join sep [] = []"
| "join sep [x] = x"
| "join sep (x # y # xs) = x @ sep @ join sep (y # xs)"

text \<open>\<^verbatim>\<open>s.split(ch)\<close> for a single character: always at least one part.\<close>

fun split_on :: "char \<Rightarrow> jstring \<Rightarrow> jstring list" where
  "split_on ch [] = [[]]"
| "split_on ch (c # cs) =
     (if c = ch then [] # split_on ch cs
      else (case split_on ch cs of [] \<Rightarrow> [[c]] | p # ps \<Rightarrow> (c # p) # ps))"

lemma split_on_not_Nil [simp]: "split_on ch s \<noteq> []"
  by (induction s) (auto split: list.splits)

lemma join_Cons: "xs \<noteq> [] \<Longrightarrow> join sep (x # xs) = x @ sep @ join sep xs"
  by (cases xs) auto

lemma join_split_on: "join [ch] (split_on ch s) = s"
proof (induction s)
  case (Cons c cs)
  then show ?case by (cases "split_on ch cs"; cases "tl (split_on ch cs)") (auto simp: join_Cons)
qed simp

lemma split_on_no_sep: "p \<in> set (split_on ch s) \<Longrightarrow> ch \<notin> set p"
  by (induction s arbitrary: p) (auto split: list.splits if_splits)

lemma trim_no_space: "list_all (\<lambda>c. \<not> is_space c) s \<Longrightarrow> trim s = s"
proof -
  have "list_all (\<lambda>c. \<not> is_space c) t \<Longrightarrow> dropWhile is_space t = t" for t by (cases t) auto
  then show "list_all (\<lambda>c. \<not> is_space c) s \<Longrightarrow> trim s = s" by (simp add: trim_def)
qed

lemma starts_with_append [simp]: "starts_with p (p @ s)"
  by (simp add: starts_with_def)

lemma starts_with_iff: "starts_with p s \<longleftrightarrow> (\<exists>t. s = p @ t)"
  by (auto simp: starts_with_def) (metis append_take_drop_id)

text \<open>Member names of \<^verbatim>\<open>Object.prototype\<close>, which a bare property read of a plain object reaches.\<close>

definition object_prototype :: "jstring list" where
  "object_prototype =
     [''constructor'', ''hasOwnProperty'', ''isPrototypeOf'', ''propertyIsEnumerable'',
      ''toLocaleString'', ''toString'', ''valueOf'', ''__proto__'', ''__defineGetter__'',
      ''__defineSetter__'', ''__lookupGetter__'', ''__lookupSetter__'']"

section \<open>Insertion-ordered maps\<close>

abbreviation keys :: "('k \<times> 'v) list \<Rightarrow> 'k list" where
  "keys m \<equiv> map fst m"

definition amap_ok :: "('k \<times> 'v) list \<Rightarrow> bool" where
  "amap_ok m \<longleftrightarrow> distinct (keys m)"

lemma amap_ok_Nil [simp, kc_amap]: "amap_ok []"
  by (simp add: amap_ok_def)

lemma amap_ok_update [simp, kc_amap]: "amap_ok m \<Longrightarrow> amap_ok (AList.update k v m)"
  by (simp add: amap_ok_def distinct_update)

lemma amap_ok_delete [simp, kc_amap]: "amap_ok m \<Longrightarrow> amap_ok (AList.delete k m)"
  by (simp add: amap_ok_def distinct_delete)

lemma amap_ok_filter [simp, kc_amap]: "amap_ok m \<Longrightarrow> amap_ok (filter P m)"
  by (induction m) (auto simp: amap_ok_def)

lemma amap_ok_map_vals [simp, kc_amap]: "amap_ok (map (\<lambda>(k, v). (k, f k v)) m) = amap_ok m"
  by (simp add: amap_ok_def case_prod_beta comp_def)

lemma map_of_map_vals:
  "map_of (map (\<lambda>(k, v). (k, f k v)) m) k = map_option (f k) (map_of m k)"
  by (induction m) auto

lemma keys_update: "keys (AList.update k v m) = (if k \<in> set (keys m) then keys m else keys m @ [k])"
  by (induction m) auto

lemma length_update: "length (AList.update k v m) = (if k \<in> set (keys m) then length m else Suc (length m))"
  by (metis keys_update length_append_singleton length_map)

lemma length_delete:
  "amap_ok m \<Longrightarrow> k \<in> set (keys m) \<Longrightarrow> Suc (length (AList.delete k m)) = length m"
proof (induction m)
  case (Cons p m)
  show ?case
  proof (cases "fst p = k")
    case True
    with Cons.prems(1) have "k \<notin> set (keys m)" by (auto simp: amap_ok_def)
    then have "AList.delete k m = m" by (simp add: delete_idem)
    with True show ?thesis by simp
  next
    case False
    with Cons show ?thesis by (auto simp: amap_ok_def)
  qed
qed simp

lemma keys_delete: "keys (AList.delete k m) = filter (\<lambda>x. x \<noteq> k) (keys m)"
  by (induction m) auto

lemma keys_delete_set: "set (keys (AList.delete k m)) = set (keys m) - {k}"
  by (auto simp: keys_delete)

lemma map_of_filter_keys: "map_of (filter (\<lambda>(k, v). P k) m) k = (if P k then map_of m k else None)"
  by (induction m) auto

lemma map_of_eq_Some_iff': "amap_ok m \<Longrightarrow> map_of m k = Some v \<longleftrightarrow> (k, v) \<in> set m"
  by (simp add: amap_ok_def)

lemma map_of_None_iff: "map_of m k = None \<longleftrightarrow> k \<notin> set (keys m)"
  by (simp add: map_of_eq_None_iff)

section \<open>Lists\<close>

definition last_opt :: "'a list \<Rightarrow> 'a option" where
  "last_opt xs = (if xs = [] then None else Some (last xs))"

lemma last_opt_Nil [simp]: "last_opt [] = None"
  by (simp add: last_opt_def)

lemma last_opt_snoc [simp]: "last_opt (xs @ [x]) = Some x"
  by (simp add: last_opt_def)

lemma last_opt_None [simp]: "last_opt xs = None \<longleftrightarrow> xs = []"
  by (simp add: last_opt_def)

text \<open>The last \<open>n\<close> elements.\<close>

definition lastn :: "nat \<Rightarrow> 'a list \<Rightarrow> 'a list" where
  "lastn n xs = drop (length xs - n) xs"

lemma length_lastn [simp]: "length (lastn n xs) = min n (length xs)"
  by (simp add: lastn_def)

lemma lastn_all: "length xs \<le> n \<Longrightarrow> lastn n xs = xs"
  by (simp add: lastn_def)

lemma lastn_map: "lastn n (map f xs) = map f (lastn n xs)"
  by (simp add: lastn_def drop_map)

lemma lastn_snoc:
  "lastn n (xs @ [x]) = (if n = 0 then [] else if length xs < n then xs @ [x] else tl (lastn n xs) @ [x])"
proof (cases "n = 0 \<or> length xs < n")
  case False
  then have "length xs - (n - 1) = Suc (length xs - n)" by linarith
  with False show ?thesis by (simp add: lastn_def drop_Suc tl_drop)
qed (auto simp: lastn_def)

lemma lastn_append_lastn: "lastn n (lastn n xs @ ys) = lastn n (xs @ ys)"
proof (cases "length xs \<le> n")
  case False
  then have "length xs - n + n = length xs" by simp
  with False show ?thesis by (auto simp: lastn_def add.commute)
qed (simp add: lastn_def)

lemma lastn_append_right: "lastn n (ys @ lastn n xs) = lastn n (ys @ xs)"
proof (cases "length xs \<le> n")
  case False
  then show ?thesis by (simp add: lastn_def)
qed (simp add: lastn_all)

lemma lastn_eq_drop: "lastn n xs = drop (length xs - length (lastn n xs)) xs"
  by (cases "length xs \<le> n") (simp_all add: lastn_def)

lemma butlast_last_split: "xs \<noteq> [] \<Longrightarrow> butlast xs @ [last xs] = xs"
  by simp

lemma split_on_sep: "ch \<notin> set p \<Longrightarrow> split_on ch (p @ ch # s) = p # split_on ch s"
  by (induction p) (auto split: list.splits)

lemma split_on_single: "ch \<notin> set p \<Longrightarrow> split_on ch p = [p]"
  by (induction p) (auto split: list.splits)

lemma split_on_append:
  "split_on ch (a @ b) = butlast (split_on ch a) @ split_on ch (last (split_on ch a) @ b)"
proof (induction a)
  case (Cons c a)
  obtain p ps where s: "split_on ch a = p # ps" by (cases "split_on ch a") auto
  show ?case
  proof (cases "c = ch")
    case False
    then show ?thesis using Cons s by (cases ps) (auto split: list.splits)
  qed (use Cons in simp)
qed simp

lemma upt_split: "a \<le> b \<Longrightarrow> b \<le> c \<Longrightarrow> [a..<c] = [a..<b] @ [b..<c]"
  by (metis le_add_diff_inverse upt_add_eq_append)

text \<open>The first index at which a predicate holds (\<^verbatim>\<open>findIndex\<close>).\<close>

fun find_index :: "('a \<Rightarrow> bool) \<Rightarrow> 'a list \<Rightarrow> nat option" where
  "find_index P [] = None"
| "find_index P (x # xs) = (if P x then Some 0 else map_option Suc (find_index P xs))"

lemma find_index_None: "find_index P xs = None \<longleftrightarrow> (\<forall>x \<in> set xs. \<not> P x)"
  by (induction xs) auto

lemma find_index_Some:
  "find_index P xs = Some i \<Longrightarrow> i < length xs \<and> P (xs ! i) \<and> (\<forall>j < i. \<not> P (xs ! j))"
proof (induction xs arbitrary: i)
  case (Cons x xs)
  then show ?case by (auto split: if_splits simp: nth_Cons split: nat.splits)
qed simp

end
