(* ===== verification/Interfaces.thy ===== *)
theory Interfaces
  imports Prelude
begin

text \<open>
  The contracts one component relies on and another provides, as locales. Each is interpreted on
  the model's own definitions in the theory of the component that provides it.
\<close>

section \<open>A buffer of timestamped samples\<close>

text \<open>What the metrics cache needs of the buffers it hands out: an empty buffer has no newest
  sample, and adding a sample moves the newest timestamp forward or leaves the buffer alone.\<close>

locale sample_buffer =
  fixes fresh :: "'b"
    and newest :: "'b \<Rightarrow> int option"
    and add :: "int \<Rightarrow> 'v \<Rightarrow> 'b \<Rightarrow> bool \<times> 'b"
    and ok :: "'b \<Rightarrow> bool"
  assumes fresh_ok: "ok fresh"
    and newest_fresh: "newest fresh = None"
    and add_ok: "ok b \<Longrightarrow> ok (snd (add t v b))"
    and add_accepts: "ok b \<Longrightarrow> fst (add t v b) \<longleftrightarrow> (case newest b of None \<Rightarrow> True | Some l \<Rightarrow> l < t)"
    and add_newest: "ok b \<Longrightarrow> fst (add t v b) \<Longrightarrow> newest (snd (add t v b)) = Some t"
    and add_refused: "ok b \<Longrightarrow> \<not> fst (add t v b) \<Longrightarrow> snd (add t v b) = b"
begin

lemma newest_after: "ok b \<Longrightarrow>
  newest (snd (add t v b)) = Some (case newest b of None \<Rightarrow> t | Some l \<Rightarrow> max l t)"
  using add_accepts [of b t v] add_newest [of b t v] add_refused [of b t v]
  by (cases "newest b"; cases "fst (add t v b)") auto

definition feed :: "(int \<times> 'v) list \<Rightarrow> 'b \<Rightarrow> 'b" where
  "feed xs b = fold (\<lambda>(t, v) b. snd (add t v b)) xs b"

lemma feed_ok: "ok b \<Longrightarrow> ok (feed xs b)"
  by (induction xs arbitrary: b) (auto simp: feed_def add_ok)

lemma newest_feed_mono:
  "ok b \<Longrightarrow> newest b = Some l \<Longrightarrow> \<exists>l'. newest (feed xs b) = Some l' \<and> l \<le> l'"
proof (induction xs arbitrary: b l)
  case (Cons x xs)
  obtain t v where x: "x = (t, v)" by fastforce
  have "newest (snd (add t v b)) = Some (max l t)"
    using Cons.prems by (simp add: newest_after)
  from Cons.IH [OF add_ok [OF Cons.prems(1)] this] obtain l'
    where "newest (feed xs (snd (add t v b))) = Some l'" "max l t \<le> l'" by blast
  with x show ?case by (auto simp: feed_def)
qed (simp add: feed_def)

lemma newest_feed_fresh:
  assumes "xs \<noteq> []"
  shows "newest (feed xs fresh) = Some (Max (fst ` set xs))"
  using assms
proof (induction xs rule: rev_induct)
  case (snoc x xs)
  have "ok (feed xs fresh)" by (simp add: feed_ok fresh_ok)
  with snoc show ?case
    by (cases "xs = []") (auto simp: feed_def newest_after newest_fresh case_prod_beta max.commute fresh_ok)
qed simp

end

section \<open>Requests guarded by a generation\<close>

text \<open>
  The pattern behind every asynchronous composable: starting an operation takes a new generation,
  and a response is applied only while its generation is the live one. Whatever happens in between
  (other operations, timers, renders), a response of a superseded generation changes nothing.
\<close>

datatype ('o, 'r, 't) guard_event = Begin 'o | Settle nat 'r | Other 't

locale generation_guard =
  fixes gen :: "'s \<Rightarrow> nat"
    and begin_op :: "'o \<Rightarrow> 's \<Rightarrow> 's"
    and settle :: "nat \<Rightarrow> 'r \<Rightarrow> 's \<Rightarrow> 's"
    and other :: "'t \<Rightarrow> 's \<Rightarrow> 's"
  assumes begin_gen: "gen s < gen (begin_op x s)"
    and settle_gen: "gen s \<le> gen (settle g r s)"
    and other_gen: "gen s \<le> gen (other t s)"
    and settle_stale: "g \<noteq> gen s \<Longrightarrow> settle g r s = s"
begin

fun guard_step :: "('o, 'r, 't) guard_event \<Rightarrow> 's \<Rightarrow> 's" where
  "guard_step (Begin x) s = begin_op x s"
| "guard_step (Settle g r) s = settle g r s"
| "guard_step (Other t) s = other t s"

lemma guard_step_gen: "gen s \<le> gen (guard_step e s)"
  by (cases e) (auto simp: settle_gen other_gen less_imp_le [OF begin_gen])

lemma run_gen: "gen s \<le> gen (fold guard_step es s)"
proof (induction es arbitrary: s)
  case (Cons e es)
  then show ?case using guard_step_gen order_trans by (metis comp_apply fold.simps(2))
qed simp

text \<open>A response of an operation that has been superseded is dropped, however late it arrives.\<close>

lemma superseded_dropped:
  assumes "g \<le> gen s"
  shows "settle g r (fold guard_step es (begin_op x s)) = fold guard_step es (begin_op x s)"
proof (rule settle_stale)
  show "g \<noteq> gen (fold guard_step es (begin_op x s))"
    using run_gen [of "begin_op x s" es] begin_gen [of s x] assms by linarith
qed

end

section \<open>Cards about one subject\<close>

text \<open>
  A card loads something about its subject (an object, a cluster). A change of subject, or a reload, takes a new ticket and may
  await an answer; an answer is applied only under the newest ticket. \<open>label\<close> is the subject an operation is for,
  \<open>content\<close> what is on screen with the subject it was loaded for.
\<close>

datatype ('x, 'r) card_event = Change 'x | Answer nat 'r

locale subject_card =
  fixes ticket :: "'s \<Rightarrow> nat"
    and subject :: "'s \<Rightarrow> 'b"
    and awaited :: "'s \<Rightarrow> (nat \<times> 'b) list"
    and content :: "'s \<Rightarrow> ('b \<times> 'a) option"
    and loading :: "'s \<Rightarrow> bool"
    and label :: "'x \<Rightarrow> 's \<Rightarrow> 'b"
    and change :: "'x \<Rightarrow> 's \<Rightarrow> 's"
    and answer :: "nat \<Rightarrow> 'r \<Rightarrow> 's \<Rightarrow> 's"
  assumes change_subject: "subject (change x s) = label x s"
    and change_ticket: "ticket s < ticket (change x s)"
    and change_awaited: "awaited (change x s) = (if loading (change x s) then [(ticket (change x s), label x s)] else []) @ awaited s"
    and change_content: "content (change x s) = None \<or> fst (the (content (change x s))) = label x s \<or>
      content (change x s) = content s \<and> label x s = subject s"
    and answer_unknown: "map_of (awaited s) i = None \<Longrightarrow> answer i r s = s"
    and answer_frame: "map_of (awaited s) i = Some b \<Longrightarrow>
      ticket (answer i r s) = ticket s \<and> subject (answer i r s) = subject s \<and> awaited (answer i r s) = filter (\<lambda>e. fst e \<noteq> i) (awaited s)"
    and answer_stale: "map_of (awaited s) i = Some b \<Longrightarrow> i \<noteq> ticket s \<Longrightarrow> content (answer i r s) = content s \<and> loading (answer i r s) = loading s"
    and answer_live: "map_of (awaited s) (ticket s) = Some b \<Longrightarrow>
      \<not> loading (answer (ticket s) r s) \<and> (content (answer (ticket s) r s) \<in> {None, content s} \<or> fst (the (content (answer (ticket s) r s))) = b)"
begin

definition card_ok :: "'s \<Rightarrow> bool" where
  "card_ok s \<longleftrightarrow>
     list_all (\<lambda>(i, _). i \<le> ticket s) (awaited s) \<and>
     (map_of (awaited s) (ticket s) = (if loading s then Some (subject s) else None)) \<and>
     (content s = None \<or> fst (the (content s)) = subject s)"

fun card_step :: "('x, 'r) card_event \<Rightarrow> 's \<Rightarrow> 's" where
  "card_step (Change x) s = change x s"
| "card_step (Answer i r) s = answer i r s"

lemma card_ok_change:
  assumes "card_ok s"
  shows "card_ok (change x s)"
proof -
  have le: "list_all (\<lambda>(i, _). i \<le> ticket s) (awaited s)" using assms by (simp add: card_ok_def)
  then have "map_of (awaited s) (ticket (change x s)) = None"
    using change_ticket [of s x] by (force simp: list_all_iff map_of_eq_None_iff)
  moreover have "list_all (\<lambda>(i, _). i \<le> ticket (change x s)) (awaited s)"
    using le change_ticket [of s x] by (force simp: list_all_iff)
  ultimately show ?thesis using assms change_content [of x s] by (auto simp: card_ok_def change_subject change_awaited)
qed

lemma map_of_settled: "map_of (filter (\<lambda>e. fst e \<noteq> i) es) j = (if j = i then None else map_of es j)"
  by (induction es) auto

lemma card_ok_answer:
  assumes "card_ok s"
  shows "card_ok (answer i r s)"
proof (cases "map_of (awaited s) i")
  case None
  then show ?thesis using assms by (simp add: answer_unknown)
next
  case (Some b)
  have frame: "ticket (answer i r s) = ticket s" "subject (answer i r s) = subject s"
      "awaited (answer i r s) = filter (\<lambda>e. fst e \<noteq> i) (awaited s)"
    using answer_frame [OF Some] by simp_all
  have le: "list_all (\<lambda>(j, _). j \<le> ticket s) (filter (\<lambda>e. fst e \<noteq> i) (awaited s))"
    using assms by (auto simp: card_ok_def list_all_iff)
  show ?thesis
  proof (cases "i = ticket s")
    case True
    then have "b = subject s" using assms Some by (simp add: card_ok_def split: if_splits)
    moreover have "\<not> loading (answer i r s)" "content (answer i r s) \<in> {None, content s} \<or> fst (the (content (answer i r s))) = b"
      using answer_live [of s b r] Some True by auto
    moreover have "map_of (filter (\<lambda>e. fst e \<noteq> i) (awaited s)) (ticket s) = None" by (simp add: True map_of_settled)
    ultimately show ?thesis using assms le by (auto simp: card_ok_def frame)
  next
    case False
    then show ?thesis using assms le answer_stale [OF Some False] by (simp add: card_ok_def frame map_of_settled)
  qed
qed

text \<open>Whatever is on screen is about the subject, and the card says it is loading exactly while its newest request is out.\<close>

lemma run_card_ok: "card_ok s \<Longrightarrow> card_ok (fold card_step es s)"
proof (induction es arbitrary: s)
  case (Cons e es)
  then show ?case by (cases e) (simp_all add: card_ok_change card_ok_answer)
qed simp

lemma content_is_about_subject: "card_ok s \<Longrightarrow> content (fold card_step es s) = Some (b, a) \<Longrightarrow> b = subject (fold card_step es s)"
  using run_card_ok [of s es] by (simp add: card_ok_def)

lemma loading_is_awaited: "card_ok s \<Longrightarrow> let t = fold card_step es s in loading t \<longleftrightarrow> map_of (awaited t) (ticket t) \<noteq> None"
  using run_card_ok [of s es] by (simp add: card_ok_def Let_def)

end

end
