(* ===== verification/RingBuffer.thy ===== *)
theory RingBuffer
  imports Interfaces
begin

text \<open>
  \<^verbatim>\<open>web/src/utils/ringBuffer.ts\<close>: the aligned multi-series ring buffer behind the metric charts.
  A cell is \<^verbatim>\<open>null\<close> (\<open>None\<close>), a number, or - because \<^verbatim>\<open>values[label]\<close> is a bare property read -
  a member of \<^verbatim>\<open>Object.prototype\<close>. The records \<^verbatim>\<open>values\<close> are association lists in the order
  \<^verbatim>\<open>Object.keys\<close> gives. \<open>ring_of\<close> is the abstract view: a buffer is a window of the log of
  accepted samples, and \<open>push_ring_of\<close> shows that \<open>push\<close> implements appending to that log.
\<close>

datatype point = Num rat | Member jstring

type_synonym cell = "point option"
type_synonym sample_values = "(jstring \<times> rat) list"

record ring =
  timestamps :: "int list"
  series :: "(jstring \<times> cell list) list"

definition MAX_SAMPLES :: nat where
  "MAX_SAMPLES = 240"

definition new_ring :: ring where
  "new_ring = \<lparr>timestamps = [], series = []\<rparr>"

text \<open>\<^verbatim>\<open>values[label] ?? null\<close>.\<close>

definition read_value :: "sample_values \<Rightarrow> jstring \<Rightarrow> cell" where
  "read_value vs l =
     (case map_of vs l of
        Some v \<Rightarrow> Some (Num v)
      | None \<Rightarrow> if l \<in> set object_prototype then Some (Member l) else None)"

definition backfill :: "nat \<Rightarrow> jstring \<Rightarrow> (jstring \<times> cell list) list \<Rightarrow> (jstring \<times> cell list) list" where
  "backfill n l s = (if l \<in> set (keys s) then s else AList.update l (replicate n None) s)"

definition push :: "int \<Rightarrow> sample_values \<Rightarrow> ring \<Rightarrow> bool \<times> ring" where
  "push t vs r =
     (if (case last_opt (timestamps r) of Some l \<Rightarrow> t \<le> l | None \<Rightarrow> False) then (False, r)
      else
       let ts = timestamps r @ [t];
           s1 = fold (backfill (length ts - 1)) (keys vs) (series r);
           s2 = map (\<lambda>(l, points). (l, points @ [read_value vs l])) s1
       in if length ts > MAX_SAMPLES
          then (True, \<lparr>timestamps = tl ts, series = map (\<lambda>(l, points). (l, tl points)) s2\<rparr>)
          else (True, \<lparr>timestamps = ts, series = s2\<rparr>))"

definition ring_length :: "ring \<Rightarrow> nat" where
  "ring_length r = length (timestamps r)"

definition lastTimestamp :: "ring \<Rightarrow> int option" where
  "lastTimestamp r = last_opt (timestamps r)"

definition labels :: "ring \<Rightarrow> jstring list" where
  "labels r = keys (series r)"

definition window_start :: "rat option \<Rightarrow> int list \<Rightarrow> nat" where
  "window_start rangeSeconds ts =
     (case rangeSeconds of
        None \<Rightarrow> 0
      | Some secs \<Rightarrow>
          if ts = [] then 0
          else let cutoff = of_int (last ts) - secs * 1000
               in (case find_index (\<lambda>t. cutoff \<le> of_int t) ts of Some i \<Rightarrow> i | None \<Rightarrow> 0))"

definition toUplotData :: "rat option \<Rightarrow> ring \<Rightarrow> cell list list" where
  "toUplotData rangeSeconds r =
     (let from = window_start rangeSeconds (timestamps r)
      in map (\<lambda>t. Some (Num (of_int t / 1000))) (drop from (timestamps r))
         # map (\<lambda>(l, points). drop from points) (series r))"


section \<open>The abstract view: a log of accepted samples\<close>

type_synonym history = "(int \<times> sample_values) list"

definition accept :: "int \<times> sample_values \<Rightarrow> history \<Rightarrow> history" where
  "accept x lg = (if lg \<noteq> [] \<and> fst x \<le> fst (last lg) then lg else lg @ [x])"

definition add_label :: "jstring \<Rightarrow> jstring list \<Rightarrow> jstring list" where
  "add_label l ls = (if l \<in> set ls then ls else ls @ [l])"

definition seen ::  "history \<Rightarrow> jstring list" where
  "seen lg = fold (\<lambda>x. fold add_label (keys (snd x))) lg []"

text \<open>What a sample has for a label: the value listed first for it; null when there is none - or, a name every object inherits, the inherited member.\<close>

definition sampled :: "sample_values \<Rightarrow> jstring \<Rightarrow> cell" where
  "sampled vs l =
     (case filter (\<lambda>x. fst x = l) vs of
        x # _ \<Rightarrow> Some (Num (snd x))
      | [] \<Rightarrow> (case filter (\<lambda>m. m = l) object_prototype of m # _ \<Rightarrow> Some (Member m) | [] \<Rightarrow> None))"

text \<open>One line of the chart over the whole log: null until the label first appears.\<close>

definition column ::  "history \<Rightarrow> jstring \<Rightarrow> cell list" where
  "column lg l =
     map (\<lambda>i. if l \<in> set (seen (take (Suc i) lg)) then sampled (snd (lg ! i)) l else None)
       [0..<length lg]"

definition ring_of ::  "history \<Rightarrow> ring" where
  "ring_of lg =
     \<lparr>timestamps = lastn MAX_SAMPLES (map fst lg),
      series = map (\<lambda>l. (l, lastn MAX_SAMPLES (column lg l))) (seen lg)\<rparr>"

definition run_pushes :: "(int \<times> sample_values) list \<Rightarrow> ring \<Rightarrow> ring" where
  "run_pushes ps r = fold (\<lambda>(t, vs) r. snd (push t vs r)) ps r"

lemma read_sampled: "read_value vs l = sampled vs l"
proof -
  have own: "map_of vs l = (case filter (\<lambda>x. fst x = l) vs of x # _ \<Rightarrow> Some (snd x) | [] \<Rightarrow> None)" by (induction vs) auto
  have inherited: "(if l \<in> set ms then Some (Member l) else None) = (case filter (\<lambda>m. m = l) ms of m # _ \<Rightarrow> Some (Member m) | [] \<Rightarrow> None)" for ms
    by (induction ms) auto
  show ?thesis unfolding read_value_def sampled_def own inherited by (simp split: list.split)
qed

lemma length_column [simp]: "length (column lg l) = length lg"
  by (simp add: column_def)

lemma seen_snoc: "seen (lg @ [x]) = fold add_label (keys (snd x)) (seen lg)"
  by (simp add: seen_def)

lemma set_fold_add_label: "set (fold add_label ks ls) = set ls \<union> set ks"
  by (induction ks arbitrary: ls) (auto simp: add_label_def)

lemma distinct_fold_add_label: "distinct ls \<Longrightarrow> distinct (fold add_label ks ls)"
  by (induction ks arbitrary: ls) (auto simp: add_label_def)

lemma distinct_seen: "distinct (seen lg)"
  by (induction lg rule: rev_induct) (auto simp: seen_snoc distinct_fold_add_label, simp add: seen_def)

lemma set_seen: "set (seen lg) = (\<Union>x \<in> set lg. set (keys (snd x)))"
  by (induction lg rule: rev_induct) (auto simp: seen_snoc set_fold_add_label seen_def)

lemma column_snoc:
  "column (lg @ [x]) l =
     column lg l @ [if l \<in> set (seen (lg @ [x])) then sampled (snd x) l else None]"
  by (auto simp: column_def nth_append)

lemma column_unseen: "l \<notin> set (seen lg) \<Longrightarrow> column lg l = replicate (length lg) None"
proof (induction lg rule: rev_induct)
  case (snoc x lg)
  then show ?case
    by (auto simp: column_snoc seen_snoc set_fold_add_label replicate_append_same)
qed (simp add: column_def)

lemma push_window:
  assumes "0 < n"
  shows "(if n < Suc (length (lastn n xs)) then tl (lastn n xs @ [x]) else lastn n xs @ [x]) = lastn n (xs @ [x])"
proof (cases "length xs < n")
  case False
  with assms have "lastn n xs \<noteq> []" by (auto simp: lastn_def)
  with False assms show ?thesis by (simp add: lastn_snoc)
qed (use assms in \<open>auto simp: lastn_snoc lastn_all\<close>)

lemma fold_backfill:
  assumes "\<And>l. l \<notin> set ls \<Longrightarrow> f l = replicate n None"
  shows "fold (backfill n) ks (map (\<lambda>l. (l, f l)) ls) = map (\<lambda>l. (l, f l)) (fold add_label ks ls)"
  using assms
proof (induction ks arbitrary: ls)
  case (Cons k ks)
  have "backfill n k (map (\<lambda>l. (l, f l)) ls) = map (\<lambda>l. (l, f l)) (add_label k ls)"
  proof (cases "k \<in> set ls")
    case True
    then show ?thesis by (auto simp: backfill_def add_label_def)
  next
    case False
    then have "AList.update k (replicate n None) (map (\<lambda>l. (l, f l)) ls)
      = map (\<lambda>l. (l, f l)) ls @ [(k, replicate n None)]"
      by (induction ls) auto
    with False Cons.prems[OF False] show ?thesis by (auto simp: backfill_def add_label_def)
  qed
  moreover have "\<And>l. l \<notin> set (add_label k ls) \<Longrightarrow> f l = replicate n None"
    using Cons.prems by (auto simp: add_label_def split: if_splits)
  ultimately show ?case using Cons.IH by simp
qed simp

lemma lastTimestamp_ring_of:
  "lastTimestamp (ring_of lg) = (if lg = [] then None else Some (fst (last lg)))"
proof (cases lg rule: rev_cases)
  case (snoc lg' x)
  have "lastn MAX_SAMPLES (map fst (lg' @ [x])) \<noteq> []"
    and "last (lastn MAX_SAMPLES (map fst (lg' @ [x]))) = fst x"
    by (auto simp: lastn_snoc MAX_SAMPLES_def)
  with snoc show ?thesis by (simp add: lastTimestamp_def ring_of_def last_opt_def)
qed (simp add: lastTimestamp_def ring_of_def lastn_def)

text \<open>
  The refinement: \<open>push\<close> on the windowed buffer is \<open>accept\<close> on the log it stands for, whatever the
  log, the sample and its labels.
\<close>

lemma push_ring_of:
  "push t vs (ring_of lg) =
     (if lg \<noteq> [] \<and> t \<le> fst (last lg) then (False, ring_of lg)
      else (True, ring_of (lg @ [(t, vs)])))"
proof (cases "lg \<noteq> [] \<and> t \<le> fst (last lg)")
  case True
  then show ?thesis using lastTimestamp_ring_of [of lg] by (simp add: push_def lastTimestamp_def)
next
  case False
  let ?lg = "lg @ [(t, vs)]" and ?M = MAX_SAMPLES
  let ?n = "length (lastn ?M (map fst lg))"
  let ?f = "\<lambda>l. lastn ?M (column lg l)"
  have guard: "\<not> (case last_opt (timestamps (ring_of lg)) of Some l \<Rightarrow> t \<le> l | None \<Rightarrow> False)"
    using False lastTimestamp_ring_of [of lg] by (auto simp: lastTimestamp_def)
  have fill: "fold (backfill ?n) (keys vs) (map (\<lambda>l. (l, ?f l)) (seen lg)) = map (\<lambda>l. (l, ?f l)) (seen ?lg)"
    unfolding seen_snoc snd_conv
    by (rule fold_backfill) (simp add: column_unseen lastn_def)
  have step: "(if ?M < Suc ?n then tl (?f l @ [read_value vs l]) else ?f l @ [read_value vs l])
      = lastn ?M (column ?lg l)" if "l \<in> set (seen ?lg)" for l
  proof -
    have c: "column ?lg l = column lg l @ [sampled vs l]" using that by (simp add: column_snoc)
    have "0 < ?M" by (simp add: MAX_SAMPLES_def)
    from push_window [OF this, of "column lg l" "sampled vs l"] show ?thesis unfolding c read_sampled by simp
  qed
  have ts: "(if ?M < Suc ?n then tl (lastn ?M (map fst lg) @ [t]) else lastn ?M (map fst lg) @ [t])
      = lastn ?M (map fst ?lg)"
    using push_window [of ?M "map fst lg" t] by (simp add: MAX_SAMPLES_def)
  have n: "?n = min ?M (length lg)" by simp
  show ?thesis
  proof (cases "length lg < ?M")
    case True
    with False guard fill step ts n show ?thesis
      by (auto simp: push_def Let_def ring_of_def cong: map_cong)
  next
    case full: False
    then have n': "?n = ?M" by (simp add: n)
    from False guard fill step ts n' show ?thesis
      by (auto simp: push_def Let_def ring_of_def min_def cong: map_cong)
  qed
qed

lemma push_accept: "snd (push t vs (ring_of lg)) = ring_of (accept (t, vs) lg)"
  by (simp add: push_ring_of accept_def)

lemma new_ring_of: "new_ring = ring_of []"
  by (simp add: new_ring_def ring_of_def lastn_def seen_def)

lemma run_pushes_ring_of: "run_pushes ps (ring_of lg) = ring_of (fold accept ps lg)"
  by (induction ps arbitrary: lg) (auto simp: run_pushes_def push_accept)

lemma accept_strictly_ascending:
  "sorted_wrt (<) (map fst lg) \<Longrightarrow> sorted_wrt (<) (map fst (accept x lg))"
  by (cases lg rule: rev_cases) (auto simp: accept_def sorted_wrt_append)

lemma fold_accept_ascending:
  "sorted_wrt (<) (map fst lg) \<Longrightarrow> sorted_wrt (<) (map fst (fold accept ps lg))"
  by (induction ps arbitrary: lg) (auto simp: accept_strictly_ascending)

lemma sorted_wrt_lastn: "sorted_wrt P xs \<Longrightarrow> sorted_wrt P (lastn n xs)"
  by (simp add: lastn_def sorted_wrt_drop)

section \<open>The invariant of a buffer\<close>

definition ring_ok :: "ring \<Rightarrow> bool" where
  "ring_ok r \<longleftrightarrow>
     sorted_wrt (<) (timestamps r) \<and> ring_length r \<le> MAX_SAMPLES \<and> amap_ok (series r) \<and>
     (\<forall>(l, points) \<in> set (series r). length points = ring_length r)"

lemma ring_ok_ring_of: "sorted_wrt (<) (map fst lg) \<Longrightarrow> ring_ok (ring_of lg)"
  by (auto simp: ring_ok_def ring_of_def ring_length_def amap_ok_def comp_def distinct_seen
      intro: sorted_wrt_lastn)

lemma ring_ok_run: "ring_ok (run_pushes ps new_ring)"
  by (simp add: new_ring_of run_pushes_ring_of ring_ok_ring_of fold_accept_ascending)

lemma drop_window:
  assumes "sorted_wrt (<) ts" and "find_index (\<lambda>t. c \<le> of_int t) ts = Some i"
  shows "drop i ts = filter (\<lambda>t. (c :: rat) \<le> of_int t) ts"
  using assms
proof (induction ts arbitrary: i)
  case (Cons t ts)
  show ?case
  proof (cases "c \<le> of_int t")
    case True
    with Cons.prems(1) have "\<forall>u \<in> set ts. c \<le> of_int u"
      by (auto intro: order_trans [OF True])
    with True Cons.prems show ?thesis by (simp add: filter_id_conv)
  next
    case False
    with Cons show ?thesis by auto
  qed
qed simp

lemma window_start_drop:
  assumes "sorted_wrt (<) ts" and "0 \<le> secs" and "ts \<noteq> []"
  shows "drop (window_start (Some secs) ts) ts = filter (\<lambda>t. of_int (last ts) - secs * 1000 \<le> of_int t) ts"
proof -
  let ?P = "\<lambda>t. of_int (last ts) - secs * 1000 \<le> of_int t"
  have "?P (last ts)" using assms(2) by simp
  then obtain i where "find_index ?P ts = Some i"
    using assms(3) by (metis find_index_None last_in_set option.exhaust)
  with assms drop_window [OF assms(1)] show ?thesis by (simp add: window_start_def)
qed

text \<open>The buffers that code can build: a window of some strictly ascending log.\<close>

definition ring_built :: "ring \<Rightarrow> bool" where
  "ring_built r \<longleftrightarrow> (\<exists>lg. sorted_wrt (<) (map fst lg) \<and> r = ring_of lg)"

lemma ring_built_ok: "ring_built r \<Longrightarrow> ring_ok r"
  by (auto simp: ring_built_def ring_ok_ring_of)

lemma ring_built_new: "ring_built new_ring"
  unfolding ring_built_def new_ring_of by (rule exI [of _ "[]"]) simp

lemma ring_built_push: "ring_built r \<Longrightarrow> ring_built (snd (push t vs r))"
  unfolding ring_built_def using accept_strictly_ascending push_accept by metis

interpretation rb: sample_buffer new_ring lastTimestamp push ring_built
proof
  show "lastTimestamp new_ring = None" by (simp add: new_ring_of lastTimestamp_ring_of)
  fix b t vs
  assume "ring_built b"
  then obtain lg where b: "b = ring_of lg" by (auto simp: ring_built_def)
  show "fst (push t vs b) \<longleftrightarrow> (case lastTimestamp b of None \<Rightarrow> True | Some l \<Rightarrow> l < t)"
    by (auto simp: b push_ring_of lastTimestamp_ring_of)
  show "fst (push t vs b) \<Longrightarrow> lastTimestamp (snd (push t vs b)) = Some t"
    by (auto simp: b push_ring_of lastTimestamp_ring_of split: if_splits)
  show "\<not> fst (push t vs b) \<Longrightarrow> snd (push t vs b) = b"
    by (auto simp: b push_ring_of split: if_splits)
qed (auto simp: ring_built_new ring_built_push)

section \<open>Properties\<close>

text \<open>
  C26. A buffer fed by any sequence of samples is the window of the last \<^verbatim>\<open>MAX_SAMPLES\<close> entries of the
  log of accepted samples: a sample is accepted iff its timestamp is newer than the newest one kept,
  every label ever seen has its line, and a line holds, sample by sample, the value listed for the label, null before the
  label first appeared and wherever a sample lacks it - unless the label names a member every object inherits, which is then read in its place (a finding).
\<close>

theorem ring_refines_log:
  "run_pushes ps new_ring = ring_of (fold accept ps [])"
  by (simp add: new_ring_of run_pushes_ring_of)

text \<open>
  Whatever is pushed, every series stays aligned with the timestamps, the timestamps strictly
  ascend, labels are unique and no more than \<^verbatim>\<open>MAX_SAMPLES\<close> samples are kept; the chart data has
  one row per label plus the time axis, all of one length. \<close>

theorem ring_aligned_and_bounded:
  "ring_ok (run_pushes ps new_ring) \<and> ring_length (run_pushes ps new_ring) \<le> 240 \<and>
   (\<exists>n. map length (toUplotData secs (run_pushes ps new_ring))
        = replicate (Suc (length (labels (run_pushes ps new_ring)))) n)"
proof -
  let ?r = "run_pushes ps new_ring"
  have ok: "ring_ok ?r" by (rule ring_ok_run)
  then have "\<forall>(l, points) \<in> set (series ?r). length points = length (timestamps ?r)"
    by (simp add: ring_ok_def ring_length_def)
  then have "map (\<lambda>x. length (snd x) - k) (series ?r)
      = replicate (length (series ?r)) (length (timestamps ?r) - k)" for k
    by (auto simp: map_replicate_const [symmetric] intro!: map_cong)
  then have "map length (toUplotData secs ?r)
      = replicate (Suc (length (labels ?r)))
          (length (timestamps ?r) - window_start secs (timestamps ?r))"
    by (simp add: toUplotData_def Let_def labels_def comp_def case_prod_beta)
  with ok show ?thesis by (auto simp: ring_ok_def MAX_SAMPLES_def)
qed

end
