(* ===== verification/MetricsCache.thy ===== *)
theory MetricsCache
  imports RingBuffer
begin

text \<open>
  \<^verbatim>\<open>web/src/utils/metricsCache.ts\<close>: the shared cache of ring buffers. The buffers are shared mutable
  objects - a chart keeps pushing into the one it was handed while the cache still holds it - so the
  model has an explicit store: \<open>heap\<close> is the list of all buffers ever made, \<open>entries\<close> the \<^verbatim>\<open>Map\<close> from
  scope to buffer (a position in \<open>heap\<close>), in insertion order. \<open>now\<close> is the value of \<^verbatim>\<open>Date.now()\<close>.
\<close>

record mcache =
  entries :: "(jstring \<times> nat) list"
  heap :: "ring list"

definition TTL_MS :: int where "TTL_MS = 60 * 60 * 1000"
definition MAX_SCOPES :: nat where "MAX_SCOPES = 64"

definition empty_cache :: mcache where
  "empty_cache = \<lparr>entries = [], heap = []\<rparr>"

definition newest_of :: "ring list \<Rightarrow> nat \<Rightarrow> int option" where
  "newest_of h b = lastTimestamp (h ! b)"

definition bind_scope :: "int \<Rightarrow> jstring \<Rightarrow> mcache \<Rightarrow> nat \<times> mcache" where
  "bind_scope now key c =
     (let make_fresh = (length (heap c),
            c\<lparr>entries := AList.update key (length (heap c)) (entries c), heap := heap c @ [new_ring]\<rparr>);
          reuse = (\<lambda>b. (b, c\<lparr>entries := AList.delete key (entries c) @ [(key, b)]\<rparr>))
      in case map_of (entries c) key of
           None \<Rightarrow> make_fresh
         | Some b \<Rightarrow>
             (case newest_of (heap c) b of
                None \<Rightarrow> reuse b
              | Some l \<Rightarrow> if now - l \<le> TTL_MS then reuse b else make_fresh))"

text \<open>The inner loop of \<^verbatim>\<open>evict\<close>; \<open>None\<close> for \<open>victimLast\<close> is \<^verbatim>\<open>Infinity\<close>.\<close>

fun find_victim :: "jstring list \<Rightarrow> (nat \<Rightarrow> int option) \<Rightarrow> jstring option \<Rightarrow> int option \<Rightarrow>
    (jstring \<times> nat) list \<Rightarrow> jstring option" where
  "find_victim protect newest victim victimLast [] = victim"
| "find_victim protect newest victim victimLast ((key, b) # es) =
     (if key \<in> set protect then find_victim protect newest victim victimLast es
      else (case newest b of
              None \<Rightarrow> Some key
            | Some l \<Rightarrow>
                if (case victimLast of None \<Rightarrow> True | Some v \<Rightarrow> l < v)
                then find_victim protect newest (Some key) (Some l) es
                else find_victim protect newest victim victimLast es))"

lemma find_victim_mem:
  "find_victim protect newest victim vl es = Some k \<Longrightarrow>
     victim = Some k \<or> (k \<in> set (keys es) \<and> k \<notin> set protect)"
  by (induction protect newest victim vl es rule: find_victim.induct)
     (auto split: if_splits option.splits)

function evict_loop :: "jstring list \<Rightarrow> (nat \<Rightarrow> int option) \<Rightarrow> (jstring \<times> nat) list \<Rightarrow> (jstring \<times> nat) list" where
  "evict_loop protect newest es =
     (if MAX_SCOPES < length es
      then (case find_victim protect newest None None es of
              None \<Rightarrow> es
            | Some victim \<Rightarrow> evict_loop protect newest (AList.delete victim es))
      else es)"
  by pat_completeness auto
termination
proof (relation "measure (\<lambda>(_, _, es). length es)", goal_cases)
  case (2 protect newest es victim)
  then have "victim \<in> set (keys es)" using find_victim_mem by fastforce
  then have "\<exists>p \<in> set es. fst p = victim" by auto
  then have "length (AList.delete victim es) < length es"
    unfolding AList.delete_eq by (auto intro: length_filter_less)
  then show ?case by simp
qed simp

declare evict_loop.simps [simp del]

definition evict :: "int \<Rightarrow> jstring list \<Rightarrow> mcache \<Rightarrow> mcache" where
  "evict now protect c =
     (let newest = newest_of (heap c);
          live = filter (\<lambda>(key, b). \<not> (case newest b of None \<Rightarrow> False | Some l \<Rightarrow> TTL_MS < now - l)) (entries c)
      in c\<lparr>entries := evict_loop protect newest live\<rparr>)"

fun bind_scopes :: "int \<Rightarrow> jstring list \<Rightarrow> mcache \<Rightarrow> nat list \<times> mcache" where
  "bind_scopes now [] c = ([], c)"
| "bind_scopes now (key # ks) c =
     (let (b, c1) = bind_scope now key c; (bs, c2) = bind_scopes now ks c1 in (b # bs, c2))"

definition getMetricsBuffers :: "int \<Rightarrow> jstring list \<Rightarrow> mcache \<Rightarrow> nat list \<times> mcache" where
  "getMetricsBuffers now ks c =
     (let (buffers, c1) = bind_scopes now ks c in (buffers, evict now ks c1))"

definition getMetricsBuffer :: "int \<Rightarrow> jstring \<Rightarrow> mcache \<Rightarrow> nat \<times> mcache" where
  "getMetricsBuffer now key c = (let (bs, c1) = getMetricsBuffers now [key] c in (hd bs, c1))"

definition clearMetricsCacheContext :: "jstring \<Rightarrow> mcache \<Rightarrow> mcache" where
  "clearMetricsCacheContext context c =
     c\<lparr>entries := filter (\<lambda>(key, b). \<not> starts_with (context @ '':'') key) (entries c)\<rparr>"

text \<open>A chart owner pushing into a buffer it holds.\<close>

definition push_into :: "nat \<Rightarrow> int \<Rightarrow> sample_values \<Rightarrow> mcache \<Rightarrow> mcache" where
  "push_into b t vs c = c\<lparr>heap := (heap c)[b := snd (push t vs (heap c ! b))]\<rparr>"

section \<open>Invariant\<close>

definition cache_ok :: "mcache \<Rightarrow> bool" where
  "cache_ok c \<longleftrightarrow>
     amap_ok (entries c) \<and> distinct (map snd (entries c)) \<and>
     (\<forall>b \<in> snd ` set (entries c). b < length (heap c)) \<and>
     (\<forall>r \<in> set (heap c). ring_built r)"

lemma cache_ok_empty [kc_inv]: "cache_ok empty_cache"
  by (simp add: cache_ok_def empty_cache_def)

lemma cache_ok_filter: "cache_ok c \<Longrightarrow> cache_ok (c\<lparr>entries := filter P (entries c)\<rparr>)"
  by (auto simp: cache_ok_def distinct_map_filter)

lemma cache_ok_fresh:
  assumes "cache_ok c"
  shows "cache_ok (c\<lparr>entries := AList.update key (length (heap c)) (entries c), heap := heap c @ [new_ring]\<rparr>)"
proof -
  let ?n = "length (heap c)"
  have sub: "snd ` set (AList.update key ?n es) \<subseteq> insert ?n (snd ` set es)" for es
    by (induction es) auto
  have new: "?n \<notin> snd ` set (entries c)"
    using assms by (auto simp: cache_ok_def)
  have dist: "distinct (map snd (AList.update key ?n es))"
    if "distinct (map snd es)" "?n \<notin> snd ` set es" for es
    using that
  proof (induction es)
    case (Cons e es)
    have "snd e \<notin> snd ` set (AList.update key ?n es)"
      using Cons.prems sub [of es] by auto
    with Cons show ?case by auto
  qed simp
  have "\<forall>b \<in> snd ` set (AList.update key ?n (entries c)). b < Suc ?n"
    using assms sub [of "entries c"] by (fastforce simp: cache_ok_def)
  with assms new dist show ?thesis
    by (auto simp: cache_ok_def ring_built_new)
qed

lemma cache_ok_reuse:
  assumes "cache_ok c" "map_of (entries c) key = Some b"
  shows "cache_ok (c\<lparr>entries := AList.delete key (entries c) @ [(key, b)]\<rparr>)"
proof -
  have mem: "(key, b) \<in> set (entries c)" using assms(2) by (rule map_of_SomeD)
  have "b \<notin> snd ` set (AList.delete key (entries c))"
  proof
    assume "b \<in> snd ` set (AList.delete key (entries c))"
    then obtain k where "(k, b) \<in> set (entries c)" "k \<noteq> key"
      by (auto simp: AList.delete_eq)
    with mem assms(1) show False
      by (fastforce simp: cache_ok_def distinct_map inj_on_def)
  qed
  moreover have "distinct (map snd (AList.delete key (entries c)))"
    using assms(1) by (auto simp: cache_ok_def AList.delete_eq distinct_map_filter)
  moreover have "amap_ok (AList.delete key (entries c) @ [(key, b)])"
    using assms(1) by (auto simp: cache_ok_def amap_ok_def keys_delete)
  moreover have "\<forall>x \<in> snd ` set (AList.delete key (entries c)). x < length (heap c)"
    using assms(1) by (auto simp: cache_ok_def AList.delete_eq)
  ultimately show ?thesis
    using assms(1) mem by (auto simp: cache_ok_def)
qed

lemma bind_scope_cases:
  obtains (fresh) "bind_scope now key c = (length (heap c),
      c\<lparr>entries := AList.update key (length (heap c)) (entries c), heap := heap c @ [new_ring]\<rparr>)"
  | (reuse) b where "map_of (entries c) key = Some b"
      "bind_scope now key c = (b, c\<lparr>entries := AList.delete key (entries c) @ [(key, b)]\<rparr>)"
      "case newest_of (heap c) b of None \<Rightarrow> True | Some l \<Rightarrow> now - l \<le> TTL_MS"
proof (cases "map_of (entries c) key")
  case None
  then show ?thesis using fresh by (simp add: bind_scope_def)
next
  case (Some b)
  then show ?thesis using fresh reuse
    by (cases "newest_of (heap c) b"; cases "now - the (newest_of (heap c) b) \<le> TTL_MS")
       (auto simp: bind_scope_def)
qed

lemma bind_scope_ok: "cache_ok c \<Longrightarrow> cache_ok (snd (bind_scope now key c))"
  by (cases rule: bind_scope_cases [of now key c]) (auto simp: cache_ok_fresh cache_ok_reuse)

lemma bind_scopes_ok: "cache_ok c \<Longrightarrow> cache_ok (snd (bind_scopes now ks c))"
proof (induction ks arbitrary: c)
  case (Cons k ks)
  then show ?case using bind_scope_ok [of c now k] by (auto simp: case_prod_beta)
qed simp

text \<open>A binding that is present and not past its lifetime.\<close>

definition bound_live :: "int \<Rightarrow> jstring \<Rightarrow> nat \<Rightarrow> mcache \<Rightarrow> bool" where
  "bound_live now k b c \<longleftrightarrow> map_of (entries c) k = Some b \<and> b < length (heap c) \<and>
     (case newest_of (heap c) b of None \<Rightarrow> True | Some l \<Rightarrow> now - l \<le> TTL_MS)"

lemma map_of_delete_append:
  "([key \<mapsto> b] ++ map_of (AList.delete key es)) k = (if k = key then Some b else map_of es k)"
  by (auto simp: map_add_def delete_conv' split: option.splits)

lemma bind_scope_bound:
  assumes "cache_ok c"
  shows "bound_live now key (fst (bind_scope now key c)) (snd (bind_scope now key c))"
proof (cases rule: bind_scope_cases [of now key c])
  case fresh
  then show ?thesis
    by (simp add: bound_live_def update_conv' newest_of_def nth_append rb.newest_fresh)
next
  case (reuse b)
  then have "b < length (heap c)"
    using assms map_of_SomeD [OF reuse(1)] by (force simp: cache_ok_def)
  with reuse show ?thesis
    by (simp add: bound_live_def map_of_delete_append)
qed

lemma bind_scope_keeps_bound:
  assumes "cache_ok c" "bound_live now k b c"
  shows "bound_live now k b (snd (bind_scope now key c)) \<and> (key = k \<longrightarrow> fst (bind_scope now key c) = b)"
proof (cases "key = k")
  case True
  with assms(2) have "bind_scope now key c = (b, c\<lparr>entries := AList.delete key (entries c) @ [(key, b)]\<rparr>)"
    by (cases "newest_of (heap c) b") (auto simp: bound_live_def bind_scope_def)
  with True assms(2) show ?thesis by (simp add: bound_live_def map_of_delete_append)
next
  case False
  show ?thesis
  proof (cases rule: bind_scope_cases [of now key c])
    case fresh
    with False assms(2) show ?thesis
      by (simp add: bound_live_def update_conv' newest_of_def nth_append)
  next
    case (reuse b')
    with False assms(2) show ?thesis by (simp add: bound_live_def map_of_delete_append)
  qed
qed

lemma bind_scopes_keeps_bound:
  "cache_ok c \<Longrightarrow> bound_live now k b c \<Longrightarrow> bound_live now k b (snd (bind_scopes now ks c))"
proof (induction ks arbitrary: c)
  case (Cons key ks)
  then show ?case using bind_scope_keeps_bound [of c now k b key] bind_scope_ok [of c now key]
    by (auto simp: case_prod_beta)
qed simp

lemma bind_scopes_bound:
  "cache_ok c \<Longrightarrow>
   list_all2 (\<lambda>k b. bound_live now k b (snd (bind_scopes now ks c))) ks (fst (bind_scopes now ks c))"
proof (induction ks arbitrary: c)
  case (Cons key ks)
  have ok: "cache_ok (snd (bind_scope now key c))" by (rule bind_scope_ok [OF Cons.prems])
  show ?case
    using Cons.IH [OF ok] bind_scopes_keeps_bound [OF ok bind_scope_bound [OF Cons.prems]]
    by (simp add: case_prod_beta)
qed simp

section \<open>Eviction\<close>

lemma find_victim_Some: "find_victim protect newest (Some v) vl es \<noteq> None"
proof (induction es arbitrary: v vl)
  case (Cons e es)
  then show ?case by (cases e) (auto split: option.splits)
qed simp

lemma find_victim_None:
  "find_victim protect newest None None es = None \<longleftrightarrow> set (keys es) \<subseteq> set protect"
proof (induction es)
  case (Cons e es)
  then show ?case using find_victim_Some by (cases e) (auto split: option.splits)
qed simp

lemma evict_loop_filter:
  "\<exists>P. evict_loop protect newest es = filter P es \<and> (\<forall>e \<in> set es. fst e \<in> set protect \<longrightarrow> P e)"
proof (induction protect newest es rule: evict_loop.induct)
  case (1 protect newest es)
  show ?case
  proof (cases "MAX_SCOPES < length es \<and> find_victim protect newest None None es \<noteq> None")
    case True
    then obtain v where v: "find_victim protect newest None None es = Some v" by auto
    then have np: "v \<notin> set protect" using find_victim_mem by fastforce
    from "1.IH" True v obtain P where
      P: "evict_loop protect newest (AList.delete v es) = filter P (AList.delete v es)"
         "\<forall>e \<in> set (AList.delete v es). fst e \<in> set protect \<longrightarrow> P e" by auto
    have "evict_loop protect newest es = filter (\<lambda>e. P e \<and> v \<noteq> fst e) es"
      using True v P(1) by (simp add: evict_loop.simps [of _ _ es] AList.delete_eq conj_commute case_prod_beta)
    moreover have "\<forall>e \<in> set es. fst e \<in> set protect \<longrightarrow> P e \<and> v \<noteq> fst e"
    proof (intro ballI impI conjI)
      fix e assume e: "e \<in> set es" "fst e \<in> set protect"
      then show ne: "v \<noteq> fst e" using np by auto
      with e have "e \<in> set (AList.delete v es)" by (simp add: AList.delete_eq case_prod_beta)
      with P(2) e show "P e" by blast
    qed
    ultimately show ?thesis by (intro exI [of _ "\<lambda>e. P e \<and> v \<noteq> fst e"]) blast
  next
    case False
    then have "evict_loop protect newest es = es"
      by (auto simp: evict_loop.simps [of _ _ es])
    then show ?thesis by (intro exI [of _ "\<lambda>_. True"]) simp
  qed
qed

lemma evict_loop_bound:
  "amap_ok es \<Longrightarrow> length (evict_loop protect newest es) \<le> max MAX_SCOPES (card (set protect))"
proof (induction protect newest es rule: evict_loop.induct)
  case (1 protect newest es)
  show ?case
  proof (cases "MAX_SCOPES < length es")
    case True
    show ?thesis
    proof (cases "find_victim protect newest None None es")
      case None
      then have "set (keys es) \<subseteq> set protect" by (simp add: find_victim_None)
      then have "card (set (keys es)) \<le> card (set protect)" by (simp add: card_mono)
      with "1.prems" have "length es \<le> card (set protect)"
        using distinct_card [of "keys es"] by (simp add: amap_ok_def)
      with True None show ?thesis by (simp add: evict_loop.simps [of _ _ es])
    next
      case (Some v)
      with True "1" show ?thesis by (simp add: evict_loop.simps [of _ _ es])
    qed
  qed (simp add: evict_loop.simps [of _ _ es])
qed

lemma evict_entries:
  obtains P where "evict now ks c = c\<lparr>entries := filter P (entries c)\<rparr>"
    and "\<forall>(k, b) \<in> set (filter P (entries c)).
           \<not> (case newest_of (heap c) b of None \<Rightarrow> False | Some l \<Rightarrow> TTL_MS < now - l)"
proof -
  let ?Q = "\<lambda>(key, b). \<not> (case newest_of (heap c) b of None \<Rightarrow> False | Some l \<Rightarrow> TTL_MS < now - l)"
  obtain P where "evict_loop ks (newest_of (heap c)) (filter ?Q (entries c)) = filter P (filter ?Q (entries c))"
    using evict_loop_filter by blast
  then have "evict now ks c = c\<lparr>entries := filter (\<lambda>x. ?Q x \<and> P x) (entries c)\<rparr>"
    by (simp add: evict_def Let_def)
  then show ?thesis by (rule that) auto
qed

lemma evict_ok: "cache_ok c \<Longrightarrow> cache_ok (evict now ks c)"
  by (rule evict_entries [of now ks c]) (simp add: cache_ok_filter)

lemma evict_keeps_bound:
  assumes "cache_ok c" "bound_live now k b c" "k \<in> set ks"
  shows "bound_live now k b (evict now ks c)"
proof -
  let ?live = "filter (\<lambda>(key, b). \<not> (case newest_of (heap c) b of None \<Rightarrow> False | Some l \<Rightarrow> TTL_MS < now - l)) (entries c)"
  obtain P where P: "evict_loop ks (newest_of (heap c)) ?live = filter P ?live"
      "\<forall>e \<in> set ?live. fst e \<in> set ks \<longrightarrow> P e"
    using evict_loop_filter [of ks _ ?live] by blast
  have "(k, b) \<in> set ?live"
    using assms(1,2) by (auto simp: bound_live_def map_of_SomeD split: option.splits)
  with P assms(3) have "(k, b) \<in> set (entries (evict now ks c))"
    by (auto simp: evict_def Let_def)
  moreover have "amap_ok (entries (evict now ks c))"
    using evict_ok [OF assms(1)] by (simp add: cache_ok_def)
  ultimately have "map_of (entries (evict now ks c)) k = Some b" by (simp add: map_of_eq_Some_iff')
  with assms(2) show ?thesis by (simp add: bound_live_def evict_def Let_def)
qed

lemma evict_bound:
  "cache_ok c \<Longrightarrow> length (entries (evict now ks c)) \<le> max MAX_SCOPES (card (set ks))"
  by (simp add: evict_def Let_def evict_loop_bound cache_ok_def)

section \<open>Runs of the cache\<close>

datatype cache_event =
    Get int "jstring list"
  | Push nat int sample_values
  | ClearContext jstring

fun cache_step :: "cache_event \<Rightarrow> mcache \<Rightarrow> mcache" where
  "cache_step (Get now ks) c = snd (getMetricsBuffers now ks c)"
| "cache_step (Push b t vs) c = (if b < length (heap c) then push_into b t vs c else c)"
| "cache_step (ClearContext context) c = clearMetricsCacheContext context c"

definition run_cache :: "cache_event list \<Rightarrow> mcache" where
  "run_cache es = fold cache_step es empty_cache"

lemma getMetricsBuffers_ok: "cache_ok c \<Longrightarrow> cache_ok (snd (getMetricsBuffers now ks c))"
  using bind_scopes_ok [of c now ks] by (simp add: getMetricsBuffers_def case_prod_beta Let_def evict_ok)

lemma push_into_ok: "cache_ok c \<Longrightarrow> b < length (heap c) \<Longrightarrow> cache_ok (push_into b t vs c)"
  by (auto simp: cache_ok_def push_into_def rb.add_ok dest!: set_update_subset_insert [THEN subsetD])

lemma cache_step_ok: "cache_ok c \<Longrightarrow> cache_ok (cache_step e c)"
  by (cases e) (auto simp: getMetricsBuffers_ok push_into_ok clearMetricsCacheContext_def cache_ok_filter)

lemma run_cache_ok: "cache_ok (run_cache es)"
proof -
  have "cache_ok c \<Longrightarrow> cache_ok (fold cache_step es c)" for c
    by (induction es arbitrary: c) (auto simp: cache_step_ok)
  then show ?thesis by (simp add: run_cache_def cache_ok_empty)
qed

lemma find_victim_oldest_gen:
  assumes "find_victim protect newest v vl es = Some k"
    and "\<And>w. v = Some w \<Longrightarrow> vl = f w" "v = None \<Longrightarrow> vl = None" "v \<noteq> None \<Longrightarrow> vl \<noteq> None"
    and "\<And>k' b'. (k', b') \<in> set es \<Longrightarrow> f k' = newest b'"
  shows "(\<forall>l. f k = Some l \<longrightarrow> (\<forall>m. vl = Some m \<longrightarrow> l \<le> m) \<and>
           (\<forall>(k', b') \<in> set es. k' \<notin> set protect \<longrightarrow> (\<exists>l'. newest b' = Some l' \<and> l \<le> l')))"
  using assms
proof (induction es arbitrary: v vl)
  case (Cons e es)
  obtain key b where e: "e = (key, b)" by fastforce
  have fb: "f key = newest b" using Cons.prems(5) e by simp
  have rest: "\<And>k' b'. (k', b') \<in> set es \<Longrightarrow> f k' = newest b'" using Cons.prems(5) by simp
  note IH = Cons.IH [OF _ _ _ _ rest]
  show ?case
  proof (cases "key \<in> set protect")
    case True
    with Cons.prems(1-4) e IH [of v vl] show ?thesis by auto
  next
    case False
    show ?thesis
    proof (cases "newest b")
      case None
      with False Cons.prems(1) e fb show ?thesis by simp
    next
      case (Some l)
      show ?thesis
      proof (cases "case vl of None \<Rightarrow> True | Some m \<Rightarrow> l < m")
        case True
        with False Some Cons.prems(1) e have "find_victim protect newest (Some key) (Some l) es = Some k" by simp
        from IH [OF this] fb Some have "\<forall>la. f k = Some la \<longrightarrow> la \<le> l \<and>
          (\<forall>(k', b') \<in> set es. k' \<notin> set protect \<longrightarrow> (\<exists>l'. newest b' = Some l' \<and> la \<le> l'))" by auto
        with True Some e show ?thesis by (fastforce split: option.splits)
      next
        case older: False
        with False Some Cons.prems(1) e have "find_victim protect newest v vl es = Some k" by simp
        from IH [OF this] Cons.prems(2-4) have "\<forall>la. f k = Some la \<longrightarrow> (\<forall>m. vl = Some m \<longrightarrow> la \<le> m) \<and>
          (\<forall>(k', b') \<in> set es. k' \<notin> set protect \<longrightarrow> (\<exists>l'. newest b' = Some l' \<and> la \<le> l'))" by blast
        with older Some e show ?thesis by (fastforce split: option.splits)
      qed
    qed
  qed
qed auto

section \<open>Properties\<close>

text \<open>
  In every state the application can reach, one call binding several scopes returns for each
  scope the buffer the cache then holds for it - none of them is evicted by a sibling of the same
  call - no returned buffer's newest sample is past the lifetime, scopes share no buffer, no stale
  entry survives, and the cache holds at most \<^verbatim>\<open>MAX_SCOPES\<close> scopes (or the scopes of the call). \<close>

theorem cache_binds_protected:
  "case getMetricsBuffers now ks (run_cache es) of (bs, c) \<Rightarrow>
     map (map_of (entries c)) ks = map Some bs \<and>
     list_all (\<lambda>(k, b). case newest_of (heap c) b of None \<Rightarrow> True | Some l \<Rightarrow> now - l \<le> TTL_MS) (entries c) \<and>
     distinct (map fst (entries c)) \<and> distinct (map snd (entries c)) \<and>
     length (entries c) \<le> max 64 (card (set ks))"
proof -
  obtain bs c1 where b: "bind_scopes now ks (run_cache es) = (bs, c1)" by fastforce
  have ok1: "cache_ok c1" using bind_scopes_ok [OF run_cache_ok, of now ks es] b by simp
  have live: "list_all2 (\<lambda>k b. bound_live now k b c1) ks bs"
    using bind_scopes_bound [OF run_cache_ok, of now ks es] b by simp
  have "map (map_of (entries (evict now ks c1))) ks = map Some bs"
  proof (rule nth_equalityI)
    fix i assume "i < length (map (map_of (entries (evict now ks c1))) ks)"
    with live have "bound_live now (ks ! i) (bs ! i) c1" and i: "i < length ks" "i < length bs"
      by (auto simp: list_all2_conv_all_nth)
    from evict_keeps_bound [OF ok1 this(1)] i
    show "map (map_of (entries (evict now ks c1))) ks ! i = map Some bs ! i"
      by (simp add: bound_live_def)
  qed (use live in \<open>simp add: list_all2_lengthD\<close>)
  moreover have "list_all (\<lambda>(k, b). case newest_of (heap c1) b of None \<Rightarrow> True | Some l \<Rightarrow> now - l \<le> TTL_MS)
      (entries (evict now ks c1))"
    by (rule evict_entries [of now ks c1]) (fastforce simp: list_all_iff not_less split: option.splits)
  moreover have "heap (evict now ks c1) = heap c1" by (simp add: evict_def Let_def)
  moreover have "cache_ok (evict now ks c1)" by (rule evict_ok [OF ok1])
  ultimately show ?thesis
    using evict_bound [OF ok1, of now ks] b
    by (simp add: getMetricsBuffers_def cache_ok_def amap_ok_def MAX_SCOPES_def)
qed

text \<open>
  At capacity the scope evicted is never one of the call's own, and among the others it is one
  without samples or the one whose newest sample is oldest - not the least recently bound. \<close>

theorem victim_is_oldest_newest_sample:
  assumes "amap_ok es" and "find_victim protect newest None None es = Some k"
  shows "k \<in> set (keys es) \<and> k \<notin> set protect \<and>
    (\<forall>l. newest (the (map_of es k)) = Some l \<longrightarrow>
      (\<forall>(k', b') \<in> set es. k' \<notin> set protect \<longrightarrow> (\<exists>l'. newest b' = Some l' \<and> l \<le> l')))"
proof -
  have "\<And>k' b'. (k', b') \<in> set es \<Longrightarrow> newest (the (map_of es k')) = newest b'"
    using assms(1) by (simp add: map_of_eq_Some_iff' [symmetric])
  from find_victim_oldest_gen [OF assms(2), of "\<lambda>k. newest (the (map_of es k))", OF _ _ _ this]
    find_victim_mem [OF assms(2)]
  show ?thesis by simp
qed

theorem victim_is_oldest_newest_sample_witness:
  "find_victim [''c''] (\<lambda>b. Some (10 - int b)) None None [(''a'', 1), (''b'', 2), (''c'', 3)] = Some ''b'' \<and>
   ''b'' \<notin> set [''c'']"
proof -
  let ?es = "[(''a'', 1), (''b'', 2), (''c'', 3)]"
  have h: "amap_ok ?es" "find_victim [''c''] (\<lambda>b. Some (10 - int b)) None None ?es = Some ''b''"
    by (simp_all add: amap_ok_def)
  from victim_is_oldest_newest_sample [OF this] h(2) show ?thesis by blast
qed

text \<open>
  Ending a context's session drops exactly the scopes under its prefix: no key of the form
  \<^verbatim>\<open><context>:...\<close> is left, and every other binding is kept, in order. \<close>

theorem clear_context_exact:
  "entries (clearMetricsCacheContext context c)
     = filter (\<lambda>(k, b). \<not> (\<exists>scope. k = context @ '':'' @ scope)) (entries c) \<and>
   heap (clearMetricsCacheContext context c) = heap c"
  by (simp add: clearMetricsCacheContext_def starts_with_iff)

text \<open>The prefix does not delimit context names that contain a colon: clearing \<^verbatim>\<open>a\<close> also drops the
  charts of a context called \<^verbatim>\<open>a:b\<close>.\<close>

lemma clear_context_prefix_collision:
  "map_of (entries (clearMetricsCacheContext ''a'' \<lparr>entries = [(''a:b:nodes'', 0)], heap = [new_ring]\<rparr>))
     ''a:b:nodes'' = None"
  by (simp add: clearMetricsCacheContext_def starts_with_def)

end
