(* ===== verification/Sort.thy ===== *)
theory Sort
  imports Prelude
begin

text \<open>
  \<^verbatim>\<open>Array.prototype.sort\<close>: a stable sort by a comparator that returns a number. The locale
  \<open>comparator\<close> states what the language requires of a comparator (a total preorder written as
  signed differences); under it every stable sort gives the same result, so the insertion sort used
  as the model is the behaviour of every conforming engine. \<open>str_cmp\<close> is the order of \<^verbatim>\<open><\<close> on
  strings, which is also the order of \<^verbatim>\<open>sort()\<close> without a comparator.
\<close>

fun js_insert :: "('a \<Rightarrow> 'a \<Rightarrow> 'n::linordered_idom) \<Rightarrow> 'a \<Rightarrow> 'a list \<Rightarrow> 'a list" where
  "js_insert cmp x [] = [x]"
| "js_insert cmp x (y # ys) = (if cmp x y \<le> 0 then x # y # ys else y # js_insert cmp x ys)"

definition js_sort :: "('a \<Rightarrow> 'a \<Rightarrow> 'n::linordered_idom) \<Rightarrow> 'a list \<Rightarrow> 'a list" where
  "js_sort cmp xs = foldr (js_insert cmp) xs []"

lemma js_sort_Nil [simp]: "js_sort cmp [] = []"
  by (simp add: js_sort_def)

lemma js_sort_Cons [simp]: "js_sort cmp (x # xs) = js_insert cmp x (js_sort cmp xs)"
  by (simp add: js_sort_def)

lemma mset_js_insert [simp]: "mset (js_insert cmp x xs) = add_mset x (mset xs)"
  by (induction xs) auto

lemma mset_js_sort [simp]: "mset (js_sort cmp xs) = mset xs"
  by (induction xs) auto

lemma set_js_sort [simp]: "set (js_sort cmp xs) = set xs"
  by (metis mset_js_sort set_mset_mset)

lemma set_js_insert [simp]: "set (js_insert cmp x xs) = insert x (set xs)"
  by (metis mset_js_insert set_mset_add_mset_insert set_mset_mset)

lemma length_js_sort [simp]: "length (js_sort cmp xs) = length xs"
  by (metis mset_js_sort size_mset)

locale comparator =
  fixes cmp :: "'a \<Rightarrow> 'a \<Rightarrow> 'n::linordered_idom"
  assumes cmp_swap: "cmp a b \<le> 0 \<longleftrightarrow> 0 \<le> cmp b a"
    and cmp_trans: "cmp a b \<le> 0 \<Longrightarrow> cmp b c \<le> 0 \<Longrightarrow> cmp a c \<le> 0"
begin

lemma cmp_refl [simp]: "cmp a a = 0"
  using cmp_swap [of a a] by linarith

lemma cmp_total: "cmp a b \<le> 0 \<or> cmp b a \<le> 0"
  using cmp_swap [of b a] by linarith

lemma cmp_zero_sym: "cmp a b = 0 \<longleftrightarrow> cmp b a = 0"
  using cmp_swap [of a b] cmp_swap [of b a] by (metis order_antisym order_refl)

lemma cmp_zero_trans: "cmp a b = 0 \<Longrightarrow> cmp b c = 0 \<Longrightarrow> cmp a c = 0"
  using cmp_trans [of a b c] cmp_trans [of c b a] cmp_swap [of c a] cmp_zero_sym [of a b]
    cmp_zero_sym [of b c] by auto

lemma js_insert_sorted:
  "sorted_wrt (\<lambda>a b. cmp a b \<le> 0) xs \<Longrightarrow> sorted_wrt (\<lambda>a b. cmp a b \<le> 0) (js_insert cmp x xs)"
proof (induction xs)
  case (Cons y ys)
  show ?case
  proof (cases "cmp x y \<le> 0")
    case True
    with Cons.prems show ?thesis by (auto intro: cmp_trans [OF True])
  next
    case False
    then have "cmp y x \<le> 0" using cmp_total by blast
    with False Cons show ?thesis by auto
  qed
qed simp

lemma js_sort_sorted: "sorted_wrt (\<lambda>a b. cmp a b \<le> 0) (js_sort cmp xs)"
  by (induction xs) (auto simp: js_insert_sorted)

lemma js_insert_stable:
  "filter (\<lambda>y. cmp z y = 0) (js_insert cmp x xs) = filter (\<lambda>y. cmp z y = 0) (x # xs)"
proof (induction xs)
  case (Cons y ys)
  show ?case
  proof (cases "cmp x y \<le> 0")
    case False
    have "\<not> (cmp z x = 0 \<and> cmp z y = 0)"
      using False cmp_zero_trans [of x z y] cmp_zero_sym [of x z] by auto
    with False Cons show ?thesis by auto
  qed simp
qed simp

lemma js_sort_stable: "filter (\<lambda>y. cmp z y = 0) (js_sort cmp xs) = filter (\<lambda>y. cmp z y = 0) xs"
  by (induction xs) (auto simp: js_insert_stable)

lemma sorted_head_unique:
  assumes "sorted_wrt (\<lambda>a b. cmp a b \<le> 0) (x # xs)" "sorted_wrt (\<lambda>a b. cmp a b \<le> 0) (y # ys)"
    and eq: "\<And>z. filter (\<lambda>w. cmp z w = 0) (x # xs) = filter (\<lambda>w. cmp z w = 0) (y # ys)"
  shows "x = y"
proof -
  have "x \<in> set (filter (\<lambda>w. cmp x w = 0) (x # xs))" by simp
  then have "x \<in> set (y # ys)" unfolding eq by (simp split: if_splits)
  then have "cmp y x \<le> 0" using assms(2) by auto
  moreover have "y \<in> set (filter (\<lambda>w. cmp y w = 0) (y # ys))" by simp
  then have "y \<in> set (x # xs)" unfolding eq [symmetric] by (simp split: if_splits)
  then have "cmp x y \<le> 0" using assms(1) by auto
  ultimately have "cmp x y = 0" using cmp_swap [of y x] by simp
  with eq [of x] show ?thesis by simp
qed

text \<open>Sorted and stable determines the result.\<close>

lemma stable_sort_unique:
  assumes "sorted_wrt (\<lambda>a b. cmp a b \<le> 0) xs" "sorted_wrt (\<lambda>a b. cmp a b \<le> 0) ys"
    and "\<And>z. filter (\<lambda>w. cmp z w = 0) xs = filter (\<lambda>w. cmp z w = 0) ys"
  shows "xs = ys"
  using assms
proof (induction xs arbitrary: ys)
  case Nil
  show ?case
  proof (cases ys)
    case (Cons y ys')
    with Nil(3) [of y] show ?thesis by simp
  qed simp
next
  case (Cons x xs)
  obtain y ys' where ys: "ys = y # ys'" using Cons.prems(3) [of x] by (cases ys) auto
  have "x = y" using sorted_head_unique [OF Cons.prems(1), of y ys'] Cons.prems(2,3) ys by simp
  moreover have "filter (\<lambda>w. cmp z w = 0) xs = filter (\<lambda>w. cmp z w = 0) ys'" for z
    using Cons.prems(3) [of z] ys \<open>x = y\<close> by (auto split: if_splits)
  ultimately show ?case using Cons.IH [of ys'] Cons.prems(1,2) ys by simp
qed

lemma js_sort_unique:
  assumes "sorted_wrt (\<lambda>a b. cmp a b \<le> 0) ys"
    and "\<And>z. filter (\<lambda>w. cmp z w = 0) ys = filter (\<lambda>w. cmp z w = 0) xs"
  shows "ys = js_sort cmp xs"
  using stable_sort_unique [OF assms(1) js_sort_sorted] assms(2) js_sort_stable by metis

end

section \<open>Comparators built from others\<close>

text \<open>\<^verbatim>\<open>c1(a, b) || c2(a, b)\<close>: the second comparator breaks the ties of the first.\<close>

definition cmp_then :: "('a \<Rightarrow> 'a \<Rightarrow> 'n::linordered_idom) \<Rightarrow> ('a \<Rightarrow> 'a \<Rightarrow> 'n) \<Rightarrow> 'a \<Rightarrow> 'a \<Rightarrow> 'n" where
  "cmp_then c1 c2 a b = (if c1 a b \<noteq> 0 then c1 a b else c2 a b)"

lemma comparator_on: "comparator c \<Longrightarrow> comparator (\<lambda>a b. c (f a) (f b))"
  unfolding comparator_def by blast

lemma comparator_then:
  assumes "comparator c1" "comparator c2"
  shows "comparator (cmp_then c1 c2)"
proof
  fix a b c
  note s1 = comparator.cmp_swap [OF assms(1)] and s2 = comparator.cmp_swap [OF assms(2)]
  note z1 = comparator.cmp_zero_sym [OF assms(1)]
  show "cmp_then c1 c2 a b \<le> 0 \<longleftrightarrow> 0 \<le> cmp_then c1 c2 b a"
    using s1 [of a b] s2 [of a b] z1 [of a b] by (simp add: cmp_then_def)
  assume le: "cmp_then c1 c2 a b \<le> 0" "cmp_then c1 c2 b c \<le> 0"
  then have l1: "c1 a b \<le> 0" "c1 b c \<le> 0" by (auto simp: cmp_then_def split: if_splits)
  then have ac: "c1 a c \<le> 0" by (rule comparator.cmp_trans [OF assms(1)])
  show "cmp_then c1 c2 a c \<le> 0"
  proof (cases "c1 a c = 0")
    case True
    then have "c1 c a \<le> 0" using s1 by simp
    then have "c1 b a \<le> 0" "c1 c b \<le> 0"
      using l1 comparator.cmp_trans [OF assms(1)] by blast+
    then have "c1 a b = 0" "c1 b c = 0" using l1 s1 by (meson order_antisym)+
    with le True show ?thesis
      using comparator.cmp_trans [OF assms(2), of a b c] by (simp add: cmp_then_def)
  qed (use ac in \<open>simp add: cmp_then_def\<close>)
qed

lemma comparator_diff: "comparator (\<lambda>a b. f a - (f b :: 'n::linordered_idom))"
  by unfold_locales auto

text \<open>The order of code units, as \<^verbatim>\<open>a < b\<close> on strings.\<close>

fun str_cmp :: "jstring \<Rightarrow> jstring \<Rightarrow> int" where
  "str_cmp [] [] = 0"
| "str_cmp [] (_ # _) = - 1"
| "str_cmp (_ # _) [] = 1"
| "str_cmp (a # as) (b # bs) =
     (if code a < code b then - 1 else if code b < code a then 1 else str_cmp as bs)"

lemma str_cmp_swap: "str_cmp a b = - str_cmp b a"
  by (induction a b rule: str_cmp.induct) auto

lemma str_cmp_trans: "str_cmp a b \<le> 0 \<Longrightarrow> str_cmp b c \<le> 0 \<Longrightarrow> str_cmp a c \<le> 0"
proof (induction a b arbitrary: c rule: str_cmp.induct)
  case (2 v va)
  then show ?case by (cases c) simp_all
next
  case (4 a as b bs)
  from "4.prems"(2) obtain d ds where c: "c = d # ds" by (cases c) simp_all
  consider "code a < code b" "code b \<le> code d" | "code a = code b" "code b < code d"
    | "code a = code b" "code b = code d"
    using "4.prems" unfolding c by (simp split: if_splits)
  then show ?case
  proof cases
    case 3
    with "4.prems" "4.IH" [of ds] show ?thesis unfolding c by simp
  qed (simp_all add: c)
qed simp_all

lemma str_cmp_zero: "str_cmp a b = 0 \<longleftrightarrow> a = b"
  by (induction a b rule: str_cmp.induct) (auto split: if_splits)

interpretation code_units: comparator str_cmp
proof
  show "str_cmp a b \<le> 0 \<longleftrightarrow> 0 \<le> str_cmp b a" for a b
    using str_cmp_swap [of a b] by linarith
qed (rule str_cmp_trans)

end
