(* ===== verification/PodSeries.thy ===== *)
theory PodSeries
  imports RingBuffer Sort
begin

text \<open>
  What the charts are fed with and summarised by: \<^verbatim>\<open>web/src/utils/podMetricsSeries.ts\<close> (one metrics
  sample as labelled series), \<^verbatim>\<open>metricsStats.ts\<close> (min/avg/max of a column) and
  \<^verbatim>\<open>metricsRanges.ts\<close> (the selectable windows and the polling floor). Values are exact rationals;
  rounding of doubles is not modelled.
\<close>

section \<open>Series of a pod\<close>

record container_usage =
  cu_name :: jstring
  cpuNanoCores :: rat
  memoryBytes :: rat

record metrics_item =
  item_namespace :: "jstring option"
  item_name :: jstring
  item_cpu :: rat
  item_mem :: rat
  item_containers :: "container_usage list option"

definition RESERVED_LABELS :: "jstring list" where
  "RESERVED_LABELS = [''total'', ''other'']"

definition containerLabel :: "jstring \<Rightarrow> jstring" where
  "containerLabel nm = (if nm \<in> set RESERVED_LABELS then nm @ '' (container)'' else nm)"

definition addContainerLines ::
    "(container_usage \<Rightarrow> rat) \<Rightarrow> nat \<Rightarrow> container_usage list \<Rightarrow> sample_values \<Rightarrow> sample_values" where
  "addContainerLines val cap containers out =
     (let sorted = js_sort (\<lambda>a b. val b - val a) containers;
          out1 = fold (\<lambda>c. AList.update (containerLabel (cu_name c)) (val c)) (take cap sorted) out;
          rest = drop cap sorted
      in if rest \<noteq> [] then AList.update ''other'' (sum_list (map val rest)) out1 else out1)"

definition podMetricsSeries :: "metrics_item \<Rightarrow> nat \<Rightarrow> sample_values \<times> sample_values" where
  "podMetricsSeries item maxContainerSeries =
     (let containers = (case item_containers item of None \<Rightarrow> [] | Some cs \<Rightarrow> cs)
      in case containers of
           [] \<Rightarrow> ([(''total'', item_cpu item)], [(''total'', item_mem item)])
         | [c] \<Rightarrow> ([(containerLabel (cu_name c), cpuNanoCores c)], [(containerLabel (cu_name c), memoryBytes c)])
         | _ \<Rightarrow> (addContainerLines cpuNanoCores maxContainerSeries containers [(''total'', item_cpu item)],
                 addContainerLines memoryBytes maxContainerSeries containers [(''total'', item_mem item)]))"

lemma comparator_desc: "comparator (\<lambda>a b. f b - (f a :: 'n::linordered_idom))"
  by unfold_locales auto

lemma fold_update_fresh:
  assumes "distinct (map f cs)" "set (map f cs) \<inter> set (keys out) = {}"
  shows "fold (\<lambda>c. AList.update (f c) (g c)) cs out = out @ map (\<lambda>c. (f c, g c)) cs"
  using assms
proof (induction cs arbitrary: out)
  case (Cons c cs)
  have "AList.update (f c) (g c) out = out @ [(f c, g c)]"
    using Cons.prems(2) by (induction out) auto
  with Cons show ?case by auto
qed simp

lemma containerLabel_inj:
  "CHR ''('' \<notin> set a \<Longrightarrow> CHR ''('' \<notin> set b \<Longrightarrow> containerLabel a = containerLabel b \<Longrightarrow> a = b"
  by (auto simp: containerLabel_def split: if_splits)

lemma containerLabel_unreserved [simp]:
  "containerLabel nm \<noteq> ''total''" "''total'' \<noteq> containerLabel nm"
  "containerLabel nm \<noteq> ''other''" "''other'' \<noteq> containerLabel nm"
  by (auto simp: containerLabel_def RESERVED_LABELS_def)

text \<open>The lines of a multi-container pod, spelled out: the aggregate, the top containers, the rest.\<close>

lemma addContainerLines_eq:
  assumes "distinct (map cu_name cs)" "\<forall>c \<in> set cs. CHR ''('' \<notin> set (cu_name c)"
  shows "addContainerLines val cap cs [(''total'', t)] =
    (''total'', t) # map (\<lambda>c. (containerLabel (cu_name c), val c)) (take cap (js_sort (\<lambda>a b. val b - val a) cs))
    @ (if drop cap (js_sort (\<lambda>a b. val b - val a) cs) = [] then []
       else [(''other'', sum_list (map val (drop cap (js_sort (\<lambda>a b. val b - val a) cs))))])"
proof -
  let ?s = "js_sort (\<lambda>a b. val b - val a) cs" and ?lab = "\<lambda>c. containerLabel (cu_name c)"
  have "mset (map cu_name ?s) = mset (map cu_name cs)" by simp
  with assms(1) have "distinct (map cu_name ?s)" by (metis mset_eq_imp_distinct_iff)
  moreover have "inj_on containerLabel (set (map cu_name ?s))"
    using assms(2) containerLabel_inj by (auto intro!: inj_onI)
  ultimately have d: "distinct (map ?lab ?s)"
    by (simp add: distinct_map comp_def) (auto simp: inj_on_def)
  then have "distinct (map ?lab (take cap ?s))" by (simp flip: take_map add: distinct_take)
  moreover have res: "''total'' \<notin> set (map ?lab xs)" "''other'' \<notin> set (map ?lab xs)" for xs
    by auto
  ultimately have "fold (\<lambda>c. AList.update (?lab c) (val c)) (take cap ?s) [(''total'', t)]
      = (''total'', t) # map (\<lambda>c. (?lab c, val c)) (take cap ?s)"
    by (subst fold_update_fresh) auto
  moreover have "AList.update ''other'' v ((''total'', t) # map (\<lambda>c. (?lab c, val c)) xs)
      = (''total'', t) # map (\<lambda>c. (?lab c, val c)) xs @ [(''other'', v)]" for v xs
    using res(2) [of xs] by (induction xs) auto
  moreover define top rest where "top = take cap ?s" and "rest = drop cap ?s"
  ultimately show ?thesis
    unfolding addContainerLines_def Let_def top_def [symmetric] rest_def [symmetric] by simp
qed

lemma sum_take_drop: "sum_list (map val (take n xs)) + sum_list (map val (drop n xs)) = sum_list (map val xs)"
  for val :: "'a \<Rightarrow> 'b::comm_monoid_add"
  by (metis append_take_drop_id map_append sum_list.append)

lemma sum_list_js_sort: "sum_list (map val (js_sort cmp xs)) = sum_list (map val xs)"
  for val :: "'a \<Rightarrow> 'b::comm_monoid_add"
  by (metis mset_js_sort mset_map sum_mset_sum_list)

lemma container_lines:
  assumes "distinct (map cu_name cs)" "\<forall>c \<in> set cs. CHR ''('' \<notin> set (cu_name c)"
  shows "map_of (addContainerLines val cap cs [(''total'', t)]) ''total'' = Some t"
    and "sum_list (map snd (AList.delete ''total'' (addContainerLines val cap cs [(''total'', t)])))
         = sum_list (map val cs)"
    and "length (addContainerLines val cap cs [(''total'', t)]) \<le> cap + 2"
proof -
  let ?s = "js_sort (\<lambda>a b. val b - val a) cs"
  have "filter (\<lambda>(k, v). ''total'' \<noteq> k) (map (\<lambda>c. (containerLabel (cu_name c), val c)) xs)
      = map (\<lambda>c. (containerLabel (cu_name c), val c)) xs" for xs
    by (auto simp: filter_id_conv)
  then show "sum_list (map snd (AList.delete ''total'' (addContainerLines val cap cs [(''total'', t)])))
         = sum_list (map val cs)"
    using sum_take_drop [of val cap ?s]
    by (simp add: addContainerLines_eq [OF assms] AList.delete_eq comp_def sum_list_js_sort del: append_take_drop_id)
qed (auto simp: addContainerLines_eq [OF assms])

text \<open>Every container with a line of its own uses at least as much as every one rolled up.\<close>

lemma top_containers:
  assumes "c \<in> set (take cap (js_sort (\<lambda>a b. val b - val a) cs))"
    and "d \<in> set (drop cap (js_sort (\<lambda>a b. val b - val a) cs))"
  shows "val d \<le> (val c :: rat)"
proof -
  let ?s = "js_sort (\<lambda>a b. val b - val a) cs"
  have "sorted_wrt (\<lambda>a b. val b - val a \<le> 0) (take cap ?s @ drop cap ?s)"
    using comparator.js_sort_sorted [OF comparator_desc [of val]] by simp
  with assms have "val d - val c \<le> 0" by (simp only: sorted_wrt_append)
  then show ?thesis by simp
qed

section \<open>Statistics of a column\<close>

record series_stat =
  st_min :: "rat option"
  st_avg :: "rat option"
  st_max :: "rat option"

text \<open>\<^verbatim>\<open>Number.isFinite\<close> on a cell: numbers pass, null and everything else does not.\<close>

definition finite_cell :: "cell \<Rightarrow> rat option" where
  "finite_cell v = (case v of Some (Num q) \<Rightarrow> Some q | _ \<Rightarrow> None)"

text \<open>The loop of \<open>seriesStats\<close>; \<open>None\<close> stands for the initial \<^verbatim>\<open>Infinity\<close> and \<^verbatim>\<open>-Infinity\<close>.\<close>

fun stats_loop :: "rat option \<Rightarrow> rat option \<Rightarrow> rat \<Rightarrow> nat \<Rightarrow> cell list \<Rightarrow>
    rat option \<times> rat option \<times> rat \<times> nat" where
  "stats_loop mn mx sm cnt [] = (mn, mx, sm, cnt)"
| "stats_loop mn mx sm cnt (v # vs) =
     (case finite_cell v of
        None \<Rightarrow> stats_loop mn mx sm cnt vs
      | Some q \<Rightarrow>
          stats_loop (if (case mn of None \<Rightarrow> True | Some m \<Rightarrow> q < m) then Some q else mn)
            (if (case mx of None \<Rightarrow> True | Some m \<Rightarrow> m < q) then Some q else mx)
            (sm + q) (Suc cnt) vs)"

definition seriesStats :: "cell list list \<Rightarrow> nat \<Rightarrow> series_stat" where
  "seriesStats data seriesIndex =
     (let none = \<lparr>st_min = None, st_avg = None, st_max = None\<rparr>
      in if length data \<le> seriesIndex + 1 then none
         else (case stats_loop None None 0 0 (data ! (seriesIndex + 1)) of
                 (mn, mx, sm, cnt) \<Rightarrow>
                   if cnt = 0 then none
                   else \<lparr>st_min = mn, st_avg = Some (sm / of_nat cnt), st_max = mx\<rparr>))"

fun finite_values :: "cell list \<Rightarrow> rat list" where
  "finite_values [] = []"
| "finite_values (v # vs) =
     (case finite_cell v of None \<Rightarrow> finite_values vs | Some q \<Rightarrow> q # finite_values vs)"

lemma Min_insert2: "finite S \<Longrightarrow> Min (insert a (insert q S)) = Min (insert (if q < a then q else a) S)"
  for a q :: "'a::linorder"
  by (cases "S = {}"; cases "q < a") (simp_all add: min.absorb1 min.absorb2 flip: min.assoc)

lemma Max_insert2: "finite S \<Longrightarrow> Max (insert a (insert q S)) = Max (insert (if a < q then q else a) S)"
  for a q :: "'a::linorder"
  by (cases "S = {}"; cases "a < q") (simp_all add: max.absorb1 max.absorb2 flip: max.assoc)

lemma stats_loop_some:
  "stats_loop (Some a) (Some b) sm cnt vs =
     (Some (Min (insert a (set (finite_values vs)))), Some (Max (insert b (set (finite_values vs)))),
      sm + sum_list (finite_values vs), cnt + length (finite_values vs))"
proof (induction vs arbitrary: a b sm cnt)
  case (Cons v vs)
  then show ?case by (cases "finite_cell v") (simp_all add: add.assoc Min_insert2 Max_insert2 del: Min_insert Max_insert)
qed simp

lemma stats_loop_init:
  "stats_loop None None 0 0 vs =
     (let fs = finite_values vs
      in if fs = [] then (None, None, 0, 0)
         else (Some (Min (set fs)), Some (Max (set fs)), sum_list fs, length fs))"
  by (induction vs) (auto simp: stats_loop_some Let_def split: option.splits)

lemma sum_list_bounds:
  assumes "\<forall>x \<in> set xs. a \<le> x \<and> x \<le> (b :: rat)"
  shows "a * of_nat (length xs) \<le> sum_list xs \<and> sum_list xs \<le> b * of_nat (length xs)"
  using assms by (induction xs) (auto simp: algebra_simps)

section \<open>Ranges\<close>

definition METRICS_RANGE_SECONDS :: "(jstring \<times> rat) list" where
  "METRICS_RANGE_SECONDS = [(''5m'', 300), (''15m'', 900), (''1h'', 3600)]"

definition METRICS_RANGE_OPTIONS :: "jstring list" where
  "METRICS_RANGE_OPTIONS = map fst METRICS_RANGE_SECONDS"

definition METRICS_MIN_INTERVAL_SECONDS :: int where
  "METRICS_MIN_INTERVAL_SECONDS = 15"

definition metricsIntervalMs :: "int \<Rightarrow> int" where
  "metricsIntervalMs pollIntervalSeconds = max METRICS_MIN_INTERVAL_SECONDS pollIntervalSeconds * 1000"

section \<open>Properties\<close>

text \<open>
  A pod sample with several containers (container names cannot contain a parenthesis) always
  yields the pod aggregate under \<^verbatim>\<open>total\<close>, and the remaining lines of each chart add up to exactly the
  containers' usage - nothing is lost in the \<^verbatim>\<open>other\<close> rollup or to a reserved name - in at most
  \<^verbatim>\<open>maxContainerSeries + 2\<close> lines. \<close>

theorem pod_series_conserve_usage:
  assumes "item_containers item = Some cs" "2 \<le> length cs"
    and "distinct (map cu_name cs)" "\<forall>c \<in> set cs. CHR ''('' \<notin> set (cu_name c)"
  shows "case podMetricsSeries item cap of (cpu, mem) \<Rightarrow>
     map_of cpu ''total'' = Some (item_cpu item) \<and> map_of mem ''total'' = Some (item_mem item) \<and>
     sum_list (map snd (AList.delete ''total'' cpu)) = sum_list (map cpuNanoCores cs) \<and>
     sum_list (map snd (AList.delete ''total'' mem)) = sum_list (map memoryBytes cs) \<and>
     length cpu \<le> cap + 2 \<and> length mem \<le> cap + 2"
proof -
  obtain c d ds where cs: "cs = c # d # ds" using assms(2) by (cases cs; cases "tl cs") auto
  have "podMetricsSeries item cap =
    (addContainerLines cpuNanoCores cap cs [(''total'', item_cpu item)],
     addContainerLines memoryBytes cap cs [(''total'', item_mem item)])"
    using assms(1) by (simp add: podMetricsSeries_def cs Let_def)
  then show ?thesis using container_lines [OF assms(3,4)] by simp
qed

theorem pod_series_conserve_usage_witness:
  "\<exists>item cpu mem. podMetricsSeries item 1 = (cpu, mem) \<and>
     sum_list (map snd (AList.delete ''total'' cpu)) = 12 \<and> length cpu \<le> 3"
proof -
  let ?cs = "[\<lparr>cu_name = ''app'', cpuNanoCores = 7, memoryBytes = 20\<rparr>,
              \<lparr>cu_name = ''total'', cpuNanoCores = 4, memoryBytes = 30\<rparr>,
              \<lparr>cu_name = ''sidecar'', cpuNanoCores = 1, memoryBytes = 2\<rparr>]"
  let ?item = "\<lparr>item_namespace = None, item_name = ''web'', item_cpu = 12, item_mem = 52, item_containers = Some ?cs\<rparr>"
  from pod_series_conserve_usage [of ?item ?cs 1]
  show ?thesis
    by (intro exI [of _ ?item] exI [of _ "fst (podMetricsSeries ?item 1)"]
        exI [of _ "snd (podMetricsSeries ?item 1)"]) (simp add: case_prod_beta)
qed

text \<open>
  The statistics of a series exist exactly when it has a finite sample; then the minimum and
  maximum are those of the finite samples and the average lies between them. \<close>

theorem series_stats_correct:
  "case seriesStats data i of st \<Rightarrow>
     if length data \<le> i + 1 \<or> finite_values (data ! (i + 1)) = []
     then st = \<lparr>st_min = None, st_avg = None, st_max = None\<rparr>
     else \<exists>avg. st = \<lparr>st_min = Some (Min (set (finite_values (data ! (i + 1))))), st_avg = Some avg,
                 st_max = Some (Max (set (finite_values (data ! (i + 1)))))\<rparr> \<and>
        avg * of_nat (length (finite_values (data ! (i + 1)))) = sum_list (finite_values (data ! (i + 1))) \<and>
        Min (set (finite_values (data ! (i + 1)))) \<le> avg \<and> avg \<le> Max (set (finite_values (data ! (i + 1))))"
proof -
  let ?fs = "finite_values (data ! (i + 1))"
  have b: "Min (set ?fs) * of_nat (length ?fs) \<le> sum_list ?fs \<and> sum_list ?fs \<le> Max (set ?fs) * of_nat (length ?fs)"
    by (rule sum_list_bounds) auto
  show ?thesis
  proof (cases "length data \<le> i + 1 \<or> ?fs = []")
    case True
    then show ?thesis by (auto simp: seriesStats_def stats_loop_init Let_def)
  next
    case False
    then have pos: "(0 :: rat) < of_nat (length ?fs)" by simp
    from False have "seriesStats data i = \<lparr>st_min = Some (Min (set ?fs)),
        st_avg = Some (sum_list ?fs / of_nat (length ?fs)), st_max = Some (Max (set ?fs))\<rparr>"
      by (simp add: seriesStats_def stats_loop_init Let_def)
    moreover have "Min (set ?fs) \<le> sum_list ?fs / of_nat (length ?fs)"
      "sum_list ?fs / of_nat (length ?fs) \<le> Max (set ?fs)"
      using b pos by (simp_all add: pos_le_divide_eq pos_divide_le_eq)
    ultimately show ?thesis using False pos by auto
  qed
qed

end
