(* ===== verification/CommandLine.thy ===== *)
theory CommandLine
  imports Prelude
begin

text \<open>
  The pod terminal's command line and container choice: \<^verbatim>\<open>web/src/utils/podHelpers.ts\<close> and
  \<^verbatim>\<open>shellPresets.ts\<close>. The parser's \<^verbatim>\<open>for\<close> loop is \<open>parse_loop\<close>, with the loop variables
  \<^verbatim>\<open>argv\<close>, \<^verbatim>\<open>current\<close>, \<^verbatim>\<open>started\<close> and \<^verbatim>\<open>quote\<close> as arguments and the rest of the line as the list it
  recurses on; \<^verbatim>\<open>line[++i]\<close> consumes the next character as well.
\<close>

section \<open>Containers\<close>

datatype container_kind = Container | Ephemeral | Init

record pod_container =
  pc_name :: jstring
  pc_kind :: container_kind

text \<open>The parts of a pod object that are read; \<open>None\<close> is an absent field.\<close>

record pod_like =
  pod_containers :: "jstring option list option"
  pod_initContainers :: "jstring option list option"
  pod_ephemeralContainers :: "jstring option list option"
  pod_annotations :: "(jstring \<times> jstring) list option"

definition DEFAULT_CONTAINER_ANNOTATION :: jstring where
  "DEFAULT_CONTAINER_ANNOTATION = ''kubectl.kubernetes.io/default-container''"

definition named :: "jstring option list option \<Rightarrow> container_kind \<Rightarrow> pod_container list" where
  "named xs kind =
     filter (\<lambda>c. pc_name c \<noteq> [])
       (map (\<lambda>n. \<lparr>pc_name = (case n of None \<Rightarrow> [] | Some s \<Rightarrow> s), pc_kind = kind\<rparr>)
         (case xs of None \<Rightarrow> [] | Some l \<Rightarrow> l))"

definition podContainers :: "pod_like \<Rightarrow> pod_container list" where
  "podContainers pod =
     named (pod_containers pod) Container @ named (pod_ephemeralContainers pod) Ephemeral
     @ named (pod_initContainers pod) Init"

definition defaultContainerName :: "pod_like \<Rightarrow> jstring" where
  "defaultContainerName pod =
     (let cs = podContainers pod;
          annotated = Option.bind (pod_annotations pod) (\<lambda>m. map_of m DEFAULT_CONTAINER_ANNOTATION);
          fallback = (case find (\<lambda>c. pc_kind c = Container) cs of
                        Some c \<Rightarrow> pc_name c
                      | None \<Rightarrow> (case cs of c # _ \<Rightarrow> pc_name c | [] \<Rightarrow> []))
      in case annotated of
           Some a \<Rightarrow> if list_ex (\<lambda>c. pc_name c = a) cs then a else fallback
         | None \<Rightarrow> fallback)"

lemma podContainers_named: "c \<in> set (podContainers pod) \<Longrightarrow> pc_name c \<noteq> []"
  by (auto simp: podContainers_def named_def)

text \<open>The preselected container is one of the pod's, and the annotation wins when it names one.\<close>

lemma default_container_in_pod:
  assumes "podContainers pod \<noteq> []"
  shows "defaultContainerName pod \<in> set (map pc_name (podContainers pod))"
proof -
  let ?cs = "podContainers pod"
  let ?f = "case find (\<lambda>c. pc_kind c = Container) ?cs of Some c \<Rightarrow> pc_name c
            | None \<Rightarrow> (case ?cs of c # _ \<Rightarrow> pc_name c | [] \<Rightarrow> [])"
  have "?f \<in> set (map pc_name ?cs)"
  proof (cases "find (\<lambda>c. pc_kind c = Container) ?cs")
    case None
    then show ?thesis using assms by (cases ?cs) auto
  next
    case (Some c)
    then have "c \<in> set ?cs" by (auto simp: find_Some_iff)
    with Some show ?thesis by simp
  qed
  then show ?thesis
    by (auto simp: defaultContainerName_def Let_def list_ex_iff split: option.splits)
qed

lemma default_container_annotated:
  "pod_annotations pod = Some m \<Longrightarrow> map_of m DEFAULT_CONTAINER_ANNOTATION = Some a \<Longrightarrow>
   a \<in> set (map pc_name (podContainers pod)) \<Longrightarrow> defaultContainerName pod = a"
  by (auto simp: defaultContainerName_def Let_def list_ex_iff)

section \<open>Command lines\<close>

datatype quote_state = NoQuote | SingleQuote | DoubleQuote

abbreviation "sq \<equiv> CHR 0x27"
abbreviation "dq \<equiv> CHR 0x22"
abbreviation "bs \<equiv> CHR 0x5C"
abbreviation "sp \<equiv> CHR 0x20"

fun parse_loop :: "jstring list \<Rightarrow> jstring \<Rightarrow> bool \<Rightarrow> quote_state \<Rightarrow> jstring \<Rightarrow> jstring list" where
  "parse_loop argv current started quote [] = (if started then argv @ [current] else argv)"
| "parse_loop argv current started SingleQuote (ch # cs) =
     (if ch = sq then parse_loop argv current started NoQuote cs
      else parse_loop argv (current @ [ch]) started SingleQuote cs)"
| "parse_loop argv current started DoubleQuote [ch] =
     (if ch = dq then parse_loop argv current started NoQuote []
      else parse_loop argv (current @ [ch]) started DoubleQuote [])"
| "parse_loop argv current started DoubleQuote (ch # nx # cs) =
     (if ch = bs \<and> (nx = dq \<or> nx = bs) then parse_loop argv (current @ [nx]) started DoubleQuote cs
      else if ch = dq then parse_loop argv current started NoQuote (nx # cs)
      else parse_loop argv (current @ [ch]) started DoubleQuote (nx # cs))"
| "parse_loop argv current started NoQuote [ch] =
     (if ch = sq then parse_loop argv current True SingleQuote []
      else if ch = dq then parse_loop argv current True DoubleQuote []
      else if is_space ch then parse_loop (if started then argv @ [current] else argv) [] False NoQuote []
      else parse_loop argv (current @ [ch]) True NoQuote [])"
| "parse_loop argv current started NoQuote (ch # nx # cs) =
     (if ch = sq then parse_loop argv current True SingleQuote (nx # cs)
      else if ch = dq then parse_loop argv current True DoubleQuote (nx # cs)
      else if ch = bs then parse_loop argv (current @ [nx]) True NoQuote cs
      else if is_space ch then parse_loop (if started then argv @ [current] else argv) [] False NoQuote (nx # cs)
      else parse_loop argv (current @ [ch]) True NoQuote (nx # cs))"

definition parseCommandLine :: "jstring \<Rightarrow> jstring list" where
  "parseCommandLine line = parse_loop [] [] False NoQuote line"

text \<open>\<^verbatim>\<open>/^[A-Za-z0-9_@%+=:,./-]+$/\<close>.\<close>

definition unquoted_char :: "char \<Rightarrow> bool" where
  "unquoted_char c \<longleftrightarrow> is_upper_alpha c \<or> is_lower_alpha c \<or> is_digit c \<or> c \<in> set ''_@%+=:,./-''"

definition unquoted_arg :: "jstring \<Rightarrow> bool" where
  "unquoted_arg arg \<longleftrightarrow> arg \<noteq> [] \<and> list_all unquoted_char arg"

definition quoteArg :: "jstring \<Rightarrow> jstring" where
  "quoteArg arg =
     (if unquoted_arg arg then arg
      else if sq \<notin> set arg then [sq] @ arg @ [sq]
      else [dq] @ concat (map (\<lambda>c. if c = dq \<or> c = bs then [bs, c] else [c]) arg) @ [dq])"

definition formatCommandLine :: "jstring list \<Rightarrow> jstring" where
  "formatCommandLine argv = join [sp] (map quoteArg argv)"

definition isMissingExecutableError :: "jstring \<Rightarrow> bool" where
  "isMissingExecutableError message =
     (let m = to_lower message
      in str_includes ''executable file not found'' m \<or> str_includes ''no such file or directory'' m \<or>
         str_includes ''not found in path'' m \<or> str_includes ''not found in $path'' m)"

definition debugContainerHint :: "jstring \<Rightarrow> jstring \<Rightarrow> jstring \<Rightarrow> jstring" where
  "debugContainerHint namespace pod container =
     ''This container has no shell (distroless images ship none). Attach a debug container instead: kubectl debug -it -n ''
     @ namespace @ '' '' @ pod @ '' --image=busybox''
     @ (if container \<noteq> [] then '' --target='' @ container else [])"

lemma unquoted_char_plain:
  "unquoted_char c \<Longrightarrow> c \<noteq> sq \<and> c \<noteq> dq \<and> c \<noteq> bs \<and> \<not> is_space c"
  by (auto simp: unquoted_char_def is_upper_alpha_def is_lower_alpha_def is_digit_def is_space_def)

lemma parse_unquoted:
  assumes "list_all unquoted_char arg"
  shows "parse_loop argv current started NoQuote (arg @ rest) =
    parse_loop argv (current @ arg) (started \<or> arg \<noteq> []) NoQuote rest"
  using assms
proof (induction arg arbitrary: current started)
  case (Cons c cs)
  then have "c \<noteq> sq" "c \<noteq> dq" "c \<noteq> bs" "\<not> is_space c"
    using unquoted_char_plain by auto
  with Cons show ?case by (cases "cs @ rest") auto
qed simp

lemma parse_single_quoted:
  "sq \<notin> set arg \<Longrightarrow>
   parse_loop argv current True SingleQuote (arg @ sq # rest) = parse_loop argv (current @ arg) True NoQuote rest"
  by (induction arg arbitrary: current) auto

lemma parse_double_quoted:
  "parse_loop argv current True DoubleQuote
     (concat (map (\<lambda>c. if c = dq \<or> c = bs then [bs, c] else [c]) arg) @ dq # rest) =
   parse_loop argv (current @ arg) True NoQuote rest"
proof (induction arg arbitrary: current)
  case Nil
  then show ?case by (cases rest) auto
next
  case (Cons c cs)
  then show ?case
    by (cases "concat (map (\<lambda>c. if c = dq \<or> c = bs then [bs, c] else [c]) cs) @ dq # rest") auto
qed

text \<open>One rendered argument, read back from a fresh state.\<close>

lemma parse_quoteArg:
  "parse_loop argv [] False NoQuote (quoteArg arg @ rest) = parse_loop argv arg True NoQuote rest"
proof -
  have s: "parse_loop argv [] False NoQuote (sq # xs) = parse_loop argv [] True SingleQuote xs"
    and d: "parse_loop argv [] False NoQuote (dq # xs) = parse_loop argv [] True DoubleQuote xs" for xs
    by (cases xs; simp)+
  show ?thesis
    using parse_unquoted [of arg argv "[]" False rest] parse_single_quoted [of arg argv "[]" rest]
      parse_double_quoted [of argv "[]" arg rest]
    by (simp add: quoteArg_def unquoted_arg_def s d)
qed

lemma parse_format_from: "parse_loop argv [] False NoQuote (formatCommandLine args) = argv @ args"
proof (induction args arbitrary: argv)
  case (Cons a as)
  have step: "parse_loop argv a True NoQuote (sp # xs) = parse_loop (argv @ [a]) [] False NoQuote xs" for xs
    by (cases xs) (auto simp: is_space_def)
  show ?case
  proof (cases as)
    case Nil
    then show ?thesis using parse_quoteArg [of argv a "[]"] by (simp add: formatCommandLine_def)
  next
    case (Cons b bs)
    then have "formatCommandLine (a # as) = quoteArg a @ sp # formatCommandLine as"
      by (simp add: formatCommandLine_def)
    then show ?thesis using Cons.IH [of "argv @ [a]"] parse_quoteArg step by simp
  qed
qed (simp add: formatCommandLine_def)

section \<open>Presets\<close>

record shell_preset =
  sh_id :: jstring
  sh_label :: jstring
  sh_hint :: "jstring option"
  sh_argv :: "jstring list"

definition AUTO_PRESET_ID :: jstring where "AUTO_PRESET_ID = ''auto''"

definition AUTO_SCRIPT :: jstring where
  "AUTO_SCRIPT = ''export TERM=xterm-256color; command -v bash >/dev/null 2>&1 && exec bash; exec sh''"

definition SHELL_PRESETS :: "shell_preset list" where
  "SHELL_PRESETS =
    [\<lparr>sh_id = AUTO_PRESET_ID, sh_label = ''Auto'',
      sh_hint = Some (''bash when present, else sh '' @ [CHR 0xB7] @ '' TERM=xterm-256color''),
      sh_argv = [''/bin/sh'', ''-c'', AUTO_SCRIPT]\<rparr>,
     \<lparr>sh_id = ''bash'', sh_label = ''/bin/bash'', sh_hint = None, sh_argv = [''/bin/bash'']\<rparr>,
     \<lparr>sh_id = ''bash-login'', sh_label = ''/bin/bash -l'', sh_hint = Some ''login shell'',
      sh_argv = [''/bin/bash'', ''-l'']\<rparr>,
     \<lparr>sh_id = ''sh'', sh_label = ''/bin/sh'', sh_hint = None, sh_argv = [''/bin/sh'']\<rparr>,
     \<lparr>sh_id = ''ash'', sh_label = ''/bin/ash'', sh_hint = Some ''Alpine, BusyBox'', sh_argv = [''/bin/ash'']\<rparr>,
     \<lparr>sh_id = ''zsh'', sh_label = ''/bin/zsh'', sh_hint = None, sh_argv = [''/bin/zsh'']\<rparr>,
     \<lparr>sh_id = ''busybox'', sh_label = ''/bin/busybox sh'', sh_hint = Some ''static BusyBox'',
      sh_argv = [''/bin/busybox'', ''sh'']\<rparr>]"

definition AUTO_PRESET :: "shell_preset option" where
  "AUTO_PRESET = find (\<lambda>p. sh_id p = AUTO_PRESET_ID) SHELL_PRESETS"

definition auto_argv :: "jstring list" where
  "auto_argv = (case AUTO_PRESET of Some p \<Rightarrow> sh_argv p | None \<Rightarrow> [])"

definition COMMAND_SUGGESTIONS :: "(jstring \<times> jstring \<times> jstring option) list" where
  "COMMAND_SUGGESTIONS = map (\<lambda>p. (formatCommandLine (sh_argv p), sh_label p, sh_hint p)) SHELL_PRESETS"

definition DEFAULT_COMMAND_LINE :: jstring where
  "DEFAULT_COMMAND_LINE = formatCommandLine auto_argv"

definition isAutoCommand :: "jstring list \<Rightarrow> bool" where
  "isAutoCommand argv \<longleftrightarrow>
     length argv = length auto_argv \<and> list_all (\<lambda>i. argv ! i = auto_argv ! i) [0..<length argv]"

lemma isAutoCommand_iff: "isAutoCommand argv \<longleftrightarrow> argv = auto_argv"
  using list_eq_iff_nth_eq [of argv auto_argv] by (auto simp: isAutoCommand_def list_all_iff)

section \<open>Properties\<close>

text \<open>
  C30. \<^verbatim>\<open>parseCommandLine\<close> reads back exactly the argv that \<^verbatim>\<open>formatCommandLine\<close> rendered, for every
  argv: empty arguments, white space, quotes of both kinds and backslashes included. \<close>

theorem command_line_roundtrip: "parseCommandLine (formatCommandLine argv) = argv"
  using parse_format_from [of "[]" argv] by (simp add: parseCommandLine_def)

text \<open>
  The command line the terminal starts with, and any other spelling that parses to the same argv,
  is recognised as the automatic shell; every other preset's label is its own command line. \<close>

theorem auto_command_recognised:
  "isAutoCommand (parseCommandLine line) = (parseCommandLine line = [''/bin/sh'', ''-c'', AUTO_SCRIPT]) \<and>
   isAutoCommand (parseCommandLine DEFAULT_COMMAND_LINE) \<and>
   map (\<lambda>(v, l, h). v = l) COMMAND_SUGGESTIONS = [False, True, True, True, True, True, True]"
proof -
  have a: "auto_argv = [''/bin/sh'', ''-c'', AUTO_SCRIPT]"
    by (simp add: auto_argv_def AUTO_PRESET_def SHELL_PRESETS_def)
  have "parseCommandLine DEFAULT_COMMAND_LINE = auto_argv"
    using parse_format_from [of "[]" auto_argv] by (simp add: parseCommandLine_def DEFAULT_COMMAND_LINE_def)
  moreover have "map (\<lambda>(v, l, h). v = l) COMMAND_SUGGESTIONS = [False, True, True, True, True, True, True]"
    by (simp add: COMMAND_SUGGESTIONS_def SHELL_PRESETS_def formatCommandLine_def quoteArg_def
        unquoted_arg_def unquoted_char_def is_upper_alpha_def is_lower_alpha_def is_digit_def AUTO_SCRIPT_def)
  ultimately show ?thesis by (simp add: isAutoCommand_iff a)
qed

end
