(* ===== verification/Numbers.thy ===== *)
theory Numbers
  imports Prelude
begin

text \<open>
  Decimal literals as JavaScript's \<^verbatim>\<open>Number()\<close> reads them, as exact rationals. \<open>js_finite\<close> is
  \<^verbatim>\<open>Number.isFinite\<close> of the nearest double: magnitudes from \<open>2 ^ 1024 - 2 ^ 970\<close> on round to infinity.
  Rounding of finite values to the nearest double is not modelled.
\<close>

definition digit_val :: "char \<Rightarrow> nat" where
  "digit_val c = code c - 48"

definition nat_of_digits :: "jstring \<Rightarrow> nat" where
  "nat_of_digits ds = foldl (\<lambda>n c. 10 * n + digit_val c) 0 ds"

definition js_finite :: "rat \<Rightarrow> bool" where
  "js_finite q \<longleftrightarrow> \<bar>q\<bar> < 2 ^ 1024 - 2 ^ 970"

text \<open>\<open>10 ^ e\<close> for a signed exponent.\<close>

definition pow10 :: "int \<Rightarrow> rat" where
  "pow10 e = (if 0 \<le> e then 10 ^ nat e else 1 / 10 ^ nat (- e))"

text \<open>Split off the longest prefix of digits.\<close>

definition digits_of :: "jstring \<Rightarrow> jstring" where
  "digits_of s = takeWhile is_digit s"

definition after_digits :: "jstring \<Rightarrow> jstring" where
  "after_digits s = dropWhile is_digit s"

lemma digits_append [simp]: "digits_of s @ after_digits s = s"
  by (simp add: digits_of_def after_digits_def)

text \<open>An optional exponent part: the text matched, its value and the rest.\<close>

definition exponent_part :: "jstring \<Rightarrow> jstring \<times> int \<times> jstring" where
  "exponent_part s =
     (case s of
        e # t \<Rightarrow>
          if e = CHR ''e'' \<or> e = CHR ''E'' then
            (let (sign, u) = (case t of c # t' \<Rightarrow> if c = CHR ''+'' \<or> c = CHR ''-'' then ([c], t') else ([], t) | [] \<Rightarrow> ([], t));
                 ds = digits_of u
             in if ds = [] then ([], 0, s)
                else (e # sign @ ds, (if sign = ''-'' then - int (nat_of_digits ds) else int (nat_of_digits ds)),
                      after_digits u))
          else ([], 0, s)
      | [] \<Rightarrow> ([], 0, s))"

text \<open>An optional fraction \<^verbatim>\<open>.digits\<close> with at least one digit: text, digits and rest.\<close>

definition fraction_part :: "jstring \<Rightarrow> jstring \<times> jstring \<times> jstring" where
  "fraction_part s =
     (case s of
        c # t \<Rightarrow> if c = CHR ''.'' \<and> digits_of t \<noteq> [] then (c # digits_of t, digits_of t, after_digits t) else ([], [], s)
      | [] \<Rightarrow> ([], [], s))"

definition decimal_value :: "bool \<Rightarrow> jstring \<Rightarrow> jstring \<Rightarrow> int \<Rightarrow> rat" where
  "decimal_value neg ids fds e =
     (let m = of_nat (nat_of_digits (ids @ fds)) * pow10 (e - int (length fds))
      in if neg then - m else m)"

lemma exponent_part_append: "exponent_part s = (x, v, r) \<Longrightarrow> x @ r = s"
  by (auto simp: exponent_part_def Let_def split: list.splits if_splits prod.splits)

lemma fraction_part_append: "fraction_part s = (x, v, r) \<Longrightarrow> x @ r = s"
  by (auto simp: fraction_part_def split: list.splits if_splits)

text \<open>The longest JSON number at the start of the text, with its value.\<close>

definition json_number :: "jstring \<Rightarrow> (jstring \<times> rat \<times> jstring) option" where
  "json_number s =
     (let (sign, t) = (case s of c # t' \<Rightarrow> if c = CHR ''-'' then ([c], t') else ([], s) | [] \<Rightarrow> ([], s))
      in case t of
           [] \<Rightarrow> None
         | d # u \<Rightarrow>
             if \<not> is_digit d then None
             else
               let ids = (if d = CHR ''0'' then [d] else digits_of t);
                   r1 = (if d = CHR ''0'' then u else after_digits t);
                   (ft, fds, r2) = fraction_part r1;
                   (et, e, r3) = exponent_part r2
               in Some (sign @ ids @ ft @ et, decimal_value (sign \<noteq> []) ids fds e, r3))"

lemma json_number_append:
  assumes "json_number s = Some (x, v, r)"
  shows "x @ r = s \<and> x \<noteq> []"
proof -
  obtain sign t where st: "(case s of c # t' \<Rightarrow> if c = CHR ''-'' then ([c], t') else ([], s) | [] \<Rightarrow> ([], s)) = (sign, t)"
    by fastforce
  then have s: "s = sign @ t" by (auto split: list.splits if_splits)
  from assms st obtain d u where t: "t = d # u" and dg: "is_digit d"
    by (auto simp: json_number_def split: list.splits if_splits)
  let ?r1 = "if d = CHR ''0'' then u else after_digits t"
  let ?ids = "if d = CHR ''0'' then [d] else digits_of t"
  obtain ft fds r2 where f: "fraction_part ?r1 = (ft, fds, r2)" by (metis prod_cases3)
  obtain et e r3 where ex: "exponent_part r2 = (et, e, r3)" by (metis prod_cases3)
  have "x = sign @ ?ids @ ft @ et" "r = r3"
    using assms st t dg f ex by (auto simp: json_number_def Let_def split: prod.splits)
  moreover have "?ids @ ?r1 = t" using t by simp
  moreover have "ft @ r2 = ?r1" using f by (rule fraction_part_append)
  moreover have "et @ r3 = r2" using ex by (rule exponent_part_append)
  moreover have "?ids \<noteq> []" using t dg by (simp add: digits_of_def)
  ultimately show ?thesis using s by auto
qed

end
