(* ===== verification/Json.thy ===== *)
theory Json
  imports Numbers
begin

text \<open>
  JSON values as \<^verbatim>\<open>JSON.parse\<close> delivers them: objects keep their members in insertion order and have
  distinct names, numbers are exact rationals. A value of the TypeScript type \<^verbatim>\<open>unknown\<close> that came off
  the wire or out of storage is one of these; the text itself stays with the runtime's parser.
\<close>

datatype json =
    JNull
  | JBool bool
  | JNum rat
  | JStr jstring
  | JArr "json list"
  | JObj "(jstring \<times> json) list"

text \<open>\<^verbatim>\<open>value[name]\<close> on an own member; \<open>None\<close> is \<^verbatim>\<open>undefined\<close>.\<close>

fun jget :: "jstring \<Rightarrow> json \<Rightarrow> json option" where
  "jget k (JObj m) = map_of m k"
| "jget k _ = None"

fun is_object :: "json \<Rightarrow> bool" where
  "is_object (JObj _) = True"
| "is_object (JArr _) = True"
| "is_object _ = False"

fun json_str :: "json \<Rightarrow> jstring option" where
  "json_str (JStr s) = Some s"
| "json_str _ = None"

fun json_num :: "json \<Rightarrow> rat option" where
  "json_num (JNum n) = Some n"
| "json_num _ = None"

text \<open>\<^verbatim>\<open>String(n)\<close> of a natural number.\<close>

fun show_nat :: "nat \<Rightarrow> jstring" where
  "show_nat n = (if n < 10 then [char_of (48 + n)] else show_nat (n div 10) @ [char_of (48 + n mod 10)])"

declare show_nat.simps [simp del]

definition show_int :: "int \<Rightarrow> jstring" where
  "show_int i = (if i < 0 then CHR ''-'' # show_nat (nat (- i)) else show_nat (nat i))"

lemma show_nat_nonempty [simp]: "show_nat n \<noteq> []"
  by (subst show_nat.simps) simp

lemma code_digit [simp]: "(d :: nat) < 10 \<Longrightarrow> code (char_of (48 + d)) = 48 + d"
  by (simp add: of_char_of)

lemma show_nat_digits: "list_all is_digit (show_nat n)"
proof (induction n rule: show_nat.induct)
  case (1 n)
  have digit: "is_digit (char_of (48 + d))" if "d < 10" for d :: nat
    using that by (simp add: is_digit_def)
  from 1 show ?case
    by (subst show_nat.simps) (simp add: digit)
qed

lemma nat_of_digits_snoc: "nat_of_digits (ds @ [c]) = 10 * nat_of_digits ds + digit_val c"
  by (simp add: nat_of_digits_def)

lemma nat_of_digits_show [simp]: "nat_of_digits (show_nat n) = n"
proof (induction n rule: show_nat.induct)
  case (1 n)
  show ?case
  proof (cases "n < 10")
    case True
    then show ?thesis by (subst show_nat.simps) (simp add: nat_of_digits_def digit_val_def)
  next
    case False
    then have "nat_of_digits (show_nat n) = 10 * (n div 10) + n mod 10"
      by (subst show_nat.simps) (simp add: nat_of_digits_snoc digit_val_def 1)
    then show ?thesis by simp
  qed
qed

lemma show_nat_inj: "show_nat a = show_nat b \<longleftrightarrow> a = b"
  by (metis nat_of_digits_show)

text \<open>\<^verbatim>\<open>Object.entries\<close>: an array's members are its indices.\<close>

fun json_entries :: "json \<Rightarrow> (jstring \<times> json) list" where
  "json_entries (JObj m) = m"
| "json_entries (JArr xs) = map (\<lambda>i. (show_nat i, xs ! i)) [0..<length xs]"
| "json_entries _ = []"

text \<open>Object members are distinct at every level.\<close>

fun json_ok :: "json \<Rightarrow> bool" where
  "json_ok (JArr xs) \<longleftrightarrow> list_all json_ok xs"
| "json_ok (JObj m) \<longleftrightarrow> amap_ok m \<and> list_all (\<lambda>(k, v). json_ok v) m"
| "json_ok _ \<longleftrightarrow> True"

lemma amap_ok_entries: "json_ok j \<Longrightarrow> amap_ok (json_entries j)"
  by (cases j) (auto simp: amap_ok_def distinct_map inj_on_def show_nat_inj comp_def)

end
