(* ===== verification/Http.thy ===== *)
theory Http
  imports Json
begin

text \<open>
  \<^verbatim>\<open>web/src/api/http.ts\<close>: the one wrapper around \<^verbatim>\<open>fetch\<close>. The transport is a parameter (a function from
  the request headers to a response or a network failure); the global handlers a failed request
  calls are the result's list of \<open>handler_call\<close>s, in order, which \<^verbatim>\<open>Auth\<close> runs on the store.
  Header names are lower case, as \<^verbatim>\<open>Headers\<close> compares them.
\<close>

datatype thrown =
    ApiError nat jstring "json option"
  | OtherError jstring

definition messageFromError :: "thrown \<Rightarrow> jstring option \<Rightarrow> jstring" where
  "messageFromError e fallback =
     (case e of
        ApiError _ msg _ \<Rightarrow> msg
      | OtherError s \<Rightarrow> (case fallback of Some f \<Rightarrow> f | None \<Rightarrow> s))"

definition asApiError :: "thrown \<Rightarrow> thrown" where
  "asApiError e = (case e of ApiError _ _ _ \<Rightarrow> e | OtherError s \<Rightarrow> ApiError 0 s None)"

record response =
  rs_status :: nat
  rs_text :: jstring
  rs_body :: "json option"

definition response_ok :: "response \<Rightarrow> bool" where
  "response_ok r \<longleftrightarrow> 200 \<le> rs_status r \<and> rs_status r \<le> 299"

definition toApiError :: "response \<Rightarrow> thrown" where
  "toApiError r =
     (let generic = trim (show_nat (rs_status r) @ '' '' @ rs_text r)
      in case rs_body r of
           None \<Rightarrow> ApiError (rs_status r) generic None
         | Some body \<Rightarrow>
             if jget ''kind'' body = Some (JStr ''Status'') then
               (case jget ''message'' body of
                  Some (JStr m) \<Rightarrow> ApiError (rs_status r) (if m = [] then generic else m) (Some body)
                | _ \<Rightarrow> ApiError (rs_status r) generic (Some body))
             else ApiError (rs_status r) generic None)"

type_synonym headers = "(jstring \<times> jstring) list"

record credentials =
  cr_token :: "jstring option"
  cr_context :: "jstring option"

definition AUTHORIZATION :: jstring where "AUTHORIZATION = ''authorization''"
definition X_KUBE_CONTEXT :: jstring where "X_KUBE_CONTEXT = ''x-kube-context''"

text \<open>A header the caller did not set, from a credential that is present and not empty.\<close>

definition default_header :: "jstring \<Rightarrow> jstring \<Rightarrow> jstring option \<Rightarrow> headers \<Rightarrow> headers" where
  "default_header name prefix value h =
     (if name \<in> set (keys h) then h
      else case value of
             None \<Rightarrow> h
           | Some v \<Rightarrow> if v = [] then h else AList.update name (prefix @ v) h)"

definition request_headers :: "credentials option \<Rightarrow> headers \<Rightarrow> headers" where
  "request_headers provider h =
     default_header X_KUBE_CONTEXT [] (Option.bind provider cr_context)
       (default_header AUTHORIZATION ''Bearer '' (Option.bind provider cr_token) h)"

definition request_context :: "headers \<Rightarrow> jstring" where
  "request_context h = (case map_of h X_KUBE_CONTEXT of None \<Rightarrow> [] | Some c \<Rightarrow> c)"

definition UNKNOWN_CONTEXT_MESSAGE :: jstring where
  "UNKNOWN_CONTEXT_MESSAGE = ''unknown cluster context''"

datatype handler_call =
    Logout jstring
  | OnUnauthorized jstring
  | OnUnknownContext jstring

definition thrown_message :: "thrown \<Rightarrow> jstring" where
  "thrown_message e = (case e of ApiError _ m _ \<Rightarrow> m | OtherError s \<Rightarrow> s)"

definition failure_handlers :: "bool \<Rightarrow> jstring \<Rightarrow> response \<Rightarrow> handler_call list" where
  "failure_handlers skip ctx r =
     (if rs_status r = 401 \<and> \<not> skip then [Logout ctx, OnUnauthorized ctx]
      else if rs_status r = 400 \<and> \<not> skip \<and> thrown_message (toApiError r) = UNKNOWN_CONTEXT_MESSAGE
        then [OnUnknownContext ctx]
      else [])"

definition apiFetch ::
    "(headers \<Rightarrow> jstring + response) \<Rightarrow> credentials option \<Rightarrow> headers \<Rightarrow> bool \<Rightarrow> (thrown + response) \<times> handler_call list" where
  "apiFetch fetch provider init_headers skip =
     (let h = request_headers provider init_headers;
          ctx = request_context h
      in case fetch h of
           Inl failure \<Rightarrow> (Inl (OtherError failure), [])
         | Inr r \<Rightarrow>
             if response_ok r then (Inr r, [])
             else (Inl (toApiError r), failure_handlers skip ctx r))"

text \<open>\<^verbatim>\<open>apiJson\<close>: a body that is not JSON makes \<^verbatim>\<open>resp.json()\<close> reject.\<close>

definition apiJson ::
    "(headers \<Rightarrow> jstring + response) \<Rightarrow> credentials option \<Rightarrow> headers \<Rightarrow> bool \<Rightarrow> (thrown + json) \<times> handler_call list" where
  "apiJson fetch provider h skip =
     (case apiFetch fetch provider h skip of
        (Inl e, calls) \<Rightarrow> (Inl e, calls)
      | (Inr r, calls) \<Rightarrow>
          (case rs_body r of None \<Rightarrow> (Inl (OtherError ''SyntaxError''), calls) | Some j \<Rightarrow> (Inr j, calls)))"

section \<open>What a request carries\<close>

lemma map_of_default_header:
  "map_of (default_header name prefix value h) k =
     (if k = name \<and> map_of h name = None then
        (case value of None \<Rightarrow> None | Some v \<Rightarrow> if v = [] then None else Some (prefix @ v))
      else map_of h k)"
  by (auto simp: default_header_def map_of_None_iff update_conv' split: option.splits)

lemma request_headers_lookup:
  "map_of (request_headers provider h) AUTHORIZATION =
     (case map_of h AUTHORIZATION of
        Some a \<Rightarrow> Some a
      | None \<Rightarrow> (case Option.bind provider cr_token of
          None \<Rightarrow> None | Some v \<Rightarrow> if v = [] then None else Some (''Bearer '' @ v)))"
  "map_of (request_headers provider h) X_KUBE_CONTEXT =
     (case map_of h X_KUBE_CONTEXT of
        Some a \<Rightarrow> Some a
      | None \<Rightarrow> (case Option.bind provider cr_context of
          None \<Rightarrow> None | Some v \<Rightarrow> if v = [] then None else Some v))"
  by (auto simp: request_headers_def map_of_default_header AUTHORIZATION_def X_KUBE_CONTEXT_def
    split: option.splits)

end
