(* ===== verification/LogStream.thy ===== *)
theory LogStream
  imports Http Interfaces
begin

text \<open>
  \<^verbatim>\<open>web/src/composables/useLogsStream.ts\<close>: the log stream and its buffers. The asynchronous loop of
  \<^verbatim>\<open>start\<close> is a state machine: \<open>ls_loop\<close> is the live loop's local state, and every settlement of
  something it awaits is an operation tagged with the generation it was started under, as the code's
  \<^verbatim>\<open>gen\<close> is. A superseded loop only ever compares its generation and returns, so it has no state.
  Times are milliseconds; the decoder's output is the chunk's text.
\<close>

definition MAX_LINES :: nat where "MAX_LINES = 200000"
definition FLUSH_INTERVAL_MS :: int where "FLUSH_INTERVAL_MS = 50"
definition RETRY_FIRST_MS :: int where "RETRY_FIRST_MS = 1000"
definition RETRY_MAX_MS :: int where "RETRY_MAX_MS = 15000"
definition RETRY_RESET_MS :: int where "RETRY_RESET_MS = 10000"

datatype loop_phase = Connecting | Reading jstring | Waiting

record stream_loop =
  lp_target :: jstring
  lp_resume :: "(int option \<Rightarrow> jstring option) option"
  lp_delay :: int
  lp_started :: int
  lp_phase :: loop_phase

text \<open>\<open>ls_buffer\<close> is the identity of the array in \<open>ls_lines\<close>, which only \<^verbatim>\<open>reset\<close> replaces; \<open>ls_timer\<close>
  holds the generation the pending flush timer captured.\<close>

record log_stream =
  ls_buffer :: nat
  ls_lines :: "jstring list"
  ls_version :: nat
  ls_running :: bool
  ls_error :: "jstring option"
  ls_reconnecting :: "jstring option"
  ls_truncated :: bool
  ls_dropped :: nat
  ls_gen :: nat
  ls_pending :: "jstring list"
  ls_timer :: "nat option"
  ls_lastLineAt :: "int option"
  ls_loop :: "stream_loop option"

definition new_stream :: log_stream where
  "new_stream = \<lparr>ls_buffer = 0, ls_lines = [], ls_version = 0, ls_running = False, ls_error = None,
     ls_reconnecting = None, ls_truncated = False, ls_dropped = 0, ls_gen = 0, ls_pending = [],
     ls_timer = None, ls_lastLineAt = None, ls_loop = None\<rparr>"

definition isFatal :: "thrown \<Rightarrow> bool" where
  "isFatal e = (case e of ApiError status _ _ \<Rightarrow> 400 \<le> status \<and> status < 500 | OtherError _ \<Rightarrow> False)"

text \<open>\<^verbatim>\<open>trim\<close>: the buffer kept, and whether its head was dropped.\<close>

definition trim_buffer :: "jstring list \<Rightarrow> jstring list \<times> bool" where
  "trim_buffer buffer =
     (if length buffer \<le> MAX_LINES then (buffer, False)
      else (drop (length buffer - MAX_LINES) buffer, True))"

definition flush :: "log_stream \<Rightarrow> log_stream" where
  "flush st0 =
     (let st = st0\<lparr>ls_timer := None\<rparr>
      in if ls_pending st = [] then st
         else
           let buffer = ls_lines st @ ls_pending st;
               (kept, cut) = trim_buffer buffer
           in st\<lparr>ls_lines := kept, ls_pending := [],
                 ls_truncated := (ls_truncated st \<or> cut),
                 ls_dropped := ls_dropped st + (length buffer - length kept),
                 ls_version := Suc (ls_version st)\<rparr>)"

definition append_lines :: "int \<Rightarrow> jstring list \<Rightarrow> log_stream \<Rightarrow> log_stream" where
  "append_lines now newLines st =
     (if newLines = [] then st
      else
        let (kept, cut) = trim_buffer (ls_pending st @ newLines)
        in st\<lparr>ls_lastLineAt := Some now, ls_pending := kept, ls_truncated := (ls_truncated st \<or> cut),
              ls_timer := (case ls_timer st of None \<Rightarrow> Some (ls_gen st) | Some g \<Rightarrow> Some g)\<rparr>)"

text \<open>The flush timer fires: only the pending one can, and only under its generation does it flush.\<close>

definition timer_fires :: "log_stream \<Rightarrow> log_stream" where
  "timer_fires st =
     (case ls_timer st of
        None \<Rightarrow> st
      | Some g \<Rightarrow> (let st' = st\<lparr>ls_timer := None\<rparr> in if g = ls_gen st then flush st' else st'))"

definition reset_lines :: "log_stream \<Rightarrow> log_stream" where
  "reset_lines st = st\<lparr>ls_buffer := Suc (ls_buffer st), ls_lines := [], ls_dropped := 0, ls_version := Suc (ls_version st)\<rparr>"

definition stop :: "log_stream \<Rightarrow> log_stream" where
  "stop st = st\<lparr>ls_gen := Suc (ls_gen st), ls_pending := [], ls_timer := None, ls_running := False,
     ls_reconnecting := None, ls_loop := None\<rparr>"

definition start :: "jstring \<Rightarrow> (int option \<Rightarrow> jstring option) option \<Rightarrow> int \<Rightarrow> log_stream \<Rightarrow> log_stream" where
  "start url resume now st =
     (reset_lines (stop st))\<lparr>ls_error := None, ls_reconnecting := None, ls_truncated := False,
        ls_lastLineAt := None, ls_running := True,
        ls_loop := Some \<lparr>lp_target = url, lp_resume = resume, lp_delay = 0, lp_started = now, lp_phase = Connecting\<rparr>\<rparr>"

text \<open>\<^verbatim>\<open>sinceLastLine\<close>: whole seconds, rounded up and padded by one.\<close>

definition sinceLastLine :: "int \<Rightarrow> log_stream \<Rightarrow> int option" where
  "sinceLastLine now st = map_option (\<lambda>t. - ((t - now) div 1000) + 1) (ls_lastLineAt st)"

text \<open>The \<^verbatim>\<open>finally\<close> block of \<^verbatim>\<open>start\<close>, under its own generation.\<close>

definition finish :: "log_stream \<Rightarrow> log_stream" where
  "finish st = (flush st)\<lparr>ls_running := False, ls_reconnecting := None, ls_loop := None\<rparr>"

definition next_delay :: "int \<Rightarrow> int" where
  "next_delay delay = (if delay = 0 then RETRY_FIRST_MS else min (delay * 2) RETRY_MAX_MS)"

text \<open>A failed attempt: final, or the prelude to a reconnect.\<close>

definition attempt_failed :: "thrown \<Rightarrow> int \<Rightarrow> stream_loop \<Rightarrow> log_stream \<Rightarrow> log_stream" where
  "attempt_failed e now lp st =
     (let message = messageFromError e (Some ''Log stream failed.'');
          resumed = (if isFatal e then None
                     else Option.bind (lp_resume lp) (\<lambda>f. f (sinceLastLine now st)))
      in case resumed of
           None \<Rightarrow> finish (st\<lparr>ls_error := Some message\<rparr>)
         | Some target \<Rightarrow>
             flush (st\<lparr>ls_reconnecting := Some message,
               ls_loop := Some (lp\<lparr>lp_target := target, lp_phase := Waiting,
                 lp_delay := (if RETRY_RESET_MS \<le> now - lp_started lp then 0 else lp_delay lp)\<rparr>)\<rparr>))"

text \<open>What the loop awaits settles: the request, a read of the body, the end of the body, a failure of
  either, the end of the backoff wait.\<close>

datatype loop_response =
    Connected bool
  | Chunk jstring int
  | BodyEnd int
  | Failed thrown int
  | WaitOver int

definition loop_settles :: "loop_response \<Rightarrow> stream_loop \<Rightarrow> log_stream \<Rightarrow> log_stream" where
  "loop_settles r lp st =
     (case (r, lp_phase lp) of
        (Connected has_body, Connecting) \<Rightarrow>
          if has_body then st\<lparr>ls_reconnecting := None, ls_loop := Some (lp\<lparr>lp_phase := Reading []\<rparr>)\<rparr>
          else finish (st\<lparr>ls_reconnecting := None, ls_error := Some ''Empty log stream.''\<rparr>)
      | (Chunk t now, Reading carry) \<Rightarrow>
          let parts = split_on (char_of (10 :: nat)) (carry @ t)
          in append_lines now (butlast parts) (st\<lparr>ls_loop := Some (lp\<lparr>lp_phase := Reading (last parts)\<rparr>)\<rparr>)
      | (BodyEnd now, Reading carry) \<Rightarrow>
          finish (if carry \<noteq> [] then append_lines now [carry] st else st)
      | (Failed e now, Connecting) \<Rightarrow> attempt_failed e now lp st
      | (Failed e now, Reading _) \<Rightarrow> attempt_failed e now lp st
      | (WaitOver now, Waiting) \<Rightarrow>
          st\<lparr>ls_loop := Some (lp\<lparr>lp_delay := next_delay (lp_delay lp), lp_started := now, lp_phase := Connecting\<rparr>)\<rparr>
      | _ \<Rightarrow> st)"

definition settle :: "nat \<Rightarrow> loop_response \<Rightarrow> log_stream \<Rightarrow> log_stream" where
  "settle g r st =
     (if g \<noteq> ls_gen st then st
      else case ls_loop st of None \<Rightarrow> st | Some lp \<Rightarrow> loop_settles r lp st)"

section \<open>The generation\<close>

lemma gen_fields [simp]:
  "ls_gen (flush st) = ls_gen st" "ls_gen (append_lines now ls st) = ls_gen st"
  "ls_gen (finish st) = ls_gen st" "ls_gen (timer_fires st) = ls_gen st"
  by (simp_all add: flush_def append_lines_def finish_def timer_fires_def Let_def split: prod.splits option.splits)

lemma gen_attempt [simp]: "ls_gen (attempt_failed e now lp st) = ls_gen st"
  by (simp add: attempt_failed_def Let_def split: option.splits)

lemma gen_settle [simp]: "ls_gen (settle g r st) = ls_gen st"
  by (auto simp: settle_def loop_settles_def Let_def split: option.splits loop_response.splits loop_phase.splits)

text \<open>What a consumer can do to the stream, and everything that happens to it.\<close>

datatype stream_control = Start jstring "(int option \<Rightarrow> jstring option) option" int | Stop

definition control :: "stream_control \<Rightarrow> log_stream \<Rightarrow> log_stream" where
  "control c st = (case c of Start url resume now \<Rightarrow> start url resume now st | Stop \<Rightarrow> stop st)"

type_synonym stream_event = "(stream_control, loop_response, unit) guard_event"

interpretation stream_guard: generation_guard ls_gen control settle "\<lambda>_ :: unit. timer_fires"
proof unfold_locales
  show "ls_gen s < ls_gen (control x s)" for s x
    by (simp add: control_def start_def stop_def reset_lines_def split: stream_control.splits)
qed (simp, simp, simp add: settle_def)

fun stream_step :: "stream_event \<Rightarrow> log_stream \<Rightarrow> log_stream" where
  "stream_step (Begin c) st = control c st"
| "stream_step (Settle g r) st = settle g r st"
| "stream_step (Other _) st = timer_fires st"

lemma stream_step_guard: "stream_step = stream_guard.guard_step"
  by (rule ext, rule ext) (metis stream_guard.guard_step.simps stream_step.simps guard_event.exhaust)

text \<open>
  A superseded stream is silent: once another \<^verbatim>\<open>start\<close> or a \<^verbatim>\<open>stop\<close> has happened, whatever an older
  stream's request, reads or backoff wait still deliver changes neither the lines nor anything else,
  however much happened in between.
\<close>

theorem superseded_stream_is_silent:
  "settle (ls_gen st) r (fold stream_step es (control c st)) = fold stream_step es (control c st)"
  unfolding stream_step_guard by (rule stream_guard.superseded_dropped) simp

section \<open>The buffer is the tail of the log\<close>

lemma trim_buffer_lastn: "trim_buffer b = (lastn MAX_LINES b, MAX_LINES < length b)"
  by (auto simp: trim_buffer_def lastn_def)

text \<open>The lines a step hands to \<^verbatim>\<open>append\<close>.\<close>

definition delivered :: "stream_event \<Rightarrow> log_stream \<Rightarrow> jstring list" where
  "delivered e st =
     (case e of
        Settle g r \<Rightarrow>
          if g \<noteq> ls_gen st then []
          else (case ls_loop st of
              None \<Rightarrow> []
            | Some lp \<Rightarrow>
                (case (r, lp_phase lp) of
                   (Chunk t now, Reading carry) \<Rightarrow> butlast (split_on (char_of (10 :: nat)) (carry @ t))
                 | (BodyEnd now, Reading carry) \<Rightarrow> if carry \<noteq> [] then [carry] else []
                 | _ \<Rightarrow> []))
      | _ \<Rightarrow> [])"

text \<open>The state with all lines received since the start; after a \<^verbatim>\<open>stop\<close> nothing is said of them.\<close>

fun received_step :: "stream_event \<Rightarrow> log_stream \<times> jstring list option \<Rightarrow> log_stream \<times> jstring list option" where
  "received_step e (st, received) =
     (stream_step e st,
      (case e of
         Begin (Start _ _ _) \<Rightarrow> Some []
       | Begin Stop \<Rightarrow> None
       | _ \<Rightarrow> map_option (\<lambda>ls. ls @ delivered e st) received))"

definition tail_inv :: "log_stream \<Rightarrow> jstring list \<Rightarrow> bool" where
  "tail_inv st received \<longleftrightarrow>
     length (ls_lines st) \<le> MAX_LINES \<and> length (ls_pending st) \<le> MAX_LINES \<and>
     lastn MAX_LINES (ls_lines st @ ls_pending st) = lastn MAX_LINES received \<and>
     length (ls_lines st @ ls_pending st) \<le> length received \<and>
     (if ls_truncated st then MAX_LINES < length received else ls_lines st @ ls_pending st = received)"

lemma tail_inv_cong:
  "ls_lines st' = ls_lines st \<Longrightarrow> ls_pending st' = ls_pending st \<Longrightarrow> ls_truncated st' = ls_truncated st \<Longrightarrow>
   tail_inv st' received = tail_inv st received"
  by (simp add: tail_inv_def)

lemma flush_fields [simp]:
  "ls_lines (flush st) = (if ls_pending st = [] then ls_lines st else lastn MAX_LINES (ls_lines st @ ls_pending st))"
  "ls_pending (flush st) = []" "ls_timer (flush st) = None"
  "ls_loop (flush st) = ls_loop st" "ls_running (flush st) = ls_running st" "ls_error (flush st) = ls_error st"
  "ls_reconnecting (flush st) = ls_reconnecting st" "ls_lastLineAt (flush st) = ls_lastLineAt st"
  "ls_buffer (flush st) = ls_buffer st"
  "ls_truncated (flush st) = (ls_truncated st \<or> (ls_pending st \<noteq> [] \<and> MAX_LINES < length (ls_lines st @ ls_pending st)))"
  by (simp_all add: flush_def Let_def trim_buffer_lastn split: prod.splits)

lemma tail_flush [kc_inv]: "tail_inv st received \<Longrightarrow> tail_inv (flush st) received"
  by (auto simp: tail_inv_def lastn_all)

lemma tail_append [kc_inv]:
  assumes inv: "tail_inv st received"
  shows "tail_inv (append_lines now new st) (received @ new)"
proof -
  have "lastn MAX_LINES (ls_lines st @ ls_pending st @ new) = lastn MAX_LINES (received @ new)"
    using inv lastn_append_lastn [of MAX_LINES "ls_lines st @ ls_pending st" new]
      lastn_append_lastn [of MAX_LINES received new] by (simp add: tail_inv_def)
  then show ?thesis
    using inv by (auto simp: append_lines_def trim_buffer_lastn tail_inv_def lastn_append_right lastn_all)
qed

lemma tail_finish [kc_inv]: "tail_inv st received \<Longrightarrow> tail_inv (finish st) received"
proof -
  have "tail_inv (finish st) received = tail_inv (flush st) received"
    by (rule tail_inv_cong) (simp_all add: finish_def)
  then show "tail_inv st received \<Longrightarrow> tail_inv (finish st) received" by (simp add: tail_flush)
qed

lemma tail_timer [kc_inv]: "tail_inv st received \<Longrightarrow> tail_inv (timer_fires st) received"
  using tail_flush [of "st\<lparr>ls_timer := None\<rparr>" received]
  by (auto simp: timer_fires_def Let_def tail_inv_def split: option.splits)

lemma tail_start: "tail_inv (start url resume now st) []"
  by (simp add: start_def stop_def reset_lines_def tail_inv_def)

lemma tail_attempt [kc_inv]: "tail_inv st received \<Longrightarrow> tail_inv (attempt_failed e now lp st) received"
  by (auto simp: attempt_failed_def Let_def split: option.splits intro!: tail_finish tail_flush)
    (simp_all add: tail_inv_def)

lemma tail_settle: "tail_inv st received \<Longrightarrow> tail_inv (settle g r st) (received @ delivered (Settle g r) st)"
proof -
  assume inv: "tail_inv st received"
  then have upd: "tail_inv (st\<lparr>ls_loop := l\<rparr>) received" "tail_inv (st\<lparr>ls_reconnecting := c, ls_loop := l\<rparr>) received"
    "tail_inv (st\<lparr>ls_reconnecting := c, ls_error := l'\<rparr>) received" for l c l'
    by (simp_all add: tail_inv_def)
  show ?thesis
    using inv tail_append [OF upd(1)] tail_append [OF inv] upd
    by (auto simp: settle_def delivered_def loop_settles_def Let_def kc_inv
      split: option.splits loop_response.splits loop_phase.splits)
qed

definition run_received :: "stream_event list \<Rightarrow> log_stream \<times> jstring list option" where
  "run_received es = fold received_step es (new_stream, Some [])"

text \<open>Nothing staged is left without a timer that will put it on screen; a stopped loop leaves nothing.\<close>

fun timer_ok :: "nat option \<Rightarrow> nat \<Rightarrow> jstring list \<Rightarrow> bool" where
  "timer_ok None g staged = (staged = [])"
| "timer_ok (Some g') g staged = (g' = g)"

fun phase_ok :: "loop_phase \<Rightarrow> jstring option \<Rightarrow> bool" where
  "phase_ok Connecting reconnecting = True"
| "phase_ok (Reading _) reconnecting = (reconnecting = None)"
| "phase_ok Waiting reconnecting = (reconnecting \<noteq> None)"

fun loop_ok :: "stream_loop option \<Rightarrow> jstring list \<Rightarrow> jstring option \<Rightarrow> jstring option \<Rightarrow> bool" where
  "loop_ok None staged reconnecting err = (staged = [] \<and> reconnecting = None)"
| "loop_ok (Some lp) staged reconnecting err =
     (err = None \<and> 0 \<le> lp_delay lp \<and> lp_delay lp \<le> RETRY_MAX_MS \<and> phase_ok (lp_phase lp) reconnecting)"

definition staged_inv :: "log_stream \<Rightarrow> bool" where
  "staged_inv st \<longleftrightarrow> timer_ok (ls_timer st) (ls_gen st) (ls_pending st) \<and>
     ls_running st = (ls_loop st \<noteq> None) \<and> loop_ok (ls_loop st) (ls_pending st) (ls_reconnecting st) (ls_error st)"

lemma append_fields [simp]:
  "ls_loop (append_lines now new st) = ls_loop st" "ls_running (append_lines now new st) = ls_running st"
  "ls_error (append_lines now new st) = ls_error st" "ls_reconnecting (append_lines now new st) = ls_reconnecting st"
  "ls_timer (append_lines now new st) = (if new = [] then ls_timer st else Some (case ls_timer st of None \<Rightarrow> ls_gen st | Some g \<Rightarrow> g))"
  by (auto simp: append_lines_def split: prod.splits option.splits)

lemma staged_finish [simp]: "staged_inv (finish st)"
  by (simp add: finish_def staged_inv_def)

lemma staged_attempt:
  assumes "staged_inv st" "ls_loop st = Some lp"
  shows "staged_inv (attempt_failed e now lp st)"
proof (cases "if isFatal e then None else Option.bind (lp_resume lp) (\<lambda>f. f (sinceLastLine now st))")
  case (Some target)
  then show ?thesis using assms by (simp add: attempt_failed_def Let_def staged_inv_def RETRY_MAX_MS_def)
qed (simp add: attempt_failed_def)

lemma append_staged:
  "timer_ok (ls_timer st) (ls_gen st) (ls_pending st) \<Longrightarrow>
   timer_ok (ls_timer (append_lines now new st)) (ls_gen st) (ls_pending (append_lines now new st))"
  by (cases "new = []"; cases "ls_timer st") (auto simp: append_lines_def split: prod.splits)

lemma staged_append: "staged_inv st \<Longrightarrow> ls_loop st = Some lp \<Longrightarrow> staged_inv (append_lines now new st)"
  using append_staged [of st now new] by (simp add: staged_inv_def del: append_fields(5))

lemma staged_loop_settles:
  assumes inv: "staged_inv st" and lp: "ls_loop st = Some lp"
  shows "staged_inv (loop_settles r lp st)"
proof -
  have upd: "staged_inv (st\<lparr>ls_loop := Some (lp\<lparr>lp_phase := Reading c\<rparr>)\<rparr>)" if "lp_phase lp = Reading d" for c d
    using inv lp that by (auto simp: staged_inv_def)
  have conn: "staged_inv (st\<lparr>ls_reconnecting := None, ls_loop := Some (lp\<lparr>lp_phase := Reading c\<rparr>)\<rparr>)" for c
    using inv lp by (auto simp: staged_inv_def)
  have wait: "staged_inv (st\<lparr>ls_loop := Some (lp\<lparr>lp_delay := next_delay (lp_delay lp), lp_started := t, lp_phase := Connecting\<rparr>)\<rparr>)" for t
    using inv lp by (auto simp: staged_inv_def next_delay_def RETRY_MAX_MS_def RETRY_FIRST_MS_def)
  show ?thesis
    using upd conn wait staged_attempt [OF inv lp] staged_append [OF upd] staged_append [OF inv lp] inv
    by (cases r; cases "lp_phase lp") (simp_all add: loop_settles_def Let_def)
qed

lemma staged_settle: "staged_inv st \<Longrightarrow> staged_inv (settle g r st)"
  by (simp add: settle_def staged_loop_settles split: option.splits)

lemma staged_timer: "staged_inv st \<Longrightarrow> staged_inv (timer_fires st)"
proof (cases "ls_timer st")
  case (Some g)
  assume "staged_inv st"
  with Some show ?thesis by (cases "ls_loop st") (simp_all add: timer_fires_def Let_def staged_inv_def)
qed (simp add: timer_fires_def)

lemma staged_control: "staged_inv (control c st)"
  by (cases c) (simp_all add: control_def start_def stop_def reset_lines_def staged_inv_def RETRY_MAX_MS_def)

lemma staged_step: "staged_inv st \<Longrightarrow> staged_inv (stream_step e st)"
  by (cases e) (simp_all add: staged_control staged_settle staged_timer)

lemma run_received_inv:
  "case run_received es of (st, received) \<Rightarrow>
     staged_inv st \<and> (case received of Some ls \<Rightarrow> tail_inv st ls | None \<Rightarrow> True)"
proof -
  have "case fold received_step es (st, rc) of (st', rc') \<Rightarrow>
      staged_inv st' \<and> (case rc' of Some ls \<Rightarrow> tail_inv st' ls | None \<Rightarrow> True)"
    if "staged_inv st" "case rc of Some ls \<Rightarrow> tail_inv st ls | None \<Rightarrow> True" for st rc
    using that
  proof (induction es arbitrary: st rc)
    case (Cons e es)
    obtain st1 rc1 where s: "received_step e (st, rc) = (st1, rc1)" by fastforce
    have "staged_inv st1" using s staged_step [OF Cons.prems(1), of e] by auto
    moreover have "case rc1 of Some ls \<Rightarrow> tail_inv st1 ls | None \<Rightarrow> True"
      using s Cons.prems(2) tail_start tail_settle [of st] tail_timer [of st]
      by (cases e; cases rc) (auto simp: control_def delivered_def [of "Other _"] split: stream_control.splits)
    ultimately show ?case using Cons.IH [of st1 rc1] s by simp
  qed simp
  moreover have "staged_inv new_stream" "tail_inv new_stream []"
    by (simp_all add: staged_inv_def new_stream_def tail_inv_def)
  ultimately show ?thesis by (simp add: run_received_def)
qed

text \<open>
  C5. The log on screen is always a contiguous tail of what the container logged: in every run (restarts,
  reconnects, late responses and flush timers in any order) the buffers never exceed \<^verbatim>\<open>MAX_LINES\<close>,
  visible and staged lines together end with the last \<^verbatim>\<open>MAX_LINES\<close> lines received since the start with
  no gap in the middle, lines are staged only while a timer is armed to show them, and once nothing is
  staged the screen holds exactly that tail, marked truncated exactly when something was dropped.
\<close>

theorem visible_log_is_contiguous_tail:
  "case run_received es of
     (st, None) \<Rightarrow> True
   | (st, Some received) \<Rightarrow>
       length (ls_lines st) \<le> MAX_LINES \<and> length (ls_pending st) \<le> MAX_LINES \<and>
       lastn MAX_LINES (ls_lines st @ ls_pending st) = lastn MAX_LINES received \<and>
       (if ls_pending st = []
        then ls_lines st = lastn MAX_LINES received \<and> ls_truncated st = (MAX_LINES < length received)
        else ls_timer st = Some (ls_gen st) \<and> ls_running st)"
proof (cases "run_received es")
  case (Pair st rc)
  show ?thesis
  proof (cases rc)
    case (Some received)
    then have inv: "staged_inv st" "tail_inv st received" using run_received_inv [of es] Pair by simp_all
    have timer: "ls_pending st \<noteq> [] \<Longrightarrow> ls_timer st = Some (ls_gen st) \<and> ls_running st"
      using inv(1) by (cases "ls_timer st"; cases "ls_loop st") (simp_all add: staged_inv_def)
    have tail: "ls_pending st = [] \<Longrightarrow> ls_lines st = lastn MAX_LINES received \<and> ls_truncated st = (MAX_LINES < length received)"
      using inv(2) by (auto simp: tail_inv_def lastn_all split: if_splits)
    show ?thesis using Pair Some inv(2) timer tail by (simp add: tail_inv_def)
  qed (simp add: Pair)
qed

text \<open>
  The stream's status is consistent: in every run, an error is only shown by a stream that has stopped
  running, a stream that is connected is not shown as reconnecting and one that waits to retry is, a
  stream that does not run shows neither and has nothing staged, and the backoff stays between 0 and
  the 15 second cap.
\<close>

theorem stream_status_consistent: "staged_inv (fst (run_received es))"
  using run_received_inv [of es] by (simp add: case_prod_beta)

section \<open>One connection\<close>

abbreviation newline :: char where "newline \<equiv> char_of (10 :: nat)"

text \<open>The lines of a log: a last line without a line break counts, an empty rest does not.\<close>

definition log_lines :: "jstring \<Rightarrow> jstring list" where
  "log_lines text = (let parts = split_on newline text in if last parts = [] then butlast parts else parts)"

text \<open>A chunk arrives, and the flush timer may fire before the next one.\<close>

definition chunk_step :: "nat \<Rightarrow> jstring \<times> int \<times> bool \<Rightarrow> log_stream \<Rightarrow> log_stream" where
  "chunk_step g c st =
     (case c of (t, now, tick) \<Rightarrow>
        let st' = settle g (Chunk t now) st in if tick then timer_fires st' else st')"

definition run_connection ::
    "jstring \<Rightarrow> (int option \<Rightarrow> jstring option) option \<Rightarrow> int \<Rightarrow> (jstring \<times> int \<times> bool) list \<Rightarrow> int \<Rightarrow> log_stream \<Rightarrow> log_stream" where
  "run_connection url resume now chunks fin st =
     (let st1 = start url resume now st; g = ls_gen st1
      in settle g (BodyEnd fin) (fold (chunk_step g) chunks (settle g (Connected True) st1)))"

lemma timer_loop [simp]: "ls_loop (timer_fires st) = ls_loop st" "ls_error (timer_fires st) = ls_error st"
  by (simp_all add: timer_fires_def Let_def split: option.splits)

definition reading :: "nat \<Rightarrow> jstring \<Rightarrow> log_stream \<Rightarrow> bool" where
  "reading g sofar st \<longleftrightarrow> ls_gen st = g \<and> ls_error st = None \<and>
     tail_inv st (butlast (split_on newline sofar)) \<and>
     (case ls_loop st of Some lp \<Rightarrow> lp_phase lp = Reading (last (split_on newline sofar)) | None \<Rightarrow> False)"

lemma reading_chunk:
  assumes "reading g sofar st"
  shows "reading g (sofar @ t) (chunk_step g (t, now, tick) st)"
proof -
  obtain lp where lp: "ls_loop st = Some lp" "lp_phase lp = Reading (last (split_on newline sofar))" "ls_gen st = g"
    "ls_error st = None"
    using assms by (auto simp: reading_def split: option.splits)
  let ?parts = "split_on newline (last (split_on newline sofar) @ t)"
  have parts: "butlast (split_on newline (sofar @ t)) = butlast (split_on newline sofar) @ butlast ?parts"
    "last (split_on newline (sofar @ t)) = last ?parts"
    by (simp_all add: split_on_append [of newline sofar t] butlast_append)
  let ?st = "settle g (Chunk t now) st"
  have eq: "?st = append_lines now (butlast ?parts) (st\<lparr>ls_loop := Some (lp\<lparr>lp_phase := Reading (last ?parts)\<rparr>)\<rparr>)"
    using lp by (simp add: settle_def loop_settles_def Let_def)
  have "tail_inv ?st (butlast (split_on newline sofar) @ butlast ?parts)"
    unfolding eq
    by (rule tail_append) (use assms tail_inv_cong [of "st\<lparr>ls_loop := l\<rparr>" st for l] in \<open>simp add: reading_def\<close>)
  then have "reading g (sofar @ t) ?st" using lp by (simp add: reading_def parts eq)
  then show ?thesis
    by (auto simp: chunk_step_def Let_def reading_def tail_timer)
qed

lemma reading_chunks: "reading g sofar st \<Longrightarrow> reading g (sofar @ concat (map fst cs)) (fold (chunk_step g) cs st)"
proof (induction cs arbitrary: sofar st)
  case (Cons c cs)
  obtain t now tick where c: "c = (t, now, tick)" using prod_cases3 by blast
  show ?case using Cons.IH [OF reading_chunk [OF Cons.prems]] by (simp add: c)
qed simp

text \<open>
  A connection read to its end shows the log it delivered, whatever its chunks: cutting the text at
  any points (in the middle of lines included) and firing the flush timer between any of them leaves
  the same last \<^verbatim>\<open>MAX_LINES\<close> lines on screen, with no error and nothing staged, and marked truncated
  exactly when there were more.
\<close>

theorem connection_shows_whole_log:
  "let st' = run_connection url resume now chunks fin st; received = log_lines (concat (map fst chunks)) in
   ls_lines st' = lastn MAX_LINES received \<and> ls_truncated st' = (MAX_LINES < length received) \<and>
   ls_pending st' = [] \<and> \<not> ls_running st' \<and> ls_error st' = None"
proof -
  define st1 where "st1 = start url resume now st"
  define g where "g = ls_gen st1"
  have "reading g [] (settle g (Connected True) st1)"
    by (simp add: reading_def st1_def g_def settle_def start_def stop_def reset_lines_def loop_settles_def tail_inv_def)
  from reading_chunks [OF this, of chunks]
  have r: "reading g (concat (map fst chunks)) (fold (chunk_step g) chunks (settle g (Connected True) st1))"
    (is "reading g ?text ?st") by simp
  then obtain lp where lp: "ls_loop ?st = Some lp" "lp_phase lp = Reading (last (split_on newline ?text))"
    by (auto simp: reading_def split: option.splits)
  let ?last = "last (split_on newline ?text)"
  let ?fed = "if ?last \<noteq> [] then append_lines fin [?last] ?st else ?st"
  have fin_eq: "settle g (BodyEnd fin) ?st = finish ?fed"
    using r lp by (simp add: settle_def loop_settles_def reading_def)
  have "tail_inv ?fed (log_lines ?text)"
    using r tail_append [of ?st "butlast (split_on newline ?text)" fin "[?last]"]
    by (auto simp: reading_def log_lines_def Let_def)
  then have "tail_inv (finish ?fed) (log_lines ?text)" by (rule tail_finish)
  moreover have "ls_pending (finish ?fed) = []" "ls_error (finish ?fed) = None" "\<not> ls_running (finish ?fed)"
    using r by (auto simp: finish_def reading_def)
  ultimately show ?thesis
    unfolding run_connection_def Let_def st1_def [symmetric] g_def [symmetric] fin_eq
    by (auto simp: tail_inv_def lastn_all split: if_splits)
qed

section \<open>Reconnecting\<close>

text \<open>
  Consecutive short-lived attempts back off by doubling: the first reconnect is immediate, the n-th
  wait after it is \<open>1000 * 2 ^ (n - 1)\<close> milliseconds, capped at 15 seconds.
\<close>

theorem backoff_doubles_to_cap:
  "(next_delay ^^ n) 0 = (if n = 0 then 0 else min (1000 * 2 ^ (n - 1)) RETRY_MAX_MS)"
proof (induction n)
  case (Suc n)
  have pos: "(0 :: int) < 2 ^ (n - 1)" by simp
  have dbl: "0 < n \<Longrightarrow> (2 :: int) ^ n = 2 * 2 ^ (n - 1)" by (cases n) auto
  show ?case
    using Suc pos dbl
    by (cases "n = 0") (auto simp: next_delay_def RETRY_FIRST_MS_def RETRY_MAX_MS_def min_def)
qed simp

text \<open>
  What a failed attempt of a stream leads to: a status the apiserver chose (4xx), or a stream without
  a \<^verbatim>\<open>resume\<close>, ends with the error shown; anything else waits to reconnect, with everything staged on
  screen and the time window re-requested covering the whole time since the last line arrived (the
  window is whole seconds, at least one and less than two seconds longer than the gap).
\<close>

theorem failed_attempt_outcome:
  "let st' = attempt_failed e now lp st in
   ls_pending st' = [] \<and> ls_lines st' = ls_lines (flush st) \<and>
   (if isFatal e \<or> lp_resume lp = None then
      \<not> ls_running st' \<and> ls_error st' = Some (messageFromError e (Some ''Log stream failed.''))
    else
      (case the (lp_resume lp) (sinceLastLine now st) of
         None \<Rightarrow> \<not> ls_running st' \<and> ls_error st' = Some (messageFromError e (Some ''Log stream failed.''))
       | Some url \<Rightarrow>
           ls_error st' = ls_error st \<and> map_option lp_target (ls_loop st') = Some url \<and>
           map_option lp_phase (ls_loop st') = Some Waiting)) \<and>
   (case (ls_lastLineAt st, sinceLastLine now st) of
      (Some t, Some w) \<Rightarrow> now - t + 1000 \<le> w * 1000 \<and> w * 1000 < now - t + 2000
    | (None, None) \<Rightarrow> True
    | _ \<Rightarrow> False)"
proof -
  have window: "now - t + 1000 \<le> (- ((t - now) div 1000) + 1) * 1000 \<and>
      (- ((t - now) div 1000) + 1) * 1000 < now - t + 2000" for t :: int
  proof -
    define d where "d = (t - now) div 1000"
    define m where "m = (t - now) mod 1000"
    have "d * 1000 + m = t - now" unfolding d_def m_def by (rule div_mult_mod_eq)
    moreover have "0 \<le> m" "m < 1000" by (simp_all add: m_def)
    ultimately show ?thesis unfolding d_def [symmetric] by (auto simp: distrib_right)
  qed
  have w: "case (ls_lastLineAt st, sinceLastLine now st) of
      (Some t, Some w) \<Rightarrow> now - t + 1000 \<le> w * 1000 \<and> w * 1000 < now - t + 2000
    | (None, None) \<Rightarrow> True | _ \<Rightarrow> False"
    using window by (cases "ls_lastLineAt st") (simp_all add: sinceLastLine_def)
  define msg where "msg = messageFromError e (Some ''Log stream failed.'')"
  have final: "attempt_failed e now lp st = finish (st\<lparr>ls_error := Some msg\<rparr>)"
    if "isFatal e \<or> lp_resume lp = None \<or> the (lp_resume lp) (sinceLastLine now st) = None"
    using that by (cases "lp_resume lp") (auto simp: attempt_failed_def msg_def Let_def)
  have fin: "ls_pending (finish (st\<lparr>ls_error := Some msg\<rparr>)) = []" "ls_lines (finish (st\<lparr>ls_error := Some msg\<rparr>)) = ls_lines (flush st)"
    "\<not> ls_running (finish (st\<lparr>ls_error := Some msg\<rparr>))" "ls_error (finish (st\<lparr>ls_error := Some msg\<rparr>)) = Some msg"
    by (simp_all add: finish_def)
  show ?thesis
  proof (cases "isFatal e \<or> lp_resume lp = None")
    case True
    with final have eq: "attempt_failed e now lp st = finish (st\<lparr>ls_error := Some msg\<rparr>)" by blast
    show ?thesis using True w fin unfolding Let_def eq msg_def [symmetric] by simp
  next
    case False
    then obtain f where f: "lp_resume lp = Some f" "\<not> isFatal e" by blast
    show ?thesis
    proof (cases "f (sinceLastLine now st)")
      case None
      with f final have eq: "attempt_failed e now lp st = finish (st\<lparr>ls_error := Some msg\<rparr>)" by simp
      show ?thesis using None f w fin unfolding Let_def eq msg_def [symmetric] by simp
    next
      case (Some url)
      show ?thesis using Some f w by (simp add: attempt_failed_def Let_def)
    qed
  qed
qed

end
