(* ===== verification/LogTokens.thy ===== *)
theory LogTokens
  imports Numbers
begin

text \<open>
  \<^verbatim>\<open>web/src/utils/logJson.ts\<close>: the scanner that splits a JSON log line into coloured tokens. The
  scanner's position is represented by the rest of the line, so \<^verbatim>\<open>src[pos]\<close> is its first character.
  Its mutually recursive closures \<^verbatim>\<open>value\<close>, \<^verbatim>\<open>object\<close> and \<^verbatim>\<open>array\<close> (and their \<^verbatim>\<open>for\<close> loops, here
  \<open>members\<close> and \<open>elements\<close>) run on fuel: \<open>Fail\<close> is \<^verbatim>\<open>return false\<close>, \<open>Exhausted\<close> is running out of
  fuel, and \<open>scan_enough\<close> shows that \<^verbatim>\<open>3 * length + 2\<close> units always suffice.
\<close>

datatype log_token_kind = KText | KPunct | KKey | KString | KNumber | KKeyword | KLevel
datatype log_severity = SevError | SevWarn | SevInfo | SevDebug

record log_token =
  tok_kind :: log_token_kind
  tok_text :: jstring
  tok_severity :: "log_severity option"

definition mk_token :: "log_token_kind \<Rightarrow> jstring \<Rightarrow> log_token" where
  "mk_token k t = \<lparr>tok_kind = k, tok_text = t, tok_severity = None\<rparr>"

definition level_token :: "jstring \<Rightarrow> log_severity \<Rightarrow> log_token" where
  "level_token t sev = \<lparr>tok_kind = KLevel, tok_text = t, tok_severity = Some sev\<rparr>"

text \<open>\<^verbatim>\<open>/^\d{4}-\d{2}-\d{2}T\S*\s+/\<close>: the text matched, empty when there is no match.\<close>

definition timestamp_prefix :: "jstring \<Rightarrow> jstring" where
  "timestamp_prefix line =
     (if 11 \<le> length line \<and> list_all is_digit (take 4 line) \<and> line ! 4 = CHR ''-'' \<and>
         list_all is_digit (take 2 (drop 5 line)) \<and> line ! 7 = CHR ''-'' \<and>
         list_all is_digit (take 2 (drop 8 line)) \<and> line ! 10 = CHR ''T''
      then let rest = drop 11 line;
               word = takeWhile (\<lambda>c. \<not> is_space c) rest;
               gap = takeWhile is_space (dropWhile (\<lambda>c. \<not> is_space c) rest)
           in if gap = [] then [] else take 11 line @ word @ gap
      else [])"

definition LEVEL_KEYS :: "jstring list" where
  "LEVEL_KEYS = [''level'', ''severity'', ''lvl'', ''loglevel'', ''log.level'']"

definition severityOfName :: "jstring \<Rightarrow> log_severity option" where
  "severityOfName v =
     (let s = to_lower v
      in if list_ex (\<lambda>p. starts_with p s) [''err'', ''fatal'', ''crit'', ''panic'', ''alert'', ''emerg''] then Some SevError
         else if starts_with ''warn'' s then Some SevWarn
         else if starts_with ''info'' s \<or> starts_with ''notice'' s then Some SevInfo
         else if starts_with ''debug'' s \<or> starts_with ''trace'' s then Some SevDebug
         else None)"

definition severityOfNumber :: "rat \<Rightarrow> log_severity option" where
  "severityOfNumber n =
     (if \<not> js_finite n then None
      else if 50 \<le> n then Some SevError
      else if 40 \<le> n then Some SevWarn
      else if 30 \<le> n then Some SevInfo
      else if 10 \<le> n then Some SevDebug
      else None)"

type_synonym scan_state = "jstring \<times> log_token list"

datatype outcome = Fail | Exhausted | Done scan_state

definition is_json_ws :: "char \<Rightarrow> bool" where
  "is_json_ws c \<longleftrightarrow> code c = 32 \<or> code c = 9 \<or> code c = 13"

definition whitespace :: "scan_state \<Rightarrow> scan_state" where
  "whitespace st =
     (case st of (rest, toks) \<Rightarrow>
        let ws = takeWhile is_json_ws rest
        in if ws = [] then (rest, toks) else (dropWhile is_json_ws rest, toks @ [mk_token KPunct ws]))"

definition punct :: "char \<Rightarrow> scan_state \<Rightarrow> scan_state option" where
  "punct ch st =
     (case st of
        (c # rest, toks) \<Rightarrow> if c = ch then Some (rest, toks @ [mk_token KPunct [ch]]) else None
      | ([], toks) \<Rightarrow> None)"

text \<open>After the opening quote: the literal up to and including the closing quote, and the rest.\<close>

fun string_body :: "jstring \<Rightarrow> (jstring \<times> jstring) option" where
  "string_body [] = None"
| "string_body [c] = (if c = CHR 0x22 then Some ([c], []) else None)"
| "string_body (c # d # cs) =
     (if c = CHR 0x5C then map_option (\<lambda>(raw, rest). (c # d # raw, rest)) (string_body cs)
      else if c = CHR 0x22 then Some ([c], d # cs)
      else map_option (\<lambda>(raw, rest). (c # raw, rest)) (string_body (d # cs)))"

definition stringLiteral :: "jstring \<Rightarrow> (jstring \<times> jstring) option" where
  "stringLiteral s =
     (case s of
        c # cs \<Rightarrow> if c = CHR 0x22 then map_option (\<lambda>(raw, rest). (c # raw, rest)) (string_body cs) else None
      | [] \<Rightarrow> None)"

text \<open>\<^verbatim>\<open>raw.slice(1, -1)\<close>.\<close>

definition inner_text :: "jstring \<Rightarrow> jstring" where
  "inner_text raw = butlast (tl raw)"

definition scalar_value :: "bool \<Rightarrow> scan_state \<Rightarrow> outcome" where
  "scalar_value isLevel st =
     (case st of (rest, toks) \<Rightarrow>
        case find (\<lambda>word. starts_with word rest) [''true'', ''false'', ''null''] of
          Some word \<Rightarrow> Done (drop (length word) rest, toks @ [mk_token KKeyword word])
        | None \<Rightarrow>
            (case json_number rest of
               None \<Rightarrow> Fail
             | Some (txt, n, rest') \<Rightarrow>
                 (case (if isLevel then severityOfNumber n else None) of
                    None \<Rightarrow> Done (rest', toks @ [mk_token KNumber txt])
                  | Some sev \<Rightarrow> Done (rest', toks @ [level_token txt sev]))))"

definition string_value :: "bool \<Rightarrow> scan_state \<Rightarrow> outcome" where
  "string_value isLevel st =
     (case st of (rest, toks) \<Rightarrow>
        case stringLiteral rest of
          None \<Rightarrow> Fail
        | Some (raw, rest') \<Rightarrow>
            (case (if isLevel then severityOfName (inner_text raw) else None) of
               None \<Rightarrow> Done (rest', toks @ [mk_token KString raw])
             | Some sev \<Rightarrow> Done (rest', toks @ [level_token raw sev])))"

text \<open>The key of a member with the colon after it, and whether its value is a level.\<close>

definition member_key :: "scan_state \<Rightarrow> (bool \<times> scan_state) option" where
  "member_key st =
     (case whitespace st of (rest, toks) \<Rightarrow>
        case stringLiteral rest of
          None \<Rightarrow> None
        | Some (key, rest') \<Rightarrow>
            map_option (Pair (to_lower (inner_text key) \<in> set LEVEL_KEYS))
              (punct (CHR '':'') (whitespace (rest', toks @ [mk_token KKey key]))))"

text \<open>The closures and their loops as one function over the part being read.\<close>

datatype scan_goal = GValue bool | GObject | GMembers | GArray | GElements

text \<open>After a member or an element: a comma goes on, the closing character ends the loop.\<close>

definition continue_or_close :: "char \<Rightarrow> (scan_state \<Rightarrow> outcome) \<Rightarrow> scan_state \<Rightarrow> outcome" where
  "continue_or_close ch again st =
     (let st1 = whitespace st
      in case punct (CHR '','') st1 of
           Some st2 \<Rightarrow> again st2
         | None \<Rightarrow> (case punct ch st1 of Some st2 \<Rightarrow> Done st2 | None \<Rightarrow> Fail))"

text \<open>The opening character, and either the closing one at once or the loop.\<close>

definition open_or_empty :: "char \<Rightarrow> char \<Rightarrow> (scan_state \<Rightarrow> outcome) \<Rightarrow> scan_state \<Rightarrow> outcome" where
  "open_or_empty op ch loop st =
     (case punct op st of
        None \<Rightarrow> Fail
      | Some st1 \<Rightarrow>
          (let st2 = whitespace st1
           in case punct ch st2 of Some st3 \<Rightarrow> Done st3 | None \<Rightarrow> loop st2))"

definition and_then :: "outcome \<Rightarrow> (scan_state \<Rightarrow> outcome) \<Rightarrow> outcome" where
  "and_then r k = (case r of Done st \<Rightarrow> k st | Fail \<Rightarrow> Fail | Exhausted \<Rightarrow> Exhausted)"

text \<open>One unfolding of each closure; \<open>rec\<close> are the calls it makes.\<close>

definition value_step :: "(scan_goal \<Rightarrow> scan_state \<Rightarrow> outcome) \<Rightarrow> bool \<Rightarrow> scan_state \<Rightarrow> outcome" where
  "value_step rec isLevel st0 =
     (let st = whitespace st0
      in case fst st of
           [] \<Rightarrow> Fail
         | c # _ \<Rightarrow>
             if c = CHR ''{'' then rec GObject st
             else if c = CHR ''['' then rec GArray st
             else if c = CHR 0x22 then string_value isLevel st
             else scalar_value isLevel st)"

definition members_step :: "(scan_goal \<Rightarrow> scan_state \<Rightarrow> outcome) \<Rightarrow> scan_state \<Rightarrow> outcome" where
  "members_step rec st =
     (case member_key st of
        None \<Rightarrow> Fail
      | Some (isLevel, st1) \<Rightarrow>
          and_then (rec (GValue isLevel) st1) (continue_or_close (CHR ''}'') (rec GMembers)))"

definition elements_step :: "(scan_goal \<Rightarrow> scan_state \<Rightarrow> outcome) \<Rightarrow> scan_state \<Rightarrow> outcome" where
  "elements_step rec st =
     and_then (rec (GValue False) st) (continue_or_close (CHR '']'') (rec GElements))"

definition scan_step :: "(scan_goal \<Rightarrow> scan_state \<Rightarrow> outcome) \<Rightarrow> scan_goal \<Rightarrow> scan_state \<Rightarrow> outcome" where
  "scan_step rec g =
     (case g of
        GValue isLevel \<Rightarrow> value_step rec isLevel
      | GObject \<Rightarrow> open_or_empty (CHR ''{'') (CHR ''}'') (rec GMembers)
      | GMembers \<Rightarrow> members_step rec
      | GArray \<Rightarrow> open_or_empty (CHR ''['') (CHR '']'') (rec GElements)
      | GElements \<Rightarrow> elements_step rec)"

primrec scan :: "nat \<Rightarrow> scan_goal \<Rightarrow> scan_state \<Rightarrow> outcome" where
  "scan 0 = (\<lambda>g st. Exhausted)"
| "scan (Suc n) = scan_step (scan n)"

definition tokenizeJsonLine :: "jstring \<Rightarrow> log_token list option" where
  "tokenizeJsonLine line =
     (let prefix = timestamp_prefix line;
          src = drop (length prefix) line;
          toks = (if prefix = [] then [] else [mk_token KText prefix])
      in case src of
           [] \<Rightarrow> None
         | c # _ \<Rightarrow>
             if c \<noteq> CHR ''{'' then None
             else (case scan (3 * length src + 2) GObject (src, toks) of
                     Done st \<Rightarrow> (case whitespace st of (rest, toks') \<Rightarrow> if rest = [] then Some toks' else None)
                   | _ \<Rightarrow> None))"

definition SEVERITY_CLASS :: "log_severity \<Rightarrow> jstring" where
  "SEVERITY_CLASS s = (case s of
     SevError \<Rightarrow> ''font-bold text-red-400'' | SevWarn \<Rightarrow> ''font-bold text-yellow-300''
   | SevInfo \<Rightarrow> ''font-bold text-emerald-300'' | SevDebug \<Rightarrow> ''font-bold text-slate-400'')"

definition KIND_CLASS :: "log_token_kind \<Rightarrow> jstring" where
  "KIND_CLASS k = (case k of
     KText \<Rightarrow> ''text-slate-500'' | KPunct \<Rightarrow> ''text-slate-500'' | KKey \<Rightarrow> ''text-sky-300''
   | KString \<Rightarrow> ''text-emerald-300'' | KNumber \<Rightarrow> ''text-amber-300'' | KKeyword \<Rightarrow> ''text-fuchsia-300''
   | KLevel \<Rightarrow> ''text-emerald-300'')"

definition logTokenClass :: "log_token \<Rightarrow> jstring" where
  "logTokenClass t = (case tok_severity t of Some s \<Rightarrow> SEVERITY_CLASS s | None \<Rightarrow> KIND_CLASS (tok_kind t))"

lemma timestamp_prefix_append: "timestamp_prefix line @ drop (length (timestamp_prefix line)) line = line"
proof (cases "timestamp_prefix line = []")
  case False
  let ?r = "drop 11 line" and ?p = "\<lambda>c. \<not> is_space c"
  let ?d = "dropWhile ?p ?r"
  from False have "timestamp_prefix line = take 11 line @ takeWhile ?p ?r @ takeWhile is_space ?d"
    by (auto simp: timestamp_prefix_def Let_def split: if_splits)
  moreover have "line = take 11 line @ takeWhile ?p ?r @ takeWhile is_space ?d @ dropWhile is_space ?d"
    by (metis append_take_drop_id takeWhile_dropWhile_id)
  ultimately show ?thesis by (metis append.assoc append_eq_conv_conj)
qed simp

section \<open>Nothing is lost\<close>

text \<open>A level token, and only a level token, carries a severity.\<close>

definition token_ok :: "log_token \<Rightarrow> bool" where
  "token_ok t \<longleftrightarrow> tok_text t \<noteq> [] \<and> (tok_kind t = KLevel \<longleftrightarrow> tok_severity t \<noteq> None)"

text \<open>\<open>st'\<close> is reached from \<open>st\<close> by emitting the text consumed in between, as well-formed tokens.\<close>

definition emits :: "scan_state \<Rightarrow> scan_state \<Rightarrow> bool" where
  "emits st st' \<longleftrightarrow> (\<exists>new. snd st' = snd st @ new \<and> fst st = concat (map tok_text new) @ fst st' \<and>
     list_all token_ok new)"

named_theorems scan_emits \<open>what every scanner step emits\<close>

lemma emits_refl [simp]: "emits st st"
  by (simp add: emits_def)

lemma emits_trans: "emits a b \<Longrightarrow> emits b c \<Longrightarrow> emits a c"
  unfolding emits_def by (elim exE conjE) (rule exI, auto)

lemma emits_length: "emits a b \<Longrightarrow> length (fst b) \<le> length (fst a)"
  by (auto simp: emits_def)

lemma emits_token:
  "token_ok t \<Longrightarrow> tok_text t @ rest' = rest \<Longrightarrow> emits (rest, toks) (rest', toks @ [t])"
  by (auto simp: emits_def)

lemma mk_token_ok [simp]: "k \<noteq> KLevel \<Longrightarrow> x \<noteq> [] \<Longrightarrow> token_ok (mk_token k x)"
  by (simp add: token_ok_def mk_token_def)

lemma level_token_ok [simp]: "x \<noteq> [] \<Longrightarrow> token_ok (level_token x v)"
  by (simp add: token_ok_def level_token_def)

lemma token_text [simp]: "tok_text (mk_token k x) = x" "tok_text (level_token x v) = x"
  by (simp_all add: mk_token_def level_token_def)

lemma emits_whitespace [scan_emits]: "emits st (whitespace st)"
  by (cases st) (auto simp: whitespace_def Let_def intro!: emits_token)

lemma emits_punct [scan_emits]: "punct ch st = Some st' \<Longrightarrow> emits st st'"
  by (auto simp: punct_def split: prod.splits list.splits if_splits intro!: emits_token)

lemma punct_length: "punct ch st = Some st' \<Longrightarrow> length (fst st) = Suc (length (fst st'))"
  by (auto simp: punct_def split: prod.splits list.splits if_splits)

text \<open>Emitting at least one character.\<close>

definition advances :: "scan_state \<Rightarrow> scan_state \<Rightarrow> bool" where
  "advances a b \<longleftrightarrow> emits a b \<and> length (fst b) < length (fst a)"

lemma advances_trans: "advances a b \<Longrightarrow> advances b c \<Longrightarrow> advances a c"
  by (auto simp: advances_def intro: emits_trans)

lemma emits_advances: "emits a b \<Longrightarrow> advances b c \<Longrightarrow> advances a c"
  unfolding advances_def using emits_trans emits_length by fastforce

lemma advances_emits: "advances a b \<Longrightarrow> emits b c \<Longrightarrow> advances a c"
  unfolding advances_def using emits_trans emits_length by fastforce

lemma punct_advances: "punct ch st = Some st' \<Longrightarrow> advances st st'"
  by (simp add: advances_def emits_punct punct_length)

lemma whitespace_punct: "punct ch (whitespace st) = Some st' \<Longrightarrow> advances st st'"
  by (rule emits_advances [OF emits_whitespace punct_advances])

lemma string_body_append: "string_body s = Some (raw, rest) \<Longrightarrow> raw @ rest = s"
  by (induction s arbitrary: raw rest rule: string_body.induct) (auto split: if_splits)

lemma stringLiteral_append: "stringLiteral s = Some (raw, rest) \<Longrightarrow> raw @ rest = s \<and> raw \<noteq> []"
  by (auto simp: stringLiteral_def split: list.splits if_splits dest: string_body_append)

lemma emits_string_value: "string_value l st = Done st' \<Longrightarrow> advances st st'"
  by (cases st)
    (auto simp: advances_def string_value_def split: option.splits if_splits dest!: stringLiteral_append intro!: emits_token)

lemma keyword_nonempty:
  "find (\<lambda>w. starts_with w s) [''true'', ''false'', ''null''] = Some w \<Longrightarrow> w \<noteq> [] \<and> (\<exists>t. s = w @ t)"
  by (auto simp: starts_with_iff split: if_splits)

lemma emits_scalar_value: "scalar_value l st = Done st' \<Longrightarrow> advances st st'"
  by (cases st)
    (auto simp: advances_def scalar_value_def split: option.splits if_splits dest!: json_number_append keyword_nonempty
      intro!: emits_token simp del: find.simps)

lemma emits_member_key:
  assumes "member_key st = Some (l, st')" shows "advances st st'"
proof -
  obtain r toks where w: "whitespace st = (r, toks)" by fastforce
  from assms w obtain key r' where k: "stringLiteral r = Some (key, r')"
    and p: "punct (CHR '':'') (whitespace (r', toks @ [mk_token KKey key])) = Some st'"
    by (auto simp: member_key_def split: option.splits)
  have "emits (r, toks) (r', toks @ [mk_token KKey key])"
    using stringLiteral_append [OF k] by (auto intro!: emits_token)
  then have "emits st (r', toks @ [mk_token KKey key])"
    using emits_whitespace w by (metis emits_trans)
  with whitespace_punct [OF p] show ?thesis by (rule emits_advances [rotated])
qed

text \<open>What a caller may rely on about the calls it makes.\<close>

definition emits_ok :: "(scan_state \<Rightarrow> outcome) \<Rightarrow> bool" where
  "emits_ok f \<longleftrightarrow> (\<forall>st st'. f st = Done st' \<longrightarrow> advances st st')"

lemma emits_okI: "(\<And>st st'. f st = Done st' \<Longrightarrow> advances st st') \<Longrightarrow> emits_ok f"
  unfolding emits_ok_def by blast

lemma emits_okD: "emits_ok f \<Longrightarrow> f st = Done st' \<Longrightarrow> advances st st'"
  unfolding emits_ok_def by blast

lemma emits_continue: "emits_ok again \<Longrightarrow> emits_ok (continue_or_close ch again)"
  by (rule emits_okI)
    (auto simp: continue_or_close_def Let_def split: option.splits
      dest!: whitespace_punct dest: emits_okD intro: advances_trans)

lemma emits_open:
  assumes "emits_ok loop" shows "emits_ok (open_or_empty op ch loop)"
proof (rule emits_okI)
  fix st st' assume d: "open_or_empty op ch loop st = Done st'"
  then obtain st1 where p: "punct op st = Some st1"
    by (auto simp: open_or_empty_def split: option.splits)
  have s1: "advances st (whitespace st1)"
    by (rule advances_emits [OF punct_advances [OF p] emits_whitespace])
  show "advances st st'"
  proof (cases "punct ch (whitespace st1)")
    case None
    then have "loop (whitespace st1) = Done st'" using d p by (simp add: open_or_empty_def Let_def)
    with assms s1 show ?thesis using emits_okD advances_trans by blast
  next
    case (Some st2)
    then have "st2 = st'" using d p by (simp add: open_or_empty_def Let_def)
    with Some s1 show ?thesis using punct_advances advances_trans by blast
  qed
qed

lemma emits_and_then: "emits_ok f \<Longrightarrow> emits_ok k \<Longrightarrow> emits_ok (\<lambda>st. and_then (f st) k)"
  by (rule emits_okI)
    (auto simp: and_then_def split: outcome.splits dest: emits_okD intro: advances_trans)

lemma emits_value_step:
  assumes "emits_ok (rec GObject)" "emits_ok (rec GArray)"
  shows "emits_ok (value_step rec l)"
proof (rule emits_okI)
  fix st st' assume d: "value_step rec l st = Done st'"
  have "advances (whitespace st) st'"
    using d assms emits_string_value emits_scalar_value emits_okD
    by (auto simp: value_step_def Let_def split: list.splits if_splits)
  with emits_whitespace show "advances st st'" by (rule emits_advances)
qed

lemma emits_members_step:
  assumes "\<And>l. emits_ok (rec (GValue l))" "emits_ok (rec GMembers)"
  shows "emits_ok (members_step rec)"
proof (rule emits_okI)
  fix st st' assume "members_step rec st = Done st'"
  then obtain l st1 where k: "member_key st = Some (l, st1)"
    and t: "and_then (rec (GValue l) st1) (continue_or_close (CHR ''}'') (rec GMembers)) = Done st'"
    by (auto simp: members_step_def split: option.splits)
  show "advances st st'"
    by (rule advances_trans [OF emits_member_key [OF k]
      emits_okD [OF emits_and_then [OF assms(1) emits_continue [OF assms(2)]] t]])
qed

lemma emits_scan: "emits_ok (scan n g)"
proof (induction n arbitrary: g)
  case (Suc n)
  have el: "emits_ok (elements_step (scan n))"
    unfolding elements_step_def [abs_def] by (rule emits_and_then [OF Suc.IH emits_continue [OF Suc.IH]])
  show ?case
    using emits_value_step [of "scan n"] emits_members_step [of "scan n"] emits_open el Suc.IH
    by (cases g) (auto simp: scan_step_def)
qed (simp add: emits_ok_def)

lemma tokenize_emits:
  assumes Some: "tokenizeJsonLine line = Some toks"
  shows "concat (map tok_text toks) = line \<and> list_all token_ok toks"
proof -
  define src where "src = drop (length (timestamp_prefix line)) line"
  define pre where "pre = (if timestamp_prefix line = [] then [] else [mk_token KText (timestamp_prefix line)])"
  have line: "concat (map tok_text pre) @ src = line" "list_all token_ok pre"
    using timestamp_prefix_append [of line] by (auto simp: pre_def src_def)
  from Some obtain st where d: "scan (3 * length src + 2) GObject (src, pre) = Done st"
    and w: "whitespace st = ([], toks)"
    by (auto simp: tokenizeJsonLine_def Let_def src_def [symmetric] pre_def [symmetric] simp del: scan.simps
      split: list.splits if_splits outcome.splits prod.splits)
  have "emits (src, pre) st" using emits_okD [OF emits_scan d] by (simp add: advances_def)
  then have "emits (src, pre) ([], toks)" using emits_whitespace [of st] w by (metis emits_trans)
  then show ?thesis using line by (auto simp: emits_def)
qed

text \<open>
  C27. \<^verbatim>\<open>tokenizeJsonLine\<close> loses and adds nothing: when it accepts a line, the concatenation of its token
  texts is that line, byte for byte; no token is empty, and a token carries a severity exactly when
  its kind is \<^verbatim>\<open>level\<close>, so the \<^verbatim>\<open>level\<close> entry of the class map is never the one used.
\<close>

theorem tokens_lossless:
  "case tokenizeJsonLine line of
     None \<Rightarrow> True
   | Some toks \<Rightarrow>
       concat (map tok_text toks) = line \<and> list_all token_ok toks \<and>
       list_all (\<lambda>t. if tok_kind t = KLevel then logTokenClass t = SEVERITY_CLASS (the (tok_severity t))
                     else logTokenClass t = KIND_CLASS (tok_kind t)) toks"
proof (cases "tokenizeJsonLine line")
  case (Some toks)
  show ?thesis
    using tokenize_emits [OF Some] Some
    by (force simp: list_all_iff token_ok_def logTokenClass_def split: option.splits)
qed simp

section \<open>Termination\<close>

text \<open>The fuel a part needs when \<open>l\<close> characters are left.\<close>

definition fuel_need :: "scan_goal \<Rightarrow> nat \<Rightarrow> nat" where
  "fuel_need g l = (case g of GValue _ \<Rightarrow> 3 * l + 3 | GObject \<Rightarrow> 3 * l + 2 | GArray \<Rightarrow> 3 * l + 2
     | GMembers \<Rightarrow> 3 * l + 4 | GElements \<Rightarrow> 3 * l + 4)"

definition ends_below :: "(scan_state \<Rightarrow> outcome) \<Rightarrow> nat \<Rightarrow> bool" where
  "ends_below f l \<longleftrightarrow> (\<forall>st. length (fst st) < l \<longrightarrow> f st \<noteq> Exhausted)"

lemma ends_belowD: "ends_below f l \<Longrightarrow> length (fst st) < l \<Longrightarrow> f st \<noteq> Exhausted"
  unfolding ends_below_def by blast

lemma ends_belowI: "(\<And>st. length (fst st) < l \<Longrightarrow> f st \<noteq> Exhausted) \<Longrightarrow> ends_below f l"
  unfolding ends_below_def by blast

lemma advances_below: "advances a b \<Longrightarrow> length (fst b) < length (fst a)"
  by (simp add: advances_def)

lemma continue_ends:
  "ends_below again l \<Longrightarrow> length (fst st) \<le> l \<Longrightarrow> continue_or_close ch again st \<noteq> Exhausted"
  using advances_below [OF whitespace_punct, of "CHR '',''" st] ends_belowD [of again l]
  by (force simp: continue_or_close_def Let_def split: option.splits)

lemma open_ends:
  assumes "ends_below loop (length (fst st))"
  shows "open_or_empty op ch loop st \<noteq> Exhausted"
proof (cases "punct op st")
  case (Some st1)
  then have "length (fst (whitespace st1)) < length (fst st)"
    using punct_length emits_length [OF emits_whitespace [of st1]] by fastforce
  with Some ends_belowD [OF assms this] show ?thesis
    by (auto simp: open_or_empty_def Let_def split: option.splits)
qed (simp add: open_or_empty_def)

lemma scalar_ends [simp]: "string_value l st \<noteq> Exhausted" "scalar_value l st \<noteq> Exhausted"
  by (auto simp: string_value_def scalar_value_def split: prod.splits option.splits)

lemma value_ends:
  assumes "\<And>g st'. g \<in> {GObject, GArray} \<Longrightarrow> length (fst st') \<le> length (fst st) \<Longrightarrow> rec g st' \<noteq> Exhausted"
  shows "value_step rec l st \<noteq> Exhausted"
  using assms emits_length [OF emits_whitespace [of st]]
  by (auto simp: value_step_def Let_def split: list.splits)

lemma and_then_ends:
  "r \<noteq> Exhausted \<Longrightarrow> (\<And>st. r = Done st \<Longrightarrow> k st \<noteq> Exhausted) \<Longrightarrow> and_then r k \<noteq> Exhausted"
  by (cases r) (auto simp: and_then_def)

lemma scan_enough: "fuel_need g (length (fst st)) \<le> n \<Longrightarrow> scan n g st \<noteq> Exhausted"
proof (induction n arbitrary: g st)
  case 0
  then show ?case by (cases g) (auto simp: fuel_need_def)
next
  case (Suc n)
  have below: "ends_below (scan n g') (length (fst st))"
    if "\<And>l. l < length (fst st) \<Longrightarrow> fuel_need g' l \<le> n" for g'
    by (rule ends_belowI, rule Suc.IH, rule that)
  show ?case
  proof (cases g)
    case (GValue l)
    have "value_step (scan n) l st \<noteq> Exhausted"
      by (rule value_ends, rule Suc.IH) (use Suc.prems GValue in \<open>auto simp: fuel_need_def\<close>)
    then show ?thesis using GValue by (simp add: scan_step_def)
  next
    case GObject
    then have "ends_below (scan n GMembers) (length (fst st))"
      using Suc.prems by (intro below) (auto simp: fuel_need_def)
    then show ?thesis using GObject by (simp add: open_ends scan_step_def)
  next
    case GArray
    then have "ends_below (scan n GElements) (length (fst st))"
      using Suc.prems by (intro below) (auto simp: fuel_need_def)
    then show ?thesis using GArray by (simp add: open_ends scan_step_def)
  next
    case GMembers
    have b: "ends_below (scan n GMembers) (length (fst st))"
      using Suc.prems GMembers by (intro below) (auto simp: fuel_need_def)
    have "and_then (scan n (GValue l) st1) (continue_or_close (CHR ''}'') (scan n GMembers)) \<noteq> Exhausted"
      if "member_key st = Some (l, st1)" for l st1
    proof (rule and_then_ends)
      have "length (fst st1) < length (fst st)" using emits_member_key [OF that] by (rule advances_below)
      then show "scan n (GValue l) st1 \<noteq> Exhausted"
        using Suc.prems GMembers by (intro Suc.IH) (auto simp: fuel_need_def)
      fix st2 assume "scan n (GValue l) st1 = Done st2"
      with \<open>length (fst st1) < _\<close> show "continue_or_close (CHR ''}'') (scan n GMembers) st2 \<noteq> Exhausted"
        using advances_below [OF emits_okD [OF emits_scan]] by (intro continue_ends [OF b]) fastforce
    qed
    then show ?thesis using GMembers by (auto simp: scan_step_def members_step_def split: option.splits)
  next
    case GElements
    have b: "ends_below (scan n GElements) (length (fst st))"
      using Suc.prems GElements by (intro below) (auto simp: fuel_need_def)
    have "elements_step (scan n) st \<noteq> Exhausted"
      unfolding elements_step_def
    proof (rule and_then_ends)
      show "scan n (GValue False) st \<noteq> Exhausted"
        using Suc.prems GElements by (intro Suc.IH) (auto simp: fuel_need_def)
      fix st2 assume "scan n (GValue False) st = Done st2"
      then show "continue_or_close (CHR '']'') (scan n GElements) st2 \<noteq> Exhausted"
        using advances_below [OF emits_okD [OF emits_scan]] by (intro continue_ends [OF b]) fastforce
    qed
    then show ?thesis using GElements by (simp add: scan_step_def)
  qed
qed

text \<open>More fuel does not change an answer.\<close>

definition refines :: "(scan_state \<Rightarrow> outcome) \<Rightarrow> (scan_state \<Rightarrow> outcome) \<Rightarrow> bool" where
  "refines f g \<longleftrightarrow> (\<forall>st. f st \<noteq> Exhausted \<longrightarrow> g st = f st)"

lemma refines_continue: "refines a b \<Longrightarrow> refines (continue_or_close ch a) (continue_or_close ch b)"
  by (auto simp: refines_def continue_or_close_def Let_def simp del: split_paired_All split: option.splits)

lemma refines_open: "refines a b \<Longrightarrow> refines (open_or_empty op ch a) (open_or_empty op ch b)"
  by (auto simp: refines_def open_or_empty_def Let_def simp del: split_paired_All split: option.splits)

lemma refinesD: "refines f g \<Longrightarrow> f st \<noteq> Exhausted \<Longrightarrow> g st = f st"
  unfolding refines_def by blast

lemma refinesI: "(\<And>st. f st \<noteq> Exhausted \<Longrightarrow> g st = f st) \<Longrightarrow> refines f g"
  unfolding refines_def by blast

lemma refines_and_then:
  assumes "refines f g" "refines h k"
  shows "refines (\<lambda>st. and_then (f st) h) (\<lambda>st. and_then (g st) k)"
proof (rule refinesI)
  fix st assume e: "and_then (f st) h \<noteq> Exhausted"
  then have "f st \<noteq> Exhausted" by (auto simp: and_then_def)
  with e show "and_then (g st) k = and_then (f st) h"
    using refinesD [OF assms(1), of st] refinesD [OF assms(2)]
    by (cases "f st") (auto simp: and_then_def)
qed

lemma refines_value:
  assumes "\<And>g. refines (r g) (r' g)" shows "refines (value_step r l) (value_step r' l)"
  by (rule refinesI) (auto simp: value_step_def Let_def intro!: refinesD [OF assms] split: list.splits)

lemma refines_members:
  assumes "\<And>g. refines (r g) (r' g)" shows "refines (members_step r) (members_step r')"
proof (rule refinesI)
  fix st assume "members_step r st \<noteq> Exhausted"
  then show "members_step r' st = members_step r st"
    using refinesD [OF refines_and_then [OF assms refines_continue [OF assms]]]
    by (auto simp: members_step_def split: option.splits)
qed

lemma refines_elements:
  assumes "\<And>g. refines (r g) (r' g)" shows "refines (elements_step r) (elements_step r')"
  unfolding elements_step_def [abs_def] by (rule refines_and_then [OF assms refines_continue [OF assms]])

lemma refines_step:
  assumes "\<And>g. refines (r g) (r' g)" shows "refines (scan_step r g) (scan_step r' g)"
  using refines_value [OF assms] refines_members [OF assms] refines_elements [OF assms]
    refines_open [OF assms] by (cases g) (auto simp: scan_step_def)

lemma scan_Suc: "refines (scan n g) (scan (Suc n) g)"
proof (induction n arbitrary: g)
  case (Suc n)
  then show ?case unfolding scan.simps(2) by (intro refines_step)
qed (simp add: refines_def)

lemma scan_more: "scan n g st \<noteq> Exhausted \<Longrightarrow> scan (n + k) g st = scan n g st"
proof (induction k)
  case (Suc k)
  then show ?case using refinesD [OF scan_Suc [of "n + k" g], of st] by (simp del: scan.simps(2))
qed simp

text \<open>
  C28. The scanner always returns: \<^verbatim>\<open>3 * length + 2\<close> recursion steps are enough for any text, well-formed
  or not, and the answer is the one any larger number gives, so the bound is not visible in it.
\<close>

theorem scan_terminates:
  "scan (3 * length src + 2) GObject (src, toks) \<noteq> Exhausted \<and>
   scan (3 * length src + 2 + k) GObject (src, toks) = scan (3 * length src + 2) GObject (src, toks)"
  by (intro conjI scan_more scan_enough) (simp_all add: fuel_need_def)

end
