(* ===== verification/LogSearch.thy ===== *)
theory LogSearch
  imports LogTokens
begin

text \<open>
  \<^verbatim>\<open>web/src/utils/logSearch.ts\<close>: compiling a search text, finding its hits in a line, scanning the
  buffer, and cutting a line into coloured pieces at the hit boundaries. The regular expressions are
  built from escaped text only, so the fragment of the syntax modelled is that of literal characters
  and escaped syntax characters; \<open>literal_pattern\<close> refuses anything else.
\<close>

section \<open>Queries\<close>

definition is_meta :: "char \<Rightarrow> bool" where
  "is_meta c \<longleftrightarrow> c \<in> set ''.*+?^${}()|[]'' \<or> c = CHR 0x5C"

definition escape_regex :: "jstring \<Rightarrow> jstring" where
  "escape_regex raw = concat (map (\<lambda>c. if is_meta c then [CHR 0x5C, c] else [c]) raw)"

text \<open>The literal text a pattern of literals and escaped syntax characters stands for.\<close>

fun literal_pattern :: "jstring \<Rightarrow> jstring option" where
  "literal_pattern [] = Some []"
| "literal_pattern [c] = (if is_meta c then None else Some [c])"
| "literal_pattern (c # d # cs) =
     (if c = CHR 0x5C then (if is_meta d then map_option (Cons d) (literal_pattern cs) else None)
      else if is_meta c then None
      else map_option (Cons c) (literal_pattern (d # cs)))"

record log_query =
  lq_source :: jstring
  lq_pattern :: jstring

definition compileQuery :: "jstring \<Rightarrow> log_query option" where
  "compileQuery raw =
     (if trim raw = [] then None
      else map_option (\<lambda>p. \<lparr>lq_source = raw, lq_pattern = p\<rparr>) (literal_pattern (escape_regex raw)))"

text \<open>\<^verbatim>\<open>Canonicalize\<close> of the \<^verbatim>\<open>i\<close> flag: upper case, where that is one code unit below 256.\<close>

definition canonicalize :: "char \<Rightarrow> char" where
  "canonicalize c =
     (let n = code c in
        if (97 \<le> n \<and> n \<le> 122) \<or> (224 \<le> n \<and> n \<le> 254 \<and> n \<noteq> 247) then char_of (n - 32) else c)"

definition match_at :: "jstring \<Rightarrow> jstring \<Rightarrow> nat \<Rightarrow> bool" where
  "match_at p line i \<longleftrightarrow>
     length (take (length p) (drop i line)) = length p \<and>
     list_all2 (\<lambda>a b. canonicalize a = canonicalize b) p (take (length p) (drop i line))"

text \<open>\<^verbatim>\<open>re.exec\<close> of a global pattern from \<^verbatim>\<open>lastIndex\<close>: the first index it matches at.\<close>

definition exec_from :: "jstring \<Rightarrow> jstring \<Rightarrow> nat \<Rightarrow> nat option" where
  "exec_from p line start = find (match_at p line) [start..<Suc (length line)]"

definition lineMatches :: "log_query \<Rightarrow> jstring \<Rightarrow> bool" where
  "lineMatches q line = (exec_from (lq_pattern q) line 0 \<noteq> None)"

type_synonym hit_range = "nat \<times> nat"

text \<open>The loop of \<^verbatim>\<open>matchRanges\<close>, on fuel because an empty pattern would never advance.\<close>

fun match_loop :: "nat \<Rightarrow> jstring \<Rightarrow> jstring \<Rightarrow> nat \<Rightarrow> hit_range list option" where
  "match_loop 0 p line lastIndex = None"
| "match_loop (Suc n) p line lastIndex =
     (case exec_from p line lastIndex of
        None \<Rightarrow> Some []
      | Some start \<Rightarrow>
          map_option (Cons (start, start + length p)) (match_loop n p line (start + length p)))"

definition matchRanges :: "log_query \<Rightarrow> jstring \<Rightarrow> hit_range list option" where
  "matchRanges q line = match_loop (Suc (length line)) (lq_pattern q) line 0"

definition scanLines :: "jstring list \<Rightarrow> log_query \<Rightarrow> nat \<Rightarrow> nat list" where
  "scanLines buffer q lo = filter (\<lambda>i. lineMatches q (buffer ! i)) [lo..<length buffer]"

section \<open>Segments\<close>

record line_segment =
  seg_text :: jstring
  seg_cls :: jstring
  seg_hit :: bool

definition slice :: "nat \<Rightarrow> nat \<Rightarrow> 'a list \<Rightarrow> 'a list" where
  "slice a b xs = take (b - a) (drop a xs)"

definition line_pieces :: "jstring \<Rightarrow> log_token list option \<Rightarrow> (jstring \<times> jstring) list" where
  "line_pieces line toks =
     (case toks of
        None \<Rightarrow> [(line, [])]
      | Some ts \<Rightarrow> map (\<lambda>t. (tok_text t, logTokenClass t)) ts)"

lemma remaining_ends_after: "(s, e) # rest = dropWhile (\<lambda>(s, e). e \<le> cursor) ranges \<Longrightarrow> cursor < (e :: nat)"
  using hd_dropWhile [of "\<lambda>(s, e). e \<le> cursor" ranges]
  by (metis (mono_tags, lifting) case_prod_conv linorder_not_le list.distinct(1) list.sel(1))

text \<open>The inner loop over one piece; the ranges not yet passed stand for the index \<^verbatim>\<open>r\<close>.\<close>

function piece_loop :: "jstring \<Rightarrow> jstring \<Rightarrow> nat \<Rightarrow> nat \<Rightarrow> hit_range list \<Rightarrow> line_segment list \<times> hit_range list" where
  "piece_loop line cls pieceEnd cursor ranges =
     (if pieceEnd \<le> cursor then ([], ranges)
      else
        let rs = dropWhile (\<lambda>(s, e). e \<le> cursor) ranges
        in case rs of
             [] \<Rightarrow> ([\<lparr>seg_text = slice cursor pieceEnd line, seg_cls = cls, seg_hit = False\<rparr>], rs)
           | (s, e) # _ \<Rightarrow>
               if pieceEnd \<le> s then
                 ([\<lparr>seg_text = slice cursor pieceEnd line, seg_cls = cls, seg_hit = False\<rparr>], rs)
               else
                 let hitStart = max s cursor;
                     hitEnd = min e pieceEnd;
                     before = (if cursor < hitStart
                       then [\<lparr>seg_text = slice cursor hitStart line, seg_cls = cls, seg_hit = False\<rparr>] else []);
                     (more, rest) = piece_loop line cls pieceEnd hitEnd rs
                 in (before @ \<lparr>seg_text = slice hitStart hitEnd line, seg_cls = cls, seg_hit = True\<rparr> # more, rest))"
  by pat_completeness auto
termination
  by (relation "measure (\<lambda>(line, cls, pieceEnd, cursor, ranges). pieceEnd - cursor)")
    (auto dest!: remaining_ends_after)

declare piece_loop.simps [simp del]

fun pieces_loop :: "jstring \<Rightarrow> (jstring \<times> jstring) list \<Rightarrow> nat \<Rightarrow> hit_range list \<Rightarrow> line_segment list" where
  "pieces_loop line [] pos ranges = []"
| "pieces_loop line ((t, cls) # ps) pos ranges =
     (case piece_loop line cls (pos + length t) pos ranges of
        (segs, rs) \<Rightarrow> segs @ pieces_loop line ps (pos + length t) rs)"

definition segmentLine :: "jstring \<Rightarrow> log_token list option \<Rightarrow> hit_range list \<Rightarrow> line_segment list" where
  "segmentLine line toks ranges =
     (let pieces = line_pieces line toks
      in if ranges = [] then map (\<lambda>(t, cls). \<lparr>seg_text = t, seg_cls = cls, seg_hit = False\<rparr>) pieces
         else pieces_loop line pieces 0 ranges)"

section \<open>Escaping\<close>

lemma escape_Cons: "escape_regex (c # raw) = (if is_meta c then [CHR 0x5C, c] else [c]) @ escape_regex raw"
  by (simp add: escape_regex_def)

lemma literal_plain: "\<not> is_meta c \<Longrightarrow> literal_pattern (c # cs) = map_option (Cons c) (literal_pattern cs)"
  by (cases cs) (auto simp: is_meta_def)

lemma literal_escape: "literal_pattern (escape_regex raw) = Some raw"
proof (induction raw)
  case (Cons c raw)
  then show ?case by (cases "is_meta c") (simp_all add: escape_Cons literal_plain)
qed (simp add: escape_regex_def)

lemma compileQuery_eq: "compileQuery raw = (if trim raw = [] then None else Some \<lparr>lq_source = raw, lq_pattern = raw\<rparr>)"
  by (simp add: compileQuery_def literal_escape)

lemma trim_Nil [simp]: "trim [] = []"
  by (simp add: trim_def)

lemma compiled_nonempty: "compileQuery raw = Some q \<Longrightarrow> lq_pattern q = raw \<and> raw \<noteq> []"
  by (auto simp: compileQuery_eq split: if_splits)

section \<open>Hits\<close>

lemma match_at_bound: "match_at p line i \<Longrightarrow> i + length p \<le> length line \<or> p = []"
  by (cases p) (auto simp: match_at_def min_def split: if_splits)

lemma exec_from_Some:
  assumes "exec_from p line a = Some s"
  shows "a \<le> s" "match_at p line s" "s \<le> length line" "\<And>i. a \<le> i \<Longrightarrow> i < s \<Longrightarrow> \<not> match_at p line i"
proof -
  let ?is = "[a..<Suc (length line)]"
  from assms obtain k where k: "k < length ?is" "s = ?is ! k" "match_at p line (?is ! k)"
    "\<And>j. j < k \<Longrightarrow> \<not> match_at p line (?is ! j)"
    unfolding exec_from_def find_Some_iff by metis
  have nth: "?is ! j = a + j" if "j \<le> k" for j
    using that k(1) by (simp add: nth_upt del: upt_Suc)
  then have s: "s = a + k" using k(2) by blast
  show "a \<le> s" "match_at p line s" "s \<le> length line"
    using s k(1) k(2) k(3) by (auto simp del: upt_Suc)
  fix i assume "a \<le> i" "i < s"
  then have "?is ! (i - a) = i" "i - a < k" using s nth [of "i - a"] by auto
  then show "\<not> match_at p line i" using k(4) by metis
qed

lemma exec_from_None: "exec_from p line a = None \<Longrightarrow> p \<noteq> [] \<Longrightarrow> a \<le> i \<Longrightarrow> \<not> match_at p line i"
proof
  assume n: "exec_from p line a = None" "p \<noteq> []" "a \<le> i" "match_at p line i"
  then have "i \<in> set [a..<Suc (length line)]" using match_at_bound [of p line i] by (auto simp del: upt_Suc)
  with n show False unfolding exec_from_def find_None_iff by blast
qed

text \<open>Ascending, disjoint, non-empty ranges from \<open>a\<close> on.\<close>

fun ranges_from :: "nat \<Rightarrow> hit_range list \<Rightarrow> bool" where
  "ranges_from a [] = True"
| "ranges_from a ((s, e) # rs) \<longleftrightarrow> a \<le> s \<and> s < e \<and> ranges_from e rs"

definition in_ranges :: "hit_range list \<Rightarrow> nat \<Rightarrow> bool" where
  "in_ranges rs i \<longleftrightarrow> list_ex (\<lambda>(s, e). s \<le> i \<and> i < e) rs"

text \<open>What the hits of a line are: disjoint ascending occurrences, and no occurrence starts outside them.\<close>

definition hits_exact :: "jstring \<Rightarrow> jstring \<Rightarrow> nat \<Rightarrow> hit_range list \<Rightarrow> bool" where
  "hits_exact p line a rs \<longleftrightarrow>
     ranges_from a rs \<and>
     list_all (\<lambda>(s, e). match_at p line s \<and> e = s + length p \<and> e \<le> length line) rs \<and>
     (\<forall>i. a \<le> i \<longrightarrow> match_at p line i \<longrightarrow> in_ranges rs i)"

lemma match_loop_exact:
  "p \<noteq> [] \<Longrightarrow> a \<le> length line \<Longrightarrow> length line - a < n \<Longrightarrow>
   \<exists>rs. match_loop n p line a = Some rs \<and> hits_exact p line a rs"
proof (induction n arbitrary: a)
  case (Suc n)
  show ?case
  proof (cases "exec_from p line a")
    case None
    then show ?thesis using exec_from_None [OF None Suc.prems(1)] by (auto simp: hits_exact_def)
  next
    case (Some s)
    note x = exec_from_Some [OF Some]
    have len: "s + length p \<le> length line" using match_at_bound [OF x(2)] Suc.prems(1) by simp
    moreover have "length line - (s + length p) < n" using Suc.prems x(1) len by (cases p) auto
    ultimately obtain rs where rs: "match_loop n p line (s + length p) = Some rs" "hits_exact p line (s + length p) rs"
      using Suc.IH [OF Suc.prems(1)] by blast
    have "in_ranges ((s, s + length p) # rs) i" if "a \<le> i" "match_at p line i" for i
      using that x(4) [of i] rs(2) by (cases "i < s"; cases "i < s + length p") (auto simp: hits_exact_def in_ranges_def)
    then show ?thesis
      using rs Some x Suc.prems(1) len by (auto simp: hits_exact_def)
  qed
qed simp

lemma matchRanges_exact:
  "lq_pattern q \<noteq> [] \<Longrightarrow> \<exists>rs. matchRanges q line = Some rs \<and> hits_exact (lq_pattern q) line 0 rs"
  unfolding matchRanges_def by (rule match_loop_exact) auto

lemma lineMatches_iff: "lq_pattern q \<noteq> [] \<Longrightarrow> lineMatches q line \<longleftrightarrow> (\<exists>i. match_at (lq_pattern q) line i)"
  unfolding lineMatches_def
  by (cases "exec_from (lq_pattern q) line 0") (auto dest: exec_from_None [where a = 0] exec_from_Some(2))

lemma hits_exact_empty:
  assumes "hits_exact p line 0 rs" shows "rs = [] \<longleftrightarrow> (\<forall>i. \<not> match_at p line i)"
proof (cases rs)
  case (Cons r rs')
  then have "match_at p line (fst r)" using assms by (auto simp: hits_exact_def)
  with Cons show ?thesis by auto
qed (use assms in \<open>auto simp: hits_exact_def in_ranges_def\<close>)

text \<open>
  A search text is matched literally, case-insensitively, and completely: for every text that is not
  blank (regular expression syntax in it included) the loop of \<^verbatim>\<open>matchRanges\<close> returns; its ranges are
  ascending and disjoint, each is an occurrence of exactly the typed text within the line, every
  occurrence starts inside one of them, and \<^verbatim>\<open>lineMatches\<close> says yes exactly when there is one.
\<close>

theorem search_hits_exact:
  "case compileQuery raw of
     None \<Rightarrow> trim raw = []
   | Some q \<Rightarrow>
       (case matchRanges q line of
          None \<Rightarrow> False
        | Some rs \<Rightarrow> hits_exact raw line 0 rs \<and> lineMatches q line = (rs \<noteq> []))"
proof (cases "compileQuery raw")
  case (Some q)
  note q = compiled_nonempty [OF Some]
  with matchRanges_exact [of q line] obtain rs
    where "matchRanges q line = Some rs" "hits_exact raw line 0 rs" by auto
  then show ?thesis
    using Some q lineMatches_iff [of q line] hits_exact_empty [of raw line rs] by simp
qed (simp add: compileQuery_eq split: if_splits)

section \<open>Painting\<close>

text \<open>Every character of the segments with the class and the highlighting it is shown in.\<close>

definition paint :: "line_segment list \<Rightarrow> (char \<times> jstring \<times> bool) list" where
  "paint segs = concat (map (\<lambda>s. map (\<lambda>c. (c, seg_cls s, seg_hit s)) (seg_text s)) segs)"

lemma paint_simps [simp]:
  "paint [] = []"
  "paint (s # segs) = map (\<lambda>c. (c, seg_cls s, seg_hit s)) (seg_text s) @ paint segs"
  "paint (segs @ segs') = paint segs @ paint segs'"
  by (simp_all add: paint_def)

lemma slice_map: "b \<le> length xs \<Longrightarrow> slice a b xs = map (\<lambda>i. xs ! i) [a..<b]"
  by (rule nth_equalityI) (auto simp: slice_def)

lemma in_ranges_dropWhile:
  "c \<le> i \<Longrightarrow> in_ranges (dropWhile (\<lambda>(s, e). e \<le> c) rs) i = in_ranges rs i"
  by (induction rs) (auto simp: in_ranges_def)

lemma ranges_from_mono: "ranges_from b rs \<Longrightarrow> a \<le> b \<Longrightarrow> ranges_from a rs"
  by (cases rs) auto

lemma ranges_from_dropWhile: "ranges_from 0 rs \<Longrightarrow> ranges_from 0 (dropWhile P rs)"
proof (induction rs)
  case (Cons r rs)
  then have "ranges_from 0 rs" by (cases r) (auto intro: ranges_from_mono)
  with Cons show ?case by simp
qed simp

lemma ranges_from_before: "ranges_from a rs \<Longrightarrow> i < a \<Longrightarrow> \<not> in_ranges rs i"
  by (induction a rs rule: ranges_from.induct) (auto simp: in_ranges_def)

lemma piece_loop_paint:
  "piece_loop line cls pieceEnd cursor ranges = (segs, rest) \<Longrightarrow> pieceEnd \<le> length line \<Longrightarrow> ranges_from 0 ranges \<Longrightarrow>
   paint segs = map (\<lambda>i. (line ! i, cls, in_ranges ranges i)) [cursor..<pieceEnd] \<and>
   ranges_from 0 rest \<and> (\<forall>i \<ge> pieceEnd. in_ranges rest i = in_ranges ranges i)"
proof (induction line cls pieceEnd cursor ranges arbitrary: segs rest rule: piece_loop.induct)
  case (1 line cls pieceEnd cursor ranges)
  show ?case
  proof (cases "pieceEnd \<le> cursor")
    case True
    with 1 show ?thesis by (simp add: piece_loop.simps [of line cls pieceEnd cursor])
  next
    case False
    define rs where "rs = dropWhile (\<lambda>(s, e). e \<le> cursor) ranges"
    have rs: "ranges_from 0 rs" "\<And>i. cursor \<le> i \<Longrightarrow> in_ranges rs i = in_ranges ranges i"
      using 1(4) by (simp_all add: rs_def ranges_from_dropWhile in_ranges_dropWhile)
    show ?thesis
    proof (cases "rs = [] \<or> pieceEnd \<le> fst (hd rs)")
      case True
      then have r: "segs = [\<lparr>seg_text = slice cursor pieceEnd line, seg_cls = cls, seg_hit = False\<rparr>]" "rest = rs"
        using 1(2) False by (auto simp: piece_loop.simps [of line cls pieceEnd cursor] rs_def [symmetric]
          split: list.splits)
      have "ranges_from pieceEnd rs" using True rs(1) by (cases rs) auto
      then have "\<not> in_ranges rs i" if "i < pieceEnd" for i using that by (rule ranges_from_before)
      then have "\<not> in_ranges ranges i" if "cursor \<le> i" "i < pieceEnd" for i using that rs(2) by blast
      then show ?thesis using r rs False 1(3) by (auto simp: slice_map)
    next
      case nonempty: False
      then obtain s e tl_rs where hd_rs: "rs = (s, e) # tl_rs" "s < pieceEnd" by (cases rs) auto
      have e: "cursor < e"
        using hd_rs hd_dropWhile [of "\<lambda>(s, e). e \<le> cursor" ranges] by (simp add: rs_def [symmetric])
      obtain more rest' where rec: "piece_loop line cls pieceEnd (min e pieceEnd) rs = (more, rest')" by fastforce
      have segs: "segs = (if cursor < max s cursor then [\<lparr>seg_text = slice cursor (max s cursor) line, seg_cls = cls, seg_hit = False\<rparr>] else [])
          @ \<lparr>seg_text = slice (max s cursor) (min e pieceEnd) line, seg_cls = cls, seg_hit = True\<rparr> # more" and rest: "rest = rest'"
        using 1(2) False hd_rs rec by (simp_all add: piece_loop.simps [of line cls pieceEnd cursor] rs_def [symmetric] Let_def)
      have IH: "paint more = map (\<lambda>i. (line ! i, cls, in_ranges rs i)) [min e pieceEnd..<pieceEnd]"
        "ranges_from 0 rest'" "\<forall>i \<ge> pieceEnd. in_ranges rest' i = in_ranges rs i"
        using 1(1) [OF False rs_def hd_rs(1) refl _ refl refl refl rec [symmetric, THEN sym] 1(3) rs(1)] hd_rs by auto
      have before: "\<not> in_ranges rs i" if "i < s" for i
        using hd_rs rs(1) that ranges_from_before [of s rs i] by auto
      have inside: "in_ranges rs i" if "s \<le> i" "i < e" for i
        using hd_rs that by (auto simp: in_ranges_def)
      have split: "[cursor..<pieceEnd] = [cursor..<max s cursor] @ [max s cursor..<min e pieceEnd] @ [min e pieceEnd..<pieceEnd]"
      proof -
        have "cursor \<le> max s cursor" "max s cursor \<le> min e pieceEnd" "min e pieceEnd \<le> pieceEnd"
          using e hd_rs False rs(1) by auto
        then show ?thesis using upt_split order_trans by metis
      qed
      have "paint segs = map (\<lambda>i. (line ! i, cls, in_ranges rs i)) [cursor..<pieceEnd]"
        using before inside 1(3) hd_rs False e by (auto simp: segs split IH slice_map)
      then show ?thesis using IH rest rs False by auto
    qed
  qed
qed

lemma pieces_loop_paint:
  "pos + length (concat (map fst ps)) = length line \<Longrightarrow> ranges_from 0 ranges \<Longrightarrow>
   (\<And>i. pos \<le> i \<Longrightarrow> in_ranges ranges i = in_ranges all i) \<Longrightarrow>
   paint (pieces_loop line ps pos ranges) =
     map (\<lambda>(i, cls). (line ! i, cls, in_ranges all i))
       (zip [pos..<length line] (concat (map (\<lambda>(t, cls). replicate (length t) cls) ps)))"
proof (induction ps arbitrary: pos ranges)
  case (Cons p ps)
  obtain t cls where p: "p = (t, cls)" by fastforce
  obtain segs rs where loop: "piece_loop line cls (pos + length t) pos ranges = (segs, rs)" by fastforce
  have le: "pos + length t \<le> length line" using Cons.prems(1) p by simp
  note here = piece_loop_paint [OF loop le Cons.prems(2)]
  have IH: "paint (pieces_loop line ps (pos + length t) rs) =
     map (\<lambda>(i, cls). (line ! i, cls, in_ranges all i))
       (zip [pos + length t..<length line] (concat (map (\<lambda>(t, cls). replicate (length t) cls) ps)))"
    using Cons.prems here p by (intro Cons.IH) auto
  have upt: "[pos..<length line] = [pos..<pos + length t] @ [pos + length t..<length line]"
    using le by (intro upt_split) auto
  have zip1: "zip [pos..<pos + length t] (replicate (length t) cls) = map (\<lambda>i. (i, cls)) [pos..<pos + length t]"
    by (simp add: zip_replicate2)
  show ?case
    using here Cons.prems(3) p IH
    by (simp add: loop upt zip_append zip1 comp_def del: upt_Suc)
qed simp

text \<open>The class each character of the line is shown in, and whether it is highlighted.\<close>

definition line_classes :: "jstring \<Rightarrow> log_token list option \<Rightarrow> jstring list" where
  "line_classes line toks = concat (map (\<lambda>(t, cls). replicate (length t) cls) (line_pieces line toks))"

lemma segmentLine_paint:
  assumes "concat (map fst (line_pieces line toks)) = line" "ranges_from 0 ranges"
  shows "paint (segmentLine line toks ranges) =
    map (\<lambda>(i, cls). (line ! i, cls, in_ranges ranges i)) (zip [0..<length line] (line_classes line toks))"
proof (cases "ranges = []")
  case True
  have plain: "paint (map (\<lambda>(t, cls). \<lparr>seg_text = t, seg_cls = cls, seg_hit = False\<rparr>) ps) =
    map (\<lambda>(c, cls). (c, cls, False)) (zip (concat (map fst ps)) (concat (map (\<lambda>(t, cls). replicate (length t) cls) ps)))"
    for ps :: "(jstring \<times> jstring) list"
    by (induction ps) (auto simp: zip_append zip_replicate2)
  have line: "map (\<lambda>(c, cls). (c, cls, False)) (zip line cs) = map (\<lambda>(i, cls). (line ! i, cls, False)) (zip [0..<length line] cs)"
    for cs :: "jstring list"
    by (rule nth_equalityI) auto
  show ?thesis
    using True assms(1) plain [of "line_pieces line toks"] line
    by (simp add: segmentLine_def line_classes_def in_ranges_def)
next
  case False
  then show ?thesis
    using pieces_loop_paint [of 0 "line_pieces line toks" line ranges ranges] assms
    by (simp add: segmentLine_def line_classes_def)
qed

text \<open>
  Highlighting never rewrites a log line: whatever the line (JSON or not) and the search text, the
  rendered segments show every character of the line once, in order, in the class of the token it
  belongs to, and highlighted exactly when it lies inside a hit.
\<close>

theorem highlighting_paints_line:
  "case compileQuery raw of
     None \<Rightarrow> True
   | Some q \<Rightarrow>
       (case matchRanges q line of
          None \<Rightarrow> False
        | Some rs \<Rightarrow>
            paint (segmentLine line (tokenizeJsonLine line) rs) =
              map (\<lambda>(i, cls). (line ! i, cls, in_ranges rs i))
                (zip [0..<length line] (line_classes line (tokenizeJsonLine line))) \<and>
            length (line_classes line (tokenizeJsonLine line)) = length line)"
proof (cases "compileQuery raw")
  case (Some q)
  with compiled_nonempty [OF Some] matchRanges_exact [of q line] obtain rs
    where rs: "matchRanges q line = Some rs" "ranges_from 0 rs" by (auto simp: hits_exact_def)
  have pieces: "concat (map fst (line_pieces line (tokenizeJsonLine line))) = line"
    using tokenize_emits [of line] by (cases "tokenizeJsonLine line") (auto simp: line_pieces_def comp_def)
  moreover have "length (line_classes l toks) = length (concat (map fst (line_pieces l toks)))" for l toks
    by (simp add: line_classes_def length_concat comp_def case_prod_beta)
  ultimately show ?thesis
    using Some rs segmentLine_paint [OF pieces rs(2)] by simp
qed simp

end
