(* ===== verification/LogViewer.thy ===== *)
theory LogViewer
  imports LogStream LogSearch
begin

text \<open>
  \<^verbatim>\<open>web/src/composables/useLogSearch.ts\<close>: the search state beside the stream that owns the buffer, with
  its incremental rescan. The debounce timer is armed exactly while \<open>sr_timer\<close> holds the text it will
  apply. A compiled query is a fresh object whenever the debounced text changes and the watch runs on
  every such change, so comparing the queries by value is comparing them by identity.
\<close>

record search =
  sr_query :: jstring
  sr_filter :: bool
  sr_debounced :: jstring
  sr_timer :: "jstring option"
  sr_matches :: "nat list"
  sr_active :: "nat option"
  sr_jump :: nat
  sr_lastQuery :: "log_query option"
  sr_lastBuffer :: "nat option"
  sr_lastLen :: nat
  sr_lastDropped :: nat

definition new_search :: search where
  "new_search = \<lparr>sr_query = [], sr_filter = False, sr_debounced = [], sr_timer = None, sr_matches = [],
     sr_active = None, sr_jump = 0, sr_lastQuery = None, sr_lastBuffer = None, sr_lastLen = 0, sr_lastDropped = 0\<rparr>"

definition compiled :: "search \<Rightarrow> log_query option" where
  "compiled s = compileQuery (sr_debounced s)"

definition filtering :: "search \<Rightarrow> bool" where
  "filtering s \<longleftrightarrow> sr_filter s \<and> compiled s \<noteq> None"

definition rescan :: "log_query \<Rightarrow> jstring list \<Rightarrow> search \<Rightarrow> search" where
  "rescan q buffer s = s\<lparr>sr_matches := scanLines buffer q 0, sr_active := None\<rparr>"

text \<open>The incremental branch: shift the hits kept, drop the ones cut off, scan what was appended.\<close>

definition shift_hits :: "nat \<Rightarrow> nat \<Rightarrow> jstring list \<Rightarrow> log_query \<Rightarrow> search \<Rightarrow> search" where
  "shift_hits delta lastLen buffer q s =
     (let previous = sr_matches s;
          removed = length (takeWhile (\<lambda>i. i < delta) previous);
          shifted = map (\<lambda>i. i - delta) (drop removed previous)
      in s\<lparr>sr_matches := shifted @ scanLines buffer q (lastLen - delta),
           sr_active := (case sr_active s of
              None \<Rightarrow> None
            | Some a \<Rightarrow> if a < removed then None else Some (a - removed))\<rparr>)"

text \<open>The watch on the compiled query and the stream's version.\<close>

definition on_change :: "log_stream \<Rightarrow> search \<Rightarrow> search" where
  "on_change ls s =
     (let q = compiled s;
          buffer = ls_lines ls;
          s1 = (case q of
              None \<Rightarrow> s\<lparr>sr_matches := [], sr_active := None\<rparr>
            | Some qu \<Rightarrow>
                if q \<noteq> sr_lastQuery s \<or> Some (ls_buffer ls) \<noteq> sr_lastBuffer s then rescan qu buffer s
                else shift_hits (ls_dropped ls - sr_lastDropped s) (sr_lastLen s) buffer qu s)
      in s1\<lparr>sr_lastQuery := q, sr_lastBuffer := Some (ls_buffer ls), sr_lastLen := length buffer,
            sr_lastDropped := ls_dropped ls\<rparr>)"

definition set_debounced :: "jstring \<Rightarrow> log_stream \<Rightarrow> search \<Rightarrow> search" where
  "set_debounced v ls s =
     (let s1 = s\<lparr>sr_timer := None, sr_debounced := v\<rparr>
      in if compiled s1 \<noteq> compiled s then on_change ls s1 else s1)"

definition type_query :: "jstring \<Rightarrow> search \<Rightarrow> search" where
  "type_query v s = (if v = sr_query s then s else s\<lparr>sr_query := v, sr_timer := Some v\<rparr>)"

definition debounce_fires :: "log_stream \<Rightarrow> search \<Rightarrow> search" where
  "debounce_fires ls s = (case sr_timer s of None \<Rightarrow> s | Some v \<Rightarrow> set_debounced v ls s)"

text \<open>\<^verbatim>\<open>settle\<close> of \<^verbatim>\<open>useLogSearch\<close>.\<close>

definition settle_query :: "log_stream \<Rightarrow> search \<Rightarrow> search" where
  "settle_query ls s = (case sr_timer s of None \<Rightarrow> s | Some _ \<Rightarrow> set_debounced (sr_query s) ls s)"

definition move :: "bool \<Rightarrow> log_stream \<Rightarrow> search \<Rightarrow> search" where
  "move forward ls s0 =
     (let s = settle_query ls s0; count = length (sr_matches s)
      in if count = 0 then s
         else s\<lparr>sr_active := Some (case sr_active s of
                   None \<Rightarrow> if forward then 0 else count - 1
                 | Some cur \<Rightarrow> if forward then (cur + 1) mod count else (cur + count - 1) mod count),
                sr_jump := Suc (sr_jump s)\<rparr>)"

definition next_hit :: "log_stream \<Rightarrow> search \<Rightarrow> search" where
  "next_hit = move True"

definition prev_hit :: "log_stream \<Rightarrow> search \<Rightarrow> search" where
  "prev_hit = move False"

definition clear_search :: "search \<Rightarrow> search" where
  "clear_search s = (type_query [] s)\<lparr>sr_active := None\<rparr>"

section \<open>The viewer: stream and search together\<close>

datatype viewer_event =
    StreamEvent stream_event
  | TypeQuery jstring
  | DebounceFires
  | NextHit
  | PrevHit
  | ClearSearch
  | SetFilter bool

text \<open>Every mutation of the lines bumps the version, which runs the watch synchronously.\<close>

fun viewer_step :: "viewer_event \<Rightarrow> log_stream \<times> search \<Rightarrow> log_stream \<times> search" where
  "viewer_step (StreamEvent e) (ls, s) =
     (let ls' = stream_step e ls in (ls', if ls_version ls' \<noteq> ls_version ls then on_change ls' s else s))"
| "viewer_step (TypeQuery v) (ls, s) = (ls, type_query v s)"
| "viewer_step DebounceFires (ls, s) = (ls, debounce_fires ls s)"
| "viewer_step NextHit (ls, s) = (ls, next_hit ls s)"
| "viewer_step PrevHit (ls, s) = (ls, prev_hit ls s)"
| "viewer_step ClearSearch (ls, s) = (ls, clear_search s)"
| "viewer_step (SetFilter b) (ls, s) = (ls, s\<lparr>sr_filter := b\<rparr>)"

definition run_viewer :: "viewer_event list \<Rightarrow> log_stream \<times> search" where
  "run_viewer es = fold viewer_step es (new_stream, new_search)"

section \<open>What a step does to the lines\<close>

definition same_lines :: "log_stream \<Rightarrow> log_stream \<Rightarrow> bool" where
  "same_lines a b \<longleftrightarrow> ls_version b = ls_version a \<and> ls_buffer b = ls_buffer a \<and> ls_lines b = ls_lines a \<and>
     ls_dropped b = ls_dropped a"

definition appended :: "log_stream \<Rightarrow> log_stream \<Rightarrow> bool" where
  "appended a b \<longleftrightarrow> ls_version b = Suc (ls_version a) \<and> ls_buffer b = ls_buffer a \<and>
     (\<exists>added. ls_lines b = drop (ls_dropped b - ls_dropped a) (ls_lines a @ added)) \<and> ls_dropped a \<le> ls_dropped b"

definition restarted :: "log_stream \<Rightarrow> log_stream \<Rightarrow> bool" where
  "restarted a b \<longleftrightarrow> ls_version b = Suc (ls_version a) \<and> ls_buffer b = Suc (ls_buffer a)"

lemma same_refl [simp]: "same_lines a a"
  by (simp add: same_lines_def)

lemma flush_lines: "same_lines st (flush st) \<or> appended st (flush st)"
proof (cases "ls_pending st = []")
  case False
  let ?b = "ls_lines st @ ls_pending st"
  have "ls_lines (flush st) = drop (length ?b - length (lastn MAX_LINES ?b)) ?b"
    using False lastn_eq_drop [of MAX_LINES ?b] by (metis flush_fields(1))
  moreover have "ls_dropped (flush st) = ls_dropped st + (length ?b - length (lastn MAX_LINES ?b))"
    "ls_version (flush st) = Suc (ls_version st)" "ls_buffer (flush st) = ls_buffer st"
    using False by (simp_all add: flush_def Let_def trim_buffer_lastn)
  ultimately show ?thesis unfolding appended_def by auto
qed (simp add: same_lines_def flush_def Let_def)

lemma flush_after:
  "same_lines st x \<Longrightarrow> same_lines st (flush x) \<or> appended st (flush x)"
  using flush_lines [of x] by (auto simp: same_lines_def appended_def)

lemma finish_after: "same_lines st x \<Longrightarrow> same_lines st (finish x) \<or> appended st (finish x)"
  using flush_after [of st x] by (simp add: finish_def same_lines_def appended_def)

lemma append_same: "same_lines st x \<Longrightarrow> same_lines st (append_lines now new x)"
  by (auto simp: same_lines_def append_lines_def split: prod.splits)

lemma attempt_after: "same_lines st (attempt_failed e now lp st) \<or> appended st (attempt_failed e now lp st)"
  by (auto simp: attempt_failed_def Let_def split: option.splits intro!: flush_after finish_after)
    (simp_all add: same_lines_def)

lemma loop_settles_after: "same_lines st (loop_settles r lp st) \<or> appended st (loop_settles r lp st)"
proof -
  have u: "same_lines st (st\<lparr>ls_loop := l\<rparr>)" "same_lines st (st\<lparr>ls_reconnecting := c, ls_loop := l\<rparr>)"
    "same_lines st (st\<lparr>ls_reconnecting := c, ls_error := er\<rparr>)" for l c er
    by (simp_all add: same_lines_def)
  show ?thesis
    using attempt_after u finish_after append_same
    by (cases r; cases "lp_phase lp") (simp_all add: loop_settles_def Let_def)
qed

lemma stream_step_lines:
  "same_lines ls (stream_step e ls) \<or> appended ls (stream_step e ls) \<or> restarted ls (stream_step e ls)"
proof (cases e)
  case (Begin c)
  then show ?thesis
    by (cases c) (auto simp: control_def start_def stop_def reset_lines_def same_lines_def restarted_def)
next
  case (Settle g r)
  then show ?thesis
    using loop_settles_after [of ls r] by (cases "ls_loop ls") (auto simp: settle_def)
next
  case (Other t)
  then show ?thesis
    using flush_after [of ls "ls\<lparr>ls_timer := None\<rparr>"]
    by (simp add: timer_fires_def Let_def same_lines_def split: option.splits) auto
qed

section \<open>The incremental rescan\<close>

lemma dropWhile_filter_upt: "dropWhile (\<lambda>i. i < k) (filter P [a..<n]) = filter P [max a k..<n]"
proof (induction "n - a" arbitrary: a)
  case (Suc d)
  then have "[a..<n] = a # [Suc a..<n]" by (simp add: upt_conv_Cons)
  moreover have "dropWhile (\<lambda>i. i < k) (filter P [Suc a..<n]) = filter P [max (Suc a) k..<n]"
    using Suc by (intro Suc.hyps(1)) simp
  ultimately show ?case
    by (cases "a < k") (auto simp: max_def upt_conv_Cons)
qed simp

lemma kept_hits:
  "drop (length (takeWhile (\<lambda>i. i < k) (scanLines old q 0))) (scanLines old q 0)
   = filter (\<lambda>i. lineMatches q (old ! i)) [k..<length old]"
  unfolding scanLines_def dropWhile_eq_drop [symmetric] dropWhile_filter_upt by simp

lemma scan_shift:
  assumes "new = drop k (old @ added)"
  shows "map (\<lambda>i. i - k) (filter (\<lambda>i. lineMatches q (old ! i)) [k..<length old]) @ scanLines new q (length old - k)
       = scanLines new q 0"
proof -
  have "map (\<lambda>i. i - k) (filter (\<lambda>i. lineMatches q (old ! i)) [k..<length old])
      = filter (\<lambda>i. lineMatches q (new ! i)) [0..<length old - k]"
  proof -
    have up: "[k..<length old] = map (\<lambda>i. i + k) [0..<length old - k]"
      by (cases "k \<le> length old") (simp_all add: map_add_upt)
    have "filter (\<lambda>i. lineMatches q (old ! (i + k))) [0..<length old - k]
        = filter (\<lambda>i. lineMatches q (new ! i)) [0..<length old - k]"
      using assms by (intro filter_cong) (auto simp: nth_append add.commute)
    then show ?thesis by (simp add: up filter_map comp_def)
  qed
  moreover have "[0..<length new] = [0..<length old - k] @ [length old - k..<length new]"
    using assms by (intro upt_split) auto
  ultimately show ?thesis by (simp add: scanLines_def)
qed

definition current_hits :: "log_stream \<Rightarrow> search \<Rightarrow> nat list" where
  "current_hits ls s = (case compiled s of None \<Rightarrow> [] | Some q \<Rightarrow> scanLines (ls_lines ls) q 0)"

definition active_ok :: "search \<Rightarrow> bool" where
  "active_ok s \<longleftrightarrow> (case sr_active s of None \<Rightarrow> True | Some a \<Rightarrow> a < length (sr_matches s))"

definition in_sync :: "log_stream \<Rightarrow> search \<Rightarrow> bool" where
  "in_sync ls s \<longleftrightarrow> sr_matches s = current_hits ls s \<and> active_ok s \<and>
     (if sr_lastBuffer s = None then ls_lines ls = [] \<and> compiled s = None
      else sr_lastBuffer s = Some (ls_buffer ls) \<and> sr_lastQuery s = compiled s \<and>
           sr_lastLen s = length (ls_lines ls) \<and> sr_lastDropped s = ls_dropped ls)"

lemma on_change_fields [simp]:
  "sr_lastBuffer (on_change ls s) = Some (ls_buffer ls)" "sr_lastQuery (on_change ls s) = compiled s"
  "sr_lastLen (on_change ls s) = length (ls_lines ls)" "sr_lastDropped (on_change ls s) = ls_dropped ls"
  "sr_debounced (on_change ls s) = sr_debounced s"
  by (auto simp: on_change_def rescan_def shift_hits_def Let_def split: option.splits)

lemma compiled_on_change [simp]: "compiled (on_change ls s) = compiled s"
  by (simp add: compiled_def)

text \<open>A change the watch answers with a full rescan, or with no query.\<close>

lemma on_change_full:
  "compiled s = None \<or> compiled s \<noteq> sr_lastQuery s \<or> sr_lastBuffer s \<noteq> Some (ls_buffer ls) \<Longrightarrow>
   in_sync ls (on_change ls s) \<and> sr_active (on_change ls s) = None"
  by (auto simp: in_sync_def current_hits_def active_ok_def) 
    (auto simp: on_change_def rescan_def Let_def split: option.splits if_splits)

text \<open>After an append the shifted hits are those of a full rescan, and the active one stays on its line.\<close>

lemma on_change_append:
  assumes sync: "in_sync ls s" and app: "appended ls ls'" and q: "compiled s = Some q"
  shows "in_sync ls' (on_change ls' s)"
    and "case (sr_active s, sr_active (on_change ls' s)) of
       (None, act) \<Rightarrow> act = None
     | (Some a, None) \<Rightarrow> sr_matches s ! a < ls_dropped ls' - ls_dropped ls
     | (Some a, Some a') \<Rightarrow>
         sr_matches (on_change ls' s) ! a' + (ls_dropped ls' - ls_dropped ls) = sr_matches s ! a \<and>
         ls_lines ls' ! (sr_matches (on_change ls' s) ! a') = ls_lines ls ! (sr_matches s ! a)"
proof -
  let ?k = "ls_dropped ls' - ls_dropped ls" and ?s = "on_change ls' s"
  let ?m = "sr_matches s"
  let ?removed = "length (takeWhile (\<lambda>i. i < ?k) ?m)"
  obtain added where new: "ls_lines ls' = drop ?k (ls_lines ls @ added)" and same: "ls_buffer ls' = ls_buffer ls"
    using app by (auto simp: appended_def)
  have last: "sr_lastBuffer s = Some (ls_buffer ls)" "sr_lastQuery s = Some q"
      "sr_lastLen s = length (ls_lines ls)" "sr_lastDropped s = ls_dropped ls"
    and m: "?m = scanLines (ls_lines ls) q 0" and act: "active_ok s"
    using sync q by (auto simp: in_sync_def current_hits_def split: if_splits)
  have s': "sr_matches ?s = map (\<lambda>i. i - ?k) (drop ?removed ?m) @ scanLines (ls_lines ls') q (length (ls_lines ls) - ?k)"
      "sr_active ?s = (case sr_active s of None \<Rightarrow> None | Some a \<Rightarrow> if a < ?removed then None else Some (a - ?removed))"
    using last same q by (simp_all add: on_change_def shift_hits_def Let_def)
  have full: "sr_matches ?s = scanLines (ls_lines ls') q 0"
    unfolding s' m kept_hits by (rule scan_shift [OF new])
  have le: "?removed \<le> length ?m" by (rule length_takeWhile_le)
  show "in_sync ls' ?s"
  proof -
    have "length ?m - ?removed \<le> length (sr_matches ?s)" by (simp add: s'(1))
    then have "active_ok ?s" using act le by (auto simp: active_ok_def s'(2) split: option.splits)
    then show ?thesis using full q by (simp add: in_sync_def current_hits_def)
  qed
  show "case (sr_active s, sr_active ?s) of
       (None, act) \<Rightarrow> act = None
     | (Some a, None) \<Rightarrow> ?m ! a < ?k
     | (Some a, Some a') \<Rightarrow> sr_matches ?s ! a' + ?k = ?m ! a \<and> ls_lines ls' ! (sr_matches ?s ! a') = ls_lines ls ! (?m ! a)"
  proof (cases "sr_active s")
    case (Some a)
    then have a: "a < length ?m" using act by (simp add: active_ok_def)
    show ?thesis
    proof (cases "a < ?removed")
      case True
      then have "?m ! a < ?k" by (metis nth_mem set_takeWhileD takeWhile_nth)
      then show ?thesis using Some True s'(2) by simp
    next
      case False
      have mem: "?m ! a \<in> set (drop ?removed ?m)"
      proof -
        have "drop ?removed ?m ! (a - ?removed) = ?m ! a" "a - ?removed < length (drop ?removed ?m)"
          using a False le by auto
        then show ?thesis by (metis nth_mem)
      qed
      have "?k \<le> ?m ! a" "?m ! a < length (ls_lines ls)"
        using mem unfolding m kept_hits by auto
      moreover have "sr_matches ?s ! (a - ?removed) = ?m ! a - ?k"
      proof -
        have "a - ?removed < length (drop ?removed ?m)" "drop ?removed ?m ! (a - ?removed) = ?m ! a"
          using a False le by auto
        then show ?thesis unfolding s'(1) nth_append by simp
      qed
      moreover have "ls_lines ls' ! (?m ! a - ?k) = ls_lines ls ! (?m ! a)"
        using new diff_less_mono [OF calculation(2,1)] calculation(1) by (simp add: nth_append)
      ultimately show ?thesis using Some False s'(2) by simp
    qed
  qed (simp add: s'(2))
qed

section \<open>The viewer's runs\<close>

lemma in_sync_same: "same_lines ls ls' \<Longrightarrow> in_sync ls s \<Longrightarrow> in_sync ls' s"
  by (auto simp: in_sync_def same_lines_def current_hits_def split: option.splits if_splits)

lemma in_sync_stream: "in_sync ls s \<Longrightarrow> in_sync (fst (viewer_step (StreamEvent e) (ls, s))) (snd (viewer_step (StreamEvent e) (ls, s)))"
proof -
  assume sync: "in_sync ls s"
  let ?ls = "stream_step e ls"
  consider (same) "same_lines ls ?ls" | (app) "appended ls ?ls" | (rest) "restarted ls ?ls"
    using stream_step_lines by blast
  then show ?thesis
  proof cases
    case same
    then show ?thesis using in_sync_same [OF same sync] by (simp add: Let_def same_lines_def)
  next
    case app
    then show ?thesis
      using on_change_append(1) [OF sync app] on_change_full [of s ?ls]
      by (cases "compiled s") (auto simp: Let_def appended_def)
  next
    case rest
    then have "sr_lastBuffer s \<noteq> Some (ls_buffer ?ls)"
      using sync by (auto simp: in_sync_def restarted_def split: if_splits)
    then show ?thesis using rest on_change_full [of s ?ls] by (simp add: Let_def restarted_def)
  qed
qed

lemma active_ok_cong:
  "sr_active s' = sr_active s \<Longrightarrow> sr_matches s' = sr_matches s \<Longrightarrow> active_ok s' = active_ok s"
  by (simp add: active_ok_def split: option.splits)

lemma in_sync_active: "in_sync ls s \<Longrightarrow> active_ok s"
  by (simp add: in_sync_def)

lemma in_sync_cong:
  "sr_matches s' = sr_matches s \<Longrightarrow> sr_debounced s' = sr_debounced s \<Longrightarrow> sr_lastBuffer s' = sr_lastBuffer s \<Longrightarrow>
   sr_lastQuery s' = sr_lastQuery s \<Longrightarrow> sr_lastLen s' = sr_lastLen s \<Longrightarrow> sr_lastDropped s' = sr_lastDropped s \<Longrightarrow>
   active_ok s' \<Longrightarrow> in_sync ls s \<Longrightarrow> in_sync ls s'"
proof -
  assume same: "sr_matches s' = sr_matches s" "sr_debounced s' = sr_debounced s" "sr_lastBuffer s' = sr_lastBuffer s"
   "sr_lastQuery s' = sr_lastQuery s" "sr_lastLen s' = sr_lastLen s" "sr_lastDropped s' = sr_lastDropped s"
    and act: "active_ok s'" and sync: "in_sync ls s"
  have c: "compiled s' = compiled s" by (simp add: compiled_def same)
  show "in_sync ls s'" using sync act unfolding in_sync_def current_hits_def same c by simp
qed

lemma in_sync_debounced: "in_sync ls s \<Longrightarrow> in_sync ls (set_debounced v ls s)"
proof -
  assume sync: "in_sync ls s"
  let ?s = "s\<lparr>sr_timer := None, sr_debounced := v\<rparr>"
  show ?thesis
  proof (cases "compiled ?s = compiled s")
    case True
    moreover have "active_ok ?s = active_ok s" by (rule active_ok_cong) simp_all
    ultimately show ?thesis
      using sync by (simp add: set_debounced_def Let_def in_sync_def current_hits_def)
  next
    case False
    then have "compiled ?s = None \<or> compiled ?s \<noteq> sr_lastQuery ?s \<or> sr_lastBuffer ?s \<noteq> Some (ls_buffer ls)"
      using sync by (auto simp: in_sync_def split: if_splits)
    then show ?thesis using False on_change_full [of ?s ls] by (simp add: set_debounced_def Let_def)
  qed
qed

lemma in_sync_settle: "in_sync ls s \<Longrightarrow> in_sync ls (settle_query ls s)"
  by (simp add: settle_query_def in_sync_debounced split: option.splits)

lemma in_sync_move: "in_sync ls s \<Longrightarrow> in_sync ls (move forward ls s)"
proof -
  assume "in_sync ls s"
  then have sync: "in_sync ls (settle_query ls s)" by (rule in_sync_settle)
  let ?s = "settle_query ls s"
  show ?thesis
  proof (cases "sr_matches ?s = []")
    case True
    then show ?thesis using sync by (simp add: move_def Let_def)
  next
    case False
    let ?act = "case sr_active ?s of None \<Rightarrow> if forward then 0 else length (sr_matches ?s) - 1
       | Some cur \<Rightarrow> if forward then (cur + 1) mod length (sr_matches ?s) else (cur + length (sr_matches ?s) - 1) mod length (sr_matches ?s)"
    have "?act < length (sr_matches ?s)" using False by (cases "sr_active ?s") simp_all
    moreover have "move forward ls s = ?s\<lparr>sr_active := Some ?act, sr_jump := Suc (sr_jump ?s)\<rparr>"
      using False by (simp add: move_def Let_def)
    ultimately show ?thesis using sync in_sync_cong [of "move forward ls s" ?s ls] by (simp add: active_ok_def)
  qed
qed

lemma in_sync_type: "in_sync ls s \<Longrightarrow> in_sync ls (type_query v s)"
proof -
  assume sync: "in_sync ls s"
  have "active_ok (s\<lparr>sr_query := v, sr_timer := Some v\<rparr>) = active_ok s" by (rule active_ok_cong) simp_all
  with sync in_sync_active [OF sync] show ?thesis
    by (auto simp: type_query_def intro!: in_sync_cong [where s = s])
qed

lemma in_sync_step: "in_sync ls s \<Longrightarrow> in_sync (fst (viewer_step e (ls, s))) (snd (viewer_step e (ls, s)))"
proof (cases e)
  case (StreamEvent x)
  assume "in_sync ls s"
  then show ?thesis using in_sync_stream StreamEvent by simp
next
  case DebounceFires
  assume "in_sync ls s"
  then show ?thesis using DebounceFires by (simp add: debounce_fires_def in_sync_debounced split: option.splits)
next
  case ClearSearch
  assume "in_sync ls s"
  then have "in_sync ls (type_query [] s)" by (rule in_sync_type)
  then show ?thesis using ClearSearch
    by (auto simp: clear_search_def active_ok_def intro!: in_sync_cong [where s = "type_query [] s"])
next
  case (SetFilter b)
  assume a: "in_sync ls s"
  have "active_ok (s\<lparr>sr_filter := b\<rparr>) = active_ok s" by (rule active_ok_cong) simp_all
  with a SetFilter in_sync_active [OF a] show ?thesis by (auto intro!: in_sync_cong [where s = s])
qed (simp_all add: in_sync_type in_sync_move next_hit_def prev_hit_def)

lemma run_viewer_sync: "in_sync (fst (run_viewer es)) (snd (run_viewer es))"
proof -
  have "in_sync ls s \<Longrightarrow> in_sync (fst (fold viewer_step es (ls, s))) (snd (fold viewer_step es (ls, s)))" for ls s
  proof (induction es arbitrary: ls s)
    case (Cons e es)
    then show ?case using in_sync_step [of ls s e] by (cases "viewer_step e (ls, s)") auto
  qed simp
  moreover have "in_sync new_stream new_search"
    by (simp add: in_sync_def new_stream_def new_search_def current_hits_def active_ok_def compiled_def compileQuery_eq)
  ultimately show ?thesis by (simp add: run_viewer_def)
qed

text \<open>
  C6. The incremental search is a full search: in every run of the viewer (appends, head trims at the cap,
  restarts handing over a fresh array, query edits, debounce timers, jumps) the hits held are exactly
  those a full scan of the lines now on screen would find for the query now applied, and the selected
  one is always one of them.
\<close>

theorem incremental_search_exact:
  "case run_viewer es of (ls, s) \<Rightarrow>
     sr_matches s = (case compiled s of None \<Rightarrow> [] | Some q \<Rightarrow> scanLines (ls_lines ls) q 0) \<and>
     (case sr_active s of None \<Rightarrow> True | Some a \<Rightarrow> a < length (sr_matches s))"
  using run_viewer_sync [of es]
  by (cases "run_viewer es") (simp add: in_sync_def current_hits_def active_ok_def)

text \<open>
  While a log streams, the selected hit stays on its line: after any stream event the cursor still
  names a line with the same text, at its index less the lines dropped from the head, and it is
  cleared only when that line itself was dropped, the stream was restarted, or nothing was selected.
\<close>

theorem selected_hit_follows_line:
  "case run_viewer es of (ls, s) \<Rightarrow>
     (case viewer_step (StreamEvent e) (ls, s) of (ls', s') \<Rightarrow>
        (case (sr_active s, sr_active s') of
           (None, act) \<Rightarrow> act = None
         | (Some a, None) \<Rightarrow> if ls_buffer ls' = ls_buffer ls then sr_matches s ! a < ls_dropped ls' - ls_dropped ls else True
         | (Some a, Some a') \<Rightarrow> ls_lines ls' ! (sr_matches s' ! a') = ls_lines ls ! (sr_matches s ! a)))"
proof -
  obtain ls s where run: "run_viewer es = (ls, s)" by fastforce
  then have sync: "in_sync ls s" using run_viewer_sync [of es] by simp
  let ?ls = "stream_step e ls"
  have none: "compiled s = None \<Longrightarrow> sr_active s = None"
    using sync by (auto simp: in_sync_def current_hits_def active_ok_def split: option.splits)
  consider (same) "same_lines ls ?ls" | (app) "appended ls ?ls" | (rest) "restarted ls ?ls"
    using stream_step_lines by blast
  then show ?thesis
  proof cases
    case same
    then show ?thesis using run by (simp add: Let_def same_lines_def split: option.splits)
  next
    case app
    show ?thesis
    proof (cases "compiled s")
      case None
      then show ?thesis using run app none on_change_full [of s ?ls] by (simp add: Let_def appended_def)
    next
      case (Some q)
      show ?thesis
        using run app on_change_append(2) [OF sync app Some]
        by (auto simp: Let_def appended_def split: option.splits)
    qed
  next
    case rest
    then have "sr_lastBuffer s \<noteq> Some (ls_buffer ?ls)"
      using sync by (auto simp: in_sync_def restarted_def split: if_splits)
    then show ?thesis using run rest on_change_full [of s ?ls]
      by (simp add: Let_def restarted_def split: option.splits)
  qed
qed

end
