(* ===== verification/Auth.thy ===== *)
theory Auth
  imports MetricsCache Http Sort
begin

text \<open>
  The auth store (\<^verbatim>\<open>web/src/stores/auth.ts\<close>), the credential provider over it
  (\<^verbatim>\<open>web/src/auth/KubernetesTokenProvider.ts\<close>), the global handlers of \<^verbatim>\<open>web/src/main.ts\<close>, the navigation
  guard (\<^verbatim>\<open>web/src/router/index.ts\<close>) and the recovery from a vanished context
  (\<^verbatim>\<open>web/src/composables/useContexts.ts\<close>). \<^verbatim>\<open>sessionStorage\<close> holds a text; the model keeps what
  \<^verbatim>\<open>JSON.parse\<close> makes of it (\<open>Garbled\<close> when it throws). The query cache is the list of its keys and the
  navigations pushed are logged. The query pruner is the one \<^verbatim>\<open>main.ts\<close> registers before mount.
\<close>

record identity =
  id_username :: jstring
  id_uid :: "jstring option"
  id_groups :: "jstring list option"

record session =
  ss_token :: jstring
  ss_identity :: "identity option"
  ss_unavailable :: bool
  ss_expires :: rat

datatype stored_text = Parsed json | Garbled

datatype navigation =
    ToLogin
  | ToResourceList jstring jstring jstring

record auth_state =
  au_active :: jstring
  au_sessions :: "(jstring \<times> session) list"
  au_local :: bool
  au_local_identity :: "(identity option \<times> bool) option"
  au_storage :: "stored_text option"
  au_storage_works :: bool
  au_charts :: mcache
  au_queries :: "jstring list list"
  au_pushed :: "navigation list"

definition SESSION_TTL_MS :: int where "SESSION_TTL_MS = 8 * 60 * 60 * 1000"

definition sessionFor :: "(jstring \<times> session) list \<Rightarrow> jstring \<Rightarrow> session option" where
  "sessionFor sessions context = map_of sessions context"

section \<open>Storage\<close>

definition json_strings :: "json \<Rightarrow> jstring list option" where
  "json_strings j =
     (case j of
        JArr xs \<Rightarrow> if list_all (\<lambda>x. json_str x \<noteq> None) xs then Some (map (\<lambda>x. the (json_str x)) xs) else None
      | _ \<Rightarrow> None)"

definition parseIdentity :: "json option \<Rightarrow> identity option" where
  "parseIdentity value =
     (case value of
        None \<Rightarrow> None
      | Some v \<Rightarrow>
          if \<not> is_object v then None
          else
            (case Option.bind (jget ''username'' v) json_str of
               None \<Rightarrow> None
             | Some user \<Rightarrow>
                 Some \<lparr>id_username = user, id_uid = Option.bind (jget ''uid'' v) json_str,
                       id_groups = Option.bind (jget ''groups'' v) json_strings\<rparr>))"

definition isSessionExpired :: "int \<Rightarrow> session \<Rightarrow> bool" where
  "isSessionExpired now s \<longleftrightarrow> 0 < ss_expires s \<and> ss_expires s \<le> of_int now"

definition parseSession :: "int \<Rightarrow> json \<Rightarrow> session option" where
  "parseSession now v =
     (if \<not> is_object v then None
      else
        (case (Option.bind (jget ''token'' v) json_str, Option.bind (jget ''expiresAt'' v) json_num) of
           (Some tok, Some ex) \<Rightarrow>
             if tok = [] \<or> ex \<le> of_int now then None
             else Some \<lparr>ss_token = tok, ss_identity = parseIdentity (jget ''identity'' v),
                        ss_unavailable = (jget ''identityUnavailable'' v = Some (JBool True)), ss_expires = ex\<rparr>
         | _ \<Rightarrow> None))"

definition parse_entry :: "int \<Rightarrow> jstring \<times> json \<Rightarrow> (jstring \<times> session) list \<times> bool \<Rightarrow> (jstring \<times> session) list \<times> bool" where
  "parse_entry now entry acc =
     (case parseSession now (snd entry) of
        Some s \<Rightarrow> (AList.update (fst entry) s (fst acc), snd acc)
      | None \<Rightarrow> (fst acc, True))"

record restored =
  rd_active :: jstring
  rd_sessions :: "(jstring \<times> session) list"
  rd_dirty :: bool

definition readStoredSessions :: "int \<Rightarrow> bool \<Rightarrow> stored_text option \<Rightarrow> restored" where
  "readStoredSessions now works raw =
     (let corrupt = \<lparr>rd_active = [], rd_sessions = [], rd_dirty = True\<rparr>
      in if \<not> works then corrupt
         else case raw of
             None \<Rightarrow> \<lparr>rd_active = [], rd_sessions = [], rd_dirty = False\<rparr>
           | Some Garbled \<Rightarrow> corrupt
           | Some (Parsed JNull) \<Rightarrow> corrupt
           | Some (Parsed j) \<Rightarrow>
               let active = (case Option.bind (jget ''activeContext'' j) json_str of Some a \<Rightarrow> a | None \<Rightarrow> []);
                   entries = (case jget ''sessions'' j of Some m \<Rightarrow> json_entries m | None \<Rightarrow> []);
                   (sessions, dirty) = fold (parse_entry now) entries ([], False)
               in \<lparr>rd_active = active, rd_sessions = sessions, rd_dirty = dirty\<rparr>)"

definition identity_json :: "identity \<Rightarrow> json" where
  "identity_json i = JObj
     ([(''username'', JStr (id_username i))] @
      (case id_uid i of Some u \<Rightarrow> [(''uid'', JStr u)] | None \<Rightarrow> []) @
      (case id_groups i of Some gs \<Rightarrow> [(''groups'', JArr (map JStr gs))] | None \<Rightarrow> []))"

definition session_json :: "session \<Rightarrow> json" where
  "session_json s = JObj
     [(''token'', JStr (ss_token s)),
      (''identity'', case ss_identity s of Some i \<Rightarrow> identity_json i | None \<Rightarrow> JNull),
      (''identityUnavailable'', JBool (ss_unavailable s)),
      (''expiresAt'', JNum (ss_expires s))]"

definition sessions_json :: "jstring \<Rightarrow> (jstring \<times> session) list \<Rightarrow> json" where
  "sessions_json active sessions = JObj
     [(''activeContext'', JStr active), (''sessions'', JObj (map (\<lambda>(n, s). (n, session_json s)) sessions))]"

definition persist :: "auth_state \<Rightarrow> auth_state" where
  "persist st =
     (if \<not> au_storage_works st then st
      else if au_active st = [] \<and> au_sessions st = [] then st\<lparr>au_storage := None\<rparr>
      else st\<lparr>au_storage := Some (Parsed (sessions_json (au_active st) (au_sessions st)))\<rparr>)"

text \<open>The store's set-up: restore, and scrub at once when the restore dropped anything.\<close>

definition open_store :: "int \<Rightarrow> bool \<Rightarrow> stored_text option \<Rightarrow> auth_state" where
  "open_store now works raw =
     (let r = readStoredSessions now works raw;
          st = \<lparr>au_active = rd_active r, au_sessions = rd_sessions r, au_local = False, au_local_identity = None,
                au_storage = raw, au_storage_works = works, au_charts = empty_cache, au_queries = [], au_pushed = []\<rparr>
      in if rd_dirty r then persist st else st)"

section \<open>The store\<close>

definition setLocalAuth :: "bool \<Rightarrow> auth_state \<Rightarrow> auth_state" where
  "setLocalAuth enabled st = st\<lparr>au_local := enabled\<rparr>"

definition setLocalIdentity :: "identity option \<Rightarrow> bool \<Rightarrow> auth_state \<Rightarrow> auth_state" where
  "setLocalIdentity i unavailable st = st\<lparr>au_local_identity := Some (i, unavailable)\<rparr>"

definition active_session :: "auth_state \<Rightarrow> session option" where
  "active_session st = sessionFor (au_sessions st) (au_active st)"

definition auth_token :: "auth_state \<Rightarrow> jstring option" where
  "auth_token st = (if au_local st then None else map_option ss_token (active_session st))"

definition auth_identity :: "auth_state \<Rightarrow> identity option" where
  "auth_identity st =
     (if au_local st then Option.bind (au_local_identity st) fst else Option.bind (active_session st) ss_identity)"

definition identityUnavailable :: "auth_state \<Rightarrow> bool" where
  "identityUnavailable st =
     (if au_local st then (case au_local_identity st of Some (_, u) \<Rightarrow> u | None \<Rightarrow> False)
      else (case active_session st of Some s \<Rightarrow> ss_unavailable s | None \<Rightarrow> False))"

definition hasSession :: "int \<Rightarrow> jstring \<Rightarrow> auth_state \<Rightarrow> bool" where
  "hasSession now context st =
     (if au_local st then True
      else case sessionFor (au_sessions st) context of
             None \<Rightarrow> False
           | Some s \<Rightarrow> ss_token s \<noteq> [] \<and> \<not> isSessionExpired now s)"

definition isAuthenticated :: "int \<Rightarrow> auth_state \<Rightarrow> bool" where
  "isAuthenticated now st = hasSession now (au_active st) st"

definition signedInContexts :: "int \<Rightarrow> auth_state \<Rightarrow> jstring list" where
  "signedInContexts now st = js_sort str_cmp (filter (\<lambda>n. hasSession now n st) (keys (au_sessions st)))"

definition setSession :: "int \<Rightarrow> jstring \<Rightarrow> jstring \<Rightarrow> identity option \<Rightarrow> bool \<Rightarrow> auth_state \<Rightarrow> auth_state" where
  "setSession now context tok i unavailable st =
     persist (st\<lparr>au_sessions := AList.update context
         \<lparr>ss_token = tok, ss_identity = i, ss_unavailable = unavailable, ss_expires = of_int (now + SESSION_TTL_MS)\<rparr>
         (au_sessions st),
       au_active := context\<rparr>)"

text \<open>The query cache entries of a context are those carrying its name at index 1 of their key.\<close>

definition query_of_context :: "jstring \<Rightarrow> jstring list \<Rightarrow> bool" where
  "query_of_context context k \<longleftrightarrow> 1 < length k \<and> k ! 1 = context"

definition evictContextCaches :: "jstring \<Rightarrow> auth_state \<Rightarrow> auth_state" where
  "evictContextCaches context st =
     st\<lparr>au_charts := clearMetricsCacheContext context (au_charts st),
        au_queries := filter (\<lambda>k. \<not> query_of_context context k) (au_queries st)\<rparr>"

definition clearSession :: "jstring \<Rightarrow> auth_state \<Rightarrow> auth_state" where
  "clearSession context st =
     evictContextCaches context
       (if context \<in> set (keys (au_sessions st))
        then persist (st\<lparr>au_sessions := AList.delete context (au_sessions st)\<rparr>)
        else st)"

definition clearActiveSession :: "auth_state \<Rightarrow> auth_state" where
  "clearActiveSession st = clearSession (au_active st) st"

definition expired_contexts :: "int \<Rightarrow> auth_state \<Rightarrow> jstring list" where
  "expired_contexts now st =
     filter (\<lambda>n. case sessionFor (au_sessions st) n of Some s \<Rightarrow> isSessionExpired now s | None \<Rightarrow> False)
       (keys (au_sessions st))"

definition pruneExpiredSessions :: "int \<Rightarrow> auth_state \<Rightarrow> auth_state \<times> jstring list" where
  "pruneExpiredSessions now st =
     (let expired = expired_contexts now st
      in if expired = [] then (st, [])
         else (fold evictContextCaches expired
                 (persist (st\<lparr>au_sessions := fold AList.delete expired (au_sessions st)\<rparr>)), expired))"

definition setActiveContext :: "int \<Rightarrow> jstring \<Rightarrow> auth_state \<Rightarrow> auth_state" where
  "setActiveContext now name st = persist ((fst (pruneExpiredSessions now st))\<lparr>au_active := name\<rparr>)"

section \<open>The credential provider and the global handlers\<close>

definition getBearerToken :: "int \<Rightarrow> auth_state \<Rightarrow> jstring option \<times> auth_state" where
  "getBearerToken now st = (let st' = fst (pruneExpiredSessions now st) in (auth_token st', st'))"

definition getContext :: "auth_state \<Rightarrow> jstring option" where
  "getContext st = (if au_active st \<noteq> [] then Some (au_active st) else None)"

definition logout :: "jstring option \<Rightarrow> auth_state \<Rightarrow> auth_state" where
  "logout context st =
     (if au_local st then st
      else clearSession (case context of Some c \<Rightarrow> c | None \<Rightarrow> au_active st) st)"

definition push_route :: "navigation \<Rightarrow> auth_state \<Rightarrow> auth_state" where
  "push_route n st = st\<lparr>au_pushed := au_pushed st @ [n]\<rparr>"

definition unauthorized_handler :: "jstring \<Rightarrow> auth_state \<Rightarrow> auth_state" where
  "unauthorized_handler context st =
     (if au_local st then st
      else let st1 = clearSession context st
           in if context = au_active st1 then push_route ToLogin st1 else st1)"

text \<open>Where the router stands: on a detail page of a resource, or elsewhere.\<close>

datatype current_route = OnDetail jstring jstring jstring | Elsewhere

definition recoverFromUnknownContext ::
    "int \<Rightarrow> current_route \<Rightarrow> jstring \<Rightarrow> jstring option \<Rightarrow> auth_state \<Rightarrow> bool \<times> auth_state" where
  "recoverFromUnknownContext now route rejected knownDefault st =
     (let st1 = clearSession rejected st;
          fallback = (case knownDefault of
              Some d \<Rightarrow> if d \<noteq> [] then d else au_active st1
            | None \<Rightarrow> au_active st1);
          st2 = setActiveContext now fallback st1
      in if \<not> isAuthenticated now st2 then (False, push_route ToLogin st2)
         else (fallback \<noteq> rejected,
               (case route of OnDetail g v r \<Rightarrow> push_route (ToResourceList g v r) st2 | Elsewhere \<Rightarrow> st2)))"

text \<open>The handler of \<^verbatim>\<open>main.ts\<close>: whether the context list is to be fetched again, and the state.\<close>

definition unknown_context_handler ::
    "int \<Rightarrow> current_route \<Rightarrow> jstring option \<Rightarrow> jstring \<Rightarrow> auth_state \<Rightarrow> bool \<times> auth_state" where
  "unknown_context_handler now route cached_default context st =
     (if context \<noteq> au_active st then (False, st)
      else recoverFromUnknownContext now route context cached_default st)"

text \<open>The reconcile watch of \<^verbatim>\<open>useContexts\<close> on a fresh context list.\<close>

definition reconcile_contexts ::
    "int \<Rightarrow> current_route \<Rightarrow> jstring list \<Rightarrow> jstring \<Rightarrow> auth_state \<Rightarrow> auth_state" where
  "reconcile_contexts now route names default_context st =
     (if au_active st = [] then
        (if default_context \<noteq> [] then setActiveContext now default_context st else st)
      else if au_active st \<notin> set names then
        snd (recoverFromUnknownContext now route (au_active st) (Some default_context) st)
      else st)"

text \<open>The handlers \<^verbatim>\<open>apiFetch\<close> calls, on the store.\<close>

definition run_handler :: "int \<Rightarrow> current_route \<Rightarrow> jstring option \<Rightarrow> handler_call \<Rightarrow> auth_state \<Rightarrow> auth_state" where
  "run_handler now route cached_default h st =
     (case h of
        Logout c \<Rightarrow> logout (Some c) st
      | OnUnauthorized c \<Rightarrow> unauthorized_handler c st
      | OnUnknownContext c \<Rightarrow> snd (unknown_context_handler now route cached_default c st))"

definition store_credentials :: "int \<Rightarrow> auth_state \<Rightarrow> credentials \<times> auth_state" where
  "store_credentials now st =
     (let (tok, st') = getBearerToken now st in (\<lparr>cr_token = tok, cr_context = getContext st'\<rparr>, st'))"

section \<open>The navigation guard\<close>

datatype guard_result = Proceed | RedirectOverview | RedirectLogin "jstring option"

record target_route =
  tr_public :: bool
  tr_login :: bool
  tr_path :: jstring

definition before_each :: "int \<Rightarrow> target_route \<Rightarrow> auth_state \<Rightarrow> guard_result \<times> auth_state" where
  "before_each now dest st =
     (let st' = fst (pruneExpiredSessions now st)
      in if tr_public dest then
           (if isAuthenticated now st' \<and> tr_login dest then (RedirectOverview, st') else (Proceed, st'))
         else if \<not> isAuthenticated now st' then
           (RedirectLogin (if tr_path dest = ''/'' then None else Some (tr_path dest)), st')
         else (Proceed, st'))"

section \<open>Field by field\<close>

lemma persist_fields [simp]:
  "au_active (persist st) = au_active st" "au_sessions (persist st) = au_sessions st"
  "au_local (persist st) = au_local st" "au_local_identity (persist st) = au_local_identity st"
  "au_storage_works (persist st) = au_storage_works st" "au_charts (persist st) = au_charts st"
  "au_queries (persist st) = au_queries st" "au_pushed (persist st) = au_pushed st"
  by (simp_all add: persist_def)

lemma evict_fields [simp]:
  "au_active (evictContextCaches c st) = au_active st" "au_sessions (evictContextCaches c st) = au_sessions st"
  "au_local (evictContextCaches c st) = au_local st" "au_local_identity (evictContextCaches c st) = au_local_identity st"
  "au_storage (evictContextCaches c st) = au_storage st"
  "au_storage_works (evictContextCaches c st) = au_storage_works st" "au_pushed (evictContextCaches c st) = au_pushed st"
  by (simp_all add: evictContextCaches_def)

lemma evict_fold_fields [simp]:
  "au_active (fold evictContextCaches cs st) = au_active st"
  "au_sessions (fold evictContextCaches cs st) = au_sessions st"
  "au_local (fold evictContextCaches cs st) = au_local st"
  "au_local_identity (fold evictContextCaches cs st) = au_local_identity st"
  "au_storage (fold evictContextCaches cs st) = au_storage st"
  "au_storage_works (fold evictContextCaches cs st) = au_storage_works st"
  "au_pushed (fold evictContextCaches cs st) = au_pushed st"
  by (induction cs arbitrary: st) simp_all

lemma evict_fold_queries:
  "au_queries (fold evictContextCaches cs st) = filter (\<lambda>k. \<not> list_ex (\<lambda>c. query_of_context c k) cs) (au_queries st)"
proof (induction cs arbitrary: st)
  case (Cons c cs)
  then show ?case by (simp add: evictContextCaches_def)
qed simp

lemma evict_fold_charts:
  "au_charts (fold evictContextCaches cs st) = fold clearMetricsCacheContext cs (au_charts st)"
  by (induction cs arbitrary: st) (simp_all add: evictContextCaches_def)

lemma push_route_fields [simp]:
  "au_active (push_route n st) = au_active st" "au_sessions (push_route n st) = au_sessions st"
  "au_local (push_route n st) = au_local st" "au_storage (push_route n st) = au_storage st"
  "au_storage_works (push_route n st) = au_storage_works st" "au_queries (push_route n st) = au_queries st"
  "au_charts (push_route n st) = au_charts st" "au_pushed (push_route n st) = au_pushed st @ [n]"
  by (simp_all add: push_route_def)

lemma clearSession_fields [simp]:
  "au_active (clearSession c st) = au_active st" "au_local (clearSession c st) = au_local st"
  "au_sessions (clearSession c st) = AList.delete c (au_sessions st)"
  "au_storage_works (clearSession c st) = au_storage_works st" "au_pushed (clearSession c st) = au_pushed st"
  by (simp_all add: clearSession_def delete_idem)

lemma clearSession_caches [simp]:
  "au_queries (clearSession c st) = filter (\<lambda>k. \<not> query_of_context c k) (au_queries st)"
  "au_charts (clearSession c st) = clearMetricsCacheContext c (au_charts st)"
  by (simp_all add: clearSession_def evictContextCaches_def)

section \<open>Expiry\<close>

lemma fold_delete: "fold AList.delete ks m = filter (\<lambda>(k, v). k \<notin> set ks) m"
  by (induction ks arbitrary: m) (auto simp: AList.delete_eq intro!: filter_cong)

lemma expired_iff:
  "amap_ok (au_sessions st) \<Longrightarrow> (n, s) \<in> set (au_sessions st) \<Longrightarrow>
   n \<in> set (expired_contexts now st) \<longleftrightarrow> isSessionExpired now s"
  using map_of_eq_Some_iff' [of "au_sessions st" n s]
  by (force simp: expired_contexts_def sessionFor_def)

lemma prune_sessions:
  assumes "amap_ok (au_sessions st)"
  shows "au_sessions (fst (pruneExpiredSessions now st)) = filter (\<lambda>(n, s). \<not> isSessionExpired now s) (au_sessions st)"
proof -
  have "filter (\<lambda>(k, v). k \<notin> set (expired_contexts now st)) (au_sessions st)
      = filter (\<lambda>(n, s). \<not> isSessionExpired now s) (au_sessions st)"
    using expired_iff [OF assms] by (intro filter_cong) auto
  moreover have "expired_contexts now st = [] \<Longrightarrow>
      filter (\<lambda>(k, v). k \<notin> set (expired_contexts now st)) (au_sessions st) = au_sessions st"
    by (simp add: case_prod_beta)
  ultimately show ?thesis by (auto simp: pruneExpiredSessions_def Let_def fold_delete)
qed

lemma prune_fields [simp]:
  "au_active (fst (pruneExpiredSessions now st)) = au_active st"
  "au_local (fst (pruneExpiredSessions now st)) = au_local st"
  "au_storage_works (fst (pruneExpiredSessions now st)) = au_storage_works st"
  "au_pushed (fst (pruneExpiredSessions now st)) = au_pushed st"
  by (simp_all add: pruneExpiredSessions_def Let_def)

lemma prune_caches:
  "au_queries (fst (pruneExpiredSessions now st))
     = filter (\<lambda>k. \<not> list_ex (\<lambda>c. query_of_context c k) (expired_contexts now st)) (au_queries st)"
  "au_charts (fst (pruneExpiredSessions now st)) = fold clearMetricsCacheContext (expired_contexts now st) (au_charts st)"
  by (simp_all add: pruneExpiredSessions_def Let_def evict_fold_queries evict_fold_charts)

lemma prune_result: "snd (pruneExpiredSessions now st) = expired_contexts now st"
  by (simp add: pruneExpiredSessions_def Let_def)

section \<open>The storage mirrors the sessions\<close>

text \<open>The tokens a same-origin script could read out of storage, with the context each is kept under.\<close>

definition stored_tokens :: "stored_text option \<Rightarrow> (jstring \<times> jstring) list" where
  "stored_tokens raw =
     (case raw of
        Some (Parsed j) \<Rightarrow>
          (case jget ''sessions'' j of
             Some m \<Rightarrow> concat (map (\<lambda>(n, v). case Option.bind (jget ''token'' v) json_str of
                 Some t \<Rightarrow> [(n, t)] | None \<Rightarrow> []) (json_entries m))
           | None \<Rightarrow> [])
      | _ \<Rightarrow> [])"

definition live_tokens :: "auth_state \<Rightarrow> (jstring \<times> jstring) list" where
  "live_tokens st = map (\<lambda>(n, s). (n, ss_token s)) (au_sessions st)"

definition auth_inv :: "auth_state \<Rightarrow> bool" where
  "auth_inv st \<longleftrightarrow> amap_ok (au_sessions st) \<and>
     (if au_storage_works st then stored_tokens (au_storage st) = live_tokens st else True)"

lemma token_of_session_json [simp]:
  "Option.bind (jget ''token'' (session_json s)) json_str = Some (ss_token s)"
  by (simp add: session_json_def)

lemma stored_tokens_persist:
  "au_storage_works st \<Longrightarrow> stored_tokens (au_storage (persist st)) = live_tokens st"
proof -
  have "concat (map (\<lambda>(n, v). case Option.bind (jget ''token'' v) json_str of Some t \<Rightarrow> [(n, t)] | None \<Rightarrow> [])
      (map (\<lambda>(n, s). (n, session_json s)) m)) = map (\<lambda>(n, s). (n, ss_token s)) m" for m
    by (induction m) auto
  then show "au_storage_works st \<Longrightarrow> stored_tokens (au_storage (persist st)) = live_tokens st"
    by (auto simp: persist_def stored_tokens_def sessions_json_def live_tokens_def)
qed

lemma auth_inv_persist [kc_inv]: "amap_ok (au_sessions st) \<Longrightarrow> auth_inv (persist st)"
  by (simp add: auth_inv_def stored_tokens_persist live_tokens_def)

lemma auth_inv_cong:
  "au_sessions st' = au_sessions st \<Longrightarrow> au_storage st' = au_storage st \<Longrightarrow>
   au_storage_works st' = au_storage_works st \<Longrightarrow> auth_inv st' = auth_inv st"
  by (simp add: auth_inv_def live_tokens_def)

lemma auth_inv_evict [simp]: "auth_inv (evictContextCaches c st) = auth_inv st"
  by (rule auth_inv_cong) simp_all

lemma auth_inv_evicts [simp]: "auth_inv (fold evictContextCaches cs st) = auth_inv st"
  by (rule auth_inv_cong) simp_all

lemma auth_inv_push [simp]: "auth_inv (push_route n st) = auth_inv st"
  by (rule auth_inv_cong) simp_all

lemma auth_inv_distinct: "auth_inv st \<Longrightarrow> amap_ok (au_sessions st)"
  by (simp add: auth_inv_def)

lemma auth_inv_setSession [kc_inv]: "auth_inv st \<Longrightarrow> auth_inv (setSession now c t i u st)"
  by (simp add: setSession_def auth_inv_persist auth_inv_distinct)

lemma auth_inv_clear [kc_inv]: "auth_inv st \<Longrightarrow> auth_inv (clearSession c st)"
  by (simp add: clearSession_def auth_inv_persist auth_inv_distinct)

lemma auth_inv_prune [kc_inv]: "auth_inv st \<Longrightarrow> auth_inv (fst (pruneExpiredSessions now st))"
  by (auto simp: pruneExpiredSessions_def Let_def fold_delete intro!: auth_inv_persist dest: auth_inv_distinct)

lemma auth_inv_active [kc_inv]: "auth_inv st \<Longrightarrow> auth_inv (setActiveContext now n st)"
  unfolding setActiveContext_def
  by (rule auth_inv_persist) (simp add: auth_inv_distinct auth_inv_prune)

lemma auth_inv_recover [kc_inv]: "auth_inv st \<Longrightarrow> auth_inv (snd (recoverFromUnknownContext now route c d st))"
  by (auto simp: recoverFromUnknownContext_def Let_def kc_inv split: current_route.splits)

lemma auth_inv_handler [kc_inv]: "auth_inv st \<Longrightarrow> auth_inv (run_handler now route d h st)"
  by (auto simp: run_handler_def logout_def unauthorized_handler_def unknown_context_handler_def Let_def kc_inv
    split: handler_call.splits)

lemma auth_inv_guard [kc_inv]: "auth_inv st \<Longrightarrow> auth_inv (snd (before_each now dest st))"
  by (auto simp: before_each_def Let_def kc_inv)

lemma auth_inv_reconcile [kc_inv]: "auth_inv st \<Longrightarrow> auth_inv (reconcile_contexts now route ns d st)"
  by (auto simp: reconcile_contexts_def kc_inv)

section \<open>Restoring\<close>

lemma parse_entries:
  "distinct (keys acc @ keys es) \<Longrightarrow>
   fold (parse_entry now) es (acc, d) =
     (acc @ concat (map (\<lambda>(n, v). case parseSession now v of Some s \<Rightarrow> [(n, s)] | None \<Rightarrow> []) es),
      d \<or> list_ex (\<lambda>(n, v). parseSession now v = None) es)"
proof (induction es arbitrary: acc d)
  case (Cons e es)
  obtain n v where e: "e = (n, v)" by fastforce
  have fresh: "n \<notin> set (keys acc)" using Cons.prems e by auto
  then have "AList.update n x acc = acc @ [(n, x)]" for x by (induction acc) auto
  then show ?case
    using Cons.IH [of "acc @ [(n, x)]" d for x] Cons.IH [of acc True] Cons.prems e
    by (cases "parseSession now v") (auto simp: parse_entry_def)
qed simp

lemma parseSession_token:
  "parseSession now v = Some s \<Longrightarrow>
   Option.bind (jget ''token'' v) json_str = Some (ss_token s) \<and> ss_token s \<noteq> [] \<and> of_int now < ss_expires s"
  by (auto simp: parseSession_def split: if_splits option.splits)

definition stored_ok :: "stored_text option \<Rightarrow> bool" where
  "stored_ok raw \<longleftrightarrow> (case raw of Some (Parsed j) \<Rightarrow> json_ok j | _ \<Rightarrow> True)"

lemma json_ok_get: "json_ok j \<Longrightarrow> jget k j = Some m \<Longrightarrow> json_ok m"
  by (cases j) (auto simp: list_all_iff dest!: map_of_SomeD)

lemma stored_sessions_distinct:
  "json_ok j \<Longrightarrow> distinct (keys (case jget ''sessions'' j of Some m \<Rightarrow> json_entries m | None \<Rightarrow> []))"
  using amap_ok_entries json_ok_get by (auto simp: amap_ok_def split: option.splits)

lemma restored_sessions_distinct: "stored_ok raw \<Longrightarrow> amap_ok (rd_sessions (readStoredSessions now works raw))"
proof -
  have d: "amap_ok (fst (fold (parse_entry now) es (m, d)))" if "amap_ok m" for es m d
    using that by (induction es arbitrary: m d) (auto simp: parse_entry_def split: option.splits)
  show ?thesis
    using d [of "[]"]
    by (auto simp: readStoredSessions_def Let_def case_prod_beta split: option.splits stored_text.splits json.splits)
qed

lemma restored_tokens:
  assumes "stored_ok raw" "\<not> rd_dirty (readStoredSessions now True raw)"
  shows "stored_tokens raw = map (\<lambda>(n, s). (n, ss_token s)) (rd_sessions (readStoredSessions now True raw))"
proof (cases "raw = None \<or> raw = Some Garbled \<or> raw = Some (Parsed JNull)")
  case True
  then show ?thesis by (auto simp: readStoredSessions_def stored_tokens_def)
next
  case False
  then obtain j where j: "raw = Some (Parsed j)" "j \<noteq> JNull" by (cases raw) (auto, metis stored_text.exhaust)
  define es where "es = (case jget ''sessions'' j of Some m \<Rightarrow> json_entries m | None \<Rightarrow> [])"
  have "distinct (keys es)" using assms(1) j stored_sessions_distinct by (simp add: es_def stored_ok_def)
  then have r: "fold (parse_entry now) es ([], False) =
     (concat (map (\<lambda>(n, v). case parseSession now v of Some s \<Rightarrow> [(n, s)] | None \<Rightarrow> []) es),
      list_ex (\<lambda>(n, v). parseSession now v = None) es)"
    using parse_entries [of "[]" es now False] by simp
  have read: "rd_sessions (readStoredSessions now True raw) = fst (fold (parse_entry now) es ([], False))"
    "rd_dirty (readStoredSessions now True raw) = snd (fold (parse_entry now) es ([], False))"
    using j by (auto simp: readStoredSessions_def Let_def es_def case_prod_beta split: json.splits)
  have tokens: "stored_tokens raw = concat (map (\<lambda>(n, v). case Option.bind (jget ''token'' v) json_str of
      Some t \<Rightarrow> [(n, t)] | None \<Rightarrow> []) es)"
    using j by (auto simp: stored_tokens_def es_def split: option.splits)
  have "list_all (\<lambda>(n, v). parseSession now v \<noteq> None) es"
    using assms(2) read r by (auto simp: list_ex_iff list_all_iff)
  then have "concat (map (\<lambda>(n, v). case Option.bind (jget ''token'' v) json_str of Some t \<Rightarrow> [(n, t)] | None \<Rightarrow> []) es)
      = map (\<lambda>(n, s). (n, ss_token s))
          (concat (map (\<lambda>(n, v). case parseSession now v of Some s \<Rightarrow> [(n, s)] | None \<Rightarrow> []) es))"
  proof (induction es)
    case (Cons e es)
    obtain n v where e: "e = (n, v)" by fastforce
    with Cons.prems obtain y where y: "parseSession now v = Some y" by auto
    show ?case using Cons e y parseSession_token [OF y, THEN conjunct1] by simp
  qed simp
  then show ?thesis using tokens read r by simp
qed

lemma auth_inv_open [kc_inv]: "stored_ok raw \<Longrightarrow> auth_inv (open_store now works raw)"
proof -
  assume ok: "stored_ok raw"
  note d = restored_sessions_distinct [OF ok]
  have "rd_dirty (readStoredSessions now False raw)" by (simp add: readStoredSessions_def)
  then show ?thesis
    using d restored_tokens [OF ok]
    by (cases works) (auto simp: open_store_def Let_def auth_inv_def live_tokens_def stored_tokens_persist)
qed

text \<open>Everything that happens to the store, in any order and at any times.\<close>

datatype auth_event =
    EvSetSession int jstring jstring "identity option" bool
  | EvSwitch int jstring
  | EvSignOut
  | EvLocalAuth bool
  | EvLocalIdentity "identity option" bool
  | EvTokenFetch int
  | EvNavigate int target_route
  | EvFailure int current_route "jstring option" bool jstring response
  | EvContextList int current_route "jstring list" jstring

fun auth_step :: "auth_event \<Rightarrow> auth_state \<Rightarrow> auth_state" where
  "auth_step (EvSetSession now c t i u) st = setSession now c t i u st"
| "auth_step (EvSwitch now c) st = setActiveContext now c st"
| "auth_step EvSignOut st = clearActiveSession st"
| "auth_step (EvLocalAuth b) st = setLocalAuth b st"
| "auth_step (EvLocalIdentity i u) st = setLocalIdentity i u st"
| "auth_step (EvTokenFetch now) st = snd (getBearerToken now st)"
| "auth_step (EvNavigate now dest) st = snd (before_each now dest st)"
| "auth_step (EvFailure now route d skip ctx r) st = fold (run_handler now route d) (failure_handlers skip ctx r) st"
| "auth_step (EvContextList now route names d) st = reconcile_contexts now route names d st"

definition run_auth :: "int \<Rightarrow> bool \<Rightarrow> stored_text option \<Rightarrow> auth_event list \<Rightarrow> auth_state" where
  "run_auth now works raw es = fold auth_step es (open_store now works raw)"

lemma auth_inv_handlers: "auth_inv st \<Longrightarrow> auth_inv (fold (run_handler now route d) hs st)"
  by (induction hs arbitrary: st) (auto simp: kc_inv)

lemma auth_inv_local [simp]:
  "auth_inv (setLocalAuth b st) = auth_inv st" "auth_inv (setLocalIdentity i u st) = auth_inv st"
  by (rule auth_inv_cong, simp_all add: setLocalAuth_def setLocalIdentity_def)+

lemma auth_inv_step: "auth_inv st \<Longrightarrow> auth_inv (auth_step e st)"
  by (cases e) (auto simp: kc_inv auth_inv_handlers clearActiveSession_def getBearerToken_def Let_def)

lemma auth_inv_fold: "auth_inv st \<Longrightarrow> auth_inv (fold auth_step es st)"
  by (induction es arbitrary: st) (auto simp: auth_inv_step)

text \<open>
  C2. At every moment the tokens in \<^verbatim>\<open>sessionStorage\<close> are exactly the tokens of the sessions in memory, one
  per context: whatever was in storage when the tab opened (expired, tampered or corrupt entries are
  scrubbed at once) and whatever sequence of logins, switches, sign-outs, 401s, vanished contexts and
  navigations followed, no token of a session that has ended is left behind.
\<close>

theorem storage_mirrors_sessions:
  assumes "stored_ok raw"
  shows "auth_inv (run_auth now works raw es)"
  unfolding run_auth_def by (rule auth_inv_fold [OF auth_inv_open [OF assms]])

theorem storage_mirrors_sessions_witness:
  "auth_inv (run_auth 100 True
     (Some (Parsed (JObj [(''sessions'', JObj [(''a'', JObj [(''token'', JStr ''t''), (''expiresAt'', JNum 50)])])])))
     [EvSwitch 101 ''b'', EvSignOut])"
  by (rule storage_mirrors_sessions) (simp add: stored_ok_def amap_ok_def)

section \<open>Reading back what was written\<close>

lemma json_strings_map [simp]: "json_strings (JArr (map JStr gs)) = Some gs"
  by (simp add: json_strings_def list_all_iff comp_def)

lemma parseIdentity_json [simp]: "parseIdentity (Some (identity_json i)) = Some i"
  by (cases i) (auto simp: parseIdentity_def identity_json_def split: option.splits)

lemma parseSession_json:
  "parseSession now (session_json s) = (if ss_token s = [] \<or> ss_expires s \<le> of_int now then None else Some s)"
proof -
  have "parseIdentity (Some (case ss_identity s of Some i \<Rightarrow> identity_json i | None \<Rightarrow> JNull)) = ss_identity s"
    by (cases "ss_identity s") (auto simp: parseIdentity_def [of "Some JNull"])
  then show ?thesis by (cases s) (auto simp: parseSession_def session_json_def)
qed

text \<open>
  A reload keeps exactly the sessions that are still usable: reading back what the store wrote gives
  the same active context and, per context, the same token, identity and expiry, less the sessions
  that have expired meanwhile (or never had a token); the restore asks for a scrub exactly when it
  dropped one.
\<close>

theorem reload_keeps_usable_sessions:
  assumes "amap_ok (au_sessions st)" "au_storage_works st"
  shows "readStoredSessions now True (au_storage (persist st)) =
    \<lparr>rd_active = au_active st,
     rd_sessions = filter (\<lambda>(n, s). ss_token s \<noteq> [] \<and> of_int now < ss_expires s) (au_sessions st),
     rd_dirty = list_ex (\<lambda>(n, s). ss_token s = [] \<or> ss_expires s \<le> of_int now) (au_sessions st)\<rparr>"
proof (cases "au_active st = [] \<and> au_sessions st = []")
  case True
  then show ?thesis using assms by (simp add: persist_def readStoredSessions_def)
next
  case False
  let ?es = "map (\<lambda>(n, s). (n, session_json s)) (au_sessions st)"
  have dk: "distinct (keys [] @ keys ?es)"
    using assms(1) by (simp add: amap_ok_def comp_def case_prod_beta)
  have kept: "concat (map (\<lambda>(n, v). case parseSession now v of Some s \<Rightarrow> [(n, s)] | None \<Rightarrow> [])
      (map (\<lambda>(n, s). (n, session_json s)) m)) = filter (\<lambda>(n, s). ss_token s \<noteq> [] \<and> of_int now < ss_expires s) m" for m
    by (induction m) (auto simp: parseSession_json not_le split: option.splits if_splits)
  have "list_ex (\<lambda>(n, v). parseSession now v = None) (map (\<lambda>(n, s). (n, session_json s)) m) =
      list_ex (\<lambda>(n, s). ss_token s = [] \<or> ss_expires s \<le> of_int now) m" for m
    by (induction m) (auto simp: parseSession_json split: if_splits)
  note lost = this [of "au_sessions st"]
  show ?thesis
    using False assms(2) parse_entries [OF dk, of now False] kept [of "au_sessions st"] lost
    by (simp add: persist_def readStoredSessions_def sessions_json_def)
qed

definition sample_session :: "jstring \<Rightarrow> rat \<Rightarrow> session" where
  "sample_session t ex = \<lparr>ss_token = t, ss_identity = None, ss_unavailable = False, ss_expires = ex\<rparr>"

definition sample_state :: "jstring \<Rightarrow> (jstring \<times> session) list \<Rightarrow> auth_state" where
  "sample_state active sessions =
     \<lparr>au_active = active, au_sessions = sessions, au_local = False, au_local_identity = None, au_storage = None,
      au_storage_works = True, au_charts = empty_cache, au_queries = [[''discovery'', ''a''], [''discovery'', ''b'']],
      au_pushed = []\<rparr>"

theorem reload_keeps_usable_sessions_witness:
  "rd_sessions (readStoredSessions 10 True (au_storage (persist
     (sample_state ''a'' [(''a'', sample_session ''t'' 5), (''b'', sample_session ''u'' 20)]))))
   = [(''b'', sample_session ''u'' 20)]"
  by (subst reload_keeps_usable_sessions) (simp_all add: sample_state_def sample_session_def amap_ok_def)

section \<open>Ending sessions\<close>

text \<open>
  Pruning drops exactly the sessions past their lifetime, together with exactly what they fetched:
  the other sessions, the other contexts' cached responses and the active context name stay, and with
  working storage no dropped token can be read back.
\<close>

theorem prune_exact:
  assumes "auth_inv st"
  shows "let st' = fst (pruneExpiredSessions now st); gone = snd (pruneExpiredSessions now st) in
    au_sessions st' = filter (\<lambda>(n, s). \<not> isSessionExpired now s) (au_sessions st) \<and>
    gone = map fst (filter (\<lambda>(n, s). isSessionExpired now s) (au_sessions st)) \<and>
    au_queries st' = filter (\<lambda>k. \<not> list_ex (\<lambda>c. query_of_context c k) gone) (au_queries st) \<and>
    au_charts st' = fold clearMetricsCacheContext gone (au_charts st) \<and>
    au_active st' = au_active st \<and>
    (if au_storage_works st then stored_tokens (au_storage st') = live_tokens st' else True)"
proof -
  note ok = auth_inv_distinct [OF assms]
  have "expired_contexts now st = map fst (filter (\<lambda>(n, s). isSessionExpired now s) (au_sessions st))"
  proof -
    have "(case sessionFor (au_sessions st) (fst x) of Some s \<Rightarrow> isSessionExpired now s | None \<Rightarrow> False)
        = (case x of (n, s) \<Rightarrow> isSessionExpired now s)" if "x \<in> set (au_sessions st)" for x
      using map_of_eq_Some_iff' [OF ok, of "fst x" "snd x"] that by (auto simp: sessionFor_def split: prod.splits)
    then show ?thesis
      unfolding expired_contexts_def filter_map comp_def by (intro arg_cong [where f = "map fst"] filter_cong) auto
  qed
  then show ?thesis
    using prune_sessions [OF ok] prune_caches [of now st] prune_result [of now st] auth_inv_prune [OF assms, of now]
    by (simp add: Let_def auth_inv_def)
qed

theorem prune_exact_witness:
  "snd (pruneExpiredSessions 10 (sample_state ''b'' [(''a'', sample_session ''t'' 5)]\<lparr>au_storage_works := False\<rparr>)) = [''a'']"
proof -
  have "auth_inv (sample_state ''b'' [(''a'', sample_session ''t'' 5)]\<lparr>au_storage_works := False\<rparr>)"
    by (simp add: auth_inv_def sample_state_def amap_ok_def)
  from prune_exact [OF this, of 10] show ?thesis
    by (simp add: Let_def sample_state_def sample_session_def isSessionExpired_def)
qed

text \<open>
  C3. A 401 ends the session of the cluster the request was sent to and no other, however the active
  cluster changed while it was in flight: only that context's session and cached responses go, the
  active name stays, and the login page is shown only when that cluster is the active one. In the
  local kubeconfig mode nothing happens at all.
\<close>

theorem unauthorized_is_scoped:
  "let st' = fold (run_handler now route d) (failure_handlers False ctx \<lparr>rs_status = 401, rs_text = t, rs_body = b\<rparr>) st in
   if au_local st then st' = st
   else au_sessions st' = filter (\<lambda>(n, s). n \<noteq> ctx) (au_sessions st) \<and>
        au_active st' = au_active st \<and>
        au_queries st' = filter (\<lambda>k. \<not> query_of_context ctx k) (au_queries st) \<and>
        au_pushed st' = au_pushed st @ (if ctx = au_active st then [ToLogin] else [])"
proof (cases "au_local st")
  case False
  have "AList.delete ctx (AList.delete ctx m) = filter (\<lambda>(n, s). n \<noteq> ctx) m" for m :: "(jstring \<times> session) list"
    by (simp add: AList.delete_eq) (rule filter_cong, auto)
  with False show ?thesis
    by (auto simp: failure_handlers_def run_handler_def logout_def unauthorized_handler_def Let_def)
qed (simp add: failure_handlers_def run_handler_def logout_def unauthorized_handler_def Let_def)

section \<open>What may be used\<close>

definition usable :: "int \<Rightarrow> auth_state \<Rightarrow> bool" where
  "usable now st \<longleftrightarrow> au_local st \<or>
     (case map_of (au_sessions st) (au_active st) of
        Some s \<Rightarrow> ss_token s \<noteq> [] \<and> (ss_expires s \<le> 0 \<or> of_int now < ss_expires s)
      | None \<Rightarrow> False)"

lemma isAuthenticated_iff: "isAuthenticated now st \<longleftrightarrow> usable now st"
  by (auto simp: isAuthenticated_def hasSession_def usable_def sessionFor_def isSessionExpired_def split: option.splits)

text \<open>
  The navigation guard lets nobody past the login page without a usable credential: a navigation
  goes through only to a public route or with a live token for the active cluster (or the backend's
  own credentials); the login page is left only when authenticated; and after every navigation no
  expired session is held.
\<close>

theorem guard_admits_only_usable:
  assumes "auth_inv st"
  shows "(case before_each now dest st of
     (result, st') \<Rightarrow>
       list_all (\<lambda>(n, s). \<not> isSessionExpired now s) (au_sessions st') \<and>
       (case result of
          Proceed \<Rightarrow> if tr_public dest then tr_login dest \<longrightarrow> \<not> usable now st' else usable now st'
        | RedirectOverview \<Rightarrow> usable now st'
        | RedirectLogin back \<Rightarrow> \<not> tr_public dest \<and> \<not> usable now st' \<and>
            back = (if tr_path dest = ''/'' then None else Some (tr_path dest))))"
  using prune_sessions [OF auth_inv_distinct [OF assms], of now]
  by (auto simp: before_each_def Let_def isAuthenticated_iff list_all_iff)

theorem guard_admits_only_usable_witness:
  "fst (before_each 10 \<lparr>tr_public = False, tr_login = False, tr_path = ''/overview''\<rparr>
     (sample_state ''a'' [(''a'', sample_session ''t'' 5)]\<lparr>au_storage_works := False\<rparr>)) = RedirectLogin (Some ''/overview'')"
proof -
  let ?st = "sample_state ''a'' [(''a'', sample_session ''t'' 5)]\<lparr>au_storage_works := False\<rparr>"
  let ?r = "before_each 10 \<lparr>tr_public = False, tr_login = False, tr_path = ''/overview''\<rparr> ?st"
  have inv: "auth_inv ?st" by (simp add: auth_inv_def sample_state_def amap_ok_def)
  have "\<not> usable 10 (snd ?r)"
    by (simp add: before_each_def Let_def usable_def pruneExpiredSessions_def expired_contexts_def sessionFor_def
      sample_state_def sample_session_def isSessionExpired_def)
  with guard_admits_only_usable [OF inv, of 10 "\<lparr>tr_public = False, tr_login = False, tr_path = ''/overview''\<rparr>"]
  show ?thesis by (cases ?r) (auto split: guard_result.splits)
qed

text \<open>
  C4. No request carries a credential of the store it should not: unless the caller set the header
  itself, what \<^verbatim>\<open>apiFetch\<close> puts in \<^verbatim>\<open>Authorization\<close> is the bearer token of the unexpired session of the
  active context, and nothing at all in the local kubeconfig mode.
\<close>

theorem requests_carry_live_tokens:
  assumes "auth_inv st"
  shows "(case map_of h AUTHORIZATION of
     Some a \<Rightarrow> map_of (request_headers (Some (fst (store_credentials now st))) h) AUTHORIZATION = Some a
   | None \<Rightarrow>
       (case map_of (request_headers (Some (fst (store_credentials now st))) h) AUTHORIZATION of
          None \<Rightarrow> True
        | Some a \<Rightarrow> \<not> au_local st \<and>
            (case map_of (au_sessions st) (au_active st) of
               None \<Rightarrow> False
             | Some s \<Rightarrow> a = ''Bearer '' @ ss_token s \<and> ss_token s \<noteq> [] \<and> \<not> isSessionExpired now s)))"
proof (cases "map_of h AUTHORIZATION")
  case None
  note ok = auth_inv_distinct [OF assms]
  have "map_of (filter (\<lambda>(n, s). \<not> isSessionExpired now s) (au_sessions st)) (au_active st) = Some s \<longleftrightarrow>
      map_of (au_sessions st) (au_active st) = Some s \<and> \<not> isSessionExpired now s" for s
    using map_of_eq_Some_iff' [OF amap_ok_filter [OF ok]] map_of_eq_Some_iff' [OF ok] by auto
  then show ?thesis
    using None
    by (auto simp: request_headers_lookup store_credentials_def getBearerToken_def Let_def auth_token_def
      active_session_def sessionFor_def prune_sessions [OF ok] split: option.splits)
qed (simp add: request_headers_lookup)

theorem requests_carry_live_tokens_witness:
  "map_of (request_headers (Some (fst (store_credentials 3
      (sample_state ''a'' [(''a'', sample_session ''t'' 5)]\<lparr>au_storage_works := False\<rparr>)))) [(AUTHORIZATION, ''x'')]) AUTHORIZATION
   = Some ''x''"
proof -
  have "auth_inv (sample_state ''a'' [(''a'', sample_session ''t'' 5)]\<lparr>au_storage_works := False\<rparr>)"
    by (simp add: auth_inv_def sample_state_def amap_ok_def)
  from requests_carry_live_tokens [OF this, where h = "[(AUTHORIZATION, ''x'')]" and now = 3] show ?thesis by simp
qed

text \<open>
  Recovering from a context the backend no longer knows never strands the app: the rejected
  context's session and cached responses are gone, the active context is not emptied, and either the
  login page is pushed or the active context is usable; the context list is fetched again only
  when that request will name a different context, so the recovery cannot loop on itself.
\<close>

theorem recovery_never_strands:
  assumes "auth_inv st" "au_active st \<noteq> []"
  shows "(case recoverFromUnknownContext now route rejected knownDefault st of
     (refetch, st') \<Rightarrow>
       au_active st' \<noteq> [] \<and> rejected \<notin> set (keys (au_sessions st')) \<and>
       list_all (\<lambda>k. \<not> query_of_context rejected k) (au_queries st') \<and>
       (if usable now st' then ToLogin \<notin> set (drop (length (au_pushed st)) (au_pushed st')) \<and> refetch = (au_active st' \<noteq> rejected)
        else last_opt (au_pushed st') = Some ToLogin \<and> \<not> refetch))"
proof -
  let ?c = "clearSession rejected st"
  let ?f = "case knownDefault of Some d \<Rightarrow> if d \<noteq> [] then d else au_active ?c | None \<Rightarrow> au_active ?c"
  let ?s = "setActiveContext now ?f ?c"
  have f: "?f \<noteq> []" using assms(2) by (auto split: option.splits)
  have inv: "auth_inv ?c" using assms(1) by (rule auth_inv_clear)
  have sessions: "au_sessions ?s = filter (\<lambda>(n, s). \<not> isSessionExpired now s) (AList.delete rejected (au_sessions st))"
    by (simp add: setActiveContext_def prune_sessions [OF auth_inv_distinct [OF inv]])
  have q: "list_all (\<lambda>k. \<not> query_of_context rejected k) (au_queries ?s)"
    by (auto simp: setActiveContext_def prune_caches list_all_iff)
  have p: "au_pushed ?s = au_pushed st" by (simp add: setActiveContext_def)
  have a: "au_active ?s = ?f" by (simp add: setActiveContext_def)
  have gone: "rejected \<notin> set (keys (au_sessions ?s))"
    unfolding sessions by (auto simp: AList.delete_eq)
  have usable_push: "usable now (push_route n x) = usable now x" for n x by (simp add: usable_def)
  show ?thesis
    using f q p a gone
    by (simp add: recoverFromUnknownContext_def Let_def isAuthenticated_iff usable_push split: current_route.splits
        del: clearSession_fields) 
qed

theorem recovery_never_strands_witness:
  "fst (recoverFromUnknownContext 3 Elsewhere ''gone'' None
     (sample_state ''gone'' [(''gone'', sample_session ''t'' 5)]\<lparr>au_storage_works := False\<rparr>)) = False"
proof -
  let ?st = "sample_state ''gone'' [(''gone'', sample_session ''t'' 5)]\<lparr>au_storage_works := False\<rparr>"
  have h: "auth_inv ?st" "au_active ?st \<noteq> []" by (simp_all add: auth_inv_def sample_state_def amap_ok_def)
  have "\<not> usable 3 (snd (recoverFromUnknownContext 3 Elsewhere ''gone'' None ?st))"
    by (simp add: recoverFromUnknownContext_def Let_def isAuthenticated_iff setActiveContext_def
      pruneExpiredSessions_def expired_contexts_def usable_def sample_state_def push_route_def)
  with recovery_never_strands [OF h, where now = 3 and route = Elsewhere and rejected = "''gone''" and knownDefault = None] show ?thesis
    by (auto split: prod.splits if_splits)
qed

end
