(* ===== verification/Urls.thy ===== *)
theory Urls
  imports Json
begin

text \<open>
  \<^verbatim>\<open>encodeURIComponent\<close> and \<^verbatim>\<open>URLSearchParams\<close>, with the decoders that read them back, and the request
  paths of \<^verbatim>\<open>web/src/api/k8s.ts\<close>.
\<close>

section \<open>Percent encoding\<close>

definition is_alnum :: "char \<Rightarrow> bool" where
  "is_alnum c \<longleftrightarrow> is_digit c \<or> is_lower_alpha c \<or> is_upper_alpha c"

definition uri_unreserved :: "char \<Rightarrow> bool" where
  "uri_unreserved c \<longleftrightarrow> is_alnum c \<or> code c \<in> {45, 95, 46, 33, 126, 42, 39, 40, 41}"

definition form_unreserved :: "char \<Rightarrow> bool" where
  "form_unreserved c \<longleftrightarrow> is_alnum c \<or> code c \<in> {42, 45, 46, 95}"

definition hex_digit :: "nat \<Rightarrow> char" where
  "hex_digit d = (if d < 10 then char_of (48 + d) else char_of (55 + d))"

definition hex_value :: "char \<Rightarrow> nat" where
  "hex_value c = (if code c < 65 then code c - 48 else code c - 55)"

definition percent :: "nat \<Rightarrow> jstring" where
  "percent b = [CHR ''%'', hex_digit (b div 16), hex_digit (b mod 16)]"

text \<open>The UTF-8 bytes of a code unit below 256.\<close>

definition utf8 :: "char \<Rightarrow> nat list" where
  "utf8 c = (if code c < 128 then [code c] else [192 + code c div 64, 128 + code c mod 64])"

definition percent_char :: "char \<Rightarrow> jstring" where
  "percent_char c = concat (map percent (utf8 c))"

definition encodeURIComponent :: "jstring \<Rightarrow> jstring" where
  "encodeURIComponent s = concat (map (\<lambda>c. if uri_unreserved c then [c] else percent_char c) s)"

definition form_encode :: "jstring \<Rightarrow> jstring" where
  "form_encode s = concat (map (\<lambda>c. if form_unreserved c then [c] else if code c = 32 then ''+'' else percent_char c) s)"

text \<open>Reading it back: bytes first, then UTF-8.\<close>

fun percent_bytes :: "jstring \<Rightarrow> nat list" where
  "percent_bytes (c # a # b # cs) =
     (if c = CHR ''%'' then (16 * hex_value a + hex_value b) # percent_bytes cs
      else code c # percent_bytes (a # b # cs))"
| "percent_bytes (c # cs) = code c # percent_bytes cs"
| "percent_bytes [] = []"

fun utf8_text :: "nat list \<Rightarrow> jstring" where
  "utf8_text (a # b # bs) =
     (if a < 128 then char_of a # utf8_text (b # bs) else char_of ((a - 192) * 64 + (b - 128)) # utf8_text bs)"
| "utf8_text [a] = [char_of a]"
| "utf8_text [] = []"

definition decode_component :: "jstring \<Rightarrow> jstring" where
  "decode_component s = utf8_text (percent_bytes s)"

definition form_decode :: "jstring \<Rightarrow> jstring" where
  "form_decode s = decode_component (map (\<lambda>c. if c = CHR ''+'' then CHR '' '' else c) s)"

section \<open>Decoding what was encoded\<close>

lemma hex_value_digit: "d < 16 \<Longrightarrow> hex_value (hex_digit d) = d"
  by (auto simp: hex_value_def hex_digit_def)

lemma percent_bytes_plain: "c \<noteq> CHR ''%'' \<Longrightarrow> percent_bytes (c # cs) = code c # percent_bytes cs"
  by (cases cs; cases "tl cs") auto

lemma percent_bytes_percent: "b < 256 \<Longrightarrow> percent_bytes (percent b @ cs) = b # percent_bytes cs"
  by (simp add: percent_def hex_value_digit less_mult_imp_div_less)

lemma utf8_bytes: "b \<in> set (utf8 c) \<Longrightarrow> b < 256"
proof -
  have "code c div 64 < 4" using nat_of_char_less_256 [of c] by (simp add: less_mult_imp_div_less)
  moreover have "code c mod 64 < 64" by simp
  ultimately show "b \<in> set (utf8 c) \<Longrightarrow> b < 256"
    unfolding utf8_def using nat_of_char_less_256 [of c] by (simp split: if_splits) linarith
qed

lemma percent_bytes_char: "percent_bytes (percent_char c @ cs) = utf8 c @ percent_bytes cs"
proof -
  have "(\<And>b. b \<in> set bs \<Longrightarrow> b < 256) \<Longrightarrow> percent_bytes (concat (map percent bs) @ cs) = bs @ percent_bytes cs" for bs
    by (induction bs) (auto simp: percent_bytes_percent)
  then show ?thesis using utf8_bytes by (simp add: percent_char_def)
qed

lemma utf8_text_char: "utf8_text (utf8 c @ bs) = c # utf8_text bs"
proof (cases "code c < 128")
  case True
  then show ?thesis by (cases bs) (simp_all add: utf8_def)
qed (simp add: utf8_def)

lemma unreserved_not_percent: "uri_unreserved c \<Longrightarrow> c \<noteq> CHR ''%''" "form_unreserved c \<Longrightarrow> c \<noteq> CHR ''%''"
  by (auto simp: uri_unreserved_def form_unreserved_def is_alnum_def is_digit_def is_lower_alpha_def is_upper_alpha_def)

lemma unreserved_ascii: "uri_unreserved c \<Longrightarrow> code c < 128" "form_unreserved c \<Longrightarrow> code c < 128"
  by (auto simp: uri_unreserved_def form_unreserved_def is_alnum_def is_digit_def is_lower_alpha_def is_upper_alpha_def)

lemma utf8_text_ascii: "code c < 128 \<Longrightarrow> utf8_text (code c # bs) = c # utf8_text bs"
  by (cases bs) simp_all

lemma decode_encode [simp]: "decode_component (encodeURIComponent s) = s"
proof -
  have "utf8_text (percent_bytes (encodeURIComponent s)) = s"
  proof (induction s)
    case (Cons c s)
    then show ?case
      by (auto simp: encodeURIComponent_def percent_bytes_plain percent_bytes_char utf8_text_char
        unreserved_not_percent utf8_text_ascii unreserved_ascii)
  qed (simp add: encodeURIComponent_def)
  then show ?thesis by (simp add: decode_component_def)
qed

text \<open>The characters an encoder emits.\<close>

lemma percent_char_set: "x \<in> set (percent_char c) \<Longrightarrow> x = CHR ''%'' \<or> is_digit x \<or> is_upper_alpha x"
proof -
  have hex: "is_digit (hex_digit d) \<or> is_upper_alpha (hex_digit d)" if "d < 16" for d
    using that by (auto simp: hex_digit_def is_digit_def is_upper_alpha_def)
  have "x \<in> set (percent b) \<Longrightarrow> b < 256 \<Longrightarrow> x = CHR ''%'' \<or> is_digit x \<or> is_upper_alpha x" for b
    using hex [of "b div 16"] hex [of "b mod 16"] by (auto simp: percent_def less_mult_imp_div_less)
  moreover assume "x \<in> set (percent_char c)"
  then obtain b where "b \<in> set (utf8 c)" "x \<in> set (percent b)" by (auto simp: percent_char_def)
  ultimately show ?thesis using utf8_bytes by blast
qed

lemma encode_set:
  "x \<in> set (encodeURIComponent s) \<Longrightarrow> x = CHR ''%'' \<or> uri_unreserved x"
  by (auto simp: encodeURIComponent_def uri_unreserved_def is_alnum_def split: if_splits dest!: percent_char_set)

lemma encode_no_delimiter: "CHR ''/'' \<notin> set (encodeURIComponent s)" "CHR ''?'' \<notin> set (encodeURIComponent s)"
  by (auto dest!: encode_set simp: uri_unreserved_def is_alnum_def is_digit_def is_lower_alpha_def is_upper_alpha_def)

lemma form_set:
  "x \<in> set (form_encode s) \<Longrightarrow> x = CHR ''%'' \<or> x = CHR ''+'' \<or> form_unreserved x"
  by (auto simp: form_encode_def form_unreserved_def is_alnum_def split: if_splits dest!: percent_char_set)

lemma form_no_delimiter: "CHR ''&'' \<notin> set (form_encode s)" "CHR ''='' \<notin> set (form_encode s)"
  by (auto dest!: form_set simp: form_unreserved_def is_alnum_def is_digit_def is_lower_alpha_def is_upper_alpha_def)

lemma form_decode_encode [simp]: "form_decode (form_encode s) = s"
proof -
  let ?f = "map (\<lambda>c. if c = CHR ''+'' then CHR '' '' else c)"
  have same: "?f xs = xs" if "\<And>x. x \<in> set xs \<Longrightarrow> x \<noteq> CHR ''+''" for xs
    using that by (intro map_idI) auto
  have pc: "?f (percent_char c) = percent_char c" for c
    by (rule same) (auto dest!: percent_char_set simp: is_digit_def is_upper_alpha_def)
  have un: "form_unreserved c \<Longrightarrow> c \<noteq> CHR ''+''" for c
    by (auto simp: form_unreserved_def is_alnum_def is_digit_def is_lower_alpha_def is_upper_alpha_def)
  have sp: "code c = 32 \<Longrightarrow> c = CHR '' ''" for c
  proof -
    assume "code c = 32"
    then have "c = char_of (32 :: nat)" by (metis char_of_char)
    then show ?thesis by (simp add: char_of_def bit_0)
  qed
  have "utf8_text (percent_bytes (?f (form_encode s))) = s"
  proof (induction s)
    case (Cons c s)
    show ?case
      using Cons pc [of c] un [of c] sp [of c]
      by (auto simp: form_encode_def percent_bytes_plain percent_bytes_char utf8_text_char
        unreserved_not_percent utf8_text_ascii unreserved_ascii utf8_text_ascii [of "CHR '' ''", simplified])
  qed (simp add: form_encode_def)
  then show ?thesis by (simp add: form_decode_def decode_component_def)
qed

section \<open>Query strings\<close>

type_synonym params = "(jstring \<times> jstring) list"

text \<open>\<^verbatim>\<open>URLSearchParams.prototype.toString\<close>, and the parser a server reads it with.\<close>

definition query_string :: "params \<Rightarrow> jstring" where
  "query_string ps = join ''&'' (map (\<lambda>(k, v). form_encode k @ ''='' @ form_encode v) ps)"

definition parse_query :: "jstring \<Rightarrow> params" where
  "parse_query s =
     (if s = [] then []
      else map (\<lambda>part. let k = takeWhile (\<lambda>c. c \<noteq> CHR ''='') part; v = drop (Suc (length k)) part
                 in (form_decode k, form_decode v)) (split_on (CHR ''&'') s))"

lemma split_join: "xs \<noteq> [] \<Longrightarrow> list_all (\<lambda>x. ch \<notin> set x) xs \<Longrightarrow> split_on ch (join [ch] xs) = xs"
proof (induction xs)
  case (Cons x xs)
  then show ?case by (cases xs) (simp_all add: split_on_single split_on_sep)
qed simp

lemma parse_query_string: "parse_query (query_string ps) = ps"
proof (cases "ps = []")
  case False
  let ?enc = "\<lambda>(k, v). form_encode k @ ''='' @ form_encode v"
  have parts: "split_on (CHR ''&'') (query_string ps) = map ?enc ps"
    unfolding query_string_def using False form_no_delimiter(1)
    by (intro split_join) (auto simp: list_all_iff)
  have "query_string ps \<noteq> []"
  proof
    assume "query_string ps = []"
    with parts have "[[]] = map ?enc ps" by simp
    then show False by (cases ps) auto
  qed
  moreover have key: "takeWhile (\<lambda>c. c \<noteq> CHR ''='') (form_encode k @ CHR ''='' # form_encode v) = form_encode k" for k v
    using form_no_delimiter(2) [of k] by (subst takeWhile_append2) auto
  ultimately show ?thesis by (simp add: parse_query_def parts case_prod_beta comp_def Let_def key map_idI)
qed (simp add: query_string_def parse_query_def)

end
