(* ===== verification/KubeApi.thy ===== *)
theory KubeApi
  imports Urls Http
begin

text \<open>
  \<^verbatim>\<open>web/src/api/k8s.ts\<close> and \<^verbatim>\<open>web/src/utils/tableFallback.ts\<close>: request paths and queries, the conversion of a
  plain List to a Table, and the bounded walk over continue tokens. The server is a parameter: a
  function from the continue token to a page or a failure.
\<close>

section \<open>Paths\<close>

record resource_ref =
  rr_group :: jstring
  rr_version :: jstring
  rr_resource :: jstring

definition isCoreGroup :: "jstring \<Rightarrow> bool" where
  "isCoreGroup g \<longleftrightarrow> g = [] \<or> g = ''core''"

definition given :: "jstring option \<Rightarrow> bool" where
  "given x \<longleftrightarrow> x \<noteq> None \<and> x \<noteq> Some []"

definition resourcePath :: "resource_ref \<Rightarrow> jstring option \<Rightarrow> jstring option \<Rightarrow> jstring option \<Rightarrow> jstring" where
  "resourcePath ref namespace name subresource =
     (let base = (if isCoreGroup (rr_group ref)
                  then ''/k8s/api/'' @ encodeURIComponent (rr_version ref)
                  else ''/k8s/apis/'' @ encodeURIComponent (rr_group ref) @ ''/'' @ encodeURIComponent (rr_version ref));
          path1 = (if given namespace then base @ ''/namespaces/'' @ encodeURIComponent (the namespace) else base);
          path2 = path1 @ ''/'' @ encodeURIComponent (rr_resource ref);
          path3 = (if given name then path2 @ ''/'' @ encodeURIComponent (the name) else path2)
      in (case subresource of Some sub \<Rightarrow> path3 @ ''/'' @ encodeURIComponent sub | None \<Rightarrow> path3))"

text \<open>The segments a router would read the request from.\<close>

definition path_segments :: "resource_ref \<Rightarrow> jstring option \<Rightarrow> jstring option \<Rightarrow> jstring option \<Rightarrow> jstring list" where
  "path_segments ref namespace name subresource =
     [[], ''k8s''] @
     (if isCoreGroup (rr_group ref) then [''api'', rr_version ref] else [''apis'', rr_group ref, rr_version ref]) @
     (if given namespace then [''namespaces'', the namespace] else []) @
     [rr_resource ref] @ (if given name then [the name] else []) @
     (case subresource of Some sub \<Rightarrow> [sub] | None \<Rightarrow> [])"

lemma decode_plain: "list_all is_alnum s \<Longrightarrow> decode_component s = s"
proof -
  assume a: "list_all is_alnum s"
  then have "encodeURIComponent s = s"
    by (induction s) (simp_all add: encodeURIComponent_def uri_unreserved_def)
  then show ?thesis by (metis decode_encode)
qed

lemma split_encoded:
  "split_on (CHR ''/'') (encodeURIComponent a @ CHR ''/'' # s) = encodeURIComponent a # split_on (CHR ''/'') s"
  "split_on (CHR ''/'') (encodeURIComponent a) = [encodeURIComponent a]"
  by (simp_all add: split_on_sep split_on_single encode_no_delimiter)

text \<open>
  No value can leave its place in a request path: whatever the group, version, resource, namespace,
  name and subresource contain (slashes, dots, question marks, percent signs), splitting the path at
  its slashes and decoding the segments gives back exactly those values at their positions.
\<close>

theorem path_segments_intact:
  "map decode_component (split_on (CHR ''/'') (resourcePath ref namespace name subresource))
     = path_segments ref namespace name subresource"
proof -
  have d: "decode_component ''k8s'' = ''k8s''" "decode_component ''api'' = ''api''" "decode_component ''apis'' = ''apis''"
    "decode_component ''namespaces'' = ''namespaces''" "decode_component [] = []"
    by (rule decode_plain, simp add: is_alnum_def is_digit_def is_lower_alpha_def)+
  show ?thesis
    by (cases subresource)
      (simp_all add: resourcePath_def path_segments_def Let_def split_encoded d)
qed

section \<open>Queries\<close>

definition opt_param :: "jstring \<Rightarrow> jstring option \<Rightarrow> params" where
  "opt_param k v = (if given v then [(k, the v)] else [])"

record log_options =
  lo_container :: "jstring option"
  lo_tail :: "int option"
  lo_since :: "int option"
  lo_timestamps :: bool
  lo_previous :: bool
  lo_follow :: bool

definition log_params :: "log_options \<Rightarrow> params" where
  "log_params opts =
     opt_param ''container'' (lo_container opts) @
     (case lo_tail opts of Some n \<Rightarrow> [(''tailLines'', show_int n)] | None \<Rightarrow> []) @
     (case lo_since opts of Some n \<Rightarrow> [(''sinceSeconds'', show_int n)] | None \<Rightarrow> []) @
     (if lo_timestamps opts then [(''timestamps'', ''true'')] else []) @
     (if lo_previous opts then [(''previous'', ''true'')] else []) @
     (if lo_follow opts then [(''follow'', ''true'')] else [])"

definition logsUrl :: "jstring \<Rightarrow> jstring \<Rightarrow> log_options \<Rightarrow> jstring" where
  "logsUrl namespace pod opts =
     (let query = query_string (log_params opts);
          base = resourcePath \<lparr>rr_group = [], rr_version = ''v1'', rr_resource = ''pods''\<rparr> (Some namespace) (Some pod) (Some ''log'')
      in if query = [] then base else base @ ''?'' @ query)"

definition watch_params :: "jstring \<Rightarrow> jstring option \<Rightarrow> jstring option \<Rightarrow> params" where
  "watch_params rv label field =
     [(''watch'', ''true''), (''allowWatchBookmarks'', ''true''), (''includeObject'', ''Metadata''), (''resourceVersion'', rv)] @
     opt_param ''labelSelector'' label @ opt_param ''fieldSelector'' field"

definition watchUrl :: "resource_ref \<Rightarrow> jstring option \<Rightarrow> jstring \<Rightarrow> jstring option \<Rightarrow> jstring option \<Rightarrow> jstring" where
  "watchUrl ref namespace rv label field =
     resourcePath ref namespace None None @ ''?'' @ query_string (watch_params rv label field)"

definition list_params :: "nat option \<Rightarrow> jstring option \<Rightarrow> jstring option \<Rightarrow> jstring option \<Rightarrow> params" where
  "list_params limit cont label field =
     [(''includeObject'', ''Metadata'')] @
     (case limit of Some n \<Rightarrow> [(''limit'', show_nat n)] | None \<Rightarrow> []) @
     opt_param ''continue'' cont @ opt_param ''labelSelector'' label @ opt_param ''fieldSelector'' field"

definition apply_params :: "bool option \<Rightarrow> bool \<Rightarrow> params" where
  "apply_params force dryRun =
     [(''fieldManager'', ''kube-console''), (''force'', if force = Some False then ''false'' else ''true'')] @
     (if dryRun then [(''dryRun'', ''All'')] else [])"

text \<open>The field selector of \<^verbatim>\<open>eventsFor\<close>; \<open>None\<close> when the object has no identity and no request is made.\<close>

definition event_selector :: "jstring option \<Rightarrow> jstring option \<Rightarrow> jstring option" where
  "event_selector uid name =
     (let selectors =
        (case uid of Some u \<Rightarrow> [''involvedObject.uid='' @ u] | None \<Rightarrow> []) @
        (case name of Some n \<Rightarrow> [''involvedObject.name='' @ n] | None \<Rightarrow> [])
      in if selectors = [] then None else Some (join '','' selectors))"

section \<open>Rows and tables\<close>

text \<open>A cell; the numbers of Kubernetes' printers are integers.\<close>

datatype cell = CStr jstring | CNum int | CBool bool | CNull | CObject

definition cell_string :: "cell \<Rightarrow> jstring" where
  "cell_string c = (case c of
     CStr s \<Rightarrow> s | CNum n \<Rightarrow> show_int n | CBool b \<Rightarrow> (if b then ''true'' else ''false'')
   | CNull \<Rightarrow> [] | CObject \<Rightarrow> ''[object Object]'')"

record owner_ref =
  ow_apiVersion :: jstring
  ow_kind :: jstring
  ow_name :: jstring
  ow_uid :: "jstring option"

record object_meta =
  om_name :: "jstring option"
  om_namespace :: "jstring option"
  om_uid :: "jstring option"
  om_rv :: "jstring option"
  om_created :: "jstring option"
  om_deletion :: "jstring option"
  om_labels :: "(jstring \<times> jstring) list option"
  om_annotations :: "(jstring \<times> jstring) list option"
  om_owners :: "owner_ref list option"
  om_managed :: "json option"

record table_row =
  tr_cells :: "cell list"
  tr_meta :: "object_meta option"

record table_column =
  tc_name :: jstring
  tc_type :: jstring
  tc_priority :: "int option"

record k8s_object =
  ko_meta :: "object_meta option"
  ko_status :: "json option"

definition condition_ready :: "json \<Rightarrow> bool" where
  "condition_ready c \<longleftrightarrow> jget ''type'' c = Some (JStr ''Ready'')"

definition statusOf :: "k8s_object \<Rightarrow> jstring" where
  "statusOf obj =
     (case ko_status obj of
        None \<Rightarrow> []
      | Some status \<Rightarrow>
          (case Option.bind (jget ''phase'' status) json_str of
             Some p \<Rightarrow> p
           | None \<Rightarrow>
               (case jget ''conditions'' status of
                  Some (JArr cs) \<Rightarrow>
                    (case find condition_ready cs of
                       Some ready \<Rightarrow> if jget ''status'' ready = Some (JStr ''True'') then ''Ready'' else ''NotReady''
                     | None \<Rightarrow> [])
                | _ \<Rightarrow> [])))"

definition meta_text :: "(object_meta \<Rightarrow> jstring option) \<Rightarrow> k8s_object \<Rightarrow> jstring" where
  "meta_text f obj = (case Option.bind (ko_meta obj) f of Some s \<Rightarrow> s | None \<Rightarrow> [])"

definition object_row :: "k8s_object \<Rightarrow> table_row" where
  "object_row obj =
     \<lparr>tr_cells = [CStr (meta_text om_name obj), CStr (meta_text om_namespace obj),
                  CStr (meta_text om_created obj), CStr (statusOf obj)],
      tr_meta = ko_meta obj\<rparr>"

definition fallback_columns :: "table_column list" where
  "fallback_columns =
     [\<lparr>tc_name = ''Name'', tc_type = ''string'', tc_priority = None\<rparr>, \<lparr>tc_name = ''Namespace'', tc_type = ''string'', tc_priority = None\<rparr>,
      \<lparr>tc_name = ''Created'', tc_type = ''date'', tc_priority = None\<rparr>, \<lparr>tc_name = ''Status'', tc_type = ''string'', tc_priority = None\<rparr>]"

text \<open>\<^verbatim>\<open>listToTable\<close>.\<close>

definition listToTable :: "k8s_object list \<Rightarrow> table_column list \<times> table_row list" where
  "listToTable items = (fallback_columns, map object_row items)"

text \<open>A list response: a Table or a plain List, with the list metadata.\<close>

datatype list_body =
    TableBody "table_column list option" "table_row list option"
  | ListBody "k8s_object list option"

record list_response =
  lr_body :: list_body
  lr_rv :: "jstring option"
  lr_continue :: "jstring option"

record list_result =
  li_columns :: "table_column list"
  li_rows :: "table_row list"
  li_rv :: jstring
  li_continue :: jstring
  li_fallback :: bool

definition or_empty :: "'a list option \<Rightarrow> 'a list" where
  "or_empty x = (case x of Some xs \<Rightarrow> xs | None \<Rightarrow> [])"

definition listAsTable :: "list_response \<Rightarrow> list_result" where
  "listAsTable r =
     (case lr_body r of
        TableBody cols rows \<Rightarrow>
          \<lparr>li_columns = or_empty cols, li_rows = or_empty rows, li_rv = or_empty (lr_rv r),
           li_continue = or_empty (lr_continue r), li_fallback = False\<rparr>
      | ListBody items \<Rightarrow>
          (case listToTable (or_empty items) of (cols, rows) \<Rightarrow>
             \<lparr>li_columns = cols, li_rows = rows, li_rv = or_empty (lr_rv r),
              li_continue = or_empty (lr_continue r), li_fallback = True\<rparr>))"

section \<open>The walk over continue tokens\<close>

record walk_options =
  wo_continue :: jstring
  wo_maxPages :: nat
  wo_keep :: "table_row \<Rightarrow> bool"
  wo_maxRows :: "nat option"

record walk_result =
  wr_columns :: "table_column list"
  wr_rows :: "table_row list"
  wr_fallback :: bool
  wr_rv :: jstring
  wr_continue :: jstring
  wr_truncated :: bool
  wr_scanned :: nat

definition new_walk :: "walk_options \<Rightarrow> walk_result" where
  "new_walk opts = \<lparr>wr_columns = [], wr_rows = [], wr_fallback = False, wr_rv = [],
     wr_continue = wo_continue opts, wr_truncated = False, wr_scanned = 0\<rparr>"

text \<open>One page absorbed; the columns and the fallback flag are the first page's.\<close>

definition absorb_page :: "walk_options \<Rightarrow> bool \<Rightarrow> list_result \<Rightarrow> walk_result \<Rightarrow> walk_result" where
  "absorb_page opts first p w =
     w\<lparr>wr_columns := (if first then li_columns p else wr_columns w),
       wr_fallback := (if first then li_fallback p else wr_fallback w),
       wr_rv := li_rv p,
       wr_scanned := wr_scanned w + length (li_rows p),
       wr_rows := wr_rows w @ filter (wo_keep opts) (li_rows p),
       wr_continue := li_continue p\<rparr>"

definition rows_capped :: "walk_options \<Rightarrow> walk_result \<Rightarrow> bool" where
  "rows_capped opts w = (case wo_maxRows opts of None \<Rightarrow> False | Some m \<Rightarrow> m \<le> length (wr_rows w))"

fun walk_loop ::
    "(jstring \<Rightarrow> thrown + list_result) \<Rightarrow> (nat \<Rightarrow> bool) \<Rightarrow> walk_options \<Rightarrow> nat \<Rightarrow> nat \<Rightarrow> walk_result \<Rightarrow> thrown + walk_result" where
  "walk_loop fetch abort opts 0 page w = Inr w"
| "walk_loop fetch abort opts (Suc n) page w =
     (case fetch (wr_continue w) of
        Inl e \<Rightarrow> Inl e
      | Inr p \<Rightarrow>
          if abort page then Inr w
          else
            let w' = absorb_page opts (page = 0) p w
            in if wr_continue w' = [] then Inr w'
               else if rows_capped opts w' then Inr w'
               else walk_loop fetch abort opts n (Suc page) w')"

definition walkTable ::
    "(jstring \<Rightarrow> thrown + list_result) \<Rightarrow> (nat \<Rightarrow> bool) \<Rightarrow> walk_options \<Rightarrow> thrown + walk_result" where
  "walkTable fetch abort opts =
     (case walk_loop fetch abort opts (wo_maxPages opts) 0 (new_walk opts) of
        Inl e \<Rightarrow> Inl e
      | Inr w \<Rightarrow> Inr (w\<lparr>wr_truncated := (wr_continue w \<noteq> [])\<rparr>))"

definition listAllAsTable ::
    "(jstring \<Rightarrow> thrown + list_result) \<Rightarrow> nat option \<Rightarrow> thrown + (table_column list \<times> table_row list \<times> bool)" where
  "listAllAsTable fetch maxPages =
     (case walkTable fetch (\<lambda>_. False)
             \<lparr>wo_continue = [], wo_maxPages = (case maxPages of Some n \<Rightarrow> n | None \<Rightarrow> 6), wo_keep = \<lambda>_. True, wo_maxRows = None\<rparr> of
        Inl e \<Rightarrow> Inl e
      | Inr w \<Rightarrow> Inr (wr_columns w, wr_rows w, wr_truncated w))"

fun namespaces_loop ::
    "(jstring \<Rightarrow> thrown + (k8s_object list option \<times> jstring option)) \<Rightarrow> nat \<Rightarrow> k8s_object list \<Rightarrow> jstring
       \<Rightarrow> thrown + (k8s_object list \<times> jstring)" where
  "namespaces_loop fetch 0 items cont = Inr (items, cont)"
| "namespaces_loop fetch (Suc n) items cont =
     (case fetch cont of
        Inl e \<Rightarrow> Inl e
      | Inr (page, next) \<Rightarrow>
          let items' = items @ or_empty page; cont' = or_empty next
          in if cont' = [] then Inr (items', cont') else namespaces_loop fetch n items' cont')"

definition fetchNamespaces ::
    "(jstring \<Rightarrow> thrown + (k8s_object list option \<times> jstring option)) \<Rightarrow> nat option \<Rightarrow> thrown + (k8s_object list \<times> jstring)" where
  "fetchNamespaces fetch maxPages = namespaces_loop fetch (case maxPages of Some n \<Rightarrow> n | None \<Rightarrow> 6) [] []"

definition fetchPodCount :: "table_row list option \<Rightarrow> int option \<Rightarrow> int" where
  "fetchPodCount rows remaining = int (length (or_empty rows)) + (case remaining of Some n \<Rightarrow> n | None \<Rightarrow> 0)"

section \<open>What the requests and the walk deliver\<close>

lemma path_no_query: "CHR ''?'' \<notin> set (resourcePath ref namespace name subresource)"
  by (cases subresource) (auto simp: resourcePath_def Let_def dest: encode_no_delimiter(2) [THEN notE])

lemma query_of_url:
  "CHR ''?'' \<notin> set p \<Longrightarrow> takeWhile (\<lambda>c. c \<noteq> CHR ''?'') (p @ CHR ''?'' # q) = p \<and>
   parse_query (tl (dropWhile (\<lambda>c. c \<noteq> CHR ''?'') (p @ CHR ''?'' # q))) = parse_query q"
  by (subst takeWhile_append2, auto) (subst dropWhile_append2, auto)

lemma logs_url_query:
  "takeWhile (\<lambda>c. c \<noteq> CHR ''?'') (logsUrl ns pod opts)
     = resourcePath \<lparr>rr_group = [], rr_version = ''v1'', rr_resource = ''pods''\<rparr> (Some ns) (Some pod) (Some ''log'') \<and>
   parse_query (tl (dropWhile (\<lambda>c. c \<noteq> CHR ''?'') (logsUrl ns pod opts))) = log_params opts"
proof -
  let ?path = "resourcePath \<lparr>rr_group = [], rr_version = ''v1'', rr_resource = ''pods''\<rparr> (Some ns) (Some pod) (Some ''log'')"
  have none: "takeWhile (\<lambda>c. c \<noteq> CHR ''?'') ?path = ?path" "dropWhile (\<lambda>c. c \<noteq> CHR ''?'') ?path = []"
    using path_no_query by (auto simp: takeWhile_eq_all_conv dropWhile_eq_Nil_conv)
  have "query_string (log_params opts) = [] \<Longrightarrow> log_params opts = []"
    using parse_query_string [of "log_params opts"] by (simp add: parse_query_def)
  then have empty: "query_string (log_params opts) = [] \<Longrightarrow> log_params opts = []" .
  show ?thesis
  proof (cases "query_string (log_params opts) = []")
    case True
    then show ?thesis using empty by (simp add: logsUrl_def Let_def none parse_query_def)
  next
    case False
    then have "logsUrl ns pod opts = ?path @ CHR ''?'' # query_string (log_params opts)" by (simp add: logsUrl_def Let_def)
    then show ?thesis
      using query_of_url [OF path_no_query, of _ "Some ns" "Some pod" "Some ''log''" "query_string (log_params opts)"]
      by (simp only: parse_query_string)
  qed
qed

text \<open>
  A watch or log URL says exactly what it was built from: splitting it at the question mark gives the
  collection's (or the pod log's) path, and parsing the query gives back every parameter with the
  value it was set to, so no selector, resource version or container name can add or change another.
\<close>

theorem urls_carry_parameters:
  "(let url = watchUrl ref namespace rv label field in
      takeWhile (\<lambda>c. c \<noteq> CHR ''?'') url = resourcePath ref namespace None None \<and>
      parse_query (tl (dropWhile (\<lambda>c. c \<noteq> CHR ''?'') url)) = watch_params rv label field) \<and>
   (let url = logsUrl ns pod opts in
      takeWhile (\<lambda>c. c \<noteq> CHR ''?'') url
        = resourcePath \<lparr>rr_group = [], rr_version = ''v1'', rr_resource = ''pods''\<rparr> (Some ns) (Some pod) (Some ''log'') \<and>
      parse_query (tl (dropWhile (\<lambda>c. c \<noteq> CHR ''?'') url)) = log_params opts)"
  using logs_url_query [of ns pod opts]
    query_of_url [OF path_no_query, of ref namespace None None "query_string (watch_params rv label field)"]
  by (simp add: watchUrl_def Let_def parse_query_string)

text \<open>A server holding a collection in pages; its continue token is the number of the next page.\<close>

definition paged_server :: "table_column list \<Rightarrow> jstring \<Rightarrow> table_row list list \<Rightarrow> jstring \<Rightarrow> thrown + list_result" where
  "paged_server cols rv pages token =
     (let i = (if token = [] then 0 else nat_of_digits token)
      in if i < length pages then
           Inr \<lparr>li_columns = cols, li_rows = pages ! i, li_rv = rv,
                li_continue = (if Suc i < length pages then show_nat (Suc i) else []), li_fallback = False\<rparr>
         else Inl (ApiError 410 ''Expired'' None))"

definition walked :: "walk_options \<Rightarrow> table_row list list \<Rightarrow> nat \<Rightarrow> walk_result \<Rightarrow> bool" where
  "walked opts pages i w \<longleftrightarrow>
     wr_rows w = filter (wo_keep opts) (concat (take i pages)) \<and>
     wr_scanned w = length (concat (take i pages)) \<and>
     wr_continue w = (if 0 < i \<and> i < length pages then show_nat i else [])"

lemma walked_step:
  assumes "walked opts pages i w" "i < length pages"
  shows "\<exists>p. paged_server cols rv pages (wr_continue w) = Inr p \<and> li_columns p = cols \<and> li_rv p = rv \<and>
    walked opts pages (Suc i) (absorb_page opts first p w)"
proof -
  have server: "paged_server cols rv pages (wr_continue w) =
      Inr \<lparr>li_columns = cols, li_rows = pages ! i, li_rv = rv,
           li_continue = (if Suc i < length pages then show_nat (Suc i) else []), li_fallback = False\<rparr>"
    using assms by (auto simp: paged_server_def Let_def walked_def)
  show ?thesis
    unfolding server using assms by (auto simp: walked_def absorb_page_def take_Suc_conv_app_nth)
qed

lemma walk_loop_page:
  "fetch (wr_continue w) = Inr p \<Longrightarrow>
   walk_loop fetch (\<lambda>_. False) opts (Suc n) i w =
     (let w' = absorb_page opts (i = 0) p w
      in if wr_continue w' = [] then Inr w' else if rows_capped opts w' then Inr w'
         else walk_loop fetch (\<lambda>_. False) opts n (Suc i) w')"
  by simp

lemma walk_loop_pages:
  "walked opts pages i w \<Longrightarrow> i < length pages \<Longrightarrow> (0 < i \<longrightarrow> wr_columns w = cols) \<Longrightarrow>
   \<exists>m w'. walk_loop (paged_server cols rv pages) (\<lambda>_. False) opts (Suc n) i w = Inr w' \<and>
     walked opts pages m w' \<and> i < m \<and> m \<le> i + Suc n \<and> m \<le> length pages \<and> wr_columns w' = cols \<and> wr_rv w' = rv \<and>
     (m < length pages \<longrightarrow> m = i + Suc n \<or> rows_capped opts w')"
proof (induction n arbitrary: i w)
  case 0
  then obtain p where p: "paged_server cols rv pages (wr_continue w) = Inr p" "li_columns p = cols" "li_rv p = rv"
    "walked opts pages (Suc i) (absorb_page opts (i = 0) p w)" using walked_step by blast
  let ?w = "absorb_page opts (i = 0) p w"
  have "walk_loop (paged_server cols rv pages) (\<lambda>_. False) opts (Suc 0) i w = Inr ?w"
    using p(1) by (simp add: Let_def)
  moreover have "wr_columns ?w = cols" "wr_rv ?w = rv" using p 0 by (auto simp: absorb_page_def)
  ultimately show ?case using p(4) 0(2) by (intro exI [of _ "Suc i"] exI [of _ ?w]) (simp del: walk_loop.simps)
next
  case (Suc n)
  from walked_step [OF Suc.prems(1,2), of cols rv "i = 0"] obtain p where p: "paged_server cols rv pages (wr_continue w) = Inr p" "li_columns p = cols" "li_rv p = rv"
    "walked opts pages (Suc i) (absorb_page opts (i = 0) p w)" by blast
  let ?w = "absorb_page opts (i = 0) p w"
  have c: "wr_columns ?w = cols" "wr_rv ?w = rv" using p Suc.prems(3) by (auto simp: absorb_page_def)
  have cont: "wr_continue ?w = [] \<longleftrightarrow> \<not> Suc i < length pages" using p(4) by (simp add: walked_def)
  have eq: "walk_loop (paged_server cols rv pages) (\<lambda>_. False) opts (Suc (Suc n)) i w =
      (if wr_continue ?w = [] then Inr ?w else if rows_capped opts ?w then Inr ?w
       else walk_loop (paged_server cols rv pages) (\<lambda>_. False) opts (Suc n) (Suc i) ?w)"
    unfolding walk_loop_page [of "paged_server cols rv pages", OF p(1)] Let_def by (rule refl)
  show ?case
  proof (cases "wr_continue ?w = [] \<or> rows_capped opts ?w")
    case True
    then show ?thesis using eq c p(4) cont Suc.prems(2) by (intro exI [of _ "Suc i"] exI [of _ ?w]) (auto simp del: walk_loop.simps)
  next
    case False
    with cont have "Suc i < length pages" by simp
    from Suc.IH [OF p(4) this] c(1) obtain m w' where
      "walk_loop (paged_server cols rv pages) (\<lambda>_. False) opts (Suc n) (Suc i) ?w = Inr w'"
      "walked opts pages m w'" "Suc i < m" "m \<le> Suc i + Suc n" "m \<le> length pages" "wr_columns w' = cols" "wr_rv w' = rv"
      "m < length pages \<longrightarrow> m = Suc i + Suc n \<or> rows_capped opts w'" by blast
    then show ?thesis using eq False by (intro exI [of _ m] exI [of _ w']) (auto simp del: walk_loop.simps)
  qed
qed

text \<open>
  The bounded walk returns a faithful prefix of the collection: from a server holding it in pages,
  \<^verbatim>\<open>walkTable\<close> fetches the first \<open>m\<close> pages once each and in order, with \<open>m\<close> at most the page cap;
  its rows are exactly the kept rows of those pages, and it stops before the end of the collection
  only at the page cap or once the row cap is reached, and then says it is truncated.
\<close>

theorem walk_returns_prefix:
  "case walkTable (paged_server cols rv (p # ps)) (\<lambda>_. False)
      \<lparr>wo_continue = [], wo_maxPages = Suc n, wo_keep = keep, wo_maxRows = cap\<rparr> of
     Inl e \<Rightarrow> False
   | Inr w \<Rightarrow> \<exists>m. m \<in> {1..min (Suc n) (length (p # ps))} \<and>
       wr_rows w = filter keep (concat (take m (p # ps))) \<and>
       wr_scanned w = length (concat (take m (p # ps))) \<and>
       wr_columns w = cols \<and> wr_rv w = rv \<and>
       wr_truncated w = (m < length (p # ps)) \<and>
       (if m < length (p # ps) then m = Suc n \<or> (case cap of None \<Rightarrow> False | Some c \<Rightarrow> c \<le> length (wr_rows w)) else True)"
proof -
  let ?opts = "\<lparr>wo_continue = [], wo_maxPages = Suc n, wo_keep = keep, wo_maxRows = cap\<rparr>"
  have "walked ?opts (p # ps) 0 (new_walk ?opts)" by (simp add: walked_def new_walk_def)
  from walk_loop_pages [OF this, of cols rv n] obtain m w where
    w: "walk_loop (paged_server cols rv (p # ps)) (\<lambda>_. False) ?opts (Suc n) 0 (new_walk ?opts) = Inr w"
      "walked ?opts (p # ps) m w" "0 < m" "m \<le> Suc n" "m \<le> length (p # ps)" "wr_columns w = cols" "wr_rv w = rv"
      "m < length (p # ps) \<longrightarrow> m = Suc n \<or> rows_capped ?opts w" by auto
  have res: "walkTable (paged_server cols rv (p # ps)) (\<lambda>_. False) ?opts = Inr (w\<lparr>wr_truncated := (wr_continue w \<noteq> [])\<rparr>)"
    unfolding walkTable_def using w(1) by simp
  show ?thesis
    unfolding res sum.case
    by (rule exI [of _ m], cases cap) (use w(2-) in \<open>auto simp: walked_def rows_capped_def\<close>)
qed

end
