(* ===== verification/ResourceList.thy ===== *)
theory ResourceList
  imports KubeApi Interfaces
begin

text \<open>
  \<^verbatim>\<open>web/src/composables/useResourceList.ts\<close> with the watch it drives, \<^verbatim>\<open>web/src/composables/useWatch.ts\<close>. What
  the composables await (the walk over the pages, the watch request, its chunks, the backoff timer)
  settles through operations tagged with the generation they were started under. \<^verbatim>\<open>getRef()\<close>,
  \<^verbatim>\<open>getOptions()\<close> and the session are the environment an operation runs in. \<^verbatim>\<open>JSON.parse\<close> of a watch
  line is a parameter of the operations that read one.
\<close>

section \<open>Watch events\<close>

datatype event_type = ADDED | MODIFIED | DELETED | BOOKMARK

datatype event_object =
    EventTable "table_row list option" "jstring option"
  | EventObject k8s_object

record watch_event =
  we_type :: event_type
  we_object :: event_object

text \<open>A parsed watch line: an \<^verbatim>\<open>ERROR\<close> frame with its code, an event, \<^verbatim>\<open>null\<close>, or a value whose use throws.\<close>

datatype frame =
    FrameError "nat option"
  | FrameData watch_event
  | FrameNull
  | FrameMalformed

definition event_rv :: "watch_event \<Rightarrow> jstring option" where
  "event_rv e = (case we_object e of
     EventTable _ rv \<Rightarrow> rv
   | EventObject obj \<Rightarrow> Option.bind (ko_meta obj) om_rv)"

definition event_rows :: "watch_event \<Rightarrow> table_row list" where
  "event_rows e = (case we_object e of
     EventTable rows _ \<Rightarrow> or_empty rows
   | EventObject obj \<Rightarrow> snd (listToTable [obj]))"

section \<open>The watcher\<close>

definition INITIAL_BACKOFF_MS :: int where "INITIAL_BACKOFF_MS = 1000"
definition MAX_BACKOFF_MS :: int where "MAX_BACKOFF_MS = 30000"

text \<open>Where the live loop of \<^verbatim>\<open>useWatch\<close> stands; \<open>WOver\<close> when none is running.\<close>

datatype watch_phase = WOver | WConnecting | WStreaming jstring | WBackoff

record watcher =
  wt_stopped :: bool
  wt_backoff :: int
  wt_gen :: nat
  wt_phase :: watch_phase
  wt_url :: "jstring option"

definition new_watcher :: watcher where
  "new_watcher = \<lparr>wt_stopped = True, wt_backoff = INITIAL_BACKOFF_MS, wt_gen = 0, wt_phase = WOver, wt_url = None\<rparr>"

definition watch_stop :: "watcher \<Rightarrow> watcher" where
  "watch_stop w = w\<lparr>wt_stopped := True, wt_gen := Suc (wt_gen w), wt_phase := WOver, wt_url := None\<rparr>"

text \<open>The next iteration of the loop, with what \<^verbatim>\<open>buildUrl()\<close> returns.\<close>

definition watch_attempt :: "jstring option \<Rightarrow> watcher \<Rightarrow> watcher" where
  "watch_attempt url w =
     (case url of
        None \<Rightarrow> w\<lparr>wt_phase := WOver, wt_url := None\<rparr>
      | Some u \<Rightarrow> w\<lparr>wt_phase := WConnecting, wt_url := Some u\<rparr>)"

definition watch_start :: "jstring option \<Rightarrow> watcher \<Rightarrow> watcher" where
  "watch_start url w =
     watch_attempt url ((watch_stop w)\<lparr>wt_stopped := False, wt_backoff := INITIAL_BACKOFF_MS, wt_gen := Suc (Suc (wt_gen w))\<rparr>)"

datatype attempt_outcome = OutAborted | OutStale | OutRetry

text \<open>What the loop does with the outcome of one attempt, up to calling \<^verbatim>\<open>onStale\<close>.\<close>

definition watch_outcome :: "attempt_outcome \<Rightarrow> watcher \<Rightarrow> watcher" where
  "watch_outcome r w =
     (case r of
        OutAborted \<Rightarrow> w\<lparr>wt_phase := WOver, wt_url := None\<rparr>
      | OutStale \<Rightarrow> w\<lparr>wt_stopped := True, wt_phase := WOver, wt_url := None\<rparr>
      | OutRetry \<Rightarrow> w\<lparr>wt_phase := WBackoff, wt_url := None\<rparr>)"

definition request_outcome :: "nat option \<Rightarrow> attempt_outcome" where
  "request_outcome status =
     (if status = Some 410 then OutStale else if status = Some 401 then OutAborted else OutRetry)"

text \<open>The complete lines of the buffer: the events to deliver in order, whether the backoff is reset, and the
  outcome if the attempt ends here.\<close>

fun read_lines :: "(jstring \<Rightarrow> frame option) \<Rightarrow> jstring list \<Rightarrow> watch_event list \<times> bool \<times> attempt_outcome option" where
  "read_lines parse [] = ([], False, None)"
| "read_lines parse (l # ls) =
     (if trim l = [] then read_lines parse ls
      else case parse (trim l) of
             None \<Rightarrow> read_lines parse ls
           | Some (FrameError status) \<Rightarrow> ([], False, Some (if status = Some 410 then OutStale else OutRetry))
           | Some FrameNull \<Rightarrow> ([], False, Some OutRetry)
           | Some FrameMalformed \<Rightarrow> ([], True, Some OutRetry)
           | Some (FrameData e) \<Rightarrow> (case read_lines parse ls of (es, _, out) \<Rightarrow> (e # es, True, out)))"

section \<open>The list\<close>

record list_env =
  le_ref :: "resource_ref option"
  le_namespace :: "jstring option"
  le_selector :: "jstring option"
  le_pageSize :: nat
  le_authenticated :: bool

datatype list_load = LoadFirst | LoadNext | LoadSearch

record list_state =
  rl_columns :: "table_column list"
  rl_rows :: "table_row list"
  rl_index :: "(jstring \<times> nat) list"
  rl_loading :: bool
  rl_error :: "thrown option"
  rl_fallback :: bool
  rl_continue :: jstring
  rl_rv :: jstring
  rl_paged :: bool
  rl_degraded :: bool
  rl_gen :: nat
  rl_namespace :: "jstring option"
  rl_selector :: "jstring option"
  rl_search :: "jstring option"
  rl_truncated :: bool
  rl_scanned :: nat
  rl_pending :: "(list_load \<times> walk_options) option"
  rl_watch :: watcher

definition new_list :: list_state where
  "new_list = \<lparr>rl_columns = [], rl_rows = [], rl_index = [], rl_loading = False, rl_error = None, rl_fallback = False,
     rl_continue = [], rl_rv = [], rl_paged = False, rl_degraded = False, rl_gen = 0, rl_namespace = None,
     rl_selector = None, rl_search = None, rl_truncated = False, rl_scanned = 0, rl_pending = None, rl_watch = new_watcher\<rparr>"

definition LIST_CHUNK_SIZE :: nat where "LIST_CHUNK_SIZE = 500"
definition MAX_LIST_PAGES :: nat where "MAX_LIST_PAGES = 10"
definition SEARCH_PAGE_SIZE :: nat where "SEARCH_PAGE_SIZE = 500"
definition MAX_SEARCH_PAGES :: nat where "MAX_SEARCH_PAGES = 20"
definition MAX_SEARCH_MATCHES :: nat where "MAX_SEARCH_MATCHES = 1000"

definition first_cell :: "table_row \<Rightarrow> jstring" where
  "first_cell row = (case tr_cells row of [] \<Rightarrow> [] | c # _ \<Rightarrow> cell_string c)"

definition rowKey :: "table_row \<Rightarrow> jstring" where
  "rowKey row =
     (case Option.bind (tr_meta row) om_uid of
        Some uid \<Rightarrow> uid
      | None \<Rightarrow>
          (case tr_meta row of
             Some m \<Rightarrow> (case om_name m of
                 Some n \<Rightarrow> or_empty (om_namespace m) @ ''/'' @ n
               | None \<Rightarrow> first_cell row)
           | None \<Rightarrow> first_cell row))"

definition index_rows :: "table_row list \<Rightarrow> (jstring \<times> nat) list" where
  "index_rows rows = fold (\<lambda>(i, r) m. AList.update (rowKey r) i m) (enumerate 0 rows) []"

definition setRows :: "table_row list \<Rightarrow> list_state \<Rightarrow> list_state" where
  "setRows next st = st\<lparr>rl_rows := next, rl_index := index_rows next\<rparr>"

definition upsert_row :: "table_row \<Rightarrow> table_row list \<times> (jstring \<times> nat) list \<Rightarrow> table_row list \<times> (jstring \<times> nat) list" where
  "upsert_row row acc =
     (case acc of (next, index) \<Rightarrow>
        case map_of index (rowKey row) of
          Some i \<Rightarrow> (next[i := row], index)
        | None \<Rightarrow> (next @ [row], AList.update (rowKey row) (length next) index))"

definition upsertRows :: "table_row list \<Rightarrow> bool \<Rightarrow> list_state \<Rightarrow> list_state" where
  "upsertRows incoming removed st =
     (if incoming = [] then st
      else if removed then
        setRows (filter (\<lambda>r. rowKey r \<notin> set (map rowKey incoming)) (rl_rows st)) st
      else
        (case fold upsert_row incoming (rl_rows st, rl_index st) of
           (rows, index) \<Rightarrow> st\<lparr>rl_rows := rows, rl_index := index\<rparr>))"

definition note_version :: "jstring option \<Rightarrow> list_state \<Rightarrow> list_state" where
  "note_version rv st = (if given rv then st\<lparr>rl_rv := the rv\<rparr> else st)"

definition handleEvent :: "watch_event \<Rightarrow> list_state \<Rightarrow> list_state" where
  "handleEvent e st =
     (if we_type e = BOOKMARK then note_version (event_rv e) st
      else upsertRows (event_rows e) (we_type e = DELETED) (note_version (event_rv e) st))"

definition buildUrl :: "list_env \<Rightarrow> list_state \<Rightarrow> jstring option" where
  "buildUrl env st =
     (case le_ref env of
        None \<Rightarrow> None
      | Some ref \<Rightarrow>
          if rl_paged st \<or> rl_continue st \<noteq> [] \<or> rl_rv st = [] then None
          else Some (watchUrl ref (rl_namespace st) (rl_rv st) (rl_selector st) None))"

definition stop_watch :: "list_state \<Rightarrow> list_state" where
  "stop_watch st = st\<lparr>rl_watch := watch_stop (rl_watch st)\<rparr>"

text \<open>\<^verbatim>\<open>load\<close> up to its \<^verbatim>\<open>await\<close>, and from there on.\<close>

definition begin_load :: "list_load \<Rightarrow> jstring \<Rightarrow> list_env \<Rightarrow> list_state \<Rightarrow> list_state" where
  "begin_load kind from env st0 =
     (let st = st0\<lparr>rl_gen := Suc (rl_gen st0), rl_pending := None\<rparr>
      in if le_ref env = None then st
         else (setRows [] (st\<lparr>rl_namespace := le_namespace env, rl_selector := le_selector env, rl_loading := True,
                 rl_error := None,
                 rl_pending := Some (kind, \<lparr>wo_continue = from, wo_maxPages = MAX_LIST_PAGES, wo_keep = \<lambda>_. True, wo_maxRows = None\<rparr>)\<rparr>))
              \<lparr>rl_columns := []\<rparr>)"

definition load_settles :: "thrown + walk_result \<Rightarrow> list_state \<Rightarrow> list_state" where
  "load_settles r st0 =
     (let st = st0\<lparr>rl_loading := False, rl_pending := None\<rparr>
      in case r of
           Inr w \<Rightarrow> (setRows (wr_rows w) (st\<lparr>rl_columns := wr_columns w, rl_fallback := wr_fallback w\<rparr>))
                      \<lparr>rl_rv := wr_rv w, rl_continue := wr_continue w\<rparr>
         | Inl e \<Rightarrow> (setRows [] (st\<lparr>rl_error := Some (asApiError e)\<rparr>))\<lparr>rl_columns := []\<rparr>)"

text \<open>\<^verbatim>\<open>refresh\<close> after \<^verbatim>\<open>load\<close> has returned.\<close>

definition after_refresh :: "list_env \<Rightarrow> list_state \<Rightarrow> list_state" where
  "after_refresh env st =
     (if rl_error st = None \<and> rl_rv st \<noteq> [] \<and> rl_continue st = [] then
        (let st' = st\<lparr>rl_degraded := False\<rparr>
         in st'\<lparr>rl_watch := watch_start (buildUrl env st') (rl_watch st')\<rparr>)
      else st\<lparr>rl_degraded := True\<rparr>)"

definition refresh :: "list_env \<Rightarrow> list_state \<Rightarrow> list_state" where
  "refresh env st =
     (let st1 = begin_load LoadFirst [] env (stop_watch (st\<lparr>rl_paged := False, rl_search := None, rl_truncated := False\<rparr>))
      in if le_ref env = None then after_refresh env st1 else st1)"

definition nextPage :: "list_env \<Rightarrow> list_state \<Rightarrow> list_state" where
  "nextPage env st =
     (if rl_continue st = [] then st
      else begin_load LoadNext (rl_continue st) env (stop_watch (st\<lparr>rl_paged := True, rl_degraded := True\<rparr>)))"

definition rowName :: "table_row \<Rightarrow> jstring" where
  "rowName row = (case Option.bind (tr_meta row) om_name of Some n \<Rightarrow> n | None \<Rightarrow> first_cell row)"

definition searchAllByName :: "jstring \<Rightarrow> list_env \<Rightarrow> list_state \<Rightarrow> list_state" where
  "searchAllByName query env st =
     (let q = to_lower (trim query)
      in if q = [] then refresh env st
         else if rl_rv st \<noteq> [] \<and> rl_continue st = [] \<and> \<not> rl_paged st then st
         else if le_ref env = None then st
         else setRows [] ((stop_watch st)\<lparr>rl_gen := Suc (rl_gen st), rl_paged := True, rl_degraded := True,
                rl_loading := True, rl_error := None, rl_search := Some (trim query), rl_truncated := False, rl_scanned := 0,
                rl_pending := Some (LoadSearch,
                  \<lparr>wo_continue = [], wo_maxPages = MAX_SEARCH_PAGES,
                   wo_keep = \<lambda>row. str_includes q (to_lower (rowName row)), wo_maxRows = Some MAX_SEARCH_MATCHES\<rparr>)\<rparr>))"

definition search_settles :: "thrown + walk_result \<Rightarrow> list_state \<Rightarrow> list_state" where
  "search_settles r st0 =
     (let st = st0\<lparr>rl_loading := False, rl_pending := None\<rparr>
      in case r of
           Inr w \<Rightarrow> (setRows (wr_rows w) (st\<lparr>rl_columns := wr_columns w, rl_fallback := wr_fallback w,
                        rl_truncated := wr_truncated w, rl_scanned := wr_scanned w\<rparr>))
                      \<lparr>rl_continue := [], rl_rv := []\<rparr>
         | Inl e \<Rightarrow> setRows [] (st\<lparr>rl_error := Some (asApiError e)\<rparr>))"

text \<open>A walk returns; the server it talked to is the function it fetched its pages with.\<close>

type_synonym server = "jstring \<Rightarrow> thrown + list_result"

definition settle_load :: "nat \<Rightarrow> list_env \<times> server \<Rightarrow> list_state \<Rightarrow> list_state" where
  "settle_load g answer st =
     (if g \<noteq> rl_gen st then st
      else case rl_pending st of
             None \<Rightarrow> st
           | Some (kind, opts) \<Rightarrow>
               let r = walkTable (snd answer) (\<lambda>_. False) opts
               in case kind of
                    LoadFirst \<Rightarrow> after_refresh (fst answer) (load_settles r st)
                  | LoadNext \<Rightarrow> load_settles r st
                  | LoadSearch \<Rightarrow> search_settles r st)"

definition context_switched :: "list_env \<Rightarrow> list_state \<Rightarrow> list_state" where
  "context_switched env st =
     (let st' = stop_watch st in if le_authenticated env then refresh env st' else st')"

section \<open>The watch of the list\<close>

datatype watch_response =
    WatchOpened bool
  | WatchRefused "nat option"
  | WatchChunk jstring
  | WatchEnded
  | BackoffOver

definition end_attempt :: "attempt_outcome \<Rightarrow> list_env \<Rightarrow> list_state \<Rightarrow> list_state" where
  "end_attempt r env st =
     (let st' = st\<lparr>rl_watch := watch_outcome r (rl_watch st)\<rparr> in if r = OutStale then refresh env st' else st')"

text \<open>A chunk: its complete lines are read, the events before an ending frame are delivered.\<close>

definition deliver_chunk :: "(jstring \<Rightarrow> frame option) \<Rightarrow> jstring \<Rightarrow> jstring \<Rightarrow> list_env \<Rightarrow> list_state \<Rightarrow> list_state" where
  "deliver_chunk parse carry chunk env st =
     (let parts = split_on (char_of (10 :: nat)) (carry @ chunk);
          (es, reset, out) = read_lines parse (butlast parts);
          st1 = fold handleEvent es st;
          w = (rl_watch st1)\<lparr>wt_phase := WStreaming (last parts),
                 wt_backoff := (if reset then INITIAL_BACKOFF_MS else wt_backoff (rl_watch st1))\<rparr>;
          st2 = st1\<lparr>rl_watch := w\<rparr>
      in case out of None \<Rightarrow> st2 | Some r \<Rightarrow> end_attempt r env st2)"

definition settle_watch :: "(jstring \<Rightarrow> frame option) \<Rightarrow> nat \<Rightarrow> watch_response \<Rightarrow> list_env \<Rightarrow> list_state \<Rightarrow> list_state" where
  "settle_watch parse g r env st =
     (if g \<noteq> wt_gen (rl_watch st) then st
      else case (r, wt_phase (rl_watch st)) of
             (WatchOpened has_body, WConnecting) \<Rightarrow>
               if has_body then st\<lparr>rl_watch := (rl_watch st)\<lparr>wt_phase := WStreaming []\<rparr>\<rparr>
               else end_attempt OutRetry env st
           | (WatchRefused status, WConnecting) \<Rightarrow> end_attempt (request_outcome status) env st
           | (WatchChunk t, WStreaming carry) \<Rightarrow> deliver_chunk parse carry t env st
           | (WatchEnded, WStreaming _) \<Rightarrow> end_attempt OutRetry env st
           | (BackoffOver, WBackoff) \<Rightarrow>
               st\<lparr>rl_watch := watch_attempt (buildUrl env st)
                    ((rl_watch st)\<lparr>wt_backoff := min (wt_backoff (rl_watch st) * 2) MAX_BACKOFF_MS\<rparr>)\<rparr>
           | _ \<Rightarrow> st)"

section \<open>The index over the rows\<close>

definition index_ok :: "table_row list \<Rightarrow> (jstring \<times> nat) list \<Rightarrow> bool" where
  "index_ok rows index \<longleftrightarrow>
     (\<forall>k i. map_of index k = Some i \<longrightarrow> i < length rows \<and> rowKey (rows ! i) = k) \<and>
     (\<forall>r \<in> set rows. map_of index (rowKey r) \<noteq> None)"

lemma index_ok_append:
  assumes "index_ok rows index"
  shows "index_ok (rows @ [r]) (AList.update (rowKey r) (length rows) index)"
proof -
  have "i < length (rows @ [r]) \<and> rowKey ((rows @ [r]) ! i) = k"
    if "map_of (AList.update (rowKey r) (length rows) index) k = Some i" for k i
  proof (cases "k = rowKey r")
    case True
    then show ?thesis using that by (auto simp: update_conv')
  next
    case False
    then have "i < length rows \<and> rowKey (rows ! i) = k" using that assms by (simp add: update_conv' index_ok_def)
    then show ?thesis by (simp add: nth_append)
  qed
  moreover have "map_of (AList.update (rowKey r) (length rows) index) (rowKey x) \<noteq> None" if "x \<in> set (rows @ [r])" for x
    using that assms by (auto simp: update_conv' index_ok_def)
  ultimately show ?thesis unfolding index_ok_def by blast
qed

lemma index_rows_ok: "index_ok rows (index_rows rows)"
proof (induction rows rule: rev_induct)
  case (snoc r rows)
  then show ?case
    using index_ok_append [of rows "index_rows rows" r] by (simp add: index_rows_def enumerate_append_eq)
qed (simp add: index_ok_def index_rows_def)

lemma upsert_row_ok: "index_ok rows index \<Longrightarrow> index_ok (fst (upsert_row r (rows, index))) (snd (upsert_row r (rows, index)))"
proof (cases "map_of index (rowKey r)")
  case None
  assume "index_ok rows index"
  with None index_ok_append [of rows index r] show ?thesis by (simp add: upsert_row_def)
next
  case (Some i)
  assume ok: "index_ok rows index"
  have key: "rowKey (rows[i := r] ! j) = rowKey (rows ! j)" for j
    using ok Some by (cases "i = j"; cases "j < length rows") (auto simp: index_ok_def)
  have "set (rows[i := r]) \<subseteq> insert r (set rows)" by (rule set_update_subset_insert)
  then show ?thesis using ok Some key by (auto simp: upsert_row_def index_ok_def)
qed

lemma upsert_rows_ok:
  "index_ok rows index \<Longrightarrow> index_ok (fst (fold upsert_row rs (rows, index))) (snd (fold upsert_row rs (rows, index)))"
proof (induction rs arbitrary: rows index)
  case (Cons r rs)
  then show ?case using upsert_row_ok [of rows index r] by (cases "upsert_row r (rows, index)") auto
qed simp

text \<open>The rows as the keyed map they stand for.\<close>

definition row_map :: "table_row list \<Rightarrow> (jstring \<times> table_row) list" where
  "row_map rows = map (\<lambda>r. (rowKey r, r)) rows"

lemma keys_row_map [simp]: "keys (row_map rows) = map rowKey rows"
  by (simp add: row_map_def comp_def)

lemma update_at:
  "distinct (keys m) \<Longrightarrow> i < length m \<Longrightarrow> fst (m ! i) = k \<Longrightarrow> AList.update k v m = m[i := (k, v)]"
proof (induction m arbitrary: i)
  case (Cons p m)
  show ?case
  proof (cases i)
    case 0
    with Cons.prems show ?thesis by (cases p) auto
  next
    case (Suc j)
    then have "k \<in> set (keys m)" using Cons.prems(2,3) by (metis Suc_less_eq length_Cons length_map nth_Cons_Suc nth_map nth_mem)
    then have "fst p \<noteq> k" using Cons.prems(1) by auto
    then show ?thesis using Cons Suc by (cases p) auto
  qed
qed simp

lemma update_new: "k \<notin> set (keys m) \<Longrightarrow> AList.update k v m = m @ [(k, v)]"
  by (induction m) auto

lemma upsert_row_map:
  assumes "index_ok rows index" "distinct (map rowKey rows)"
  shows "row_map (fst (upsert_row r (rows, index))) = AList.update (rowKey r) r (row_map rows)"
proof (cases "map_of index (rowKey r)")
  case None
  then have "rowKey r \<notin> set (map rowKey rows)" using assms(1) by (auto simp: index_ok_def)
  with None show ?thesis by (simp add: upsert_row_def row_map_def update_new comp_def)
next
  case (Some i)
  then have "i < length rows" "rowKey (rows ! i) = rowKey r" using assms(1) by (auto simp: index_ok_def)
  with Some assms(2) show ?thesis
    by (simp add: upsert_row_def row_map_def update_at map_update comp_def)
qed

lemma upsert_rows_map:
  "index_ok rows index \<Longrightarrow> distinct (map rowKey rows) \<Longrightarrow>
   row_map (fst (fold upsert_row rs (rows, index))) = fold (\<lambda>r. AList.update (rowKey r) r) rs (row_map rows) \<and>
   distinct (map rowKey (fst (fold upsert_row rs (rows, index))))"
proof (induction rs arbitrary: rows index)
  case (Cons r rs)
  obtain rows' index' where u: "upsert_row r (rows, index) = (rows', index')" by fastforce
  have m: "row_map rows' = AList.update (rowKey r) r (row_map rows)"
    using upsert_row_map [OF Cons.prems, of r] u by simp
  then have "map rowKey rows' = keys (AList.update (rowKey r) r (row_map rows))" by (metis keys_row_map)
  moreover have "distinct (keys (AList.update (rowKey r) r (row_map rows)))"
    using Cons.prems(2) by (simp add: distinct_update del: map_map)
  ultimately have "distinct (map rowKey rows')" by (simp only:)
  then show ?case using Cons.IH [of rows' index'] upsert_row_ok [OF Cons.prems(1), of r] u m by simp
qed simp

definition abs_event :: "watch_event \<Rightarrow> (jstring \<times> table_row) list \<Rightarrow> (jstring \<times> table_row) list" where
  "abs_event e m =
     (if we_type e = BOOKMARK then m
      else if we_type e = DELETED then filter (\<lambda>(k, r). k \<notin> rowKey ` set (event_rows e)) m
      else fold (\<lambda>r. AList.update (rowKey r) r) (event_rows e) m)"

definition rows_ok :: "list_state \<Rightarrow> bool" where
  "rows_ok st \<longleftrightarrow> index_ok (rl_rows st) (rl_index st) \<and> distinct (map rowKey (rl_rows st))"

lemma note_version_fields [simp]:
  "rl_rows (note_version rv st) = rl_rows st" "rl_index (note_version rv st) = rl_index st"
  "rl_paged (note_version rv st) = rl_paged st" "rl_continue (note_version rv st) = rl_continue st"
  "rl_degraded (note_version rv st) = rl_degraded st" "rl_pending (note_version rv st) = rl_pending st"
  "rl_error (note_version rv st) = rl_error st" "rl_watch (note_version rv st) = rl_watch st"
  "rl_gen (note_version rv st) = rl_gen st"
  by (simp_all add: note_version_def)

lemma setRows_fields [simp]:
  "rl_rows (setRows rows st) = rows" "rl_index (setRows rows st) = index_rows rows"
  "rl_paged (setRows rows st) = rl_paged st" "rl_continue (setRows rows st) = rl_continue st"
  "rl_degraded (setRows rows st) = rl_degraded st" "rl_pending (setRows rows st) = rl_pending st"
  "rl_error (setRows rows st) = rl_error st" "rl_watch (setRows rows st) = rl_watch st" "rl_rv (setRows rows st) = rl_rv st"
  "rl_gen (setRows rows st) = rl_gen st" "rl_loading (setRows rows st) = rl_loading st"
  by (simp_all add: setRows_def)

lemma handleEvent_map:
  assumes "rows_ok st"
  shows "rows_ok (handleEvent e st) \<and> row_map (rl_rows (handleEvent e st)) = abs_event e (row_map (rl_rows st))"
proof -
  have filt: "row_map (filter (\<lambda>r. P (rowKey r)) rows) = filter (\<lambda>(k, r). P k) (row_map rows)" for P rows
    by (induction rows) (auto simp: row_map_def)
  have dist: "distinct (map rowKey (filter P (rl_rows st)))" for P
    using assms by (simp add: rows_ok_def distinct_map_filter)
  let ?up = "fold upsert_row (event_rows e) (rl_rows st, rl_index st)"
  have up: "index_ok (fst ?up) (snd ?up)" "distinct (map rowKey (fst ?up))"
    "row_map (fst ?up) = fold (\<lambda>r. AList.update (rowKey r) r) (event_rows e) (row_map (rl_rows st))"
    using upsert_rows_ok [of "rl_rows st" "rl_index st" "event_rows e"] upsert_rows_map [of "rl_rows st" "rl_index st" "event_rows e"] assms
    by (simp_all add: rows_ok_def)
  consider (bookmark) "we_type e = BOOKMARK" | (empty) "we_type e \<noteq> BOOKMARK" "event_rows e = []"
    | (deleted) "we_type e = DELETED" "event_rows e \<noteq> []" | (upsert) "we_type e \<noteq> BOOKMARK" "we_type e \<noteq> DELETED" "event_rows e \<noteq> []"
    by blast
  then show ?thesis
  proof cases
    case bookmark
    then show ?thesis using assms by (simp add: handleEvent_def abs_event_def rows_ok_def)
  next
    case empty
    then have "handleEvent e st = note_version (event_rv e) st" by (simp add: handleEvent_def upsertRows_def)
    then show ?thesis using empty assms by (auto simp: abs_event_def rows_ok_def case_prod_beta)
  next
    case deleted
    then show ?thesis using filt [of "\<lambda>k. k \<notin> rowKey ` set (event_rows e)" "rl_rows st"] dist
      by (simp add: handleEvent_def upsertRows_def abs_event_def rows_ok_def index_rows_ok)
  next
    case upsert
    then show ?thesis using up
      by (simp add: handleEvent_def upsertRows_def abs_event_def rows_ok_def case_prod_beta)
  qed
qed

text \<open>
  C1. The live table is the collection the watch describes: starting from rows with distinct keys, after any
  sequence of watch events (Table or plain objects, additions, modifications, deletions, bookmarks)
  the rows are exactly those of the keyed map the events build one after the other, in the same
  order, with distinct keys; the incremental index never sends an event to another object's row.
\<close>

theorem watch_refines_keyed_map:
  assumes "distinct (map rowKey rows)"
  shows "let st' = fold handleEvent es (setRows rows st) in
    row_map (rl_rows st') = fold abs_event es (row_map rows) \<and> distinct (map rowKey (rl_rows st')) \<and>
    index_ok (rl_rows st') (rl_index st')"
proof -
  have "rows_ok s \<Longrightarrow> rows_ok (fold handleEvent es s) \<and> row_map (rl_rows (fold handleEvent es s)) = fold abs_event es (row_map (rl_rows s))" for s
  proof (induction es arbitrary: s)
    case (Cons e es)
    then show ?case using handleEvent_map [of s e] by simp
  qed simp
  from this [of "setRows rows st"] assms show ?thesis by (simp add: Let_def rows_ok_def index_rows_ok)
qed

definition named_row :: "jstring \<Rightarrow> int \<Rightarrow> table_row" where
  "named_row n v = \<lparr>tr_cells = [CStr n, CNum v], tr_meta = None\<rparr>"

theorem watch_refines_keyed_map_witness:
  "row_map (rl_rows (fold handleEvent
      [\<lparr>we_type = MODIFIED, we_object = EventTable (Some [named_row ''a'' 2]) None\<rparr>,
       \<lparr>we_type = DELETED, we_object = EventTable (Some [named_row ''b'' 1]) None\<rparr>]
      (setRows [named_row ''a'' 1, named_row ''b'' 1] new_list)))
   = [(''a'', named_row ''a'' 2)]"
proof -
  have d: "distinct (map rowKey [named_row ''a'' 1, named_row ''b'' 1])"
    by (simp add: rowKey_def named_row_def first_cell_def cell_string_def)
  show ?thesis
    using watch_refines_keyed_map [OF d, of "[\<lparr>we_type = MODIFIED, we_object = EventTable (Some [named_row ''a'' 2]) None\<rparr>,
       \<lparr>we_type = DELETED, we_object = EventTable (Some [named_row ''b'' 1]) None\<rparr>]" new_list]
    by (simp add: Let_def abs_event_def event_rows_def or_empty_def row_map_def rowKey_def named_row_def first_cell_def cell_string_def)
qed

section \<open>Runs\<close>

datatype list_event =
    ListRefresh list_env
  | ListNext list_env
  | ListSearch jstring list_env
  | ListContext list_env
  | ListLoaded nat list_env server
  | ListWatch nat watch_response list_env
  | ListStopWatch

fun list_step :: "(jstring \<Rightarrow> frame option) \<Rightarrow> list_event \<Rightarrow> list_state \<Rightarrow> list_state" where
  "list_step parse (ListRefresh env) st = refresh env st"
| "list_step parse (ListNext env) st = nextPage env st"
| "list_step parse (ListSearch q env) st = searchAllByName q env st"
| "list_step parse (ListContext env) st = context_switched env st"
| "list_step parse (ListLoaded g env server) st = settle_load g (env, server) st"
| "list_step parse (ListWatch g r env) st = settle_watch parse g r env st"
| "list_step parse ListStopWatch st = stop_watch st"

section \<open>Generations\<close>

abbreviation watch_gen :: "list_state \<Rightarrow> nat" where
  "watch_gen st \<equiv> wt_gen (rl_watch st)"

lemma handleEvent_gen [simp]: "rl_gen (handleEvent e st) = rl_gen st" "rl_watch (handleEvent e st) = rl_watch st"
  by (auto simp: handleEvent_def upsertRows_def split: prod.splits)

lemma handleEvents_gen [simp]:
  "rl_gen (fold handleEvent es st) = rl_gen st" "rl_watch (fold handleEvent es st) = rl_watch st"
  by (induction es arbitrary: st) simp_all

lemma watch_gens [simp]:
  "wt_gen (watch_stop w) = Suc (wt_gen w)" "wt_gen (watch_attempt u w) = wt_gen w"
  "wt_gen (watch_start u w) = Suc (Suc (wt_gen w))" "wt_gen (watch_outcome r w) = wt_gen w"
  by (simp_all add: watch_stop_def watch_attempt_def watch_start_def watch_outcome_def split: option.splits attempt_outcome.splits)

lemma begin_load_gens [simp]:
  "rl_gen (begin_load k c env st) = Suc (rl_gen st)" "rl_watch (begin_load k c env st) = rl_watch st"
  by (simp_all add: begin_load_def Let_def)

lemma after_refresh_gens [simp]: "rl_gen (after_refresh env st) = rl_gen st"
  by (simp add: after_refresh_def Let_def)

lemma after_refresh_watch_gen: "watch_gen st \<le> watch_gen (after_refresh env st)"
  by (simp add: after_refresh_def Let_def)

lemma stop_watch_fields [simp]:
  "rl_gen (stop_watch st) = rl_gen st" "rl_watch (stop_watch st) = watch_stop (rl_watch st)"
  by (simp_all add: stop_watch_def)

lemma refresh_gens: "rl_gen (refresh env st) = Suc (rl_gen st)" "watch_gen st < watch_gen (refresh env st)"
proof -
  show "rl_gen (refresh env st) = Suc (rl_gen st)" by (simp add: refresh_def Let_def)
  let ?st = "begin_load LoadFirst [] env (stop_watch (st\<lparr>rl_paged := False, rl_search := None, rl_truncated := False\<rparr>))"
  have "watch_gen ?st = Suc (watch_gen st)" by simp
  then show "watch_gen st < watch_gen (refresh env st)"
    using after_refresh_watch_gen [of ?st env] by (simp add: refresh_def Let_def del: begin_load_gens)
qed

lemma load_settles_gens [simp]:
  "rl_gen (load_settles r st) = rl_gen st" "rl_watch (load_settles r st) = rl_watch st"
  "rl_gen (search_settles r st) = rl_gen st" "rl_watch (search_settles r st) = rl_watch st"
  by (cases r; simp add: load_settles_def search_settles_def Let_def)+

lemma settle_load_gens: "rl_gen (settle_load g a st) = rl_gen st" "watch_gen st \<le> watch_gen (settle_load g a st)"
  using after_refresh_watch_gen [of "load_settles r st" for r]
  by (auto simp: settle_load_def Let_def split: option.splits list_load.splits)

lemma end_attempt_gens: "rl_gen st \<le> rl_gen (end_attempt r env st)" "watch_gen st \<le> watch_gen (end_attempt r env st)"
  using refresh_gens [where env = env and st = "st\<lparr>rl_watch := watch_outcome r (rl_watch st)\<rparr>"]
  by (auto simp: end_attempt_def Let_def)

lemma deliver_gens:
  "rl_gen st \<le> rl_gen (deliver_chunk parse carry t env st)" "watch_gen st \<le> watch_gen (deliver_chunk parse carry t env st)"
proof -
  let ?parts = "split_on (char_of (10 :: nat)) (carry @ t)"
  obtain es rs out where r: "read_lines parse (butlast ?parts) = (es, rs, out)" using prod_cases3 by blast
  let ?s = "(fold handleEvent es st)\<lparr>rl_watch := (rl_watch (fold handleEvent es st))\<lparr>wt_phase := WStreaming (last ?parts),
      wt_backoff := (if rs then INITIAL_BACKOFF_MS else wt_backoff (rl_watch (fold handleEvent es st)))\<rparr>\<rparr>"
  have eq: "deliver_chunk parse carry t env st = (case out of None \<Rightarrow> ?s | Some r \<Rightarrow> end_attempt r env ?s)"
    unfolding deliver_chunk_def Let_def r prod.case by (rule refl)
  have "rl_gen ?s = rl_gen st" "watch_gen ?s = watch_gen st" by simp_all
  then show "rl_gen st \<le> rl_gen (deliver_chunk parse carry t env st)" "watch_gen st \<le> watch_gen (deliver_chunk parse carry t env st)"
    unfolding eq using end_attempt_gens [of ?s] by (auto split: option.splits)
qed

lemma settle_watch_gens:
  "rl_gen st \<le> rl_gen (settle_watch parse g r env st)" "watch_gen st \<le> watch_gen (settle_watch parse g r env st)"
  using deliver_gens [of st parse] end_attempt_gens [of st]
  by (cases r; cases "wt_phase (rl_watch st)"; simp add: settle_watch_def)+

lemma list_step_gens:
  "rl_gen st \<le> rl_gen (list_step parse e st) \<and> watch_gen st \<le> watch_gen (list_step parse e st)"
proof (cases e)
  case (ListRefresh env)
  then show ?thesis using refresh_gens [where env = env and st = st] by simp
next
  case (ListNext env)
  then show ?thesis by (simp add: nextPage_def)
next
  case (ListSearch q env)
  then show ?thesis using refresh_gens [where env = env and st = st] by (simp add: searchAllByName_def Let_def)
next
  case (ListContext env)
  then show ?thesis using refresh_gens [where env = env and st = "stop_watch st"] by (simp add: context_switched_def Let_def)
next
  case (ListLoaded g env server)
  then show ?thesis using settle_load_gens [where g = g and a = "(env, server)" and st = st] by simp
next
  case (ListWatch g r env)
  then show ?thesis using settle_watch_gens [where st = st and parse = parse and g = g and r = r and env = env] by simp
qed simp

interpretation load_guard: generation_guard rl_gen refresh settle_load "list_step parse" for parse
  by unfold_locales (simp_all add: refresh_gens settle_load_gens list_step_gens, simp add: settle_load_def)

interpretation watch_guard: generation_guard watch_gen refresh "\<lambda>g (r, env). settle_watch parse g r env" "list_step parse" for parse
  by unfold_locales (auto simp: refresh_gens settle_watch_gens list_step_gens, simp add: settle_watch_def)

lemma run_as_others:
  "fold (list_step parse) es = fold (load_guard.guard_step parse) (map Other es)"
  "fold (list_step parse) es = fold (watch_guard.guard_step parse) (map Other es)"
  by (induction es) (simp_all add: fun_eq_iff)

text \<open>
  What an older request still delivers changes nothing: once a \<^verbatim>\<open>refresh\<close> has happened (by the user, a
  context switch or a stale watch) neither the walk of an earlier load nor anything from an earlier
  watch stream (its opening, its refusal, a chunk read concurrently, its end, its backoff timer) alters
  the list, whatever happened in between.
\<close>

theorem superseded_list_responses_ignored:
  "let st' = fold (list_step parse) es (refresh env st) in
   settle_load (rl_gen st) answer st' = st' \<and> settle_watch parse (watch_gen st) r env' st' = st'"
  using load_guard.superseded_dropped [of "rl_gen st" st answer parse "map Other es" env]
    watch_guard.superseded_dropped [of "watch_gen st" st parse "(r, env')" "map Other es" env]
  by (simp add: Let_def run_as_others(1) [symmetric] run_as_others(2) [symmetric])

section \<open>Only complete collections are watched\<close>

definition live_inv :: "list_state \<Rightarrow> bool" where
  "live_inv st \<longleftrightarrow> index_ok (rl_rows st) (rl_index st) \<and>
     INITIAL_BACKOFF_MS \<le> wt_backoff (rl_watch st) \<and> wt_backoff (rl_watch st) \<le> MAX_BACKOFF_MS \<and>
     (if wt_phase (rl_watch st) = WOver then True
      else \<not> wt_stopped (rl_watch st) \<and> \<not> rl_paged st \<and> rl_continue st = [] \<and> rl_rv st \<noteq> [] \<and> \<not> rl_degraded st \<and>
           rl_error st = None \<and> rl_pending st = None)"

lemma handleEvent_live:
  "live_inv st \<Longrightarrow> live_inv (handleEvent e st)"
proof -
  assume inv: "live_inv st"
  obtain rows index where up: "fold upsert_row (event_rows e) (rl_rows st, rl_index st) = (rows, index)" by fastforce
  then have ok: "index_ok rows index" using inv upsert_rows_ok [of "rl_rows st" "rl_index st" "event_rows e"] by (simp add: live_inv_def)
  have rv: "rl_rv st \<noteq> [] \<Longrightarrow> rl_rv (note_version v st) \<noteq> []" for v by (auto simp: note_version_def given_def)
  show ?thesis
    using inv up ok rv by (auto simp: handleEvent_def upsertRows_def live_inv_def index_rows_ok)
qed

lemma handleEvents_live: "live_inv st \<Longrightarrow> live_inv (fold handleEvent es st)"
  by (induction es arbitrary: st) (auto simp: handleEvent_live)

text \<open>A state whose watch is over, under any view of the rest.\<close>

definition idle_inv :: "list_state \<Rightarrow> bool" where
  "idle_inv st \<longleftrightarrow> index_ok (rl_rows st) (rl_index st) \<and> wt_phase (rl_watch st) = WOver \<and>
     INITIAL_BACKOFF_MS \<le> wt_backoff (rl_watch st) \<and> wt_backoff (rl_watch st) \<le> MAX_BACKOFF_MS"

lemma idle_live: "idle_inv st \<Longrightarrow> live_inv st"
  by (simp add: idle_inv_def live_inv_def)

lemma idle_stop: "live_inv st \<Longrightarrow> idle_inv (stop_watch st)"
  by (simp add: live_inv_def idle_inv_def stop_watch_def watch_stop_def)

lemma idle_cong:
  "rl_rows st' = rl_rows st \<Longrightarrow> rl_index st' = rl_index st \<Longrightarrow> rl_watch st' = rl_watch st \<Longrightarrow> idle_inv st' = idle_inv st"
  by (simp add: idle_inv_def)

lemma idle_begin: "idle_inv st \<Longrightarrow> idle_inv (begin_load k c env st)"
  by (auto simp: begin_load_def Let_def idle_inv_def index_rows_ok)

lemma after_refresh_live: "idle_inv st \<Longrightarrow> rl_pending st = None \<Longrightarrow> \<not> rl_paged st \<Longrightarrow> live_inv (after_refresh env st)"
proof (cases "rl_error st = None \<and> rl_rv st \<noteq> [] \<and> rl_continue st = []")
  case True
  assume "idle_inv st" "rl_pending st = None" "\<not> rl_paged st"
  with True show ?thesis
    by (simp add: after_refresh_def Let_def live_inv_def idle_inv_def watch_start_def watch_attempt_def
      INITIAL_BACKOFF_MS_def MAX_BACKOFF_MS_def split: option.splits)
next
  case False
  assume "idle_inv st"
  with False show ?thesis by (auto simp: after_refresh_def Let_def live_inv_def idle_inv_def)
qed

lemma refresh_live: "live_inv st \<Longrightarrow> live_inv (refresh env st)"
proof -
  assume inv: "live_inv st"
  let ?s = "st\<lparr>rl_paged := False, rl_search := None, rl_truncated := False\<rparr>"
  have idle: "idle_inv (begin_load LoadFirst [] env (stop_watch ?s))"
    using idle_stop [OF inv] idle_cong [of "stop_watch ?s" "stop_watch st"]
    by (intro idle_begin) (simp add: stop_watch_def)
  have "le_ref env = None \<Longrightarrow> live_inv (after_refresh env (begin_load LoadFirst [] env (stop_watch ?s)))"
    by (rule after_refresh_live [OF idle]) (simp_all add: begin_load_def Let_def stop_watch_def)
  with idle show ?thesis by (simp add: refresh_def Let_def idle_live)
qed

lemma end_attempt_live: "live_inv st \<Longrightarrow> wt_phase (rl_watch st) \<noteq> WOver \<Longrightarrow> live_inv (end_attempt r env st)"
proof -
  assume inv: "live_inv st" "wt_phase (rl_watch st) \<noteq> WOver"
  then have "live_inv (st\<lparr>rl_watch := watch_outcome r (rl_watch st)\<rparr>)"
    by (cases r) (simp_all add: live_inv_def watch_outcome_def)
  then show ?thesis using refresh_live by (auto simp: end_attempt_def Let_def)
qed

lemma deliver_live:
  assumes inv: "live_inv st" "wt_phase (rl_watch st) \<noteq> WOver"
  shows "live_inv (deliver_chunk parse carry t env st)"
proof -
  let ?parts = "split_on (char_of (10 :: nat)) (carry @ t)"
  obtain es rs out where r: "read_lines parse (butlast ?parts) = (es, rs, out)" using prod_cases3 by blast
  define f where "f = fold handleEvent es st"
  define s2 where "s2 = f\<lparr>rl_watch := (rl_watch f)\<lparr>wt_phase := WStreaming (last ?parts),
      wt_backoff := (if rs then INITIAL_BACKOFF_MS else wt_backoff (rl_watch f))\<rparr>\<rparr>"
  have eq: "deliver_chunk parse carry t env st = (case out of None \<Rightarrow> s2 | Some r \<Rightarrow> end_attempt r env s2)"
    unfolding deliver_chunk_def Let_def r prod.case s2_def f_def by (rule refl)
  have "live_inv f" "wt_phase (rl_watch f) \<noteq> WOver" using inv by (simp_all add: f_def handleEvents_live)
  then have "live_inv s2" "wt_phase (rl_watch s2) \<noteq> WOver"
    by (auto simp: s2_def live_inv_def INITIAL_BACKOFF_MS_def MAX_BACKOFF_MS_def)
  then show ?thesis unfolding eq using end_attempt_live by (cases out) simp_all
qed

lemma settle_watch_live: "live_inv st \<Longrightarrow> live_inv (settle_watch parse g r env st)"
proof -
  assume inv: "live_inv st"
  have open_ok: "live_inv (st\<lparr>rl_watch := (rl_watch st)\<lparr>wt_phase := WStreaming []\<rparr>\<rparr>)" if "wt_phase (rl_watch st) = WConnecting"
    using inv that by (simp add: live_inv_def)
  have again: "live_inv (st\<lparr>rl_watch := watch_attempt (buildUrl env st) ((rl_watch st)\<lparr>wt_backoff := min (wt_backoff (rl_watch st) * 2) MAX_BACKOFF_MS\<rparr>)\<rparr>)"
    if "wt_phase (rl_watch st) = WBackoff"
    using inv that
    by (cases "buildUrl env st") (auto simp: live_inv_def watch_attempt_def INITIAL_BACKOFF_MS_def MAX_BACKOFF_MS_def min_def)
  show ?thesis
    using inv open_ok again end_attempt_live [OF inv] deliver_live [OF inv]
    by (cases r; cases "wt_phase (rl_watch st)") (simp_all add: settle_watch_def)
qed

lemma settle_load_live: "live_inv st \<Longrightarrow> \<not> (\<exists>k opts. rl_pending st = Some (k, opts)) \<or> idle_inv st \<and>
     (\<forall>opts. rl_pending st = Some (LoadFirst, opts) \<longrightarrow> \<not> rl_paged st) \<Longrightarrow> live_inv (settle_load g a st)"
proof -
  assume inv: "live_inv st" and pend: "\<not> (\<exists>k opts. rl_pending st = Some (k, opts)) \<or> idle_inv st \<and>
     (\<forall>opts. rl_pending st = Some (LoadFirst, opts) \<longrightarrow> \<not> rl_paged st)"
  have ls: "idle_inv (load_settles r st)" "rl_pending (load_settles r st) = None" "rl_paged (load_settles r st) = rl_paged st"
    if "idle_inv st" for r
    using that by (cases r; simp add: load_settles_def Let_def idle_inv_def index_rows_ok)+
  have ss: "idle_inv (search_settles r st)" if "idle_inv st" for r
    using that by (cases r) (simp_all add: search_settles_def Let_def idle_inv_def index_rows_ok)
  show ?thesis
  proof (cases "g \<noteq> rl_gen st \<or> rl_pending st = None")
    case True
    then show ?thesis using inv by (auto simp: settle_load_def)
  next
    case False
    then obtain k opts where p: "rl_pending st = Some (k, opts)" "g = rl_gen st" by auto
    with pend have idle: "idle_inv st" "k = LoadFirst \<Longrightarrow> \<not> rl_paged st" by auto
    have "k = LoadFirst \<Longrightarrow> live_inv (after_refresh e (load_settles r st))" for e r
      using ls [OF idle(1), of r] idle(2) by (intro after_refresh_live) auto
    then show ?thesis
      using p ls(1) [OF idle(1)] ss [OF idle(1)] by (cases k) (simp_all add: settle_load_def Let_def idle_live)
  qed
qed

text \<open>The first page's load is never pending on a list that has been paged.\<close>

definition first_ok :: "list_state \<Rightarrow> bool" where
  "first_ok st \<longleftrightarrow> (case rl_pending st of Some (LoadFirst, _) \<Rightarrow> \<not> rl_paged st | _ \<Rightarrow> True)"

definition list_inv :: "list_state \<Rightarrow> bool" where
  "list_inv st \<longleftrightarrow> live_inv st \<and> first_ok st"

lemma pending_idle: "live_inv st \<Longrightarrow> rl_pending st = Some p \<Longrightarrow> idle_inv st"
  by (auto simp: live_inv_def idle_inv_def split: if_splits)

lemma first_ok_cong:
  "rl_pending st' = rl_pending st \<Longrightarrow> rl_paged st' = rl_paged st \<Longrightarrow> first_ok st' = first_ok st"
  by (auto simp: first_ok_def split: option.splits list_load.splits)

lemma first_ok_none: "rl_pending st = None \<Longrightarrow> first_ok st"
  by (simp add: first_ok_def)

lemma refresh_first: "first_ok (refresh env st)"
proof -
  let ?b = "begin_load LoadFirst [] env (stop_watch (st\<lparr>rl_paged := False, rl_search := None, rl_truncated := False\<rparr>))"
  have b: "first_ok ?b" by (simp add: begin_load_def Let_def first_ok_def stop_watch_def)
  have "first_ok (after_refresh env ?b)" using b first_ok_cong [of "after_refresh env ?b" ?b]
    by (simp add: after_refresh_def Let_def)
  with b show ?thesis by (simp add: refresh_def Let_def)
qed

lemma refresh_inv [kc_inv]: "list_inv st \<Longrightarrow> list_inv (refresh env st)"
  by (simp add: list_inv_def refresh_live refresh_first)

lemma nextPage_inv [kc_inv]:
  assumes "list_inv st" shows "list_inv (nextPage env st)"
proof (cases "rl_continue st = []")
  case False
  let ?s = "st\<lparr>rl_paged := True, rl_degraded := True\<rparr>"
  have "idle_inv (stop_watch ?s) = idle_inv (stop_watch st)" by (rule idle_cong) (simp_all add: stop_watch_def)
  then have "idle_inv (begin_load LoadNext (rl_continue st) env (stop_watch ?s))"
    using assms idle_stop idle_begin by (simp add: list_inv_def)
  moreover have "first_ok (begin_load LoadNext (rl_continue st) env (stop_watch ?s))"
    by (simp add: begin_load_def Let_def first_ok_def)
  ultimately show ?thesis using False by (simp add: nextPage_def list_inv_def idle_live)
qed (simp add: nextPage_def assms)

lemma search_inv [kc_inv]:
  assumes "list_inv st" shows "list_inv (searchAllByName q env st)"
proof -
  have "idle_inv (stop_watch st)" using assms idle_stop by (simp add: list_inv_def)
  then have "wt_phase (watch_stop (rl_watch st)) = WOver" "INITIAL_BACKOFF_MS \<le> wt_backoff (watch_stop (rl_watch st))"
    "wt_backoff (watch_stop (rl_watch st)) \<le> MAX_BACKOFF_MS" by (simp_all add: idle_inv_def)
  then show ?thesis
    using assms refresh_inv [OF assms]
    by (simp add: searchAllByName_def Let_def list_inv_def live_inv_def first_ok_def index_rows_ok)
qed

lemma settle_load_inv [kc_inv]:
  assumes "list_inv st" shows "list_inv (settle_load g a st)"
proof -
  have "live_inv (settle_load g a st)"
    using assms pending_idle [of st] by (intro settle_load_live) (auto simp: list_inv_def first_ok_def)
  moreover have "first_ok (settle_load g a st)"
  proof (cases "g \<noteq> rl_gen st \<or> rl_pending st = None")
    case True
    then show ?thesis using assms by (auto simp: settle_load_def list_inv_def)
  next
    case False
    have "rl_pending (load_settles r st) = None" "rl_pending (search_settles r st) = None" for r
      by (cases r; simp add: load_settles_def search_settles_def Let_def)+
    moreover have "rl_pending (after_refresh e x) = rl_pending x" for e x by (simp add: after_refresh_def Let_def)
    ultimately show ?thesis using False by (auto simp: settle_load_def Let_def intro!: first_ok_none split: list_load.splits)
  qed
  ultimately show ?thesis by (simp add: list_inv_def)
qed

lemma stop_inv [kc_inv]: "list_inv st \<Longrightarrow> list_inv (stop_watch st)"
  using idle_stop [of st] first_ok_cong [of "stop_watch st" st] by (simp add: list_inv_def idle_live stop_watch_def)

lemma context_inv [kc_inv]: "list_inv st \<Longrightarrow> list_inv (context_switched env st)"
  by (simp add: context_switched_def Let_def kc_inv)

lemma watch_first:
  assumes "list_inv st" shows "first_ok (settle_watch parse g r env st)"
proof (cases "g \<noteq> watch_gen st \<or> wt_phase (rl_watch st) = WOver")
  case True
  then show ?thesis using assms by (cases r) (auto simp: settle_watch_def list_inv_def)
next
  case False
  then have p: "rl_pending st = None" using assms by (simp add: list_inv_def live_inv_def)
  have ends: "first_ok (end_attempt o' env x)" if "rl_pending x = None" for o' x
    using that refresh_first by (simp add: end_attempt_def Let_def first_ok_none)
  have events: "rl_pending (fold handleEvent es x) = rl_pending x" for es x
    by (induction es arbitrary: x) (simp_all add: handleEvent_def upsertRows_def split: prod.splits)
  have "first_ok (deliver_chunk parse carry t env st)" for carry t
    unfolding deliver_chunk_def Let_def
    by (auto simp: events p first_ok_none intro!: ends split: prod.splits option.splits)
  then show ?thesis
    using p ends by (cases r; cases "wt_phase (rl_watch st)") (simp_all add: settle_watch_def first_ok_none)
qed

lemma watch_inv [kc_inv]: "list_inv st \<Longrightarrow> list_inv (settle_watch parse g r env st)"
  using watch_first [of st] settle_watch_live [of st] by (simp add: list_inv_def)

lemma list_step_inv: "list_inv st \<Longrightarrow> list_inv (list_step parse e st)"
  by (cases e) (simp_all add: kc_inv)

lemma new_list_inv: "list_inv new_list"
  by (simp add: list_inv_def live_inv_def first_ok_def new_list_def new_watcher_def index_ok_def INITIAL_BACKOFF_MS_def MAX_BACKOFF_MS_def)

text \<open>
  C24. Live updates reach complete collections only: in every run (refreshes, pages, searches, context
  switches, loads and watch traffic settling in any order) a watch that is connecting, streaming or
  waiting to retry belongs to a list that is neither paged nor truncated, has a resource version to
  watch from, shows no error, has no load in flight and is not marked degraded; and the retry backoff
  stays between one and thirty seconds.
\<close>

theorem watched_lists_are_complete:
  "let st = fold (list_step parse) es new_list in
   INITIAL_BACKOFF_MS \<le> wt_backoff (rl_watch st) \<and> wt_backoff (rl_watch st) \<le> MAX_BACKOFF_MS \<and>
   (if wt_phase (rl_watch st) = WOver then True
    else \<not> rl_paged st \<and> rl_continue st = [] \<and> rl_rv st \<noteq> [] \<and> rl_error st = None \<and>
         rl_pending st = None \<and> \<not> rl_degraded st)"
proof -
  have "list_inv s \<Longrightarrow> list_inv (fold (list_step parse) es s)" for s
    by (induction es arbitrary: s) (auto simp: list_step_inv)
  from this [OF new_list_inv] show ?thesis by (simp add: Let_def list_inv_def live_inv_def)
qed

text \<open>
  A refused request with status 401 ends the watch, but not the claim that the rows are live: in the
  local kubeconfig mode, where the 401 handlers do nothing, the table stays on screen unmarked.
\<close>

lemma refused_watch_not_marked:
  assumes "wt_phase (rl_watch st) = WConnecting"
  shows "settle_watch parse (watch_gen st) (WatchRefused (Some 401)) env st
       = st\<lparr>rl_watch := (rl_watch st)\<lparr>wt_phase := WOver, wt_url := None\<rparr>\<rparr>"
  using assms by (simp add: settle_watch_def end_attempt_def request_outcome_def watch_outcome_def Let_def)

text \<open>
  A failed load clears the rows but keeps the previous collection's resource version and token, so a
  name search after it takes the empty table for a complete one and does nothing.
\<close>

lemma search_after_failed_load_is_skipped:
  assumes "rl_rv st \<noteq> []" "rl_continue st = []" "to_lower (trim q) \<noteq> []" "le_ref env \<noteq> None"
  shows "let st' = settle_load (Suc (rl_gen st)) (env, \<lambda>_. Inl e) (refresh env st) in
    rl_rows st' = [] \<and> rl_error st' \<noteq> None \<and> searchAllByName q env st' = st'"
proof -
  define st1 where "st1 = refresh env st"
  let ?opts = "\<lparr>wo_continue = [], wo_maxPages = MAX_LIST_PAGES, wo_keep = \<lambda>_. True, wo_maxRows = None\<rparr>"
  have st1: "rl_gen st1 = Suc (rl_gen st)" "rl_pending st1 = Some (LoadFirst, ?opts)" "\<not> rl_paged st1"
    "rl_rv st1 = rl_rv st" "rl_continue st1 = rl_continue st"
    using assms(4) by (auto simp: st1_def refresh_def Let_def begin_load_def stop_watch_def)
  have walk: "walkTable (\<lambda>_. Inl e) (\<lambda>_. False) ?opts = Inl e"
    by (simp add: walkTable_def MAX_LIST_PAGES_def numeral_eq_Suc)
  define st2 where "st2 = settle_load (Suc (rl_gen st)) (env, \<lambda>_. Inl e) st1"
  have eq: "st2 = after_refresh env (load_settles (Inl e) st1)"
    by (simp add: st2_def settle_load_def st1 walk)
  have "rl_rows st2 = []" "rl_error st2 \<noteq> None" "rl_rv st2 = rl_rv st" "rl_continue st2 = rl_continue st" "\<not> rl_paged st2"
    using st1 by (simp_all add: eq load_settles_def after_refresh_def Let_def)
  then have "searchAllByName q env st2 = st2 \<and> rl_rows st2 = [] \<and> rl_error st2 \<noteq> None"
    using assms by (simp add: searchAllByName_def Let_def)
  then show ?thesis by (simp add: Let_def st2_def st1_def)
qed

end
