(* ===== verification/PollingLoop.thy ===== *)
theory PollingLoop
  imports Interfaces
begin

text \<open>
  \<^verbatim>\<open>web/src/composables/usePollingLoop.ts\<close>. \<open>pl_armed\<close> are the browser timers that will fire, each with the
  generation its callback captured and the time it is due, whether or not the loop still holds their
  handle (\<open>pl_timer\<close>); \<open>pl_inFlight\<close> are the running polls, by generation. The clock is part of the
  state and moves by \<open>Elapse\<close>; a timer fires at or after its due time. \<open>pl_started\<close> logs the polls.
\<close>

record poll_loop =
  pl_timer :: "nat option"
  pl_armed :: "(nat \<times> nat \<times> nat) list"
  pl_nextId :: nat
  pl_gen :: nat
  pl_live :: bool
  pl_lastTick :: nat
  pl_inFlight :: "nat list"
  pl_gate :: "nat option"
  pl_now :: nat
  pl_started :: "(nat \<times> nat) list"

definition new_loop :: poll_loop where
  "new_loop = \<lparr>pl_timer = None, pl_armed = [], pl_nextId = 0, pl_gen = 0, pl_live = False, pl_lastTick = 0,
     pl_inFlight = [], pl_gate = None, pl_now = 0, pl_started = []\<rparr>"

definition pending :: "nat \<Rightarrow> poll_loop \<Rightarrow> nat" where
  "pending g st = count_list (pl_inFlight st) g"

definition isCurrent :: "nat \<Rightarrow> poll_loop \<Rightarrow> bool" where
  "isCurrent g st \<longleftrightarrow> g = pl_gen st \<and> pl_live st"

definition clearTimer :: "poll_loop \<Rightarrow> poll_loop" where
  "clearTimer st =
     (case pl_timer st of
        None \<Rightarrow> st
      | Some i \<Rightarrow> st\<lparr>pl_timer := None, pl_armed := filter (\<lambda>t. fst t \<noteq> i) (pl_armed st)\<rparr>)"

text \<open>\<^verbatim>\<open>runTick\<close> up to the call of the poll.\<close>

definition runTick :: "nat \<Rightarrow> poll_loop \<Rightarrow> poll_loop" where
  "runTick g st = st\<lparr>pl_lastTick := pl_now st, pl_inFlight := g # pl_inFlight st,
     pl_started := pl_started st @ [(g, pl_now st)]\<rparr>"

definition schedule :: "nat \<Rightarrow> nat \<Rightarrow> poll_loop \<Rightarrow> poll_loop" where
  "schedule interval g st =
     (if g \<noteq> pl_gen st \<or> \<not> pl_live st then st
      else st\<lparr>pl_timer := Some (pl_nextId st), pl_nextId := Suc (pl_nextId st),
              pl_armed := (pl_nextId st, g, pl_now st + interval) # pl_armed st\<rparr>)"

text \<open>A poll settles, whichever way: the count goes down and the chain re-arms.\<close>

definition tick_done :: "nat \<Rightarrow> nat \<Rightarrow> poll_loop \<Rightarrow> poll_loop" where
  "tick_done interval g st =
     (if g \<in> set (pl_inFlight st) then schedule interval g (st\<lparr>pl_inFlight := remove1 g (pl_inFlight st)\<rparr>) else st)"

definition timer_fired :: "nat \<Rightarrow> bool \<Rightarrow> nat \<Rightarrow> poll_loop \<Rightarrow> poll_loop" where
  "timer_fired interval hidden i st =
     (case find (\<lambda>t. fst t = i) (pl_armed st) of
        None \<Rightarrow> st
      | Some (_, g, due) \<Rightarrow>
          if pl_now st < due then st
          else
            let st1 = st\<lparr>pl_armed := filter (\<lambda>t. fst t \<noteq> i) (pl_armed st), pl_timer := None\<rparr>
            in if g \<noteq> pl_gen st1 \<or> \<not> pl_live st1 then st1
               else if hidden then schedule interval g st1
               else runTick g st1)"

definition onVisibilityChange :: "nat \<Rightarrow> bool \<Rightarrow> poll_loop \<Rightarrow> poll_loop" where
  "onVisibilityChange interval hidden st =
     (if hidden \<or> \<not> pl_live st then st
      else if pl_now st - pl_lastTick st < interval then st
      else if 0 < pending (pl_gen st) st then st
      else runTick (pl_gen st) (clearTimer st))"

definition poll_stop :: "poll_loop \<Rightarrow> poll_loop" where
  "poll_stop st = clearTimer (st\<lparr>pl_gen := Suc (pl_gen st), pl_live := False, pl_gate := None\<rparr>)"

text \<open>\<^verbatim>\<open>start\<close>: with a gate it waits for the gate's answer, without one it goes live at once.\<close>

definition go_live :: "nat \<Rightarrow> poll_loop \<Rightarrow> poll_loop" where
  "go_live g st = runTick g (st\<lparr>pl_live := True\<rparr>)"

definition poll_start :: "bool \<Rightarrow> poll_loop \<Rightarrow> poll_loop" where
  "poll_start gated st0 =
     (let st1 = poll_stop st0; g = Suc (pl_gen st1); st = st1\<lparr>pl_gen := g\<rparr>
      in if gated then st\<lparr>pl_gate := Some g\<rparr> else go_live g st)"

definition gate_settles :: "nat \<Rightarrow> bool \<Rightarrow> poll_loop \<Rightarrow> poll_loop" where
  "gate_settles g proceed st =
     (if g \<noteq> pl_gen st then st
      else case pl_gate st of
             None \<Rightarrow> st
           | Some _ \<Rightarrow> (let st' = st\<lparr>pl_gate := None\<rparr> in if proceed then go_live g st' else st'))"

datatype poll_event =
    PollStart bool
  | PollStop
  | GateSettles nat bool
  | TickDone nat
  | TimerFired bool nat
  | Visibility bool
  | Elapse nat

fun poll_step :: "nat \<Rightarrow> poll_event \<Rightarrow> poll_loop \<Rightarrow> poll_loop" where
  "poll_step interval (PollStart gated) st = poll_start gated st"
| "poll_step interval PollStop st = poll_stop st"
| "poll_step interval (GateSettles g proceed) st = gate_settles g proceed st"
| "poll_step interval (TickDone g) st = tick_done interval g st"
| "poll_step interval (TimerFired hidden i) st = timer_fired interval hidden i st"
| "poll_step interval (Visibility hidden) st = onVisibilityChange interval hidden st"
| "poll_step interval (Elapse d) st = st\<lparr>pl_now := pl_now st + d\<rparr>"

section \<open>Generations\<close>

lemma loop_gens [simp]:
  "pl_gen (clearTimer st) = pl_gen st" "pl_gen (runTick g st) = pl_gen st" "pl_gen (schedule interval g st) = pl_gen st"
  "pl_gen (poll_stop st) = Suc (pl_gen st)" "pl_gen (go_live g st) = pl_gen st" "pl_gen (gate_settles g p st) = pl_gen st"
  "pl_gen (poll_start gated st) = Suc (Suc (pl_gen st))"
  by (simp_all add: clearTimer_def runTick_def schedule_def poll_stop_def go_live_def gate_settles_def poll_start_def
    Let_def split: option.splits)

lemma poll_step_gen: "pl_gen st \<le> pl_gen (poll_step interval e st)"
  by (cases e) (auto simp: tick_done_def timer_fired_def onVisibilityChange_def Let_def split: option.splits)

interpretation poll_guard: generation_guard pl_gen poll_start gate_settles "poll_step interval" for interval
  by unfold_locales (simp_all add: poll_step_gen, simp add: gate_settles_def)

section \<open>One chain\<close>

text \<open>A live loop has either one armed timer or one running poll of its generation, a loop that is not
  live has neither.\<close>

definition one_chain :: "poll_loop \<Rightarrow> bool" where
  "one_chain st \<longleftrightarrow>
     (case pl_timer st of
        None \<Rightarrow> pl_armed st = [] \<and> pending (pl_gen st) st = (if pl_live st then 1 else 0)
      | Some i \<Rightarrow> pl_live st \<and> pending (pl_gen st) st = 0 \<and> map fst (pl_armed st) = [i] \<and>
          map (fst \<circ> snd) (pl_armed st) = [pl_gen st])"

definition spaced :: "nat \<Rightarrow> (nat \<times> nat) list \<Rightarrow> bool" where
  "spaced interval started \<longleftrightarrow> sorted_wrt (\<lambda>(g, t) (g', t'). g = g' \<longrightarrow> t + interval \<le> t') started"

definition loop_inv :: "nat \<Rightarrow> poll_loop \<Rightarrow> bool" where
  "loop_inv interval st \<longleftrightarrow> one_chain st \<and>
     list_all (\<lambda>g. g \<le> pl_gen st) (pl_inFlight st) \<and>
     (if pl_gate st = None then True else \<not> pl_live st \<and> list_all (\<lambda>(g, t). g < pl_gen st) (pl_started st)) \<and>
     list_all (\<lambda>(g, t). g \<le> pl_gen st) (pl_started st) \<and>
     list_all (\<lambda>(g, t). g = pl_gen st \<longrightarrow> t \<le> pl_lastTick st) (pl_started st) \<and>
     list_all (\<lambda>(i, g, due). pl_lastTick st + interval \<le> due) (pl_armed st) \<and>
     pl_lastTick st \<le> pl_now st \<and> spaced interval (pl_started st)"

lemma pending_fresh: "list_all (\<lambda>g. g \<le> n) (pl_inFlight st) \<Longrightarrow> n < g \<Longrightarrow> pending g st = 0"
  by (auto simp: pending_def list_all_iff count_list_0_iff)

lemma spaced_snoc:
  "spaced interval ts \<Longrightarrow> list_all (\<lambda>(g', t'). g' = g \<longrightarrow> t' + interval \<le> t) ts \<Longrightarrow> spaced interval (ts @ [(g, t)])"
  by (auto simp: spaced_def sorted_wrt_append list_all_iff)

text \<open>A chain may start a poll: nothing is armed or running for the generation, and the last one is far enough.\<close>

definition may_run :: "nat \<Rightarrow> poll_loop \<Rightarrow> bool" where
  "may_run interval st \<longleftrightarrow>
     pl_timer st = None \<and> pl_armed st = [] \<and> pending (pl_gen st) st = 0 \<and> pl_live st \<and> pl_gate st = None \<and>
     list_all (\<lambda>g. g \<le> pl_gen st) (pl_inFlight st) \<and>
     list_all (\<lambda>(g, t). g \<le> pl_gen st) (pl_started st) \<and>
     list_all (\<lambda>(g, t). g = pl_gen st \<longrightarrow> t + interval \<le> pl_now st) (pl_started st) \<and>
     spaced interval (pl_started st)"

lemma runTick_inv: "may_run interval st \<Longrightarrow> loop_inv interval (runTick (pl_gen st) st)"
proof -
  assume m: "may_run interval st"
  have "spaced interval (pl_started st @ [(pl_gen st, pl_now st)])"
    using m by (intro spaced_snoc) (simp_all add: may_run_def)
  moreover have "list_all (\<lambda>(g, t). g = pl_gen st \<longrightarrow> t \<le> pl_now st) (pl_started st)"
    using m by (fastforce simp: may_run_def list_all_iff)
  ultimately show ?thesis
    using m by (simp add: may_run_def loop_inv_def runTick_def one_chain_def pending_def)
qed

lemma clearTimer_chain:
  "one_chain st \<Longrightarrow> pl_timer (clearTimer st) = None \<and> pl_armed (clearTimer st) = []"
proof (cases "pl_timer st")
  case (Some i)
  assume "one_chain st"
  with Some have "map fst (pl_armed st) = [i]" by (simp add: one_chain_def)
  then obtain x where "pl_armed st = [x]" "fst x = i" by (cases "pl_armed st") auto
  with Some show ?thesis by (simp add: clearTimer_def)
qed (simp add: one_chain_def clearTimer_def)

lemma clearTimer_fields [simp]:
  "pl_live (clearTimer st) = pl_live st" "pl_inFlight (clearTimer st) = pl_inFlight st" "pl_gate (clearTimer st) = pl_gate st"
  "pl_started (clearTimer st) = pl_started st" "pl_now (clearTimer st) = pl_now st" "pl_lastTick (clearTimer st) = pl_lastTick st"
  "pending g (clearTimer st) = pending g st"
  by (simp_all add: clearTimer_def pending_def split: option.splits)

lemma poll_stop_inv: "loop_inv interval st \<Longrightarrow> loop_inv interval (poll_stop st) \<and>
   list_all (\<lambda>g. g < pl_gen (poll_stop st)) (pl_inFlight (poll_stop st)) \<and>
   list_all (\<lambda>(g, t). g < pl_gen (poll_stop st)) (pl_started (poll_stop st))"
proof -
  assume inv: "loop_inv interval st"
  let ?s = "st\<lparr>pl_gen := Suc (pl_gen st), pl_live := False, pl_gate := None\<rparr>"
  have clear: "pl_timer (clearTimer ?s) = None" "pl_armed (clearTimer ?s) = []"
  proof -
    have "pl_timer (clearTimer ?s) = pl_timer (clearTimer st)" "pl_armed (clearTimer ?s) = pl_armed (clearTimer st)"
      by (simp_all add: clearTimer_def split: option.splits)
    then show "pl_timer (clearTimer ?s) = None" "pl_armed (clearTimer ?s) = []"
      using clearTimer_chain [of st] inv by (simp_all add: loop_inv_def)
  qed
  have f: "list_all (\<lambda>g. g \<le> pl_gen st) (pl_inFlight st)" "list_all (\<lambda>(g, t). g \<le> pl_gen st) (pl_started st)"
    using inv by (simp_all add: loop_inv_def)
  then have le: "list_all (\<lambda>g. g < Suc (pl_gen st)) (pl_inFlight st)" "list_all (\<lambda>(g, t). g < Suc (pl_gen st)) (pl_started st)"
    by (simp_all add: less_Suc_eq_le)
  have p: "pending (Suc (pl_gen st)) st = 0" using pending_fresh [OF f(1)] by simp
  have "list_all (\<lambda>(g, t). g = Suc (pl_gen st) \<longrightarrow> t \<le> pl_lastTick st) (pl_started st)"
    "list_all (\<lambda>(g, t). g \<le> Suc (pl_gen st)) (pl_started st)" "list_all (\<lambda>g. g \<le> Suc (pl_gen st)) (pl_inFlight st)"
    using le by (auto simp: list_all_iff)
  then show ?thesis
    using inv clear le p by (simp add: poll_stop_def loop_inv_def one_chain_def pending_def)
qed

lemma go_live_inv:
  assumes "loop_inv interval st" "\<not> pl_live st" "pl_gate st = None"
    "list_all (\<lambda>(g, t). g < pl_gen st) (pl_started st)"
  shows "loop_inv interval (go_live (pl_gen st) st)"
proof -
  have "pl_timer st = None \<and> pl_armed st = [] \<and> pending (pl_gen st) st = 0"
    using assms(1,2) by (simp add: loop_inv_def one_chain_def split: option.splits)
  then have "may_run interval (st\<lparr>pl_live := True\<rparr>)"
    using assms by (auto simp: may_run_def loop_inv_def pending_def list_all_iff)
  from runTick_inv [OF this] show ?thesis by (simp add: go_live_def)
qed

lemma poll_start_inv: "loop_inv interval st \<Longrightarrow> loop_inv interval (poll_start gated st)"
proof -
  assume "loop_inv interval st"
  note s = poll_stop_inv [OF this]
  let ?s = "poll_stop st" and ?g = "Suc (pl_gen (poll_stop st))"
  have le: "list_all (\<lambda>g. g < ?g) (pl_inFlight ?s)" "list_all (\<lambda>(g, t). g < ?g) (pl_started ?s)"
    using s by (auto simp: list_all_iff)
  have "\<not> pl_live ?s" "pl_gate ?s = None" by (simp_all add: poll_stop_def)
  moreover have "pl_timer ?s = None" "pl_armed ?s = []"
    using s \<open>\<not> pl_live ?s\<close> by (simp_all add: loop_inv_def one_chain_def split: option.splits)
  moreover have "pending ?g ?s = 0" using s pending_fresh [of "pl_gen ?s" ?s ?g] by (simp add: loop_inv_def)
  moreover have "list_all (\<lambda>g. g \<le> ?g) (pl_inFlight ?s)" "list_all (\<lambda>(g, t). g \<le> ?g) (pl_started ?s)"
    "list_all (\<lambda>(g, t). g = ?g \<longrightarrow> t \<le> pl_lastTick ?s) (pl_started ?s)"
    using le by (auto simp: list_all_iff)
  ultimately have i: "loop_inv interval (?s\<lparr>pl_gen := ?g\<rparr>)" "loop_inv interval (?s\<lparr>pl_gen := ?g, pl_gate := Some ?g\<rparr>)"
    using s le by (simp_all add: loop_inv_def one_chain_def pending_def)
  have "loop_inv interval (go_live (pl_gen (?s\<lparr>pl_gen := ?g\<rparr>)) (?s\<lparr>pl_gen := ?g\<rparr>))"
    by (rule go_live_inv [OF i(1)]) (use \<open>\<not> pl_live ?s\<close> \<open>pl_gate ?s = None\<close> le in simp_all)
  with i show ?thesis by (simp add: poll_start_def Let_def)
qed

lemma gate_inv: "loop_inv interval st \<Longrightarrow> loop_inv interval (gate_settles g proceed st)"
proof (cases "g \<noteq> pl_gen st \<or> pl_gate st = None")
  case False
  assume inv: "loop_inv interval st"
  let ?s = "st\<lparr>pl_gate := None\<rparr>"
  have s: "loop_inv interval ?s" "\<not> pl_live st" "list_all (\<lambda>(g, t). g < pl_gen st) (pl_started st)"
    using inv False by (auto simp: loop_inv_def one_chain_def pending_def split: option.splits)
  from go_live_inv [OF s(1)] s have "loop_inv interval (go_live (pl_gen st) ?s)" by simp
  with s False show ?thesis by (auto simp: gate_settles_def Let_def split: option.splits)
qed (auto simp: gate_settles_def)

lemma schedule_inv:
  assumes "pl_timer st = None" "pl_armed st = []" "pending (pl_gen st) st = 0" "pl_live st"
    "list_all (\<lambda>g. g \<le> pl_gen st) (pl_inFlight st)" "pl_gate st = None"
    "list_all (\<lambda>(g, t). g \<le> pl_gen st) (pl_started st)"
    "list_all (\<lambda>(g, t). g = pl_gen st \<longrightarrow> t \<le> pl_lastTick st) (pl_started st)"
    "pl_lastTick st \<le> pl_now st" "spaced interval (pl_started st)"
  shows "loop_inv interval (schedule interval (pl_gen st) st)"
  using assms by (simp add: schedule_def loop_inv_def one_chain_def pending_def)

lemma tick_done_inv:
  assumes inv: "loop_inv interval st"
  shows "loop_inv interval (tick_done interval g st)"
proof (cases "g \<in> set (pl_inFlight st)")
  case True
  let ?s = "st\<lparr>pl_inFlight := remove1 g (pl_inFlight st)\<rparr>"
  have fl: "list_all (\<lambda>g. g \<le> pl_gen st) (remove1 g (pl_inFlight st))"
    using inv set_remove1_subset [of g "pl_inFlight st"] by (auto simp: loop_inv_def list_all_iff)
  show ?thesis
  proof (cases "g = pl_gen st")
    case False
    have "count_list (remove1 g xs) h = count_list xs h" if "h \<noteq> g" for h xs
      using that by (induction xs) auto
    then have "pending (pl_gen st) ?s = pending (pl_gen st) st" using False by (simp add: pending_def)
    then have "loop_inv interval ?s" using inv fl by (simp add: loop_inv_def one_chain_def cong: option.case_cong)
    with True False show ?thesis by (simp add: tick_done_def schedule_def)
  next
    case live: True
    have pos: "pending (pl_gen st) st \<noteq> 0" using True live by (simp add: pending_def count_list_0_iff)
    then have one: "pl_timer st = None" "pl_armed st = []" "pl_live st" "pending (pl_gen st) st = 1"
      using inv by (auto simp: loop_inv_def one_chain_def split: option.splits if_splits)
    have "count_list (remove1 h xs) h = count_list xs h - 1" for h and xs :: "nat list"
      by (induction xs) auto
    then have zero: "pending (pl_gen st) ?s = 0" using one live by (simp add: pending_def)
    have gate: "pl_gate st = None" using inv one(3) by (auto simp: loop_inv_def split: if_splits)
    have "loop_inv interval (schedule interval (pl_gen ?s) ?s)"
      by (rule schedule_inv) (use inv one zero fl gate in \<open>auto simp: loop_inv_def\<close>)
    with True live show ?thesis by (simp add: tick_done_def)
  qed
qed (simp add: tick_done_def inv)

lemma timer_fired_inv:
  assumes inv: "loop_inv interval st"
  shows "loop_inv interval (timer_fired interval hidden i st)"
proof (cases "find (\<lambda>t. fst t = i) (pl_armed st)")
  case None
  then show ?thesis using inv by (simp add: timer_fired_def)
next
  case (Some x)
  obtain j g due where x: "x = (j, g, due)" using prod_cases3 by blast
  have "find P xs = Some y \<Longrightarrow> y \<in> set xs \<and> P y" for P and y :: "nat \<times> nat \<times> nat" and xs
    by (induction xs) (auto split: if_splits)
  from this [OF Some] x have mem: "x \<in> set (pl_armed st)" "j = i" by auto
  then obtain k where k: "pl_timer st = Some k" using inv by (cases "pl_timer st") (auto simp: loop_inv_def one_chain_def)
  then have one: "map fst (pl_armed st) = [k]" "map (fst \<circ> snd) (pl_armed st) = [pl_gen st]" "pl_live st" "pending (pl_gen st) st = 0"
    using inv by (auto simp: loop_inv_def one_chain_def)
  then have armed: "pl_armed st = [(i, pl_gen st, due)]" "g = pl_gen st"
    using mem x by (cases "pl_armed st"; auto)+
  let ?s = "st\<lparr>pl_armed := [], pl_timer := None\<rparr>"
  have eq: "timer_fired interval hidden i st = (if pl_now st < due then st
      else if hidden then schedule interval (pl_gen ?s) ?s else runTick (pl_gen ?s) ?s)"
    using armed one by (simp add: timer_fired_def Let_def)
  have gate: "pl_gate st = None" using inv one(3) by (auto simp: loop_inv_def split: if_splits)
  have sch: "loop_inv interval (schedule interval (pl_gen ?s) ?s)"
    by (rule schedule_inv) (use inv one gate in \<open>auto simp: loop_inv_def pending_def\<close>)
  have "loop_inv interval (runTick (pl_gen ?s) ?s)" if "\<not> pl_now st < due"
  proof (rule runTick_inv)
    have "pl_lastTick st + interval \<le> pl_now st" using inv armed(1) that by (simp add: loop_inv_def)
    then have "list_all (\<lambda>(g, t). g = pl_gen st \<longrightarrow> t + interval \<le> pl_now st) (pl_started st)"
      using inv by (fastforce simp: loop_inv_def list_all_iff)
    then show "may_run interval ?s" using inv one gate by (simp add: may_run_def loop_inv_def pending_def)
  qed
  with sch inv show ?thesis unfolding eq by simp
qed

lemma visibility_inv:
  assumes inv: "loop_inv interval st"
  shows "loop_inv interval (onVisibilityChange interval hidden st)"
proof (cases "hidden \<or> \<not> pl_live st \<or> pl_now st - pl_lastTick st < interval \<or> 0 < pending (pl_gen st) st")
  case True
  then show ?thesis using inv by (auto simp: onVisibilityChange_def)
next
  case False
  have "pl_lastTick st + interval \<le> pl_now st" using False inv by (auto simp: loop_inv_def)
  then have "list_all (\<lambda>(g, t). g = pl_gen st \<longrightarrow> t + interval \<le> pl_now st) (pl_started st)"
    using inv by (fastforce simp: loop_inv_def list_all_iff)
  moreover have "pl_gate st = None" using inv False by (auto simp: loop_inv_def split: if_splits)
  ultimately have "may_run interval (clearTimer st)"
    using inv False clearTimer_chain [of st] by (simp add: may_run_def loop_inv_def)
  from runTick_inv [OF this] False show ?thesis by (simp add: onVisibilityChange_def)
qed

lemma poll_step_inv: "loop_inv interval st \<Longrightarrow> loop_inv interval (poll_step interval e st)"
proof (cases e)
  case (Elapse d)
  assume "loop_inv interval st"
  with Elapse show ?thesis by (auto simp: loop_inv_def one_chain_def pending_def split: option.splits)
qed (simp_all add: poll_start_inv poll_stop_inv gate_inv tick_done_inv timer_fired_inv visibility_inv)

definition run_poll :: "nat \<Rightarrow> poll_event list \<Rightarrow> poll_loop" where
  "run_poll interval es = fold (poll_step interval) es new_loop"

lemma run_poll_inv: "loop_inv interval (run_poll interval es)"
proof -
  have "loop_inv interval st \<Longrightarrow> loop_inv interval (fold (poll_step interval) es st)" for st
    by (induction es arbitrary: st) (auto simp: poll_step_inv)
  moreover have "loop_inv interval new_loop"
    by (simp add: loop_inv_def new_loop_def one_chain_def pending_def spaced_def)
  ultimately show ?thesis by (simp add: run_poll_def)
qed

text \<open>
  C23. A polling loop is one chain, and it never dies: in every run (restarts, gates, polls settling late or
  after a restart, tab switches, timers) a live loop has exactly one armed timer or one running poll of
  its generation, never both and never neither, while a stopped one has no timer; and within one
  generation no poll is started less than the interval after the previous one.
\<close>

theorem polling_is_one_chain:
  "let st = run_poll interval es in
   length (pl_armed st) + pending (pl_gen st) st = (if pl_live st then 1 else 0) \<and>
   spaced interval (pl_started st)"
proof -
  have inv: "loop_inv interval (run_poll interval es)" by (rule run_poll_inv)
  let ?st = "run_poll interval es"
  have "length (pl_armed ?st) + pending (pl_gen ?st) ?st = (if pl_live ?st then 1 else 0)"
  proof (cases "pl_timer ?st")
    case None
    then show ?thesis using inv by (simp add: loop_inv_def one_chain_def)
  next
    case (Some i)
    then have "length (map fst (pl_armed ?st)) = 1" "pl_live ?st" "pending (pl_gen ?st) ?st = 0"
      using inv by (auto simp: loop_inv_def one_chain_def)
    then show ?thesis by simp
  qed
  then show ?thesis using inv by (simp add: Let_def loop_inv_def)
qed

text \<open>A gate's answer for a superseded start is dropped.\<close>

lemma superseded_gate_dropped:
  "gate_settles (pl_gen st) b (fold (poll_guard.guard_step interval) es (poll_start gated st))
     = fold (poll_guard.guard_step interval) es (poll_start gated st)"
  by (rule poll_guard.superseded_dropped) simp

end
