(* ===== verification/TableSort.thy ===== *)
theory TableSort
  imports Sort Numbers
begin

text \<open>
  \<^verbatim>\<open>web/src/utils/tableSort.ts\<close> and the version order of \<^verbatim>\<open>web/src/utils/k8sNames.ts\<close>: the comparators
  behind table columns and the resource catalog. \<^verbatim>\<open>localeCompare\<close> is a parameter, a \<open>comparator\<close> (the
  language requires a consistent one). Ages are exact rationals.
\<close>

section \<open>Ages\<close>

definition AGE_MULTIPLIERS :: "(jstring \<times> rat) list" where
  "AGE_MULTIPLIERS = [(''ms'', 1 / 1000), (''s'', 1), (''m'', 60), (''h'', 3600), (''d'', 86400), (''w'', 604800),
     (''y'', 31536000)]"

text \<open>\<^verbatim>\<open>(\d+)(ms|[smhdwy])\<close> at the start of the text: the seconds and the rest.\<close>

definition age_unit :: "jstring \<Rightarrow> (rat \<times> jstring) option" where
  "age_unit s = map_option (\<lambda>(u, m). (m, drop (length u) s)) (find (\<lambda>(u, m). starts_with u s) AGE_MULTIPLIERS)"

definition age_token :: "jstring \<Rightarrow> (rat \<times> jstring) option" where
  "age_token s =
     (if digits_of s = [] then None
      else case age_unit (after_digits s) of
             None \<Rightarrow> None
           | Some (m, rest) \<Rightarrow> Some (of_nat (nat_of_digits (digits_of s)) * m, rest))"

lemma age_unit_shorter: "age_unit s = Some (m, rest) \<Longrightarrow> length rest < length s"
  by (cases s) (auto simp: age_unit_def AGE_MULTIPLIERS_def starts_with_def split: if_splits)

lemma age_token_shorter: "age_token s = Some (v, rest) \<Longrightarrow> length rest < length s"
proof -
  assume a: "age_token s = Some (v, rest)"
  then obtain m where "age_unit (after_digits s) = Some (m, rest)"
    by (auto simp: age_token_def split: if_splits option.splits)
  from age_unit_shorter [OF this] show ?thesis
    using digits_append [of s] by (metis length_append trans_less_add2)
qed

text \<open>The loop over \<^verbatim>\<open>matchAll\<close>: the total and the characters consumed.\<close>

function age_scan :: "jstring \<Rightarrow> rat \<times> nat" where
  "age_scan s =
     (case age_token s of
        Some (v, rest) \<Rightarrow> (let (tot, consumed) = age_scan rest in (v + tot, (length s - length rest) + consumed))
      | None \<Rightarrow> (case s of [] \<Rightarrow> (0, 0) | _ # t \<Rightarrow> age_scan t))"
  by pat_completeness auto
termination
  by (relation "measure length") (auto simp: age_token_shorter)

declare age_scan.simps [simp del]

definition parseK8sAge :: "jstring \<Rightarrow> rat option" where
  "parseK8sAge value =
     (let s = trim value in
      if s = [] then None
      else let (tot, consumed) = age_scan s
           in if consumed = length s \<and> 0 < consumed then Some tot else None)"

section \<open>Numbers\<close>

definition EMPTYISH :: "jstring list" where
  "EMPTYISH = [[], ''<none>'', ''<unknown>'', ''<invalid>'']"

definition radix_digit :: "char \<Rightarrow> nat option" where
  "radix_digit c =
     (if is_digit c then Some (code c - 48)
      else if is_lower_alpha c then Some (code c - 87)
      else if is_upper_alpha c then Some (code c - 55)
      else None)"

definition radix_value :: "nat \<Rightarrow> jstring \<Rightarrow> rat option" where
  "radix_value b ds =
     (if ds \<noteq> [] \<and> list_all (\<lambda>c. case radix_digit c of Some d \<Rightarrow> d < b | None \<Rightarrow> False) ds
      then Some (of_nat (foldl (\<lambda>n c. b * n + the (radix_digit c)) 0 ds)) else None)"

text \<open>\<^verbatim>\<open>Number(value)\<close>, \<open>None\<close> for \<^verbatim>\<open>NaN\<close> and the infinities.\<close>

definition unsigned_decimal :: "bool \<Rightarrow> jstring \<Rightarrow> rat option" where
  "unsigned_decimal neg s =
     (let ids = digits_of s; r1 = after_digits s;
          (fds, r2) = (case r1 of c # t \<Rightarrow> if c = CHR ''.'' then (digits_of t, after_digits t) else ([], r1) | [] \<Rightarrow> ([], []));
          (et, e, r3) = exponent_part r2
      in if ids @ fds = [] \<or> r3 \<noteq> [] then None else Some (decimal_value neg ids fds e))"

definition js_number :: "jstring \<Rightarrow> rat option" where
  "js_number value =
     (let s = trim value; p = take 2 s in
      if s = [] then Some 0
      else if p = ''0x'' \<or> p = ''0X'' then radix_value 16 (drop 2 s)
      else if p = ''0o'' \<or> p = ''0O'' then radix_value 8 (drop 2 s)
      else if p = ''0b'' \<or> p = ''0B'' then radix_value 2 (drop 2 s)
      else if hd s = CHR ''-'' then unsigned_decimal True (tl s)
      else if hd s = CHR ''+'' then unsigned_decimal False (tl s)
      else unsigned_decimal False s)"

definition parseNumeric :: "jstring \<Rightarrow> rat option" where
  "parseNumeric value =
     (if trim value = [] then None
      else case js_number value of None \<Rightarrow> None | Some n \<Rightarrow> if js_finite n then Some n else None)"

section \<open>Cells\<close>

definition compareTableValues :: "(jstring \<Rightarrow> jstring \<Rightarrow> rat) \<Rightarrow> jstring \<Rightarrow> jstring \<Rightarrow> rat" where
  "compareTableValues coll a b =
     (let aEmpty = trim a \<in> set EMPTYISH; bEmpty = trim b \<in> set EMPTYISH in
      if aEmpty \<or> bEmpty then (if aEmpty = bEmpty then 0 else if aEmpty then 1 else - 1)
      else
        let aNum = parseNumeric a; bNum = parseNumeric b in
        if aNum \<noteq> None \<and> bNum \<noteq> None then the aNum - the bNum
        else
          let aAge = (if aNum = None then parseK8sAge a else None);
              bAge = (if bNum = None then parseK8sAge b else None) in
          if aAge \<noteq> None \<and> bAge \<noteq> None then the aAge - the bAge
          else
            let aRank = (if aNum \<noteq> None then 0 else if aAge \<noteq> None then 1 else 2);
                bRank = (if bNum \<noteq> None then 0 else if bAge \<noteq> None then 1 else 2) in
            if aRank \<noteq> bRank then aRank - bRank
            else coll a b)"

section \<open>Versions and names\<close>

datatype stage = Alpha | Beta

definition strip_prefix :: "jstring \<Rightarrow> jstring \<Rightarrow> jstring option" where
  "strip_prefix p s = (if starts_with p s then Some (drop (length p) s) else None)"

definition only_digits :: "jstring \<Rightarrow> nat option" where
  "only_digits ds = (if ds \<noteq> [] \<and> list_all is_digit ds then Some (nat_of_digits ds) else None)"

text \<open>\<^verbatim>\<open>^v(\d+)(?:(alpha|beta)(\d+))?$\<close>\<close>

definition VERSION_RE :: "jstring \<Rightarrow> (nat \<times> (stage \<times> nat) option) option" where
  "VERSION_RE s =
     (case s of
        [] \<Rightarrow> None
      | c # t \<Rightarrow>
          if c \<noteq> CHR ''v'' \<or> digits_of t = [] then None
          else let major = nat_of_digits (digits_of t); rest = after_digits t in
               if rest = [] then Some (major, None)
               else case (strip_prefix ''alpha'' rest, strip_prefix ''beta'' rest) of
                      (Some n, _) \<Rightarrow> map_option (\<lambda>k. (major, Some (Alpha, k))) (only_digits n)
                    | (None, Some n) \<Rightarrow> map_option (\<lambda>k. (major, Some (Beta, k))) (only_digits n)
                    | (None, None) \<Rightarrow> None)"

definition stageRank :: "stage option \<Rightarrow> rat" where
  "stageRank s = (case s of None \<Rightarrow> 2 | Some Beta \<Rightarrow> 1 | Some Alpha \<Rightarrow> 0)"

definition compareKubeVersions :: "(jstring \<Rightarrow> jstring \<Rightarrow> rat) \<Rightarrow> jstring \<Rightarrow> jstring \<Rightarrow> rat" where
  "compareKubeVersions coll a b =
     (case (VERSION_RE a, VERSION_RE b) of
        (None, None) \<Rightarrow> coll a b
      | (None, Some _) \<Rightarrow> - 1
      | (Some _, None) \<Rightarrow> 1
      | (Some (majorA, preA), Some (majorB, preB)) \<Rightarrow>
          let stageDiff = stageRank (map_option fst preA) - stageRank (map_option fst preB);
              majorDiff = of_nat majorA - of_nat majorB;
              number = (\<lambda>pre. case pre of None \<Rightarrow> 0 | Some (_, n) \<Rightarrow> of_nat n)
          in if stageDiff \<noteq> 0 then stageDiff
             else if majorDiff \<noteq> 0 then majorDiff
             else number preA - number preB)"

definition CLUSTER_SCOPE_SENTINEL :: jstring where "CLUSTER_SCOPE_SENTINEL = ''_''"

text \<open>\<^verbatim>\<open>^[a-z0-9]([-a-z0-9]{0,61}[a-z0-9])?$\<close>\<close>

definition label_char :: "char \<Rightarrow> bool" where
  "label_char c \<longleftrightarrow> is_lower_alpha c \<or> is_digit c"

definition isDNS1123Label :: "jstring \<Rightarrow> bool" where
  "isDNS1123Label value \<longleftrightarrow>
     (case value of
        [] \<Rightarrow> False
      | c # rest \<Rightarrow> label_char c \<and>
          (rest = [] \<or>
           length (butlast rest) \<le> 61 \<and> list_all (\<lambda>d. d = CHR ''-'' \<or> label_char d) (butlast rest) \<and>
           label_char (last rest)))"

definition routeGroup :: "jstring \<Rightarrow> jstring" where
  "routeGroup g = (if g = [] then ''core'' else g)"

section \<open>The shape of a cell\<close>

text \<open>What the comparison depends on, and the order of the shapes.\<close>

datatype shape = ShNumber rat | ShAge rat | ShText jstring | ShEmpty

definition cell_shape :: "jstring \<Rightarrow> shape" where
  "cell_shape a =
     (if trim a \<in> set EMPTYISH then ShEmpty
      else case parseNumeric a of
             Some n \<Rightarrow> ShNumber n
           | None \<Rightarrow> (case parseK8sAge a of Some n \<Rightarrow> ShAge n | None \<Rightarrow> ShText a))"

fun shape_rank :: "shape \<Rightarrow> rat" where
  "shape_rank (ShNumber n) = 0"
| "shape_rank (ShAge n) = 1"
| "shape_rank (ShText s) = 2"
| "shape_rank ShEmpty = 3"

fun shape_cmp :: "(jstring \<Rightarrow> jstring \<Rightarrow> rat) \<Rightarrow> shape \<Rightarrow> shape \<Rightarrow> rat" where
  "shape_cmp coll (ShNumber m) (ShNumber n) = m - n"
| "shape_cmp coll (ShAge m) (ShAge n) = m - n"
| "shape_cmp coll (ShText s) (ShText t) = coll s t"
| "shape_cmp coll x y = shape_rank x - shape_rank y"

lemma compare_sgn: "sgn (compareTableValues coll a b) = sgn (shape_cmp coll (cell_shape a) (cell_shape b))"
  by (simp add: compareTableValues_def cell_shape_def Let_def split: option.splits)

lemma sgn_le: "(x::rat) \<le> 0 \<longleftrightarrow> sgn x \<le> 0" "0 \<le> (x::rat) \<longleftrightarrow> 0 \<le> sgn x" "x = 0 \<longleftrightarrow> sgn x = (0::rat)"
  by (simp_all add: sgn_if)

lemma comparator_sgn:
  assumes "comparator (c :: 'a \<Rightarrow> 'a \<Rightarrow> rat)" "\<And>a b. sgn (d a b) = sgn (c (f a) (f b))"
  shows "comparator (d :: 'b \<Rightarrow> 'b \<Rightarrow> rat)"
proof
  have le: "d a b \<le> 0 \<longleftrightarrow> c (f a) (f b) \<le> 0" "0 \<le> d a b \<longleftrightarrow> 0 \<le> c (f a) (f b)" for a b
    using assms(2) [of a b] by (auto simp: sgn_if split: if_splits)
  show "d a b \<le> 0 \<longleftrightarrow> 0 \<le> d b a" for a b
    using comparator.cmp_swap [OF assms(1)] by (simp add: le)
  show "d a e \<le> 0" if "d a b \<le> 0" "d b e \<le> 0" for a b e
    using comparator.cmp_trans [OF assms(1)] that unfolding le by blast
qed

lemma comparator_shape: "comparator coll \<Longrightarrow> comparator (shape_cmp coll)"
proof
  assume coll: "comparator coll"
  show "shape_cmp coll a b \<le> 0 \<longleftrightarrow> 0 \<le> shape_cmp coll b a" for a b
    by (cases a; cases b) (simp_all add: comparator.cmp_swap [OF coll])
  show "shape_cmp coll a c \<le> 0" if "shape_cmp coll a b \<le> 0" "shape_cmp coll b c \<le> 0" for a b c
    using that by (cases a; cases b; cases c) (auto intro: comparator.cmp_trans [OF coll])
qed

lemma comparator_table: "comparator coll \<Longrightarrow> comparator (compareTableValues coll)"
  by (rule comparator_sgn [OF comparator_shape, of coll _ cell_shape]) (simp_all add: compare_sgn)

lemma comparator_version: "comparator coll \<Longrightarrow> comparator (compareKubeVersions coll)"
proof -
  assume coll: "comparator coll"
  let ?rk = "\<lambda>a. case VERSION_RE a of None \<Rightarrow> (0 :: rat) | Some _ \<Rightarrow> 1"
  let ?st = "\<lambda>a. case VERSION_RE a of None \<Rightarrow> 0 | Some (_, pre) \<Rightarrow> stageRank (map_option fst pre)"
  let ?mj = "\<lambda>a. case VERSION_RE a of None \<Rightarrow> (0 :: rat) | Some (m, _) \<Rightarrow> of_nat m"
  let ?nm = "\<lambda>a. case VERSION_RE a of Some (_, Some (_, n)) \<Rightarrow> of_nat n | _ \<Rightarrow> (0 :: rat)"
  let ?tx = "\<lambda>a. case VERSION_RE a of None \<Rightarrow> a | Some _ \<Rightarrow> []"
  let ?c = "cmp_then (\<lambda>a b. ?rk a - ?rk b) (cmp_then (\<lambda>a b. ?st a - ?st b) (cmp_then (\<lambda>a b. ?mj a - ?mj b)
              (cmp_then (\<lambda>a b. ?nm a - ?nm b) (\<lambda>a b. coll (?tx a) (?tx b)))))"
  have "compareKubeVersions coll = ?c"
  proof (intro ext)
    fix a b
    have z: "(if x \<noteq> 0 then x else 0) = (x :: rat)" for x by simp
    show "compareKubeVersions coll a b = ?c a b"
    proof (cases "VERSION_RE a"; cases "VERSION_RE b")
      fix p q
      assume pq: "VERSION_RE a = Some p" "VERSION_RE b = Some q"
      obtain ma pa mb pb where "p = (ma, pa)" "q = (mb, pb)" by fastforce
      with pq show ?thesis
        by (simp add: compareKubeVersions_def cmp_then_def Let_def comparator.cmp_refl [OF coll] z split del: if_split
            del: right_minus_eq cong: if_cong)
    qed (simp only: compareKubeVersions_def cmp_then_def option.case prod.case diff_self diff_0 diff_0_right
        not_False_eq_True if_True if_False zero_neq_one zero_neq_neg_one neg_equal_0_iff_equal
        one_neq_zero simp_thms split: prod.split)+
  qed
  moreover have "comparator ?c"
    by ((rule comparator_then comparator_diff)+, rule comparator_on [OF coll])
  ultimately show ?thesis by simp
qed

section \<open>Ages as sequences of tokens\<close>

definition age_text :: "jstring \<times> jstring \<Rightarrow> jstring" where
  "age_text t = fst t @ snd t"

definition age_value :: "jstring \<times> jstring \<Rightarrow> rat" where
  "age_value t = of_nat (nat_of_digits (fst t)) * the (map_of AGE_MULTIPLIERS (snd t))"

definition valid_age :: "(jstring \<times> jstring) list \<Rightarrow> bool" where
  "valid_age ts \<longleftrightarrow> list_all (\<lambda>(ds, u). ds \<noteq> [] \<and> list_all is_digit ds \<and> u \<in> set (keys AGE_MULTIPLIERS)) ts"

lemma age_unit_sound:
  "age_unit s = Some (m, rest) \<Longrightarrow> \<exists>u. u \<in> set (keys AGE_MULTIPLIERS) \<and> map_of AGE_MULTIPLIERS u = Some m \<and> s = u @ rest"
proof -
  assume "age_unit s = Some (m, rest)"
  then obtain u where u: "find (\<lambda>(u, m). starts_with u s) AGE_MULTIPLIERS = Some (u, m)" "rest = drop (length u) s"
    by (auto simp: age_unit_def)
  have "find P xs = Some y \<Longrightarrow> y \<in> set xs \<and> P y" for P and y :: "jstring \<times> rat" and xs
    by (induction xs) (auto split: if_splits)
  from this [OF u(1)] have m: "(u, m) \<in> set AGE_MULTIPLIERS" "starts_with u s" by auto
  moreover have "distinct (keys AGE_MULTIPLIERS)" by (simp add: AGE_MULTIPLIERS_def)
  ultimately have "map_of AGE_MULTIPLIERS u = Some m" by simp
  moreover have "s = u @ rest" using m(2) u(2) by (metis append_take_drop_id starts_with_def)
  ultimately show ?thesis using m(1) by force
qed

lemma age_token_sound:
  assumes "age_token s = Some (v, rest)"
  obtains t where "valid_age [t]" "s = age_text t @ rest" "v = age_value t"
proof -
  obtain m where m: "age_unit (after_digits s) = Some (m, rest)" "digits_of s \<noteq> []" "v = of_nat (nat_of_digits (digits_of s)) * m"
    using assms by (auto simp: age_token_def split: if_splits option.splits)
  from age_unit_sound [OF m(1)] obtain u where u: "u \<in> set (keys AGE_MULTIPLIERS)" "map_of AGE_MULTIPLIERS u = Some m"
    "after_digits s = u @ rest" by blast
  have "list_all is_digit (digits_of s)" by (auto simp: digits_of_def list_all_iff dest: set_takeWhileD)
  moreover have "s = digits_of s @ u @ rest" using digits_append [of s] u(3) by simp
  ultimately show ?thesis
    using that [of "(digits_of s, u)"] u m by (simp add: valid_age_def age_text_def age_value_def)
qed

lemma age_scan_sound:
  "case age_scan s of (tot, consumed) \<Rightarrow> consumed \<le> length s \<and>
     (consumed = length s \<longrightarrow> (\<exists>ts. valid_age ts \<and> s = concat (map age_text ts) \<and> tot = sum_list (map age_value ts)))"
proof (induction s rule: age_scan.induct)
  case (1 s)
  show ?case
  proof (cases "age_token s")
    case None
    show ?thesis
    proof (cases s)
      case Nil
      have "valid_age []" by (simp add: valid_age_def)
      with Nil None show ?thesis by (subst age_scan.simps) force
    next
      case (Cons c t)
      with 1(1) [OF None Cons] None show ?thesis by (subst age_scan.simps) (auto split: prod.splits)
    qed
  next
    case (Some p)
    obtain v rest where p: "p = (v, rest)" by fastforce
    obtain t where t: "valid_age [t]" "s = age_text t @ rest" "v = age_value t"
      using age_token_sound Some p by blast
    obtain tot consumed where r: "age_scan rest = (tot, consumed)" by fastforce
    have len: "length s - length rest = length (age_text t)" using t by simp
    have s: "age_scan s = (v + tot, length (age_text t) + consumed)"
      using Some p r len by (subst age_scan.simps) simp
    have IH: "consumed \<le> length rest"
      "consumed = length rest \<longrightarrow> (\<exists>ts. valid_age ts \<and> rest = concat (map age_text ts) \<and> tot = sum_list (map age_value ts))"
      using "1.IH"(2) [OF Some p [symmetric]] r by auto
    have "\<exists>ts. valid_age ts \<and> s = concat (map age_text ts) \<and> v + tot = sum_list (map age_value ts)"
      if "consumed = length rest"
    proof -
      from IH(2) that obtain ts where "valid_age ts" "rest = concat (map age_text ts)" "tot = sum_list (map age_value ts)" by blast
      with t show ?thesis by (intro exI [of _ "t # ts"]) (simp add: valid_age_def)
    qed
    with IH(1) t s show ?thesis by auto
  qed
qed

lemma age_unit_complete:
  assumes "u \<in> set (keys AGE_MULTIPLIERS)" "rest = [] \<or> is_digit (hd rest)"
  shows "age_unit (u @ rest) = Some (the (map_of AGE_MULTIPLIERS u), rest)"
proof -
  have "take (Suc 0) rest \<noteq> ''s''" using assms(2) by (cases rest) (auto simp: is_digit_def)
  then show ?thesis using assms(1)
    by (auto simp: AGE_MULTIPLIERS_def age_unit_def starts_with_def)
qed

lemma age_token_complete:
  assumes "valid_age [t]" "rest = [] \<or> is_digit (hd rest)"
  shows "age_token (age_text t @ rest) = Some (age_value t, rest)"
proof -
  obtain ds u where t: "t = (ds, u)" by fastforce
  have v: "ds \<noteq> []" "list_all is_digit ds" "u \<in> set (keys AGE_MULTIPLIERS)" using assms(1) t by (simp_all add: valid_age_def)
  have "u \<noteq> [] \<and> \<not> is_digit (hd u)" using v(3) by (auto simp: AGE_MULTIPLIERS_def is_digit_def)
  then have "takeWhile is_digit (u @ rest) = []" "dropWhile is_digit (u @ rest) = u @ rest"
    by (cases u; simp)+
  moreover have "\<forall>c \<in> set ds. is_digit c" using v(2) by (simp add: list_all_iff)
  ultimately have "digits_of (age_text t @ rest) = ds" "after_digits (age_text t @ rest) = u @ rest"
    using t by (simp_all add: digits_of_def after_digits_def age_text_def)
  then show ?thesis
    using v age_unit_complete [OF v(3) assms(2)] t by (simp add: age_token_def age_value_def)
qed

lemma valid_head_digit: "valid_age ts \<Longrightarrow> concat (map age_text ts) = [] \<or> is_digit (hd (concat (map age_text ts)))"
  by (cases ts; cases "fst (hd ts)") (auto simp: valid_age_def age_text_def)

lemma age_scan_complete:
  "valid_age ts \<Longrightarrow> age_scan (concat (map age_text ts)) = (sum_list (map age_value ts), length (concat (map age_text ts)))"
proof (induction ts)
  case Nil
  have "age_scan [] = (0, 0)" by (subst age_scan.simps) (simp add: age_token_def digits_of_def)
  then show ?case by simp
next
  case (Cons t ts)
  let ?rest = "concat (map age_text ts)"
  have v: "valid_age [t]" "valid_age ts" using Cons.prems by (simp_all add: valid_age_def)
  have tok: "age_token (age_text t @ ?rest) = Some (age_value t, ?rest)"
    by (rule age_token_complete [OF v(1) valid_head_digit [OF v(2)]])
  have "age_scan (age_text t @ ?rest) = (age_value t + sum_list (map age_value ts), length (age_text t @ ?rest))"
    by (subst age_scan.simps) (simp add: tok Cons.IH [OF v(2)])
  then show ?case by simp
qed

lemma parse_tokens:
  assumes "valid_age ts" "ts \<noteq> []" "trim cell = concat (map age_text ts)"
  shows "parseK8sAge cell = Some (sum_list (map age_value ts))"
proof -
  have "trim cell \<noteq> []" using assms by (cases ts) (auto simp: valid_age_def age_text_def)
  then show ?thesis
    unfolding parseK8sAge_def Let_def assms(3) using age_scan_complete [OF assms(1)] by simp
qed

text \<open>
  A cell is an age exactly when it reads, without gaps, as a sequence of numbers with units, and its
  value is then the sum of the tokens: \<^verbatim>\<open>"2m30s"\<close> is 150 seconds, \<^verbatim>\<open>"3 (2m ago)"\<close> and \<^verbatim>\<open>"5x"\<close> are not ages.
\<close>

theorem ages_are_token_sequences:
  "parseK8sAge cell = Some v \<longleftrightarrow>
     (\<exists>ts. valid_age ts \<and> ts \<noteq> [] \<and> trim cell = concat (map age_text ts) \<and> v = sum_list (map age_value ts))"
proof
  assume a: "parseK8sAge cell = Some v"
  then obtain n where n: "age_scan (trim cell) = (v, n)" "n = length (trim cell)" "0 < n"
    by (auto simp: parseK8sAge_def Let_def split: if_splits prod.splits)
  with age_scan_sound [of "trim cell"] obtain ts where "valid_age ts" "trim cell = concat (map age_text ts)"
    "v = sum_list (map age_value ts)" by auto
  moreover from this n have "ts \<noteq> []" by auto
  ultimately show "\<exists>ts. valid_age ts \<and> ts \<noteq> [] \<and> trim cell = concat (map age_text ts) \<and> v = sum_list (map age_value ts)" by blast
next
  assume "\<exists>ts. valid_age ts \<and> ts \<noteq> [] \<and> trim cell = concat (map age_text ts) \<and> v = sum_list (map age_value ts)"
  then show "parseK8sAge cell = Some v" using parse_tokens by blast
qed

lemma parse_age_examples:
  "parseK8sAge ''2m30s'' = Some 150" "parseK8sAge ''3 (2m ago)'' = None" "parseK8sAge ''5x'' = None"
  by code_simp+

section \<open>Sorting\<close>

text \<open>The collation \<^verbatim>\<open>str_cmp\<close> provides, as a rational.\<close>

definition plain_collation :: "jstring \<Rightarrow> jstring \<Rightarrow> rat" where
  "plain_collation a b = of_int (str_cmp a b)"

interpretation plain: comparator plain_collation
proof
  show "plain_collation a b \<le> 0 \<longleftrightarrow> 0 \<le> plain_collation b a" for a b
    using code_units.cmp_swap [of a b] by (simp add: plain_collation_def)
  show "plain_collation a c \<le> 0" if "plain_collation a b \<le> 0" "plain_collation b c \<le> 0" for a b c
    using that str_cmp_trans [of a b c] by (simp add: plain_collation_def)
qed

text \<open>
  Sorting a table column is well defined whatever shapes its cells mix: under a consistent collation
  the comparator is a total preorder, so the sorted column is ordered, keeps every cell and keeps equal
  cells in their order, and it lists numbers first, then ages, then text, with the empty cells last.
\<close>

theorem column_sort_well_defined:
  assumes "comparator coll"
  shows "let out = js_sort (compareTableValues coll) cells in
     sorted_wrt (\<lambda>a b. compareTableValues coll a b \<le> 0) out \<and> mset out = mset cells \<and>
     filter (\<lambda>c. compareTableValues coll cell c = 0) out = filter (\<lambda>c. compareTableValues coll cell c = 0) cells \<and>
     sorted (map (\<lambda>c. shape_rank (cell_shape c)) out)"
proof -
  have t: "comparator (compareTableValues coll)" by (rule comparator_table [OF assms])
  let ?out = "js_sort (compareTableValues coll) cells"
  have s: "sorted_wrt (\<lambda>a b. compareTableValues coll a b \<le> 0) ?out" by (rule comparator.js_sort_sorted [OF t])
  have rk: "shape_cmp coll x y \<le> 0 \<Longrightarrow> shape_rank x \<le> shape_rank y" for x y
    by (cases x; cases y) simp_all
  have sh: "shape_cmp coll (cell_shape a) (cell_shape b) \<le> 0" if "compareTableValues coll a b \<le> 0" for a b
    using that compare_sgn [of coll a b] by (auto simp: sgn_if split: if_splits)
  have "sorted_wrt (\<lambda>a b. shape_rank (cell_shape a) \<le> shape_rank (cell_shape b)) ?out"
    by (rule sorted_wrt_mono_rel [OF _ s]) (rule rk [OF sh])
  then have "sorted (map (\<lambda>c. shape_rank (cell_shape c)) ?out)" by (simp add: sorted_map)
  with s comparator.js_sort_stable [OF t] show ?thesis by (simp add: Let_def)
qed

theorem column_sort_well_defined_witness:
  "sorted (map (\<lambda>c. shape_rank (cell_shape c))
     (js_sort (compareTableValues plain_collation) [''3 (2m ago)'', ''10'', ''5m'', ''<none>'', ''2'']))"
  using column_sort_well_defined [OF plain.comparator_axioms, of "[''3 (2m ago)'', ''10'', ''5m'', ''<none>'', ''2'']"]
  by (simp only: Let_def)

text \<open>The version order: stable before beta before alpha, then the numbers; other names below all of them.\<close>

lemma version_order_examples:
  "0 < compareKubeVersions plain_collation ''v1'' ''v2beta1''"
  "0 < compareKubeVersions plain_collation ''v2beta2'' ''v2beta1''"
  "0 < compareKubeVersions plain_collation ''v1beta1'' ''v2alpha1''"
  "compareKubeVersions plain_collation ''stable'' ''v1alpha1'' < 0"
  by code_simp+

lemma sentinel_is_no_namespace: "\<not> isDNS1123Label CLUSTER_SCOPE_SENTINEL"
  by code_simp

lemma label_bounds: "isDNS1123Label s \<Longrightarrow> 0 < length s \<and> length s \<le> 63"
  by (cases s) (auto simp: isDNS1123Label_def)

text \<open>A namespace is one path segment: it needs no escaping.\<close>

lemma label_chars: "isDNS1123Label s \<Longrightarrow> c \<in> set s \<Longrightarrow> c = CHR ''-'' \<or> label_char c"
proof (cases s)
  case (Cons d rest)
  assume l: "isDNS1123Label s" and c: "c \<in> set s"
  show ?thesis
  proof (cases "rest = []")
    case False
    then have "set rest = insert (last rest) (set (butlast rest))"
      by (metis append_butlast_last_id insert_is_Un list.set(1) list.set(2) set_append sup_commute)
    with l c Cons False show ?thesis by (auto simp: isDNS1123Label_def list_all_iff)
  qed (use l c Cons in \<open>auto simp: isDNS1123Label_def\<close>)
qed simp

end
