(* ===== verification/Catalog.thy ===== *)
theory Catalog
  imports TableSort
begin

text \<open>
  \<^verbatim>\<open>web/src/utils/resourceCatalog.ts\<close> and the look-ups of \<^verbatim>\<open>web/src/composables/useDiscovery.ts\<close>: from the
  server's discovery document to the sidebar's sections and to the resource a link leads to.
\<close>

section \<open>The catalog\<close>

record discovery_resource =
  dr_id :: jstring
  dr_group :: jstring
  dr_version :: jstring
  dr_resource :: jstring
  dr_kind :: jstring
  dr_namespaced :: bool
  dr_verbs :: "jstring list option"
  dr_shortNames :: "jstring list option"

datatype section_name = Workloads | Networking | Configuration | Storage | RBAC | Cluster | CustomOther

definition SECTION_NAMES :: "section_name list" where
  "SECTION_NAMES = [Workloads, Networking, Configuration, Storage, RBAC, Cluster, CustomOther]"

record catalog_section =
  cs_name :: section_name
  cs_resources :: "discovery_resource list"

definition SECTION_BY_RESOURCE :: "(jstring \<times> section_name) list" where
  "SECTION_BY_RESOURCE =
     [(''/pods'', Workloads), (''apps/deployments'', Workloads), (''apps/statefulsets'', Workloads),
      (''apps/daemonsets'', Workloads), (''apps/replicasets'', Workloads), (''batch/jobs'', Workloads),
      (''batch/cronjobs'', Workloads), (''/replicationcontrollers'', Workloads),
      (''/services'', Networking), (''/endpoints'', Networking), (''discovery.k8s.io/endpointslices'', Networking),
      (''networking.k8s.io/ingresses'', Networking), (''networking.k8s.io/ingressclasses'', Networking),
      (''networking.k8s.io/networkpolicies'', Networking),
      (''/persistentvolumeclaims'', Storage), (''/persistentvolumes'', Storage),
      (''storage.k8s.io/storageclasses'', Storage), (''storage.k8s.io/volumeattachments'', Storage),
      (''storage.k8s.io/csidrivers'', Storage), (''storage.k8s.io/csinodes'', Storage),
      (''/configmaps'', Configuration), (''/secrets'', Configuration), (''/resourcequotas'', Configuration),
      (''/limitranges'', Configuration), (''autoscaling/horizontalpodautoscalers'', Configuration),
      (''policy/poddisruptionbudgets'', Configuration), (''scheduling.k8s.io/priorityclasses'', Configuration),
      (''rbac.authorization.k8s.io/roles'', RBAC), (''rbac.authorization.k8s.io/rolebindings'', RBAC),
      (''rbac.authorization.k8s.io/clusterroles'', RBAC), (''rbac.authorization.k8s.io/clusterrolebindings'', RBAC),
      (''/serviceaccounts'', RBAC),
      (''/namespaces'', Cluster), (''/nodes'', Cluster), (''/events'', Cluster), (''events.k8s.io/events'', Cluster),
      (''apiextensions.k8s.io/customresourcedefinitions'', Cluster), (''apiregistration.k8s.io/apiservices'', Cluster),
      (''coordination.k8s.io/leases'', Cluster), (''node.k8s.io/runtimeclasses'', Cluster),
      (''flowcontrol.apiserver.k8s.io/flowschemas'', Cluster),
      (''flowcontrol.apiserver.k8s.io/prioritylevelconfigurations'', Cluster)]"

definition resource_key :: "discovery_resource \<Rightarrow> jstring" where
  "resource_key res = dr_group res @ ''/'' @ dr_resource res"

definition sectionFor :: "discovery_resource \<Rightarrow> section_name" where
  "sectionFor res =
     (let g = (if dr_group res = ''core'' then [] else dr_group res)
      in case map_of SECTION_BY_RESOURCE (g @ ''/'' @ dr_resource res) of Some n \<Rightarrow> n | None \<Rightarrow> CustomOther)"

definition MIRRORED_RESOURCES :: "(jstring \<times> jstring) list" where
  "MIRRORED_RESOURCES = [(''events.k8s.io/events'', ''/events'')]"

definition listable :: "discovery_resource \<Rightarrow> bool" where
  "listable res \<longleftrightarrow> ''list'' \<in> set (case dr_verbs res of Some vs \<Rightarrow> vs | None \<Rightarrow> [])"

type_synonym catalog_map = "(jstring \<times> discovery_resource) list"

definition keep_best :: "(jstring \<Rightarrow> jstring \<Rightarrow> rat) \<Rightarrow> discovery_resource \<Rightarrow> catalog_map \<Rightarrow> catalog_map" where
  "keep_best coll res byKey =
     (if \<not> listable res then byKey
      else case map_of byKey (resource_key res) of
             None \<Rightarrow> AList.update (resource_key res) res byKey
           | Some existing \<Rightarrow>
               if 0 < compareKubeVersions coll (dr_version res) (dr_version existing)
               then AList.update (resource_key res) res byKey else byKey)"

definition by_key :: "(jstring \<Rightarrow> jstring \<Rightarrow> rat) \<Rightarrow> discovery_resource list \<Rightarrow> catalog_map" where
  "by_key coll resources = fold (keep_best coll) resources []"

definition is_mirror :: "catalog_map \<Rightarrow> discovery_resource \<Rightarrow> bool" where
  "is_mirror byKey res \<longleftrightarrow>
     (case map_of MIRRORED_RESOURCES (resource_key res) of
        None \<Rightarrow> False
      | Some canonical \<Rightarrow> canonical \<in> set (keys byKey))"

type_synonym section_map = "(section_name \<times> discovery_resource list) list"

definition place :: "catalog_map \<Rightarrow> discovery_resource \<Rightarrow> section_map \<Rightarrow> section_map" where
  "place byKey res sections =
     (if is_mirror byKey res then sections
      else AList.map_entry (sectionFor res) (\<lambda>l. l @ [res]) sections)"

definition buildCatalog :: "(jstring \<Rightarrow> jstring \<Rightarrow> rat) \<Rightarrow> discovery_resource list \<Rightarrow> catalog_section list" where
  "buildCatalog coll resources =
     (let byKey = by_key coll resources;
          sections = fold (place byKey) (map snd byKey) (map (\<lambda>n. (n, [])) SECTION_NAMES)
      in concat (map (\<lambda>n.
           let l = js_sort (\<lambda>a b. coll (dr_resource a) (dr_resource b)) (case map_of sections n of Some l \<Rightarrow> l | None \<Rightarrow> [])
           in if l = [] then [] else [\<lparr>cs_name = n, cs_resources = l\<rparr>]) SECTION_NAMES))"

definition matchesSearch :: "discovery_resource \<Rightarrow> jstring \<Rightarrow> bool" where
  "matchesSearch res query =
     (let q = to_lower (trim query) in
      if q = [] then True
      else str_includes q (to_lower (dr_resource res)) \<or> str_includes q (to_lower (dr_kind res)) \<or>
           str_includes q (to_lower (dr_group res)) \<or>
           list_ex (\<lambda>s. str_includes q (to_lower s)) (case dr_shortNames res of Some l \<Rightarrow> l | None \<Rightarrow> []))"

section \<open>Look-ups\<close>

definition findResource :: "discovery_resource list \<Rightarrow> jstring \<Rightarrow> jstring \<Rightarrow> jstring \<Rightarrow> discovery_resource option" where
  "findResource resources g version resource =
     (let apiGroup = (if g = ''core'' then [] else g)
      in find (\<lambda>r. dr_group r = apiGroup \<and> dr_version r = version \<and> dr_resource r = resource) resources)"

definition canGet :: "discovery_resource \<Rightarrow> bool" where
  "canGet r = (let verbs = (case dr_verbs r of Some vs \<Rightarrow> vs | None \<Rightarrow> []) in verbs = [] \<or> ''get'' \<in> set verbs)"

definition split_apiVersion :: "jstring \<Rightarrow> jstring \<times> jstring" where
  "split_apiVersion apiVersion =
     (if CHR ''/'' \<in> set apiVersion
      then (takeWhile (\<lambda>c. c \<noteq> CHR ''/'') apiVersion, tl (dropWhile (\<lambda>c. c \<noteq> CHR ''/'') apiVersion))
      else ([], apiVersion))"

definition findByKind :: "discovery_resource list \<Rightarrow> jstring \<Rightarrow> jstring \<Rightarrow> discovery_resource option" where
  "findByKind resources apiVersion kind =
     (case split_apiVersion apiVersion of
        (g, version) \<Rightarrow> find (\<lambda>r. dr_group r = g \<and> dr_version r = version \<and> dr_kind r = kind \<and> canGet r) resources)"

definition kind_candidate :: "jstring \<Rightarrow> jstring option \<Rightarrow> discovery_resource \<Rightarrow> bool" where
  "kind_candidate kind g r \<longleftrightarrow>
     to_lower (dr_kind r) = to_lower kind \<and> (case g of None \<Rightarrow> True | Some g' \<Rightarrow> dr_group r = g') \<and> canGet r"

definition better_kind ::
  "(jstring \<Rightarrow> jstring \<Rightarrow> rat) \<Rightarrow> jstring \<Rightarrow> jstring option \<Rightarrow> discovery_resource \<Rightarrow> discovery_resource option \<Rightarrow> discovery_resource option" where
  "better_kind coll kind g r best =
     (if \<not> kind_candidate kind g r then best
      else case best of
             None \<Rightarrow> Some r
           | Some b \<Rightarrow>
               if dr_group r \<noteq> dr_group b then (if dr_group r = [] then Some r else Some b)
               else if 0 < compareKubeVersions coll (dr_version r) (dr_version b) then Some r
               else Some b)"

definition findByLowerKind ::
  "(jstring \<Rightarrow> jstring \<Rightarrow> rat) \<Rightarrow> discovery_resource list \<Rightarrow> jstring \<Rightarrow> jstring option \<Rightarrow> discovery_resource option" where
  "findByLowerKind coll resources kind g = fold (better_kind coll kind g) resources None"

section \<open>Deduplication\<close>

text \<open>The versions kept: the key map of a prefix holds, for each key of a listable resource, a listable
  resource with that key that no other one of the prefix outranks.\<close>

definition best_of :: "(jstring \<Rightarrow> jstring \<Rightarrow> rat) \<Rightarrow> discovery_resource list \<Rightarrow> catalog_map \<Rightarrow> bool" where
  "best_of coll rs m \<longleftrightarrow> amap_ok m \<and>
     (\<forall>k r. map_of m k = Some r \<longrightarrow> r \<in> set rs \<and> listable r \<and> resource_key r = k) \<and>
     (\<forall>r \<in> set rs. listable r \<longrightarrow>
        (\<exists>b. map_of m (resource_key r) = Some b \<and> compareKubeVersions coll (dr_version r) (dr_version b) \<le> 0))"

lemma best_of_step:
  assumes coll: "comparator coll" and "best_of coll rs m"
  shows "best_of coll (rs @ [r]) (keep_best coll r m)"
proof -
  note v = comparator_version [OF coll]
  have upd: "best_of coll (rs @ [r]) (AList.update (resource_key r) r m)"
    if l: "listable r" and le: "\<And>b. map_of m (resource_key r) = Some b \<Longrightarrow>
      compareKubeVersions coll (dr_version b) (dr_version r) \<le> 0"
  proof -
    have "\<exists>b. map_of (AList.update (resource_key r) r m) (resource_key q) = Some b \<and>
        compareKubeVersions coll (dr_version q) (dr_version b) \<le> 0"
      if q: "q \<in> set (rs @ [r])" "listable q" for q
    proof (cases "resource_key q = resource_key r")
      case True
      have "compareKubeVersions coll (dr_version q) (dr_version r) \<le> 0"
      proof (cases "q = r")
        case False
        with q assms(2) obtain b where "map_of m (resource_key q) = Some b"
          "compareKubeVersions coll (dr_version q) (dr_version b) \<le> 0" by (auto simp: best_of_def)
        then show ?thesis using le [of b] True comparator.cmp_trans [OF v] by metis
      qed (simp add: comparator.cmp_refl [OF v])
      then show ?thesis using True by (simp add: update_conv')
    next
      case False
      with q have "q \<in> set rs" by auto
      then show ?thesis using q(2) assms(2) False by (simp add: best_of_def update_conv')
    qed
    moreover have "amap_ok (AList.update (resource_key r) r m)" using assms(2) by (simp add: best_of_def)
    moreover have "q \<in> set (rs @ [r]) \<and> listable q \<and> resource_key q = k"
      if "map_of (AList.update (resource_key r) r m) k = Some q" for k q
      using that l assms(2) by (auto simp: best_of_def update_conv' split: if_splits)
    ultimately show ?thesis unfolding best_of_def by blast
  qed
  have keep: "best_of coll (rs @ [r]) m"
    if "listable r \<Longrightarrow> \<exists>b. map_of m (resource_key r) = Some b \<and> compareKubeVersions coll (dr_version r) (dr_version b) \<le> 0"
    using that assms(2) by (auto simp: best_of_def)
  show ?thesis
  proof (cases "listable r")
    case True
    show ?thesis
    proof (cases "map_of m (resource_key r)")
      case None
      then show ?thesis using upd [OF True] True by (simp add: keep_best_def)
    next
      case (Some b)
      show ?thesis
      proof (cases "0 < compareKubeVersions coll (dr_version r) (dr_version b)")
        case gt: True
        then have "compareKubeVersions coll (dr_version b) (dr_version r) \<le> 0" using comparator.cmp_swap [OF v] by (metis order_less_imp_le)
        then show ?thesis using upd [OF True] gt True Some by (simp add: keep_best_def)
      next
        case False
        then show ?thesis using keep True Some by (simp add: keep_best_def)
      qed
    qed
  qed (use keep in \<open>simp add: keep_best_def\<close>)
qed

lemma by_key_best: "comparator coll \<Longrightarrow> best_of coll rs (by_key coll rs)"
proof (induction rs rule: rev_induct)
  case Nil
  show ?case by (simp add: best_of_def by_key_def)
next
  case (snoc r rs)
  then show ?case using best_of_step [of coll rs "by_key coll rs" r] by (simp add: by_key_def)
qed

section \<open>Sections\<close>

lemma map_of_place:
  "n \<in> set (keys secs) \<Longrightarrow>
   map_of (fold (place m) rs secs) n =
     Some (the (map_of secs n) @ filter (\<lambda>r. \<not> is_mirror m r \<and> sectionFor r = n) rs)"
proof (induction rs arbitrary: secs)
  case Nil
  then show ?case by (auto simp: map_of_eq_None_iff dest: weak_map_of_SomeI)
next
  case (Cons r rs)
  have k: "keys (place m r secs) = keys secs"
    by (simp add: place_def) (induction secs; auto)
  have "the (map_of (place m r secs) n) = the (map_of secs n) @ (if \<not> is_mirror m r \<and> sectionFor r = n then [r] else [])"
    using Cons.prems by (auto simp: place_def AList.map_of_map_entry map_of_eq_None_iff image_iff split: option.splits)
  with Cons.IH [of "place m r secs"] Cons.prems k show ?case by simp
qed

definition shown :: "catalog_section list \<Rightarrow> discovery_resource list" where
  "shown out = concat (map cs_resources out)"

definition section_list :: "(jstring \<Rightarrow> jstring \<Rightarrow> rat) \<Rightarrow> catalog_map \<Rightarrow> section_name \<Rightarrow> discovery_resource list" where
  "section_list coll m n = js_sort (\<lambda>a b. coll (dr_resource a) (dr_resource b))
     (filter (\<lambda>r. \<not> is_mirror m r \<and> sectionFor r = n) (map snd m))"

lemma buildCatalog_sections:
  "buildCatalog coll rs = concat (map (\<lambda>n. if section_list coll (by_key coll rs) n = [] then []
     else [\<lparr>cs_name = n, cs_resources = section_list coll (by_key coll rs) n\<rparr>]) SECTION_NAMES)"
proof -
  let ?m = "by_key coll rs" and ?init = "map (\<lambda>n. (n, [])) SECTION_NAMES :: section_map"
  have "map_of (fold (place ?m) (map snd ?m) ?init) n = Some (filter (\<lambda>r. \<not> is_mirror ?m r \<and> sectionFor r = n) (map snd ?m))"
    for n
  proof -
    have "n \<in> set (keys ?init)" "map_of ?init n = Some []" by (cases n; simp add: SECTION_NAMES_def)+
    with map_of_place [of n ?init ?m "map snd ?m"] show ?thesis by simp
  qed
  then show ?thesis by (simp add: buildCatalog_def Let_def section_list_def cong: if_cong)
qed

lemma shown_mset: "mset (shown (buildCatalog coll rs)) = mset (filter (\<lambda>r. \<not> is_mirror (by_key coll rs) r) (map snd (by_key coll rs)))"
proof -
  let ?m = "by_key coll rs"
  have "mset (concat (map cs_resources (concat (map (\<lambda>n. if f n = [] then [] else [\<lparr>cs_name = n, cs_resources = f n\<rparr>]) ns)))) =
      sum_list (map (\<lambda>n. mset (f n)) ns)" for f ns
    by (induction ns) auto
  then have "mset (shown (buildCatalog coll rs)) = sum_list (map (\<lambda>n. mset (section_list coll ?m n)) SECTION_NAMES)"
    by (simp add: shown_def buildCatalog_sections)
  also have "\<dots> = sum_list (map (\<lambda>n. mset (filter (\<lambda>r. \<not> is_mirror ?m r \<and> sectionFor r = n) (map snd ?m))) SECTION_NAMES)"
    by (simp add: section_list_def)
  also have "\<dots> = mset (filter (\<lambda>r. \<not> is_mirror ?m r) rs')" if "rs' = map snd ?m" for rs'
    unfolding that [symmetric]
  proof (induction rs')
    case (Cons r rs')
    then show ?case by (cases "sectionFor r") (auto simp: SECTION_NAMES_def)
  qed (simp add: SECTION_NAMES_def)
  finally show ?thesis by simp
qed

lemma shown_distinct:
  assumes "best_of coll rs (by_key coll rs)"
  shows "distinct (map resource_key (shown (buildCatalog coll rs)))"
proof -
  let ?m = "by_key coll rs"
  have "(k, r) \<in> set ?m \<Longrightarrow> resource_key r = k" for k r
    using assms map_of_eq_Some_iff' [of ?m k r] by (auto simp: best_of_def)
  then have "map resource_key (map snd ?m) = keys ?m" by auto
  then have "distinct (map resource_key (map snd ?m))" using assms by (simp only: best_of_def amap_ok_def)
  then have "distinct (map resource_key (filter (\<lambda>r. \<not> is_mirror ?m r) (map snd ?m)))"
    by (rule distinct_map_filter)
  moreover have "mset (map resource_key (shown (buildCatalog coll rs))) = mset (map resource_key (filter (\<lambda>r. \<not> is_mirror ?m r) (map snd ?m)))"
    by (simp add: shown_mset)
  ultimately show ?thesis by (metis mset_eq_imp_distinct_iff)
qed

lemma set_shown:
  assumes "best_of coll rs (by_key coll rs)"
  shows "r \<in> set (shown (buildCatalog coll rs)) \<longleftrightarrow>
    map_of (by_key coll rs) (resource_key r) = Some r \<and> \<not> is_mirror (by_key coll rs) r"
proof -
  let ?m = "by_key coll rs"
  have "r \<in> set (shown (buildCatalog coll rs)) \<longleftrightarrow> r \<in> set (filter (\<lambda>r. \<not> is_mirror ?m r) (map snd ?m))"
    using arg_cong [OF shown_mset [of coll rs], of set_mset] by simp
  also have "\<dots> \<longleftrightarrow> map_of ?m (resource_key r) = Some r \<and> \<not> is_mirror ?m r"
  proof -
    have "map_of ?m k = Some r \<longleftrightarrow> (k, r) \<in> set ?m" for k
      using assms map_of_eq_Some_iff' [of ?m k r] by (auto simp: best_of_def)
    moreover have "(k, r) \<in> set ?m \<Longrightarrow> resource_key r = k" for k
      using assms map_of_eq_Some_iff' [of ?m k r] by (auto simp: best_of_def)
    ultimately show ?thesis by force
  qed
  finally show ?thesis .
qed

lemma canonical_not_mirror: "map_of MIRRORED_RESOURCES k = Some c \<Longrightarrow> map_of MIRRORED_RESOURCES c = None"
  by (simp add: MIRRORED_RESOURCES_def split: if_splits)

lemma listable_is_shown:
  assumes "best_of coll rs (by_key coll rs)" "r \<in> set rs" "listable r"
  shows "\<exists>s \<in> set (shown (buildCatalog coll rs)).
    (resource_key s = resource_key r \<and> compareKubeVersions coll (dr_version r) (dr_version s) \<le> 0) \<or>
    map_of MIRRORED_RESOURCES (resource_key r) = Some (resource_key s)"
proof -
  let ?m = "by_key coll rs"
  have b: "\<And>k r. map_of ?m k = Some r \<Longrightarrow> resource_key r = k" using assms(1) by (simp add: best_of_def)
  obtain s where s: "map_of ?m (resource_key r) = Some s" "compareKubeVersions coll (dr_version r) (dr_version s) \<le> 0"
    using assms by (auto simp: best_of_def)
  have sk: "resource_key s = resource_key r" using b s(1) .
  show ?thesis
  proof (cases "is_mirror ?m s")
    case False
    then have "s \<in> set (shown (buildCatalog coll rs))" using s(1) sk set_shown [OF assms(1)] by simp
    with s(2) sk show ?thesis by blast
  next
    case True
    then obtain c where c: "map_of MIRRORED_RESOURCES (resource_key r) = Some c" "c \<in> set (keys ?m)"
      using sk by (auto simp: is_mirror_def split: option.splits)
    then obtain t where t: "map_of ?m c = Some t" by (meson map_of_None_iff not_None_eq)
    have tk: "resource_key t = c" using b t .
    then have "\<not> is_mirror ?m t" using canonical_not_mirror [OF c(1)] by (simp add: is_mirror_def)
    then have "t \<in> set (shown (buildCatalog coll rs))" using t tk set_shown [OF assms(1)] by simp
    with c(1) tk show ?thesis by blast
  qed
qed

lemma sections_sorted:
  assumes "comparator coll"
  shows "list_all (\<lambda>sec. cs_resources sec \<noteq> [] \<and> list_all (\<lambda>r. sectionFor r = cs_name sec) (cs_resources sec) \<and>
     sorted_wrt (\<lambda>a b. coll (dr_resource a) (dr_resource b) \<le> 0) (cs_resources sec)) (buildCatalog coll rs)"
proof -
  have "sorted_wrt (\<lambda>a b. coll (dr_resource a) (dr_resource b) \<le> 0) (section_list coll m n)" for m n
    unfolding section_list_def by (rule comparator.js_sort_sorted [OF comparator_on [OF assms]])
  then show ?thesis
    unfolding buildCatalog_sections list_all_iff
    by (auto simp: section_list_def split: if_splits)
qed

text \<open>
  The sidebar hides nothing it can list and repeats nothing: every listable resource of the discovery
  document is in the catalog under its key, in a version that none of those offered outranks (a mirrored
  API is there as its canonical resource); no key appears twice, only discovered listable resources
  appear, and every section is non-empty, holds what belongs to it and is ordered by name.
\<close>

theorem catalog_complete:
  assumes "comparator coll"
  shows "let out = buildCatalog coll rs in
     distinct (map resource_key (shown out)) \<and>
     list_all (\<lambda>s. s \<in> set rs \<and> listable s) (shown out) \<and>
     (\<forall>r \<in> set rs. listable r \<longrightarrow> (\<exists>s \<in> set (shown out).
        (resource_key s = resource_key r \<and> compareKubeVersions coll (dr_version r) (dr_version s) \<le> 0) \<or>
        map_of MIRRORED_RESOURCES (resource_key r) = Some (resource_key s))) \<and>
     list_all (\<lambda>sec. cs_resources sec \<noteq> [] \<and> list_all (\<lambda>r. sectionFor r = cs_name sec) (cs_resources sec) \<and>
        sorted_wrt (\<lambda>a b. coll (dr_resource a) (dr_resource b) \<le> 0) (cs_resources sec)) out"
proof -
  note b = by_key_best [OF assms, of rs]
  have "list_all (\<lambda>s. s \<in> set rs \<and> listable s) (shown (buildCatalog coll rs))"
    using b set_shown [OF b] by (auto simp: list_all_iff best_of_def)
  with shown_distinct [OF b] listable_is_shown [OF b] sections_sorted [OF assms] show ?thesis
    unfolding Let_def by blast
qed

definition example_discovery :: "discovery_resource list" where
  "example_discovery =
     [\<lparr>dr_id = ''a'', dr_group = ''autoscaling'', dr_version = ''v1'', dr_resource = ''hpas'', dr_kind = ''HPA'', dr_namespaced = True, dr_verbs = Some [''list''], dr_shortNames = None\<rparr>,
      \<lparr>dr_id = ''b'', dr_group = ''autoscaling'', dr_version = ''v2'', dr_resource = ''hpas'', dr_kind = ''HPA'', dr_namespaced = True, dr_verbs = Some [''get'', ''list''], dr_shortNames = None\<rparr>,
      \<lparr>dr_id = ''c'', dr_group = [], dr_version = ''v1'', dr_resource = ''bindings'', dr_kind = ''Binding'', dr_namespaced = True, dr_verbs = Some [''create''], dr_shortNames = None\<rparr>]"

theorem catalog_complete_witness:
  "distinct (map resource_key (shown (buildCatalog plain_collation example_discovery))) \<and>
   example_discovery ! 1 \<in> set example_discovery \<and> listable (example_discovery ! 1)"
  using catalog_complete [OF plain.comparator_axioms, of example_discovery]
  by (simp add: Let_def example_discovery_def listable_def)

section \<open>Looking a kind up\<close>

definition kind_choice ::
  "(jstring \<Rightarrow> jstring \<Rightarrow> rat) \<Rightarrow> discovery_resource list \<Rightarrow> discovery_resource option \<Rightarrow> bool" where
  "kind_choice coll cs best \<longleftrightarrow>
     (case best of
        None \<Rightarrow> cs = []
      | Some b \<Rightarrow> b \<in> set cs \<and>
          (if list_ex (\<lambda>r. dr_group r = []) cs then dr_group b = [] else True) \<and>
          list_all (\<lambda>r. if dr_group r = dr_group b then compareKubeVersions coll (dr_version r) (dr_version b) \<le> 0 else True) cs)"

lemma better_kind_choice:
  assumes "comparator coll" and "kind_choice coll cs best" "kind_candidate kind g r"
  shows "kind_choice coll (cs @ [r]) (better_kind coll kind g r best)"
proof (cases best)
  case None
  then show ?thesis
    using assms(2,3) comparator.cmp_refl [OF comparator_version [OF assms(1)]]
    by (simp add: kind_choice_def better_kind_def)
next
  case (Some b)
  note v = comparator_version [OF assms(1)]
  have cs: "b \<in> set cs" "if list_ex (\<lambda>r. dr_group r = []) cs then dr_group b = [] else True"
    "list_all (\<lambda>r. if dr_group r = dr_group b then compareKubeVersions coll (dr_version r) (dr_version b) \<le> 0 else True) cs"
    using assms(2) Some by (simp_all add: kind_choice_def)
  consider "dr_group r \<noteq> dr_group b" "dr_group r = []" | "dr_group r \<noteq> dr_group b" "dr_group r \<noteq> []"
    | "dr_group r = dr_group b" "0 < compareKubeVersions coll (dr_version r) (dr_version b)"
    | "dr_group r = dr_group b" "compareKubeVersions coll (dr_version r) (dr_version b) \<le> 0"
    by fastforce
  then show ?thesis
  proof cases
    case 1
    then have "\<not> list_ex (\<lambda>r. dr_group r = []) cs" using cs(2) by auto
    then have "list_all (\<lambda>q. if dr_group q = dr_group r then compareKubeVersions coll (dr_version q) (dr_version r) \<le> 0 else True) cs"
      using 1(2) by (auto simp: list_all_iff list_ex_iff)
    then show ?thesis using 1 Some assms(3) comparator.cmp_refl [OF v]
      by (simp add: kind_choice_def better_kind_def)
  next
    case 2
    then show ?thesis using Some assms(3) cs by (auto simp: kind_choice_def better_kind_def list_ex_iff)
  next
    case 3
    then have "compareKubeVersions coll (dr_version b) (dr_version r) \<le> 0"
      using comparator.cmp_swap [OF v] by (metis order_less_imp_le)
    then have "list_all (\<lambda>q. if dr_group q = dr_group r then compareKubeVersions coll (dr_version q) (dr_version r) \<le> 0 else True) cs"
      using cs(3) 3(1) comparator.cmp_trans [OF v] unfolding list_all_iff by (metis (no_types, lifting))
    then show ?thesis using 3 Some assms(3) cs(1,2) comparator.cmp_refl [OF v]
      by (auto simp: kind_choice_def better_kind_def list_ex_iff)
  next
    case 4
    then show ?thesis using Some assms(3) cs by (auto simp: kind_choice_def better_kind_def list_ex_iff)
  qed
qed

lemma fold_better_kind:
  assumes "comparator coll"
  shows "kind_choice coll (filter (kind_candidate kind g) rs) (fold (better_kind coll kind g) rs None)"
proof (induction rs rule: rev_induct)
  case (snoc r rs)
  show ?case
  proof (cases "kind_candidate kind g r")
    case True
    with better_kind_choice [OF assms snoc True] show ?thesis by simp
  qed (use snoc in \<open>simp add: better_kind_def\<close>)
qed (simp add: kind_choice_def)

text \<open>
  A link resolved by kind alone leads somewhere whenever it can: \<^verbatim>\<open>findByLowerKind\<close> finds a resource
  exactly when a gettable one has that kind (in the given group), prefers the core group whenever the
  core group has one, and never settles for a version that another candidate of the same group outranks.
\<close>

theorem kind_lookup_is_best:
  assumes "comparator coll"
  shows "kind_choice coll (filter (kind_candidate kind g) rs) (findByLowerKind coll rs kind g)"
  unfolding findByLowerKind_def by (rule fold_better_kind [OF assms])

theorem kind_lookup_is_best_witness:
  "kind_choice plain_collation (filter (kind_candidate ''hpa'' None) example_discovery)
     (findByLowerKind plain_collation example_discovery ''hpa'' None)"
  by (rule kind_lookup_is_best [OF plain.comparator_axioms])

lemma apiVersion_split: "CHR ''/'' \<notin> set g \<Longrightarrow> split_apiVersion (g @ ''/'' @ v) = (g, v) \<and> (CHR ''/'' \<notin> set v \<longrightarrow> split_apiVersion v = ([], v))"
proof -
  assume g: "CHR ''/'' \<notin> set g"
  then have "takeWhile (\<lambda>c. c \<noteq> CHR ''/'') (g @ ''/'' @ v) = g" "dropWhile (\<lambda>c. c \<noteq> CHR ''/'') (g @ ''/'' @ v) = ''/'' @ v"
    by (induction g) auto
  then show ?thesis by (simp add: split_apiVersion_def)
qed

end
