(* ===== verification/PodHealth.thy ===== *)
theory PodHealth
  imports KubeApi
begin

text \<open>
  \<^verbatim>\<open>web/src/utils/podHealth.ts\<close> and the cell readings of \<^verbatim>\<open>web/src/utils/tableCells.ts\<close>: the verdict on a pod row.
  Times are milliseconds; \<^verbatim>\<open>Date.parse\<close> is a parameter (\<open>None\<close> is \<^verbatim>\<open>NaN\<close>), and an infinite age is \<open>None\<close>.
\<close>

section \<open>Cells\<close>

text \<open>An absent cell is \<open>None\<close>; \<^verbatim>\<open>JSON.stringify\<close> of an object cell is a parameter.\<close>

definition cellText :: "jstring \<Rightarrow> cell option \<Rightarrow> jstring" where
  "cellText stringified value =
     (case value of None \<Rightarrow> [] | Some CNull \<Rightarrow> [] | Some CObject \<Rightarrow> stringified | Some c \<Rightarrow> cell_string c)"

definition scalarCellText :: "cell option \<Rightarrow> jstring" where
  "scalarCellText value =
     (case value of None \<Rightarrow> [] | Some CNull \<Rightarrow> [] | Some CObject \<Rightarrow> [] | Some c \<Rightarrow> cell_string c)"

section \<open>Rows\<close>

datatype pod_problem = PError | PNotReady | PStuck

definition PROBLEM_RANK :: "pod_problem \<Rightarrow> nat" where
  "PROBLEM_RANK p = (case p of PError \<Rightarrow> 0 | PNotReady \<Rightarrow> 1 | PStuck \<Rightarrow> 2)"

definition STUCK_GRACE_MS :: int where "STUCK_GRACE_MS = 15 * 60 * 1000"
definition TERMINAL_MAX_AGE_MS :: int where "TERMINAL_MAX_AGE_MS = 6 * 60 * 60 * 1000"

definition HEALTHY_STATUSES :: "jstring list" where
  "HEALTHY_STATUSES = [''running'', ''completed'', ''succeeded'']"

definition TRANSIENT_STATUSES :: "jstring list" where
  "TRANSIENT_STATUSES = [''pending'', ''containercreating'', ''podinitializing'', ''terminating'']"

definition TERMINAL_STATUSES :: "jstring list" where
  "TERMINAL_STATUSES =
     [''error'', ''failed'', ''evicted'', ''oomkilled'', ''deadlineexceeded'', ''nodeaffinity'', ''nodelost'', ''shutdown'',
      ''terminated'', ''containerstatusunknown'', ''unexpectedadmissionerror'']"

definition OUT_OF_PREFIX :: jstring where "OUT_OF_PREFIX = ''outof''"

text \<open>\<^verbatim>\<open>^(\d+)\/(\d+)$\<close>: the two numbers.\<close>

definition two_counts :: "jstring \<Rightarrow> (nat \<times> nat) option" where
  "two_counts s =
     (let a = digits_of s; r = after_digits s in
      if a = [] \<or> r = [] \<or> hd r \<noteq> CHR ''/'' \<or> tl r = [] \<or> \<not> list_all is_digit (tl r) then None
      else Some (nat_of_digits a, nat_of_digits (tl r)))"

text \<open>\<^verbatim>\<open>^init:\d+\/\d+$\<close>\<close>

definition init_progress :: "jstring \<Rightarrow> bool" where
  "init_progress s \<longleftrightarrow> starts_with ''init:'' s \<and> two_counts (drop 5 s) \<noteq> None"

record pod_columns =
  pc_status :: "nat option"
  pc_ready :: "nat option"

definition podColumnIndexes :: "table_column list \<Rightarrow> pod_columns" where
  "podColumnIndexes defs =
     \<lparr>pc_status = find_index (\<lambda>d. to_lower (tc_name d) = ''status'') defs,
      pc_ready = find_index (\<lambda>d. to_lower (tc_name d) = ''ready'') defs\<rparr>"

definition cellAt :: "table_row \<Rightarrow> nat option \<Rightarrow> jstring" where
  "cellAt row index =
     (case index of
        None \<Rightarrow> []
      | Some i \<Rightarrow> scalarCellText (if i < length (tr_cells row) then Some (tr_cells row ! i) else None))"

definition readyMismatch :: "jstring \<Rightarrow> bool" where
  "readyMismatch t = (case two_counts (trim t) of None \<Rightarrow> False | Some (ready, wanted) \<Rightarrow> ready < wanted)"

section \<open>Ages\<close>

definition stateAgeMs :: "(jstring \<Rightarrow> int option) \<Rightarrow> table_row \<Rightarrow> int \<Rightarrow> int option" where
  "stateAgeMs parse row nowMs =
     (let stamp = (case tr_meta row of
                     None \<Rightarrow> None
                   | Some m \<Rightarrow> (case om_deletion m of Some d \<Rightarrow> Some d | None \<Rightarrow> om_created m))
      in case Option.bind stamp parse of None \<Rightarrow> None | Some started \<Rightarrow> Some (nowMs - started))"

definition older_than :: "int option \<Rightarrow> int \<Rightarrow> bool" where
  "older_than age limit = (case age of None \<Rightarrow> True | Some a \<Rightarrow> limit \<le> a)"

text \<open>The time one managed-fields entry contributes.\<close>

definition status_written :: "(jstring \<Rightarrow> int option) \<Rightarrow> json \<Rightarrow> int option" where
  "status_written parse raw =
     (if \<not> is_object raw then None
      else if jget ''subresource'' raw \<noteq> Some (JStr ''status'') then None
      else Option.bind (Option.bind (jget ''time'' raw) json_str) parse)"

definition note_written :: "(jstring \<Rightarrow> int option) \<Rightarrow> json \<Rightarrow> int option \<Rightarrow> int option" where
  "note_written parse raw latest =
     (case status_written parse raw of
        None \<Rightarrow> latest
      | Some written \<Rightarrow> (case latest of None \<Rightarrow> Some written | Some l \<Rightarrow> if l < written then Some written else Some l))"

definition statusAgeMs :: "(jstring \<Rightarrow> int option) \<Rightarrow> table_row \<Rightarrow> int \<Rightarrow> int option" where
  "statusAgeMs parse row nowMs =
     (case Option.bind (tr_meta row) om_managed of
        Some (JArr entries) \<Rightarrow>
          (case fold (note_written parse) entries None of None \<Rightarrow> None | Some latest \<Rightarrow> Some (nowMs - latest))
      | _ \<Rightarrow> None)"

section \<open>The verdict\<close>

definition pod_status :: "table_row \<Rightarrow> pod_columns \<Rightarrow> jstring" where
  "pod_status row cols = to_lower (trim (cellAt row (pc_status cols)))"

definition is_terminal :: "jstring \<Rightarrow> bool" where
  "is_terminal status \<longleftrightarrow> status \<in> set TERMINAL_STATUSES \<or> starts_with OUT_OF_PREFIX status"

definition podProblem :: "(jstring \<Rightarrow> int option) \<Rightarrow> table_row \<Rightarrow> pod_columns \<Rightarrow> int \<Rightarrow> pod_problem option" where
  "podProblem parse row cols nowMs =
     (let status = pod_status row cols in
      if status = [] then None
      else if status \<in> set TRANSIENT_STATUSES \<or> init_progress status then
        (if older_than (stateAgeMs parse row nowMs) STUCK_GRACE_MS then Some PStuck else None)
      else if status \<in> set HEALTHY_STATUSES then
        (if status \<noteq> ''running'' then None
         else if \<not> readyMismatch (cellAt row (pc_ready cols)) then None
         else if older_than (stateAgeMs parse row nowMs) STUCK_GRACE_MS then Some PNotReady else None)
      else if is_terminal status then
        (case statusAgeMs parse row nowMs of
           Some since \<Rightarrow> if TERMINAL_MAX_AGE_MS \<le> since then None else Some PError
         | None \<Rightarrow> Some PError)
      else Some PError)"

section \<open>Properties\<close>

lemma terminal_not_transient:
  "is_terminal s \<Longrightarrow> s \<notin> set TRANSIENT_STATUSES \<and> \<not> init_progress s \<and> s \<notin> set HEALTHY_STATUSES \<and> s \<noteq> []"
proof -
  assume t: "is_terminal s"
  have "\<not> init_progress s"
  proof
    assume "init_progress s"
    then obtain r where "s = ''init:'' @ r" by (auto simp: init_progress_def starts_with_iff)
    with t show False by (auto simp: is_terminal_def TERMINAL_STATUSES_def OUT_OF_PREFIX_def starts_with_iff)
  qed
  with t show ?thesis
    by (auto simp: is_terminal_def TERMINAL_STATUSES_def TRANSIENT_STATUSES_def HEALTHY_STATUSES_def OUT_OF_PREFIX_def starts_with_def)
qed

lemma older_than_mono: "older_than (stateAgeMs parse row t) limit \<Longrightarrow> older_than (stateAgeMs parse row (t + int d)) limit"
  by (auto simp: older_than_def stateAgeMs_def Let_def split: option.splits)

lemma statusAge_later:
  "statusAgeMs parse row (t + int d) = map_option (\<lambda>a. a + int d) (statusAgeMs parse row t)"
  by (auto simp: statusAgeMs_def split: option.splits json.splits)

lemma fold_note_written:
  "fold (note_written parse) entries latest =
     (let ts = (case latest of None \<Rightarrow> [] | Some l \<Rightarrow> [l]) @ List.map_filter (status_written parse) entries
      in if ts = [] then None else Some (Max (set ts)))"
proof (induction entries arbitrary: latest)
  case (Cons e es)
  have m: "Max (insert (max x y) A) = max x (Max (insert y A))" if "finite A" for x y :: int and A
    using that by (cases "A = {}") (auto simp: max.assoc)
  have n: "note_written parse e None = status_written parse e"
    "status_written parse e = None \<Longrightarrow> note_written parse e x = x"
    "status_written parse e = Some w \<Longrightarrow> note_written parse e (Some l) = Some (max l w)" for w l x
    by (auto simp: note_written_def split: option.splits)
  show ?case
    by (cases latest; cases "status_written parse e") (simp_all add: Cons.IH n map_filter_simps m)
qed (simp add: map_filter_simps Let_def split: option.split)

text \<open>
  The clock of a finished pod is the last write of its status: the age is measured from the latest
  readable timestamp of a status entry, in whatever order the entries come and whatever else is among
  them, and it is unknown exactly when there is none.
\<close>

theorem status_age_from_latest_write:
  "statusAgeMs parse (row\<lparr>tr_meta := Some (m\<lparr>om_managed := Some (JArr entries)\<rparr>)\<rparr>) nowMs =
     (let ts = List.map_filter (status_written parse) entries in if ts = [] then None else Some (nowMs - Max (set ts)))"
  by (simp add: statusAgeMs_def fold_note_written Let_def)

text \<open>
  A pod row that does not change keeps its verdict: once reported with a problem it stays reported,
  with the same problem, however late it is looked at, unless it failed for good; one that did so is
  only ever reported as an error, and once dropped it never comes back.
\<close>

theorem verdict_stable_over_time:
  "(let later = podProblem parse row cols (nowMs + int d) in
    if is_terminal (pod_status row cols)
    then (case podProblem parse row cols nowMs of
            None \<Rightarrow> later = None
          | Some p \<Rightarrow> p = PError \<and> (if statusAgeMs parse row nowMs = None then later = Some PError else True))
    else (case podProblem parse row cols nowMs of Some p \<Rightarrow> later = Some p | None \<Rightarrow> True))"
proof (cases "is_terminal (pod_status row cols)")
  case True
  from terminal_not_transient [OF this] True show ?thesis
    by (auto simp: podProblem_def Let_def statusAge_later split: option.splits)
next
  case False
  then show ?thesis
    using older_than_mono by (auto simp: podProblem_def Let_def split: option.splits)
qed

text \<open>A row whose age cannot be told is surfaced.\<close>

lemma unknown_age_surfaced:
  "tr_meta row = None \<Longrightarrow> pod_status row cols \<in> set TRANSIENT_STATUSES \<Longrightarrow> podProblem parse row cols nowMs = Some PStuck"
  by (auto simp: podProblem_def Let_def TRANSIENT_STATUSES_def older_than_def stateAgeMs_def)

lemma podHealth_examples:
  "readyMismatch ''1/2''" "\<not> readyMismatch ''2/2''" "\<not> readyMismatch ''n/a''" "init_progress ''init:0/2''" "\<not> init_progress ''init:error''"
  by code_simp+

end
