(* ===== verification/PodEnv.thy ===== *)
theory PodEnv
  imports Sort
begin

text \<open>
  \<^verbatim>\<open>web/src/utils/podEnv.ts\<close>: the environment variables a Pod's containers declare. A fetched ConfigMap or
  Secret is the association list of its \<^verbatim>\<open>data\<close> (a \<^verbatim>\<open>null\<close> value is \<open>None\<close>); in the resolver \<open>None\<close> stands
  for an object that could not be read. \<open>AList.update\<close> is \<^verbatim>\<open>Map.set\<close>, \<^verbatim>\<open>localeCompare\<close> a parameter.
\<close>

datatype env_kind = EnvLiteral | EnvConfigmap | EnvSecret | EnvField | EnvMissing
datatype container_type = CtInit | CtContainer | CtEphemeral
datatype ref_kind = RkConfigMap | RkSecret

record env_source =
  es_ref :: "(ref_kind \<times> jstring) option"
  es_key :: "jstring option"
  es_label :: "jstring option"

record env_row =
  er_container :: jstring
  er_type :: container_type
  er_name :: jstring
  er_kind :: env_kind
  er_value :: jstring
  er_source :: env_source

type_synonym env_data = "(jstring \<times> jstring option) list"
type_synonym data_map = "(jstring \<times> env_data option) list"

record env_resolver =
  res_configMaps :: data_map
  res_secrets :: data_map

record key_ref =
  kr_name :: "jstring option"
  kr_key :: "jstring option"

record value_from =
  vf_configMap :: "key_ref option"
  vf_secret :: "key_ref option"
  vf_field :: "jstring option"
  vf_resource :: "jstring option"

record env_var =
  ev_name :: "jstring option"
  ev_value :: "jstring option"
  ev_from :: "value_from option"

record env_from =
  ef_prefix :: "jstring option"
  ef_configMap :: "jstring option"
  ef_secret :: "jstring option"

record env_container =
  ec_name :: "jstring option"
  ec_env :: "env_var list option"
  ec_envFrom :: "env_from list option"

record pod_spec =
  ps_containers :: "env_container list option"
  ps_init :: "env_container list option"
  ps_ephemeral :: "env_container list option"

definition listed :: "'a list option \<Rightarrow> 'a list" where
  "listed x = (case x of Some xs \<Rightarrow> xs | None \<Rightarrow> [])"

definition text_of :: "jstring option \<Rightarrow> jstring" where
  "text_of x = (case x of Some s \<Rightarrow> s | None \<Rightarrow> [])"

definition allContainers :: "pod_spec option \<Rightarrow> (env_container \<times> container_type) list" where
  "allContainers object =
     (case object of
        None \<Rightarrow> []
      | Some spec \<Rightarrow>
          map (\<lambda>c. (c, CtInit)) (listed (ps_init spec)) @
          map (\<lambda>c. (c, CtContainer)) (listed (ps_containers spec)) @
          map (\<lambda>c. (c, CtEphemeral)) (listed (ps_ephemeral spec)))"

section \<open>The sources to fetch\<close>

text \<open>\<^verbatim>\<open>Set.add\<close> of a name that is present and not empty.\<close>

definition add_name :: "jstring option \<Rightarrow> jstring list \<Rightarrow> jstring list" where
  "add_name n names = (case n of None \<Rightarrow> names | Some s \<Rightarrow> if s = [] \<or> s \<in> set names then names else names @ [s])"

definition var_names :: "env_var \<Rightarrow> jstring list \<times> jstring list \<Rightarrow> jstring list \<times> jstring list" where
  "var_names e acc =
     (case acc of (cms, secrets) \<Rightarrow>
        (add_name (Option.bind (Option.bind (ev_from e) vf_configMap) kr_name) cms,
         add_name (Option.bind (Option.bind (ev_from e) vf_secret) kr_name) secrets))"

definition from_names :: "env_from \<Rightarrow> jstring list \<times> jstring list \<Rightarrow> jstring list \<times> jstring list" where
  "from_names ef acc =
     (case acc of (cms, secrets) \<Rightarrow> (add_name (ef_configMap ef) cms, add_name (ef_secret ef) secrets))"

definition collectEnvSourceNames :: "pod_spec option \<Rightarrow> jstring list \<times> jstring list" where
  "collectEnvSourceNames object =
     fold (\<lambda>(c, _) acc. fold from_names (listed (ec_envFrom c)) (fold var_names (listed (ec_env c)) acc))
       (allContainers object) ([], [])"

section \<open>Resolution\<close>

definition kind_name :: "ref_kind \<Rightarrow> jstring" where
  "kind_name k = (case k of RkConfigMap \<Rightarrow> ''ConfigMap'' | RkSecret \<Rightarrow> ''Secret'')"

definition cannot_read :: "ref_kind \<Rightarrow> jstring" where
  "cannot_read k = ''(cannot read '' @ to_lower (kind_name k) @ '')''"

definition label_source :: "jstring \<Rightarrow> env_source" where
  "label_source l = \<lparr>es_ref = None, es_key = None, es_label = Some l\<rparr>"

type_synonym resolved = "env_kind \<times> jstring \<times> env_source"

definition resolveKeyRef :: "data_map \<Rightarrow> key_ref \<Rightarrow> env_kind \<Rightarrow> ref_kind \<Rightarrow> resolved" where
  "resolveKeyRef m ref okKind refKind =
     (let objName = text_of (kr_name ref); key = text_of (kr_key ref);
          source = (if objName \<noteq> []
                    then \<lparr>es_ref = Some (refKind, objName), es_key = (if key \<noteq> [] then Some key else None), es_label = None\<rparr>
                    else label_source (kind_name refKind))
      in if objName = [] \<or> key = [] then (EnvMissing, [], source)
         else case map_of m objName of
                None \<Rightarrow> (EnvMissing, cannot_read refKind, source)
              | Some None \<Rightarrow> (EnvMissing, cannot_read refKind, source)
              | Some (Some data) \<Rightarrow>
                  (case map_of data key of
                     None \<Rightarrow> (EnvMissing, ''(key not found)'', source)
                   | Some v \<Rightarrow> (okKind, text_of v, source)))"

definition resolveEnvVar :: "env_var \<Rightarrow> env_resolver \<Rightarrow> resolved" where
  "resolveEnvVar e resolver =
     (case ev_value e of
        Some v \<Rightarrow> (EnvLiteral, v, label_source ''inline'')
      | None \<Rightarrow>
          (case ev_from e of
             None \<Rightarrow> (EnvLiteral, [], label_source ''inline'')
           | Some vf \<Rightarrow>
               (case vf_configMap vf of
                  Some ref \<Rightarrow> resolveKeyRef (res_configMaps resolver) ref EnvConfigmap RkConfigMap
                | None \<Rightarrow>
                    (case vf_secret vf of
                       Some ref \<Rightarrow> resolveKeyRef (res_secrets resolver) ref EnvSecret RkSecret
                     | None \<Rightarrow>
                         (case vf_field vf of
                            Some path \<Rightarrow> (EnvField, path, label_source ''fieldRef'')
                          | None \<Rightarrow>
                              (case vf_resource vf of
                                 Some res \<Rightarrow> (EnvField, res, label_source ''resourceFieldRef'')
                               | None \<Rightarrow> (EnvMissing, [], label_source ''unknown'')))))))"

type_synonym env_map = "(jstring \<times> env_row) list"

definition env_row_of :: "env_container \<times> container_type \<Rightarrow> jstring \<Rightarrow> resolved \<Rightarrow> env_row" where
  "env_row_of ct name r =
     (case r of (kind, value, source) \<Rightarrow>
        \<lparr>er_container = text_of (ec_name (fst ct)), er_type = snd ct, er_name = name, er_kind = kind, er_value = value, er_source = source\<rparr>)"

definition import_source :: "ref_kind \<Rightarrow> jstring \<Rightarrow> env_source" where
  "import_source refKind objName = \<lparr>es_ref = Some (refKind, objName), es_key = None, es_label = None\<rparr>"

definition placeholder_key :: "ref_kind \<Rightarrow> jstring \<Rightarrow> jstring \<Rightarrow> jstring" where
  "placeholder_key refKind objName prefix = kind_name refKind @ ''/'' @ objName @ '' '' @ prefix @ ''*''"

definition placeholder_row :: "env_container \<times> container_type \<Rightarrow> ref_kind \<Rightarrow> jstring \<Rightarrow> jstring \<Rightarrow> env_row" where
  "placeholder_row ct refKind objName prefix =
     env_row_of ct (prefix @ ''*'') (EnvMissing, cannot_read refKind, import_source refKind objName)"

definition import_row :: "env_container \<times> container_type \<Rightarrow> jstring \<Rightarrow> env_kind \<Rightarrow> ref_kind \<Rightarrow> jstring \<Rightarrow> jstring option option \<Rightarrow> env_row" where
  "import_row ct name kind refKind objName v =
     env_row_of ct name (kind, text_of (Option.bind v (\<lambda>x. x)), import_source refKind objName)"

definition expandEnvFrom ::
  "data_map \<Rightarrow> jstring \<Rightarrow> jstring \<Rightarrow> env_kind \<Rightarrow> ref_kind \<Rightarrow> env_container \<times> container_type \<Rightarrow> env_map \<Rightarrow> env_map" where
  "expandEnvFrom m objName prefix kind refKind ct merged =
     (case Option.bind (map_of m objName) (\<lambda>d. d) of
        None \<Rightarrow> AList.update (placeholder_key refKind objName prefix) (placeholder_row ct refKind objName prefix) merged
      | Some data \<Rightarrow>
          fold (\<lambda>key. AList.update (prefix @ key) (import_row ct (prefix @ key) kind refKind objName (map_of data key)))
            (keys data) merged)"

definition import_from :: "env_resolver \<Rightarrow> env_container \<times> container_type \<Rightarrow> env_from \<Rightarrow> env_map \<Rightarrow> env_map" where
  "import_from resolver ct ef merged0 =
     (let prefix = text_of (ef_prefix ef);
          merged1 = (if text_of (ef_configMap ef) \<noteq> []
                     then expandEnvFrom (res_configMaps resolver) (text_of (ef_configMap ef)) prefix EnvConfigmap RkConfigMap ct merged0
                     else merged0)
      in if text_of (ef_secret ef) \<noteq> []
         then expandEnvFrom (res_secrets resolver) (text_of (ef_secret ef)) prefix EnvSecret RkSecret ct merged1
         else merged1)"

definition set_var :: "env_resolver \<Rightarrow> env_container \<times> container_type \<Rightarrow> env_var \<Rightarrow> env_map \<Rightarrow> env_map" where
  "set_var resolver ct e merged =
     (if text_of (ev_name e) = [] then merged
      else AList.update (text_of (ev_name e)) (env_row_of ct (text_of (ev_name e)) (resolveEnvVar e resolver)) merged)"

definition merged_env :: "env_resolver \<Rightarrow> env_container \<times> container_type \<Rightarrow> env_map" where
  "merged_env resolver ct =
     fold (set_var resolver ct) (listed (ec_env (fst ct)))
       (fold (import_from resolver ct) (listed (ec_envFrom (fst ct))) [])"

definition buildEnvRows :: "(jstring \<Rightarrow> jstring \<Rightarrow> int) \<Rightarrow> pod_spec option \<Rightarrow> env_resolver \<Rightarrow> env_row list" where
  "buildEnvRows coll object resolver =
     js_sort (cmp_then (\<lambda>a b. coll (er_name a) (er_name b)) (\<lambda>a b. coll (er_container a) (er_container b)))
       (concat (map (\<lambda>ct. map snd (merged_env resolver ct)) (allContainers object)))"

section \<open>What a container sees\<close>

text \<open>The reference: what one imported object gives a name, what one import gives it, and kubectl's
  precedence: the last \<^verbatim>\<open>env\<close> entry of the name, or else the last import that provides it.\<close>

definition object_gives :: "env_container \<times> container_type \<Rightarrow> data_map \<Rightarrow> jstring \<Rightarrow> jstring \<Rightarrow> env_kind \<Rightarrow> ref_kind \<Rightarrow> jstring \<Rightarrow> env_row option" where
  "object_gives ct m objName prefix kind refKind n =
     (if objName = [] \<or> \<not> starts_with prefix n then None
      else case map_of m objName of
             Some (Some data) \<Rightarrow>
               map_option (\<lambda>v. import_row ct n kind refKind objName (Some v)) (map_of data (drop (length prefix) n))
           | _ \<Rightarrow> None)"

definition import_gives :: "env_resolver \<Rightarrow> env_container \<times> container_type \<Rightarrow> jstring \<Rightarrow> env_from \<Rightarrow> env_row option" where
  "import_gives resolver ct n ef =
     (let prefix = text_of (ef_prefix ef) in
      case object_gives ct (res_secrets resolver) (text_of (ef_secret ef)) prefix EnvSecret RkSecret n of
        Some r \<Rightarrow> Some r
      | None \<Rightarrow> object_gives ct (res_configMaps resolver) (text_of (ef_configMap ef)) prefix EnvConfigmap RkConfigMap n)"

fun first_some :: "('a \<Rightarrow> 'b option) \<Rightarrow> 'a list \<Rightarrow> 'b option" where
  "first_some f [] = None"
| "first_some f (x # xs) = (case f x of Some y \<Rightarrow> Some y | None \<Rightarrow> first_some f xs)"

definition kubectl_value :: "env_resolver \<Rightarrow> env_container \<times> container_type \<Rightarrow> jstring \<Rightarrow> env_row option" where
  "kubectl_value resolver ct n =
     (case find (\<lambda>e. n \<noteq> [] \<and> ev_name e = Some n) (rev (listed (ec_env (fst ct)))) of
        Some e \<Rightarrow> Some (env_row_of ct n (resolveEnvVar e resolver))
      | None \<Rightarrow> first_some (import_gives resolver ct n) (rev (listed (ec_envFrom (fst ct)))))"

lemma map_of_update: "map_of (AList.update k v m) n = (if n = k then Some v else map_of m n)"
  by (simp add: update_conv')

lemma map_of_fold_update:
  "map_of (fold (\<lambda>key. AList.update (p @ key) (f key)) ks m) n =
     (if starts_with p n \<and> drop (length p) n \<in> set ks then Some (f (drop (length p) n)) else map_of m n)"
proof (induction ks arbitrary: m)
  case (Cons k ks)
  have "n = p @ k \<longleftrightarrow> starts_with p n \<and> drop (length p) n = k"
    by (auto simp: starts_with_def) (metis append_take_drop_id)
  then show ?case by (auto simp: Cons.IH map_of_update)
qed simp

lemma placeholder_has_space: "CHR '' '' \<notin> set n \<Longrightarrow> n \<noteq> placeholder_key refKind objName prefix"
  by (auto simp: placeholder_key_def)

lemma map_of_expand:
  assumes "CHR '' '' \<notin> set n" "objName \<noteq> []"
  shows "map_of (expandEnvFrom m objName prefix kind refKind ct merged) n =
     (case object_gives ct m objName prefix kind refKind n of Some r \<Rightarrow> Some r | None \<Rightarrow> map_of merged n)"
proof (cases "Option.bind (map_of m objName) (\<lambda>d. d)")
  case None
  then have "object_gives ct m objName prefix kind refKind n = None"
    by (auto simp: object_gives_def split: option.splits)
  with None placeholder_has_space [OF assms(1)] show ?thesis by (simp add: expandEnvFrom_def map_of_update)
next
  case (Some data)
  then have d: "map_of m objName = Some (Some data)" by (cases "map_of m objName") auto
  have n: "starts_with prefix n \<Longrightarrow> prefix @ drop (length prefix) n = n"
    by (metis append_take_drop_id starts_with_def)
  show ?thesis
  proof (cases "map_of data (drop (length prefix) n)")
    case None
    then have "drop (length prefix) n \<notin> set (keys data)" by (simp add: map_of_None_iff)
    with None d show ?thesis by (simp add: expandEnvFrom_def map_of_fold_update object_gives_def)
  next
    case (Some v)
    then have "drop (length prefix) n \<in> set (keys data)" by (metis map_of_None_iff option.distinct(1))
    with Some d n assms(2) show ?thesis by (auto simp: expandEnvFrom_def map_of_fold_update object_gives_def)
  qed
qed

lemma object_gives_Nil: "object_gives ct m [] prefix kind refKind n = None"
  by (simp add: object_gives_def)

lemma map_of_import:
  "CHR '' '' \<notin> set n \<Longrightarrow> map_of (import_from resolver ct ef m) n =
     (case import_gives resolver ct n ef of Some r \<Rightarrow> Some r | None \<Rightarrow> map_of m n)"
  by (cases "text_of (ef_configMap ef) = []"; cases "text_of (ef_secret ef) = []")
    (simp_all add: import_from_def import_gives_def Let_def map_of_expand object_gives_Nil split: option.split)

lemma first_some_append:
  "first_some f (xs @ ys) = (case first_some f xs of Some y \<Rightarrow> Some y | None \<Rightarrow> first_some f ys)"
  by (induction xs) (auto split: option.splits)

lemma map_of_imports:
  "CHR '' '' \<notin> set n \<Longrightarrow> map_of (fold (import_from resolver ct) efs m) n =
     (case first_some (import_gives resolver ct n) (rev efs) of Some r \<Rightarrow> Some r | None \<Rightarrow> map_of m n)"
  by (induction efs arbitrary: m) (auto simp: map_of_import first_some_append split: option.splits)

lemma find_append: "find P (xs @ ys) = (case find P xs of Some y \<Rightarrow> Some y | None \<Rightarrow> find P ys)"
  by (induction xs) auto

lemma map_of_vars:
  "map_of (fold (set_var resolver ct) es m) n =
     (case find (\<lambda>e. n \<noteq> [] \<and> ev_name e = Some n) (rev es) of
        Some e \<Rightarrow> Some (env_row_of ct n (resolveEnvVar e resolver)) | None \<Rightarrow> map_of m n)"
proof (induction es arbitrary: m)
  case (Cons e es)
  have "map_of (set_var resolver ct e m) n =
     (if n \<noteq> [] \<and> ev_name e = Some n then Some (env_row_of ct n (resolveEnvVar e resolver)) else map_of m n)"
    by (cases "ev_name e") (auto simp: set_var_def map_of_update text_of_def)
  then show ?case by (simp add: Cons.IH find_append split: option.splits)
qed simp

text \<open>
  C29. A container's environment is kubectl's: the row shown for a variable is that of the last \<^verbatim>\<open>env\<close> entry of
  its name, resolved, or else of the last \<^verbatim>\<open>envFrom\<close> import that provides it (a Secret before a ConfigMap of
  the same import), and there is a row only if one of them does. (Names with a blank cannot be declared.)
\<close>

theorem env_follows_precedence:
  "if CHR '' '' \<in> set n then True
   else map_of (merged_env resolver ct) n = kubectl_value resolver ct n"
  by (simp add: merged_env_def kubectl_value_def map_of_vars map_of_imports split: option.split)

section \<open>Sources that could not be read\<close>

text \<open>No variable the pod can see has a blank in its name, and no object it imports has one.\<close>

definition data_names_ok :: "data_map \<Rightarrow> bool" where
  "data_names_ok m \<longleftrightarrow> list_all (\<lambda>(_, d). case d of None \<Rightarrow> True | Some data \<Rightarrow> list_all (\<lambda>k. CHR '' '' \<notin> set k) (keys data)) m"

definition import_names_ok :: "env_from \<Rightarrow> bool" where
  "import_names_ok ef \<longleftrightarrow> list_all (\<lambda>s. CHR '' '' \<notin> set (text_of s)) [ef_prefix ef, ef_configMap ef, ef_secret ef]"

definition names_ok :: "env_resolver \<Rightarrow> env_container \<Rightarrow> bool" where
  "names_ok resolver c \<longleftrightarrow> data_names_ok (res_configMaps resolver) \<and> data_names_ok (res_secrets resolver) \<and>
     list_all import_names_ok (listed (ec_envFrom c)) \<and>
     list_all (\<lambda>e. CHR '' '' \<notin> set (text_of (ev_name e))) (listed (ec_env c))"

definition unreadable :: "data_map \<Rightarrow> jstring \<Rightarrow> bool" where
  "unreadable m objName \<longleftrightarrow> objName \<noteq> [] \<and> Option.bind (map_of m objName) (\<lambda>d. d) = None"

lemma split_at_blank:
  "a @ CHR '' '' # b = c @ CHR '' '' # d \<Longrightarrow> CHR '' '' \<notin> set a \<Longrightarrow> CHR '' '' \<notin> set c \<Longrightarrow> a = c \<and> b = d"
  by (induction a arbitrary: c; case_tac c; auto)

lemma placeholder_key_inj:
  assumes "placeholder_key k a p = placeholder_key k' a' p'" "CHR '' '' \<notin> set a" "CHR '' '' \<notin> set a'"
  shows "k = k' \<and> a = a' \<and> p = p'"
proof -
  have kk: "k = k'" using assms(1) by (cases k; cases k') (simp_all add: placeholder_key_def kind_name_def)
  then have "a @ CHR '' '' # (p @ ''*'') = a' @ CHR '' '' # (p' @ ''*'')" using assms(1) by (simp add: placeholder_key_def)
  from split_at_blank [OF this assms(2,3)] kk show ?thesis by simp
qed

text \<open>Once a placeholder is in the map, every later import and variable leaves it there.\<close>

definition holds_placeholder :: "env_container \<times> container_type \<Rightarrow> ref_kind \<Rightarrow> jstring \<Rightarrow> jstring \<Rightarrow> env_map \<Rightarrow> bool" where
  "holds_placeholder ct k a p m \<longleftrightarrow> map_of m (placeholder_key k a p) = Some (placeholder_row ct k a p)"

lemma expand_keeps:
  assumes "holds_placeholder ct k a p m" "CHR '' '' \<notin> set a" "CHR '' '' \<notin> set objName" "CHR '' '' \<notin> set prefix" "data_names_ok dm"
  shows "holds_placeholder ct k a p (expandEnvFrom dm objName prefix kind refKind ct m)"
proof (cases "Option.bind (map_of dm objName) (\<lambda>d. d)")
  case None
  then show ?thesis using assms(1) placeholder_key_inj [of k a p refKind objName prefix] assms(2,3)
    by (auto simp: holds_placeholder_def expandEnvFrom_def map_of_update)
next
  case (Some data)
  then have "(objName, Some data) \<in> set dm" by (cases "map_of dm objName") (auto dest: map_of_SomeD)
  then have ok: "list_all (\<lambda>k. CHR '' '' \<notin> set k) (keys data)" using assms(5) by (fastforce simp: data_names_ok_def list_all_iff)
  have "\<not> (starts_with prefix (placeholder_key k a p) \<and> drop (length prefix) (placeholder_key k a p) \<in> set (keys data))"
  proof
    assume h: "starts_with prefix (placeholder_key k a p) \<and> drop (length prefix) (placeholder_key k a p) \<in> set (keys data)"
    then have "CHR '' '' \<notin> set (prefix @ drop (length prefix) (placeholder_key k a p))"
      using ok assms(4) by (auto simp: list_all_iff)
    moreover have "prefix @ drop (length prefix) (placeholder_key k a p) = placeholder_key k a p"
      using h by (metis append_take_drop_id starts_with_def)
    ultimately show False using placeholder_has_space by metis
  qed
  then have "map_of (fold (\<lambda>key. AList.update (prefix @ key) (f key)) (keys data) m) (placeholder_key k a p) = map_of m (placeholder_key k a p)" for f
    unfolding map_of_fold_update by (simp only: if_False)
  with Some assms(1) show ?thesis by (simp add: holds_placeholder_def expandEnvFrom_def)
qed

lemma expand_places:
  "unreadable dm a \<Longrightarrow> holds_placeholder ct k a p (expandEnvFrom dm a p kind k ct m)"
  by (simp add: unreadable_def holds_placeholder_def expandEnvFrom_def map_of_update)

lemma import_keeps:
  assumes "holds_placeholder ct k a p m" "CHR '' '' \<notin> set a" "import_names_ok ef"
    "data_names_ok (res_configMaps resolver)" "data_names_ok (res_secrets resolver)"
  shows "holds_placeholder ct k a p (import_from resolver ct ef m)"
  using assms by (simp add: import_from_def Let_def import_names_ok_def expand_keeps)

lemma imports_keep:
  "holds_placeholder ct k a p m \<Longrightarrow> CHR '' '' \<notin> set a \<Longrightarrow> list_all import_names_ok efs \<Longrightarrow>
   data_names_ok (res_configMaps resolver) \<Longrightarrow> data_names_ok (res_secrets resolver) \<Longrightarrow>
   holds_placeholder ct k a p (fold (import_from resolver ct) efs m)"
  by (induction efs arbitrary: m) (auto simp: import_keeps)

lemma vars_keep:
  "holds_placeholder ct k a p m \<Longrightarrow> list_all (\<lambda>e. CHR '' '' \<notin> set (text_of (ev_name e))) es \<Longrightarrow>
   holds_placeholder ct k a p (fold (set_var resolver ct) es m)"
proof (induction es arbitrary: m)
  case (Cons e es)
  have "text_of (ev_name e) \<noteq> placeholder_key k a p" using Cons.prems(2) placeholder_has_space by simp
  then have "holds_placeholder ct k a p (set_var resolver ct e m)"
    using Cons.prems(1) by (auto simp: holds_placeholder_def set_var_def map_of_update)
  from Cons.IH [OF this] Cons.prems(2) show ?case by simp
qed simp

lemma import_places:
  assumes "import_names_ok ef" "data_names_ok (res_configMaps resolver)" "data_names_ok (res_secrets resolver)"
  shows "unreadable (res_configMaps resolver) (text_of (ef_configMap ef)) \<Longrightarrow>
      holds_placeholder ct RkConfigMap (text_of (ef_configMap ef)) (text_of (ef_prefix ef)) (import_from resolver ct ef m)"
    and "unreadable (res_secrets resolver) (text_of (ef_secret ef)) \<Longrightarrow>
      holds_placeholder ct RkSecret (text_of (ef_secret ef)) (text_of (ef_prefix ef)) (import_from resolver ct ef m)"
  using assms by (auto simp: import_from_def Let_def import_names_ok_def expand_places expand_keeps unreadable_def)

lemma placeholder_in_env:
  assumes ok: "names_ok resolver (fst ct)" and ef: "ef \<in> set (listed (ec_envFrom (fst ct)))"
    and "\<And>m. holds_placeholder ct k a p (import_from resolver ct ef m)" and a: "CHR '' '' \<notin> set a"
  shows "placeholder_row ct k a p \<in> set (map snd (merged_env resolver ct))"
proof -
  obtain before after where split: "listed (ec_envFrom (fst ct)) = before @ ef # after" using ef by (meson split_list)
  have ok': "list_all import_names_ok after" "data_names_ok (res_configMaps resolver)" "data_names_ok (res_secrets resolver)"
    "list_all (\<lambda>e. CHR '' '' \<notin> set (text_of (ev_name e))) (listed (ec_env (fst ct)))"
    using ok split by (simp_all add: names_ok_def)
  have "holds_placeholder ct k a p (fold (import_from resolver ct) after (import_from resolver ct ef (fold (import_from resolver ct) before [])))"
    using imports_keep [OF assms(3) a ok'(1,2,3)] .
  then have "holds_placeholder ct k a p (merged_env resolver ct)"
    using vars_keep [OF _ ok'(4)] by (simp add: merged_env_def split)
  then have "(placeholder_key k a p, placeholder_row ct k a p) \<in> set (merged_env resolver ct)"
    by (simp add: holds_placeholder_def map_of_SomeD)
  then show ?thesis by force
qed

lemma set_buildEnvRows:
  "set (buildEnvRows coll object resolver) = (\<Union>ct \<in> set (allContainers object). set (map snd (merged_env resolver ct)))"
  by (simp add: buildEnvRows_def)

text \<open>
  No reference to an unreadable object is lost: for every container and every \<^verbatim>\<open>envFrom\<close> import of a
  ConfigMap or Secret that could not be read, the table has a row that names the object and says so,
  whatever else the container imports under the same prefix (names without blanks).
\<close>

theorem unreadable_imports_are_shown:
  assumes "ct \<in> set (allContainers object)" "names_ok resolver (fst ct)" "ef \<in> set (listed (ec_envFrom (fst ct)))"
  shows "(if unreadable (res_configMaps resolver) (text_of (ef_configMap ef))
          then placeholder_row ct RkConfigMap (text_of (ef_configMap ef)) (text_of (ef_prefix ef)) \<in> set (buildEnvRows coll object resolver)
          else True) \<and>
         (if unreadable (res_secrets resolver) (text_of (ef_secret ef))
          then placeholder_row ct RkSecret (text_of (ef_secret ef)) (text_of (ef_prefix ef)) \<in> set (buildEnvRows coll object resolver)
          else True)"
proof -
  have ok: "import_names_ok ef" "data_names_ok (res_configMaps resolver)" "data_names_ok (res_secrets resolver)"
    using assms(2,3) by (auto simp: names_ok_def list_all_iff)
  then have "CHR '' '' \<notin> set (text_of (ef_configMap ef))" "CHR '' '' \<notin> set (text_of (ef_secret ef))"
    by (simp_all add: import_names_ok_def)
  then show ?thesis
    using placeholder_in_env [OF assms(2,3) import_places(1) [OF ok]] placeholder_in_env [OF assms(2,3) import_places(2) [OF ok]]
      assms(1) unfolding set_buildEnvRows by auto
qed

definition example_container :: env_container where
  "example_container = \<lparr>ec_name = Some ''app'', ec_env = None,
     ec_envFrom = Some [\<lparr>ef_prefix = None, ef_configMap = Some ''cfg'', ef_secret = None\<rparr>,
                        \<lparr>ef_prefix = None, ef_configMap = None, ef_secret = Some ''creds''\<rparr>]\<rparr>"

definition example_spec :: pod_spec where
  "example_spec = \<lparr>ps_containers = Some [example_container], ps_init = None, ps_ephemeral = None\<rparr>"

definition nothing_readable :: env_resolver where
  "nothing_readable = \<lparr>res_configMaps = [(''cfg'', None)], res_secrets = []\<rparr>"

theorem unreadable_imports_are_shown_witness:
  "placeholder_row (example_container, CtContainer) RkConfigMap ''cfg'' [] \<in> set (buildEnvRows str_cmp (Some example_spec) nothing_readable)"
  using unreadable_imports_are_shown [of "(example_container, CtContainer)" "Some example_spec" nothing_readable
      "\<lparr>ef_prefix = None, ef_configMap = Some ''cfg'', ef_secret = None\<rparr>" str_cmp]
  by (simp add: allContainers_def example_spec_def example_container_def nothing_readable_def listed_def text_of_def
      names_ok_def data_names_ok_def import_names_ok_def unreadable_def)

lemma both_placeholders: "map er_kind (buildEnvRows str_cmp (Some example_spec) nothing_readable) = [EnvMissing, EnvMissing]"
  by code_simp

end
