(* ===== verification/FieldFilter.thy ===== *)
theory FieldFilter
  imports Json "HOL-Library.Sublist"
begin

text \<open>
  \<^verbatim>\<open>web/src/utils/fieldFilter.ts\<close>, \<^verbatim>\<open>topLevelFields.ts\<close> and \<^verbatim>\<open>secrets.ts\<close>: which part of an object the Overview
  shows. A spec is a JSON value; \<^verbatim>\<open>JSON.parse\<close> (of the last-applied annotation and of the keys of a
  managed-fields set) is a parameter that gives \<open>None\<close> where it throws.
\<close>

section \<open>Empty values\<close>

fun is_record :: "json \<Rightarrow> bool" where
  "is_record (JObj _) = True"
| "is_record _ = False"

fun isEmpty :: "json \<Rightarrow> bool" where
  "isEmpty JNull = True"
| "isEmpty (JStr s) = (s = [])"
| "isEmpty (JArr xs) = (xs = [])"
| "isEmpty (JObj m) = (m = [])"
| "isEmpty _ = False"

fun pruneEmpty :: "json \<Rightarrow> json" where
  "pruneEmpty (JArr xs) = JArr (filter (\<lambda>v. \<not> isEmpty v) (map pruneEmpty xs))"
| "pruneEmpty (JObj m) = JObj (filter (\<lambda>kv. \<not> isEmpty (snd kv)) (map (\<lambda>(k, v). (k, pruneEmpty v)) m))"
| "pruneEmpty v = v"

section \<open>The manifest\<close>

definition LAST_APPLIED_ANNOTATION :: jstring where
  "LAST_APPLIED_ANNOTATION = ''kubectl.kubernetes.io/last-applied-configuration''"

type_synonym json_parser = "jstring \<Rightarrow> json option"

definition parseLastAppliedSpec :: "json_parser \<Rightarrow> (jstring \<times> jstring) list option \<Rightarrow> (jstring \<times> json) list option" where
  "parseLastAppliedSpec parse annotations =
     (case Option.bind annotations (\<lambda>m. map_of m LAST_APPLIED_ANNOTATION) of
        None \<Rightarrow> None
      | Some raw \<Rightarrow>
          if raw = [] then None
          else case parse raw of
                 Some (JObj m) \<Rightarrow> (case map_of m ''spec'' of Some (JObj spec) \<Rightarrow> Some spec | _ \<Rightarrow> None)
               | _ \<Rightarrow> None)"

definition MERGE_KEYS :: "jstring list" where
  "MERGE_KEYS = [''name'', ''key'', ''containerPort'', ''port'', ''mountPath'', ''devicePath'', ''ip'', ''topologyKey'', ''path'']"

text \<open>\<^verbatim>\<open>===\<close> on values of two separately parsed documents: objects and arrays are never identical.\<close>

fun strict_eq :: "json \<Rightarrow> json \<Rightarrow> bool" where
  "strict_eq JNull JNull = True"
| "strict_eq (JBool a) (JBool b) = (a = b)"
| "strict_eq (JNum a) (JNum b) = (a = b)"
| "strict_eq (JStr a) (JStr b) = (a = b)"
| "strict_eq _ _ = False"

definition opt_strict_eq :: "json option \<Rightarrow> json \<Rightarrow> bool" where
  "opt_strict_eq x v = (case x of Some w \<Rightarrow> strict_eq w v | None \<Rightarrow> False)"

fun merge_key_index :: "jstring list \<Rightarrow> (jstring \<times> json) list \<Rightarrow> json list \<Rightarrow> nat option" where
  "merge_key_index [] el template = None"
| "merge_key_index (mk # mks) el template =
     (case map_of el mk of
        None \<Rightarrow> merge_key_index mks el template
      | Some v \<Rightarrow>
          (case find_index (\<lambda>t. opt_strict_eq (jget mk t) v) template of
             Some i \<Rightarrow> Some i
           | None \<Rightarrow> merge_key_index mks el template))"

definition correspondingIndex :: "json \<Rightarrow> json list \<Rightarrow> nat option" where
  "correspondingIndex el template = (case el of JObj m \<Rightarrow> merge_key_index MERGE_KEYS m template | _ \<Rightarrow> None)"

text \<open>The manifest element for the live element at a position.\<close>

definition template_element :: "nat \<Rightarrow> json list \<Rightarrow> nat \<times> json \<Rightarrow> json option" where
  "template_element len template el =
     (case correspondingIndex (snd el) template of
        Some ti \<Rightarrow> Some (template ! ti)
      | None \<Rightarrow>
          if length template = len \<and> fst el < len \<and> is_record (template ! fst el) then Some (template ! fst el) else None)"

lemma size_member: "map_of m k = Some v \<Longrightarrow> size v < size (JObj m)"
  by (induction m) (auto split: if_splits)

lemma size_members: "(k, v) \<in> set m \<Longrightarrow> size v < size (JObj m)"
  by (induction m) auto

lemma size_element: "v \<in> set xs \<Longrightarrow> size v < size (JArr xs)"
  by (induction xs) auto

lemma size_enumerated: "(i, v) \<in> set (enumerate n xs) \<Longrightarrow> size v < size (JArr xs)"
  using size_element by (force simp: enumerate_eq_zip dest: set_zip_rightD)

function intersectWithTemplate :: "json \<Rightarrow> json \<Rightarrow> json" where
  "intersectWithTemplate live template =
     (case (live, template) of
        (JArr xs, JArr ts) \<Rightarrow>
          if \<not> list_all is_record xs then live
          else JArr (concat (map (\<lambda>el.
                 case template_element (length xs) ts el of
                   None \<Rightarrow> []
                 | Some t \<Rightarrow> [intersectWithTemplate (snd el) t]) (enumerate 0 xs)))
      | (JObj m, JObj tm) \<Rightarrow>
          JObj (concat (map (\<lambda>kv.
                 case map_of tm (fst kv) of
                   None \<Rightarrow> []
                 | Some t \<Rightarrow> [(fst kv, intersectWithTemplate (snd kv) t)]) m))
      | _ \<Rightarrow> live)"
  by pat_completeness auto
termination
  by (relation "measure (\<lambda>(live, _). size live)") (use size_enumerated size_members in \<open>fastforce+\<close>)

declare intersectWithTemplate.simps [simp del]

section \<open>Server-side apply ownership\<close>

type_synonym field_set = "(jstring \<times> json) list"

definition ownsWhole :: "field_set \<Rightarrow> bool" where
  "ownsWhole fs \<longleftrightarrow> list_all (\<lambda>k. k = ''.'') (keys fs)"

definition keyMatches :: "json_parser \<Rightarrow> (jstring \<times> json) list \<Rightarrow> jstring \<Rightarrow> bool" where
  "keyMatches parse el keyJson =
     (case parse keyJson of
        Some (JObj m) \<Rightarrow> list_all (\<lambda>(k, v). opt_strict_eq (map_of el k) v) m
      | _ \<Rightarrow> False)"

definition record_members :: "json \<Rightarrow> field_set" where
  "record_members v = (case v of JObj m \<Rightarrow> m | _ \<Rightarrow> [])"

definition matchArrayElement :: "json_parser \<Rightarrow> json \<Rightarrow> field_set \<Rightarrow> field_set option" where
  "matchArrayElement parse el fs =
     (case el of
        JObj m \<Rightarrow>
          map_option (\<lambda>(_, v). record_members v)
            (find (\<lambda>(k, _). starts_with ''k:'' k \<and> keyMatches parse m (drop 2 k)) fs)
      | _ \<Rightarrow>
          (if list_ex (\<lambda>(k, _). starts_with ''v:'' k \<and> opt_strict_eq (parse (drop 2 k)) el) fs then Some [] else None))"

fun filterValue :: "json_parser \<Rightarrow> json \<Rightarrow> field_set \<Rightarrow> json" where
  "filterValue parse (JArr xs) fs =
     (if ownsWhole fs then JArr xs
      else JArr (concat (map (\<lambda>el.
             case matchArrayElement parse el fs of None \<Rightarrow> [] | Some childFs \<Rightarrow> [filterValue parse el childFs]) xs)))"
| "filterValue parse (JObj m) fs =
     (if ownsWhole fs then JObj m
      else JObj (concat (map (\<lambda>(key, child).
             case map_of fs (''f:'' @ key) of
               Some (JObj childFs) \<Rightarrow> [(key, filterValue parse child childFs)]
             | _ \<Rightarrow> []) m)))"
| "filterValue parse v fs = v"

text \<open>The keys of both sets, those of the first in order first.\<close>

definition all_keys :: "field_set \<Rightarrow> field_set \<Rightarrow> jstring list" where
  "all_keys a b = remdups (keys a) @ filter (\<lambda>k. k \<notin> set (keys a)) (remdups (keys b))"

function mergeFieldSets :: "field_set \<Rightarrow> field_set \<Rightarrow> field_set" where
  "mergeFieldSets a b =
     (if ownsWhole a \<or> ownsWhole b then []
      else map (\<lambda>key. (key,
             case (map_of a key, map_of b key) of
               (Some (JObj av), Some (JObj bv)) \<Rightarrow> JObj (mergeFieldSets av bv)
             | (Some (JObj av), _) \<Rightarrow> JObj av
             | (_, Some (JObj bv)) \<Rightarrow> JObj bv
             | _ \<Rightarrow> JObj [])) (all_keys a b))"
  by pat_completeness auto
termination
  by (relation "measure (\<lambda>(a, _). size (JObj a))") (auto simp del: json.size intro: size_member)

declare mergeFieldSets.simps [simp del]

text \<open>The spec field set of one managed-fields entry, if it is an Apply of the whole object.\<close>

definition entry_spec :: "json \<Rightarrow> field_set option" where
  "entry_spec raw =
     (if \<not> is_record raw then None
      else if jget ''operation'' raw \<noteq> Some (JStr ''Apply'') then None
      else if jget ''subresource'' raw \<noteq> None \<and> jget ''subresource'' raw \<noteq> Some (JStr []) then None
      else case jget ''fieldsV1'' raw of
             Some (JObj fs) \<Rightarrow> (case map_of fs ''f:spec'' of Some (JObj specFs) \<Rightarrow> Some specFs | _ \<Rightarrow> None)
           | _ \<Rightarrow> None)"

definition merge_entry :: "json \<Rightarrow> field_set option \<Rightarrow> field_set option" where
  "merge_entry raw merged =
     (case entry_spec raw of
        None \<Rightarrow> merged
      | Some specFs \<Rightarrow> (case merged of None \<Rightarrow> Some specFs | Some m \<Rightarrow> Some (mergeFieldSets m specFs)))"

definition extractOwnedSpec :: "json option \<Rightarrow> field_set option" where
  "extractOwnedSpec managedFields =
     (case managedFields of Some (JArr entries) \<Rightarrow> fold merge_entry entries None | _ \<Rightarrow> None)"

section \<open>The compact view\<close>

datatype compact_source = LastApplied | ManagedFields | NoSource

record compact_result =
  co_value :: json
  co_filtered :: bool
  co_source :: compact_source

definition owned_or_plain :: "json_parser \<Rightarrow> json \<Rightarrow> json option \<Rightarrow> compact_result" where
  "owned_or_plain parse spec managedFields =
     (let plain = \<lparr>co_value = pruneEmpty spec, co_filtered = False, co_source = NoSource\<rparr>
      in case extractOwnedSpec managedFields of
           None \<Rightarrow> plain
         | Some owned \<Rightarrow>
             (let filtered = pruneEmpty (filterValue parse spec owned)
              in if isEmpty filtered then plain
                 else \<lparr>co_value = filtered, co_filtered = True, co_source = ManagedFields\<rparr>))"

definition compactSpec :: "json_parser \<Rightarrow> json \<Rightarrow> (jstring \<times> jstring) list option \<Rightarrow> json option \<Rightarrow> compact_result" where
  "compactSpec parse spec annotations managedFields =
     (case parseLastAppliedSpec parse annotations of
        None \<Rightarrow> owned_or_plain parse spec managedFields
      | Some template \<Rightarrow>
          (let filtered = pruneEmpty (intersectWithTemplate spec (JObj template))
           in if isEmpty filtered then owned_or_plain parse spec managedFields
              else \<lparr>co_value = filtered, co_filtered = True, co_source = LastApplied\<rparr>))"

section \<open>Fields outside the skeleton\<close>

definition SKELETON_KEYS :: "jstring list" where
  "SKELETON_KEYS = [''apiVersion'', ''kind'', ''metadata'', ''spec'', ''status'']"

definition PANEL_OWNED :: "(jstring \<times> jstring list) list" where
  "PANEL_OWNED = [(''v1/Secret'', [''data'', ''stringData'']), (''v1/ConfigMap'', [''data'', ''binaryData''])]"

definition string_member :: "jstring \<Rightarrow> (jstring \<times> json) list \<Rightarrow> jstring" where
  "string_member k m = (case map_of m k of Some (JStr s) \<Rightarrow> s | _ \<Rightarrow> [])"

definition topLevelFields :: "(jstring \<times> json) list \<Rightarrow> (jstring \<times> json) list option" where
  "topLevelFields object =
     (let owned = (case map_of PANEL_OWNED (string_member ''apiVersion'' object @ ''/'' @ string_member ''kind'' object) of
                     Some ks \<Rightarrow> ks | None \<Rightarrow> []);
          rest = filter (\<lambda>kv. \<not> (fst kv \<in> set SKELETON_KEYS \<or> fst kv \<in> set owned)) object
      in case pruneEmpty (JObj rest) of
           JObj pruned \<Rightarrow> if pruned \<noteq> [] then Some pruned else None
         | _ \<Rightarrow> None)"

definition isSecret :: "(jstring \<times> json) list \<Rightarrow> bool" where
  "isSecret obj \<longleftrightarrow> map_of obj ''apiVersion'' = Some (JStr ''v1'') \<and> map_of obj ''kind'' = Some (JStr ''Secret'')"

definition isMaskedAnnotation :: "(jstring \<times> json) list \<Rightarrow> jstring \<Rightarrow> bool" where
  "isMaskedAnnotation obj key \<longleftrightarrow> isSecret obj \<and> key = LAST_APPLIED_ANNOTATION"

section \<open>Parts of a value\<close>

text \<open>What is left of a value when object members and array elements are dropped, at any depth.\<close>

inductive part_of :: "json \<Rightarrow> json \<Rightarrow> bool" where
  part_refl: "part_of v v"
| part_arr: "list_emb part_of xs ys \<Longrightarrow> part_of (JArr xs) (JArr ys)"
| part_obj: "list_emb (\<lambda>a b. fst a = fst b \<and> part_of (snd a) (snd b)) m n \<Longrightarrow> part_of (JObj m) (JObj n)"
monos list_emb_mono

lemma emb_refl: "(\<And>x. x \<in> set xs \<Longrightarrow> P x x) \<Longrightarrow> list_emb P xs xs"
  by (induction xs) auto

lemma emb_filter_map:
  "(\<And>x. x \<in> set xs \<Longrightarrow> Q (f x) \<Longrightarrow> P (f x) x) \<Longrightarrow> list_emb P (filter Q (map f xs)) xs"
  by (induction xs) auto

lemma emb_concat:
  "(\<And>x. x \<in> set xs \<Longrightarrow> f x = [] \<or> (\<exists>y. f x = [y] \<and> P y (g x))) \<Longrightarrow> list_emb P (concat (map f xs)) (map g xs)"
proof (induction xs)
  case (Cons x xs)
  then have "list_emb P (concat (map f xs)) (map g xs)" by simp
  with Cons.prems [of x] show ?case by auto
qed simp

lemma emb_comp:
  "list_emb P xs ys \<Longrightarrow> list_emb Q ys zs \<Longrightarrow> (\<And>x y z. P x y \<Longrightarrow> Q y z \<Longrightarrow> R x z) \<Longrightarrow> list_emb R xs zs"
proof (induction xs ys arbitrary: zs rule: list_emb.induct)
  case (list_emb_Cons xs ys y)
  from list_emb_ConsD [OF list_emb_Cons.prems(1)] obtain us z vs where zs: "zs = us @ z # vs" "list_emb Q ys vs" by auto
  from list_emb_Cons.IH [OF zs(2) list_emb_Cons.prems(2)] have "list_emb R xs vs" .
  then have "list_emb R xs (z # vs)" by (rule list_emb.list_emb_Cons)
  then show ?case unfolding zs(1) by (rule list_emb_append2)
next
  case (list_emb_Cons2 x y xs ys)
  from list_emb_ConsD [OF list_emb_Cons2.prems(1)] obtain us z vs
    where zs: "zs = us @ z # vs" "Q y z" "list_emb Q ys vs" by auto
  have "list_emb R (x # xs) (z # vs)"
    using list_emb_Cons2 zs by (intro list_emb.list_emb_Cons2) auto
  then show ?case unfolding zs(1) by (rule list_emb_append2)
qed simp

lemma part_trans: "part_of b c \<Longrightarrow> part_of a b \<Longrightarrow> part_of a c"
proof (induction b c arbitrary: a rule: part_of.induct)
  case (part_arr ys zs)
  have e: "list_emb part_of ys zs" using part_arr.IH by (rule list_emb_mono [rule_format, rotated]) simp
  consider "a = JArr ys" | xs where "a = JArr xs" "list_emb part_of xs ys"
    using part_arr.prems by (auto elim: part_of.cases)
  then show ?case
  proof cases
    case 2
    then show ?thesis using emb_comp [OF 2(2) part_arr.IH] by (auto intro: part_of.part_arr)
  qed (use e in \<open>simp add: part_of.part_arr\<close>)
next
  case (part_obj m n)
  let ?P = "\<lambda>a b. fst a = fst b \<and> part_of (snd a) (snd b)"
  have e: "list_emb ?P m n" using part_obj.IH by (rule list_emb_mono [rule_format, rotated]) simp
  consider "a = JObj m" | l where "a = JObj l" "list_emb ?P l m"
    using part_obj.prems by (auto elim: part_of.cases)
  then show ?case
  proof cases
    case 2
    have "list_emb ?P l n" by (rule emb_comp [OF 2(2) part_obj.IH]) auto
    then show ?thesis using 2(1) by (auto intro: part_of.part_obj)
  qed (use e in \<open>simp add: part_of.part_obj\<close>)
qed simp

lemma part_prune: "part_of (pruneEmpty v) v"
proof (induction v rule: pruneEmpty.induct)
  case (1 xs)
  then show ?case by (auto intro!: part_arr emb_filter_map)
next
  case (2 m)
  have "list_emb (\<lambda>a b. fst a = fst b \<and> part_of (snd a) (snd b))
      (filter (\<lambda>kv. \<not> isEmpty (snd kv)) (map (\<lambda>(k, v). (k, pruneEmpty v)) m)) m"
    by (rule emb_filter_map) (use 2 in auto)
  then show ?case by (simp add: part_obj)
qed (auto intro: part_refl)

lemma part_intersect: "part_of (intersectWithTemplate live template) live"
proof (induction live template rule: intersectWithTemplate.induct)
  case (1 live template)
  consider xs ts where "live = JArr xs" "template = JArr ts" "list_all is_record xs"
    | m tm where "live = JObj m" "template = JObj tm"
    | "intersectWithTemplate live template = live"
  proof (cases "\<exists>xs ts. live = JArr xs \<and> template = JArr ts \<and> list_all is_record xs")
    case False
    then show ?thesis using that(2,3)
      by (cases live; cases template) (auto simp: intersectWithTemplate.simps)
  qed (use that in \<open>blast\<close>)
  then show ?case
  proof cases
    case (1 xs ts)
    let ?f = "\<lambda>el. case template_element (length xs) ts el of None \<Rightarrow> [] | Some t \<Rightarrow> [intersectWithTemplate (snd el) t]"
    have "list_emb part_of (concat (map ?f (enumerate 0 xs))) (map snd (enumerate 0 xs))"
      by (rule emb_concat) (use "1.IH" 1 in \<open>auto split: option.splits\<close>)
    then show ?thesis using 1 by (simp add: intersectWithTemplate.simps part_arr)
  next
    case (2 m tm)
    let ?f = "\<lambda>kv. case map_of tm (fst kv) of None \<Rightarrow> [] | Some t \<Rightarrow> [(fst kv, intersectWithTemplate (snd kv) t)]"
    have "list_emb (\<lambda>a b. fst a = fst b \<and> part_of (snd a) (snd b)) (concat (map ?f m)) (map (\<lambda>x. x) m)"
      by (rule emb_concat) (use "1.IH" 2 in \<open>auto split: option.splits\<close>)
    then show ?thesis using 2 by (simp add: intersectWithTemplate.simps part_obj)
  qed (simp add: part_refl)
qed

lemma part_filter: "part_of (filterValue parse v fs) v"
proof (induction parse v fs rule: filterValue.induct)
  case (1 parse xs fs)
  let ?f = "\<lambda>el. case matchArrayElement parse el fs of None \<Rightarrow> [] | Some childFs \<Rightarrow> [filterValue parse el childFs]"
  show ?case
  proof (cases "ownsWhole fs")
    case False
    have "list_emb part_of (concat (map ?f xs)) (map (\<lambda>x. x) xs)"
      by (rule emb_concat) (use 1 False in \<open>auto split: option.splits\<close>)
    then show ?thesis using False by (simp add: part_arr)
  qed (simp add: part_refl)
next
  case (2 parse m fs)
  let ?f = "\<lambda>(key, child). case map_of fs (''f:'' @ key) of Some (JObj childFs) \<Rightarrow> [(key, filterValue parse child childFs)] | _ \<Rightarrow> []"
  show ?case
  proof (cases "ownsWhole fs")
    case False
    have "list_emb (\<lambda>a b. fst a = fst b \<and> part_of (snd a) (snd b)) (concat (map ?f m)) (map (\<lambda>x. x) m)"
      by (rule emb_concat) (use 2 False in \<open>auto split: option.splits json.splits\<close>)
    then show ?thesis using False by (simp add: part_obj)
  qed (simp add: part_refl)
qed (auto intro: part_refl)

text \<open>
  The compact view never shows anything the object does not contain: whatever the annotation, the
  managed fields and the parser say, the value displayed is the live spec with members and elements
  left out, in their order; and the plain fallback is the live spec pruned of its empty values.
\<close>

theorem compact_view_is_part_of_spec:
  "part_of (co_value (compactSpec parse spec annotations managedFields)) spec"
proof -
  have p: "part_of v spec \<Longrightarrow> part_of (pruneEmpty v) spec" for v by (rule part_trans [OF _ part_prune])
  have "part_of (co_value (owned_or_plain parse spec managedFields)) spec"
    by (simp add: owned_or_plain_def Let_def p part_filter part_prune split: option.split)
  then show ?thesis
    by (simp add: compactSpec_def Let_def p part_intersect split: option.split)
qed

section \<open>Pruning\<close>

text \<open>The values worth showing, in document order.\<close>

fun scalars :: "json \<Rightarrow> json list" where
  "scalars (JArr xs) = concat (map scalars xs)"
| "scalars (JObj m) = concat (map (\<lambda>(k, v). scalars v) m)"
| "scalars v = (if isEmpty v then [] else [v])"

fun no_empties :: "json \<Rightarrow> bool" where
  "no_empties (JArr xs) \<longleftrightarrow> list_all (\<lambda>v. \<not> isEmpty v \<and> no_empties v) xs"
| "no_empties (JObj m) \<longleftrightarrow> list_all (\<lambda>(k, v). \<not> isEmpty v \<and> no_empties v) m"
| "no_empties v \<longleftrightarrow> True"

lemma scalars_empty: "isEmpty v \<Longrightarrow> scalars v = []"
  by (cases v) auto

lemma concat_filter_nil: "(\<And>x. x \<in> set xs \<Longrightarrow> \<not> Q (f x) \<Longrightarrow> g (f x) = []) \<Longrightarrow> (\<And>x. x \<in> set xs \<Longrightarrow> g (f x) = h x) \<Longrightarrow>
  concat (map g (filter Q (map f xs))) = concat (map h xs)"
  by (induction xs) auto

lemma scalars_prune: "scalars (pruneEmpty v) = scalars v"
proof (induction v rule: pruneEmpty.induct)
  case (1 xs)
  have "concat (map scalars (filter (\<lambda>v. \<not> isEmpty v) (map pruneEmpty xs))) = concat (map scalars xs)"
    by (rule concat_filter_nil) (use 1 in \<open>auto simp: scalars_empty\<close>)
  then show ?case by simp
next
  case (2 m)
  have "concat (map (\<lambda>(k, v). scalars v) (filter (\<lambda>kv. \<not> isEmpty (snd kv)) (map (\<lambda>(k, v). (k, pruneEmpty v)) m))) =
      concat (map (\<lambda>(k, v). scalars v) m)"
    by (rule concat_filter_nil) (use 2 in \<open>auto simp: scalars_empty\<close>)
  then show ?case by simp
qed auto

lemma prune_no_empties: "no_empties (pruneEmpty v)"
  by (induction v rule: pruneEmpty.induct) (auto simp: list_all_iff)

lemma prune_id: "no_empties v \<Longrightarrow> pruneEmpty v = v"
proof (induction v rule: pruneEmpty.induct)
  case (1 xs)
  then have "map pruneEmpty xs = xs" by (auto simp: list_all_iff intro: map_idI)
  with 1 show ?case by (simp add: list_all_iff filter_id_conv)
next
  case (2 m)
  then have "map (\<lambda>(k, v). (k, pruneEmpty v)) m = m" by (auto simp: list_all_iff intro!: map_idI)
  with 2 show ?case by (auto simp: list_all_iff filter_id_conv)
qed auto

text \<open>
  Pruning removes exactly the noise: no value that is not itself empty is lost and their order is
  kept, nothing empty remains at any depth below the root, and pruning again changes nothing.
\<close>

theorem pruning_removes_exactly_empties:
  "scalars (pruneEmpty v) = scalars v \<and> no_empties (pruneEmpty v) \<and> pruneEmpty (pruneEmpty v) = pruneEmpty v"
  by (simp add: scalars_prune prune_no_empties prune_id)

section \<open>What the manifest declares\<close>

fun json_at :: "jstring list \<Rightarrow> json \<Rightarrow> json option" where
  "json_at [] v = Some v"
| "json_at (k # ks) v = Option.bind (jget k v) (json_at ks)"

lemma map_of_prune: "map_of m k = Some v \<Longrightarrow> \<not> isEmpty (pruneEmpty v) \<Longrightarrow>
  jget k (pruneEmpty (JObj m)) = Some (pruneEmpty v)"
  by (induction m) (auto split: if_splits)

lemma scalar_at_nonempty: "json_at ks v = Some x \<Longrightarrow> \<not> is_object x \<Longrightarrow> \<not> isEmpty x \<Longrightarrow> \<not> isEmpty (pruneEmpty v)"
proof (induction ks arbitrary: v)
  case Nil
  then show ?case by (cases v) auto
next
  case (Cons k ks)
  then obtain m w where m: "v = JObj m" "map_of m k = Some w" "json_at ks w = Some x"
    by (cases v) (auto split: bind_splits)
  with Cons.IH Cons.prems have "\<not> isEmpty (pruneEmpty w)" by blast
  then have "jget k (pruneEmpty v) = Some (pruneEmpty w)" using map_of_prune m by simp
  then show ?case using m(1) by (cases "pruneEmpty v") auto
qed

lemma at_prune: "json_at ks v = Some x \<Longrightarrow> \<not> is_object x \<Longrightarrow> \<not> isEmpty x \<Longrightarrow> json_at ks (pruneEmpty v) = Some x"
proof (induction ks arbitrary: v)
  case Nil
  then show ?case by (cases x) auto
next
  case (Cons k ks)
  then obtain m w where m: "v = JObj m" "map_of m k = Some w" "json_at ks w = Some x"
    by (cases v) (auto split: bind_splits)
  with Cons.IH Cons.prems have "json_at ks (pruneEmpty w) = Some x" by blast
  moreover have "\<not> isEmpty (pruneEmpty w)" using scalar_at_nonempty m(3) Cons.prems by blast
  ultimately show ?case using map_of_prune m by simp
qed

lemma map_of_intersect:
  "map_of m k = Some v \<Longrightarrow> map_of tm k = Some t \<Longrightarrow>
   jget k (intersectWithTemplate (JObj m) (JObj tm)) = Some (intersectWithTemplate v t)"
proof -
  let ?f = "\<lambda>kv. case map_of tm (fst kv) of None \<Rightarrow> [] | Some t \<Rightarrow> [(fst kv, intersectWithTemplate (snd kv) t)]"
  assume "map_of m k = Some v" "map_of tm k = Some t"
  then have "map_of (concat (map ?f m)) k = Some (intersectWithTemplate v t)"
    by (induction m) (auto split: if_splits option.splits)
  then show ?thesis by (simp add: intersectWithTemplate.simps)
qed

lemma at_intersect:
  "json_at ks live = Some x \<Longrightarrow> \<not> is_object x \<Longrightarrow> json_at ks template \<noteq> None \<Longrightarrow> json_at ks (intersectWithTemplate live template) = Some x"
proof (induction ks arbitrary: live template)
  case Nil
  then show ?case by (cases x) (simp_all add: intersectWithTemplate.simps)
next
  case (Cons k ks)
  then obtain m v where m: "live = JObj m" "map_of m k = Some v" "json_at ks v = Some x"
    by (cases live) (auto split: bind_splits)
  obtain tm t where t: "template = JObj tm" "map_of tm k = Some t" "json_at ks t \<noteq> None"
    using Cons.prems(3) by (cases template) (auto split: bind_splits)
  from Cons.IH [OF m(3) Cons.prems(2) t(3)] map_of_intersect [OF m(2) t(2)] m(1) t(1) show ?case by simp
qed

text \<open>
  What the user declared is on the screen: a field the manifest of the last client-side apply names,
  with a live value that is not empty, is in the compact view under the same path and with its live value.
\<close>

theorem declared_fields_are_shown:
  assumes "parseLastAppliedSpec parse annotations = Some template"
    and "json_at ks (JObj template) \<noteq> None"
    and "json_at ks spec = Some x" "\<not> is_object x" "\<not> isEmpty x"
  shows "json_at ks (co_value (compactSpec parse spec annotations managedFields)) = Some x"
proof -
  have i: "json_at ks (intersectWithTemplate spec (JObj template)) = Some x"
    by (rule at_intersect [OF assms(3,4,2)])
  then show ?thesis
    using assms(1) scalar_at_nonempty [OF i assms(4,5)] at_prune [OF i assms(4,5)]
    by (simp add: compactSpec_def Let_def)
qed

theorem declared_fields_are_shown_witness:
  "json_at [''replicas''] (co_value (compactSpec (\<lambda>_. Some (JObj [(''spec'', JObj [(''replicas'', JNum 2)])]))
      (JObj [(''replicas'', JNum 3), (''paused'', JBool False)]) (Some [(LAST_APPLIED_ANNOTATION, ''{}'')]) None)) = Some (JNum 3)"
  by (rule declared_fields_are_shown [where template = "[(''replicas'', JNum 2)]"])
    (simp_all add: parseLastAppliedSpec_def)

end
