(* ===== verification/Units.thy ===== *)
theory Units
  imports TableSort Json
begin

text \<open>
  \<^verbatim>\<open>web/src/utils/units.ts\<close>: CPU, memory and age texts and the parser of resource quantities. Numbers are
  exact rationals; \<^verbatim>\<open>toFixed\<close> and \<^verbatim>\<open>Math.round\<close> round half up, as the language does on non-negative values. A
  timestamp is given by its parsed time in milliseconds (\<open>None\<close> is an invalid date).
\<close>

section \<open>Numbers as text\<close>

definition round_half_up :: "rat \<Rightarrow> int" where
  "round_half_up x = \<lfloor>x + 1 / 2\<rfloor>"

text \<open>\<^verbatim>\<open>x.toFixed(digits)\<close> of a non-negative number.\<close>

definition to_fixed :: "nat \<Rightarrow> rat \<Rightarrow> jstring" where
  "to_fixed digits x =
     (let n = nat (round_half_up (x * 10 ^ digits)); frac = show_nat (n mod 10 ^ digits)
      in if digits = 0 then show_nat n
         else show_nat (n div 10 ^ digits) @ ''.'' @ replicate (digits - length frac) (CHR ''0'') @ frac)"

definition formatCpu :: "rat \<Rightarrow> jstring" where
  "formatCpu nanoCores =
     (let milli = nanoCores / 1000000
      in if milli < 1000
         then (if milli < 10 then to_fixed 1 milli else show_int (round_half_up milli)) @ '' mCPU''
         else to_fixed 2 (nanoCores / 1000000000) @ '' cores'')"

definition formatCores :: "rat \<Rightarrow> jstring" where
  "formatCores cores = (if of_int \<lfloor>cores\<rfloor> = cores then show_int \<lfloor>cores\<rfloor> else to_fixed 2 cores)"

definition BYTE_UNITS :: "jstring list" where
  "BYTE_UNITS = [''B'', ''KiB'', ''MiB'', ''GiB'', ''TiB'']"

function bytes_loop :: "rat \<Rightarrow> nat \<Rightarrow> rat \<times> nat" where
  "bytes_loop v unit = (if 1024 \<le> v \<and> unit < length BYTE_UNITS - 1 then bytes_loop (v / 1024) (Suc unit) else (v, unit))"
  by pat_completeness auto
termination
  by (relation "measure (\<lambda>(_, unit). length BYTE_UNITS - unit)") (auto simp: BYTE_UNITS_def)

declare bytes_loop.simps [simp del]

definition formatBytes :: "rat \<Rightarrow> jstring" where
  "formatBytes bytes =
     (let (v, unit) = bytes_loop bytes 0;
          digits = (if 100 \<le> v \<or> unit = 0 then 0 else if 10 \<le> v then 1 else 2)
      in to_fixed digits v @ '' '' @ BYTE_UNITS ! unit)"

section \<open>Quantities\<close>

definition QUANTITY_SUFFIXES :: "(jstring \<times> rat) list" where
  "QUANTITY_SUFFIXES =
     [(''n'', 1 / 1000000000), (''u'', 1 / 1000000), (''m'', 1 / 1000), ([], 1), (''k'', 1000), (''M'', 1000000),
      (''G'', 1000000000), (''T'', 1000000000000), (''P'', 1000000000000000), (''E'', 1000000000000000000),
      (''Ki'', 1024), (''Mi'', 1024 ^ 2), (''Gi'', 1024 ^ 3), (''Ti'', 1024 ^ 4), (''Pi'', 1024 ^ 5), (''Ei'', 1024 ^ 6)]"

datatype quantity = QNum rat | QStr jstring

text \<open>\<^verbatim>\<open>^(-?\d+(?:\.\d+)?(?:[eE][-+]?\d+)?)(\D*)$\<close>: the number and the suffix.\<close>

definition quantity_parts :: "jstring \<Rightarrow> (rat \<times> jstring) option" where
  "quantity_parts s =
     (let (neg, t) = (if starts_with ''-'' s then (True, tl s) else (False, s));
          ids = digits_of t;
          (ft, fds, r2) = fraction_part (after_digits t);
          (et, e, r3) = exponent_part r2
      in if ids = [] \<or> list_ex is_digit r3 then None else Some (decimal_value neg ids fds e, r3))"

definition parseQuantity :: "quantity option \<Rightarrow> rat option" where
  "parseQuantity v =
     (case v of
        None \<Rightarrow> None
      | Some (QNum n) \<Rightarrow> Some n
      | Some (QStr s) \<Rightarrow>
          if s = [] then None
          else case quantity_parts (trim s) of
                 None \<Rightarrow> None
               | Some (num, suffix) \<Rightarrow> map_option (\<lambda>mult. num * mult) (map_of QUANTITY_SUFFIXES suffix))"

section \<open>Ages\<close>

definition formatDurationShort :: "nat \<Rightarrow> jstring" where
  "formatDurationShort seconds =
     (if seconds < 60 then show_nat seconds @ ''s''
      else
        let minutes = seconds div 60 in
        if minutes < 60 then show_nat minutes @ ''m''
        else
          let hours = minutes div 60; rest = minutes mod 60 in
          if hours < 24 then (if 0 < rest then show_nat hours @ ''h'' @ show_nat rest @ ''m'' else show_nat hours @ ''h'')
          else
            let days = hours div 24 in
            if days < 365 then show_nat days @ ''d''
            else show_nat (days div 365) @ ''y'' @ (if 0 < days mod 365 then show_nat (days mod 365) @ ''d'' else []))"

definition formatAge :: "int option \<Rightarrow> int \<Rightarrow> jstring" where
  "formatAge stamp nowMs =
     (case stamp of None \<Rightarrow> [] | Some t \<Rightarrow> formatDurationShort (nat (max 0 ((nowMs - t) div 1000))))"

definition formatRelativeAge :: "int option \<Rightarrow> int \<Rightarrow> jstring" where
  "formatRelativeAge stamp nowMs =
     (case stamp of
        None \<Rightarrow> []
      | Some t \<Rightarrow>
          (let delta = (nowMs - t) div 1000
           in if delta < 0 then ''in '' @ formatDurationShort (nat (- delta)) else formatDurationShort (nat delta) @ '' ago''))"

section \<open>Properties\<close>

lemma quantity_examples:
  "parseQuantity (Some (QStr ''16Gi'')) = Some (16 * 1024 ^ 3)" "parseQuantity (Some (QStr ''250m'')) = Some (1 / 4)"
  "parseQuantity (Some (QStr ''1.5Gi'')) = Some (1024 ^ 3 * 3 / 2)" "parseQuantity (Some (QStr ''2e3'')) = Some 2000"
  "parseQuantity (Some (QStr ''5E'')) = Some (5 * 10 ^ 18)" "parseQuantity (Some (QStr ''12 GB'')) = None"
  by code_simp+

text \<open>The tokens a duration is printed from, and how far they are below it.\<close>

definition duration_tokens :: "nat \<Rightarrow> (jstring \<times> jstring) list" where
  "duration_tokens s =
     (let minutes = s div 60; hours = minutes div 60; days = hours div 24 in
      if s < 60 then [(show_nat s, ''s'')]
      else if minutes < 60 then [(show_nat minutes, ''m'')]
      else if hours < 24 then (show_nat hours, ''h'') # (if 0 < minutes mod 60 then [(show_nat (minutes mod 60), ''m'')] else [])
      else if days < 365 then [(show_nat days, ''d'')]
      else (show_nat (days div 365), ''y'') # (if 0 < days mod 365 then [(show_nat (days mod 365), ''d'')] else []))"

definition duration_step :: "nat \<Rightarrow> nat" where
  "duration_step s = (if s < 60 then 1 else if s < 86400 then 60 else 86400)"

lemma duration_text: "formatDurationShort s = concat (map age_text (duration_tokens s))"
  by (simp add: formatDurationShort_def duration_tokens_def age_text_def Let_def)

lemma duration_valid: "valid_age (duration_tokens s)"
  using show_nat_digits by (simp add: valid_age_def duration_tokens_def Let_def AGE_MULTIPLIERS_def)

lemma digit_not_space: "is_digit c \<Longrightarrow> \<not> is_space c"
  by (auto simp: is_digit_def is_space_def)

lemma valid_no_space: "valid_age ts \<Longrightarrow> list_all (\<lambda>c. \<not> is_space c) (concat (map age_text ts))"
proof (induction ts)
  case (Cons t ts)
  have "list_all (\<lambda>c. \<not> is_space c) u" if "u \<in> set (keys AGE_MULTIPLIERS)" for u
    using that by (auto simp: AGE_MULTIPLIERS_def is_space_def)
  with Cons show ?case
    by (auto simp: valid_age_def age_text_def list_all_iff dest: digit_not_space split: prod.splits)
qed simp

lemma parse_duration: "parseK8sAge (formatDurationShort s) = Some (sum_list (map age_value (duration_tokens s)))"
proof (rule parse_tokens [OF duration_valid])
  show "duration_tokens s \<noteq> []" by (simp add: duration_tokens_def Let_def)
  show "trim (formatDurationShort s) = concat (map age_text (duration_tokens s))"
    unfolding duration_text by (rule trim_no_space [OF valid_no_space [OF duration_valid]])
qed

lemma age_value_units:
  "age_value (show_nat n, ''s'') = of_nat n" "age_value (show_nat n, ''m'') = of_nat (60 * n)"
  "age_value (show_nat n, ''h'') = of_nat (3600 * n)" "age_value (show_nat n, ''d'') = of_nat (86400 * n)"
  "age_value (show_nat n, ''y'') = of_nat (31536000 * n)"
  by (simp_all add: age_value_def AGE_MULTIPLIERS_def)

lemma duration_value: "sum_list (map age_value (duration_tokens s)) = of_nat (s div duration_step s * duration_step s)"
proof -
  define m where "m = s div 60"
  define h where "h = m div 60"
  define d where "d = h div 24"
  have d_s: "d = s div 86400" by (simp add: d_def h_def m_def div_mult2_eq [symmetric])
  have lt: "s < 60 \<longleftrightarrow> m = 0" "m < 60 \<longleftrightarrow> s < 3600" "h < 24 \<longleftrightarrow> s < 86400"
    by (auto simp: m_def h_def div_mult2_eq [symmetric] div_less_iff_less_mult)
  have hm: "h * 60 + m mod 60 = m" by (simp add: h_def)
  have yd: "d div 365 * 365 + d mod 365 = d" by simp
  have "sum_list (map age_value (duration_tokens s)) = of_nat (if s < 60 then s else if s < 86400 then 60 * m else 86400 * d)"
  proof -
    consider "s < 60" | "60 \<le> s" "m < 60" | "60 \<le> s" "60 \<le> m" "h < 24" | "60 \<le> s" "60 \<le> m" "24 \<le> h" by linarith
    then show ?thesis
    proof cases
      case 1
      then show ?thesis by (simp add: duration_tokens_def age_value_units)
    next
      case 2
      then show ?thesis using lt by (simp add: duration_tokens_def age_value_units flip: m_def)
    next
      case 3
      have "sum_list (map age_value (duration_tokens s)) = of_nat (3600 * h + 60 * (m mod 60))"
        using 3 by (simp add: duration_tokens_def age_value_units Let_def flip: m_def h_def)
      also have "3600 * h + 60 * (m mod 60) = 60 * m" using hm by linarith
      finally show ?thesis using 3 lt by simp
    next
      case 4
      have "sum_list (map age_value (duration_tokens s)) = of_nat (31536000 * (d div 365) + 86400 * (d mod 365))"
        using 4 by (auto simp: duration_tokens_def age_value_units Let_def simp flip: m_def h_def d_def)
      also have "31536000 * (d div 365) + 86400 * (d mod 365) = 86400 * d" using yd by linarith
      finally show ?thesis using 4 lt by simp
    qed
  qed
  then show ?thesis by (simp add: duration_step_def m_def d_s mult.commute)
qed

text \<open>
  The age column sorts as it reads: the text printed for a duration parses back to that duration,
  rounded down to the unit it is shown in (a second below a minute, a minute below a day, a day from
  then on), so it is never ahead of the real age and less than one unit behind it.
\<close>

theorem printed_ages_parse_back:
  "case parseK8sAge (formatDurationShort s) of
     None \<Rightarrow> False
   | Some v \<Rightarrow> v = of_nat (s div duration_step s * duration_step s) \<and> v \<le> of_nat s \<and> of_nat s < v + of_nat (duration_step s)"
proof -
  let ?d = "duration_step s"
  have "0 < ?d" by (simp add: duration_step_def)
  then have "s div ?d * ?d \<le> s" "s < s div ?d * ?d + ?d"
    using dividend_less_div_times [of ?d s] by simp_all
  then have "(of_nat (s div ?d * ?d) :: rat) \<le> of_nat s" "(of_nat s :: rat) < of_nat (s div ?d * ?d) + of_nat ?d"
    by (metis of_nat_le_iff, metis of_nat_add of_nat_less_iff)
  then show ?thesis by (simp add: parse_duration duration_value del: of_nat_mult)
qed

text \<open>An older object never prints a smaller age.\<close>

lemma printed_ages_monotone:
  "s \<le> t \<Longrightarrow> the (parseK8sAge (formatDurationShort s)) \<le> the (parseK8sAge (formatDurationShort t))"
proof -
  assume st: "s \<le> t"
  have "s div duration_step s * duration_step s \<le> t div duration_step t * duration_step t"
  proof (cases "duration_step s = duration_step t")
    case True
    then show ?thesis using st by (simp add: div_le_mono)
  next
    case False
    have "s div duration_step s * duration_step s \<le> s" by simp
    moreover have "(60 \<le> t \<and> t < 86400 \<and> s < 60) \<or> (86400 \<le> t \<and> s < 86400)"
      using False st by (auto simp: duration_step_def split: if_splits)
    then have "s \<le> t div duration_step t * duration_step t"
    proof
      assume a: "60 \<le> t \<and> t < 86400 \<and> s < 60"
      then have "1 \<le> t div 60" using div_le_mono [of 60 t 60] by simp
      then show ?thesis using a by (simp add: duration_step_def)
    next
      assume a: "86400 \<le> t \<and> s < 86400"
      then have "1 \<le> t div 86400" using div_le_mono [of 86400 t 86400] by simp
      then show ?thesis using a by (simp add: duration_step_def)
    qed
    ultimately show ?thesis by linarith
  qed
  then show ?thesis by (simp add: parse_duration duration_value del: of_nat_mult)
qed

lemma bytes_loop_bound: "bytes_loop v unit = (w, u) \<Longrightarrow> unit \<le> 4 \<Longrightarrow> u \<le> 4 \<and> v = w * 1024 ^ (u - unit) \<and> unit \<le> u \<and> (u < 4 \<longrightarrow> w < 1024)"
proof (induction v unit rule: bytes_loop.induct)
  case (1 v unit)
  show ?case
  proof (cases "1024 \<le> v \<and> unit < 4")
    case True
    then have "bytes_loop (v / 1024) (Suc unit) = (w, u)"
      using 1(2) by (simp add: bytes_loop.simps [of v unit] BYTE_UNITS_def)
    with 1(1) True have "u \<le> 4" "v / 1024 = w * 1024 ^ (u - Suc unit)" "Suc unit \<le> u" "u < 4 \<longrightarrow> w < 1024"
      by (simp_all add: BYTE_UNITS_def)
    moreover have "u - unit = Suc (u - Suc unit)" using \<open>Suc unit \<le> u\<close> by simp
    ultimately show ?thesis by (simp add: field_simps)
  next
    case False
    then have "w = v" "u = unit" using 1(2) by (simp_all add: bytes_loop.simps [of v unit] BYTE_UNITS_def split: if_splits)
    with 1(3) False show ?thesis by auto
  qed
qed

lemma format_examples:
  "formatRelativeAge (Some 0) 12000000 = ''3h20m ago''" "formatRelativeAge (Some 90000) 0 = ''in 1m''"
  by (simp_all add: formatRelativeAge_def formatDurationShort_def Let_def show_nat.simps char_of_def bit_0)

end
