(* ===== verification/StatusColors.thy ===== *)
theory StatusColors
  imports Sort
begin

text \<open>
  \<^verbatim>\<open>web/src/utils/statusColors.ts\<close> and \<^verbatim>\<open>web/src/utils/eventHelpers.ts\<close>: how alarming a cell reads, and the rows of
  the event tables. \<^verbatim>\<open>Date.parse\<close> is a parameter.
\<close>

section \<open>Statuses\<close>

definition ERROR_STATUSES :: "jstring list" where
  "ERROR_STATUSES = [''failed'', ''error'', ''evicted'', ''oomkilled'', ''notready'', ''unknown'', ''invalid'']"

definition ERROR_SUBSTRINGS :: "jstring list" where
  "ERROR_SUBSTRINGS = [''crashloopbackoff'', ''backoff'', ''errimage'', ''error'', ''fail'', ''unhealthy'']"

definition WARNING_STATUSES :: "jstring list" where
  "WARNING_STATUSES =
     [''pending'', ''terminating'', ''containercreating'', ''podinitializing'', ''schedulingdisabled'', ''unschedulable'',
      ''progressing'', ''warning'']"

text \<open>\<^verbatim>\<open>/status|state|reason|type|phase|condition|health|ready/i\<close>\<close>

definition isStatusColumn :: "jstring \<Rightarrow> bool" where
  "isStatusColumn columnName \<longleftrightarrow>
     list_ex (\<lambda>w. str_includes w (to_lower columnName))
       [''status'', ''state'', ''reason'', ''type'', ''phase'', ''condition'', ''health'', ''ready'']"

datatype status_kind = StatusWords | WarnWhenTrue

text \<open>\<^verbatim>\<open>/^\s*suspend(ed)?\s*$/i\<close>\<close>

definition warn_when_true_column :: "jstring \<Rightarrow> bool" where
  "warn_when_true_column columnName \<longleftrightarrow> to_lower (trim columnName) \<in> {''suspend'', ''suspended''}"

definition statusColumnKind :: "jstring \<Rightarrow> status_kind option" where
  "statusColumnKind columnName =
     (if warn_when_true_column columnName then Some WarnWhenTrue
      else if isStatusColumn columnName then Some StatusWords else None)"

datatype status_severity = StError | StWarning

definition part_severity :: "jstring \<Rightarrow> status_severity option" where
  "part_severity part =
     (let v = to_lower (trim part) in
      if v = [] then None
      else if v \<in> set ERROR_STATUSES \<or> list_ex (\<lambda>s. str_includes s v) ERROR_SUBSTRINGS then Some StError
      else if v \<in> set WARNING_STATUSES then Some StWarning
      else None)"

fun severity_loop :: "jstring list \<Rightarrow> bool \<Rightarrow> status_severity option" where
  "severity_loop [] warning = (if warning then Some StWarning else None)"
| "severity_loop (p # ps) warning =
     (if part_severity p = Some StError then Some StError
      else severity_loop ps (warning \<or> part_severity p = Some StWarning))"

definition statusSeverity :: "jstring \<Rightarrow> status_severity option" where
  "statusSeverity v = severity_loop (split_on (CHR '','') v) False"

definition SEVERITY_TEXT_CLASS :: "status_severity \<Rightarrow> jstring" where
  "SEVERITY_TEXT_CLASS s =
     (case s of StError \<Rightarrow> ''text-red-600 dark:text-red-400 font-medium'' | StWarning \<Rightarrow> ''text-amber-600 dark:text-amber-400'')"

definition statusTextClass :: "jstring \<Rightarrow> jstring option" where
  "statusTextClass v = map_option SEVERITY_TEXT_CLASS (statusSeverity v)"

definition warnWhenTrueSeverity :: "jstring \<Rightarrow> status_severity option" where
  "warnWhenTrueSeverity v = (if to_lower (trim v) = ''true'' then Some StWarning else None)"

definition cellTextClass :: "status_kind \<Rightarrow> jstring \<Rightarrow> jstring option" where
  "cellTextClass kind v =
     map_option SEVERITY_TEXT_CLASS (case kind of WarnWhenTrue \<Rightarrow> warnWhenTrueSeverity v | StatusWords \<Rightarrow> statusSeverity v)"

definition NEUTRAL_TEXT_CLASS :: jstring where
  "NEUTRAL_TEXT_CLASS = ''text-slate-700 dark:text-slate-300''"

section \<open>Events\<close>

record event_ref =
  ir_kind :: "jstring option"
  ir_name :: "jstring option"
  ir_namespace :: "jstring option"
  ir_apiVersion :: "jstring option"

record event_like =
  el_uid :: "jstring option"
  el_metaNamespace :: "jstring option"
  el_created :: "jstring option"
  el_type :: "jstring option"
  el_reason :: "jstring option"
  el_message :: "jstring option"
  el_count :: "int option"
  el_component :: "jstring option"
  el_reporting :: "jstring option"
  el_lastTimestamp :: "jstring option"
  el_eventTime :: "jstring option"
  el_involved :: "event_ref option"

record event_row =
  ev_uid :: jstring
  ev_type :: jstring
  ev_reason :: jstring
  ev_message :: jstring
  ev_count :: int
  ev_source :: jstring
  ev_lastSeen :: jstring
  ev_namespace :: jstring
  ev_involvedKind :: jstring
  ev_involvedName :: jstring
  ev_involvedApiVersion :: jstring

text \<open>\<^verbatim>\<open>x ?? d\<close> and the first non-empty string of a chain of \<^verbatim>\<open>||\<close>.\<close>

definition or_else :: "'a option \<Rightarrow> 'a \<Rightarrow> 'a" where
  "or_else x d = (case x of Some v \<Rightarrow> v | None \<Rightarrow> d)"

fun first_text :: "jstring option list \<Rightarrow> jstring" where
  "first_text [] = []"
| "first_text (x # xs) = (case x of Some s \<Rightarrow> if s \<noteq> [] then s else first_text xs | None \<Rightarrow> first_text xs)"

definition toEventRow :: "event_like \<Rightarrow> event_row" where
  "toEventRow e =
     \<lparr>ev_uid = or_else (el_uid e) [],
      ev_type = or_else (el_type e) [],
      ev_reason = or_else (el_reason e) [],
      ev_message = or_else (el_message e) [],
      ev_count = or_else (el_count e) 1,
      ev_source = first_text [el_component e, el_reporting e],
      ev_lastSeen = first_text [el_lastTimestamp e, el_eventTime e, el_created e],
      ev_namespace = (case Option.bind (el_involved e) ir_namespace of Some n \<Rightarrow> n | None \<Rightarrow> or_else (el_metaNamespace e) []),
      ev_involvedKind = or_else (Option.bind (el_involved e) ir_kind) [],
      ev_involvedName = or_else (Option.bind (el_involved e) ir_name) [],
      ev_involvedApiVersion = or_else (Option.bind (el_involved e) ir_apiVersion) ''v1''\<rparr>"

definition parseEventObjectCell :: "jstring \<Rightarrow> (jstring \<times> jstring) option" where
  "parseEventObjectCell t =
     (if CHR ''/'' \<notin> set t then None
      else let kind = trim (takeWhile (\<lambda>c. c \<noteq> CHR ''/'') t); name = trim (tl (dropWhile (\<lambda>c. c \<noteq> CHR ''/'') t)) in
           if kind = [] \<or> name = [] \<or> CHR ''/'' \<in> set name then None else Some (kind, name))"

definition last_seen_cmp :: "event_row \<times> int option \<Rightarrow> event_row \<times> int option \<Rightarrow> int" where
  "last_seen_cmp a b =
     (case (snd a, snd b) of
        (Some ta, Some tb) \<Rightarrow> tb - ta
      | _ \<Rightarrow>
          if ev_lastSeen (fst a) = ev_lastSeen (fst b) then 0
          else if str_cmp (ev_lastSeen (fst a)) (ev_lastSeen (fst b)) < 0 then 1 else - 1)"

definition sortByLastSeenDesc :: "(jstring \<Rightarrow> int option) \<Rightarrow> event_row list \<Rightarrow> event_row list" where
  "sortByLastSeenDesc parse rows = map fst (js_sort last_seen_cmp (map (\<lambda>row. (row, parse (ev_lastSeen row))) rows))"

definition eventRowClass :: "event_row \<Rightarrow> jstring" where
  "eventRowClass row =
     (if ev_type row \<noteq> ''Warning'' then []
      else if statusSeverity (ev_reason row) = Some StError then ''bg-red-50 dark:bg-red-950/40''
      else ''bg-amber-50 dark:bg-amber-950/30'')"

section \<open>Properties\<close>

lemma severity_loop_worst:
  "severity_loop ps w =
     (if Some StError \<in> set (map part_severity ps) then Some StError
      else if w \<or> Some StWarning \<in> set (map part_severity ps) then Some StWarning else None)"
  by (induction ps arbitrary: w) auto

text \<open>A joined status is as alarming as its worst part, wherever that part stands.\<close>

lemma worst_part_wins:
  "statusSeverity v =
     (let parts = set (map part_severity (split_on (CHR '','') v)) in
      if Some StError \<in> parts then Some StError else if Some StWarning \<in> parts then Some StWarning else None)"
  by (simp add: statusSeverity_def severity_loop_worst Let_def)

lemma cordoned_not_ready: "statusSeverity ''NotReady,SchedulingDisabled'' = Some StError"
  "statusSeverity ''Ready,SchedulingDisabled'' = Some StWarning" "statusSeverity ''Running'' = None"
  by code_simp+

text \<open>With readable times only, the comparator is consistent and the rows come newest first.\<close>

definition all_readable :: "(jstring \<Rightarrow> int option) \<Rightarrow> event_row list \<Rightarrow> bool" where
  "all_readable parse rows \<longleftrightarrow> list_all (\<lambda>r. parse (ev_lastSeen r) \<noteq> None) rows"

lemma js_insert_cong:
  "(\<And>y. y \<in> set ys \<Longrightarrow> c x y = d x y) \<Longrightarrow> js_insert c x ys = js_insert d x ys"
  by (induction ys) auto

lemma js_sort_cong:
  "(\<And>x y. x \<in> set xs \<Longrightarrow> y \<in> set xs \<Longrightarrow> c x y = d x y) \<Longrightarrow> js_sort c xs = js_sort d xs"
proof (induction xs)
  case (Cons x xs)
  then have "js_sort c xs = js_sort d xs" by simp
  moreover have "js_insert c x (js_sort d xs) = js_insert d x (js_sort d xs)"
    by (rule js_insert_cong) (simp add: Cons.prems)
  ultimately show ?case by simp
qed simp

interpretation newest_first: comparator "\<lambda>a b. the (snd b) - the (snd (a :: event_row \<times> int option))"
  by unfold_locales auto

lemma events_newest_first:
  assumes "all_readable parse rows"
  shows "sorted_wrt (\<lambda>a b. the (parse (ev_lastSeen b)) \<le> the (parse (ev_lastSeen a))) (sortByLastSeenDesc parse rows)"
proof -
  let ?xs = "map (\<lambda>row. (row, parse (ev_lastSeen row))) rows"
  let ?d = "\<lambda>a b. the (snd b) - the (snd (a :: event_row \<times> int option))"
  have eq: "js_sort last_seen_cmp ?xs = js_sort ?d ?xs"
  proof (rule js_sort_cong)
    fix x y :: "event_row \<times> int option"
    assume "x \<in> set ?xs" "y \<in> set ?xs"
    then have "snd x \<noteq> None" "snd y \<noteq> None" using assms by (auto simp: all_readable_def list_all_iff)
    then show "last_seen_cmp x y = ?d x y" by (auto simp: last_seen_cmp_def)
  qed
  have s: "sorted_wrt (\<lambda>a b. ?d a b \<le> 0) (js_sort ?d ?xs)" by (rule newest_first.js_sort_sorted)
  have mem: "p \<in> set (js_sort ?d ?xs) \<Longrightarrow> snd p = parse (ev_lastSeen (fst p))" for p by auto
  have "sorted_wrt (\<lambda>a b. the (parse (ev_lastSeen (fst b))) \<le> the (parse (ev_lastSeen (fst a)))) (js_sort ?d ?xs)"
  proof (rule sorted_wrt_mono_rel [OF _ s])
    fix p q
    assume pq: "p \<in> set (js_sort ?d ?xs)" "q \<in> set (js_sort ?d ?xs)" "?d p q \<le> 0"
    show "the (parse (ev_lastSeen (fst q))) \<le> the (parse (ev_lastSeen (fst p)))"
      using pq(3) unfolding mem [OF pq(1)] mem [OF pq(2)] by linarith
  qed
  then show ?thesis by (simp add: sortByLastSeenDesc_def eq sorted_wrt_map)
qed

lemma sort_keeps_rows: "mset (sortByLastSeenDesc parse rows) = mset rows"
  by (simp add: sortByLastSeenDesc_def multiset.map_comp comp_def)

end
