(* ===== verification/FieldTree.thy ===== *)
theory FieldTree
  imports FieldFilter StatusColors Units
begin

text \<open>
  \<^verbatim>\<open>web/src/utils/fieldTree.ts\<close>: from a spec or status object to the tree of rows the Overview renders. The
  text of a number (\<^verbatim>\<open>String(n)\<close>), the parse of a timestamp and the clock are the environment \<open>tree_env\<close>;
  \<open>stringify\<close> is \<^verbatim>\<open>JSON.stringify\<close> over it. \<^verbatim>\<open>toUpperCase\<close> is that of code units below 256.
\<close>

section \<open>Texts\<close>

record tree_env =
  te_number :: "rat \<Rightarrow> jstring"
  te_parse :: "jstring \<Rightarrow> int option"
  te_now :: int

definition json_escape :: "char \<Rightarrow> jstring" where
  "json_escape c =
     (let n = code c; bs = char_of (92 :: nat); dq = char_of (34 :: nat) in
      if c = dq then [bs, dq]
      else if c = bs then [bs, bs]
      else if n = 8 then bs # ''b''
      else if n = 9 then bs # ''t''
      else if n = 10 then bs # ''n''
      else if n = 12 then bs # ''f''
      else if n = 13 then bs # ''r''
      else if n < 32 then bs # ''u00'' @ [char_of (48 + n div 16), (if n mod 16 < 10 then char_of (48 + n mod 16) else char_of (87 + n mod 16))]
      else [c])"

definition json_quote :: "jstring \<Rightarrow> jstring" where
  "json_quote s = (let dq = char_of (34 :: nat) in [dq] @ concat (map json_escape s) @ [dq])"

fun stringify :: "(rat \<Rightarrow> jstring) \<Rightarrow> json \<Rightarrow> jstring" where
  "stringify num JNull = ''null''"
| "stringify num (JBool b) = (if b then ''true'' else ''false'')"
| "stringify num (JNum n) = num n"
| "stringify num (JStr s) = json_quote s"
| "stringify num (JArr xs) = ''['' @ join '','' (map (stringify num) xs) @ '']''"
| "stringify num (JObj m) = ''{'' @ join '','' (map (\<lambda>(k, v). json_quote k @ '':'' @ stringify num v) m) @ ''}''"

definition upper_char :: "char \<Rightarrow> char" where
  "upper_char c = (let n = code c in
     if (97 \<le> n \<and> n \<le> 122) \<or> (224 \<le> n \<and> n \<le> 254 \<and> n \<noteq> 247) then char_of (n - 32) else c)"

definition ACRONYMS :: "jstring list" where
  "ACRONYMS = [''api'', ''cidr'', ''cpu'', ''dns'', ''fqdn'', ''fs'', ''gid'', ''http'', ''https'', ''id'', ''ip'', ''ipc'', ''os'', ''pid'',
     ''qos'', ''tls'', ''ttl'', ''uid'', ''url'']"

text \<open>\<^verbatim>\<open>replace(/[_-]+/g, " ")\<close>, \<^verbatim>\<open>replace(/([a-z\d])([A-Z])/g, "$1 $2")\<close> and \<^verbatim>\<open>/^[A-Z\d]+s?$/\<close>.\<close>

fun separators :: "jstring \<Rightarrow> jstring" where
  "separators [] = []"
| "separators (c # cs) =
     (if c = CHR ''_'' \<or> c = CHR ''-'' then
        (case separators cs of
           [] \<Rightarrow> '' ''
         | r \<Rightarrow> (case cs of d # _ \<Rightarrow> if d = CHR ''_'' \<or> d = CHR ''-'' then r else CHR '' '' # r | [] \<Rightarrow> CHR '' '' # r))
      else c # separators cs)"

fun camel :: "jstring \<Rightarrow> jstring" where
  "camel (c # d # cs) =
     (if (is_lower_alpha c \<or> is_digit c) \<and> is_upper_alpha d then c # CHR '' '' # camel (d # cs) else c # camel (d # cs))"
| "camel s = s"

definition all_caps :: "jstring \<Rightarrow> bool" where
  "all_caps s \<longleftrightarrow>
     (let cap = (\<lambda>c. is_upper_alpha c \<or> is_digit c) in
      s \<noteq> [] \<and> (list_all cap s \<or> (butlast s \<noteq> [] \<and> list_all cap (butlast s) \<and> last s = CHR ''s'')))"

definition human_word :: "jstring \<Rightarrow> jstring" where
  "human_word w =
     (if 1 < length w \<and> all_caps w then w
      else if to_lower w \<in> set ACRONYMS then map upper_char w
      else map upper_char (take 1 w) @ drop 1 w)"

definition humanizeKey :: "jstring \<Rightarrow> jstring" where
  "humanizeKey key = join '' '' (map human_word (filter (\<lambda>w. w \<noteq> []) (split_on (CHR '' '') (camel (separators key)))))"

text \<open>\<^verbatim>\<open>^\d{4}-\d{2}-\d{2}T\d{2}:\d{2}:\d{2}(?:\.\d+)?(?:Z|[+-]\d{2}:?\d{2})$\<close>\<close>

definition zone_suffix :: "jstring \<Rightarrow> bool" where
  "zone_suffix s \<longleftrightarrow> s = ''Z'' \<or>
     (s \<noteq> [] \<and> (hd s = CHR ''+'' \<or> hd s = CHR ''-'') \<and>
      (length s = 5 \<and> list_all is_digit (tl s) \<or>
       length s = 6 \<and> list_all is_digit (take 2 (tl s)) \<and> s ! 3 = CHR '':'' \<and> list_all is_digit (drop 4 s)))"

definition iso_timestamp :: "jstring \<Rightarrow> bool" where
  "iso_timestamp s \<longleftrightarrow>
     19 \<le> length s \<and>
     list_all (\<lambda>i. is_digit (s ! i)) [0, 1, 2, 3, 5, 6, 8, 9, 11, 12, 14, 15, 17, 18] \<and>
     s ! 4 = CHR ''-'' \<and> s ! 7 = CHR ''-'' \<and> s ! 10 = CHR ''T'' \<and> s ! 13 = CHR '':'' \<and> s ! 16 = CHR '':'' \<and>
     zone_suffix (snd (snd (fraction_part (drop 19 s))))"

definition isTimestamp :: "json \<Rightarrow> bool" where
  "isTimestamp v = (case v of JStr s \<Rightarrow> iso_timestamp s | _ \<Rightarrow> False)"

fun isScalar :: "json \<Rightarrow> bool" where
  "isScalar (JArr _) = False"
| "isScalar (JObj _) = False"
| "isScalar _ = True"

definition formatScalar :: "tree_env \<Rightarrow> json \<Rightarrow> jstring" where
  "formatScalar env v =
     (case v of JNull \<Rightarrow> ''null'' | JBool b \<Rightarrow> (if b then ''true'' else ''false'') | JNum n \<Rightarrow> te_number env n | JStr s \<Rightarrow> s | _ \<Rightarrow> [])"

definition relative_age :: "tree_env \<Rightarrow> json \<Rightarrow> jstring" where
  "relative_age env v = (case v of JStr s \<Rightarrow> (if s = [] then [] else formatRelativeAge (te_parse env s) (te_now env)) | _ \<Rightarrow> [])"

section \<open>Nodes\<close>

record object_ref =
  ob_apiVersion :: "jstring option"
  ob_apiGroup :: "jstring option"
  ob_kind :: jstring
  ob_name :: jstring
  ob_namespace :: "jstring option"

record leaf =
  lf_key :: jstring
  lf_label :: jstring
  lf_text :: jstring
  lf_suffix :: jstring
  lf_status :: "jstring option"
  lf_long :: bool
  lf_ref :: "object_ref option"

record chip =
  ch_text :: jstring
  ch_long :: bool

record tree_cell =
  ce_text :: jstring
  ce_status :: "jstring option"
  ce_long :: bool

datatype field_node =
    LeafNode leaf
  | ChipsNode jstring jstring "chip list"
  | TableNode jstring jstring "jstring list" "tree_cell list list"
  | GroupNode jstring jstring "field_node list" nat
  | ItemsNode jstring jstring "(jstring \<times> field_node list \<times> nat) list" nat

definition LONG_VALUE_CHARS :: nat where "LONG_VALUE_CHARS = 140"
definition MAX_DEPTH :: nat where "MAX_DEPTH = 32"
definition MAX_TABLE_COLUMNS :: nat where "MAX_TABLE_COLUMNS = 8"

definition leafStatusClass :: "jstring \<Rightarrow> jstring \<Rightarrow> jstring option" where
  "leafStatusClass key t = (case statusColumnKind key of None \<Rightarrow> None | Some kind \<Rightarrow> cellTextClass kind t)"

definition isLongText :: "jstring \<Rightarrow> bool" where
  "isLongText t \<longleftrightarrow> LONG_VALUE_CHARS < length t \<or> char_of (10 :: nat) \<in> set t"

definition makeChip :: "jstring \<Rightarrow> chip" where
  "makeChip t = \<lparr>ch_text = t, ch_long = isLongText t\<rparr>"

definition makeLeaf :: "jstring \<Rightarrow> jstring \<Rightarrow> jstring \<Rightarrow> field_node" where
  "makeLeaf key t sfx =
     LeafNode \<lparr>lf_key = key, lf_label = humanizeKey key, lf_text = t, lf_suffix = sfx, lf_status = leafStatusClass key t,
               lf_long = isLongText t, lf_ref = None\<rparr>"

definition scalarLeaf :: "tree_env \<Rightarrow> jstring \<Rightarrow> json \<Rightarrow> field_node" where
  "scalarLeaf env key v =
     (let rel = (if isTimestamp v then relative_age env v else [])
      in makeLeaf key (formatScalar env v) (if rel \<noteq> [] then ''('' @ rel @ '')'' else []))"

definition ends_with :: "jstring \<Rightarrow> jstring \<Rightarrow> bool" where
  "ends_with w s \<longleftrightarrow> starts_with (rev w) (rev s)"

fun is_string :: "json \<Rightarrow> bool" where
  "is_string (JStr _) = True"
| "is_string _ = False"

definition isLabelMap :: "jstring \<Rightarrow> (jstring \<times> json) list \<Rightarrow> bool" where
  "isLabelMap key m \<longleftrightarrow>
     list_ex (\<lambda>w. ends_with w (to_lower key)) [''selector'', ''labels'', ''annotations''] \<and>
     m \<noteq> [] \<and> list_all (\<lambda>kv. is_string (snd kv)) m"

text \<open>The keys of all items in order of first appearance.\<close>

definition column_keys :: "json list \<Rightarrow> jstring list" where
  "column_keys items =
     fold (\<lambda>item acc. fold (\<lambda>k acc. if k \<in> set acc then acc else acc @ [k]) (keys (record_members item)) acc) items []"

definition isFlatHomogeneousArray :: "json list \<Rightarrow> bool" where
  "isFlatHomogeneousArray items \<longleftrightarrow>
     2 \<le> length items \<and>
     list_all (\<lambda>item. record_members item \<noteq> [] \<and> list_all (\<lambda>kv. isScalar (snd kv)) (record_members item)) items \<and>
     length (column_keys items) \<le> MAX_TABLE_COLUMNS"

definition table_cell :: "tree_env \<Rightarrow> json \<Rightarrow> jstring \<Rightarrow> tree_cell" where
  "table_cell env item col =
     (case jget col item of
        None \<Rightarrow> \<lparr>ce_text = [], ce_status = None, ce_long = False\<rparr>
      | Some raw \<Rightarrow>
          (let rel = (if isTimestamp raw then relative_age env raw else []);
               t = (if rel \<noteq> [] then rel else formatScalar env raw)
           in \<lparr>ce_text = t, ce_status = leafStatusClass col t, ce_long = isLongText t\<rparr>))"

definition tableNode :: "tree_env \<Rightarrow> jstring \<Rightarrow> json list \<Rightarrow> field_node" where
  "tableNode env key items =
     (let cols = column_keys items
      in TableNode key (humanizeKey key) (map humanizeKey cols) (map (\<lambda>item. map (table_cell env item) cols) items))"

definition ITEM_TITLE_KEYS :: "jstring list" where
  "ITEM_TITLE_KEYS = [''name'', ''key'', ''type'', ''ip'', ''hostname'', ''path'', ''containerName'', ''topologyKey'']"

fun title_from :: "tree_env \<Rightarrow> jstring list \<Rightarrow> json \<Rightarrow> nat \<Rightarrow> jstring" where
  "title_from env [] item index = ''#'' @ show_nat (index + 1)"
| "title_from env (key # ks) item index =
     (case jget key item of
        Some v \<Rightarrow> if isScalar v \<and> v \<noteq> JNull \<and> formatScalar env v \<noteq> [] then formatScalar env v else title_from env ks item index
      | None \<Rightarrow> title_from env ks item index)"

definition itemTitle :: "tree_env \<Rightarrow> json \<Rightarrow> nat \<Rightarrow> jstring" where
  "itemTitle env item index = title_from env ITEM_TITLE_KEYS item index"

fun nodeSize :: "field_node \<Rightarrow> nat" where
  "nodeSize (LeafNode _) = 1"
| "nodeSize (ChipsNode _ _ _) = 1"
| "nodeSize (TableNode _ _ _ rows) = length rows"
| "nodeSize (GroupNode _ _ _ n) = n"
| "nodeSize (ItemsNode _ _ _ n) = n"

definition sizeOf :: "field_node list \<Rightarrow> nat" where
  "sizeOf children = sum_list (map nodeSize children)"

definition stringField :: "(jstring \<times> json) list \<Rightarrow> jstring \<Rightarrow> jstring option" where
  "stringField m key = (case map_of m key of Some (JStr s) \<Rightarrow> if s \<noteq> [] then Some s else None | _ \<Rightarrow> None)"

definition objectRefOf :: "(jstring \<times> json) list \<Rightarrow> object_ref option" where
  "objectRefOf m =
     (case (stringField m ''kind'', stringField m ''name'') of
        (Some kind, Some name) \<Rightarrow>
          Some \<lparr>ob_apiVersion = stringField m ''apiVersion'', ob_apiGroup = stringField m ''apiGroup'', ob_kind = kind,
                ob_name = name, ob_namespace = stringField m ''namespace''\<rparr>
      | _ \<Rightarrow> None)"

text \<open>The name of a reference carries the link.\<close>

definition link_name :: "object_ref option \<Rightarrow> jstring \<Rightarrow> field_node \<Rightarrow> field_node" where
  "link_name ref key node =
     (case (ref, node) of
        (Some r, LeafNode l) \<Rightarrow> if key = ''name'' then LeafNode (l\<lparr>lf_ref := Some r\<rparr>) else node
      | _ \<Rightarrow> node)"

lemma size_item_member:
  "(i, item) \<in> set (enumerate n xs) \<Longrightarrow> (k, child) \<in> set (record_members item) \<Longrightarrow> size child < size (JArr xs)"
proof (cases item)
  case (JObj m)
  assume i: "(i, item) \<in> set (enumerate n xs)" and c: "(k, child) \<in> set (record_members item)"
  then have "size child < size item" using size_members JObj by (simp add: record_members_def)
  also have "\<dots> < size (JArr xs)" by (rule size_enumerated [OF i])
  finally show ?thesis .
qed (simp_all add: record_members_def)

function buildNode :: "tree_env \<Rightarrow> jstring \<Rightarrow> json \<Rightarrow> nat \<Rightarrow> field_node" where
  "buildNode env key v depth =
     (if isScalar v then scalarLeaf env key v
      else if MAX_DEPTH \<le> depth then makeLeaf key (stringify (te_number env) v) []
      else case v of
        JArr xs \<Rightarrow>
          if xs = [] then makeLeaf key ''[]'' []
          else if list_all isScalar xs then ChipsNode key (humanizeKey key) (map (\<lambda>x. makeChip (formatScalar env x)) xs)
          else if list_all is_record xs then
            (if isFlatHomogeneousArray xs then tableNode env key xs
             else
               let items = map (\<lambda>(i, item).
                     let children = map (\<lambda>(k, child).
                           link_name (objectRefOf (record_members item)) k (buildNode env k child (Suc depth))) (record_members item)
                     in (itemTitle env item i, children, sizeOf children)) (enumerate 0 xs)
               in ItemsNode key (humanizeKey key) items (sum_list (map (\<lambda>(_, _, n). 1 + n) items)))
          else makeLeaf key (stringify (te_number env) v) []
      | JObj m \<Rightarrow>
          if isLabelMap key m
          then ChipsNode key (humanizeKey key) (map (\<lambda>(k, x). makeChip (k @ ''='' @ formatScalar env x)) m)
          else
            let children = map (\<lambda>(k, child). link_name (objectRefOf m) k (buildNode env k child (Suc depth))) m
            in GroupNode key (humanizeKey key) children (sizeOf children)
      | _ \<Rightarrow> makeLeaf key [] [])"
  by pat_completeness auto
termination
  by (relation "measure (\<lambda>(env, key, v, depth). size v)")
    (auto simp del: json.size enumerate_simps intro: size_item_member size_members)

declare buildNode.simps [simp del]

text \<open>Only called on an object; \<^verbatim>\<open>Object.entries\<close> in order, minus the keys to skip.\<close>

definition buildFieldTree :: "tree_env \<Rightarrow> json \<Rightarrow> jstring list \<Rightarrow> field_node list" where
  "buildFieldTree env v skipKeys =
     (case v of
        JObj m \<Rightarrow> map (\<lambda>(key, child). buildNode env key child 0) (filter (\<lambda>kv. fst kv \<notin> set skipKeys) m)
      | _ \<Rightarrow> [])"

section \<open>Properties\<close>

fun node_key :: "field_node \<Rightarrow> jstring" where
  "node_key (LeafNode l) = lf_key l"
| "node_key (ChipsNode k _ _) = k"
| "node_key (TableNode k _ _ _) = k"
| "node_key (GroupNode k _ _ _) = k"
| "node_key (ItemsNode k _ _ _) = k"

text \<open>The rows a subtree really has, and whether every stored count says so.\<close>

fun rows_of :: "field_node \<Rightarrow> nat" where
  "rows_of (LeafNode _) = 1"
| "rows_of (ChipsNode _ _ _) = 1"
| "rows_of (TableNode _ _ _ rows) = length rows"
| "rows_of (GroupNode _ _ children _) = sum_list (map rows_of children)"
| "rows_of (ItemsNode _ _ items _) = sum_list (map (\<lambda>(_, children, _). 1 + sum_list (map rows_of children)) items)"

fun counts_ok :: "field_node \<Rightarrow> bool" where
  "counts_ok (GroupNode k l children n) \<longleftrightarrow> n = rows_of (GroupNode k l children n) \<and> list_all counts_ok children"
| "counts_ok (ItemsNode k l items n) \<longleftrightarrow> n = rows_of (ItemsNode k l items n) \<and>
     list_all (\<lambda>(_, children, c). c = sum_list (map rows_of children) \<and> list_all counts_ok children) items"
| "counts_ok _ \<longleftrightarrow> True"

fun node_depth :: "field_node \<Rightarrow> nat" where
  "node_depth (GroupNode _ _ children _) = Suc (fold max (map node_depth children) 0)"
| "node_depth (ItemsNode _ _ items _) = Suc (fold max (map (\<lambda>(_, children, _). fold max (map node_depth children) 0) items) 0)"
| "node_depth _ = 0"

lemma link_same [simp]:
  "node_key (link_name r k n) = node_key n" "rows_of (link_name r k n) = rows_of n" "nodeSize (link_name r k n) = nodeSize n"
  "counts_ok (link_name r k n) = counts_ok n" "node_depth (link_name r k n) = node_depth n"
  by (simp_all add: link_name_def split: option.split field_node.split)

lemma leaf_facts [simp]:
  "node_key (makeLeaf k t s) = k" "rows_of (makeLeaf k t s) = 1" "counts_ok (makeLeaf k t s)" "node_depth (makeLeaf k t s) = 0"
  "node_key (scalarLeaf env k v) = k" "counts_ok (scalarLeaf env k v)" "node_depth (scalarLeaf env k v) = 0"
  by (simp_all add: makeLeaf_def scalarLeaf_def Let_def)

lemma counts_size: "counts_ok n \<Longrightarrow> nodeSize n = rows_of n"
  by (cases n) auto

lemma counts_sizeOf: "list_all counts_ok ns \<Longrightarrow> sizeOf ns = sum_list (map rows_of ns)"
  by (induction ns) (auto simp: sizeOf_def counts_size)

lemma fold_max_le: "fold max xs a \<le> (b :: nat) \<longleftrightarrow> a \<le> b \<and> (\<forall>x \<in> set xs. x \<le> b)"
  by (induction xs arbitrary: a) auto

lemma node_key_build: "node_key (buildNode env key v depth) = key"
  by (subst buildNode.simps) (auto simp: tableNode_def Let_def split: json.split)

lemma build_children:
  assumes "\<And>k child. (k, child) \<in> set m \<Longrightarrow> counts_ok (buildNode env k child d) \<and> node_depth (buildNode env k child d) \<le> b"
  shows "list_all counts_ok (map (\<lambda>(k, child). link_name r k (buildNode env k child d)) m)"
    "\<forall>n \<in> set (map (\<lambda>(k, child). link_name r k (buildNode env k child d)) m). node_depth n \<le> b"
  using assms by (auto simp: list_all_iff)

lemma items_counts:
  "list_all (\<lambda>(_, children, c). c = sizeOf children \<and> list_all counts_ok children) its \<Longrightarrow>
   counts_ok (ItemsNode k l its (sum_list (map (\<lambda>(_, _, n). 1 + n) its)))"
  by (induction its) (auto simp: counts_sizeOf)

lemma items_depth:
  "list_all (\<lambda>(_, children, _). \<forall>n \<in> set children. node_depth n \<le> d) its \<Longrightarrow> node_depth (ItemsNode k l its c) \<le> Suc d"
  by (auto simp: list_all_iff fold_max_le)

lemma group_depth: "\<forall>n \<in> set ns. node_depth n \<le> d \<Longrightarrow> node_depth (GroupNode k l ns c) \<le> Suc d"
  by (auto simp: fold_max_le)

lemma build_ok: "counts_ok (buildNode env key v depth) \<and> node_depth (buildNode env key v depth) \<le> MAX_DEPTH - depth"
proof (induction env key v depth rule: buildNode.induct)
  case (1 env key v depth)
  consider (leaf) "counts_ok (buildNode env key v depth)" "node_depth (buildNode env key v depth) = 0"
    | (items) xs where "v = JArr xs" "depth < MAX_DEPTH" "xs \<noteq> []" "\<not> list_all isScalar xs" "list_all is_record xs" "\<not> isFlatHomogeneousArray xs"
    | (grp) m where "v = JObj m" "depth < MAX_DEPTH" "\<not> isLabelMap key m"
  proof -
    have "counts_ok (buildNode env key v depth) \<and> node_depth (buildNode env key v depth) = 0"
      if "\<nexists>xs. v = JArr xs \<and> depth < MAX_DEPTH \<and> xs \<noteq> [] \<and> \<not> list_all isScalar xs \<and> list_all is_record xs \<and> \<not> isFlatHomogeneousArray xs"
        "\<nexists>m. v = JObj m \<and> depth < MAX_DEPTH \<and> \<not> isLabelMap key m"
      using that by (cases v; subst (1 2) buildNode.simps) (auto simp: tableNode_def Let_def)
    then show thesis using that(1)
      by (cases "\<exists>xs. v = JArr xs \<and> depth < MAX_DEPTH \<and> xs \<noteq> [] \<and> \<not> list_all isScalar xs \<and> list_all is_record xs \<and> \<not> isFlatHomogeneousArray xs"; cases "\<exists>m. v = JObj m \<and> depth < MAX_DEPTH \<and> \<not> isLabelMap key m") (use that(2,3) in \<open>blast+\<close>)
  qed
  then show ?case
  proof cases
    case leaf
    then show ?thesis by simp
  next
    case (items xs)
    let ?kids = "\<lambda>item. map (\<lambda>(k, child). link_name (objectRefOf (record_members item)) k (buildNode env k child (Suc depth))) (record_members item)"
    let ?its = "map (\<lambda>(i, item). (itemTitle env item i, ?kids item, sizeOf (?kids item))) (enumerate 0 xs)"
    have b: "buildNode env key v depth = ItemsNode key (humanizeKey key) ?its (sum_list (map (\<lambda>(_, _, n). 1 + n) ?its))"
      using items by (subst buildNode.simps) (auto simp: Let_def)
    have ok: "list_all counts_ok (?kids item)" "\<forall>n \<in> set (?kids item). node_depth n \<le> MAX_DEPTH - Suc depth"
      if "(i, item) \<in> set (enumerate 0 xs)" for i item
      using build_children [of "record_members item" env "Suc depth" "MAX_DEPTH - Suc depth"] "1.IH"(1) items that by force+
    have its: "list_all (\<lambda>(_, children, c). c = sizeOf children \<and> list_all counts_ok children) ?its"
      "list_all (\<lambda>(_, children, _). \<forall>n \<in> set children. node_depth n \<le> MAX_DEPTH - Suc depth) ?its"
      unfolding list_all_iff using ok by (fastforce simp: list_all_iff)+
    show ?thesis
      using items_counts [OF its(1)] items_depth [OF its(2)] items(2) unfolding b by fastforce
  next
    case (grp m)
    let ?kids = "map (\<lambda>(k, child). link_name (objectRefOf m) k (buildNode env k child (Suc depth))) m"
    have b: "buildNode env key v depth = GroupNode key (humanizeKey key) ?kids (sizeOf ?kids)"
      using grp by (subst buildNode.simps) (auto simp: Let_def)
    have ok: "list_all counts_ok ?kids" "\<forall>n \<in> set ?kids. node_depth n \<le> MAX_DEPTH - Suc depth"
      using build_children [of m env "Suc depth" "MAX_DEPTH - Suc depth" "objectRefOf m"] "1.IH"(2) grp by force+
    then have "counts_ok (buildNode env key v depth)" unfolding b by (simp add: counts_sizeOf)
    moreover have "node_depth (GroupNode key (humanizeKey key) ?kids (sizeOf ?kids)) \<le> Suc (MAX_DEPTH - Suc depth)"
      by (rule group_depth [OF ok(2)])
    then have "node_depth (buildNode env key v depth) \<le> MAX_DEPTH - depth" using grp(2) unfolding b by linarith
    ultimately show ?thesis ..
  qed
qed

text \<open>
  The Overview's tree is complete, bounded and counts itself right, whatever object it is given: it has
  one node per field that is not to be skipped, in the order the API served them; every row count it
  stores (what decides which groups start collapsed) is the number of rows below; and it never nests
  deeper than 32 levels.
\<close>

theorem field_tree_well_formed:
  "map node_key (buildFieldTree env v skipKeys) = filter (\<lambda>k. k \<notin> set skipKeys) (keys (record_members v)) \<and>
   list_all counts_ok (buildFieldTree env v skipKeys) \<and>
   list_all (\<lambda>n. node_depth n \<le> MAX_DEPTH) (buildFieldTree env v skipKeys)"
proof (cases v)
  case (JObj m)
  have "map node_key (map (\<lambda>(key, child). buildNode env key child 0) (filter (\<lambda>kv. fst kv \<notin> set skipKeys) m)) =
      filter (\<lambda>k. k \<notin> set skipKeys) (keys m)"
    by (induction m) (auto simp: node_key_build)
  then show ?thesis
    using build_ok [of env _ _ 0] JObj by (auto simp: buildFieldTree_def record_members_def list_all_iff)
qed (simp_all add: buildFieldTree_def record_members_def)

text \<open>A record's name is linked exactly when the record names a kind and a name.\<close>

lemma reference_needs_kind_and_name:
  "objectRefOf m \<noteq> None \<longleftrightarrow> (\<exists>k n. k \<noteq> [] \<and> n \<noteq> [] \<and> map_of m ''kind'' = Some (JStr k) \<and> map_of m ''name'' = Some (JStr n))"
  by (auto simp: objectRefOf_def stringField_def split: option.splits json.splits if_splits)

text \<open>The table shows every scalar of every item, and nothing where an item lacks the column.\<close>

lemma set_column_keys: "set (column_keys items) = (\<Union>item \<in> set items. set (keys (record_members item)))"
proof -
  have inner: "set (fold (\<lambda>k acc. if k \<in> set acc then acc else acc @ [k]) ks acc) = set acc \<union> set ks" for ks acc :: "jstring list"
    by (induction ks arbitrary: acc) auto
  have "set (fold (\<lambda>item acc. fold (\<lambda>k acc. if k \<in> set acc then acc else acc @ [k]) (keys (record_members item)) acc) items acc)
      = set acc \<union> (\<Union>item \<in> set items. set (keys (record_members item)))" for acc
    by (induction items arbitrary: acc) (auto simp: inner)
  then show ?thesis by (simp add: column_keys_def)
qed

lemma human_examples:
  "humanizeKey ''dnsPolicy'' = ''DNS Policy''" "humanizeKey ''hostIP'' = ''Host IP''" "humanizeKey ''podCIDRs'' = ''Pod CIDRs''"
  "iso_timestamp ''2024-05-01T10:00:00Z''" "iso_timestamp ''2024-05-01T10:00:00.5+02:00''" "\<not> iso_timestamp ''2024-05-01''"
  by code_simp+

end
