(* ===== verification/Stores.thy ===== *)
theory Stores
  imports Json TableSort
begin

text \<open>
  The view state of \<^verbatim>\<open>web/src/stores/\<close> (\<^verbatim>\<open>preferences.ts\<close>, \<^verbatim>\<open>ui.ts\<close>, \<^verbatim>\<open>toasts.ts\<close>) and of list URLs
  (\<^verbatim>\<open>utils/listQuery.ts\<close>). A document in browser storage is the JSON value its text parses to; the watchers that
  write to storage run at the end of the operation that changed the state. A storage that throws is the flag
  of the operation.
\<close>

section \<open>Preferences\<close>

datatype theme = ThemeLight | ThemeDark | ThemeSystem
datatype poll_interval = Poll15 | Poll30 | Poll60
datatype metrics_range = Range5m | Range15m | Range1h

record metrics_prefs =
  mp_enabled :: bool
  mp_interval :: poll_interval
  mp_range :: metrics_range

record user_preferences =
  up_theme :: theme
  up_pinned :: "jstring list"
  up_pageSize :: rat
  up_onlyWarnings :: bool
  up_collapsed :: bool
  up_metrics :: metrics_prefs

definition default_prefs :: user_preferences where
  "default_prefs =
     \<lparr>up_theme = ThemeSystem, up_pinned = [], up_pageSize = 50, up_onlyWarnings = False, up_collapsed = False,
      up_metrics = \<lparr>mp_enabled = True, mp_interval = Poll15, mp_range = Range15m\<rparr>\<rparr>"

definition theme_name :: "theme \<Rightarrow> jstring" where
  "theme_name t = (case t of ThemeLight \<Rightarrow> ''light'' | ThemeDark \<Rightarrow> ''dark'' | ThemeSystem \<Rightarrow> ''system'')"

definition interval_value :: "poll_interval \<Rightarrow> rat" where
  "interval_value i = (case i of Poll15 \<Rightarrow> 15 | Poll30 \<Rightarrow> 30 | Poll60 \<Rightarrow> 60)"

definition range_name :: "metrics_range \<Rightarrow> jstring" where
  "range_name r = (case r of Range5m \<Rightarrow> ''5m'' | Range15m \<Rightarrow> ''15m'' | Range1h \<Rightarrow> ''1h'')"

definition isStringArray :: "json \<Rightarrow> jstring list option" where
  "isStringArray v =
     (case v of
        JArr xs \<Rightarrow> if list_all (\<lambda>x. json_str x \<noteq> None) xs then Some (map (\<lambda>x. the (json_str x)) xs) else None
      | _ \<Rightarrow> None)"

text \<open>The value of an allowlisted member, or the default.\<close>

definition read_theme :: "json option \<Rightarrow> theme \<Rightarrow> theme" where
  "read_theme v d = (case find (\<lambda>t. v = Some (JStr (theme_name t))) [ThemeLight, ThemeDark, ThemeSystem] of Some t \<Rightarrow> t | None \<Rightarrow> d)"

definition read_bool :: "json option \<Rightarrow> bool \<Rightarrow> bool" where
  "read_bool v d = (case v of Some (JBool b) \<Rightarrow> b | _ \<Rightarrow> d)"

definition read_interval :: "json option \<Rightarrow> poll_interval \<Rightarrow> poll_interval" where
  "read_interval v d = (case find (\<lambda>i. v = Some (JNum (interval_value i))) [Poll15, Poll30, Poll60] of Some i \<Rightarrow> i | None \<Rightarrow> d)"

definition read_range :: "json option \<Rightarrow> metrics_range \<Rightarrow> metrics_range" where
  "read_range v d = (case find (\<lambda>r. v = Some (JStr (range_name r))) [Range5m, Range15m, Range1h] of Some r \<Rightarrow> r | None \<Rightarrow> d)"

definition page_size_ok :: "rat \<Rightarrow> bool" where
  "page_size_ok n \<longleftrightarrow> 10 \<le> n \<and> n \<le> 500"

definition sanitizePreferences :: "json \<Rightarrow> user_preferences" where
  "sanitizePreferences input =
     (let d = default_prefs; dm = up_metrics d in
      if \<not> is_object input then d
      else
        \<lparr>up_theme = read_theme (jget ''theme'' input) (up_theme d),
         up_pinned = (case Option.bind (jget ''pinnedResources'' input) isStringArray of Some ps \<Rightarrow> ps | None \<Rightarrow> up_pinned d),
         up_pageSize = (case Option.bind (jget ''tablePageSize'' input) json_num of
                          Some n \<Rightarrow> if page_size_ok n then n else up_pageSize d | None \<Rightarrow> up_pageSize d),
         up_onlyWarnings = read_bool (jget ''eventsOnlyWarnings'' input) (up_onlyWarnings d),
         up_collapsed = read_bool (jget ''sidebarCollapsed'' input) (up_collapsed d),
         up_metrics =
           (case jget ''metrics'' input of
              Some m \<Rightarrow>
                if is_object m then
                  \<lparr>mp_enabled = read_bool (jget ''enabled'' m) (mp_enabled dm),
                   mp_interval = read_interval (jget ''pollIntervalSeconds'' m) (mp_interval dm),
                   mp_range = read_range (jget ''defaultRange'' m) (mp_range dm)\<rparr>
                else dm
            | None \<Rightarrow> dm)\<rparr>)"

definition serializePreferences :: "user_preferences \<Rightarrow> json" where
  "serializePreferences p =
     JObj [(''theme'', JStr (theme_name (up_theme p))),
           (''pinnedResources'', JArr (map JStr (up_pinned p))),
           (''tablePageSize'', JNum (up_pageSize p)),
           (''eventsOnlyWarnings'', JBool (up_onlyWarnings p)),
           (''sidebarCollapsed'', JBool (up_collapsed p)),
           (''metrics'', JObj [(''enabled'', JBool (mp_enabled (up_metrics p))),
                               (''pollIntervalSeconds'', JNum (interval_value (mp_interval (up_metrics p)))),
                               (''defaultRange'', JStr (range_name (mp_range (up_metrics p))))])]"

definition loadFromStorage :: "json option \<Rightarrow> user_preferences" where
  "loadFromStorage raw = (case raw of None \<Rightarrow> default_prefs | Some doc \<Rightarrow> sanitizePreferences doc)"

definition togglePinned :: "jstring \<Rightarrow> user_preferences \<Rightarrow> user_preferences" where
  "togglePinned resourceId p =
     (if resourceId \<in> set (up_pinned p) then p\<lparr>up_pinned := remove1 resourceId (up_pinned p)\<rparr>
      else p\<lparr>up_pinned := up_pinned p @ [resourceId]\<rparr>)"

definition insert_at :: "nat \<Rightarrow> 'a \<Rightarrow> 'a list \<Rightarrow> 'a list" where
  "insert_at i x xs = take i xs @ x # drop i xs"

definition movePinned :: "jstring \<Rightarrow> jstring \<Rightarrow> user_preferences \<Rightarrow> user_preferences" where
  "movePinned sourceId targetId p =
     (let l = up_pinned p in
      case (find_index (\<lambda>x. x = sourceId) l, find_index (\<lambda>x. x = targetId) l) of
        (Some from, Some to) \<Rightarrow>
          if from = to then p else p\<lparr>up_pinned := insert_at to (l ! from) (take from l @ drop (Suc from) l)\<rparr>
      | _ \<Rightarrow> p)"

section \<open>The UI store\<close>

record ui_store =
  ui_namespace :: jstring
  ui_listQueries :: "(jstring \<times> (jstring \<times> jstring) list) list"
  ui_narrow :: bool
  ui_focusPending :: bool
  ui_drawer :: bool
  ui_prefs :: user_preferences
  ui_storedNamespace :: "jstring option"
  ui_storedPrefs :: "json option"

definition readStoredNamespace :: "jstring option \<Rightarrow> jstring" where
  "readStoredNamespace stored = (let s = (case stored of Some s \<Rightarrow> s | None \<Rightarrow> []) in if isDNS1123Label s then s else [])"

definition writeStoredNamespace :: "bool \<Rightarrow> ui_store \<Rightarrow> ui_store" where
  "writeStoredNamespace throws st =
     (if throws then st
      else st\<lparr>ui_storedNamespace := (if ui_namespace st = [] then None else Some (ui_namespace st))\<rparr>)"

definition save_prefs :: "bool \<Rightarrow> ui_store \<Rightarrow> ui_store" where
  "save_prefs throws st = (if throws then st else st\<lparr>ui_storedPrefs := Some (serializePreferences (ui_prefs st))\<rparr>)"

definition open_ui :: "jstring option \<Rightarrow> json option \<Rightarrow> bool \<Rightarrow> ui_store" where
  "open_ui storedNamespace storedPrefs narrow =
     \<lparr>ui_namespace = readStoredNamespace storedNamespace, ui_listQueries = [], ui_narrow = narrow, ui_focusPending = False,
      ui_drawer = False, ui_prefs = loadFromStorage storedPrefs, ui_storedNamespace = storedNamespace, ui_storedPrefs = storedPrefs\<rparr>"

definition sidebarOpen :: "ui_store \<Rightarrow> bool" where
  "sidebarOpen st = (if ui_narrow st then ui_drawer st else \<not> up_collapsed (ui_prefs st))"

definition requestToggleFocus :: "ui_store \<Rightarrow> ui_store" where
  "requestToggleFocus st = st\<lparr>ui_focusPending := True\<rparr>"

definition consumeToggleFocus :: "ui_store \<Rightarrow> bool \<times> ui_store" where
  "consumeToggleFocus st = (if ui_focusPending st then (True, st\<lparr>ui_focusPending := False\<rparr>) else (False, st))"

definition toggleSidebar :: "bool \<Rightarrow> ui_store \<Rightarrow> ui_store" where
  "toggleSidebar throws st =
     requestToggleFocus
       (if ui_narrow st then st\<lparr>ui_drawer := \<not> ui_drawer st\<rparr>
        else save_prefs throws (st\<lparr>ui_prefs := (ui_prefs st)\<lparr>up_collapsed := \<not> up_collapsed (ui_prefs st)\<rparr>\<rparr>))"

definition closeSidebar :: "bool \<Rightarrow> ui_store \<Rightarrow> ui_store" where
  "closeSidebar returnFocus st =
     (if \<not> ui_drawer st then st
      else let st' = st\<lparr>ui_drawer := False\<rparr> in if returnFocus then requestToggleFocus st' else st')"

definition viewport_changes :: "bool \<Rightarrow> ui_store \<Rightarrow> ui_store" where
  "viewport_changes narrow st = (if narrow = ui_narrow st then st else st\<lparr>ui_narrow := narrow, ui_drawer := False\<rparr>)"

definition set_namespace :: "bool \<Rightarrow> jstring \<Rightarrow> ui_store \<Rightarrow> ui_store" where
  "set_namespace throws ns st = (if ns = ui_namespace st then st else writeStoredNamespace throws (st\<lparr>ui_namespace := ns\<rparr>))"

definition rememberListQuery :: "jstring \<Rightarrow> (jstring \<times> jstring) list \<Rightarrow> ui_store \<Rightarrow> ui_store" where
  "rememberListQuery key query st = st\<lparr>ui_listQueries := AList.update key query (ui_listQueries st)\<rparr>"

definition listQueryFor :: "jstring \<Rightarrow> ui_store \<Rightarrow> (jstring \<times> jstring) list option" where
  "listQueryFor key st = map_of (ui_listQueries st) key"

definition pin :: "bool \<Rightarrow> jstring \<Rightarrow> ui_store \<Rightarrow> ui_store" where
  "pin throws r st = save_prefs throws (st\<lparr>ui_prefs := togglePinned r (ui_prefs st)\<rparr>)"

definition move_pin :: "bool \<Rightarrow> jstring \<Rightarrow> jstring \<Rightarrow> ui_store \<Rightarrow> ui_store" where
  "move_pin throws a b st =
     (let p = movePinned a b (ui_prefs st) in if p = ui_prefs st then st else save_prefs throws (st\<lparr>ui_prefs := p\<rparr>))"

datatype ui_op =
    ToggleSidebar
  | CloseSidebar bool
  | Viewport bool
  | SetNamespace jstring
  | ConsumeFocus
  | RememberQuery jstring "(jstring \<times> jstring) list"
  | TogglePin jstring
  | MovePin jstring jstring

fun ui_step :: "bool \<Rightarrow> ui_op \<Rightarrow> ui_store \<Rightarrow> ui_store" where
  "ui_step throws ToggleSidebar st = toggleSidebar throws st"
| "ui_step throws (CloseSidebar f) st = closeSidebar f st"
| "ui_step throws (Viewport n) st = viewport_changes n st"
| "ui_step throws (SetNamespace ns) st = set_namespace throws ns st"
| "ui_step throws ConsumeFocus st = snd (consumeToggleFocus st)"
| "ui_step throws (RememberQuery k q) st = rememberListQuery k q st"
| "ui_step throws (TogglePin r) st = pin throws r st"
| "ui_step throws (MovePin a b) st = move_pin throws a b st"

section \<open>Toasts\<close>

datatype toast_kind = ToastInfo | ToastSuccess | ToastError

record toast =
  to_id :: nat
  to_kind :: toast_kind
  to_message :: jstring

record toast_store =
  ts_next :: nat
  ts_toasts :: "toast list"
  ts_timers :: "(nat \<times> int) list"

definition new_toasts :: toast_store where
  "new_toasts = \<lparr>ts_next = 1, ts_toasts = [], ts_timers = []\<rparr>"

text \<open>A timer is the id it dismisses and its delay; a push without a timeout has the default one.\<close>

definition push_toast :: "toast_kind \<Rightarrow> jstring \<Rightarrow> int option \<Rightarrow> toast_store \<Rightarrow> toast_store" where
  "push_toast kind message timeout st =
     (let i = ts_next st; timeoutMs = (case timeout of Some ms \<Rightarrow> ms | None \<Rightarrow> 5000);
          st' = st\<lparr>ts_next := Suc i, ts_toasts := ts_toasts st @ [\<lparr>to_id = i, to_kind = kind, to_message = message\<rparr>]\<rparr>
      in if 0 < timeoutMs then st'\<lparr>ts_timers := ts_timers st' @ [(i, timeoutMs)]\<rparr> else st')"

definition dismiss :: "nat \<Rightarrow> toast_store \<Rightarrow> toast_store" where
  "dismiss i st = st\<lparr>ts_timers := filter (\<lambda>(j, _). j \<noteq> i) (ts_timers st), ts_toasts := filter (\<lambda>t. to_id t \<noteq> i) (ts_toasts st)\<rparr>"

text \<open>A timer that is still pending fires.\<close>

definition toast_timeout :: "nat \<Rightarrow> toast_store \<Rightarrow> toast_store" where
  "toast_timeout i st = (if i \<in> set (keys (ts_timers st)) then dismiss i st else st)"

section \<open>List URLs\<close>

datatype query_value = QOne "jstring option" | QMany "jstring option list"

type_synonym location_query = "(jstring \<times> query_value) list"

record list_query_state =
  lq_namespace :: jstring
  lq_filter :: jstring
  lq_selector :: jstring

definition first_value :: "query_value option \<Rightarrow> jstring" where
  "first_value v =
     (let x = (case v of None \<Rightarrow> None | Some (QOne s) \<Rightarrow> s | Some (QMany []) \<Rightarrow> None | Some (QMany (s # _)) \<Rightarrow> s)
      in case x of Some s \<Rightarrow> s | None \<Rightarrow> [])"

definition parseListQuery :: "location_query \<Rightarrow> list_query_state" where
  "parseListQuery query =
     (let ns = first_value (map_of query ''namespace'')
      in \<lparr>lq_namespace = (if isDNS1123Label ns then ns else []), lq_filter = first_value (map_of query ''filter''),
          lq_selector = first_value (map_of query ''selector'')\<rparr>)"

definition listQuery :: "list_query_state \<Rightarrow> (jstring \<times> jstring) list" where
  "listQuery st =
     (if lq_namespace st \<noteq> [] then [(''namespace'', lq_namespace st)] else []) @
     (if lq_filter st \<noteq> [] then [(''filter'', lq_filter st)] else []) @
     (if lq_selector st \<noteq> [] then [(''selector'', lq_selector st)] else [])"

definition sameQuery :: "(jstring \<times> jstring) list \<Rightarrow> location_query \<Rightarrow> bool" where
  "sameQuery wanted current \<longleftrightarrow>
     length (keys current) = length (keys wanted) \<and>
     list_all (\<lambda>(k, v). case map_of wanted k of Some w \<Rightarrow> v = QOne (Some w) | None \<Rightarrow> False) current"

section \<open>Properties of the preferences\<close>

lemma read_back:
  "read_theme (Some (JStr (theme_name t))) d = t" "read_interval (Some (JNum (interval_value i))) d' = i"
  "read_range (Some (JStr (range_name r))) d'' = r"
proof -
  show "read_theme (Some (JStr (theme_name t))) d = t" by (cases t) (simp_all add: read_theme_def theme_name_def)
  show "read_interval (Some (JNum (interval_value i))) d' = i" by (cases i) (simp_all add: read_interval_def interval_value_def)
  show "read_range (Some (JStr (range_name r))) d'' = r" by (cases r) (simp_all add: read_range_def range_name_def)
qed

lemma string_array_map: "isStringArray (JArr (map JStr ps)) = Some ps"
  by (simp add: isStringArray_def list_all_iff comp_def)

lemma sanitize_serialize: "page_size_ok (up_pageSize p) \<Longrightarrow> sanitizePreferences (serializePreferences p) = p"
  by (simp add: sanitizePreferences_def serializePreferences_def Let_def read_back string_array_map read_bool_def)

lemma sanitized_page_size: "page_size_ok (up_pageSize (sanitizePreferences j))"
  by (auto simp: sanitizePreferences_def default_prefs_def page_size_ok_def Let_def split: option.splits)

text \<open>
  C32. Preferences are valid whatever is in storage: any document, of whatever shape, is read to preferences
  with a legal page size, and writing those back and reading them again changes nothing.
\<close>

theorem stored_preferences_are_canonical:
  "page_size_ok (up_pageSize (sanitizePreferences doc)) \<and>
   sanitizePreferences (serializePreferences (sanitizePreferences doc)) = sanitizePreferences doc"
  by (simp add: sanitized_page_size sanitize_serialize)

lemma length_insert_at [simp]: "length (insert_at i x xs) = Suc (length xs)"
  by (simp add: insert_at_def)

lemma nth_insert_at: "i \<le> length xs \<Longrightarrow> insert_at i x xs ! i = x"
  by (simp add: insert_at_def nth_append)

lemma remove1_insert_at: "x \<notin> set xs \<Longrightarrow> remove1 x (insert_at i x xs) = xs"
  by (auto simp: insert_at_def remove1_append dest: in_set_takeD)

lemma move_pinned_spec:
  assumes "distinct (up_pinned p)" "source \<in> set (up_pinned p)" "target \<in> set (up_pinned p)" "source \<noteq> target"
    and t: "find_index (\<lambda>x. x = target) (up_pinned p) = Some i"
  shows "up_pinned (movePinned source target p) ! i = source"
    and "remove1 source (up_pinned (movePinned source target p)) = remove1 source (up_pinned p)"
proof -
  let ?l = "up_pinned p"
  obtain j where j: "find_index (\<lambda>x. x = source) ?l = Some j"
    using assms(2) by (cases "find_index (\<lambda>x. x = source) ?l") (auto simp: find_index_None)
  note js = find_index_Some [OF j] and ti = find_index_Some [OF t]
  let ?r = "take j ?l @ drop (Suc j) ?l"
  have l: "?l = take j ?l @ source # drop (Suc j) ?l" using js by (metis id_take_nth_drop)
  have "j \<noteq> i" using js ti assms(4) by auto
  then have m: "up_pinned (movePinned source target p) = insert_at i source ?r" using j t js by (simp add: movePinned_def Let_def)
  have len: "i \<le> length ?r" using ti js by auto
  show "up_pinned (movePinned source target p) ! i = source"
    unfolding m by (rule nth_insert_at [OF len])
  have "distinct (take j ?l @ source # drop (Suc j) ?l)" using assms(1) l by metis
  then have notin: "source \<notin> set ?r" by auto
  then have "remove1 source (insert_at i source ?r) = ?r" by (rule remove1_insert_at)
  moreover have "remove1 source ?l = ?r"
  proof -
    have "source \<notin> set (take j ?l)" using notin by simp
    then show ?thesis by (subst l) (simp add: remove1_append)
  qed
  ultimately show "remove1 source (up_pinned (movePinned source target p)) = remove1 source ?l" using m by simp
qed

section \<open>Properties of the UI store\<close>

definition ui_inv :: "ui_store \<Rightarrow> bool" where
  "ui_inv st \<longleftrightarrow> (ui_drawer st \<longrightarrow> ui_narrow st) \<and> page_size_ok (up_pageSize (ui_prefs st)) \<and>
     loadFromStorage (ui_storedPrefs st) = ui_prefs st \<and>
     readStoredNamespace (ui_storedNamespace st) = readStoredNamespace (Some (ui_namespace st))"

lemma pinned_page_size [simp]:
  "up_pageSize (togglePinned r p) = up_pageSize p" "up_pageSize (movePinned a b p) = up_pageSize p"
  by (simp_all add: togglePinned_def movePinned_def Let_def split: option.split)

lemma ui_inv_open: "ui_inv (open_ui sn sp narrow)"
proof -
  have "page_size_ok (up_pageSize default_prefs)" by (simp add: default_prefs_def page_size_ok_def)
  then show ?thesis
    by (auto simp: ui_inv_def open_ui_def loadFromStorage_def sanitized_page_size readStoredNamespace_def Let_def
        isDNS1123Label_def split: option.splits)
qed

lemma ui_inv_save: "ui_inv (st\<lparr>ui_storedPrefs := Some (serializePreferences p), ui_prefs := p\<rparr>)"
  if "ui_inv st" "page_size_ok (up_pageSize p)"
  using that by (simp add: ui_inv_def loadFromStorage_def sanitize_serialize)

lemma ui_inv_step: "ui_inv st \<Longrightarrow> ui_inv (ui_step False oper st)"
proof (cases oper)
  case (SetNamespace ns)
  assume "ui_inv st"
  with SetNamespace show ?thesis
    by (auto simp: ui_inv_def set_namespace_def writeStoredNamespace_def readStoredNamespace_def Let_def isDNS1123Label_def)
qed (auto simp: ui_inv_def toggleSidebar_def closeSidebar_def requestToggleFocus_def viewport_changes_def consumeToggleFocus_def
    rememberListQuery_def pin_def move_pin_def save_prefs_def loadFromStorage_def sanitize_serialize Let_def)

text \<open>
  A reload restores the view: after any operations on working storage, whatever it held when the page was
  opened, a page opened on what is stored then has the same preferences and the same namespace (a
  selection that cannot name one reads as all namespaces), and the drawer is only ever open on a narrow
  viewport.
\<close>

theorem reload_restores_view:
  "let st = fold (ui_step False) opers (open_ui sn sp narrow);
       reopened = open_ui (ui_storedNamespace st) (ui_storedPrefs st) narrow'
   in ui_prefs reopened = ui_prefs st \<and>
      ui_namespace reopened = (if isDNS1123Label (ui_namespace st) then ui_namespace st else []) \<and>
      (if ui_drawer st then ui_narrow st else True)"
proof -
  have "ui_inv (fold (ui_step False) os (open_ui sn sp narrow))" for os
    by (induction os rule: rev_induct) (simp_all add: ui_inv_open ui_inv_step)
  then show ?thesis by (simp add: ui_inv_def open_ui_def Let_def) (simp add: readStoredNamespace_def Let_def)
qed

text \<open>What happens on a narrow viewport never reaches the saved choice.\<close>

lemma narrow_keeps_choice:
  "ui_narrow st \<Longrightarrow> ui_prefs (toggleSidebar throws st) = ui_prefs st \<and> ui_storedPrefs (toggleSidebar throws st) = ui_storedPrefs st"
  "ui_prefs (closeSidebar f st) = ui_prefs st" "\<not> ui_drawer st \<Longrightarrow> closeSidebar f st = st"
  by (auto simp: toggleSidebar_def closeSidebar_def requestToggleFocus_def Let_def)

section \<open>Properties of the toasts\<close>

datatype toast_op = Push toast_kind jstring "int option" | Dismiss nat | Timeout nat

fun toast_step :: "toast_op \<Rightarrow> toast_store \<Rightarrow> toast_store" where
  "toast_step (Push k m ms) st = push_toast k m ms st"
| "toast_step (Dismiss i) st = dismiss i st"
| "toast_step (Timeout i) st = toast_timeout i st"

text \<open>What takes a toast off the screen: its button, or its timer where it has a time to stay.\<close>

definition takes_off :: "toast \<times> int \<Rightarrow> toast_op \<Rightarrow> bool" where
  "takes_off p e \<longleftrightarrow> (case e of Dismiss i \<Rightarrow> i = to_id (fst p) | Timeout i \<Rightarrow> i = to_id (fst p) \<and> 0 < snd p | Push _ _ _ \<Rightarrow> False)"

text \<open>The toasts of a run that nothing after their push takes off, with the milliseconds each is to stay: numbered in order, five seconds unless said
  otherwise.\<close>

definition toast_of :: "nat \<Rightarrow> toast_kind \<Rightarrow> jstring \<Rightarrow> int option \<Rightarrow> toast \<times> int" where
  "toast_of n k m ms = (\<lparr>to_id = n, to_kind = k, to_message = m\<rparr>, case ms of Some t \<Rightarrow> t | None \<Rightarrow> 5000)"

fun staying :: "nat \<Rightarrow> toast_op list \<Rightarrow> (toast \<times> int) list" where
  "staying n [] = []"
| "staying n (Push k m ms # es) = (if list_ex (takes_off (toast_of n k m ms)) es then [] else [toast_of n k m ms]) @ staying (Suc n) es"
| "staying n (_ # es) = staying n es"

fun pushes :: "toast_op list \<Rightarrow> nat" where
  "pushes [] = 0"
| "pushes (Push _ _ _ # es) = Suc (pushes es)"
| "pushes (_ # es) = pushes es"

lemma staying_snoc:
  "staying n (es @ [e]) = filter (\<lambda>p. \<not> takes_off p e) (staying n es) @ (case e of Push k m ms \<Rightarrow> [toast_of (n + pushes es) k m ms] | _ \<Rightarrow> [])"
  by (induction n es rule: staying.induct) (cases e; simp)+

lemma pushes_snoc: "pushes (es @ [e]) = pushes es + (case e of Push _ _ _ \<Rightarrow> 1 | _ \<Rightarrow> 0)"
  by (induction es rule: pushes.induct) (cases e; simp)+

lemma staying_ids: "distinct (map (\<lambda>p. to_id (fst p)) (staying n es)) \<and> list_all (\<lambda>p. n \<le> to_id (fst p) \<and> to_id (fst p) < n + pushes es) (staying n es)"
proof (induction n es rule: staying.induct)
  case (2 n k m ms es)
  then show ?case by (fastforce simp: toast_of_def list_all_iff)
qed simp_all

definition timers_of :: "(toast \<times> int) list \<Rightarrow> (nat \<times> int) list" where
  "timers_of ps = map (\<lambda>p. (to_id (fst p), snd p)) (filter (\<lambda>p. 0 < snd p) ps)"

definition toasts_ok :: "toast_op list \<Rightarrow> toast_store \<Rightarrow> bool" where
  "toasts_ok es st \<longleftrightarrow> ts_next st = 1 + pushes es \<and> ts_toasts st = map fst (staying 1 es) \<and> ts_timers st = timers_of (staying 1 es)"

lemma dismiss_staying:
  "ts_toasts st = map fst ps \<Longrightarrow> ts_timers st = timers_of ps \<Longrightarrow>
   ts_toasts (dismiss i st) = map fst (filter (\<lambda>p. to_id (fst p) \<noteq> i) ps) \<and> ts_timers (dismiss i st) = timers_of (filter (\<lambda>p. to_id (fst p) \<noteq> i) ps)"
  by (auto simp: dismiss_def timers_of_def filter_map comp_def intro: arg_cong intro!: filter_cong)

lemma timer_of_timed: "p \<in> set ps \<Longrightarrow> 0 < snd p \<Longrightarrow> to_id (fst p) \<in> set (keys (timers_of ps))"
  by (force simp: timers_of_def)

lemma timer_pending:
  "distinct (map (\<lambda>p. to_id (fst p)) ps) \<Longrightarrow>
   filter (\<lambda>p. \<not> takes_off p (Timeout i)) ps = (if i \<in> set (keys (timers_of ps)) then filter (\<lambda>p. to_id (fst p) \<noteq> i) ps else ps)"
proof (cases "i \<in> set (keys (timers_of ps))")
  case True
  assume d: "distinct (map (\<lambda>p. to_id (fst p)) ps)"
  obtain q where q: "q \<in> set ps" "0 < snd q" "to_id (fst q) = i" using True by (auto simp: timers_of_def)
  have "inj_on (\<lambda>p. to_id (fst p)) (set ps)" using d by (simp add: distinct_map)
  then have "p = q" if "p \<in> set ps" "to_id (fst p) = i" for p using that q unfolding inj_on_def by blast
  then have "filter (\<lambda>p. \<not> takes_off p (Timeout i)) ps = filter (\<lambda>p. to_id (fst p) \<noteq> i) ps"
    using q unfolding takes_off_def toast_op.case by (intro filter_cong refl) blast
  then show ?thesis using True by simp
next
  case False
  then have "\<not> takes_off p (Timeout i)" if "p \<in> set ps" for p using that timer_of_timed [of p ps] by (auto simp: takes_off_def)
  then show ?thesis using False by (simp add: filter_id_conv)
qed

lemma toasts_ok_step: "toasts_ok es st \<Longrightarrow> toasts_ok (es @ [e]) (toast_step e st)"
proof (cases e)
  case (Push k m ms)
  assume "toasts_ok es st"
  moreover have "filter (\<lambda>p. \<not> takes_off p e) ps = ps" for ps by (simp add: Push takes_off_def)
  ultimately show ?thesis
    by (cases ms) (simp_all add: Push toasts_ok_def push_toast_def Let_def staying_snoc pushes_snoc toast_of_def timers_of_def)
next
  case (Dismiss i)
  assume ok: "toasts_ok es st"
  have "filter (\<lambda>p. \<not> takes_off p e) ps = filter (\<lambda>p. to_id (fst p) \<noteq> i) ps" for ps by (auto simp: Dismiss takes_off_def intro!: filter_cong)
  then show ?thesis using ok dismiss_staying [of st "staying 1 es" i]
    by (simp add: Dismiss toasts_ok_def staying_snoc pushes_snoc dismiss_def)
next
  case (Timeout i)
  assume ok: "toasts_ok es st"
  then show ?thesis using timer_pending [of "staying 1 es" i] staying_ids [of 1 es] dismiss_staying [of st "staying 1 es" i]
    by (simp add: Timeout toasts_ok_def staying_snoc pushes_snoc toast_timeout_def dismiss_def)
qed

lemma toasts_ok_run: "toasts_ok es (fold toast_step es new_toasts)"
  by (induction es rule: rev_induct) (simp add: toasts_ok_def new_toasts_def timers_of_def, simp add: toasts_ok_step)

lemma staying_fired: "staying n (es @ map Timeout ids) = filter (\<lambda>p. \<not> (to_id (fst p) \<in> set ids \<and> 0 < snd p)) (staying n es)"
proof (induction ids rule: rev_induct)
  case (snoc i ids)
  have "staying n (es @ map Timeout (ids @ [i])) = filter (\<lambda>p. \<not> takes_off p (Timeout i)) (staying n (es @ map Timeout ids))"
    using staying_snoc [of n "es @ map Timeout ids" "Timeout i"] by simp
  then show ?case unfolding snoc by (auto simp: takes_off_def intro!: filter_cong)
qed simp

text \<open>
  C33. A timed notification disappears, and no other does: after any pushes, dismissals and timeouts the screen shows exactly the toasts that were neither dismissed nor timed out
  since, in order, with their kind and message; each one with a positive time to stay - five seconds when none is given - has a timer pending for that time, and no other timer is
  pending; and once the pending timers have fired no timer is left and exactly the toasts pushed with no time to stay remain.
\<close>

theorem timed_toasts_disappear:
  "let st = fold toast_step es new_toasts; fired = fold toast_timeout (keys (ts_timers st)) st
   in ts_toasts st = map fst (staying 1 es) \<and> ts_timers st = map (\<lambda>(t, ms). (to_id t, ms)) (filter (\<lambda>(_, ms). 0 < ms) (staying 1 es)) \<and>
      ts_timers fired = [] \<and> ts_toasts fired = map fst (filter (\<lambda>(_, ms). ms \<le> 0) (staying 1 es))"
proof -
  let ?st = "fold toast_step es new_toasts"
  let ?ids = "keys (ts_timers ?st)"
  have st: "ts_toasts ?st = map fst (staying 1 es)" "ts_timers ?st = timers_of (staying 1 es)"
    using toasts_ok_run [of es] by (simp_all add: toasts_ok_def)
  have "fold toast_timeout ids s = fold toast_step (map Timeout ids) s" for ids s by (induction ids arbitrary: s) simp_all
  then have fired: "fold toast_timeout ?ids ?st = fold toast_step (es @ map Timeout ?ids) new_toasts" by simp
  have left_over: "staying 1 (es @ map Timeout ?ids) = filter (\<lambda>(_, ms). ms \<le> 0) (staying 1 es)"
    unfolding staying_fired st(2) using timer_of_timed [of _ "staying 1 es"] by (intro filter_cong) fastforce+
  have "toasts_ok (es @ map Timeout ?ids) (fold toast_timeout ?ids ?st)" unfolding fired by (rule toasts_ok_run)
  then have "ts_toasts (fold toast_timeout ?ids ?st) = map fst (filter (\<lambda>(_, ms). ms \<le> 0) (staying 1 es))"
    and "ts_timers (fold toast_timeout ?ids ?st) = []"
    unfolding toasts_ok_def left_over by (simp_all add: timers_of_def case_prod_beta filter_empty_conv)
  moreover have "timers_of (staying 1 es) = map (\<lambda>(t, ms). (to_id t, ms)) (filter (\<lambda>(_, ms). 0 < ms) (staying 1 es))"
    unfolding timers_of_def case_prod_unfold by (rule refl)
  ultimately show ?thesis using st unfolding Let_def by simp
qed

section \<open>Properties of list URLs\<close>

definition as_location :: "(jstring \<times> jstring) list \<Rightarrow> location_query" where
  "as_location q = map (\<lambda>(k, v). (k, QOne (Some v))) q"

text \<open>
  The URL of a list carries its view: reading the query written for a view gives the view back (a
  namespace that is not one reads as none), the query is recognised as its own, and an unfiltered view
  has a bare URL.
\<close>

theorem list_url_roundtrip:
  "let view = parseListQuery (as_location (listQuery st))
   in lq_filter view = lq_filter st \<and> lq_selector view = lq_selector st \<and>
      lq_namespace view = (if isDNS1123Label (lq_namespace st) then lq_namespace st else []) \<and>
      sameQuery (listQuery st) (as_location (listQuery st)) \<and>
      (listQuery st = [] \<longleftrightarrow> lq_namespace st = [] \<and> lq_filter st = [] \<and> lq_selector st = [])"
  by (simp add: parseListQuery_def as_location_def listQuery_def first_value_def Let_def sameQuery_def isDNS1123Label_def)

end
