(* ===== verification/DetailPage.thy ===== *)
theory DetailPage
  imports PodHealth Interfaces Sort
begin

text \<open>
  What the detail page loads: the object itself (\<^verbatim>\<open>composables/useResourceObject.ts\<close>), the pods it owns
  (\<^verbatim>\<open>utils/selectors.ts\<close>, \<^verbatim>\<open>utils/ownedPods.ts\<close>, \<^verbatim>\<open>api/ownedPods.ts\<close>, \<^verbatim>\<open>composables/useOwnedPods.ts\<close>), and the
  table projections beside it (\<^verbatim>\<open>utils/miniTable.ts\<close>, \<^verbatim>\<open>utils/namespaceColumn.ts\<close>). The API server is a function
  from a list request and a continue token to a page. An awaited request settles by an operation that
  carries the id it was started under.
\<close>

section \<open>Selectors\<close>

record match_expression =
  me_key :: jstring
  me_operator :: jstring
  me_values :: "jstring list option"

record label_selector =
  sel_labels :: "(jstring \<times> jstring) list option"
  sel_expressions :: "match_expression list option"

definition expression_text :: "match_expression \<Rightarrow> jstring list" where
  "expression_text e =
     (let vs = join '','' (or_empty (me_values e)) in
      if me_operator e = ''In'' then [me_key e @ '' in ('' @ vs @ '')'']
      else if me_operator e = ''NotIn'' then [me_key e @ '' notin ('' @ vs @ '')'']
      else if me_operator e = ''Exists'' then [me_key e]
      else if me_operator e = ''DoesNotExist'' then [''!'' @ me_key e]
      else [])"

definition selectorToString :: "label_selector option \<Rightarrow> jstring" where
  "selectorToString selector =
     (case selector of
        None \<Rightarrow> []
      | Some s \<Rightarrow>
          join '','' (map (\<lambda>(k, v). k @ ''='' @ v) (or_empty (sel_labels s)) @
                      concat (map expression_text (or_empty (sel_expressions s)))))"

section \<open>Owners\<close>

text \<open>\<^verbatim>\<open>spec.selector\<close> read as a label selector, and as a Service's label map.\<close>

record owner_object = k8s_object +
  oo_apiVersion :: "jstring option"
  oo_kind :: "jstring option"
  oo_selector :: "label_selector option"
  oo_serviceSelector :: "(jstring \<times> jstring) list option"

datatype owner_mode = OwnerMode | DeploymentMode | ServiceMode

definition PODS_REF :: resource_ref where
  "PODS_REF = \<lparr>rr_group = [], rr_version = ''v1'', rr_resource = ''pods''\<rparr>"

definition REPLICASETS_REF :: resource_ref where
  "REPLICASETS_REF = \<lparr>rr_group = ''apps'', rr_version = ''v1'', rr_resource = ''replicasets''\<rparr>"

definition POD_OWNERS :: "(jstring \<times> owner_mode) list" where
  "POD_OWNERS =
     [(''apps/v1/Deployment'', DeploymentMode), (''apps/v1/ReplicaSet'', OwnerMode), (''apps/v1/StatefulSet'', OwnerMode),
      (''apps/v1/DaemonSet'', OwnerMode), (''batch/v1/Job'', OwnerMode), (''v1/Service'', ServiceMode)]"

definition opt_text :: "jstring option \<Rightarrow> jstring" where
  "opt_text x = (case x of Some s \<Rightarrow> s | None \<Rightarrow> [])"

definition podOwnerSpec :: "owner_object \<Rightarrow> owner_mode option" where
  "podOwnerSpec object = map_of POD_OWNERS (opt_text (oo_apiVersion object) @ ''/'' @ opt_text (oo_kind object))"

definition owner_refs :: "table_row \<Rightarrow> owner_ref list" where
  "owner_refs row = (case tr_meta row of None \<Rightarrow> [] | Some m \<Rightarrow> or_empty (om_owners m))"

definition ownedBy :: "jstring \<Rightarrow> table_row \<Rightarrow> bool" where
  "ownedBy uid row \<longleftrightarrow> list_ex (\<lambda>w. ow_uid w = Some uid) (owner_refs row)"

record pod_choice =
  pch_name :: jstring
  pch_status :: jstring
  pch_created :: "int option"

definition row_choice :: "(jstring \<Rightarrow> int option) \<Rightarrow> pod_columns \<Rightarrow> table_row \<Rightarrow> pod_choice list" where
  "row_choice parse cols row =
     (let name = opt_text (Option.bind (tr_meta row) om_name) in
      if name = [] then []
      else [\<lparr>pch_name = name, pch_status = cellAt row (pc_status cols),
             pch_created = Option.bind (Option.bind (tr_meta row) om_created) parse\<rparr>])"

text \<open>Newest first, an unknown time (\<^verbatim>\<open>-Infinity\<close>) last. Two unknown times differ by \<^verbatim>\<open>NaN\<close>, which is
  falsy, so the names decide.\<close>

definition newer_cmp :: "pod_choice \<Rightarrow> pod_choice \<Rightarrow> int" where
  "newer_cmp a b =
     (case (pch_created a, pch_created b) of
        (Some x, Some y) \<Rightarrow> y - x
      | (Some _, None) \<Rightarrow> - 1
      | (None, Some _) \<Rightarrow> 1
      | (None, None) \<Rightarrow> 0)"

definition podChoices ::
  "(jstring \<Rightarrow> int option) \<Rightarrow> (jstring \<Rightarrow> jstring \<Rightarrow> int) \<Rightarrow> table_column list \<Rightarrow> table_row list \<Rightarrow> pod_choice list" where
  "podChoices parse coll columns rows =
     js_sort (cmp_then newer_cmp (\<lambda>a b. coll (pch_name a) (pch_name b)))
       (concat (map (row_choice parse (podColumnIndexes columns)) rows))"

definition defaultPodName :: "pod_choice list \<Rightarrow> jstring" where
  "defaultPodName choices =
     (case find (\<lambda>c. to_lower (pch_status c) = ''running'') choices of
        Some c \<Rightarrow> pch_name c
      | None \<Rightarrow> (case choices of [] \<Rightarrow> [] | c # _ \<Rightarrow> pch_name c))"

section \<open>The pods of an owner\<close>

record owned_pods =
  op_columns :: "table_column list"
  op_rows :: "table_row list"
  op_truncated :: bool
  op_selector :: "jstring option"
  op_replicaSets :: "(table_column list \<times> table_row list \<times> bool) option"

type_synonym list_server = "resource_ref \<Rightarrow> jstring option \<Rightarrow> jstring option \<Rightarrow> jstring \<Rightarrow> thrown + list_result"

definition childSelector :: "owner_object \<Rightarrow> jstring option" where
  "childSelector object = (let s = selectorToString (oo_selector object) in if s \<noteq> [] then Some s else None)"

definition owner_namespace :: "owner_object \<Rightarrow> jstring option" where
  "owner_namespace object = Option.bind (ko_meta object) om_namespace"

definition resolveOwned :: "list_server \<Rightarrow> owner_object \<Rightarrow> jstring \<Rightarrow> thrown + owned_pods" where
  "resolveOwned server object uid =
     (case listAllAsTable (server PODS_REF (owner_namespace object) (childSelector object)) (Some 6) of
        Inl e \<Rightarrow> Inl e
      | Inr (cols, rows, truncated) \<Rightarrow>
          Inr \<lparr>op_columns = cols, op_rows = filter (ownedBy uid) rows, op_truncated = truncated, op_selector = None,
               op_replicaSets = None\<rparr>)"

definition row_uids :: "table_row list \<Rightarrow> jstring list" where
  "row_uids rows = concat (map (\<lambda>row. case Option.bind (tr_meta row) om_uid of Some u \<Rightarrow> [u] | None \<Rightarrow> []) rows)"

definition owned_by_any :: "jstring list \<Rightarrow> table_row \<Rightarrow> bool" where
  "owned_by_any uids row \<longleftrightarrow> list_ex (\<lambda>w. case ow_uid w of Some u \<Rightarrow> u \<in> set uids | None \<Rightarrow> False) (owner_refs row)"

text \<open>Both walks run at once; when both fail, either error may come first.\<close>

definition resolveDeployment :: "list_server \<Rightarrow> bool \<Rightarrow> owner_object \<Rightarrow> jstring \<Rightarrow> thrown + owned_pods" where
  "resolveDeployment server pods_first object uid =
     (let ns = owner_namespace object; sel = childSelector object;
          rsR = listAllAsTable (server REPLICASETS_REF ns sel) (Some 6);
          podsR = listAllAsTable (server PODS_REF ns sel) (Some 6)
      in case (rsR, podsR) of
           (Inl e, Inl e') \<Rightarrow> Inl (if pods_first then e' else e)
         | (Inl e, Inr _) \<Rightarrow> Inl e
         | (Inr _, Inl e) \<Rightarrow> Inl e
         | (Inr (rcols, rrows, rtrunc), Inr (pcols, prows, ptrunc)) \<Rightarrow>
             (let owned = filter (ownedBy uid) rrows; rsUids = row_uids owned
              in Inr \<lparr>op_columns = pcols, op_rows = filter (owned_by_any rsUids) prows, op_truncated = rtrunc \<or> ptrunc,
                      op_selector = None, op_replicaSets = Some (rcols, owned, rtrunc)\<rparr>))"

definition resolveService :: "list_server \<Rightarrow> owner_object \<Rightarrow> thrown + owned_pods option" where
  "resolveService server object =
     (case oo_serviceSelector object of
        None \<Rightarrow> Inr None
      | Some labels \<Rightarrow>
          if labels = [] then Inr None
          else
            let sel = selectorToString (Some \<lparr>sel_labels = Some labels, sel_expressions = None\<rparr>)
            in case listAllAsTable (server PODS_REF (owner_namespace object) (Some sel)) (Some 4) of
                 Inl e \<Rightarrow> Inl e
               | Inr (cols, rows, truncated) \<Rightarrow>
                   Inr (Some \<lparr>op_columns = cols, op_rows = rows, op_truncated = truncated, op_selector = Some sel, op_replicaSets = None\<rparr>))"

definition resolveOwnedPods :: "list_server \<Rightarrow> bool \<Rightarrow> owner_object \<Rightarrow> thrown + owned_pods option" where
  "resolveOwnedPods server pods_first object =
     (case podOwnerSpec object of
        None \<Rightarrow> Inr None
      | Some ServiceMode \<Rightarrow> resolveService server object
      | Some mode \<Rightarrow>
          (case Option.bind (ko_meta object) om_uid of
             None \<Rightarrow> Inr None
           | Some uid \<Rightarrow>
               (case (if mode = DeploymentMode then resolveDeployment server pods_first object uid else resolveOwned server object uid) of
                  Inl e \<Rightarrow> Inl e
                | Inr r \<Rightarrow> Inr (Some r))))"

section \<open>The state of the owned pods\<close>

record owned_state =
  os_loading :: bool
  os_error :: "jstring option"
  os_result :: "owned_pods option"

definition IDLE :: owned_state where
  "IDLE = \<lparr>os_loading = False, os_error = None, os_result = None\<rparr>"

text \<open>The running load holds on to \<open>pm_kept\<close>. \<open>pm_requests\<close> records for every load the object it was started
  for, \<open>pm_object\<close> the one last loaded and \<open>pm_for\<close> the one the result on screen was resolved for; no
  operation reads these three.\<close>

record owned_model =
  pm_state :: owned_state
  pm_loadId :: nat
  pm_lastUid :: "jstring option"
  pm_kept :: "owned_pods option"
  pm_requests :: "(nat \<times> owner_object) list"
  pm_object :: "owner_object option"
  pm_for :: "owner_object option"

definition new_owned :: owned_model where
  "new_owned = \<lparr>pm_state = IDLE, pm_loadId = 0, pm_lastUid = None, pm_kept = None, pm_requests = [], pm_object = None, pm_for = None\<rparr>"

definition object_uid :: "owner_object \<Rightarrow> jstring option" where
  "object_uid obj = Option.bind (ko_meta obj) om_uid"

definition load_owned :: "owner_object option \<Rightarrow> owned_model \<Rightarrow> owned_model" where
  "load_owned obj st =
     (let i = Suc (pm_loadId st); st1 = st\<lparr>pm_loadId := i, pm_object := obj\<rparr>;
          idle = st1\<lparr>pm_lastUid := None, pm_state := IDLE, pm_kept := None\<rparr>
      in case obj of
           None \<Rightarrow> idle
         | Some b \<Rightarrow>
             if podOwnerSpec b = None then idle
             else
               let uid = object_uid b;
                   kept = (if uid \<noteq> None \<and> uid = pm_lastUid st then os_result (pm_state st) else None)
               in st1\<lparr>pm_lastUid := uid, pm_kept := kept, pm_state := \<lparr>os_loading = True, os_error = None, os_result = kept\<rparr>,
                      pm_requests := (i, b) # pm_requests st\<rparr>)"

definition settle_owned :: "nat \<Rightarrow> thrown + owned_pods option \<Rightarrow> owned_model \<Rightarrow> owned_model" where
  "settle_owned i r st =
     (case map_of (pm_requests st) i of
        None \<Rightarrow> st
      | Some b \<Rightarrow>
          if i \<noteq> pm_loadId st then st
          else case r of
                 Inr result \<Rightarrow> st\<lparr>pm_state := \<lparr>os_loading = False, os_error = None, os_result = result\<rparr>, pm_for := Some b\<rparr>
               | Inl e \<Rightarrow> st\<lparr>pm_state := \<lparr>os_loading = False, os_error = Some (messageFromError e None), os_result = pm_kept st\<rparr>\<rparr>)"

interpretation owned_guard: generation_guard pm_loadId load_owned settle_owned "\<lambda>(_ :: unit) st. st"
  by unfold_locales (auto simp: load_owned_def settle_owned_def Let_def split: option.split sum.split)

definition owned_inv :: "owned_model \<Rightarrow> bool" where
  "owned_inv st \<longleftrightarrow>
     list_all (\<lambda>(i, b). i \<le> pm_loadId st) (pm_requests st) \<and>
     (\<forall>b. map_of (pm_requests st) (pm_loadId st) = Some b \<longrightarrow> pm_object st = Some b) \<and>
     (\<forall>uid. pm_lastUid st = Some uid \<longrightarrow> Option.bind (pm_object st) object_uid = Some uid) \<and>
     (os_result (pm_state st) \<noteq> None \<or> pm_kept st \<noteq> None \<longrightarrow>
        pm_object st \<noteq> None \<and> pm_for st \<noteq> None \<and>
        object_uid (the (pm_for st)) = object_uid (the (pm_object st)))"

lemma owned_inv_load: "owned_inv st \<Longrightarrow> owned_inv (load_owned obj st)"
proof -
  assume inv: "owned_inv st"
  have fresh: "map_of (pm_requests st) (Suc (pm_loadId st)) = None"
    using inv by (auto simp: owned_inv_def list_all_iff map_of_eq_None_iff)
  have le: "list_all (\<lambda>(i, b). i \<le> Suc (pm_loadId st)) (pm_requests st)"
    using inv by (auto simp: owned_inv_def list_all_iff)
  show ?thesis
  proof (cases obj)
    case None
    then show ?thesis using fresh le by (simp add: owned_inv_def load_owned_def Let_def IDLE_def)
  next
    case (Some b)
    show ?thesis
    proof (cases "podOwnerSpec b = None")
      case True
      then show ?thesis using Some fresh le by (simp add: owned_inv_def load_owned_def Let_def IDLE_def)
    next
      case False
      show ?thesis
      proof (cases "object_uid b \<noteq> None \<and> object_uid b = pm_lastUid st \<and> os_result (pm_state st) \<noteq> None")
        case True
        then have "pm_for st \<noteq> None" "object_uid (the (pm_for st)) = object_uid b"
          using inv by (auto simp: owned_inv_def)
        then show ?thesis using False Some le True by (auto simp: owned_inv_def load_owned_def Let_def)
      next
        case kept: False
        then have "(if object_uid b \<noteq> None \<and> object_uid b = pm_lastUid st then os_result (pm_state st) else None) = None" by auto
        then show ?thesis using False Some le by (simp only: load_owned_def Let_def option.case if_False) (simp add: owned_inv_def)
      qed
    qed
  qed
qed

lemma owned_inv_settle: "owned_inv st \<Longrightarrow> owned_inv (settle_owned i r st)"
proof (cases "map_of (pm_requests st) i")
  case (Some b)
  assume inv: "owned_inv st"
  show ?thesis
  proof (cases "i = pm_loadId st")
    case True
    have obj: "pm_object st = Some b" using inv Some True by (simp add: owned_inv_def)
    have le: "list_all (\<lambda>(i, b). i \<le> pm_loadId st) (pm_requests st)"
      and uid: "\<forall>uid. pm_lastUid st = Some uid \<longrightarrow> Option.bind (pm_object st) object_uid = Some uid"
      using inv by (auto simp: owned_inv_def)
    have kept: "pm_kept st \<noteq> None \<longrightarrow> pm_for st \<noteq> None \<and> object_uid (the (pm_for st)) = object_uid b"
      using inv obj by (auto simp: owned_inv_def)
    have at: "\<forall>b'. map_of (pm_requests st) (pm_loadId st) = Some b' \<longrightarrow> pm_object st = Some b'"
      using Some True obj by simp
    show ?thesis
    proof (cases r)
      case (Inl e)
      then have "settle_owned i r st =
          st\<lparr>pm_state := \<lparr>os_loading = False, os_error = Some (messageFromError e None), os_result = pm_kept st\<rparr>\<rparr>"
        using Some True by (simp add: settle_owned_def)
      then show ?thesis using le uid at kept obj by (simp add: owned_inv_def)
    next
      case (Inr result)
      then have "settle_owned i r st = st\<lparr>pm_state := \<lparr>os_loading = False, os_error = None, os_result = result\<rparr>, pm_for := Some b\<rparr>"
        using Some True by (simp add: settle_owned_def)
      then show ?thesis using le uid at obj by (simp add: owned_inv_def)
    qed
  qed (use inv Some in \<open>simp add: settle_owned_def\<close>)
qed (simp add: settle_owned_def)

definition run_owned :: "(owner_object option, thrown + owned_pods option, unit) guard_event list \<Rightarrow> owned_model" where
  "run_owned es = fold owned_guard.guard_step es new_owned"

lemma run_owned_inv: "owned_inv (run_owned es)"
proof -
  have "owned_inv st \<Longrightarrow> owned_inv (owned_guard.guard_step e st)" for e st
    by (cases e) (simp_all add: owned_inv_load owned_inv_settle)
  then have "owned_inv st \<Longrightarrow> owned_inv (fold owned_guard.guard_step es st)" for st
    by (induction es arbitrary: st) simp_all
  moreover have "owned_inv new_owned" by (simp add: owned_inv_def new_owned_def IDLE_def)
  ultimately show ?thesis by (simp add: run_owned_def)
qed

text \<open>
  The pods on screen are those of the object on screen: however loads overlap, fail or are repeated, a
  shown result was resolved for an object with the uid of the one last loaded, and once no object is
  loaded there is no result.
\<close>

theorem shown_pods_belong_to_object:
  "let st = run_owned es in
   case os_result (pm_state st) of
     None \<Rightarrow> True
   | Some _ \<Rightarrow> (case (pm_for st, pm_object st) of (Some a, Some b) \<Rightarrow> object_uid a = object_uid b | _ \<Rightarrow> False)"
  using run_owned_inv [of es] by (auto simp: owned_inv_def Let_def split: option.split)

text \<open>A late answer for a superseded load is dropped.\<close>

lemma superseded_load_dropped:
  "settle_owned (pm_loadId st) r (fold owned_guard.guard_step es (load_owned obj st)) = fold owned_guard.guard_step es (load_owned obj st)"
  by (rule owned_guard.superseded_dropped) simp

section \<open>What is resolved\<close>

text \<open>
  The pods of a Deployment are the pods of its ReplicaSets: of the rows the two walks returned, a
  ReplicaSet is listed exactly when it names the Deployment among its owners, a pod exactly when it names one of
  those ReplicaSets, and the result is marked truncated when either walk was cut short.
\<close>

theorem deployment_pods_exact:
  "case resolveDeployment server pods_first object uid of
     Inl e \<Rightarrow> True
   | Inr r \<Rightarrow>
       (case (listAllAsTable (server REPLICASETS_REF (owner_namespace object) (childSelector object)) (Some 6),
              listAllAsTable (server PODS_REF (owner_namespace object) (childSelector object)) (Some 6)) of
          (Inr (_, rrows, rtrunc), Inr (_, prows, ptrunc)) \<Rightarrow>
            (\<forall>row. row \<in> set (op_rows r) \<longleftrightarrow> row \<in> set prows \<and>
               (\<exists>w rs. w \<in> set (owner_refs row) \<and> rs \<in> set rrows \<and> ownedBy uid rs \<and>
                  Option.bind (tr_meta rs) om_uid = ow_uid w \<and> ow_uid w \<noteq> None)) \<and>
            op_truncated r = (rtrunc \<or> ptrunc)
        | _ \<Rightarrow> False)"
proof -
  have u: "x \<in> set (row_uids rows) \<longleftrightarrow> (\<exists>rs. rs \<in> set rows \<and> Option.bind (tr_meta rs) om_uid = Some x)" for x rows
    by (force simp: row_uids_def split: option.splits)
  show ?thesis
    by (auto simp: resolveDeployment_def Let_def owned_by_any_def list_ex_iff u split: sum.split option.splits) (metis option.sel)+
qed

end
