(* ===== verification/DetailObject.thy ===== *)
theory DetailObject
  imports PodHealth Interfaces
begin

text \<open>
  The object of the detail page (\<^verbatim>\<open>composables/useResourceObject.ts\<close>) and three projections of a server table:
  \<^verbatim>\<open>utils/miniTable.ts\<close>, \<^verbatim>\<open>utils/namespaceColumn.ts\<close> and \<^verbatim>\<open>utils/columnWidths.ts\<close>. An awaited request settles by an operation that
  carries the generation it was started under.
\<close>

section \<open>The object on screen\<close>

record target =
  tg_ref :: resource_ref
  tg_namespace :: "jstring option"
  tg_name :: jstring

definition targetKey :: "target \<Rightarrow> jstring" where
  "targetKey t =
     join ''/'' [rr_group (tg_ref t), rr_version (tg_ref t), rr_resource (tg_ref t),
                case tg_namespace t of Some ns \<Rightarrow> ns | None \<Rightarrow> [], tg_name t]"

text \<open>\<open>ro_requests\<close> holds, for every started request, the target its closure captured. \<open>ro_from\<close> is the
  target the object on screen was fetched for; no operation reads it.\<close>

record object_model =
  ro_object :: "k8s_object option"
  ro_loading :: bool
  ro_error :: "thrown option"
  ro_generation :: nat
  ro_loadedKey :: "jstring option"
  ro_requests :: "(nat \<times> target) list"
  ro_from :: "target option"

definition new_object :: object_model where
  "new_object = \<lparr>ro_object = None, ro_loading = False, ro_error = None, ro_generation = 0, ro_loadedKey = None,
                 ro_requests = [], ro_from = None\<rparr>"

definition refresh_object :: "target option \<Rightarrow> object_model \<Rightarrow> object_model" where
  "refresh_object getTarget st =
     (case getTarget of
        None \<Rightarrow> st
      | Some t \<Rightarrow>
          let gen = Suc (ro_generation st)
          in st\<lparr>ro_generation := gen, ro_loading := True, ro_error := None, ro_requests := (gen, t) # ro_requests st\<rparr>)"

definition object_settles :: "nat \<Rightarrow> thrown + k8s_object \<Rightarrow> object_model \<Rightarrow> object_model" where
  "object_settles gen r st =
     (case map_of (ro_requests st) gen of
        None \<Rightarrow> st
      | Some t \<Rightarrow>
          if gen \<noteq> ro_generation st then st
          else
            (let st1 =
               (case r of
                  Inr result \<Rightarrow> st\<lparr>ro_object := Some result, ro_loadedKey := Some (targetKey t), ro_from := Some t\<rparr>
                | Inl e \<Rightarrow>
                    let st2 = st\<lparr>ro_error := Some (asApiError e)\<rparr>
                    in if ro_loadedKey st2 \<noteq> Some (targetKey t) then st2\<lparr>ro_object := None, ro_loadedKey := None, ro_from := None\<rparr> else st2)
             in st1\<lparr>ro_loading := False\<rparr>))"

text \<open>\<^verbatim>\<open>refresh\<close> with no target starts nothing, so only a refresh that has one begins a generation.\<close>

interpretation object_guard: generation_guard ro_generation "\<lambda>t. refresh_object (Some t)" object_settles "\<lambda>(_ :: unit). refresh_object None"
  by unfold_locales
     (auto simp: refresh_object_def object_settles_def Let_def split: option.split sum.split)

type_synonym object_event = "(target, thrown + k8s_object, unit) guard_event"

definition run_object :: "object_event list \<Rightarrow> object_model" where
  "run_object es = fold object_guard.guard_step es new_object"

definition asked_for :: "object_model \<Rightarrow> target option" where
  "asked_for st = map_of (ro_requests st) (ro_generation st)"

definition object_inv :: "object_model \<Rightarrow> bool" where
  "object_inv st \<longleftrightarrow>
     list_all (\<lambda>(g, t). g \<le> ro_generation st) (ro_requests st) \<and>
     (ro_object st = None \<longleftrightarrow> ro_loadedKey st = None) \<and>
     ro_loadedKey st = map_option targetKey (ro_from st) \<and>
     (\<not> ro_loading st \<and> ro_object st \<noteq> None \<longrightarrow> ro_loadedKey st = map_option targetKey (asked_for st)) \<and>
     (\<not> ro_loading st \<and> ro_object st = None \<longrightarrow> asked_for st \<noteq> None \<longrightarrow> ro_error st \<noteq> None)"

lemma object_inv_refresh: "object_inv st \<Longrightarrow> object_inv (refresh_object t st)"
proof (cases t)
  case (Some t)
  assume "object_inv st"
  then have "list_all (\<lambda>(g, t). g \<le> Suc (ro_generation st)) (ro_requests st)"
    by (auto simp: object_inv_def list_all_iff)
  then show ?thesis using \<open>object_inv st\<close> Some
    by (simp add: object_inv_def refresh_object_def Let_def asked_for_def)
qed (simp add: refresh_object_def)

lemma object_inv_settles: "object_inv st \<Longrightarrow> object_inv (object_settles g r st)"
proof (cases "asked_for st")
  case (Some t)
  assume inv: "object_inv st"
  show ?thesis
  proof (cases "g = ro_generation st")
    case True
    with Some have "map_of (ro_requests st) g = Some t" by (simp add: asked_for_def)
    note now = this True [symmetric]
    show ?thesis
    proof (cases "\<exists>e. r = Inl e \<and> ro_loadedKey st = Some (targetKey t)")
      case True
      then show ?thesis using inv now by (auto simp: object_inv_def object_settles_def Let_def asked_for_def)
    next
      case False
      then show ?thesis using inv now
        by (cases r; simp add: object_settles_def Let_def) (auto simp: object_inv_def asked_for_def)
    qed
  qed (use inv in \<open>simp add: object_settles_def split: option.split\<close>)
next
  case None
  assume "object_inv st"
  then show ?thesis using None by (auto simp: object_settles_def asked_for_def split: option.split)
qed

lemma run_object_inv: "object_inv (run_object es)"
proof -
  have "object_inv st \<Longrightarrow> object_inv (object_guard.guard_step e st)" for e st
    by (cases e) (simp_all add: object_inv_refresh object_inv_settles)
  then have "object_inv st \<Longrightarrow> object_inv (fold object_guard.guard_step es st)" for st
    by (induction es arbitrary: st) simp_all
  moreover have "object_inv new_object" by (simp add: object_inv_def new_object_def asked_for_def)
  ultimately show ?thesis by (simp add: run_object_def)
qed

text \<open>
  The detail page settles on the object it asked for. However refreshes overlap, fail or are answered out of order,
  once no request is running either an object is shown, and it was fetched for a target with the key of the
  one asked for last, or none is shown, and then an error is (or nothing was ever asked for).
\<close>

theorem detail_settles_on_target:
  "let st = run_object es in
   if ro_loading st then True
   else case (ro_object st, asked_for st) of
          (Some _, Some t) \<Rightarrow> map_option targetKey (ro_from st) = Some (targetKey t)
        | (Some _, None) \<Rightarrow> False
        | (None, Some _) \<Rightarrow> ro_error st \<noteq> None
        | (None, None) \<Rightarrow> True"
  using run_object_inv [of es]
  by (cases "ro_from (run_object es)") (auto simp: object_inv_def Let_def split: option.split)

text \<open>A failed refresh of the object on screen keeps it and shows the error beside it; a failed load of another
  object clears it.\<close>

lemma failed_refresh_outcome:
  assumes "ro_loadedKey st = Some k"
  shows "let st' = object_settles (Suc (ro_generation st)) (Inl e) (refresh_object (Some t) st) in
         ro_error st' = Some (asApiError e) \<and> \<not> ro_loading st' \<and>
         ro_object st' = (if targetKey t = k then ro_object st else None)"
  using assms by (simp add: object_settles_def refresh_object_def Let_def)

lemma superseded_object_dropped:
  "object_settles (ro_generation st) r (fold object_guard.guard_step es (refresh_object (Some t) st)) =
   fold object_guard.guard_step es (refresh_object (Some t) st)"
  by (rule object_guard.superseded_dropped) simp

section \<open>The compact table\<close>

record mini_row =
  mr_name :: jstring
  mr_namespace :: jstring
  mr_cells :: "jstring list"

record mini_table =
  mt_columns :: "jstring list"
  mt_rows :: "mini_row list"

record mini_options =
  mo_keepOnly :: "jstring list option"
  mo_rowFilter :: "(object_meta \<Rightarrow> bool) option"

definition empty_meta :: object_meta where
  "empty_meta = \<lparr>om_name = None, om_namespace = None, om_uid = None, om_rv = None, om_created = None, om_deletion = None,
                 om_labels = None, om_annotations = None, om_owners = None, om_managed = None\<rparr>"

definition wanted_column :: "table_column list \<Rightarrow> jstring \<Rightarrow> (nat \<times> jstring) list" where
  "wanted_column defs wanted =
     (case find_index (\<lambda>d. to_lower (tc_name d) = to_lower wanted) defs of
        None \<Rightarrow> []
      | Some i \<Rightarrow> [(i, tc_name (defs ! i))])"

definition selectColumns :: "table_column list \<Rightarrow> mini_options \<Rightarrow> (nat \<times> jstring) list" where
  "selectColumns defs opts =
     (case mo_keepOnly opts of
        Some names \<Rightarrow> concat (map (wanted_column defs) names)
      | None \<Rightarrow>
          concat (map (\<lambda>(i, d). if (case tc_priority d of None \<Rightarrow> 0 | Some p \<Rightarrow> p) = 0 \<and> to_lower (tc_name d) \<noteq> ''name''
                               then [(i, tc_name d)] else [])
                    (List.enumerate 0 defs)))"

definition cell_at :: "table_row \<Rightarrow> nat \<Rightarrow> cell option" where
  "cell_at row i = (if i < length (tr_cells row) then Some (tr_cells row ! i) else None)"

definition row_text :: "(object_meta \<Rightarrow> jstring option) \<Rightarrow> table_row \<Rightarrow> jstring" where
  "row_text f row = (case Option.bind (tr_meta row) f of Some s \<Rightarrow> s | None \<Rightarrow> [])"

text \<open>\<open>stringified\<close> is \<^verbatim>\<open>JSON.stringify\<close> of the object cell at a row and column.\<close>

definition tableToMini :: "(table_row \<Rightarrow> nat \<Rightarrow> jstring) \<Rightarrow> table_column list option \<Rightarrow> table_row list option \<Rightarrow> mini_options \<Rightarrow> mini_table" where
  "tableToMini stringified columnDefinitions rows opts =
     (let selected = selectColumns (or_empty columnDefinitions) opts;
          kept = filter (\<lambda>row. case mo_rowFilter opts of
                                 None \<Rightarrow> True
                               | Some f \<Rightarrow> f (case tr_meta row of Some m \<Rightarrow> m | None \<Rightarrow> empty_meta)) (or_empty rows)
      in \<lparr>mt_columns = map snd selected,
          mt_rows = map (\<lambda>row. \<lparr>mr_name = row_text om_name row, mr_namespace = row_text om_namespace row,
                                mr_cells = map (\<lambda>(i, _). cellText (stringified row i) (cell_at row i)) selected\<rparr>) kept\<rparr>)"

lemma selected_columns_exist:
  "list_all (\<lambda>(i, n). i < length defs \<and> tc_name (defs ! i) = n) (selectColumns defs opts)"
  by (auto simp: list_all_iff selectColumns_def wanted_column_def in_set_enumerate_eq
      dest: find_index_Some sym [of "Some _"] split: option.splits if_splits)

text \<open>
  A compact table is rectangular and keeps the server's rows: every row has exactly one cell per column, each
  column is one the server declared, and without a row filter no row is lost, added or reordered.
\<close>

theorem mini_table_rectangular:
  "let t = tableToMini stringified (Some defs) (Some rows) opts in
   list_all (\<lambda>r. length (mr_cells r) = length (mt_columns t)) (mt_rows t) \<and>
   set (mt_columns t) \<subseteq> tc_name ` set defs \<and>
   (case mo_rowFilter opts of
      None \<Rightarrow> map mr_name (mt_rows t) = map (row_text om_name) rows
    | Some f \<Rightarrow> length (mt_rows t) = length (filter (\<lambda>row. f (case tr_meta row of Some m \<Rightarrow> m | None \<Rightarrow> empty_meta)) rows))"
proof -
  have "set (map snd (selectColumns defs opts)) \<subseteq> tc_name ` set defs"
    using selected_columns_exist [of defs opts] by (fastforce simp: list_all_iff)
  then show ?thesis
    by (auto simp: tableToMini_def Let_def or_empty_def list_all_iff split: option.split)
qed

section \<open>The namespace column\<close>

definition NAMESPACE_COLUMN_NAME :: jstring where "NAMESPACE_COLUMN_NAME = ''Namespace''"

definition shouldShowNamespaceColumn :: "table_column list \<Rightarrow> bool \<Rightarrow> bool \<Rightarrow> bool" where
  "shouldShowNamespaceColumn columns allNamespaces namespaced \<longleftrightarrow>
     allNamespaces \<and> namespaced \<and> \<not> list_ex (\<lambda>c. tc_name c = NAMESPACE_COLUMN_NAME) columns"

definition withNamespaceColumn :: "table_column list \<Rightarrow> table_column list" where
  "withNamespaceColumn columns = \<lparr>tc_name = NAMESPACE_COLUMN_NAME, tc_type = ''string'', tc_priority = None\<rparr> # columns"

text \<open>A row is the object at an address; the weak map is keyed by it.\<close>

definition project_row :: "table_row \<Rightarrow> table_row" where
  "project_row row = row\<lparr>tr_cells := CStr (row_text om_namespace row) # tr_cells row\<rparr>"

fun withNamespaceCells :: "(nat \<times> table_row) list \<Rightarrow> (nat \<rightharpoonup> table_row) \<Rightarrow> table_row list \<times> (nat \<rightharpoonup> table_row)" where
  "withNamespaceCells [] projectedRows = ([], projectedRows)"
| "withNamespaceCells ((addr, row) # rows) projectedRows =
     (case projectedRows addr of
        Some cached \<Rightarrow> (let (out, memo) = withNamespaceCells rows projectedRows in (cached # out, memo))
      | None \<Rightarrow>
          let projected = project_row row;
              (out, memo) = withNamespaceCells rows (projectedRows(addr \<mapsto> projected))
          in (projected # out, memo))"

text \<open>The memo is coherent with the rows on the heap: whatever it holds is the projection of the row there.\<close>

definition memo_ok :: "(nat \<rightharpoonup> table_row) \<Rightarrow> (nat \<rightharpoonup> table_row) \<Rightarrow> bool" where
  "memo_ok heap memo \<longleftrightarrow> (\<forall>a p. memo a = Some p \<longrightarrow> map_option project_row (heap a) = Some p)"

lemma memo_transparent:
  assumes "memo_ok heap memo" "list_all (\<lambda>(a, row). heap a = Some row) rows"
  shows "fst (withNamespaceCells rows memo) = map (project_row \<circ> snd) rows \<and> memo_ok heap (snd (withNamespaceCells rows memo))"
  using assms
proof (induction rows memo rule: withNamespaceCells.induct)
  case (2 a row rows memo)
  have ok: "memo_ok heap (memo(a \<mapsto> project_row row))" using 2 by (auto simp: memo_ok_def)
  show ?case
  proof (cases "memo a")
    case None
    then show ?thesis using 2 ok by (simp add: Let_def case_prod_beta del: fun_upd_apply)
  next
    case (Some p)
    have "heap a = Some row" using 2(4) by simp
    then have "p = project_row row" using 2(3) Some by (force simp: memo_ok_def)
    then show ?thesis using 2 Some by (simp add: Let_def case_prod_beta)
  qed
qed simp

section \<open>Column widths\<close>

text \<open>Widths are exact rationals; \<open>textPx\<close> is the measured width of a text in the cell or the header font.\<close>

definition COLUMN_MIN_PX :: rat where "COLUMN_MIN_PX = 60"
definition COLUMN_MAX_PX :: rat where "COLUMN_MAX_PX = 380"
definition NAME_COLUMN_MAX_PX :: rat where "NAME_COLUMN_MAX_PX = 640"
definition NAME_COLUMN_MIN_PX :: rat where "NAME_COLUMN_MIN_PX = 140"
definition CELL_EXTRA_PX :: rat where "CELL_EXTRA_PX = 36"
definition HEADER_EXTRA_PX :: rat where "HEADER_EXTRA_PX = 42"
definition SAMPLE_ROWS :: nat where "SAMPLE_ROWS = 200"
definition CANDIDATES :: nat where "CANDIDATES = 3"

function shortest_from :: "jstring list \<Rightarrow> nat \<Rightarrow> nat \<Rightarrow> nat" where
  "shortest_from xs j best =
     (if j < length xs then shortest_from xs (Suc j) (if length (xs ! j) < length (xs ! best) then j else best) else best)"
  by pat_completeness auto
termination by (relation "measure (\<lambda>(xs, j, best). length xs - j)") auto

declare shortest_from.simps [simp del]

definition note_candidate :: "jstring \<Rightarrow> jstring list \<Rightarrow> jstring list" where
  "note_candidate t xs =
     (if length xs < CANDIDATES then if t \<in> set xs then xs else xs @ [t]
      else let s = shortest_from xs 1 0
           in if length t > length (xs ! s) \<and> t \<notin> set xs then xs[s := t] else xs)"

definition column_candidates :: "(table_row \<Rightarrow> nat \<Rightarrow> jstring) \<Rightarrow> table_row list \<Rightarrow> nat \<Rightarrow> jstring list" where
  "column_candidates stringified rows i =
     fold (\<lambda>row. note_candidate (cellText (stringified row i) (cell_at row i))) (take SAMPLE_ROWS rows) []"

definition estimateColumnWidths ::
  "(table_row \<Rightarrow> nat \<Rightarrow> jstring) \<Rightarrow> (jstring \<Rightarrow> rat) \<Rightarrow> (jstring \<Rightarrow> rat) \<Rightarrow> table_column list \<Rightarrow> table_row list \<Rightarrow> int list" where
  "estimateColumnWidths stringified cellPx headPx columns rows =
     map (\<lambda>(i, col).
            let isName = tc_name col = ''Name'';
                lo = (if isName then NAME_COLUMN_MIN_PX else COLUMN_MIN_PX);
                hi = (if isName then NAME_COLUMN_MAX_PX else COLUMN_MAX_PX);
                valuePx = fold (\<lambda>t w. if cellPx t > w then cellPx t else w) (column_candidates stringified rows i) 0 + CELL_EXTRA_PX;
                headerPx = HEADER_EXTRA_PX + headPx (tc_name col)
            in \<lceil>min hi (max lo (max valuePx headerPx))\<rceil>)
       (List.enumerate 0 columns)"

lemma shortest_from_bound: "best < length xs \<Longrightarrow> shortest_from xs j best < length xs"
  by (induction xs j best rule: shortest_from.induct) (simp add: shortest_from.simps)

lemma shortest_from_le:
  "best < length xs \<Longrightarrow> length (xs ! shortest_from xs j best) \<le> length (xs ! best) \<and>
     (\<forall>k. j \<le> k \<and> k < length xs \<longrightarrow> length (xs ! shortest_from xs j best) \<le> length (xs ! k))"
proof (induction xs j best rule: shortest_from.induct)
  case (1 xs j best)
  show ?case
  proof (cases "j < length xs")
    case True
    let ?b = "if length (xs ! j) < length (xs ! best) then j else best"
    have ih: "length (xs ! shortest_from xs (Suc j) ?b) \<le> length (xs ! ?b)"
      "\<forall>k. Suc j \<le> k \<and> k < length xs \<longrightarrow> length (xs ! shortest_from xs (Suc j) ?b) \<le> length (xs ! k)"
      using 1 True by auto
    have b: "length (xs ! ?b) \<le> length (xs ! best)" "length (xs ! ?b) \<le> length (xs ! j)" by auto
    have "length (xs ! shortest_from xs (Suc j) ?b) \<le> length (xs ! k)" if "j \<le> k" "k < length xs" for k
      using ih that b by (cases "k = j") (auto intro: order_trans)
    then show ?thesis using True ih(1) b(1) by (subst (1 2) shortest_from.simps) (auto intro: order_trans)
  next
    case False
    then show ?thesis by (simp add: shortest_from.simps)
  qed
qed

text \<open>
  Whatever the cells hold, every column gets one default width, within its bounds: 60 to 380 pixels, and 140 to 640
  for the Name column.
\<close>

theorem column_widths_bounded:
  "let ws = estimateColumnWidths stringified cellPx headPx columns rows in
   length ws = length columns \<and>
   list_all2 (\<lambda>w col. if tc_name col = ''Name'' then 140 \<le> w \<and> w \<le> 640 else 60 \<le> w \<and> w \<le> 380) ws columns"
proof -
  have "(lo :: rat) \<le> hi \<Longrightarrow> of_int a = lo \<Longrightarrow> of_int b = hi \<Longrightarrow> a \<le> \<lceil>min hi (max lo x)\<rceil> \<and> \<lceil>min hi (max lo x)\<rceil> \<le> b" for lo hi x a b
    by (auto simp: le_ceiling_iff ceiling_le_iff min_def max_def)
  from this [of 140 640 140 640] this [of 60 380 60 380] show ?thesis
    by (auto simp: estimateColumnWidths_def Let_def list_all2_conv_all_nth nth_enumerate_eq
        NAME_COLUMN_MIN_PX_def NAME_COLUMN_MAX_PX_def COLUMN_MIN_PX_def COLUMN_MAX_PX_def)
qed

text \<open>At most three distinct texts are measured per column.\<close>

lemma candidates_bounded:
  "length (column_candidates stringified rows i) \<le> CANDIDATES \<and> distinct (column_candidates stringified rows i)"
proof -
  have step: "length (note_candidate t xs) \<le> CANDIDATES \<and> distinct (note_candidate t xs)"
    if "length xs \<le> CANDIDATES" "distinct xs" for t xs
    using that by (auto simp: note_candidate_def Let_def intro: distinct_list_update)
  have "length (fold (\<lambda>row. note_candidate (f row)) rs xs) \<le> CANDIDATES \<and> distinct (fold (\<lambda>row. note_candidate (f row)) rs xs)"
    if "length xs \<le> CANDIDATES" "distinct xs" for f :: "table_row \<Rightarrow> jstring" and rs xs
    using that by (induction rs arbitrary: xs) (auto simp: step)
  then show ?thesis by (simp add: column_candidates_def)
qed

end
