(* ===== verification/ExecSession.thy ===== *)
theory ExecSession
  imports Json Interfaces
begin

text \<open>
  \<^verbatim>\<open>web/src/composables/useExecSession.ts\<close>: one terminal over a succession of WebSockets. A socket is its index in the
  list of those opened; the browser's events name the socket they fire on. \<^verbatim>\<open>close()\<close> leaves a socket in the
  closing state, on which a buffered message can still arrive but which no longer opens.
\<close>

section \<open>State\<close>

record exec_target =
  et_namespace :: jstring
  et_pod :: jstring
  et_container :: jstring
  et_command :: "jstring list"

datatype exec_status = ExIdle | ExConnecting | ExReady | ExClosed | ExError

datatype ws_phase = WsConnecting | WsOpen | WsClosing | WsClosed

datatype ws_frame = TextFrame json | BinaryFrame jstring

text \<open>\<open>sk_attached\<close>: the message, close and error handlers are set. The handlers' closures hold the token, the
  context and the target the socket was opened with.\<close>

record exec_socket =
  sk_phase :: ws_phase
  sk_attached :: bool
  sk_url :: jstring
  sk_token :: "jstring option"
  sk_context :: "jstring option"
  sk_target :: exec_target
  sk_sent :: "ws_frame list"

text \<open>\<open>ex_waiting\<close> are the starts awaiting their token, with the target each captured; \<open>ex_output\<close> and \<open>ex_exits\<close> the calls of
  \<^verbatim>\<open>onOutput\<close> and \<^verbatim>\<open>onExit\<close> so far, newest first, with the socket they came from.\<close>

record exec_session =
  ex_status :: exec_status
  ex_error :: "jstring option"
  ex_ws :: "nat option"
  ex_gen :: nat
  ex_sockets :: "exec_socket list"
  ex_waiting :: "(nat \<times> exec_target) list"
  ex_output :: "(nat \<times> jstring) list"
  ex_exits :: "(nat \<times> int option) list"

definition new_exec :: exec_session where
  "new_exec = \<lparr>ex_status = ExIdle, ex_error = None, ex_ws = None, ex_gen = 0, ex_sockets = [], ex_waiting = [], ex_output = [], ex_exits = []\<rparr>"

definition upd_socket :: "nat \<Rightarrow> (exec_socket \<Rightarrow> exec_socket) \<Rightarrow> exec_session \<Rightarrow> exec_session" where
  "upd_socket i f st = (if i < length (ex_sockets st) then st\<lparr>ex_sockets := (ex_sockets st)[i := f (ex_sockets st ! i)]\<rparr> else st)"

definition has_socket :: "nat \<Rightarrow> (exec_socket \<Rightarrow> bool) \<Rightarrow> exec_session \<Rightarrow> bool" where
  "has_socket i P st \<longleftrightarrow> i < length (ex_sockets st) \<and> P (ex_sockets st ! i)"

section \<open>Operations\<close>

definition ws_close :: "exec_socket \<Rightarrow> exec_socket" where
  "ws_close s = (if sk_phase s = WsClosed then s else s\<lparr>sk_phase := WsClosing\<rparr>)"

definition exec_stop :: "exec_session \<Rightarrow> exec_session" where
  "exec_stop st =
     (let st1 = st\<lparr>ex_gen := Suc (ex_gen st), ex_ws := None\<rparr>;
          st2 = (case ex_ws st of None \<Rightarrow> st1 | Some i \<Rightarrow> upd_socket i (\<lambda>s. ws_close (s\<lparr>sk_attached := False\<rparr>)) st1)
      in if ex_status st2 = ExConnecting \<or> ex_status st2 = ExReady then st2\<lparr>ex_status := ExClosed\<rparr> else st2)"

definition exec_url :: "jstring \<Rightarrow> jstring \<Rightarrow> jstring" where
  "exec_url protocol host = (if protocol = ''https:'' then ''wss'' else ''ws'') @ ''://'' @ host @ ''/api/ui/exec/ws''"

record page =
  pg_protocol :: jstring
  pg_host :: jstring
  pg_localAuth :: bool

text \<open>The part of \<^verbatim>\<open>start\<close> after the token's \<^verbatim>\<open>await\<close>.\<close>

definition token_arrives :: "page \<Rightarrow> nat \<Rightarrow> jstring option \<times> jstring option \<Rightarrow> exec_session \<Rightarrow> exec_session" where
  "token_arrives pg g r st =
     (case map_of (ex_waiting st) g of
        None \<Rightarrow> st
      | Some t \<Rightarrow>
          if g \<noteq> ex_gen st then st
          else
            let (tok, ctx) = r; st1 = st\<lparr>ex_waiting := filter (\<lambda>w. fst w \<noteq> g) (ex_waiting st)\<rparr>
            in if (tok = None \<or> tok = Some []) \<and> \<not> pg_localAuth pg
               then st1\<lparr>ex_status := ExError, ex_error := Some ''Not authenticated.''\<rparr>
               else st1\<lparr>ex_sockets := ex_sockets st1 @
                          [\<lparr>sk_phase = WsConnecting, sk_attached = True, sk_url = exec_url (pg_protocol pg) (pg_host pg),
                            sk_token = tok, sk_context = ctx, sk_target = t, sk_sent = []\<rparr>],
                        ex_ws := Some (length (ex_sockets st1))\<rparr>)"

text \<open>\<^verbatim>\<open>start\<close> up to the \<^verbatim>\<open>await\<close>; without a credential provider there is nothing to wait for.\<close>

definition exec_start :: "page \<Rightarrow> bool \<times> exec_target \<Rightarrow> exec_session \<Rightarrow> exec_session" where
  "exec_start pg start st =
     (let (provider, t) = start; st1 = exec_stop st; g = Suc (ex_gen st1);
          st2 = st1\<lparr>ex_gen := g, ex_status := ExConnecting, ex_error := None, ex_waiting := (g, t) # ex_waiting st1\<rparr>
      in if provider then st2 else token_arrives pg g (None, None) st2)"

definition auth_frame :: "exec_socket \<Rightarrow> json" where
  "auth_frame s =
     JObj ([(''type'', JStr ''auth''), (''token'', JStr (case sk_token s of Some t \<Rightarrow> t | None \<Rightarrow> []))] @
           (case sk_context s of None \<Rightarrow> [] | Some c \<Rightarrow> if c \<noteq> [] then [(''context'', JStr c)] else []) @
           [(''namespace'', JStr (et_namespace (sk_target s))), (''pod'', JStr (et_pod (sk_target s))),
            (''container'', JStr (et_container (sk_target s))), (''command'', JArr (map JStr (et_command (sk_target s))))])"

definition send_frame :: "ws_frame \<Rightarrow> exec_socket \<Rightarrow> exec_socket" where
  "send_frame f s = s\<lparr>sk_sent := sk_sent s @ [f]\<rparr>"

definition socket_opens :: "nat \<Rightarrow> exec_session \<Rightarrow> exec_session" where
  "socket_opens i st =
     (if has_socket i (\<lambda>s. sk_phase s = WsConnecting) st
      then upd_socket i (\<lambda>s. send_frame (TextFrame (auth_frame s)) (s\<lparr>sk_phase := WsOpen\<rparr>)) st else st)"

text \<open>A text frame that parsed to a control frame (\<open>None\<close>: it did not), or bytes.\<close>

record control_frame =
  cf_type :: jstring
  cf_message :: "jstring option"
  cf_code :: "int option"

datatype ws_data = ControlData "control_frame option" | BytesData jstring

definition socket_message :: "nat \<Rightarrow> ws_data \<Rightarrow> exec_session \<Rightarrow> exec_session" where
  "socket_message i d st =
     (if \<not> has_socket i (\<lambda>s. sk_attached s \<and> (sk_phase s = WsOpen \<or> sk_phase s = WsClosing)) st then st
      else case d of
             BytesData b \<Rightarrow> st\<lparr>ex_output := (i, b) # ex_output st\<rparr>
           | ControlData None \<Rightarrow> st
           | ControlData (Some f) \<Rightarrow>
               if cf_type f = ''ready'' then st\<lparr>ex_status := ExReady\<rparr>
               else if cf_type f = ''error'' then
                 st\<lparr>ex_status := ExError, ex_error := Some (case cf_message f of Some m \<Rightarrow> m | None \<Rightarrow> ''exec failed'')\<rparr>
               else if cf_type f = ''exit'' then st\<lparr>ex_status := ExClosed, ex_exits := (i, cf_code f) # ex_exits st\<rparr>
               else st)"

definition socket_closes :: "nat \<Rightarrow> exec_session \<Rightarrow> exec_session" where
  "socket_closes i st =
     (if \<not> has_socket i (\<lambda>s. sk_phase s \<noteq> WsClosed) st then st
      else let st1 = upd_socket i (\<lambda>s. s\<lparr>sk_phase := WsClosed\<rparr>) st
           in if has_socket i sk_attached st1
              then st1\<lparr>ex_status := (if ex_status st1 \<noteq> ExError then ExClosed else ExError),
                       ex_ws := (if ex_ws st1 = Some i then None else ex_ws st1)\<rparr>
              else st1)"

definition socket_fails :: "nat \<Rightarrow> exec_session \<Rightarrow> exec_session" where
  "socket_fails i st =
     (if has_socket i (\<lambda>s. sk_attached s \<and> sk_phase s \<noteq> WsClosed) st \<and> ex_status st = ExConnecting
      then st\<lparr>ex_status := ExError, ex_error := Some ''WebSocket connection failed.''\<rparr> else st)"

definition send_if_open :: "ws_frame \<Rightarrow> exec_session \<Rightarrow> exec_session" where
  "send_if_open f st =
     (case ex_ws st of
        None \<Rightarrow> st
      | Some i \<Rightarrow> if has_socket i (\<lambda>s. sk_phase s = WsOpen) st then upd_socket i (send_frame f) st else st)"

text \<open>The encoded bytes of the input are a binary frame.\<close>

definition sendInput :: "(jstring \<Rightarrow> jstring) \<Rightarrow> jstring \<Rightarrow> exec_session \<Rightarrow> exec_session" where
  "sendInput encode input = send_if_open (BinaryFrame (encode input))"

definition resize_frame :: "nat \<Rightarrow> nat \<Rightarrow> json" where
  "resize_frame cols rows = JObj [(''type'', JStr ''resize''), (''cols'', JNum (of_nat cols)), (''rows'', JNum (of_nat rows))]"

definition sendResize :: "nat \<Rightarrow> nat \<Rightarrow> exec_session \<Rightarrow> exec_session" where
  "sendResize cols rows = send_if_open (TextFrame (resize_frame cols rows))"

datatype exec_event =
    ExStop | ExOpens nat | ExMessage nat ws_data | ExCloses nat | ExFails nat | ExInput jstring | ExResize nat nat

definition exec_other :: "(jstring \<Rightarrow> jstring) \<Rightarrow> exec_event \<Rightarrow> exec_session \<Rightarrow> exec_session" where
  "exec_other encode e =
     (case e of ExStop \<Rightarrow> exec_stop | ExOpens i \<Rightarrow> socket_opens i | ExMessage i d \<Rightarrow> socket_message i d | ExCloses i \<Rightarrow> socket_closes i
      | ExFails i \<Rightarrow> socket_fails i | ExInput d \<Rightarrow> sendInput encode d | ExResize c r \<Rightarrow> sendResize c r)"

lemmas exec_ops = socket_opens_def socket_message_def socket_closes_def socket_fails_def sendInput_def sendResize_def
  send_if_open_def upd_socket_def

section \<open>The guard\<close>

lemma gen_stop [simp]: "ex_gen (exec_stop st) = Suc (ex_gen st)"
  by (simp add: exec_stop_def Let_def upd_socket_def split: option.split)

lemma gen_token [simp]: "ex_gen (token_arrives pg g r st) = ex_gen st"
  by (simp add: token_arrives_def Let_def case_prod_beta split: option.split)

lemma gen_start: "ex_gen (exec_start pg x st) = Suc (Suc (ex_gen st))"
  by (simp add: exec_start_def Let_def case_prod_beta)

lemma gen_other: "ex_gen st \<le> ex_gen (exec_other encode e st)"
  by (cases e) (simp_all add: exec_other_def exec_ops Let_def split: option.split ws_data.split)

interpretation exec_guard: generation_guard ex_gen "exec_start pg" "token_arrives pg" "exec_other encode" for pg encode
  proof unfold_locales
  show "g \<noteq> ex_gen s \<Longrightarrow> token_arrives pg g r s = s" for g r s by (simp add: token_arrives_def split: option.split)
qed (simp_all add: gen_start gen_other)

definition run_exec :: "page \<Rightarrow> (jstring \<Rightarrow> jstring) \<Rightarrow> (bool \<times> exec_target, jstring option \<times> jstring option, exec_event) guard_event list \<Rightarrow> exec_session" where
  "run_exec pg encode es = fold (exec_guard.guard_step pg encode) es new_exec"

text \<open>A token that arrives after the session was stopped or restarted opens nothing.\<close>

lemma late_token_ignored:
  "token_arrives pg (ex_gen st) r (fold (exec_guard.guard_step pg encode) es (exec_start pg x st)) =
   fold (exec_guard.guard_step pg encode) es (exec_start pg x st)"
  by (rule exec_guard.superseded_dropped) simp

section \<open>The invariant\<close>

text \<open>The frames of a socket: none before it opens; then the authentication frame, and after it only input and
  resizes.\<close>

definition is_traffic :: "ws_frame \<Rightarrow> bool" where
  "is_traffic f \<longleftrightarrow> (case f of BinaryFrame _ \<Rightarrow> True | TextFrame j \<Rightarrow> jget ''type'' j = Some (JStr ''resize''))"

definition frames_ok :: "exec_socket \<Rightarrow> bool" where
  "frames_ok s \<longleftrightarrow>
     (case sk_sent s of
        [] \<Rightarrow> sk_phase s \<noteq> WsOpen
      | f # fs \<Rightarrow> sk_phase s \<noteq> WsConnecting \<and> f = TextFrame (auth_frame s) \<and> list_all is_traffic fs)"

definition live :: "exec_socket \<Rightarrow> bool" where
  "live s \<longleftrightarrow> sk_attached s \<and> (sk_phase s = WsConnecting \<or> sk_phase s = WsOpen)"

definition quiet :: "exec_socket \<Rightarrow> bool" where
  "quiet s \<longleftrightarrow> (sk_phase s = WsClosed \<or> sk_phase s = WsClosing \<and> \<not> sk_attached s)"

text \<open>The current socket is the last one, and live; every other is quiet.\<close>

definition sockets_ok :: "exec_session \<Rightarrow> bool" where
  "sockets_ok st \<longleftrightarrow>
     (case ex_ws st of
        None \<Rightarrow> list_all quiet (ex_sockets st)
      | Some i \<Rightarrow> (\<exists>ss s. ex_sockets st = ss @ [s] \<and> i = length ss \<and> live s \<and> list_all quiet ss))"

definition exec_inv :: "exec_session \<Rightarrow> bool" where
  "exec_inv st \<longleftrightarrow>
     sockets_ok st \<and> list_all frames_ok (ex_sockets st) \<and>
     list_all (\<lambda>(g, _). g \<le> ex_gen st) (ex_waiting st) \<and>
     (map_of (ex_waiting st) (ex_gen st) \<noteq> None \<longrightarrow> ex_ws st = None) \<and>
     (ex_status st = ExReady \<longrightarrow> ex_ws st \<noteq> None) \<and>
     (ex_status st = ExConnecting \<longrightarrow> ex_ws st \<noteq> None \<or> map_of (ex_waiting st) (ex_gen st) \<noteq> None)"

lemma exec_cases [consumes 1, case_names no_socket socket]:
  assumes "sockets_ok st"
  obtains "ex_ws st = None" "list_all quiet (ex_sockets st)"
  | ss s where "ex_sockets st = ss @ [s]" "ex_ws st = Some (length ss)" "live s" "list_all quiet ss"
  using assms by (cases "ex_ws st") (auto simp: sockets_ok_def)

lemma frames_detach: "frames_ok s \<Longrightarrow> frames_ok (ws_close (s\<lparr>sk_attached := False\<rparr>))"
  by (auto simp: frames_ok_def ws_close_def auth_frame_def split: list.splits)

lemma frames_closed: "frames_ok s \<Longrightarrow> frames_ok (s\<lparr>sk_phase := WsClosed\<rparr>)"
  by (auto simp: frames_ok_def auth_frame_def split: list.splits)

lemma frames_open: "frames_ok s \<Longrightarrow> sk_phase s = WsConnecting \<Longrightarrow> frames_ok (send_frame (TextFrame (auth_frame s)) (s\<lparr>sk_phase := WsOpen\<rparr>))"
  by (auto simp: frames_ok_def send_frame_def auth_frame_def split: list.splits)

lemma frames_traffic: "frames_ok s \<Longrightarrow> sk_phase s = WsOpen \<Longrightarrow> is_traffic f \<Longrightarrow> frames_ok (send_frame f s)"
  by (cases "sk_sent s") (auto simp: frames_ok_def send_frame_def auth_frame_def)

lemma waiting_fresh: "list_all (\<lambda>(g, _). g \<le> (n :: nat)) ws \<Longrightarrow> n < k \<Longrightarrow> map_of ws k = None"
  by (induction ws) (auto simp: case_prod_beta)

lemma exec_inv_stop: "exec_inv st \<Longrightarrow> exec_inv (exec_stop st) \<and> ex_ws (exec_stop st) = None"
proof -
  assume inv: "exec_inv st"
  then have ok: "sockets_ok st" and fr: "list_all frames_ok (ex_sockets st)"
    and w: "list_all (\<lambda>(g, _). g \<le> ex_gen st) (ex_waiting st)" by (auto simp: exec_inv_def)
  have w': "list_all (\<lambda>(g, _). g \<le> Suc (ex_gen st)) (ex_waiting st)" using w by (auto simp: list_all_iff)
  have fresh: "map_of (ex_waiting st) (Suc (ex_gen st)) = None" using waiting_fresh [OF w] by simp
  from ok show ?thesis
  proof (cases rule: exec_cases)
    case no_socket
    then show ?thesis using fr w' fresh by (simp add: exec_stop_def Let_def exec_inv_def sockets_ok_def)
  next
    case (socket ss s)
    have "quiet (ws_close (s\<lparr>sk_attached := False\<rparr>))" using \<open>live s\<close> by (auto simp: live_def quiet_def ws_close_def)
    then show ?thesis using socket fr w' fresh frames_detach [of s]
      by (simp add: exec_stop_def Let_def exec_inv_def sockets_ok_def upd_socket_def nth_append list_update_append)
  qed
qed

lemma exec_inv_token:
  assumes "exec_inv st"
  shows "exec_inv (token_arrives pg g r st)"
proof (cases "map_of (ex_waiting st) g")
  case (Some t)
  show ?thesis
  proof (cases "g = ex_gen st")
    case True
    have ws: "ex_ws st = None" and ok: "list_all quiet (ex_sockets st)" "list_all frames_ok (ex_sockets st)"
      and w: "list_all (\<lambda>(g, _). g \<le> ex_gen st) (ex_waiting st)"
      using assms Some True by (auto simp: exec_inv_def sockets_ok_def)
    have w': "list_all (\<lambda>(g, _). g \<le> ex_gen st) (filter (\<lambda>w. fst w \<noteq> ex_gen st) (ex_waiting st))"
      using w by (auto simp: list_all_iff)
    have none: "map_of (filter (\<lambda>w. fst w \<noteq> ex_gen st) (ex_waiting st)) (ex_gen st) = None"
      by (auto simp: map_of_eq_None_iff)
    show ?thesis using Some True ws ok w' none
      by (simp add: token_arrives_def Let_def case_prod_beta exec_inv_def sockets_ok_def live_def frames_ok_def)
  qed (use assms Some in \<open>simp add: token_arrives_def\<close>)
qed (use assms in \<open>simp add: token_arrives_def\<close>)

lemma exec_inv_start:
  assumes "exec_inv st"
  shows "exec_inv (exec_start pg x st)"
proof -
  have inv: "exec_inv (exec_stop st)" and ws: "ex_ws (exec_stop st) = None" using exec_inv_stop [OF assms] by auto
  obtain p t where x: "x = (p, t)" by fastforce
  have w: "list_all (\<lambda>(g, _). g \<le> Suc (Suc (ex_gen st))) (ex_waiting (exec_stop st))"
    using inv by (auto simp: exec_inv_def list_all_iff)
  have "exec_inv ((exec_stop st)\<lparr>ex_gen := Suc (Suc (ex_gen st)), ex_status := ExConnecting, ex_error := None,
          ex_waiting := (Suc (Suc (ex_gen st)), t) # ex_waiting (exec_stop st)\<rparr>)"
    using inv ws w by (simp add: exec_inv_def sockets_ok_def)
  then show ?thesis using exec_inv_token by (simp add: exec_start_def Let_def x)
qed

lemma quiet_closed: "list_all quiet ss \<Longrightarrow> list_all quiet (ss[i := (ss ! i)\<lparr>sk_phase := WsClosed\<rparr>])"
  by (cases "i < length ss") (auto simp: list_all_length nth_list_update quiet_def)

lemma frames_update: "list_all frames_ok ss \<Longrightarrow> frames_ok s \<Longrightarrow> list_all frames_ok (ss[i := s])"
  by (cases "i < length ss") (auto simp: list_all_length nth_list_update)

text \<open>An event on a socket that is not the current one changes at most that socket's phase.\<close>

lemma stale_socket:
  assumes "exec_inv st" "ex_ws st \<noteq> Some i"
  shows "socket_message i d st = st" "socket_fails i st = st" "socket_opens i st = st"
    and "socket_closes i st = st \<or>
         socket_closes i st = st\<lparr>ex_sockets := (ex_sockets st)[i := (ex_sockets st ! i)\<lparr>sk_phase := WsClosed\<rparr>]\<rparr>"
proof -
  have q: "quiet (ex_sockets st ! i)" if "i < length (ex_sockets st)"
  proof -
    have "sockets_ok st" using assms by (simp add: exec_inv_def)
    then show ?thesis using that assms(2)
      by (cases rule: exec_cases) (auto simp: list_all_length nth_append less_Suc_eq)
  qed
  show "socket_message i d st = st" "socket_fails i st = st" "socket_opens i st = st"
    using q by (auto simp: has_socket_def quiet_def socket_message_def socket_fails_def socket_opens_def)
  show "socket_closes i st = st \<or>
         socket_closes i st = st\<lparr>ex_sockets := (ex_sockets st)[i := (ex_sockets st ! i)\<lparr>sk_phase := WsClosed\<rparr>]\<rparr>"
    using q by (auto simp: has_socket_def quiet_def socket_closes_def upd_socket_def Let_def)
qed

lemma current_socket:
  assumes "exec_inv st" "ex_ws st = Some i"
  obtains ss s where "ex_sockets st = ss @ [s]" "i = length ss" "live s" "list_all quiet ss" "list_all frames_ok ss" "frames_ok s"
proof -
  have "sockets_ok st" "list_all frames_ok (ex_sockets st)" using assms by (auto simp: exec_inv_def)
  then show thesis using that assms(2) by (cases rule: exec_cases) auto
qed

lemma has_current [simp]: "ex_sockets st = ss @ [s] \<Longrightarrow> has_socket (length ss) P st \<longleftrightarrow> P s"
  by (simp add: has_socket_def)

lemma upd_current: "ex_sockets st = ss @ [s] \<Longrightarrow> upd_socket (length ss) f st = st\<lparr>ex_sockets := ss @ [f s]\<rparr>"
  by (simp add: upd_socket_def list_update_append)

text \<open>Replacing the current socket by a live one, and any status change, keep the invariant.\<close>

lemma exec_inv_replace:
  assumes "exec_inv st" "ex_sockets st = ss @ [s]" "ex_ws st = Some (length ss)" "live s'" "frames_ok s'"
  shows "exec_inv (st\<lparr>ex_sockets := ss @ [s']\<rparr>)"
  using assms by (auto simp: exec_inv_def sockets_ok_def)

lemma exec_inv_opens: "exec_inv st \<Longrightarrow> exec_inv (socket_opens i st)"
proof (cases "ex_ws st = Some i")
  case True
  assume inv: "exec_inv st"
  then obtain ss s where c: "ex_sockets st = ss @ [s]" "i = length ss" "live s" "frames_ok s" using True by (rule current_socket)
  have "live (send_frame (TextFrame (auth_frame s)) (s\<lparr>sk_phase := WsOpen\<rparr>))" using c(3) by (simp add: live_def send_frame_def)
  then show ?thesis using exec_inv_replace [OF inv c(1)] True c frames_open [of s] inv
    by (simp add: socket_opens_def upd_current)
qed (simp add: stale_socket)

lemma exec_inv_send: "exec_inv st \<Longrightarrow> is_traffic f \<Longrightarrow> exec_inv (send_if_open f st)"
proof (cases "ex_ws st")
  case (Some i)
  assume inv: "exec_inv st" and f: "is_traffic f"
  obtain ss s where c: "ex_sockets st = ss @ [s]" "i = length ss" "live s" "frames_ok s" using inv Some by (rule current_socket)
  have "live (send_frame f s)" using c(3) by (simp add: live_def send_frame_def)
  then show ?thesis using exec_inv_replace [OF inv c(1)] Some c f frames_traffic [of s f] inv
    by (simp add: send_if_open_def upd_current)
qed (simp add: send_if_open_def)

lemma exec_inv_status:
  assumes "exec_inv st" "ex_ws st \<noteq> None"
  shows "exec_inv (st\<lparr>ex_status := s\<rparr>)" "exec_inv (st\<lparr>ex_status := s, ex_error := e\<rparr>)"
    "exec_inv (st\<lparr>ex_status := s, ex_exits := xs\<rparr>)" "exec_inv (st\<lparr>ex_output := os\<rparr>)"
  using assms by (auto simp: exec_inv_def sockets_ok_def)

lemma exec_inv_message: "exec_inv st \<Longrightarrow> exec_inv (socket_message i d st)"
proof (cases "ex_ws st = Some i")
  case True
  assume inv: "exec_inv st"
  have "ex_ws st \<noteq> None" using True by simp
  note keep = exec_inv_status [OF inv this]
  show ?thesis using inv by (simp add: socket_message_def keep split: ws_data.split option.split)
qed (simp add: stale_socket)

lemma exec_inv_fails: "exec_inv st \<Longrightarrow> exec_inv (socket_fails i st)"
proof (cases "ex_ws st = Some i")
  case True
  assume inv: "exec_inv st"
  have "ex_ws st \<noteq> None" using True by simp
  note keep = exec_inv_status [OF inv this]
  show ?thesis using inv by (simp add: socket_fails_def keep)
qed (simp add: stale_socket)

lemma exec_inv_closes: "exec_inv st \<Longrightarrow> exec_inv (socket_closes i st)"
proof (cases "ex_ws st = Some i")
  case True
  assume inv: "exec_inv st"
  then obtain ss s where c: "ex_sockets st = ss @ [s]" "i = length ss" "live s" "list_all quiet ss" "list_all frames_ok ss" "frames_ok s"
    using True by (rule current_socket)
  have "socket_closes i st = st\<lparr>ex_sockets := ss @ [s\<lparr>sk_phase := WsClosed\<rparr>],
      ex_status := (if ex_status st \<noteq> ExError then ExClosed else ExError), ex_ws := None\<rparr>"
    using c(1,2,3) True by (auto simp: socket_closes_def Let_def upd_current live_def has_socket_def)
  then show ?thesis using inv c frames_closed [of s]
    by (simp add: exec_inv_def sockets_ok_def quiet_def)
next
  case False
  assume inv: "exec_inv st"
  from stale_socket(4) [OF inv False] show ?thesis
  proof
    assume e: "socket_closes i st = st\<lparr>ex_sockets := (ex_sockets st)[i := (ex_sockets st ! i)\<lparr>sk_phase := WsClosed\<rparr>]\<rparr>"
    have fr: "list_all frames_ok (ex_sockets st)" and ok: "sockets_ok st" using inv by (auto simp: exec_inv_def)
    show ?thesis
    proof (cases "i < length (ex_sockets st)")
      case True
      have fr': "list_all frames_ok ((ex_sockets st)[i := (ex_sockets st ! i)\<lparr>sk_phase := WsClosed\<rparr>])"
        using fr True by (intro frames_update frames_closed) (simp_all add: list_all_length)
      from ok have "sockets_ok (socket_closes i st)"
      proof (cases rule: exec_cases)
        case no_socket
        then show ?thesis by (simp add: e sockets_ok_def quiet_closed)
      next
        case (socket ss s)
        then have "i < length ss" using True False by auto
        then show ?thesis using socket by (simp add: e sockets_ok_def list_update_append nth_append quiet_closed)
      qed
      then show ?thesis using inv fr' by (simp add: exec_inv_def e)
    qed (use inv in \<open>simp add: socket_closes_def has_socket_def\<close>)
  qed (use inv in simp)
qed

lemma resize_is_traffic: "is_traffic (TextFrame (resize_frame c r))"
  by (simp add: is_traffic_def resize_frame_def)

lemma input_is_traffic: "is_traffic (BinaryFrame b)"
  by (simp add: is_traffic_def)

lemma run_exec_inv: "exec_inv (run_exec pg encode es)"
proof -
  have o: "exec_inv (exec_other encode e st)" if "exec_inv st" for e st
    using that exec_inv_stop [of st]
    by (cases e) (simp_all add: exec_other_def exec_inv_opens exec_inv_message exec_inv_closes exec_inv_fails
        sendInput_def sendResize_def exec_inv_send resize_is_traffic input_is_traffic)
  have "exec_inv st \<Longrightarrow> exec_inv (exec_guard.guard_step pg encode e st)" for e st
    by (cases e) (simp_all add: exec_inv_start exec_inv_token o)
  then have "exec_inv st \<Longrightarrow> exec_inv (fold (exec_guard.guard_step pg encode) es st)" for st
    by (induction es arbitrary: st) simp_all
  moreover have "exec_inv new_exec" by (simp add: exec_inv_def sockets_ok_def new_exec_def)
  ultimately show ?thesis by (simp add: run_exec_def)
qed

section \<open>Properties\<close>

text \<open>
  C31. A terminal never shows another session's bytes. However starts, stops, late tokens and socket events interleave, a
  message or an error on a socket that is not the current one changes nothing, and its close changes neither the
  status nor the current socket.
\<close>

theorem stale_sockets_are_silent:
  "let st = run_exec pg encode es in
   if ex_ws st = Some i then True
   else socket_message i d st = st \<and> socket_fails i st = st \<and> socket_opens i st = st \<and>
        ex_status (socket_closes i st) = ex_status st \<and> ex_ws (socket_closes i st) = ex_ws st \<and>
        ex_output (socket_closes i st) = ex_output st"
  using stale_socket [OF run_exec_inv [of pg encode es], of i]
  by (fastforce simp: Let_def)

text \<open>
  On every socket ever opened the first frame is the authentication frame with the token, context and target the session was
  started with, it is sent once, and only input and resizes follow it; nothing is sent before.
\<close>

theorem first_frame_authenticates:
  "list_all (\<lambda>s. case sk_sent s of
                   [] \<Rightarrow> sk_phase s \<noteq> WsOpen
                 | f # fs \<Rightarrow> f = TextFrame (auth_frame s) \<and> TextFrame (auth_frame s) \<notin> set fs \<and> list_all is_traffic fs)
     (ex_sockets (run_exec pg encode es))"
proof -
  have auth: "\<not> is_traffic (TextFrame (auth_frame s))" for s by (simp add: is_traffic_def auth_frame_def)
  have one: "case sk_sent s of [] \<Rightarrow> sk_phase s \<noteq> WsOpen
      | f # fs \<Rightarrow> f = TextFrame (auth_frame s) \<and> TextFrame (auth_frame s) \<notin> set fs \<and> list_all is_traffic fs" if "frames_ok s" for s
    using that auth [of s] by (auto simp: frames_ok_def list_all_iff split: list.splits)
  have "list_all frames_ok (ex_sockets (run_exec pg encode es))" using run_exec_inv by (simp add: exec_inv_def)
  then show ?thesis using one by (auto simp: list_all_iff)
qed

text \<open>
  No socket is left behind: at most one is connecting or open, it is the current one, a ready terminal has
  it, and a connecting terminal has it or awaits the token of the latest start.
\<close>

theorem one_live_socket:
  "let st = run_exec pg encode es in
   length (filter live (ex_sockets st)) = (case ex_ws st of None \<Rightarrow> 0 | Some _ \<Rightarrow> 1) \<and>
   list_all (\<lambda>s. live s \<or> sk_phase s = WsClosing \<or> sk_phase s = WsClosed) (ex_sockets st) \<and>
   (case ex_status st of
      ExReady \<Rightarrow> ex_ws st \<noteq> None
    | ExConnecting \<Rightarrow> ex_ws st \<noteq> None \<or> map_of (ex_waiting st) (ex_gen st) \<noteq> None
    | _ \<Rightarrow> True)"
proof -
  let ?st = "run_exec pg encode es"
  have inv: "exec_inv ?st" by (rule run_exec_inv)
  have quiet: "filter live ss = []" "list_all (\<lambda>s. live s \<or> sk_phase s = WsClosing \<or> sk_phase s = WsClosed) ss" if "list_all quiet ss" for ss
    using that by (auto simp: list_all_iff quiet_def live_def filter_empty_conv)
  have "sockets_ok ?st" using inv by (simp add: exec_inv_def)
  then have "length (filter live (ex_sockets ?st)) = (case ex_ws ?st of None \<Rightarrow> 0 | Some _ \<Rightarrow> 1) \<and>
      list_all (\<lambda>s. live s \<or> sk_phase s = WsClosing \<or> sk_phase s = WsClosed) (ex_sockets ?st)"
    by (cases rule: exec_cases) (auto simp: quiet)
  then show ?thesis using inv by (auto simp: Let_def exec_inv_def split: exec_status.split)
qed

end
