(* ===== verification/PollHost.thy ===== *)
theory PollHost
  imports PollingLoop
begin

text \<open>
  How a composable drives \<^verbatim>\<open>usePollingLoop\<close>: its state holds the loop, an event steps the loop, the stop hook runs inside every
  stop and the tick is called for every poll the step started. \<open>poll_client\<close> is what the loop asks of such a
  client; in return the loop inside it is a run of the loop alone.
\<close>

definition host_step ::
  "('s \<Rightarrow> poll_loop) \<Rightarrow> (poll_loop \<Rightarrow> 's \<Rightarrow> 's) \<Rightarrow> (nat \<Rightarrow> 's \<Rightarrow> 's) \<Rightarrow> ('s \<Rightarrow> 's) \<Rightarrow> nat \<Rightarrow> poll_event \<Rightarrow> 's \<Rightarrow> 's" where
  "host_step get put tick onStop interval e s =
     (let l = get s; l' = poll_step interval e l; s1 = put l' s;
          s2 = (case e of PollStart _ \<Rightarrow> onStop s1 | PollStop \<Rightarrow> onStop s1 | _ \<Rightarrow> s1)
      in fold (\<lambda>x. tick (fst x)) (drop (length (pl_started l)) (pl_started l')) s2)"

text \<open>A step starts at most one poll, of the generation that is then live.\<close>

lemma started_fields [simp]:
  "pl_started (schedule interval g st) = pl_started st" "pl_started (poll_stop st) = pl_started st"
  "pl_live (schedule interval g st) = pl_live st" "pl_now (schedule interval g st) = pl_now st"
  "pl_live (poll_stop st) = False" "pl_now (poll_stop st) = pl_now st"
  by (simp_all add: schedule_def poll_stop_def)

lemma step_starts:
  obtains "pl_started (poll_step interval e st) = pl_started st"
  | "pl_started (poll_step interval e st) = pl_started st @ [(pl_gen (poll_step interval e st), pl_now st)]"
    "pl_live (poll_step interval e st)" "pl_now (poll_step interval e st) = pl_now st"
proof -
  have "pl_started (poll_step interval e st) = pl_started st \<or>
      pl_started (poll_step interval e st) = pl_started st @ [(pl_gen (poll_step interval e st), pl_now st)] \<and>
      pl_live (poll_step interval e st) \<and> pl_now (poll_step interval e st) = pl_now st"
    by (cases e)
       (simp_all add: poll_start_def gate_settles_def go_live_def runTick_def tick_done_def timer_fired_def onVisibilityChange_def
          Let_def split: option.split)
  then show thesis using that by blast
qed

text \<open>What the metrics API answers about itself.\<close>

datatype capability_state = CapAvailable | CapNotInstalled | CapForbidden | CapUnavailable | CapDisabled

text \<open>Only a gate that lets through, or an ungated start, makes a loop live.\<close>

definition may_go_live :: "poll_event \<Rightarrow> bool" where
  "may_go_live e \<longleftrightarrow> (case e of PollStart gated \<Rightarrow> \<not> gated | GateSettles _ proceed \<Rightarrow> proceed | _ \<Rightarrow> False)"

lemma stays_dead: "\<not> may_go_live e \<Longrightarrow> pl_live (poll_step interval e l) \<Longrightarrow> pl_live l"
  by (cases e) (auto simp: may_go_live_def poll_start_def gate_settles_def tick_done_def timer_fired_def onVisibilityChange_def
      runTick_def Let_def split: option.splits if_splits)

locale poll_client =
  fixes get :: "'s \<Rightarrow> poll_loop"
    and put :: "poll_loop \<Rightarrow> 's \<Rightarrow> 's"
    and tick :: "nat \<Rightarrow> 's \<Rightarrow> 's"
    and onStop :: "'s \<Rightarrow> 's"
  assumes get_put: "get (put l s) = l"
    and get_tick: "get (tick g s) = get s"
    and get_onStop: "get (onStop s) = get s"
begin

text \<open>The loop inside the client takes exactly the step of the loop alone.\<close>

lemma host_step_loop: "get (host_step get put tick onStop interval e s) = poll_step interval e (get s)"
proof -
  have "get (fold (\<lambda>x. tick (fst x)) xs s) = get s" for xs :: "(nat \<times> nat) list" and s
    by (induction xs arbitrary: s) (simp_all add: get_tick)
  then show ?thesis by (simp add: host_step_def Let_def get_put get_onStop split: poll_event.split)
qed

text \<open>What a step does to the client, by whether it started a poll.\<close>

lemma host_step_cases:
  obtains (idle) "host_step get put tick onStop interval e s =
      (let s1 = put (poll_step interval e (get s)) s in case e of PollStart _ \<Rightarrow> onStop s1 | PollStop \<Rightarrow> onStop s1 | _ \<Rightarrow> s1)"
  | (polls) g where "host_step get put tick onStop interval e s =
      (let s1 = put (poll_step interval e (get s)) s in tick g (case e of PollStart _ \<Rightarrow> onStop s1 | PollStop \<Rightarrow> onStop s1 | _ \<Rightarrow> s1))"
    "g = pl_gen (poll_step interval e (get s))" "pl_live (poll_step interval e (get s))"
proof (cases rule: step_starts [of interval e "get s"])
  case 1
  then show thesis using idle by (simp add: host_step_def Let_def)
next
  case 2
  then show thesis using polls by (simp add: host_step_def Let_def)
qed

text \<open>So a client that steps its loop only this way has a loop that is one chain.\<close>

lemma host_loop_inv:
  "loop_inv interval (get s) \<Longrightarrow> loop_inv interval (get (host_step get put tick onStop interval e s))"
  by (simp add: host_step_loop poll_step_inv)

end

end
