(* ===== verification/ClusterSummary.thy ===== *)
theory ClusterSummary
  imports PollHost KubeApi PodSeries Units
begin

text \<open>
  \<^verbatim>\<open>web/src/composables/useClusterSummary.ts\<close> over the polling loop. A refresh is three requests that settle together, by an
  operation that carries its sequence number; a probe likewise. The clock is the loop's. \<^verbatim>\<open>auth.activeContext\<close> is the
  context the watcher last saw: the watcher runs at the end of the operation that changes it.
\<close>

section \<open>Totals of a node list\<close>

record node_totals =
  nt_cores :: rat
  nt_bytes :: rat
  nt_pods :: rat
  nt_ready :: nat
  nt_total :: nat

definition nodeStatus :: "k8s_object \<Rightarrow> json" where
  "nodeStatus node = (case ko_status node of Some j \<Rightarrow> j | None \<Rightarrow> JObj [])"

definition isNodeReady :: "k8s_object \<Rightarrow> bool" where
  "isNodeReady node \<longleftrightarrow>
     (case jget ''conditions'' (nodeStatus node) of
        Some (JArr cs) \<Rightarrow> list_ex (\<lambda>c. jget ''type'' c = Some (JStr ''Ready'') \<and> jget ''status'' c = Some (JStr ''True'')) cs
      | _ \<Rightarrow> False)"

definition quantity_of_json :: "json option \<Rightarrow> quantity option" where
  "quantity_of_json j = (case j of Some (JStr s) \<Rightarrow> Some (QStr s) | Some (JNum n) \<Rightarrow> Some (QNum n) | _ \<Rightarrow> None)"

definition quantityOrZero :: "quantity option \<Rightarrow> rat" where
  "quantityOrZero v = (case parseQuantity v of Some n \<Rightarrow> n | None \<Rightarrow> 0)"

definition allocatable :: "k8s_object \<Rightarrow> jstring \<Rightarrow> rat" where
  "allocatable node name =
     quantityOrZero (quantity_of_json (Option.bind (jget ''allocatable'' (nodeStatus node)) (jget name)))"

definition add_node :: "k8s_object \<Rightarrow> node_totals \<Rightarrow> node_totals" where
  "add_node node t =
     t\<lparr>nt_cores := nt_cores t + allocatable node ''cpu'', nt_bytes := nt_bytes t + allocatable node ''memory'',
       nt_pods := nt_pods t + allocatable node ''pods'', nt_ready := (if isNodeReady node then Suc (nt_ready t) else nt_ready t)\<rparr>"

definition nodeTotals :: "k8s_object list \<Rightarrow> node_totals" where
  "nodeTotals nodes = fold add_node nodes \<lparr>nt_cores = 0, nt_bytes = 0, nt_pods = 0, nt_ready = 0, nt_total = length nodes\<rparr>"

section \<open>State\<close>

record summary =
  su_usedCores :: "rat option"
  su_totalCores :: rat
  su_usedBytes :: "rat option"
  su_totalBytes :: rat
  su_podCount :: "int option"
  su_podCapacity :: rat
  su_ready :: nat
  su_nodes :: nat

text \<open>What a running refresh captured: when it started and which requests it makes. \<open>rf_poll\<close> is the loop's poll it is, if
  any; \<open>rf_context\<close> the cluster it asks.\<close>

record refresh_call =
  rf_started :: nat
  rf_wantNodes :: bool
  rf_wantMetrics :: bool
  rf_poll :: "nat option"
  rf_context :: jstring

text \<open>A probe sent is kept with the loop's generation and the cluster it asks. The last three fields record the cluster the shown data, the cached totals
  and the metrics verdict are from: the one the request they come from was sent to. No operation reads them.\<close>

record cluster_summary =
  cs_loop :: poll_loop
  cs_data :: "summary option"
  cs_available :: bool
  cs_requestSeq :: nat
  cs_cachedNodes :: "node_totals option"
  cs_cachedNodesAtMs :: nat
  cs_metricsUsable :: bool
  cs_gateSeq :: nat
  cs_refreshes :: "(nat \<times> refresh_call) list"
  cs_probes :: "(nat \<times> nat \<times> jstring) list"
  cs_context :: jstring
  cs_dataFrom :: "jstring option"
  cs_nodesFrom :: "jstring option"
  cs_verdictFrom :: "jstring option"

definition NODES_INTERVAL_MS :: nat where "NODES_INTERVAL_MS = 60000"

definition new_summary :: "jstring \<Rightarrow> cluster_summary" where
  "new_summary ctx =
     \<lparr>cs_loop = new_loop, cs_data = None, cs_available = True, cs_requestSeq = 0, cs_cachedNodes = None, cs_cachedNodesAtMs = 0,
      cs_metricsUsable = True, cs_gateSeq = 0, cs_refreshes = [], cs_probes = [], cs_context = ctx,
      cs_dataFrom = None, cs_nodesFrom = None, cs_verdictFrom = None\<rparr>"

section \<open>Refresh\<close>

definition begin_refresh :: "nat option \<Rightarrow> cluster_summary \<Rightarrow> cluster_summary" where
  "begin_refresh poll st =
     (let req = Suc (cs_requestSeq st); startedAtMs = pl_now (cs_loop st);
          wantNodes = (cs_cachedNodes st = None \<or> startedAtMs - cs_cachedNodesAtMs st \<ge> NODES_INTERVAL_MS)
      in st\<lparr>cs_requestSeq := req,
            cs_refreshes := (req, \<lparr>rf_started = startedAtMs, rf_wantNodes = wantNodes, rf_wantMetrics = cs_metricsUsable st,
                                   rf_poll = poll, rf_context = cs_context st\<rparr>) # cs_refreshes st\<rparr>)"

record answers =
  an_nodes :: "thrown + k8s_object list option"
  an_metrics :: "thrown + metrics_item list"
  an_pods :: "thrown + int"

definition used_cores :: "metrics_item list \<Rightarrow> rat" where
  "used_cores items = sum_list (map item_cpu items) / 1000000000"

definition usage :: "refresh_call \<Rightarrow> thrown + metrics_item list \<Rightarrow> (rat \<times> rat) option" where
  "usage call r =
     (if \<not> rf_wantMetrics call then None
      else case r of
             Inl _ \<Rightarrow> None
           | Inr items \<Rightarrow> Some (used_cores items, sum_list (map item_mem items)))"

definition summary_of :: "node_totals \<Rightarrow> (rat \<times> rat) option \<Rightarrow> thrown + int \<Rightarrow> summary" where
  "summary_of totals used pods =
     \<lparr>su_usedCores = map_option fst used, su_totalCores = nt_cores totals, su_usedBytes = map_option snd used,
      su_totalBytes = nt_bytes totals, su_podCount = (case pods of Inl _ \<Rightarrow> None | Inr n \<Rightarrow> Some n),
      su_podCapacity = nt_pods totals, su_ready = nt_ready totals, su_nodes = nt_total totals\<rparr>"

definition show_summary :: "refresh_call \<Rightarrow> answers \<Rightarrow> cluster_summary \<Rightarrow> cluster_summary" where
  "show_summary call r st =
     (case cs_cachedNodes st of
        None \<Rightarrow> st
      | Some totals \<Rightarrow>
          st\<lparr>cs_data := Some (summary_of totals (usage call (an_metrics r)) (an_pods r)), cs_dataFrom := Some (rf_context call)\<rparr>)"

definition apply_refresh :: "nat \<Rightarrow> answers \<Rightarrow> cluster_summary \<Rightarrow> cluster_summary" where
  "apply_refresh req r st =
     (if req \<noteq> cs_requestSeq st then st
      else case map_of (cs_refreshes st) req of
             None \<Rightarrow> st
           | Some call \<Rightarrow>
               if \<not> rf_wantNodes call then show_summary call r st
               else case an_nodes r of
                      Inl _ \<Rightarrow> st\<lparr>cs_available := False\<rparr>
                    | Inr items \<Rightarrow>
                        show_summary call r
                          (st\<lparr>cs_cachedNodes := Some (nodeTotals (case items of Some ns \<Rightarrow> ns | None \<Rightarrow> [])),
                              cs_cachedNodesAtMs := rf_started call, cs_available := True, cs_nodesFrom := Some (rf_context call)\<rparr>))"

section \<open>The loop\<close>

definition onStop :: "cluster_summary \<Rightarrow> cluster_summary" where
  "onStop st = st\<lparr>cs_requestSeq := Suc (cs_requestSeq st), cs_gateSeq := Suc (cs_gateSeq st)\<rparr>"

definition put_loop :: "poll_loop \<Rightarrow> cluster_summary \<Rightarrow> cluster_summary" where
  "put_loop l st = st\<lparr>cs_loop := l\<rparr>"

definition summary_tick :: "nat \<Rightarrow> cluster_summary \<Rightarrow> cluster_summary" where
  "summary_tick g = begin_refresh (Some g)"

definition drive :: "nat \<Rightarrow> poll_event \<Rightarrow> cluster_summary \<Rightarrow> cluster_summary" where
  "drive interval = host_step cs_loop put_loop summary_tick onStop interval"

text \<open>\<^verbatim>\<open>start\<close>: the loop restarts behind its gate, which is the probe.\<close>

definition begin_probe :: "cluster_summary \<Rightarrow> cluster_summary" where
  "begin_probe st =
     (let mine = Suc (cs_gateSeq st) in st\<lparr>cs_gateSeq := mine, cs_probes := (mine, pl_gen (cs_loop st), cs_context st) # cs_probes st\<rparr>)"

definition start_summary :: "nat \<Rightarrow> cluster_summary \<Rightarrow> cluster_summary" where
  "start_summary interval st = begin_probe (drive interval (PollStart True) st)"

definition probe_settles :: "nat \<Rightarrow> nat \<Rightarrow> thrown + capability_state \<Rightarrow> cluster_summary \<Rightarrow> cluster_summary" where
  "probe_settles interval mine r st =
     (case map_of (cs_probes st) mine of
        None \<Rightarrow> st
      | Some (g, asked) \<Rightarrow>
          if mine \<noteq> cs_gateSeq st then drive interval (GateSettles g False) st
          else drive interval (GateSettles g True)
                 (st\<lparr>cs_metricsUsable := (case r of Inl _ \<Rightarrow> True | Inr s \<Rightarrow> s = CapAvailable), cs_verdictFrom := Some asked\<rparr>))"

text \<open>All three requests of a refresh have settled: its writes, then the loop's \<^verbatim>\<open>finally\<close> when the loop ran it.\<close>

definition refresh_settled :: "nat \<Rightarrow> nat \<Rightarrow> answers \<Rightarrow> cluster_summary \<Rightarrow> cluster_summary" where
  "refresh_settled interval req r st =
     (let st1 = apply_refresh req r st
      in case Option.bind (map_of (cs_refreshes st) req) rf_poll of
           None \<Rightarrow> st1
         | Some g \<Rightarrow> drive interval (TickDone g) st1)"

text \<open>The watcher of the active context; \<open>authenticated\<close> is \<^verbatim>\<open>auth.isAuthenticated\<close> under the new one.\<close>

definition context_changed :: "nat \<Rightarrow> jstring \<Rightarrow> bool \<Rightarrow> cluster_summary \<Rightarrow> cluster_summary" where
  "context_changed interval ctx authenticated st =
     (let st1 = drive interval PollStop (st\<lparr>cs_context := ctx\<rparr>);
          st2 = st1\<lparr>cs_data := None, cs_dataFrom := None, cs_cachedNodes := None, cs_cachedNodesAtMs := 0, cs_nodesFrom := None\<rparr>
      in if authenticated then start_summary interval st2 else st2)"

datatype summary_event =
    SStart | SStop | SProbe nat "thrown + capability_state" | SRefreshed nat answers | SDirect
  | STimer bool nat | SVisibility bool | SElapse nat | SContext jstring bool

definition summary_step :: "nat \<Rightarrow> summary_event \<Rightarrow> cluster_summary \<Rightarrow> cluster_summary" where
  "summary_step interval e st =
     (case e of
        SStart \<Rightarrow> start_summary interval st
      | SStop \<Rightarrow> drive interval PollStop st
      | SProbe mine r \<Rightarrow> probe_settles interval mine r st
      | SRefreshed req r \<Rightarrow> refresh_settled interval req r st
      | SDirect \<Rightarrow> begin_refresh None st
      | STimer hidden i \<Rightarrow> drive interval (TimerFired hidden i) st
      | SVisibility hidden \<Rightarrow> drive interval (Visibility hidden) st
      | SElapse d \<Rightarrow> drive interval (Elapse d) st
      | SContext c authenticated \<Rightarrow> context_changed interval c authenticated st)"

definition run_summary :: "nat \<Rightarrow> jstring \<Rightarrow> summary_event list \<Rightarrow> cluster_summary" where
  "run_summary interval ctx es = fold (summary_step interval) es (new_summary ctx)"

interpretation summary_host: poll_client cs_loop put_loop summary_tick onStop
  by unfold_locales (simp_all add: put_loop_def summary_tick_def begin_refresh_def onStop_def Let_def)

section \<open>The invariant\<close>

text \<open>The current refresh asks the current cluster, and asks for the nodes unless they are cached; the current probe asks the current cluster;
  whatever is held is from the current cluster, and a live loop has a verdict from it.\<close>

definition call_ok :: "jstring \<Rightarrow> bool \<Rightarrow> refresh_call option \<Rightarrow> bool" where
  "call_ok c cached x \<longleftrightarrow> (case x of None \<Rightarrow> True | Some call \<Rightarrow> rf_context call = c \<and> (rf_wantNodes call \<or> cached))"

definition probe_ok :: "jstring \<Rightarrow> (nat \<times> jstring) option \<Rightarrow> bool" where
  "probe_ok c x \<longleftrightarrow> (case x of None \<Rightarrow> True | Some (_, asked) \<Rightarrow> asked = c)"

definition summary_inv :: "cluster_summary \<Rightarrow> bool" where
  "summary_inv st \<longleftrightarrow>
     list_all (\<lambda>(req, _). req \<le> cs_requestSeq st) (cs_refreshes st) \<and>
     list_all (\<lambda>(mine, _). mine \<le> cs_gateSeq st) (cs_probes st) \<and>
     probe_ok (cs_context st) (map_of (cs_probes st) (cs_gateSeq st)) \<and>
     call_ok (cs_context st) (cs_cachedNodes st \<noteq> None) (map_of (cs_refreshes st) (cs_requestSeq st)) \<and>
     cs_dataFrom st = map_option (\<lambda>_. cs_context st) (cs_data st) \<and>
     cs_nodesFrom st = map_option (\<lambda>_. cs_context st) (cs_cachedNodes st) \<and>
     (if pl_live (cs_loop st) then cs_verdictFrom st = Some (cs_context st) else True)"

lemma call_ok_simps [simp]:
  "call_ok c cached None" "call_ok c cached (Some call) \<longleftrightarrow> rf_context call = c \<and> (rf_wantNodes call \<or> cached)"
  by (simp_all add: call_ok_def)

lemma probe_ok_simps [simp]: "probe_ok c None" "probe_ok c (Some (g, asked)) \<longleftrightarrow> asked = c"
  by (simp_all add: probe_ok_def)

lemma fresh_key: "list_all (\<lambda>(k, _). k \<le> (n :: nat)) xs \<Longrightarrow> map_of xs (Suc n) = None"
  by (induction xs) (auto simp: case_prod_beta)

lemma le_Suc_keys: "list_all (\<lambda>(k, _). k \<le> (n :: nat)) xs \<Longrightarrow> list_all (\<lambda>(k, _). k \<le> Suc n) xs"
  by (induction xs) auto

lemma inv_begin: "summary_inv st \<Longrightarrow> summary_inv (begin_refresh poll st)"
  by (cases "cs_cachedNodes st") (simp_all add: summary_inv_def begin_refresh_def Let_def le_Suc_keys)

lemma inv_onStop: "summary_inv st \<Longrightarrow> summary_inv (onStop st)"
  by (simp add: summary_inv_def onStop_def le_Suc_keys fresh_key)

lemma inv_loop:
  "summary_inv st \<Longrightarrow> (if pl_live l then cs_verdictFrom st = Some (cs_context st) else True) \<Longrightarrow> summary_inv (put_loop l st)"
  by (simp add: summary_inv_def put_loop_def cong: option.case_cong)

lemma inv_drive:
  assumes "summary_inv st" "if may_go_live e then cs_verdictFrom st = Some (cs_context st) else True"
  shows "summary_inv (drive interval e st)"
proof -
  let ?s = "put_loop (poll_step interval e (cs_loop st)) st"
  have "summary_inv ?s"
    using assms stays_dead [of e interval "cs_loop st"] by (intro inv_loop) (auto simp: summary_inv_def split: if_splits)
  then have s: "summary_inv (case e of PollStart _ \<Rightarrow> onStop ?s | PollStop \<Rightarrow> onStop ?s | _ \<Rightarrow> ?s)"
    by (cases e) (simp_all add: inv_onStop del: poll_step.simps)
  show ?thesis
    by (cases rule: summary_host.host_step_cases [of interval e st]) (simp_all add: drive_def Let_def s inv_begin summary_tick_def)
qed

lemma drive_loop: "cs_loop (drive interval e st) = poll_step interval e (cs_loop st)"
  by (simp add: drive_def summary_host.host_step_loop)

lemma inv_show:
  "summary_inv st \<Longrightarrow> rf_context call = cs_context st \<Longrightarrow> summary_inv (show_summary call r st)"
  by (auto simp: show_summary_def summary_inv_def split: option.split)

lemma inv_apply: "summary_inv st \<Longrightarrow> summary_inv (apply_refresh req r st)"
proof (cases "map_of (cs_refreshes st) (cs_requestSeq st)")
  case (Some call)
  assume inv: "summary_inv st"
  then have c: "rf_context call = cs_context st" using Some by (simp add: summary_inv_def)
  have cache: "summary_inv (st\<lparr>cs_cachedNodes := Some n, cs_cachedNodesAtMs := t, cs_available := True, cs_nodesFrom := Some (rf_context call)\<rparr>)" for n t
    using inv Some c by (simp add: summary_inv_def)
  have "summary_inv (st\<lparr>cs_available := False\<rparr>)" using inv by (simp add: summary_inv_def)
  then show ?thesis using inv Some c
    by (cases "an_nodes r") (auto simp: apply_refresh_def inv_show intro!: inv_show cache [simplified c])
qed (auto simp: apply_refresh_def)

lemma inv_probe: "summary_inv st \<Longrightarrow> summary_inv (begin_probe st)"
  by (simp add: summary_inv_def begin_probe_def Let_def le_Suc_keys)

lemma inv_start: "summary_inv st \<Longrightarrow> summary_inv (start_summary interval st)"
  by (simp add: start_summary_def inv_probe inv_drive may_go_live_def)

lemma inv_settles: "summary_inv st \<Longrightarrow> summary_inv (probe_settles interval mine r st)"
proof -
  assume inv: "summary_inv st"
  show ?thesis
  proof (cases "map_of (cs_probes st) mine")
    case (Some p)
    obtain g asked where p: "p = (g, asked)" by fastforce
    have late: "summary_inv (drive interval (GateSettles g False) st)" using inv by (simp add: inv_drive may_go_live_def)
    have "summary_inv (drive interval (GateSettles g True) (st\<lparr>cs_metricsUsable := b, cs_verdictFrom := Some asked\<rparr>))" if "mine = cs_gateSeq st" for b
    proof -
      have "asked = cs_context st" using inv Some that p by (simp add: summary_inv_def)
      then show ?thesis using inv by (intro inv_drive) (simp_all add: summary_inv_def)
    qed
    then show ?thesis using Some p late by (simp add: probe_settles_def)
  qed (use inv in \<open>simp add: probe_settles_def\<close>)
qed

lemma drive_stop: "drive interval PollStop st = onStop (put_loop (poll_stop (cs_loop st)) st)"
  by (simp add: drive_def host_step_def Let_def)

lemma inv_context: "summary_inv st \<Longrightarrow> summary_inv (context_changed interval c authenticated st)"
proof -
  assume inv: "summary_inv st"
  have "summary_inv ((drive interval PollStop (st\<lparr>cs_context := c\<rparr>))\<lparr>cs_data := None, cs_dataFrom := None, cs_cachedNodes := None,
      cs_cachedNodesAtMs := 0, cs_nodesFrom := None\<rparr>)"
    using inv by (simp add: drive_stop onStop_def put_loop_def summary_inv_def fresh_key le_Suc_keys)
  then show ?thesis by (simp add: context_changed_def Let_def inv_start)
qed

lemma inv_step: "summary_inv st \<Longrightarrow> summary_inv (summary_step interval e st)"
  by (cases e) (auto simp: summary_step_def inv_start inv_settles inv_context inv_begin refresh_settled_def Let_def may_go_live_def
      inv_apply intro!: inv_drive split: option.split)

lemma run_summary_inv: "summary_inv (run_summary interval ctx es)"
proof -
  have "summary_inv st \<Longrightarrow> summary_inv (fold (summary_step interval) es st)" for st
    by (induction es arbitrary: st) (simp_all add: inv_step)
  moreover have "summary_inv (new_summary ctx)" by (simp add: summary_inv_def new_summary_def new_loop_def)
  ultimately show ?thesis by (simp add: run_summary_def)
qed

section \<open>Properties\<close>

text \<open>
  C34. The gauges never mix clusters. However polls, direct refreshes, probes, restarts and context switches interleave, and however late their answers come, the shown summary
  and the cached node totals come from requests sent to the cluster that is active, and while the loop is live so does the verdict on whether
  metrics can be asked for.
\<close>

theorem summary_never_mixes_clusters:
  "let st = run_summary interval ctx es in
   (case cs_data st of None \<Rightarrow> True | Some _ \<Rightarrow> cs_dataFrom st = Some (cs_context st)) \<and>
   (case cs_cachedNodes st of None \<Rightarrow> True | Some _ \<Rightarrow> cs_nodesFrom st = Some (cs_context st)) \<and>
   (if pl_live (cs_loop st) then cs_verdictFrom st = Some (cs_context st) else True)"
  using run_summary_inv [of interval ctx es] by (auto simp: summary_inv_def Let_def split: option.split)

text \<open>
  A current refresh always ends in a summary unless the node list it asked for failed: the guard for missing totals
  is never the branch taken, a skipped node list falls back on cached totals, and a failed usage or pod count is shown as unknown rather than as zero.
\<close>

theorem current_refresh_shows_summary:
  "let st = run_summary interval ctx es; req = cs_requestSeq st; st' = apply_refresh req r st in
   case map_of (cs_refreshes st) req of
     None \<Rightarrow> st' = st
   | Some call \<Rightarrow>
       (case (rf_wantNodes call, an_nodes r) of
          (True, Inl _) \<Rightarrow> \<not> cs_available st' \<and> cs_data st' = cs_data st
        | _ \<Rightarrow> (case cs_data st' of
                   None \<Rightarrow> False
                 | Some d \<Rightarrow>
                     (su_podCount d = None \<longleftrightarrow> (case an_pods r of Inl _ \<Rightarrow> True | Inr _ \<Rightarrow> False)) \<and>
                     (su_usedCores d = None \<longleftrightarrow> \<not> rf_wantMetrics call \<or> (case an_metrics r of Inl _ \<Rightarrow> True | Inr _ \<Rightarrow> False))))"
proof -
  let ?st = "run_summary interval ctx es"
  have inv: "summary_inv ?st" by (rule run_summary_inv)
  show ?thesis
  proof (cases "map_of (cs_refreshes ?st) (cs_requestSeq ?st)")
    case (Some call)
    then have "rf_wantNodes call \<or> cs_cachedNodes ?st \<noteq> None" using inv by (simp add: summary_inv_def)
    then show ?thesis using Some
      by (cases "an_nodes r"; cases "an_metrics r"; cases "an_pods r"; cases "rf_wantMetrics call")
         (auto simp: Let_def apply_refresh_def show_summary_def summary_of_def usage_def split: option.split)
  qed (simp add: apply_refresh_def Let_def)
qed

text \<open>The loop inside is the polling loop: one chain, polls no closer than the interval.\<close>

lemma summary_loop_is_one_chain: "loop_inv interval (cs_loop (run_summary interval ctx es))"
proof -
  have f: "cs_loop (apply_refresh req r st) = cs_loop st" for req r st
    by (simp add: apply_refresh_def show_summary_def split: option.split sum.split)
  have "loop_inv interval (cs_loop st) \<Longrightarrow> loop_inv interval (cs_loop (summary_step interval e st))" for st e
    by (cases e) (simp_all add: summary_step_def start_summary_def begin_probe_def probe_settles_def refresh_settled_def context_changed_def
        begin_refresh_def Let_def drive_loop poll_step_inv f del: poll_step.simps split: option.split)
  then have "loop_inv interval (cs_loop st) \<Longrightarrow> loop_inv interval (cs_loop (fold (summary_step interval) es st))" for st
    by (induction es arbitrary: st) simp_all
  then show ?thesis using run_poll_inv [of interval "[]"] by (simp add: run_summary_def new_summary_def run_poll_def)
qed

text \<open>The summary of a superseded refresh is dropped, whatever happened since.\<close>

lemma seq_apply [simp]: "cs_requestSeq (apply_refresh req r st) = cs_requestSeq st"
  by (simp add: apply_refresh_def show_summary_def split: option.split sum.split)

lemma seq_drive: "cs_requestSeq st \<le> cs_requestSeq (drive interval e st)"
  by (cases rule: summary_host.host_step_cases [of interval e st])
     (simp_all add: drive_def Let_def summary_tick_def begin_refresh_def onStop_def put_loop_def split: poll_event.split)

lemma seq_step: "cs_requestSeq st \<le> cs_requestSeq (summary_step interval e st)"
proof (cases e)
  case (SProbe mine r)
  have "cs_requestSeq st \<le> cs_requestSeq (drive interval x (st\<lparr>cs_metricsUsable := b, cs_verdictFrom := v\<rparr>))" for x b v
    using seq_drive [of "st\<lparr>cs_metricsUsable := b, cs_verdictFrom := v\<rparr>" interval x] by simp
  then show ?thesis using SProbe seq_drive by (simp add: summary_step_def probe_settles_def split: option.split)
next
  case (SRefreshed req r)
  have "cs_requestSeq st \<le> cs_requestSeq (drive interval x (apply_refresh req r st))" for x
    using seq_drive [of "apply_refresh req r st" interval x] by simp
  then show ?thesis using SRefreshed by (simp add: summary_step_def refresh_settled_def Let_def split: option.split)
next
  case (SContext c a)
  let ?s = "(drive interval PollStop (st\<lparr>cs_context := c\<rparr>))\<lparr>cs_data := None, cs_dataFrom := None, cs_cachedNodes := None,
      cs_cachedNodesAtMs := 0, cs_nodesFrom := None\<rparr>"
  have "cs_requestSeq st \<le> cs_requestSeq ?s"
    using seq_drive [of "st\<lparr>cs_context := c\<rparr>" interval PollStop] by simp
  moreover have "cs_requestSeq ?s \<le> cs_requestSeq (drive interval (PollStart True) ?s)" by (rule seq_drive)
  ultimately show ?thesis using SContext
    by (simp add: summary_step_def context_changed_def start_summary_def begin_probe_def Let_def)
qed (auto simp: summary_step_def start_summary_def begin_probe_def begin_refresh_def Let_def seq_drive)

interpretation refresh_guard: generation_guard cs_requestSeq begin_refresh apply_refresh "summary_step interval" for interval
  by unfold_locales (simp_all add: begin_refresh_def Let_def seq_step, simp add: apply_refresh_def)

lemma superseded_refresh_dropped:
  "apply_refresh (cs_requestSeq st) r (fold (refresh_guard.guard_step interval) es (begin_refresh poll st)) =
   fold (refresh_guard.guard_step interval) es (begin_refresh poll st)"
  by (rule refresh_guard.superseded_dropped) simp

text \<open>The totals are the sums over the nodes.\<close>

lemma node_totals_sum:
  "nodeTotals nodes = \<lparr>nt_cores = (\<Sum>n\<leftarrow>nodes. allocatable n ''cpu''), nt_bytes = (\<Sum>n\<leftarrow>nodes. allocatable n ''memory''),
     nt_pods = (\<Sum>n\<leftarrow>nodes. allocatable n ''pods''), nt_ready = length (filter isNodeReady nodes), nt_total = length nodes\<rparr>"
proof -
  have "fold add_node nodes t = t\<lparr>nt_cores := nt_cores t + (\<Sum>n\<leftarrow>nodes. allocatable n ''cpu''),
      nt_bytes := nt_bytes t + (\<Sum>n\<leftarrow>nodes. allocatable n ''memory''), nt_pods := nt_pods t + (\<Sum>n\<leftarrow>nodes. allocatable n ''pods''),
      nt_ready := nt_ready t + length (filter isNodeReady nodes)\<rparr>" for t
    by (induction nodes arbitrary: t) (simp_all add: add_node_def)
  then show ?thesis by (simp add: nodeTotals_def)
qed

end
