(* ===== verification/MetricsPolling.thy ===== *)
theory MetricsPolling
  imports PollHost Http "HOL-Library.AList"
begin

text \<open>
  \<^verbatim>\<open>web/src/composables/useMetricsPolling.ts\<close> over the polling loop. \<open>mp_scope\<close> is what the caller polls (a pod, a node, a
  namespace of a cluster): it rebinds it only together with a \<^verbatim>\<open>start\<close>. A fetch settles by an operation that carries
  its generation and the scope it was made for; \<open>mp_samples\<close> logs the calls of \<^verbatim>\<open>onSample\<close>, with the scope the caller had.
\<close>

datatype metrics_ui_state = UiLoading | UiUserDisabled | UiCapability capability_state

record 'r metrics_polling =
  mp_loop :: poll_loop
  mp_capabilities :: "capability_state option"
  mp_error :: "jstring option"
  mp_userDisabled :: bool
  mp_gateGen :: nat
  mp_hidden :: bool
  mp_enabled :: bool
  mp_probes :: "(nat \<times> nat) list"
  mp_fetches :: "(nat \<times> jstring) list"
  mp_scope :: jstring
  mp_samples :: "(jstring \<times> jstring \<times> 'r) list"
  mp_probedFor :: "jstring option"

definition new_metrics :: "'r metrics_polling" where
  "new_metrics = \<lparr>mp_loop = new_loop, mp_capabilities = None, mp_error = None, mp_userDisabled = False, mp_gateGen = 0, mp_hidden = False,
     mp_enabled = True, mp_probes = [], mp_fetches = [], mp_scope = [], mp_samples = [], mp_probedFor = None\<rparr>"

definition metrics_state :: "'r metrics_polling \<Rightarrow> metrics_ui_state" where
  "metrics_state st =
     (if mp_userDisabled st then UiUserDisabled
      else case mp_capabilities st of None \<Rightarrow> UiLoading | Some c \<Rightarrow> UiCapability c)"

text \<open>\<^verbatim>\<open>tick\<close> up to its \<^verbatim>\<open>await\<close>; in a hidden tab it returns without fetching.\<close>

definition metrics_tick :: "nat \<Rightarrow> 'r metrics_polling \<Rightarrow> 'r metrics_polling" where
  "metrics_tick g st = (if mp_hidden st then st else st\<lparr>mp_fetches := (g, mp_scope st) # mp_fetches st\<rparr>)"

definition metrics_onStop :: "'r metrics_polling \<Rightarrow> 'r metrics_polling" where
  "metrics_onStop st = st\<lparr>mp_gateGen := Suc (mp_gateGen st)\<rparr>"

definition put_metrics :: "poll_loop \<Rightarrow> 'r metrics_polling \<Rightarrow> 'r metrics_polling" where
  "put_metrics l st = st\<lparr>mp_loop := l\<rparr>"

definition drive_metrics :: "nat \<Rightarrow> poll_event \<Rightarrow> 'r metrics_polling \<Rightarrow> 'r metrics_polling" where
  "drive_metrics interval = host_step mp_loop put_metrics metrics_tick metrics_onStop interval"

definition tick_returns :: "nat \<Rightarrow> nat \<Rightarrow> 'r metrics_polling \<Rightarrow> 'r metrics_polling" where
  "tick_returns interval g st = (if g \<in> fst ` set (mp_fetches st) then st else drive_metrics interval (TickDone g) st)"

definition deliver :: "nat \<Rightarrow> jstring \<Rightarrow> thrown + 'r \<Rightarrow> 'r metrics_polling \<Rightarrow> 'r metrics_polling" where
  "deliver g scope r st =
     (if \<not> isCurrent g (mp_loop st) then st
      else case r of
             Inr resp \<Rightarrow> st\<lparr>mp_error := None, mp_samples := (scope, mp_scope st, resp) # mp_samples st\<rparr>
           | Inl e \<Rightarrow> st\<lparr>mp_error := Some (messageFromError e (Some ''metrics request failed''))\<rparr>)"

definition fetch_settles :: "nat \<Rightarrow> nat \<Rightarrow> jstring \<Rightarrow> thrown + 'r \<Rightarrow> 'r metrics_polling \<Rightarrow> 'r metrics_polling" where
  "fetch_settles interval g scope r st =
     (if (g, scope) \<notin> set (mp_fetches st) then st
      else drive_metrics interval (TickDone g) (deliver g scope r (st\<lparr>mp_fetches := remove1 (g, scope) (mp_fetches st)\<rparr>)))"

text \<open>\<^verbatim>\<open>start\<close> with the gate: disabled by the user it is refused at once, else it waits for the probe.\<close>

definition metrics_gate :: "nat \<Rightarrow> 'r metrics_polling \<Rightarrow> 'r metrics_polling" where
  "metrics_gate interval st =
     (let mine = Suc (mp_gateGen st); g = pl_gen (mp_loop st); st1 = st\<lparr>mp_gateGen := mine, mp_userDisabled := False\<rparr>
      in if \<not> mp_enabled st1 then drive_metrics interval (GateSettles g False) (st1\<lparr>mp_userDisabled := True\<rparr>)
         else st1\<lparr>mp_probes := (mine, g) # mp_probes st1\<rparr>)"

definition start_metrics :: "nat \<Rightarrow> jstring \<Rightarrow> 'r metrics_polling \<Rightarrow> 'r metrics_polling" where
  "start_metrics interval scope st = metrics_gate interval (drive_metrics interval (PollStart True) (st\<lparr>mp_scope := scope\<rparr>))"

definition metrics_probed :: "nat \<Rightarrow> nat \<Rightarrow> thrown + capability_state \<Rightarrow> 'r metrics_polling \<Rightarrow> 'r metrics_polling" where
  "metrics_probed interval mine r st =
     (case map_of (mp_probes st) mine of
        None \<Rightarrow> st
      | Some g \<Rightarrow>
          if mine \<noteq> mp_gateGen st then drive_metrics interval (GateSettles g False) st
          else (let probed = (case r of Inl _ \<Rightarrow> CapUnavailable | Inr c \<Rightarrow> c)
                in drive_metrics interval (GateSettles g (probed = CapAvailable))
                     (st\<lparr>mp_capabilities := Some probed, mp_probedFor := Some (mp_scope st), mp_probes := AList.delete mine (mp_probes st)\<rparr>)))"

datatype 'r metrics_event =
    MStart jstring | MStop | MProbed nat "thrown + capability_state" | MFetched nat jstring "thrown + 'r" | MTickReturns nat
  | MTimer nat | MVisibility bool | MElapse nat | MPreference bool

definition metrics_step :: "nat \<Rightarrow> 'r metrics_event \<Rightarrow> 'r metrics_polling \<Rightarrow> 'r metrics_polling" where
  "metrics_step interval e st =
     (case e of
        MStart scope \<Rightarrow> start_metrics interval scope st
      | MStop \<Rightarrow> drive_metrics interval PollStop st
      | MProbed mine r \<Rightarrow> metrics_probed interval mine r st
      | MFetched g scope r \<Rightarrow> fetch_settles interval g scope r st
      | MTickReturns g \<Rightarrow> tick_returns interval g st
      | MTimer i \<Rightarrow> drive_metrics interval (TimerFired (mp_hidden st) i) st
      | MVisibility hidden \<Rightarrow> drive_metrics interval (Visibility hidden) (st\<lparr>mp_hidden := hidden\<rparr>)
      | MElapse d \<Rightarrow> drive_metrics interval (Elapse d) st
      | MPreference b \<Rightarrow> st\<lparr>mp_enabled := b\<rparr>)"

definition run_metrics :: "nat \<Rightarrow> 'r metrics_event list \<Rightarrow> 'r metrics_polling" where
  "run_metrics interval es = fold (metrics_step interval) es new_metrics"

interpretation metrics_host: poll_client mp_loop put_metrics metrics_tick metrics_onStop
  by unfold_locales (simp_all add: put_metrics_def metrics_tick_def metrics_onStop_def)

section \<open>The invariant\<close>

text \<open>A live loop polls a scope whose metrics were found available; a fetch of its generation is for that scope, and so was every sample
  delivered.\<close>

definition ready :: "capability_state option \<Rightarrow> jstring option \<Rightarrow> jstring \<Rightarrow> bool \<Rightarrow> bool" where
  "ready caps probedFor scope disabled \<longleftrightarrow> caps = Some CapAvailable \<and> probedFor = Some scope \<and> \<not> disabled"

definition live_ok :: "bool \<Rightarrow> bool \<Rightarrow> bool" where
  "live_ok live r \<longleftrightarrow> r \<or> \<not> live"

definition gate_ok :: "nat option \<Rightarrow> bool \<Rightarrow> bool \<Rightarrow> bool" where
  "gate_ok probe disabled live \<longleftrightarrow> probe = None \<or> \<not> disabled \<and> \<not> live"

definition fetches_ok :: "nat \<Rightarrow> jstring \<Rightarrow> (nat \<times> jstring) list \<Rightarrow> bool" where
  "fetches_ok n scope fs \<longleftrightarrow> list_all (\<lambda>(g, s). g < n \<or> g = n \<and> s = scope) fs"

definition metrics_inv :: "'r metrics_polling \<Rightarrow> bool" where
  "metrics_inv st \<longleftrightarrow>
     fetches_ok (pl_gen (mp_loop st)) (mp_scope st) (mp_fetches st) \<and>
     list_all (\<lambda>(mine, _). mine \<le> mp_gateGen st) (mp_probes st) \<and>
     list_all (\<lambda>(asked, held, _). asked = held) (mp_samples st) \<and>
     gate_ok (map_of (mp_probes st) (mp_gateGen st)) (mp_userDisabled st) (pl_live (mp_loop st)) \<and>
     live_ok (pl_live (mp_loop st)) (ready (mp_capabilities st) (mp_probedFor st) (mp_scope st) (mp_userDisabled st))"

lemma ok_simps [simp]:
  "live_ok False r" "live_ok live True" "live_ok True r \<longleftrightarrow> r" "gate_ok None d l"
  "gate_ok (Some g) d l \<longleftrightarrow> \<not> d \<and> \<not> l" "fetches_ok n c []" "fetches_ok n c ((n, c) # fs) \<longleftrightarrow> fetches_ok n c fs"
  by (auto simp: live_ok_def gate_ok_def fetches_ok_def)

lemma drive_metrics_loop: "mp_loop (drive_metrics interval e st) = poll_step interval e (mp_loop st)"
  by (simp add: drive_metrics_def metrics_host.host_step_loop)

lemma fetches_newer: "fetches_ok n c fs \<Longrightarrow> n \<le> m \<Longrightarrow> fetches_ok m c fs"
  by (induction fs) (auto simp: fetches_ok_def)

lemma fetches_older: "fetches_ok n c fs \<Longrightarrow> n < m \<Longrightarrow> fetches_ok m c' fs"
  by (induction fs) (auto simp: fetches_ok_def)

lemma fetches_remove: "fetches_ok n c fs \<Longrightarrow> fetches_ok n c (remove1 f fs)"
  using set_remove1_subset [of f fs] by (auto simp: fetches_ok_def list_all_iff)

lemma keys_le: "list_all (\<lambda>(mine, _). mine \<le> (n :: nat)) xs \<Longrightarrow> n \<le> m \<Longrightarrow> list_all (\<lambda>(mine, _). mine \<le> m) xs"
  by (induction xs) auto

lemma keys_fresh: "list_all (\<lambda>(mine, _). mine \<le> (n :: nat)) xs \<Longrightarrow> n < m \<Longrightarrow> map_of xs m = None"
  by (induction xs) (auto simp: case_prod_beta)

lemma metrics_inv_onStop: "metrics_inv st \<Longrightarrow> metrics_inv (metrics_onStop st)"
  by (simp add: metrics_inv_def metrics_onStop_def keys_le [of "mp_gateGen st"] keys_fresh [of "mp_gateGen st"])

lemma metrics_inv_tick: "metrics_inv st \<Longrightarrow> g = pl_gen (mp_loop st) \<Longrightarrow> metrics_inv (metrics_tick g st)"
  by (simp add: metrics_inv_def metrics_tick_def)

text \<open>Stepping the loop: only a gate that lets through needs the metrics to be ready and no probe to be out.\<close>

lemma metrics_inv_drive:
  assumes inv: "metrics_inv st"
    and live: "may_go_live e \<Longrightarrow> ready (mp_capabilities st) (mp_probedFor st) (mp_scope st) (mp_userDisabled st) \<and>
      map_of (mp_probes st) (mp_gateGen st) = None"
  shows "metrics_inv (drive_metrics interval e st)"
proof -
  let ?l = "poll_step interval e (mp_loop st)" and ?s = "put_metrics (poll_step interval e (mp_loop st)) st"
  have f: "fetches_ok (pl_gen ?l) (mp_scope st) (mp_fetches st)"
    using inv poll_step_gen fetches_newer by (auto simp: metrics_inv_def)
  have l: "live_ok (pl_live ?l) (ready (mp_capabilities st) (mp_probedFor st) (mp_scope st) (mp_userDisabled st)) \<and>
      gate_ok (map_of (mp_probes st) (mp_gateGen st)) (mp_userDisabled st) (pl_live ?l)"
  proof (cases "may_go_live e")
    case False
    then have "pl_live ?l \<Longrightarrow> pl_live (mp_loop st)" by (rule stays_dead)
    then show ?thesis using inv by (auto simp: metrics_inv_def live_ok_def gate_ok_def)
  qed (simp add: live)
  have "metrics_inv ?s" using inv f l by (simp add: metrics_inv_def put_metrics_def)
  then have s: "metrics_inv (case e of PollStart _ \<Rightarrow> metrics_onStop ?s | PollStop \<Rightarrow> metrics_onStop ?s | _ \<Rightarrow> ?s)"
    by (cases e) (simp_all add: metrics_inv_onStop del: poll_step.simps)
  have "mp_loop (case e of PollStart _ \<Rightarrow> metrics_onStop ?s | PollStop \<Rightarrow> metrics_onStop ?s | _ \<Rightarrow> ?s) = ?l"
    by (cases e) (simp_all add: metrics_onStop_def put_metrics_def)
  then show ?thesis using s
    by (cases rule: metrics_host.host_step_cases [of interval e st]) (simp_all add: drive_metrics_def Let_def metrics_inv_tick)
qed

lemma metrics_inv_idle: "metrics_inv st \<Longrightarrow> \<not> may_go_live e \<Longrightarrow> metrics_inv (drive_metrics interval e st)"
  by (rule metrics_inv_drive) auto

lemma metrics_inv_start:
  assumes inv: "metrics_inv st"
  shows "metrics_inv (start_metrics interval scope st)"
proof -
  let ?l = "poll_start True (mp_loop st)"
  let ?d = "st\<lparr>mp_scope := scope, mp_loop := ?l, mp_gateGen := Suc (mp_gateGen st)\<rparr>"
  have d: "drive_metrics interval (PollStart True) (st\<lparr>mp_scope := scope\<rparr>) = ?d"
    by (simp add: drive_metrics_def host_step_def Let_def poll_start_def metrics_onStop_def put_metrics_def)
  have dead: "pl_live ?l = False" "pl_gen ?l = Suc (Suc (pl_gen (mp_loop st)))" by (simp_all add: poll_start_def Let_def)
  have f: "fetches_ok (Suc (Suc (pl_gen (mp_loop st)))) scope (mp_fetches st)"
    using inv fetches_older by (auto simp: metrics_inv_def)
  have keys: "list_all (\<lambda>(mine, _). mine \<le> Suc (Suc (mp_gateGen st))) (mp_probes st)" "map_of (mp_probes st) (Suc (Suc (mp_gateGen st))) = None"
    using inv by (simp_all add: metrics_inv_def keys_le [of "mp_gateGen st"] keys_fresh [of "mp_gateGen st"])
  have "metrics_inv (?d\<lparr>mp_gateGen := Suc (Suc (mp_gateGen st)), mp_userDisabled := True\<rparr>)"
    "metrics_inv (?d\<lparr>mp_gateGen := Suc (Suc (mp_gateGen st)), mp_userDisabled := False,
       mp_probes := (Suc (Suc (mp_gateGen st)), pl_gen ?l) # mp_probes st\<rparr>)"
    using inv f dead keys by (simp_all add: metrics_inv_def)
  then show ?thesis
    by (simp add: start_metrics_def d metrics_gate_def Let_def metrics_inv_idle may_go_live_def)
qed

lemma metrics_inv_probed:
  assumes inv: "metrics_inv st"
  shows "metrics_inv (metrics_probed interval mine r st)"
proof (cases "map_of (mp_probes st) mine")
  case (Some g)
  show ?thesis
  proof (cases "mine = mp_gateGen st")
    case True
    have dead: "\<not> mp_userDisabled st" "\<not> pl_live (mp_loop st)" using inv Some True by (simp_all add: metrics_inv_def)
    have keys: "list_all (\<lambda>(mine, _). mine \<le> mp_gateGen st) (AList.delete mine (mp_probes st))"
      using inv by (auto simp: metrics_inv_def list_all_iff AList.delete_eq)
    have gone: "map_of (AList.delete mine (mp_probes st)) mine = None" by (simp add: delete_conv')
    let ?s = "\<lambda>c. st\<lparr>mp_capabilities := c, mp_probedFor := Some (mp_scope st), mp_probes := AList.delete mine (mp_probes st)\<rparr>"
    have s: "metrics_inv (?s c)" for c using inv dead keys gone True by (simp add: metrics_inv_def)
    have "metrics_inv (drive_metrics interval (GateSettles g (c = CapAvailable)) (?s (Some c)))" for c
      by (rule metrics_inv_drive [OF s]) (use dead gone True in \<open>simp add: may_go_live_def ready_def\<close>)
    then show ?thesis using Some True by (simp add: metrics_probed_def Let_def)
  qed (use inv Some in \<open>simp add: metrics_probed_def metrics_inv_idle may_go_live_def\<close>)
qed (simp add: metrics_probed_def inv)

lemma metrics_inv_fetched:
  assumes inv: "metrics_inv st"
  shows "metrics_inv (fetch_settles interval g scope r st)"
proof (cases "(g, scope) \<in> set (mp_fetches st)")
  case True
  have own: "scope = mp_scope st" if "isCurrent g (mp_loop st)"
    using inv True that by (force simp: metrics_inv_def fetches_ok_def list_all_iff isCurrent_def)
  have "metrics_inv (st\<lparr>mp_fetches := remove1 (g, scope) (mp_fetches st)\<rparr>)"
    using inv fetches_remove by (simp add: metrics_inv_def)
  then have "metrics_inv (deliver g scope r (st\<lparr>mp_fetches := remove1 (g, scope) (mp_fetches st)\<rparr>))"
    using own by (cases r) (auto simp: deliver_def metrics_inv_def)
  then show ?thesis by (simp add: fetch_settles_def metrics_inv_idle may_go_live_def inv)
qed (simp add: fetch_settles_def inv)

lemma metrics_inv_step: "metrics_inv st \<Longrightarrow> metrics_inv (metrics_step interval e st)"
proof -
  have "metrics_inv (st\<lparr>mp_hidden := h\<rparr>)" "metrics_inv (st\<lparr>mp_enabled := b\<rparr>)" if "metrics_inv st" for h b
    using that by (simp_all add: metrics_inv_def)
  then show "metrics_inv st \<Longrightarrow> metrics_inv (metrics_step interval e st)"
    by (cases e) (simp_all add: metrics_step_def metrics_inv_start metrics_inv_probed metrics_inv_fetched tick_returns_def
        metrics_inv_idle may_go_live_def)
qed

lemma metrics_inv_new: "metrics_inv new_metrics"
  by (simp add: metrics_inv_def new_metrics_def new_loop_def)

lemma run_metrics_inv: "metrics_inv (run_metrics interval es)"
proof -
  have "metrics_inv st \<Longrightarrow> metrics_inv (fold (metrics_step interval) es st)" for st
    by (induction es arbitrary: st) (simp_all add: metrics_inv_step)
  then show ?thesis by (simp add: run_metrics_def metrics_inv_new)
qed

text \<open>What a step leaves alone: only a start changes the scope, and at most the answer of a live fetch is delivered, to the scope held.\<close>

lemma drive_metrics_frame [simp]:
  "mp_scope (drive_metrics interval e st) = mp_scope st" "mp_samples (drive_metrics interval e st) = mp_samples st"
  by (cases rule: metrics_host.host_step_cases [of interval e st];
      cases e; simp add: drive_metrics_def Let_def put_metrics_def metrics_onStop_def metrics_tick_def del: poll_step.simps)+

definition starts :: "'r metrics_event \<Rightarrow> bool" where
  "starts e \<longleftrightarrow> (case e of MStart _ \<Rightarrow> True | _ \<Rightarrow> False)"

lemma metrics_step_frame:
  assumes "\<not> starts e"
  shows "mp_scope (metrics_step interval e st) = mp_scope st"
    and "\<exists>xs. mp_samples (metrics_step interval e st) = xs @ mp_samples st \<and> list_all (\<lambda>x. fst (snd x) = mp_scope st) xs"
  using assms
  by (cases e; simp add: starts_def metrics_step_def metrics_probed_def tick_returns_def fetch_settles_def deliver_def Let_def
      split: option.split sum.split; fail)+

section \<open>Properties\<close>

text \<open>
  A chart gets only its own samples, and polls only what can be polled. However starts for other scopes, stops, hidden tabs,
  late probes and late responses interleave, every sample was delivered while the caller held the scope it was
  fetched for, and a live loop means metrics are enabled and were found available for that scope.
\<close>

theorem samples_reach_their_scope:
  "let st = run_metrics interval es in
   list_all (\<lambda>(asked, held, _). asked = held) (mp_samples st) \<and>
   (if pl_live (mp_loop st) then metrics_state st = UiCapability CapAvailable \<and> mp_probedFor st = Some (mp_scope st) else True)"
  using run_metrics_inv [of interval es]
  by (auto simp: Let_def metrics_inv_def ready_def metrics_state_def live_ok_def)

lemma metrics_loop_is_one_chain: "loop_inv interval (mp_loop (run_metrics interval (es :: 'r metrics_event list)))"
proof -
  have d: "mp_loop (deliver g scope r st) = mp_loop st" for g scope r and st :: "'r metrics_polling"
    by (simp add: deliver_def split: sum.split)
  have step: "loop_inv interval (mp_loop st) \<Longrightarrow> loop_inv interval (mp_loop (metrics_step interval e st))" for e and st :: "'r metrics_polling"
    by (cases e) (simp_all add: metrics_step_def start_metrics_def metrics_gate_def metrics_probed_def fetch_settles_def tick_returns_def
        Let_def drive_metrics_loop poll_step_inv d del: poll_step.simps split: option.split)
  have "loop_inv interval (mp_loop st) \<Longrightarrow> loop_inv interval (mp_loop (fold (metrics_step interval) es st))" for es and st :: "'r metrics_polling"
    by (induction es arbitrary: st) (simp_all add: step)
  then show ?thesis using run_poll_inv [of interval "[]"] by (simp add: run_metrics_def new_metrics_def run_poll_def)
qed

end
