(* ===== verification/Base64.thy ===== *)
theory Base64
  imports Prelude
begin

text \<open>
  \<^verbatim>\<open>web/src/utils/base64.ts\<close> with the runtime's \<^verbatim>\<open>atob\<close>, \<^verbatim>\<open>btoa\<close>, \<^verbatim>\<open>TextEncoder\<close> and \<^verbatim>\<open>TextDecoder\<close> (fatal, keeping a byte-order mark). A text is
  its list of code points, so a character outside the basic plane is one element and a lone surrogate is an element of
  its own; bytes are naturals below 256.
\<close>

type_synonym code_points = "nat list"
type_synonym bytes = "nat list"

definition is_bytes :: "bytes \<Rightarrow> bool" where
  "is_bytes bs \<longleftrightarrow> list_all (\<lambda>b. b < 256) bs"

definition ascii :: "jstring \<Rightarrow> code_points" where
  "ascii s = map (\<lambda>c. code c) s"

section \<open>Base64\<close>

definition b64_char :: "nat \<Rightarrow> nat" where
  "b64_char i = (if i < 26 then 65 + i else if i < 52 then 71 + i else if i < 62 then i - 4 else if i = 62 then 43 else 47)"

definition b64_value :: "nat \<Rightarrow> nat option" where
  "b64_value c =
     (if 65 \<le> c \<and> c \<le> 90 then Some (c - 65) else if 97 \<le> c \<and> c \<le> 122 then Some (c - 71)
      else if 48 \<le> c \<and> c \<le> 57 then Some (c + 4) else if c = 43 then Some 62 else if c = 47 then Some 63 else None)"

definition PAD :: nat where "PAD = 61"

fun btoa :: "bytes \<Rightarrow> code_points" where
  "btoa (a # b # c # rest) =
     [b64_char (a div 4), b64_char (a mod 4 * 16 + b div 16), b64_char (b mod 16 * 4 + c div 64), b64_char (c mod 64)] @ btoa rest"
| "btoa [a, b] = [b64_char (a div 4), b64_char (a mod 4 * 16 + b div 16), b64_char (b mod 16 * 4), PAD]"
| "btoa [a] = [b64_char (a div 4), b64_char (a mod 4 * 16), PAD, PAD]"
| "btoa [] = []"

text \<open>\<^verbatim>\<open>atob\<close>: white space is dropped, then at most two padding characters of a length divisible by four; a remainder of one or a character outside
  the alphabet is refused, and the bits left over are discarded.\<close>

definition b64_space :: "nat \<Rightarrow> bool" where
  "b64_space c \<longleftrightarrow> c \<in> {9, 10, 12, 13, 32}"

definition strip_pad :: "code_points \<Rightarrow> code_points" where
  "strip_pad s =
     (if length s mod 4 \<noteq> 0 \<or> s = [] \<or> last s \<noteq> PAD then s
      else let t = butlast s in if t \<noteq> [] \<and> last t = PAD then butlast t else t)"

fun sextets :: "code_points \<Rightarrow> nat list option" where
  "sextets [] = Some []"
| "sextets (c # cs) = (case (b64_value c, sextets cs) of (Some v, Some vs) \<Rightarrow> Some (v # vs) | _ \<Rightarrow> None)"

fun regroup :: "nat list \<Rightarrow> bytes" where
  "regroup (a # b # c # d # rest) = [a * 4 + b div 16, b mod 16 * 16 + c div 4, c mod 4 * 64 + d] @ regroup rest"
| "regroup [a, b, c] = [a * 4 + b div 16, b mod 16 * 16 + c div 4]"
| "regroup [a, b] = [a * 4 + b div 16]"
| "regroup _ = []"

definition atob :: "code_points \<Rightarrow> bytes option" where
  "atob s =
     (let t = strip_pad (filter (\<lambda>c. \<not> b64_space c) s)
      in if length t mod 4 = 1 then None else map_option regroup (sextets t))"

definition base64ToBytes :: "code_points \<Rightarrow> bytes option" where
  "base64ToBytes b64 = atob b64"

definition CHUNK :: nat where "CHUNK = 0x8000"

function binary_string :: "bytes \<Rightarrow> code_points" where
  "binary_string bs = (if bs = [] then [] else take CHUNK bs @ binary_string (drop CHUNK bs))"
  by pat_completeness auto
termination by (relation "measure length") (auto simp: CHUNK_def)

declare binary_string.simps [simp del]

definition bytesToBase64 :: "bytes \<Rightarrow> code_points" where
  "bytesToBase64 bs = btoa (binary_string bs)"

lemma chunks_are_whole [simp]: "binary_string bs = bs"
proof (induction bs rule: binary_string.induct)
  case (1 bs)
  then show ?case by (subst binary_string.simps) auto
qed

lemma b64_value_char: "i < 64 \<Longrightarrow> b64_value (b64_char i) = Some i"
  by (auto simp: b64_value_def b64_char_def)

lemma b64_char_plain: "i < 64 \<Longrightarrow> \<not> b64_space (b64_char i) \<and> b64_char i \<noteq> PAD"
  by (auto simp: b64_char_def b64_space_def PAD_def)

lemma sextets_chars: "list_all (\<lambda>i. i < 64) vs \<Longrightarrow> sextets (map b64_char vs) = Some vs"
  by (induction vs) (auto simp: b64_value_char)

text \<open>The characters of an encoding before the padding, as sextets.\<close>

fun btoa_sextets :: "bytes \<Rightarrow> nat list" where
  "btoa_sextets (a # b # c # rest) = [a div 4, a mod 4 * 16 + b div 16, b mod 16 * 4 + c div 64, c mod 64] @ btoa_sextets rest"
| "btoa_sextets [a, b] = [a div 4, a mod 4 * 16 + b div 16, b mod 16 * 4]"
| "btoa_sextets [a] = [a div 4, a mod 4 * 16]"
| "btoa_sextets [] = []"

definition pads :: "bytes \<Rightarrow> nat" where
  "pads bs = (if length bs mod 3 = 1 then 2 else if length bs mod 3 = 2 then 1 else 0)"

lemma pads_simps [simp]: "pads (a # b # c # rest) = pads rest" "pads [a, b] = 1" "pads [a] = 2" "pads [] = 0"
  by (simp_all add: pads_def)

lemma btoa_split: "btoa bs = map b64_char (btoa_sextets bs) @ replicate (pads bs) PAD"
  by (induction bs rule: btoa.induct) (simp_all add: numeral_2_eq_2)

lemma sextets_small: "is_bytes bs \<Longrightarrow> list_all (\<lambda>i. i < 64) (btoa_sextets bs)"
  by (induction bs rule: btoa_sextets.induct) (auto simp: is_bytes_def)

lemma sextets_length:
  "length (btoa_sextets bs) + pads bs = 4 * ((length bs + 2) div 3)" "length (btoa_sextets bs) mod 4 \<noteq> 1" "pads bs \<le> 2"
proof (induction bs rule: btoa_sextets.induct)
  case (1 a b c rest)
  have "(length (a # b # c # rest) + 2) div 3 = Suc ((length rest + 2) div 3)"
    using div_add_self2 [of 3 "length rest + 2"] by simp
  {
    case 1
    then show ?case using \<open>(length (a # b # c # rest) + 2) div 3 = _\<close> "1.IH" by simp
  next
    case 2
    then show ?case using "1.IH" by simp
  next
    case 3
    then show ?case using "1.IH" by simp
  }
qed simp_all

lemma digits_join: "(y :: nat) < k \<Longrightarrow> (x * k + y) div k = x" "y < k \<Longrightarrow> (x * k + y) mod k = y"
  by simp_all

lemma regroup_sextets: "is_bytes bs \<Longrightarrow> regroup (btoa_sextets bs) = bs"
proof (induction bs rule: btoa_sextets.induct)
  case (1 a b c rest)
  have "a div 4 * 4 + (a mod 4 * 16 + b div 16) div 16 = a" "(a mod 4 * 16 + b div 16) mod 16 * 16 + (b mod 16 * 4 + c div 64) div 4 = b"
    "(b mod 16 * 4 + c div 64) mod 4 * 64 + c mod 64 = c"
    using 1(2) by (simp_all add: is_bytes_def digits_join less_mult_imp_div_less)
  then show ?case using 1 by (simp add: is_bytes_def)
next
  case (2 a b)
  have "a div 4 * 4 + (a mod 4 * 16 + b div 16) div 16 = a" "(a mod 4 * 16 + b div 16) mod 16 * 16 + (b mod 16 * 4) div 4 = b"
    using 2 by (simp_all add: is_bytes_def digits_join less_mult_imp_div_less)
  then show ?case by simp
next
  case (3 a)
  then show ?case by (simp add: is_bytes_def)
qed simp

lemma strip_pads:
  assumes "n \<le> 2" "PAD \<notin> set s" "(length s + n) mod 4 = 0"
  shows "strip_pad (s @ replicate n PAD) = s"
proof -
  consider "n = 0" | "n = 1" | "n = 2" using assms(1) by linarith
  then show ?thesis
  proof cases
    case 1
    then show ?thesis using assms(2) by (cases "s = []") (auto simp: strip_pad_def dest: last_in_set)
  next
    case 2
    then show ?thesis using assms by (cases "s = []") (auto simp: strip_pad_def Let_def dest: last_in_set)
  next
    case 3
    then have "s @ replicate n PAD = (s @ [PAD]) @ [PAD]" by (simp add: numeral_2_eq_2)
    then show ?thesis using assms(3) 3 by (simp add: strip_pad_def Let_def butlast_append)
  qed
qed

lemma base64_decodes: "is_bytes bs \<Longrightarrow> base64ToBytes (bytesToBase64 bs) = Some bs"
proof -
  assume bs: "is_bytes bs"
  let ?s = "map b64_char (btoa_sextets bs)"
  have small: "list_all (\<lambda>i. i < 64) (btoa_sextets bs)" using bs by (rule sextets_small)
  have plain: "filter (\<lambda>c. \<not> b64_space c) (btoa bs) = btoa bs"
  proof -
    have "\<not> b64_space PAD" by (simp add: PAD_def b64_space_def)
    then show ?thesis using small b64_char_plain by (auto simp: btoa_split filter_id_conv list_all_iff)
  qed
  have "strip_pad (btoa bs) = ?s"
    unfolding btoa_split
  proof (rule strip_pads)
    show "PAD \<notin> set ?s" using small b64_char_plain by (force simp: list_all_iff)
  qed (simp_all add: sextets_length)
  then show ?thesis
    using plain small sextets_length [of bs] bs
    by (simp add: base64ToBytes_def bytesToBase64_def atob_def sextets_chars regroup_sextets)
qed

text \<open>
  Base64 loses no byte: decoding what was encoded gives back exactly the bytes, whatever their number modulo three
  and however many chunks the encoder works in, and the encoding is padded to four characters for every three bytes.
\<close>

theorem base64_roundtrip:
  "is_bytes bs \<Longrightarrow> base64ToBytes (bytesToBase64 bs) = Some bs \<and> length (bytesToBase64 bs) = 4 * ((length bs + 2) div 3)"
  using sextets_length(1) [of bs] by (simp add: base64_decodes) (simp add: bytesToBase64_def btoa_split)

theorem base64_roundtrip_witness:
  "base64ToBytes (bytesToBase64 [0, 255, 16, 77]) = Some [0, 255, 16, 77]"
  using base64_roundtrip [of "[0, 255, 16, 77]"] by (simp add: is_bytes_def)

section \<open>UTF-8\<close>

definition is_surrogate :: "nat \<Rightarrow> bool" where
  "is_surrogate c \<longleftrightarrow> 0xD800 \<le> c \<and> c \<le> 0xDFFF"

definition is_scalar :: "nat \<Rightarrow> bool" where
  "is_scalar c \<longleftrightarrow> c \<le> 0x10FFFF \<and> \<not> is_surrogate c"

definition utf8_char :: "nat \<Rightarrow> bytes" where
  "utf8_char c =
     (if c < 0x80 then [c]
      else if c < 0x800 then [0xC0 + c div 64, 0x80 + c mod 64]
      else if c < 0x10000 then [0xE0 + c div 4096, 0x80 + c div 64 mod 64, 0x80 + c mod 64]
      else [0xF0 + c div 262144, 0x80 + c div 4096 mod 64, 0x80 + c div 64 mod 64, 0x80 + c mod 64])"

text \<open>\<^verbatim>\<open>TextEncoder\<close>: a lone surrogate is encoded as the replacement character.\<close>

definition utf8_encode :: "code_points \<Rightarrow> bytes" where
  "utf8_encode s = concat (map (\<lambda>c. utf8_char (if is_surrogate c then 0xFFFD else c)) s)"

definition continuation :: "nat \<Rightarrow> nat \<Rightarrow> nat \<Rightarrow> bool" where
  "continuation lo hi b \<longleftrightarrow> lo \<le> b \<and> b \<le> hi"

text \<open>The fatal decoder: a second byte is bounded so that nothing overlong, no surrogate and nothing above the last plane is accepted.\<close>

fun utf8_decode :: "bytes \<Rightarrow> code_points option" where
  "utf8_decode [] = Some []"
| "utf8_decode (b # rest) =
     (if b < 0x80 then map_option (Cons b) (utf8_decode rest)
      else if 0xC2 \<le> b \<and> b \<le> 0xDF then
        (case rest of
           x # r \<Rightarrow> if continuation 0x80 0xBF x then map_option (Cons ((b - 0xC0) * 64 + (x - 0x80))) (utf8_decode r) else None
         | _ \<Rightarrow> None)
      else if 0xE0 \<le> b \<and> b \<le> 0xEF then
        (case rest of
           x # y # r \<Rightarrow>
             if continuation (if b = 0xE0 then 0xA0 else 0x80) (if b = 0xED then 0x9F else 0xBF) x \<and> continuation 0x80 0xBF y
             then map_option (Cons ((b - 0xE0) * 4096 + (x - 0x80) * 64 + (y - 0x80))) (utf8_decode r) else None
         | _ \<Rightarrow> None)
      else if 0xF0 \<le> b \<and> b \<le> 0xF4 then
        (case rest of
           x # y # z # r \<Rightarrow>
             if continuation (if b = 0xF0 then 0x90 else 0x80) (if b = 0xF4 then 0x8F else 0xBF) x \<and> continuation 0x80 0xBF y \<and>
                continuation 0x80 0xBF z
             then map_option (Cons ((b - 0xF0) * 262144 + (x - 0x80) * 4096 + (y - 0x80) * 64 + (z - 0x80))) (utf8_decode r) else None
         | _ \<Rightarrow> None)
      else None)"

declare utf8_decode.simps(2) [simp del]

definition utf8OrNull :: "bytes \<Rightarrow> code_points option" where
  "utf8OrNull bs = utf8_decode bs"

definition encodeBase64Utf8 :: "code_points \<Rightarrow> code_points" where
  "encodeBase64Utf8 s = bytesToBase64 (utf8_encode s)"

definition CANNOT_DECODE :: code_points where
  "CANNOT_DECODE = ascii ''(binary data '' @ [8212] @ ascii '' cannot decode as text)''"

definition decodeBase64Utf8 :: "code_points \<Rightarrow> code_points" where
  "decodeBase64Utf8 b64 =
     (case base64ToBytes b64 of
        None \<Rightarrow> CANNOT_DECODE
      | Some bs \<Rightarrow> (case utf8OrNull bs of Some s \<Rightarrow> s | None \<Rightarrow> CANNOT_DECODE))"

text \<open>One character: decoding its bytes gives it back, and what the decoder accepts are the bytes of a character.\<close>

lemma decode_char: "is_scalar c \<Longrightarrow> utf8_decode (utf8_char c @ rest) = map_option (Cons c) (utf8_decode rest)"
proof -
  assume c: "is_scalar c"
  consider "c < 0x80" | "0x80 \<le> c" "c < 0x800" | "0x800 \<le> c" "c < 0x10000" | "0x10000 \<le> c" by linarith
  then show ?thesis
  proof cases
    case 1
    then show ?thesis by (simp add: utf8_char_def utf8_decode.simps(2))
  next
    case 2
    obtain y z where d: "c div 64 = y" "c mod 64 = z" by blast
    have cz: "c = y * 64 + z" "z < 64" using div_mult_mod_eq [of c 64] d by simp_all
    have "2 \<le> y" "y \<le> 31" using 2 cz by auto
    then show ?thesis using 2 cz(2) by (simp add: utf8_char_def d utf8_decode.simps(2) continuation_def) (simp add: cz(1))
  next
    case 3
    obtain x y z where d: "c div 4096 = x" "c div 64 mod 64 = y" "c mod 64 = z" by blast
    have cz: "c = x * 4096 + y * 64 + z" "y < 64" "z < 64"
      using div_mult_mod_eq [of c 64] div_mult_mod_eq [of "c div 64" 64] d by (simp_all add: div_mult2_eq [symmetric])
    have "x \<le> 15" "x = 0 \<Longrightarrow> 32 \<le> y" "x = 13 \<Longrightarrow> y \<le> 31"
      using 3 c cz by (auto simp: is_scalar_def is_surrogate_def)
    then show ?thesis using 3 cz(2,3) by (simp add: utf8_char_def d utf8_decode.simps(2) continuation_def) (simp add: cz(1))
  next
    case 4
    obtain w x y z where d: "c div 262144 = w" "c div 4096 mod 64 = x" "c div 64 mod 64 = y" "c mod 64 = z" by blast
    have "x < 64" "y < 64" "z < 64" by (simp_all add: d [symmetric])
    moreover have "c = w * 262144 + x * 4096 + y * 64 + z"
      using div_mult_mod_eq [of c 64] div_mult_mod_eq [of "c div 64" 64] div_mult_mod_eq [of "c div 4096" 64] d
      by (simp add: div_mult2_eq [symmetric])
    ultimately have cz: "c = w * 262144 + x * 4096 + y * 64 + z" "x < 64" "y < 64" "z < 64" by simp_all
    have "w \<le> 4" "w = 0 \<Longrightarrow> 16 \<le> x" "w = 4 \<Longrightarrow> x \<le> 15"
      using 4 c cz by (auto simp: is_scalar_def)
    then show ?thesis using 4 cz(2-) by (simp add: utf8_char_def d utf8_decode.simps(2) continuation_def) (simp add: cz(1))
  qed
qed

lemma utf8_decode_encode: "list_all is_scalar s \<Longrightarrow> utf8_decode (utf8_encode s) = Some s"
  by (induction s) (auto simp: utf8_encode_def decode_char is_scalar_def)

text \<open>What the decoder accepts is the encoding of what it returns, and holds no surrogate.\<close>

lemma char2: "2 \<le> p \<Longrightarrow> p < 32 \<Longrightarrow> q < 64 \<Longrightarrow> utf8_char (p * 64 + q) = [0xC0 + p, 0x80 + q] \<and> is_scalar (p * 64 + q)"
  by (auto simp: utf8_char_def is_scalar_def is_surrogate_def digits_join)

lemma char3:
  assumes "p < 16" "q < 64" "r < 64" "p = 0 \<Longrightarrow> 32 \<le> q" "p = 13 \<Longrightarrow> q < 32"
  shows "utf8_char (p * 4096 + q * 64 + r) = [0xE0 + p, 0x80 + q, 0x80 + r] \<and> is_scalar (p * 4096 + q * 64 + r)"
proof -
  let ?c = "p * 4096 + q * 64 + r"
  have c: "?c = (p * 64 + q) * 64 + r" "?c = p * 4096 + (q * 64 + r)" by simp_all
  have "?c div 64 = p * 64 + q" "?c mod 64 = r" unfolding c(1) using assms(3) by (rule digits_join)+
  moreover have "?c div 4096 = p" using digits_join(1) [of "q * 64 + r" 4096 p] c(2) assms by simp
  moreover have "0x800 \<le> ?c" using assms(4) by (cases "p = 0") auto
  moreover have "?c < 0x10000" using assms(1-3) by simp
  moreover have "\<not> is_surrogate ?c"
  proof -
    consider "p \<le> 12" | "p = 13" | "14 \<le> p" by linarith
    then show ?thesis using assms(2,3,5) by cases (simp_all add: is_surrogate_def)
  qed
  ultimately show ?thesis using digits_join(2) [OF assms(2), of p] by (simp add: utf8_char_def is_scalar_def)
qed

lemma char4:
  assumes "p < 5" "q < 64" "r < 64" "t < 64" "p = 0 \<Longrightarrow> 16 \<le> q" "p = 4 \<Longrightarrow> q < 16"
  shows "utf8_char (p * 262144 + q * 4096 + r * 64 + t) = [0xF0 + p, 0x80 + q, 0x80 + r, 0x80 + t] \<and>
    is_scalar (p * 262144 + q * 4096 + r * 64 + t)"
proof -
  let ?c = "p * 262144 + q * 4096 + r * 64 + t"
  have c: "?c = ((p * 64 + q) * 64 + r) * 64 + t" "?c = (p * 64 + q) * 4096 + (r * 64 + t)" "?c = p * 262144 + (q * 4096 + r * 64 + t)" by simp_all
  have "?c div 64 = (p * 64 + q) * 64 + r" "?c mod 64 = t" unfolding c(1) using assms(4) by (rule digits_join)+
  moreover have "?c div 4096 = p * 64 + q" using digits_join(1) [of "r * 64 + t" 4096 "p * 64 + q"] c(2) assms by simp
  moreover have "?c div 262144 = p" using digits_join(1) [of "q * 4096 + r * 64 + t" 262144 p] c(3) assms by simp
  moreover have low: "0x10000 \<le> ?c" using assms(5) by (cases "p = 0") auto
  moreover have "?c \<le> 0x10FFFF"
  proof (cases "p = 4")
    case True
    then show ?thesis using assms(3,4,6) by simp
  next
    case False
    then have "p \<le> 3" using assms(1) by simp
    then show ?thesis using assms(2-4) by simp
  qed
  moreover have "\<not> is_surrogate ?c" using low by (simp add: is_surrogate_def)
  ultimately show ?thesis using digits_join(2) [OF assms(2), of p] digits_join(2) [OF assms(3), of "p * 64 + q"]
    by (simp add: utf8_char_def is_scalar_def)
qed

lemma encode_Cons: "is_scalar c \<Longrightarrow> utf8_encode (c # s) = utf8_char c @ utf8_encode s"
  by (simp add: utf8_encode_def is_scalar_def)

lemma encode_decoded: "utf8_decode bs = Some s \<Longrightarrow> utf8_encode s = bs \<and> list_all is_scalar s"
proof (induction bs arbitrary: s rule: length_induct)
  case (1 bs)
  have ih: "utf8_encode t = r \<and> list_all is_scalar t" if "utf8_decode r = Some t" "length r < length bs" for r t
    using 1 that by blast
  show ?case
  proof (cases bs)
    case Nil
    then show ?thesis using "1.prems" by (simp add: utf8_encode_def)
  next
    case (Cons b rest)
    note d = "1.prems" [unfolded Cons utf8_decode.simps(2)]
    consider (one) "b < 0x80" | (two) "0xC2 \<le> b" "b \<le> 0xDF" | (three) "0xE0 \<le> b" "b \<le> 0xEF" | (four) "0xF0 \<le> b" "b \<le> 0xF4"
      using d by (auto split: if_splits)
    then show ?thesis
    proof cases
      case one
      then obtain t where t: "utf8_decode rest = Some t" "s = b # t" using d by auto
      have "is_scalar b" "utf8_char b = [b]" using one by (simp_all add: is_scalar_def is_surrogate_def utf8_char_def)
      then show ?thesis using ih [OF t(1)] Cons t by (simp add: encode_Cons)
    next
      case two
      then obtain x r t where t: "rest = x # r" "0x80 \<le> x" "x \<le> 0xBF" "utf8_decode r = Some t" "s = ((b - 0xC0) * 64 + (x - 0x80)) # t"
        using d by (auto simp: continuation_def split: list.splits if_splits)
      then show ?thesis using ih [OF t(4)] char2 [of "b - 0xC0" "x - 0x80"] two Cons by (simp add: encode_Cons)
    next
      case three
      then obtain x y r t where t: "rest = x # y # r" "0x80 \<le> x" "x \<le> 0xBF" "0x80 \<le> y" "y \<le> 0xBF"
          "b = 0xE0 \<Longrightarrow> 0xA0 \<le> x" "b = 0xED \<Longrightarrow> x \<le> 0x9F"
          "utf8_decode r = Some t" "s = ((b - 0xE0) * 4096 + (x - 0x80) * 64 + (y - 0x80)) # t"
        using d by (auto simp: continuation_def split: list.splits if_splits)
      have "b - 0xE0 = 13 \<Longrightarrow> b = 0xED" using three by simp
      then have "utf8_char ((b - 0xE0) * 4096 + (x - 0x80) * 64 + (y - 0x80)) = [0xE0 + (b - 0xE0), 0x80 + (x - 0x80), 0x80 + (y - 0x80)] \<and>
          is_scalar ((b - 0xE0) * 4096 + (x - 0x80) * 64 + (y - 0x80))"
        by (intro char3) (use t(2-7) three in auto)
      then show ?thesis using ih [OF t(8)] three Cons t by (simp add: encode_Cons)
    next
      case four
      then obtain x y z r t where t: "rest = x # y # z # r" "0x80 \<le> x" "x \<le> 0xBF" "0x80 \<le> y" "y \<le> 0xBF" "0x80 \<le> z" "z \<le> 0xBF"
          "b = 0xF0 \<Longrightarrow> 0x90 \<le> x" "b = 0xF4 \<Longrightarrow> x \<le> 0x8F"
          "utf8_decode r = Some t" "s = ((b - 0xF0) * 262144 + (x - 0x80) * 4096 + (y - 0x80) * 64 + (z - 0x80)) # t"
        using d by (auto simp: continuation_def split: list.splits if_splits)
      have "b - 0xF0 = 4 \<Longrightarrow> b = 0xF4" using four by simp
      then have "utf8_char ((b - 0xF0) * 262144 + (x - 0x80) * 4096 + (y - 0x80) * 64 + (z - 0x80)) =
          [0xF0 + (b - 0xF0), 0x80 + (x - 0x80), 0x80 + (y - 0x80), 0x80 + (z - 0x80)] \<and>
          is_scalar ((b - 0xF0) * 262144 + (x - 0x80) * 4096 + (y - 0x80) * 64 + (z - 0x80))"
        by (intro char4) (use t(2-9) four in auto)
      then show ?thesis using ih [OF t(10)] four Cons t by (simp add: encode_Cons)
    qed
  qed
qed

lemma utf8_char_bytes: "is_scalar c \<Longrightarrow> is_bytes (utf8_char c)"
  by (auto simp: is_bytes_def utf8_char_def is_scalar_def)

lemma encode_bytes: "list_all is_scalar s \<Longrightarrow> is_bytes (utf8_encode s)"
  by (induction s) (use utf8_char_bytes in \<open>auto simp: utf8_encode_def is_bytes_def is_scalar_def list_all_iff\<close>)

end
