(* ===== verification/YamlView.thy ===== *)
theory YamlView
  imports Base64
begin

text \<open>
  \<^verbatim>\<open>web/src/utils/yamlView.ts\<close>: what the YAML tab shows and applies. A document is a value with bytes (\<^verbatim>\<open>!!binary\<close>) beside JSON's; the \<^verbatim>\<open>yaml\<close>
  library is a parameter: \<open>stringify tags v\<close> and \<open>parse tags s\<close>, where \<open>tags\<close> says that the binary tag is enabled.
\<close>

datatype yval =
    YNull
  | YBool bool
  | YNum rat
  | YStr code_points
  | YBytes bytes
  | YArr "yval list"
  | YObj "(jstring \<times> yval) list"

fun yget :: "jstring \<Rightarrow> yval \<Rightarrow> yval option" where
  "yget k (YObj m) = map_of m k"
| "yget k _ = None"

fun ydelete :: "jstring \<Rightarrow> yval \<Rightarrow> yval" where
  "ydelete k (YObj m) = YObj (filter (\<lambda>e. fst e \<noteq> k) m)"
| "ydelete k v = v"

text \<open>Assignment to an existing member keeps its place.\<close>

fun yreplace :: "jstring \<Rightarrow> yval \<Rightarrow> yval \<Rightarrow> yval" where
  "yreplace k x (YObj m) = YObj (map (\<lambda>(k', v). (k', if k' = k then x else v)) m)"
| "yreplace k x v = v"

definition yaml_is_record :: "yval \<Rightarrow> bool" where
  "yaml_is_record v \<longleftrightarrow> (case v of YObj _ \<Rightarrow> True | _ \<Rightarrow> False)"

section \<open>Projections\<close>

definition server_managed :: "jstring list" where
  "server_managed = [''managedFields'', ''resourceVersion'', ''uid'', ''creationTimestamp'', ''generation'']"

text \<open>The deep copy of a JSON value is the value.\<close>

definition editableClone :: "yval \<Rightarrow> yval" where
  "editableClone obj =
     (let clone = ydelete ''status'' obj
      in case yget ''metadata'' clone of
           None \<Rightarrow> clone
         | Some meta \<Rightarrow> yreplace ''metadata'' (fold ydelete server_managed meta) clone)"

definition toYaml :: "(bool \<Rightarrow> yval \<Rightarrow> 'y) \<Rightarrow> yval \<Rightarrow> 'y" where
  "toYaml stringify obj = stringify False obj"

definition toEditableYaml :: "(bool \<Rightarrow> yval \<Rightarrow> 'y) \<Rightarrow> yval \<Rightarrow> 'y" where
  "toEditableYaml stringify obj = stringify False (editableClone obj)"

text \<open>\<^verbatim>\<open>atob\<close> throws on a value that is not base64: the projection then has no document.\<close>

definition decode_entry :: "jstring \<times> yval \<Rightarrow> (jstring \<times> yval) option" where
  "decode_entry e =
     (case snd e of
        YStr b64 \<Rightarrow>
          (case base64ToBytes b64 of
             None \<Rightarrow> None
           | Some bs \<Rightarrow> Some (fst e, case utf8OrNull bs of Some s \<Rightarrow> YStr s | None \<Rightarrow> YBytes bs))
      | _ \<Rightarrow> None)"

fun all_some :: "'a option list \<Rightarrow> 'a list option" where
  "all_some [] = Some []"
| "all_some (x # xs) = (case x of None \<Rightarrow> None | Some y \<Rightarrow> map_option (Cons y) (all_some xs))"

definition toDecodedSecretYaml :: "(bool \<Rightarrow> yval \<Rightarrow> 'y) \<Rightarrow> yval \<Rightarrow> 'y option" where
  "toDecodedSecretYaml stringify obj =
     (let clone = editableClone obj
      in case yget ''data'' obj of
           Some (YObj entries) \<Rightarrow>
             map_option (\<lambda>es. stringify True (yreplace ''data'' (YObj es) clone)) (all_some (map decode_entry entries))
         | _ \<Rightarrow> Some (stringify True clone))"

section \<open>Back to a manifest\<close>

datatype yaml_error = YamlSyntax jstring | YamlRefused code_points

fun encode_entries :: "(jstring \<times> yval) list \<Rightarrow> yaml_error + (jstring \<times> yval) list" where
  "encode_entries [] = Inr []"
| "encode_entries ((k, v) # es) =
     (let rest = encode_entries es; put = (\<lambda>b64. case rest of Inl e \<Rightarrow> Inl e | Inr out \<Rightarrow> Inr ((k, YStr b64) # out))
      in case v of
           YStr s \<Rightarrow> put (encodeBase64Utf8 s)
         | YBytes bs \<Rightarrow> put (bytesToBase64 bs)
         | _ \<Rightarrow> Inl (YamlRefused (ascii (''data.'' @ k @ '' must be a string (or !!binary) '') @ [8212] @ ascii '' quote the value.'')))"

definition encodeSecretYaml ::
  "(bool \<Rightarrow> yval \<Rightarrow> 'y) \<Rightarrow> (bool \<Rightarrow> 'y \<Rightarrow> jstring + yval) \<Rightarrow> 'y \<Rightarrow> yaml_error + 'y" where
  "encodeSecretYaml stringify parse yamlText =
     (case parse True yamlText of
        Inl e \<Rightarrow> Inl (YamlSyntax e)
      | Inr parsed \<Rightarrow>
          if \<not> yaml_is_record parsed then Inl (YamlRefused (ascii ''The manifest must be a YAML object.''))
          else case yget ''data'' parsed of
                 None \<Rightarrow> Inr (stringify False parsed)
               | Some YNull \<Rightarrow> Inr (stringify False parsed)
               | Some (YObj entries) \<Rightarrow>
                   (case encode_entries entries of
                      Inl e \<Rightarrow> Inl e
                    | Inr encoded \<Rightarrow> Inr (stringify False (yreplace ''data'' (YObj encoded) parsed)))
               | Some _ \<Rightarrow> Inl (YamlRefused (ascii ''data must be a map of key: value.'')))"

record parsed_manifest =
  pmf_object :: yval
  pmf_name :: yval
  pmf_namespace :: "yval option"

text \<open>Arrays and bytes are objects to \<^verbatim>\<open>typeof\<close>; they have no metadata.\<close>

definition parseManifest :: "(bool \<Rightarrow> 'y \<Rightarrow> jstring + yval) \<Rightarrow> 'y \<Rightarrow> yaml_error + parsed_manifest" where
  "parseManifest parse yamlText =
     (case parse False yamlText of
        Inl e \<Rightarrow> Inl (YamlSyntax e)
      | Inr parsed \<Rightarrow>
          (case parsed of
             YNull \<Rightarrow> Inl (YamlRefused (ascii ''The manifest must be a YAML object.''))
           | YBool _ \<Rightarrow> Inl (YamlRefused (ascii ''The manifest must be a YAML object.''))
           | YNum _ \<Rightarrow> Inl (YamlRefused (ascii ''The manifest must be a YAML object.''))
           | YStr _ \<Rightarrow> Inl (YamlRefused (ascii ''The manifest must be a YAML object.''))
           | _ \<Rightarrow>
               (let meta = yget ''metadata'' parsed
                in case Option.bind meta (yget ''name'') of
                     None \<Rightarrow> Inl (YamlRefused (ascii ''metadata.name is required for server-side apply.''))
                   | Some name \<Rightarrow>
                       if name = YStr [] then Inl (YamlRefused (ascii ''metadata.name is required for server-side apply.''))
                       else Inr \<lparr>pmf_object = parsed, pmf_name = name, pmf_namespace = Option.bind meta (yget ''namespace'')\<rparr>)))"

section \<open>What survives\<close>

lemma map_of_filter_key: "map_of (filter (\<lambda>e. fst e \<noteq> k) m) k' = (if k' = k then None else map_of m k')"
  by (induction m) auto

lemma map_of_replace: "map_of (map (\<lambda>(k', v). (k', if k' = k then x else v)) m) k'' =
    (if k'' = k \<and> map_of m k \<noteq> None then Some x else map_of m k'')"
  by (induction m) auto

lemma yget_delete: "yget k (ydelete k' v) = (if k = k' then None else yget k v)"
  by (cases v) (auto simp: map_of_filter_key)

lemma yget_replace: "yget k (yreplace k' x v) = (if k = k' \<and> yget k v \<noteq> None then Some x else yget k v)"
  by (cases v) (auto simp: map_of_replace)

lemma yget_deletes: "yget k (fold ydelete ks v) = (if k \<in> set ks then None else yget k v)"
  by (induction ks arbitrary: v) (auto simp: yget_delete)

lemma clone_members: "k \<noteq> ''status'' \<Longrightarrow> k \<noteq> ''metadata'' \<Longrightarrow> yget k (editableClone obj) = yget k obj"
  by (auto simp: editableClone_def Let_def yget_delete yget_replace split: option.split)

text \<open>
  The manifest offered for editing claims nothing the server owns and drops nothing else: status and the five
  server-managed metadata fields are gone, every other member and every other metadata field has its value.
\<close>

theorem editable_strips_exactly_server_fields:
  "yget ''status'' (editableClone obj) = None \<and>
   (if k \<in> {''status'', ''metadata''} then True else yget k (editableClone obj) = yget k obj) \<and>
   (case yget ''metadata'' obj of
      None \<Rightarrow> yget ''metadata'' (editableClone obj) = None
    | Some meta \<Rightarrow>
        (case yget ''metadata'' (editableClone obj) of
           None \<Rightarrow> False
         | Some meta' \<Rightarrow> yget k meta' = (if k \<in> set server_managed then None else yget k meta)))"
  by (auto simp: editableClone_def Let_def yget_delete yget_replace yget_deletes split: option.split)

text \<open>A value of the wire: base64 as the API server prints it.\<close>

definition wire_value :: "jstring \<times> yval \<Rightarrow> bool" where
  "wire_value e \<longleftrightarrow> (case snd e of YStr s \<Rightarrow> (case base64ToBytes s of Some bs \<Rightarrow> is_bytes bs \<and> bytesToBase64 bs = s | None \<Rightarrow> False) | _ \<Rightarrow> False)"

lemma entries_roundtrip:
  "list_all wire_value es \<Longrightarrow> \<exists>ds. all_some (map decode_entry es) = Some ds \<and> encode_entries ds = Inr es"
proof (induction es)
  case (Cons e es)
  then obtain ds where ds: "all_some (map decode_entry es) = Some ds" "encode_entries ds = Inr es" by auto
  obtain k s bs where e: "e = (k, YStr s)" "base64ToBytes s = Some bs" "is_bytes bs" "bytesToBase64 bs = s"
    using Cons.prems by (cases e) (auto simp: wire_value_def split: yval.splits option.splits)
  show ?case
  proof (cases "utf8OrNull bs")
    case None
    then have "decode_entry e = Some (k, YBytes bs)" using e by (simp add: decode_entry_def)
    then show ?thesis using e ds by simp
  next
    case (Some t)
    then have "utf8_encode t = bs" using encode_decoded by (simp add: utf8OrNull_def)
    moreover have "decode_entry e = Some (k, YStr t)" using e Some by (simp add: decode_entry_def)
    ultimately show ?thesis using e ds by (simp add: encodeBase64Utf8_def)
  qed
qed simp

lemma yreplace_twice: "yreplace k x (yreplace k y v) = yreplace k x v"
  by (cases v) (auto simp: case_prod_beta)

lemma yreplace_same: "yget k v = Some x \<Longrightarrow> distinct (case v of YObj m \<Rightarrow> map fst m | _ \<Rightarrow> []) \<Longrightarrow> yreplace k x v = v"
proof (cases v)
  case (YObj m)
  assume "yget k v = Some x" "distinct (case v of YObj m \<Rightarrow> map fst m | _ \<Rightarrow> [])"
  with YObj have "map_of m k = Some x" "distinct (map fst m)" by auto
  then have "v = x" if "(k, v) \<in> set m" for v using that by (metis map_of_is_SomeI option.inject)
  then have "\<forall>e \<in> set m. (\<lambda>(k', v). (k', if k' = k then x else v)) e = e" by auto
  then have "map (\<lambda>(k', v). (k', if k' = k then x else v)) m = m" by (simp add: map_idI)
  with YObj show ?thesis by simp
qed auto

definition member_names :: "yval \<Rightarrow> jstring list" where
  "member_names v = (case v of YObj m \<Rightarrow> map fst m | _ \<Rightarrow> [])"

lemma names_clone: "distinct (member_names v) \<Longrightarrow> distinct (member_names (editableClone v))"
proof -
  have "distinct (member_names v) \<Longrightarrow> distinct (member_names (ydelete k v))" for k v
    by (cases v) (simp_all add: member_names_def distinct_map_filter)
  moreover have "member_names (yreplace k x v) = member_names v" for k x v
    by (cases v) (auto simp: member_names_def)
  ultimately show "distinct (member_names v) \<Longrightarrow> distinct (member_names (editableClone v))"
    by (auto simp: editableClone_def Let_def split: option.split)
qed

lemma clone_record: "yaml_is_record obj \<Longrightarrow> yaml_is_record (editableClone obj)"
  by (cases obj) (auto simp: yaml_is_record_def editableClone_def Let_def split: option.split)

lemma replace_record: "yaml_is_record v \<Longrightarrow> yaml_is_record (yreplace k x v)"
  by (cases v) (auto simp: yaml_is_record_def)

text \<open>
  C35. Editing a Secret in decoded form is lossless: a decoded document that is applied as it is gives exactly the manifest
  the plain editor would apply, byte for byte in every value, text or binary. It relies on the YAML library reading back
  what it printed, on distinct member names, and on values that are base64 as the API server prints it.
\<close>

theorem untouched_secret_applies_unchanged:
  assumes "\<And>v. parse True (stringify True v) = Inr v"
    and "yget ''data'' obj = Some (YObj entries)" "list_all wire_value entries" "distinct (member_names obj)"
  shows "map_option (encodeSecretYaml stringify parse) (toDecodedSecretYaml stringify obj) = Some (Inr (toEditableYaml stringify obj))"
proof -
  obtain ds where ds: "all_some (map decode_entry entries) = Some ds" "encode_entries ds = Inr entries"
    using entries_roundtrip assms(3) by blast
  let ?c = "editableClone obj"
  have "yaml_is_record obj" using assms(2) by (cases obj) (simp_all add: yaml_is_record_def)
  then have rec: "yaml_is_record ?c" by (rule clone_record)
  have d: "yget ''data'' ?c = Some (YObj entries)"
    using clone_members assms(2) by simp
  have "yreplace ''data'' (YObj entries) ?c = ?c"
    by (rule yreplace_same [OF d]) (use names_clone [OF assms(4)] in \<open>simp add: member_names_def\<close>)
  then show ?thesis using assms(1,2) ds rec d
    by (simp add: toDecodedSecretYaml_def Let_def encodeSecretYaml_def toEditableYaml_def replace_record yget_replace yreplace_twice)
qed

definition sample_entries :: "(jstring \<times> yval) list" where
  "sample_entries = [(''p'', YStr (bytesToBase64 [104, 105])), (''b'', YStr (bytesToBase64 [255]))]"

theorem untouched_secret_applies_unchanged_witness:
  "map_option (encodeSecretYaml (\<lambda>_ v. v) (\<lambda>_ v. Inr v)) (toDecodedSecretYaml (\<lambda>_ v. v) (YObj [(''data'', YObj sample_entries)])) =
   Some (Inr (toEditableYaml (\<lambda>_ v. v) (YObj [(''data'', YObj sample_entries)])))"
proof (rule untouched_secret_applies_unchanged)
  have "base64ToBytes (bytesToBase64 [104, 105]) = Some [104, 105]" "base64ToBytes (bytesToBase64 [255]) = Some [255]"
    by (simp_all add: base64_decodes is_bytes_def)
  then show "list_all wire_value sample_entries" by (simp add: sample_entries_def wire_value_def is_bytes_def)
qed (simp_all add: member_names_def)

text \<open>What the parser hands over is a JavaScript value: member names are distinct, a string holds code points - lone surrogates too -, a byte array bytes.\<close>

definition typed_entry :: "jstring \<times> yval \<Rightarrow> bool" where
  "typed_entry e \<longleftrightarrow> (case snd e of YStr s \<Rightarrow> list_all (\<lambda>c. c \<le> 0x10FFFF) s | YBytes bs \<Rightarrow> is_bytes bs | _ \<Rightarrow> True)"

definition typed_document :: "yval \<Rightarrow> bool" where
  "typed_document doc \<longleftrightarrow>
     (case doc of
        YObj m \<Rightarrow> distinct (map fst m) \<and> (case map_of m ''data'' of Some (YObj es) \<Rightarrow> list_all typed_entry es | _ \<Rightarrow> True)
      | _ \<Rightarrow> True)"

definition sendable :: "jstring \<times> yval \<Rightarrow> bool" where
  "sendable e \<longleftrightarrow> (case snd e of YStr _ \<Rightarrow> True | YBytes _ \<Rightarrow> True | _ \<Rightarrow> False)"

text \<open>Text as UTF-8 can carry it: a lone surrogate has no encoding and goes as the replacement character.\<close>

definition well_formed :: "code_points \<Rightarrow> code_points" where
  "well_formed s = map (\<lambda>c. if is_surrogate c then 0xFFFD else c) s"

definition sent_as :: "jstring \<times> yval \<Rightarrow> jstring \<times> yval \<Rightarrow> bool" where
  "sent_as e e' \<longleftrightarrow> fst e' = fst e \<and>
     (case snd e' of
        YStr b64 \<Rightarrow>
          (case base64ToBytes b64 of
             None \<Rightarrow> False
           | Some bs \<Rightarrow> (case snd e of YStr s \<Rightarrow> utf8OrNull bs = Some (well_formed s) | YBytes typed \<Rightarrow> bs = typed | _ \<Rightarrow> False))
      | _ \<Rightarrow> False)"

text \<open>Every member as it was, the values of the data alone as they are sent.\<close>

definition sent_member :: "jstring \<times> yval \<Rightarrow> jstring \<times> yval \<Rightarrow> bool" where
  "sent_member x y \<longleftrightarrow> fst y = fst x \<and>
     (case (fst x = ''data'', snd x) of
        (True, YObj es) \<Rightarrow> (case snd y of YObj out \<Rightarrow> list_all2 sent_as es out | _ \<Rightarrow> False)
      | _ \<Rightarrow> snd y = snd x)"

definition sent_document :: "yval \<Rightarrow> yval \<Rightarrow> bool" where
  "sent_document doc doc' \<longleftrightarrow> (case (doc, doc') of (YObj m, YObj m') \<Rightarrow> list_all2 sent_member m m' | _ \<Rightarrow> False)"

text \<open>Why a document is refused, if it is.\<close>

definition refusal :: "yval \<Rightarrow> code_points option" where
  "refusal doc =
     (case doc of
        YObj m \<Rightarrow>
          (case map_of m ''data'' of
             None \<Rightarrow> None
           | Some YNull \<Rightarrow> None
           | Some (YObj es) \<Rightarrow>
               map_option (\<lambda>(k, _). ascii (''data.'' @ k @ '' must be a string (or !!binary) '') @ [8212] @ ascii '' quote the value.'')
                 (List.find (\<lambda>e. \<not> sendable e) es)
           | Some _ \<Rightarrow> Some (ascii ''data must be a map of key: value.''))
      | _ \<Rightarrow> Some (ascii ''The manifest must be a YAML object.''))"

lemma well_formed_scalar: "list_all (\<lambda>c. c \<le> 0x10FFFF) s \<Longrightarrow> list_all is_scalar (well_formed s)"
  by (auto simp: well_formed_def list_all_iff is_scalar_def is_surrogate_def)

lemma encode_well_formed: "utf8_encode (well_formed s) = utf8_encode s"
proof -
  have "is_surrogate 0xFFFD = False" by (simp add: is_surrogate_def)
  then show ?thesis by (auto simp: utf8_encode_def well_formed_def intro!: arg_cong [of _ _ concat])
qed

lemma sent_text: "list_all (\<lambda>c. c \<le> 0x10FFFF) s \<Longrightarrow> sent_as (k, YStr s) (k, YStr (encodeBase64Utf8 s))"
proof -
  assume s: "list_all (\<lambda>c. c \<le> 0x10FFFF) s"
  note w = well_formed_scalar [OF s]
  show ?thesis using encode_bytes [OF w] utf8_decode_encode [OF w]
    by (simp add: sent_as_def encodeBase64Utf8_def base64_decodes utf8OrNull_def encode_well_formed)
qed

lemma sent_bytes: "is_bytes bs \<Longrightarrow> sent_as (k, YBytes bs) (k, YStr (bytesToBase64 bs))"
  by (simp add: sent_as_def base64_decodes)

lemma entries_refused_or_exact:
  "list_all typed_entry es \<Longrightarrow>
   (case encode_entries es of
      Inl e \<Rightarrow> (case List.find (\<lambda>e. \<not> sendable e) es of
                 Some (k, _) \<Rightarrow> e = YamlRefused (ascii (''data.'' @ k @ '' must be a string (or !!binary) '') @ [8212] @ ascii '' quote the value.'')
               | None \<Rightarrow> False)
    | Inr out \<Rightarrow> List.find (\<lambda>e. \<not> sendable e) es = None \<and> list_all2 sent_as es out)"
proof (induction es)
  case (Cons e es)
  obtain k v where e: "e = (k, v)" by fastforce
  show ?case using Cons
    by (cases v; cases "encode_entries es"; cases "List.find (\<lambda>e. \<not> sendable e) es")
      (simp_all add: e sendable_def typed_entry_def sent_text sent_bytes split: if_splits)
qed simp

lemma sent_with_data:
  assumes "distinct (map fst m)" "map_of m ''data'' = Some (YObj es)" "list_all2 sent_as es out"
  shows "sent_document (YObj m) (yreplace ''data'' (YObj out) (YObj m))"
proof -
  have "sent_member x (fst x, if fst x = ''data'' then YObj out else snd x)" if "x \<in> set m" for x
  proof (cases "fst x = ''data''")
    case True
    then have "snd x = YObj es" using assms(1,2) that by (metis map_of_is_SomeI option.inject prod.collapse)
    then show ?thesis using True assms(3) by (simp add: sent_member_def)
  qed (simp add: sent_member_def)
  then show ?thesis by (simp add: sent_document_def list.rel_map case_prod_beta list_all2_same)
qed

lemma sent_without_data:
  assumes "distinct (map fst m)" "map_of m ''data'' \<in> {None, Some YNull}"
  shows "sent_document (YObj m) (YObj m)"
proof -
  have "sent_member x x" if "x \<in> set m" for x
  proof (cases "fst x = ''data''")
    case True
    then have "map_of m ''data'' = Some (snd x)" using assms(1) that by (metis map_of_is_SomeI prod.collapse)
    then show ?thesis using True assms(2) by (simp add: sent_member_def)
  qed (simp add: sent_member_def)
  then show ?thesis by (simp add: sent_document_def list_all2_same)
qed

text \<open>
  C36. Applying an edited Secret sends exactly what was typed, or says why not. It is rejected exactly when the text is not YAML, the document is not an object, its data is
  neither absent nor a map, or some value is neither text nor bytes - with an error that names the first such key, never a coerced number or boolean. Otherwise
  every member outside the data is sent as it is, and each value of the data decodes to the text or the bytes that were typed, a lone surrogate - which UTF-8 cannot carry - as
  the replacement character. (What the parser returns is taken to be a JavaScript value: distinct member names, code points, bytes.)
\<close>

theorem secret_values_refused_or_exact:
  assumes "\<And>doc. parse True yamlText = Inr doc \<Longrightarrow> typed_document doc"
  shows "case parse True yamlText of
      Inl e \<Rightarrow> encodeSecretYaml stringify parse yamlText = Inl (YamlSyntax e)
    | Inr doc \<Rightarrow>
        (case refusal doc of
           Some message \<Rightarrow> encodeSecretYaml stringify parse yamlText = Inl (YamlRefused message)
         | None \<Rightarrow> (\<exists>doc'. sent_document doc doc' \<and> encodeSecretYaml stringify parse yamlText = Inr (stringify False doc')))"
proof (cases "parse True yamlText")
  case (Inr doc)
  show ?thesis
  proof (cases doc)
    case (YObj m)
    have d: "distinct (map fst m)" using assms [OF Inr] YObj by (simp add: typed_document_def)
    show ?thesis
    proof (cases "map_of m ''data''")
      case None
      then show ?thesis using sent_without_data [OF d] Inr YObj by (auto simp: encodeSecretYaml_def yaml_is_record_def refusal_def)
    next
      case (Some v)
      show ?thesis
      proof (cases v)
        case YNull
        then show ?thesis using sent_without_data [OF d] Inr YObj Some by (auto simp: encodeSecretYaml_def yaml_is_record_def refusal_def)
      next
        case es: (YObj es)
        have "list_all typed_entry es" using assms [OF Inr] YObj Some es by (simp add: typed_document_def)
        from entries_refused_or_exact [OF this] show ?thesis
          using sent_with_data [OF d, of es] Inr YObj Some es
          by (auto simp: encodeSecretYaml_def yaml_is_record_def refusal_def split: sum.splits option.splits)
      qed (simp_all add: Inr YObj Some encodeSecretYaml_def yaml_is_record_def refusal_def)
    qed
  qed (simp_all add: Inr encodeSecretYaml_def yaml_is_record_def refusal_def)
qed (simp add: encodeSecretYaml_def)

definition typed_secret :: yval where
  "typed_secret = YObj [(''kind'', YStr (ascii ''Secret'')), (''data'', YObj [(''p'', YStr [0xD800]), (''n'', YNum 7)])]"

theorem secret_values_refused_or_exact_witness:
  "typed_document typed_secret \<and>
   encodeSecretYaml (\<lambda>_ v. v) (\<lambda>_ v. Inr v) typed_secret =
     Inl (YamlRefused (ascii ''data.n must be a string (or !!binary) '' @ [8212] @ ascii '' quote the value.''))"
proof -
  have ok: "typed_document typed_secret" by (simp add: typed_secret_def typed_document_def typed_entry_def)
  have "refusal typed_secret = Some (ascii ''data.n must be a string (or !!binary) '' @ [8212] @ ascii '' quote the value.'')"
    by (simp add: typed_secret_def refusal_def sendable_def)
  then show ?thesis using secret_values_refused_or_exact [of "\<lambda>_ v. Inr v" typed_secret "\<lambda>_ v. v"] ok by simp
qed

end
