(* ===== verification/ResourceActions.thy ===== *)
theory ResourceActions
  imports KubeApi FieldFilter TableSort
begin

text \<open>
  \<^verbatim>\<open>web/src/utils/resourceActions.ts\<close>: the actions of the detail page's header and the patches they send. Times are milliseconds;
  \<^verbatim>\<open>toISOString\<close> is a parameter.
\<close>

datatype action_id = Scale | Restart | Trigger | Suspend | Resume | Cordon | Uncordon

datatype button_variant = Secondary | Danger

record resource_action =
  ra_id :: action_id
  ra_label :: jstring
  ra_confirm :: jstring
  ra_variant :: button_variant

record action_object = k8s_object +
  ac_apiVersion :: "jstring option"
  ac_kind :: "jstring option"
  ac_spec :: "json option"

definition ACTIONS_BY_KIND :: "(jstring \<times> action_id list) list" where
  "ACTIONS_BY_KIND =
     [(''apps/v1/Deployment'', [Scale, Restart]), (''apps/v1/StatefulSet'', [Scale, Restart]), (''apps/v1/DaemonSet'', [Restart]),
      (''apps/v1/ReplicaSet'', [Scale]), (''v1/ReplicationController'', [Scale]), (''batch/v1/CronJob'', [Trigger, Suspend]),
      (''batch/v1/Job'', [Suspend]), (''v1/Node'', [Cordon])]"

definition LABELS :: "action_id \<Rightarrow> jstring" where
  "LABELS i = (case i of Scale \<Rightarrow> ''Scale'' | Restart \<Rightarrow> ''Restart'' | Trigger \<Rightarrow> ''Trigger now'' | Suspend \<Rightarrow> ''Suspend''
     | Resume \<Rightarrow> ''Resume'' | Cordon \<Rightarrow> ''Cordon'' | Uncordon \<Rightarrow> ''Uncordon'')"

text \<open>The members of a value that is a record, else none.\<close>

definition spec_members :: "json option \<Rightarrow> (jstring \<times> json) list" where
  "spec_members j = (case j of Some (JObj m) \<Rightarrow> m | _ \<Rightarrow> [])"

definition kindKey :: "action_object \<Rightarrow> jstring" where
  "kindKey object =
     (case ac_apiVersion object of Some v \<Rightarrow> v | None \<Rightarrow> []) @ ''/'' @ (case ac_kind object of Some k \<Rightarrow> k | None \<Rightarrow> [])"

definition confirmText :: "action_id \<Rightarrow> action_object \<Rightarrow> jstring" where
  "confirmText i object =
     (let isJob = (ac_kind object = Some ''Job'') in
      case i of
        Scale \<Rightarrow> ''Set the desired replica count.''
      | Restart \<Rightarrow> ''The controller replaces its pods one by one, honoring the update strategy.''
      | Trigger \<Rightarrow> ''Creates a Job now, outside the schedule.''
      | Suspend \<Rightarrow> if isJob then ''Its active pods are deleted; completed ones stay.'' else ''No new Jobs are scheduled until it is resumed.''
      | Resume \<Rightarrow> if isJob then ''Its pods are recreated and the Job continues.'' else ''Jobs are scheduled again on the normal schedule.''
      | Cordon \<Rightarrow> ''The node stops accepting new pods; the pods running on it stay.''
      | Uncordon \<Rightarrow> ''The node becomes schedulable again.'')"

definition action_of :: "action_object \<Rightarrow> action_id \<Rightarrow> resource_action" where
  "action_of object i =
     \<lparr>ra_id = i, ra_label = LABELS i, ra_confirm = confirmText i object,
      ra_variant = (if i = Suspend \<or> i = Cordon then Danger else Secondary)\<rparr>"

definition resolve_toggle :: "(jstring \<times> json) list \<Rightarrow> action_id \<Rightarrow> action_id" where
  "resolve_toggle current i =
     (if i = Suspend then if map_of current ''suspend'' = Some (JBool True) then Resume else Suspend
      else if i = Cordon then if map_of current ''unschedulable'' = Some (JBool True) then Uncordon else Cordon
      else i)"

definition actionsFor :: "action_object \<Rightarrow> resource_action list" where
  "actionsFor object =
     (case map_of ACTIONS_BY_KIND (kindKey object) of
        None \<Rightarrow> []
      | Some ids \<Rightarrow> map (\<lambda>i. action_of object (resolve_toggle (spec_members (ac_spec object)) i)) ids)"

section \<open>Patches\<close>

definition RESTART_ANNOTATION :: jstring where "RESTART_ANNOTATION = ''kubectl.kubernetes.io/restartedAt''"

definition restartPatch :: "(int \<Rightarrow> jstring) \<Rightarrow> int \<Rightarrow> json" where
  "restartPatch isoText now =
     JObj [(''spec'', JObj [(''template'', JObj [(''metadata'', JObj [(''annotations'', JObj [(RESTART_ANNOTATION, JStr (isoText now))])])])])]"

definition replicasPatch :: "rat \<Rightarrow> json" where
  "replicasPatch n = JObj [(''spec'', JObj [(''replicas'', JNum n)])]"

definition currentReplicas :: "action_object \<Rightarrow> rat" where
  "currentReplicas object = (case map_of (spec_members (ac_spec object)) ''replicas'' of Some (JNum n) \<Rightarrow> n | _ \<Rightarrow> 0)"

definition suspendPatch :: "bool \<Rightarrow> json" where
  "suspendPatch b = JObj [(''spec'', JObj [(''suspend'', JBool b)])]"

definition unschedulablePatch :: "bool \<Rightarrow> json" where
  "unschedulablePatch b = JObj [(''spec'', JObj [(''unschedulable'', JBool b)])]"

section \<open>Manual runs\<close>

definition MAX_NAME_LENGTH :: nat where "MAX_NAME_LENGTH = 63"

text \<open>\<^verbatim>\<open>replace(/[^a-z0-9]+$/, "")\<close>\<close>

definition strip_separators :: "jstring \<Rightarrow> jstring" where
  "strip_separators s = rev (dropWhile (\<lambda>c. \<not> label_char c) (rev s))"

definition defaultManualJobName :: "jstring \<Rightarrow> int \<Rightarrow> jstring" where
  "defaultManualJobName cronJobName now =
     (let suffix = ''-manual-'' @ show_int (now div 1000); room = MAX_NAME_LENGTH - length suffix
      in strip_separators (take room cronJobName) @ suffix)"

text \<open>\<^verbatim>\<open>{ ...a, ...b }\<close>: a member of \<open>b\<close> overwrites in place, a new one is appended.\<close>

definition spread :: "(jstring \<times> json) list \<Rightarrow> (jstring \<times> json) list \<Rightarrow> (jstring \<times> json) list" where
  "spread a b = fold (\<lambda>(k, v). AList.update k v) b a"

definition owner_reference :: "jstring option \<Rightarrow> jstring \<Rightarrow> json" where
  "owner_reference name uid =
     JArr [JObj [(''apiVersion'', JStr ''batch/v1''), (''kind'', JStr ''CronJob''), (''name'', JStr (case name of Some n \<Rightarrow> n | None \<Rightarrow> [])),
                 (''uid'', JStr uid)]]"

definition manualJobFromCronJob :: "action_object \<Rightarrow> jstring \<Rightarrow> json" where
  "manualJobFromCronJob cronJob jobName =
     (let template = spec_members (map_of (spec_members (ac_spec cronJob)) ''jobTemplate'');
          templateMeta = spec_members (map_of template ''metadata'');
          templateAnnotations = spec_members (map_of templateMeta ''annotations'');
          annotations = spread [(''cronjob.kubernetes.io/instantiate'', JStr ''manual'')] templateAnnotations;
          labels = (case map_of templateMeta ''labels'' of Some (JObj m) \<Rightarrow> [(''labels'', JObj m)] | _ \<Rightarrow> []);
          owners = (case Option.bind (ko_meta cronJob) om_uid of
                      None \<Rightarrow> []
                    | Some uid \<Rightarrow> if uid = [] then [] else [(''ownerReferences'', owner_reference (Option.bind (ko_meta cronJob) om_name) uid)])
      in JObj [(''apiVersion'', JStr ''batch/v1''), (''kind'', JStr ''Job''),
               (''metadata'', JObj ([(''name'', JStr jobName), (''annotations'', JObj annotations)] @ labels @ owners)),
               (''spec'', JObj (spec_members (map_of template ''spec'')))])"

section \<open>Properties\<close>

text \<open>A JSON merge patch, as the API server applies it: a null removes, a record is merged, anything else replaces.\<close>

fun merge_patch :: "json \<Rightarrow> json option \<Rightarrow> json" and merge_members :: "(jstring \<times> json) list \<Rightarrow> (jstring \<times> json) list \<Rightarrow> (jstring \<times> json) list" where
  "merge_patch (JObj p) v = JObj (merge_members p (spec_members v))"
| "merge_patch p v = p"
| "merge_members [] m = m"
| "merge_members ((k, v) # p) m =
     merge_members p (if v = JNull then AList.delete k m else AList.update k (merge_patch v (map_of m k)) m)"

definition patched :: "json \<Rightarrow> action_object \<Rightarrow> action_object" where
  "patched patch object = object\<lparr>ac_spec := jget ''spec'' (merge_patch patch (Some (JObj [(''spec'', JObj (spec_members (ac_spec object)))])))\<rparr>"

text \<open>The patch an action sends, for the actions that are one patch.\<close>

definition action_patch :: "(int \<Rightarrow> jstring) \<Rightarrow> int \<Rightarrow> rat \<Rightarrow> action_id \<Rightarrow> json option" where
  "action_patch isoText now n i =
     (case i of Scale \<Rightarrow> Some (replicasPatch n) | Restart \<Rightarrow> Some (restartPatch isoText now) | Trigger \<Rightarrow> None
      | Suspend \<Rightarrow> Some (suspendPatch True) | Resume \<Rightarrow> Some (suspendPatch False)
      | Cordon \<Rightarrow> Some (unschedulablePatch True) | Uncordon \<Rightarrow> Some (unschedulablePatch False))"

definition counterpart :: "action_id \<Rightarrow> action_id" where
  "counterpart i = (case i of Suspend \<Rightarrow> Resume | Resume \<Rightarrow> Suspend | Cordon \<Rightarrow> Uncordon | Uncordon \<Rightarrow> Cordon | _ \<Rightarrow> i)"

lemma patched_spec:
  "spec_members (ac_spec (patched (JObj [(''spec'', JObj [(k, JBool b)])]) object)) = AList.update k (JBool b) (spec_members (ac_spec object))"
  "spec_members (ac_spec (patched (replicasPatch n) object)) = AList.update ''replicas'' (JNum n) (spec_members (ac_spec object))"
  by (simp_all add: patched_def replicasPatch_def spec_members_def)

lemma patched_kind [simp]: "kindKey (patched p object) = kindKey object" "ac_kind (patched p object) = ac_kind object"
  by (simp_all add: kindKey_def patched_def)

lemma ids_offered:
  "map ra_id (actionsFor object) =
     (case map_of ACTIONS_BY_KIND (kindKey object) of None \<Rightarrow> [] | Some ids \<Rightarrow> map (resolve_toggle (spec_members (ac_spec object))) ids)"
  by (simp add: actionsFor_def action_of_def split: option.split)

lemma known_actions:
  "map_of ACTIONS_BY_KIND k = Some ids \<Longrightarrow> ids \<in> {[Scale, Restart], [Restart], [Scale], [Trigger, Suspend], [Suspend], [Cordon]}"
  by (auto simp: ACTIONS_BY_KIND_def split: if_splits)

text \<open>
  A toggle does what its label says: once the patch of an offered suspend, resume, cordon or uncordon is applied, the object offers exactly
  the opposite action in its place and every other action as before; and a scaled object reports the replica count it was scaled to.
\<close>

theorem actions_take_effect:
  "list_all (\<lambda>i. case action_patch isoText now n i of
                   None \<Rightarrow> True
                 | Some p \<Rightarrow>
                     if i = Restart then True
                     else if i = Scale then currentReplicas (patched p object) = n \<and> map ra_id (actionsFor (patched p object)) = map ra_id (actionsFor object)
                     else map ra_id (actionsFor (patched p object)) = map (\<lambda>j. if j = i then counterpart i else j) (map ra_id (actionsFor object)))
     (map ra_id (actionsFor object))"
proof (cases "map_of ACTIONS_BY_KIND (kindKey object)")
  case (Some ids)
  have upd: "map_of (AList.update k v m) k' = (if k' = k then Some v else map_of m k')" for k v m k'
    by (simp add: update_conv')
  show ?thesis using known_actions [OF Some] Some
    by (auto simp: ids_offered action_patch_def suspendPatch_def unschedulablePatch_def patched_spec currentReplicas_def
        resolve_toggle_def counterpart_def upd)
qed (simp add: ids_offered)

text \<open>
  A manual run is what kubectl would create: the Job carries the template's spec verbatim and its labels, every template annotation plus the manual marker unless the
  template sets that key itself, the given name, and an owner reference to the CronJob exactly when that has a uid.
\<close>

theorem manual_job_matches_template:
  "let job = manualJobFromCronJob cronJob jobName; template = map_of (spec_members (ac_spec cronJob)) ''jobTemplate'';
       meta = map_of (spec_members template) ''metadata''; job_meta = spec_members (jget ''metadata'' job) in
   jget ''spec'' job = Some (JObj (spec_members (map_of (spec_members template) ''spec''))) \<and>
   map_of job_meta ''name'' = Some (JStr jobName) \<and>
   map_of job_meta ''labels'' = (case map_of (spec_members meta) ''labels'' of Some (JObj m) \<Rightarrow> Some (JObj m) | _ \<Rightarrow> None) \<and>
   map_of (spec_members (map_of job_meta ''annotations'')) k =
     (case map_of (rev (spec_members (map_of (spec_members meta) ''annotations''))) k of
        Some v \<Rightarrow> Some v
      | None \<Rightarrow> if k = ''cronjob.kubernetes.io/instantiate'' then Some (JStr ''manual'') else None) \<and>
   (map_of job_meta ''ownerReferences'' = None \<longleftrightarrow>
      (case Option.bind (ko_meta cronJob) om_uid of None \<Rightarrow> True | Some uid \<Rightarrow> uid = []))"
proof -
  have spread: "map_of (spread a b) k = (case map_of (rev b) k of Some v \<Rightarrow> Some v | None \<Rightarrow> map_of a k)" for a b k
    by (induction b arbitrary: a) (auto simp: spread_def update_conv' map_add_def split: option.split)
  show ?thesis
    by (auto simp: manualJobFromCronJob_def Let_def spec_members_def [of "Some _"] spread split: option.split json.split)
qed

lemma label_intro:
  assumes "s \<noteq> []" "length s \<le> 63" "list_all (\<lambda>c. c = CHR ''-'' \<or> label_char c) s" "label_char (hd s)" "label_char (last s)"
  shows "isDNS1123Label s"
proof (cases s)
  case (Cons c rest)
  show ?thesis
  proof (cases "rest = []")
    case False
    then have "list_all (\<lambda>c. c = CHR ''-'' \<or> label_char c) (butlast rest)"
      using assms(3) Cons in_set_butlastD by (fastforce simp: list_all_iff)
    then show ?thesis using assms Cons False by (simp add: isDNS1123Label_def)
  qed (use assms Cons in \<open>simp add: isDNS1123Label_def\<close>)
qed (use assms in simp)

lemma label_hd: "isDNS1123Label s \<Longrightarrow> s \<noteq> [] \<and> label_char (hd s)"
  by (cases s) (auto simp: isDNS1123Label_def)

lemma show_nat_length: "n < 10 ^ k \<Longrightarrow> 0 < k \<Longrightarrow> length (show_nat n) \<le> k"
proof (induction k arbitrary: n)
  case (Suc k)
  show ?case
  proof (cases "n < 10")
    case False
    then have "k \<noteq> 0" using Suc.prems by (cases k) auto
    moreover have "n div 10 < 10 ^ k" using Suc.prems by (simp add: less_mult_imp_div_less)
    ultimately have "length (show_nat (n div 10)) \<le> k" using Suc.IH by simp
    then show ?thesis using False by (subst show_nat.simps) simp
  qed (simp add: show_nat.simps)
qed simp

lemma strip_separators_label:
  assumes "s \<noteq> []" "label_char (hd s)"
  shows "strip_separators s \<noteq> [] \<and> hd (strip_separators s) = hd s \<and> set (strip_separators s) \<subseteq> set s \<and> length (strip_separators s) \<le> length s"
proof -
  obtain c t where s: "s = c # t" using assms(1) by (cases s) auto
  have "dropWhile (\<lambda>c. \<not> label_char c) (rev t @ [c]) = dropWhile (\<lambda>c. \<not> label_char c) (rev t) @ [c]"
    using assms(2) s by (induction t rule: rev_induct) (auto simp: dropWhile_append)
  then have e: "strip_separators s = c # rev (dropWhile (\<lambda>c. \<not> label_char c) (rev t))" by (simp add: strip_separators_def s)
  have "set (dropWhile (\<lambda>c. \<not> label_char c) (rev t)) \<subseteq> set t" using set_dropWhileD by fastforce
  moreover have "length (dropWhile (\<lambda>c. \<not> label_char c) (rev t)) \<le> length t" using length_dropWhile_le [of _ "rev t"] by simp
  ultimately show ?thesis using e s by auto
qed

text \<open>
  The suggested name is always usable: for a CronJob whose name is a DNS label, at any time until the year 5138, the manual Job's name is
  a DNS label too, so it is at most 63 characters and does not end or break on a separator.
\<close>

theorem manual_job_name_is_label:
  "if isDNS1123Label cronJobName \<and> 0 \<le> now \<and> now div 1000 < 10 ^ 11 then isDNS1123Label (defaultManualJobName cronJobName now) else True"
proof -
  have "isDNS1123Label (defaultManualJobName cronJobName now)" if label: "isDNS1123Label cronJobName" and now: "0 \<le> now" "now div 1000 < 10 ^ 11"
  proof -
    let ?d = "show_nat (nat (now div 1000))" and ?t = "take (MAX_NAME_LENGTH - length (''-manual-'' @ show_int (now div 1000))) cronJobName"
    have int: "show_int (now div 1000) = ?d" using now by (simp add: show_int_def)
    have d: "length ?d \<le> 11" "list_all is_digit ?d" "?d \<noteq> []"
      using now by (auto intro!: show_nat_length simp: show_nat_digits nat_less_iff)
    have t: "?t \<noteq> []" "hd ?t = hd cronJobName" "label_char (hd ?t)" "length ?t \<le> 55 - length ?d"
      using label_hd [OF label] d(1) by (auto simp: int MAX_NAME_LENGTH_def take_eq_Nil hd_take)
    note b = strip_separators_label [OF t(1,3)]
    define base where "base = strip_separators ?t"
    have "length base \<le> length ?t" unfolding base_def using b by blast
    then have len: "length base \<le> 55 - length ?d" using t(4) by (rule order_trans)
    have base: "base \<noteq> []" "hd base = hd cronJobName" unfolding base_def using b t(2) by (blast, metis)
    moreover have "label_char (hd cronJobName)" using label_hd [OF label] by blast
    ultimately have hd: "label_char (hd base)" by simp
    have e: "defaultManualJobName cronJobName now = base @ ''-manual-'' @ ?d"
      by (simp add: defaultManualJobName_def Let_def int base_def)
    have chars: "c = CHR ''-'' \<or> label_char c" if "c \<in> set base" for c
      using that b label_chars [OF label] set_take_subset unfolding base_def by fastforce
    show ?thesis
    proof (rule label_intro)
      show "list_all (\<lambda>c. c = CHR ''-'' \<or> label_char c) (defaultManualJobName cronJobName now)"
        using chars d(2) by (auto simp: e list_all_iff label_char_def is_lower_alpha_def)
      show "label_char (last (defaultManualJobName cronJobName now))"
        using d(2,3) last_in_set [of ?d] by (simp add: e list_all_iff label_char_def)
    qed (use len base hd d in \<open>auto simp: e\<close>)
  qed
  then show ?thesis by simp
qed

end
