(* ===== verification/Chrome.thy ===== *)
theory Chrome
  imports KubeApi TableSort Stores "HOL-Library.List_Lexorder" "HOL-Library.Char_ord"
begin

text \<open>
  The small pieces around the pages: the context picker's rows (\<^verbatim>\<open>utils/contextItems.ts\<close>), the page title (\<^verbatim>\<open>utils/pageTitle.ts\<close>), the time axis
  (\<^verbatim>\<open>utils/timeAxis.ts\<close>), revealed values (\<^verbatim>\<open>composables/useReveal.ts\<close>), the theme (\<^verbatim>\<open>composables/useDarkMode.ts\<close>), the find shortcut
  (\<^verbatim>\<open>utils/findShortcut.ts\<close>), the route helpers (\<^verbatim>\<open>router/index.ts\<close>) and what \<^verbatim>\<open>ResourceDetailPage.vue\<close> reads back from a route: its object
  and its tabs.
\<close>

section \<open>The context picker\<close>

record context_item =
  ci_name :: jstring
  ci_signedIn :: bool

text \<open>\<^verbatim>\<open>[...new Set(names)]\<close> keeps first occurrences; the default sort is by code units.\<close>

definition contextItems :: "jstring list \<Rightarrow> (jstring \<Rightarrow> bool) \<Rightarrow> context_item list" where
  "contextItems names hasSession =
     map (\<lambda>name. \<lparr>ci_name = name, ci_signedIn = hasSession name\<rparr>)
       (sort (filter (\<lambda>name. name \<noteq> []) (rev (remdups (rev names)))))"

text \<open>
  Both cluster pickers agree: the rows depend only on which names the sources hold, not on their order or
  repetition, are strictly increasing by name, and hold exactly the non-empty names.
\<close>

theorem pickers_agree:
  "(if set names = set names' then contextItems names hasSession = contextItems names' hasSession else True) \<and>
   sorted_wrt (<) (map ci_name (contextItems names hasSession)) \<and>
   set (map ci_name (contextItems names hasSession)) = set names - {[]}"
proof -
  let ?l = "\<lambda>ns :: jstring list. sort (filter (\<lambda>name. name \<noteq> []) (rev (remdups (rev ns))))"
  have d: "distinct (?l ns)" for ns by simp
  have s: "sorted (?l ns)" for ns by simp
  have m: "set (?l ns) = set ns - {[]}" for ns by auto
  have "?l names = ?l names'" if "set names = set names'"
    using sorted_distinct_set_unique [OF s d s d] m that by metis
  moreover have "sorted_wrt (<) (?l names)" using s d strict_sorted_iff by blast
  moreover have "map ci_name (contextItems names hasSession) = ?l names" by (simp add: contextItems_def comp_def)
  ultimately show ?thesis using m by (auto simp: contextItems_def)
qed

section \<open>The page title\<close>

text \<open>The separator's dot is code unit 183.\<close>

definition BASE_TITLE :: jstring where "BASE_TITLE = ''kube-console''"
definition SEPARATOR :: jstring where "SEPARATOR = '' '' @ [char_of (183 :: nat)] @ '' ''"

definition GENERIC_CONTEXTS :: "jstring list" where
  "GENERIC_CONTEXTS =
     [''default'', ''kubernetes'', ''kubernetes-admin'', ''kubernetes-admin@kubernetes'', ''kubernetes@kubernetes'', ''admin@kubernetes'',
      ''in-cluster'']"

definition clusterLabel :: "jstring option \<Rightarrow> jstring \<Rightarrow> jstring" where
  "clusterLabel clusterName ctx =
     (let configured = trim (case clusterName of Some n \<Rightarrow> n | None \<Rightarrow> []) in
      if configured \<noteq> [] then configured
      else let c = trim ctx in if to_lower c \<in> set GENERIC_CONTEXTS then [] else c)"

definition pageTitle :: "jstring option \<Rightarrow> jstring \<Rightarrow> jstring" where
  "pageTitle clusterName ctx =
     (let label = clusterLabel clusterName ctx in if label = [] then BASE_TITLE else label @ SEPARATOR @ BASE_TITLE)"

section \<open>The time axis\<close>

text \<open>The three formatters of \<^verbatim>\<open>Intl\<close> are parameters.\<close>

record axis_formats =
  ax_hourMin :: "rat \<Rightarrow> jstring"
  ax_hourMinSec :: "rat \<Rightarrow> jstring"
  ax_date :: "rat \<Rightarrow> jstring"

fun axis_loop :: "(rat \<Rightarrow> jstring) \<Rightarrow> (rat \<Rightarrow> jstring) \<Rightarrow> jstring \<Rightarrow> rat list \<Rightarrow> jstring list" where
  "axis_loop time date prevDay [] = []"
| "axis_loop time date prevDay (sec # rest) =
     (let ms = sec * 1000; day = date ms; label = time ms in
      if day = prevDay then label # axis_loop time date prevDay rest
      else (label @ [CHR 0x0A] @ day) # axis_loop time date day rest)"

definition timeAxisLabels :: "axis_formats \<Rightarrow> rat list \<Rightarrow> rat \<Rightarrow> jstring list" where
  "timeAxisLabels fmt splitsSec incrSec = axis_loop (if incrSec < 60 then ax_hourMinSec fmt else ax_hourMin fmt) (ax_date fmt) [] splitsSec"

text \<open>Each tick shows its time, and its date exactly when that differs from the previous tick's.\<close>

lemma axis_dates:
  "i < length secs \<Longrightarrow>
   axis_loop time date prevDay secs ! i =
     (let day = date (secs ! i * 1000); before = (if i = 0 then prevDay else date (secs ! (i - 1) * 1000)) in
      if day = before then time (secs ! i * 1000) else time (secs ! i * 1000) @ [CHR 0x0A] @ day)"
proof (induction secs arbitrary: i prevDay)
  case (Cons sec rest)
  show ?case
  proof (cases i)
    case 0
    then show ?thesis by (simp add: Let_def)
  next
    case (Suc j)
    then show ?thesis using Cons.IH [of j prevDay] Cons.IH [of j "date (sec * 1000)"] Cons.prems
      by (cases j) (auto simp: Let_def)
  qed
qed simp

section \<open>Revealed values\<close>

text \<open>The keys of the items the user un-masked; the watcher of \<^verbatim>\<open>resetOn\<close> clears them.\<close>

definition isRevealed :: "('a \<Rightarrow> jstring) \<Rightarrow> jstring list \<Rightarrow> 'a \<Rightarrow> bool" where
  "isRevealed keyOf revealed x \<longleftrightarrow> keyOf x \<in> set revealed"

definition toggle_reveal :: "('a \<Rightarrow> jstring) \<Rightarrow> 'a \<Rightarrow> jstring list \<Rightarrow> jstring list" where
  "toggle_reveal keyOf x revealed = (if keyOf x \<in> set revealed then filter (\<lambda>k. k \<noteq> keyOf x) revealed else revealed @ [keyOf x])"

datatype 'a reveal_op = Toggle 'a | SourceChanged

fun reveal_step :: "('a \<Rightarrow> jstring) \<Rightarrow> 'a reveal_op \<Rightarrow> jstring list \<Rightarrow> jstring list" where
  "reveal_step keyOf (Toggle x) revealed = toggle_reveal keyOf x revealed"
| "reveal_step keyOf SourceChanged revealed = []"

text \<open>The toggles of an item's key since the source last changed.\<close>

definition toggles_since :: "('a \<Rightarrow> jstring) \<Rightarrow> jstring \<Rightarrow> 'a reveal_op list \<Rightarrow> nat" where
  "toggles_since keyOf k ops =
     fold (\<lambda>e n. case e of Toggle x \<Rightarrow> if keyOf x = k then Suc n else n | SourceChanged \<Rightarrow> 0) ops 0"

text \<open>
  A value is shown only because the user asked for it on this object: it is revealed exactly when its key was toggled an odd number of times since the
  source last changed, so nothing revealed on one object is revealed on the next.
\<close>

theorem revealed_by_this_user_choice:
  "isRevealed keyOf (fold (reveal_step keyOf) ops []) x \<longleftrightarrow> odd (toggles_since keyOf (keyOf x) ops)"
proof -
  have "keyOf x \<in> set (fold (reveal_step keyOf) ops r) \<longleftrightarrow>
      odd (fold (\<lambda>e n. case e of Toggle y \<Rightarrow> if keyOf y = keyOf x then Suc n else n | SourceChanged \<Rightarrow> 0) ops n)"
    if "keyOf x \<in> set r \<longleftrightarrow> odd n" for r n
    using that
  proof (induction ops arbitrary: r n)
    case (Cons e ops)
    show ?case by (cases e) (auto simp: toggle_reveal_def Cons.prems intro!: Cons.IH)
  qed simp
  from this [of "[]" 0] show ?thesis by (simp add: isRevealed_def toggles_since_def)
qed

section \<open>Theme and shortcut\<close>

definition isDark :: "theme \<Rightarrow> bool \<Rightarrow> bool" where
  "isDark t prefersDark = (case t of ThemeDark \<Rightarrow> True | ThemeLight \<Rightarrow> False | ThemeSystem \<Rightarrow> prefersDark)"

record key_event =
  ke_ctrl :: bool
  ke_meta :: bool
  ke_shift :: bool
  ke_alt :: bool
  ke_key :: jstring
  ke_code :: jstring

definition is_latin_letter :: "jstring \<Rightarrow> bool" where
  "is_latin_letter s \<longleftrightarrow> (case s of [c] \<Rightarrow> is_lower_alpha (hd (to_lower [c])) | _ \<Rightarrow> False)"

definition isFindShortcut :: "key_event \<Rightarrow> bool" where
  "isFindShortcut e \<longleftrightarrow>
     (if \<not> (ke_ctrl e \<or> ke_meta e) \<or> ke_shift e \<or> ke_alt e then False
      else if to_lower (ke_key e) = ''f'' then True
      else ke_code e = ''KeyF'' \<and> \<not> is_latin_letter (ke_key e))"

section \<open>Routes\<close>

datatype route_name = RLogin | ROverview | RList | RDetail | RNotFound

record route_location =
  rl_name :: route_name
  rl_params :: "(jstring \<times> jstring) list"
  rl_query :: "(jstring \<times> jstring) list option"

definition resourceListRoute :: "resource_ref \<Rightarrow> (jstring \<times> jstring) list option \<Rightarrow> route_location" where
  "resourceListRoute ref query =
     \<lparr>rl_name = RList, rl_params = [(''group'', routeGroup (rr_group ref)), (''version'', rr_version ref), (''resource'', rr_resource ref)],
      rl_query = query\<rparr>"

definition resourceDetailRoute :: "resource_ref \<Rightarrow> jstring option \<Rightarrow> jstring \<Rightarrow> route_location" where
  "resourceDetailRoute ref ns name =
     \<lparr>rl_name = RDetail,
      rl_params = [(''group'', routeGroup (rr_group ref)), (''version'', rr_version ref), (''resource'', rr_resource ref),
                   (''namespace'', if ns = None \<or> ns = Some [] then CLUSTER_SCOPE_SENTINEL else the ns), (''name'', name)],
      rl_query = None\<rparr>"

text \<open>The detail page's own reading of its parameters.\<close>

record page_props =
  pp_group :: jstring
  pp_version :: jstring
  pp_resource :: jstring
  pp_namespace :: jstring
  pp_name :: jstring

definition props_of :: "route_location \<Rightarrow> page_props" where
  "props_of r =
     (let get = (\<lambda>k. case map_of (rl_params r) k of Some v \<Rightarrow> v | None \<Rightarrow> [])
      in \<lparr>pp_group = get ''group'', pp_version = get ''version'', pp_resource = get ''resource'', pp_namespace = get ''namespace'',
          pp_name = get ''name''\<rparr>)"

definition apiRef :: "page_props \<Rightarrow> resource_ref" where
  "apiRef p = \<lparr>rr_group = (if pp_group p = ''core'' then [] else pp_group p), rr_version = pp_version p, rr_resource = pp_resource p\<rparr>"

definition objectNamespace :: "page_props \<Rightarrow> jstring option" where
  "objectNamespace p = (if pp_namespace p = CLUSTER_SCOPE_SENTINEL then None else Some (pp_namespace p))"

definition objectKey :: "page_props \<Rightarrow> jstring" where
  "objectKey p = join ''/'' [pp_group p, pp_version p, pp_resource p, pp_namespace p, pp_name p]"

text \<open>
  A detail link opens the object it was made for: the page reads back the same resource, name and namespace (an empty one is none), for every API group but
  the literal "core" and every namespace but the sentinel, which is not a valid namespace name.
\<close>

theorem detail_route_roundtrip:
  "let p = props_of (resourceDetailRoute ref ns name) in
   pp_name p = name \<and>
   (if rr_group ref = ''core'' then rr_group (apiRef p) = [] else apiRef p = ref) \<and>
   (case ns of
      Some n \<Rightarrow> if isDNS1123Label n then objectNamespace p = Some n else if n = [] then objectNamespace p = None else True
    | None \<Rightarrow> objectNamespace p = None)"
proof -
  have "n \<noteq> CLUSTER_SCOPE_SENTINEL" if "isDNS1123Label n" for n using that sentinel_is_no_namespace by auto
  moreover have "\<not> isDNS1123Label []" by (simp add: isDNS1123Label_def)
  ultimately show ?thesis
    by (auto simp: props_of_def Let_def resourceDetailRoute_def apiRef_def objectNamespace_def routeGroup_def split: option.split)
qed

section \<open>The tabs of the detail page\<close>

datatype tab_id = TabOverview | TabYaml | TabEnv | TabLogs | TabMetrics | TabTerminal

definition detail_tabs :: "jstring \<Rightarrow> bool \<Rightarrow> tab_id list" where
  "detail_tabs kind ownsPods =
     [TabOverview, TabYaml] @
     (if kind = ''Pod'' then [TabEnv, TabLogs, TabMetrics, TabTerminal]
      else if kind = ''Node'' then [TabMetrics]
      else if ownsPods then [TabLogs] else [])"

record detail_view =
  dv_active :: tab_id
  dv_terminalMounted :: bool
  dv_yamlMounted :: bool
  dv_kind :: jstring
  dv_ownsPods :: bool

definition new_view :: detail_view where
  "new_view = \<lparr>dv_active = TabOverview, dv_terminalMounted = False, dv_yamlMounted = False, dv_kind = [], dv_ownsPods = False\<rparr>"

text \<open>The watcher of the active tab mounts the two tabs that outlive a switch.\<close>

definition activate :: "tab_id \<Rightarrow> detail_view \<Rightarrow> detail_view" where
  "activate t v =
     v\<lparr>dv_active := t, dv_terminalMounted := (dv_terminalMounted v \<or> t = TabTerminal), dv_yamlMounted := (dv_yamlMounted v \<or> t = TabYaml)\<rparr>"

text \<open>The tab list is recomputed from the object's kind and its owned pods; the watcher falls back to the overview.\<close>

definition tabs_change :: "jstring \<Rightarrow> bool \<Rightarrow> detail_view \<Rightarrow> detail_view" where
  "tabs_change kind ownsPods v =
     (let v' = v\<lparr>dv_kind := kind, dv_ownsPods := ownsPods\<rparr>
      in if dv_active v' \<in> set (detail_tabs kind ownsPods) then v' else activate TabOverview v')"

datatype view_op = SelectTab tab_id | ObjectChanges jstring bool

fun view_step :: "view_op \<Rightarrow> detail_view \<Rightarrow> detail_view" where
  "view_step (SelectTab t) v = (if t \<in> set (detail_tabs (dv_kind v) (dv_ownsPods v)) then activate t v else v)"
| "view_step (ObjectChanges kind ownsPods) v = tabs_change kind ownsPods v"

text \<open>
  The detail page always shows a tab it offers, the terminal only for a pod, and the terminal and the YAML editor stay mounted once
  they have been opened.
\<close>

theorem active_tab_is_offered:
  "let v = fold view_step ops new_view in
   dv_active v \<in> set (detail_tabs (dv_kind v) (dv_ownsPods v)) \<and>
   (if dv_active v = TabTerminal then dv_kind v = ''Pod'' \<and> dv_terminalMounted v else True) \<and>
   (if dv_active v = TabYaml then dv_yamlMounted v else True) \<and>
   (if dv_terminalMounted v then dv_terminalMounted (view_step e v) else True) \<and>
   (if dv_yamlMounted v then dv_yamlMounted (view_step e v) else True)"
proof -
  define ok :: "detail_view \<Rightarrow> bool" where "ok v \<longleftrightarrow> dv_active v \<in> set (detail_tabs (dv_kind v) (dv_ownsPods v)) \<and>
      (dv_terminalMounted v \<or> dv_active v \<noteq> TabTerminal) \<and> (dv_yamlMounted v \<or> dv_active v \<noteq> TabYaml)" for v
  have "ok v \<Longrightarrow> ok (view_step e v)" for e v
    by (cases e) (auto simp: ok_def activate_def tabs_change_def Let_def detail_tabs_def)
  then have "ok v \<Longrightarrow> ok (fold view_step ops v)" for v by (induction ops arbitrary: v) simp_all
  moreover have "ok new_view" by (simp add: ok_def new_view_def detail_tabs_def)
  ultimately have "ok (fold view_step ops new_view)" by blast
  then show ?thesis
    by (cases e) (auto simp: Let_def ok_def activate_def tabs_change_def detail_tabs_def split: if_splits)
qed

end
