(* ===== verification/ProblemPods.thy ===== *)
theory ProblemPods
  imports PollHost DetailObject Sort
begin

text \<open>
  The script of \<^verbatim>\<open>components/pod/ProblemPodsCard.vue\<close>: a bounded scan of all pods, polled by the polling loop, judged by \<open>podProblem\<close> and
  projected by \<open>tableToMini\<close>. A scan settles by an operation that carries its number; the events the card emits are kept as the
  last one.
\<close>

definition SHOWN_COLUMNS :: "jstring list" where
  "SHOWN_COLUMNS = [''Ready'', ''Status'', ''Restarts'', ''Age'', ''Node'']"

definition MAX_PAGES :: nat where "MAX_PAGES = 6"
definition MAX_ROWS :: nat where "MAX_ROWS = 50"
definition REFRESH_INTERVAL_MS :: nat where "REFRESH_INTERVAL_MS = 60000"

text \<open>\<^verbatim>\<open>Date.parse\<close>, \<^verbatim>\<open>localeCompare\<close> and \<^verbatim>\<open>JSON.stringify\<close> of a cell.\<close>

record scan_env =
  sn_parse :: "jstring \<Rightarrow> int option"
  sn_coll :: "jstring \<Rightarrow> jstring \<Rightarrow> int"
  sn_stringified :: "table_row \<Rightarrow> nat \<Rightarrow> jstring"

section \<open>What a scan shows\<close>

definition rank_of :: "table_row \<times> pod_problem \<Rightarrow> int" where
  "rank_of m = int (PROBLEM_RANK (snd m))"

definition problem_cmp :: "(jstring \<Rightarrow> jstring \<Rightarrow> int) \<Rightarrow> table_row \<times> pod_problem \<Rightarrow> table_row \<times> pod_problem \<Rightarrow> int" where
  "problem_cmp coll =
     cmp_then (\<lambda>a b. rank_of a - rank_of b)
       (cmp_then (\<lambda>a b. coll (row_text om_namespace (fst a)) (row_text om_namespace (fst b)))
                 (\<lambda>a b. coll (row_text om_name (fst a)) (row_text om_name (fst b))))"

definition judged :: "scan_env \<Rightarrow> pod_columns \<Rightarrow> int \<Rightarrow> table_row \<Rightarrow> (table_row \<times> pod_problem) list" where
  "judged env cols now row = (case podProblem (sn_parse env) row cols now of None \<Rightarrow> [] | Some p \<Rightarrow> [(row, p)])"

definition matched_pods :: "scan_env \<Rightarrow> table_column list \<Rightarrow> table_row list \<Rightarrow> int \<Rightarrow> (table_row \<times> pod_problem) list" where
  "matched_pods env defs rows now =
     js_sort (problem_cmp (sn_coll env)) (concat (map (judged env (podColumnIndexes defs) now) rows))"

definition problem_table :: "scan_env \<Rightarrow> table_column list \<Rightarrow> (table_row \<times> pod_problem) list \<Rightarrow> mini_table" where
  "problem_table env defs matched =
     tableToMini (sn_stringified env) (Some defs) (Some (map fst (take MAX_ROWS matched)))
       \<lparr>mo_keepOnly = Some SHOWN_COLUMNS, mo_rowFilter = None\<rparr>"

section \<open>State\<close>

text \<open>\<open>pb_from\<close> is the cluster the shown rows and the emitted count are from; no operation reads it.\<close>

record problem_pods =
  pb_loop :: poll_loop
  pb_columns :: "jstring list"
  pb_rows :: "mini_row list"
  pb_matchCount :: nat
  pb_truncated :: bool
  pb_loading :: bool
  pb_error :: "jstring option"
  pb_scanSeq :: nat
  pb_hidden :: bool
  pb_scans :: "(nat \<times> nat \<times> jstring) list"
  pb_context :: jstring
  pb_count :: "nat option \<times> bool"
  pb_from :: "jstring option"

definition new_problems :: "jstring \<Rightarrow> problem_pods" where
  "new_problems c = \<lparr>pb_loop = new_loop, pb_columns = [], pb_rows = [], pb_matchCount = 0, pb_truncated = False, pb_loading = False, pb_error = None,
     pb_scanSeq = 0, pb_hidden = False, pb_scans = [], pb_context = c, pb_count = (None, False), pb_from = None\<rparr>"

definition reset_problems :: "problem_pods \<Rightarrow> problem_pods" where
  "reset_problems st = st\<lparr>pb_columns := [], pb_rows := [], pb_matchCount := 0, pb_truncated := False, pb_error := None\<rparr>"

definition problem_tick :: "nat \<Rightarrow> problem_pods \<Rightarrow> problem_pods" where
  "problem_tick g st =
     (if pb_hidden st then st
      else let scan = Suc (pb_scanSeq st)
           in st\<lparr>pb_scanSeq := scan, pb_loading := True, pb_scans := (scan, g, pb_context st) # pb_scans st\<rparr>)"

definition problem_onStop :: "problem_pods \<Rightarrow> problem_pods" where
  "problem_onStop st = st\<lparr>pb_scanSeq := Suc (pb_scanSeq st)\<rparr>"

definition put_problems :: "poll_loop \<Rightarrow> problem_pods \<Rightarrow> problem_pods" where
  "put_problems l st = st\<lparr>pb_loop := l\<rparr>"

definition drive_problems :: "poll_event \<Rightarrow> problem_pods \<Rightarrow> problem_pods" where
  "drive_problems = host_step pb_loop put_problems problem_tick problem_onStop REFRESH_INTERVAL_MS"

type_synonym scan_result = "thrown + (table_column list \<times> table_row list \<times> bool)"

definition forbidden :: "thrown \<Rightarrow> bool" where
  "forbidden e \<longleftrightarrow> (case asApiError e of ApiError status _ _ \<Rightarrow> status = 403 | _ \<Rightarrow> False)"

definition scan_lands :: "scan_env \<Rightarrow> int \<Rightarrow> jstring \<Rightarrow> scan_result \<Rightarrow> problem_pods \<Rightarrow> problem_pods" where
  "scan_lands env now ctx r st =
     (case r of
        Inr (defs, rows, truncated) \<Rightarrow>
          (let matched = matched_pods env defs rows now; mini = problem_table env defs matched
           in st\<lparr>pb_columns := mt_columns mini, pb_rows := mt_rows mini, pb_matchCount := length matched, pb_truncated := truncated,
                 pb_error := None, pb_count := (Some (length matched), truncated), pb_from := Some ctx\<rparr>)
      | Inl e \<Rightarrow>
          st\<lparr>pb_rows := [], pb_matchCount := 0, pb_error := (if forbidden e then None else Some (messageFromError e None)),
             pb_count := (None, False), pb_from := None\<rparr>)"

definition scan_settles :: "scan_env \<Rightarrow> int \<Rightarrow> nat \<Rightarrow> scan_result \<Rightarrow> problem_pods \<Rightarrow> problem_pods" where
  "scan_settles env now scan r st =
     (case map_of (pb_scans st) scan of
        None \<Rightarrow> st
      | Some (g, ctx) \<Rightarrow>
          let st0 = st\<lparr>pb_scans := filter (\<lambda>e. fst e \<noteq> scan) (pb_scans st)\<rparr>;
              st1 = (if isCurrent g (pb_loop st0) \<and> scan = pb_scanSeq st0
                     then (scan_lands env now ctx r st0)\<lparr>pb_loading := False\<rparr> else st0)
          in drive_problems (TickDone g) st1)"

text \<open>The tick of a hidden tab returns at once.\<close>

definition hidden_tick_returns :: "nat \<Rightarrow> problem_pods \<Rightarrow> problem_pods" where
  "hidden_tick_returns g st = (if g \<in> (fst \<circ> snd) ` set (pb_scans st) then st else drive_problems (TickDone g) st)"

definition problems_context :: "jstring \<Rightarrow> bool \<Rightarrow> problem_pods \<Rightarrow> problem_pods" where
  "problems_context c authenticated st =
     (let st1 = reset_problems (drive_problems PollStop (st\<lparr>pb_context := c\<rparr>));
          st2 = st1\<lparr>pb_loading := False, pb_count := (None, False), pb_from := None\<rparr>
      in if authenticated then drive_problems (PollStart False) st2 else st2)"

datatype problem_event =
    PRefresh | PUnmount | PScanned int nat scan_result | PReturns nat | PTimer nat | PVisibility bool | PElapse nat | PContext jstring bool

definition problem_step :: "scan_env \<Rightarrow> problem_event \<Rightarrow> problem_pods \<Rightarrow> problem_pods" where
  "problem_step env e st =
     (case e of
        PRefresh \<Rightarrow> drive_problems (PollStart False) st
      | PUnmount \<Rightarrow> drive_problems PollStop st
      | PScanned now scan r \<Rightarrow> scan_settles env now scan r st
      | PReturns g \<Rightarrow> hidden_tick_returns g st
      | PTimer i \<Rightarrow> drive_problems (TimerFired (pb_hidden st) i) st
      | PVisibility hidden \<Rightarrow> drive_problems (Visibility hidden) (st\<lparr>pb_hidden := hidden\<rparr>)
      | PElapse d \<Rightarrow> drive_problems (Elapse d) st
      | PContext c authenticated \<Rightarrow> problems_context c authenticated st)"

definition run_problems :: "scan_env \<Rightarrow> jstring \<Rightarrow> problem_event list \<Rightarrow> problem_pods" where
  "run_problems env c es = fold (problem_step env) es (new_problems c)"

interpretation problems_host: poll_client pb_loop put_problems problem_tick problem_onStop
  by unfold_locales (simp_all add: put_problems_def problem_tick_def problem_onStop_def Let_def)

section \<open>The invariant\<close>

definition scan_ok :: "jstring \<Rightarrow> (nat \<times> jstring) option \<Rightarrow> bool" where
  "scan_ok c x \<longleftrightarrow> (case x of None \<Rightarrow> True | Some (_, c') \<Rightarrow> c' = c)"

lemma scan_ok_simps [simp]: "scan_ok c None" "scan_ok c (Some (g, c')) \<longleftrightarrow> c' = c"
  by (simp_all add: scan_ok_def)

definition shown_ok :: "nat option \<times> bool \<Rightarrow> mini_row list \<Rightarrow> nat \<Rightarrow> jstring option \<Rightarrow> jstring option \<Rightarrow> jstring \<Rightarrow> bool" where
  "shown_ok ct rows matches err src c \<longleftrightarrow>
     (case ct of
        (Some n, _) \<Rightarrow> n = matches \<and> length rows = min n MAX_ROWS \<and> err = None \<and> src = Some c
      | (None, truncated) \<Rightarrow> rows = [] \<and> matches = 0 \<and> \<not> truncated)"

lemma shown_ok_simps [simp]:
  "shown_ok (None, t) rows n err src c \<longleftrightarrow> rows = [] \<and> n = 0 \<and> \<not> t"
  "shown_ok (Some k, t) rows n err src c \<longleftrightarrow> k = n \<and> length rows = min k MAX_ROWS \<and> err = None \<and> src = Some c"
  by (simp_all add: shown_ok_def)

definition problems_inv :: "problem_pods \<Rightarrow> bool" where
  "problems_inv st \<longleftrightarrow>
     list_all (\<lambda>(scan, _). scan \<le> pb_scanSeq st) (pb_scans st) \<and>
     scan_ok (pb_context st) (map_of (pb_scans st) (pb_scanSeq st)) \<and>
     shown_ok (pb_count st) (pb_rows st) (pb_matchCount st) (pb_error st) (pb_from st) (pb_context st)"

lemma scan_keys: "list_all (\<lambda>(scan, _). scan \<le> (n :: nat)) xs \<Longrightarrow> list_all (\<lambda>(scan, _). scan \<le> Suc n) xs \<and> map_of xs (Suc n) = None"
  by (induction xs) (auto simp: case_prod_beta)

lemma problems_inv_tick: "problems_inv st \<Longrightarrow> problems_inv (problem_tick g st)"
  using scan_keys [of "pb_scanSeq st" "pb_scans st"] by (simp add: problems_inv_def problem_tick_def Let_def)

lemma problems_inv_onStop: "problems_inv st \<Longrightarrow> problems_inv (problem_onStop st)"
  using scan_keys [of "pb_scanSeq st" "pb_scans st"] by (simp add: problems_inv_def problem_onStop_def)

lemma problems_inv_drive: "problems_inv st \<Longrightarrow> problems_inv (drive_problems e st)"
proof -
  assume "problems_inv st"
  then have "problems_inv (put_problems l st)" for l by (simp add: problems_inv_def put_problems_def)
  then have "problems_inv (let s1 = put_problems l st in case e of PollStart _ \<Rightarrow> problem_onStop s1 | PollStop \<Rightarrow> problem_onStop s1 | _ \<Rightarrow> s1)" for l
    by (cases e) (simp_all add: problems_inv_onStop Let_def)
  then show ?thesis
    by (cases rule: problems_host.host_step_cases [of REFRESH_INTERVAL_MS e st])
       (simp_all add: drive_problems_def Let_def problems_inv_tick del: poll_step.simps)
qed

lemma problems_inv_lands:
  assumes "problems_inv st" "ctx = pb_context st"
  shows "problems_inv ((scan_lands env now ctx r st)\<lparr>pb_loading := False\<rparr>)"
  using assms
  by (cases r) (auto simp: problems_inv_def scan_lands_def Let_def problem_table_def tableToMini_def or_empty_def)

lemma problems_inv_settles: "problems_inv st \<Longrightarrow> problems_inv (scan_settles env now scan r st)"
proof (cases "map_of (pb_scans st) scan")
  case (Some x)
  assume inv: "problems_inv st"
  obtain g ctx where x: "x = (g, ctx)" by fastforce
  let ?s = "st\<lparr>pb_scans := filter (\<lambda>e. fst e \<noteq> scan) (pb_scans st)\<rparr>"
  have m: "map_of (filter (\<lambda>e. fst e \<noteq> scan) xs) k = (if k = scan then None else map_of xs k)" for xs :: "(nat \<times> nat \<times> jstring) list" and k
    by (induction xs) auto
  have s: "problems_inv ?s" using inv by (auto simp: problems_inv_def m list_all_iff)
  have own: "ctx = pb_context ?s" if "scan = pb_scanSeq st" using inv Some x that by (simp add: problems_inv_def)
  show ?thesis
  proof (cases "isCurrent g (pb_loop st) \<and> scan = pb_scanSeq st")
    case True
    then have "problems_inv ((scan_lands env now ctx r ?s)\<lparr>pb_loading := False\<rparr>)"
      using problems_inv_lands [OF s] own by blast
    from problems_inv_drive [OF this, of "TickDone g"] show ?thesis using Some x True
      by (simp add: scan_settles_def Let_def)
  next
    case False
    then show ?thesis using Some x problems_inv_drive [OF s, of "TickDone g"] by (auto simp: scan_settles_def Let_def)
  qed
qed (simp add: scan_settles_def)

lemma problems_inv_context: "problems_inv st \<Longrightarrow> problems_inv (problems_context c authenticated st)"
proof -
  assume inv: "problems_inv st"
  have "drive_problems PollStop (st\<lparr>pb_context := c\<rparr>) = problem_onStop (put_problems (poll_stop (pb_loop st)) (st\<lparr>pb_context := c\<rparr>))"
    by (simp add: drive_problems_def host_step_def Let_def)
  then have "problems_inv ((reset_problems (drive_problems PollStop (st\<lparr>pb_context := c\<rparr>)))\<lparr>pb_loading := False, pb_count := (None, False), pb_from := None\<rparr>)"
    using inv scan_keys [of "pb_scanSeq st" "pb_scans st"]
    by (simp add: problems_inv_def reset_problems_def problem_onStop_def put_problems_def)
  then show ?thesis by (simp add: problems_context_def Let_def problems_inv_drive)
qed

lemma run_problems_inv: "problems_inv (run_problems env c es)"
proof -
  have "problems_inv (st\<lparr>pb_hidden := h\<rparr>)" if "problems_inv st" for st h using that by (simp add: problems_inv_def)
  then have "problems_inv st \<Longrightarrow> problems_inv (problem_step env e st)" for st e
    by (cases e) (simp_all add: problem_step_def problems_inv_drive problems_inv_settles hidden_tick_returns_def problems_inv_context)
  then have "problems_inv st \<Longrightarrow> problems_inv (fold (problem_step env) es st)" for st
    by (induction es arbitrary: st) simp_all
  moreover have "problems_inv (new_problems c)" by (simp add: problems_inv_def new_problems_def)
  ultimately show ?thesis by (simp add: run_problems_def)
qed

section \<open>Properties\<close>

text \<open>
  The problem count is that of the active cluster, or none: however scans, refreshes, hidden tabs and context switches interleave, an emitted count is the number of
  matches of a finished scan of the active cluster, with its rows (at most fifty) on screen and no error; without one no row is shown.
\<close>

theorem problem_count_is_of_active_cluster:
  "let st = run_problems env c es in
   case pb_count st of
     (Some n, _) \<Rightarrow> pb_from st = Some (pb_context st) \<and> n = pb_matchCount st \<and> length (pb_rows st) = min n MAX_ROWS \<and> pb_error st = None
   | (None, truncated) \<Rightarrow> pb_rows st = [] \<and> pb_matchCount st = 0 \<and> \<not> truncated"
  using run_problems_inv [of env c es] by (auto simp: Let_def problems_inv_def split: prod.split option.split)

text \<open>
  The card shows the worst pods: when the host's string comparison is one, the matches are exactly the rows that podProblem
  reports, errors before pods that are not ready before stuck ones, so that whatever the cap cuts off is no worse than anything shown.
\<close>

theorem worst_pods_first:
  assumes "comparator (sn_coll env)"
  shows "let matched = matched_pods env defs rows now in
         mset (map fst matched) = mset (filter (\<lambda>row. podProblem (sn_parse env) row (podColumnIndexes defs) now \<noteq> None) rows) \<and>
         sorted_wrt (\<lambda>a b. PROBLEM_RANK (snd a) \<le> PROBLEM_RANK (snd b)) matched"
proof -
  have "comparator (\<lambda>a b. sn_coll env (row_text f (fst a)) (row_text f (fst b)))" for f and a :: "table_row \<times> pod_problem"
    using assms by (rule comparator_on)
  then have c: "comparator (problem_cmp (sn_coll env))"
    unfolding problem_cmp_def using comparator_then comparator_diff assms comparator_on by metis
  have rank: "PROBLEM_RANK (snd a) \<le> PROBLEM_RANK (snd b)" if "problem_cmp (sn_coll env) a b \<le> 0" for a b
    using that by (auto simp: problem_cmp_def cmp_then_def rank_of_def split: if_splits)
  have "sorted_wrt (\<lambda>a b. PROBLEM_RANK (snd a) \<le> PROBLEM_RANK (snd b)) (matched_pods env defs rows now)"
    unfolding matched_pods_def by (rule sorted_wrt_mono_rel [OF _ comparator.js_sort_sorted [OF c]]) (rule rank)
  moreover have "map fst (concat (map (judged env cols now) rows)) = filter (\<lambda>row. podProblem (sn_parse env) row cols now \<noteq> None) rows" for cols
    by (induction rows) (auto simp: judged_def split: option.split)
  then have "mset (map fst (concat (map (judged env cols now) rows))) = mset (filter (\<lambda>row. podProblem (sn_parse env) row cols now \<noteq> None) rows)" for cols
    by simp
  ultimately show ?thesis by (simp add: Let_def matched_pods_def)
qed

definition sample_columns :: "table_column list" where
  "sample_columns = [\<lparr>tc_name = ''Status'', tc_type = ''string'', tc_priority = None\<rparr>]"

definition sample_env :: scan_env where
  "sample_env = \<lparr>sn_parse = \<lambda>_. None, sn_coll = str_cmp, sn_stringified = \<lambda>_ _. []\<rparr>"

lemma sample_verdicts:
  "podProblem (sn_parse sample_env) \<lparr>tr_cells = [CStr ''Pending''], tr_meta = None\<rparr> (podColumnIndexes sample_columns) 0 = Some PStuck"
  "podProblem (sn_parse sample_env) \<lparr>tr_cells = [CStr ''Running''], tr_meta = None\<rparr> (podColumnIndexes sample_columns) 0 = None"
  "podProblem (sn_parse sample_env) \<lparr>tr_cells = [CStr ''Error''], tr_meta = None\<rparr> (podColumnIndexes sample_columns) 0 = Some PError"
proof -
  have cols: "podColumnIndexes sample_columns = \<lparr>pc_status = Some 0, pc_ready = None\<rparr>" by code_simp
  have lower: "to_lower (trim ''Pending'') = ''pending''" "to_lower (trim ''Running'') = ''running''" "to_lower (trim ''Error'') = ''error''" by code_simp+
  have status: "pod_status \<lparr>tr_cells = [CStr s], tr_meta = None\<rparr> \<lparr>pc_status = Some 0, pc_ready = None\<rparr> = to_lower (trim s)" for s
    by (simp add: pod_status_def cellAt_def scalarCellText_def cell_string_def)
  have "\<not> init_progress ''running''" "\<not> init_progress ''error''" "is_terminal ''error''" "\<not> readyMismatch []" by code_simp+
  then show "podProblem (sn_parse sample_env) \<lparr>tr_cells = [CStr ''Pending''], tr_meta = None\<rparr> (podColumnIndexes sample_columns) 0 = Some PStuck"
    "podProblem (sn_parse sample_env) \<lparr>tr_cells = [CStr ''Running''], tr_meta = None\<rparr> (podColumnIndexes sample_columns) 0 = None"
    "podProblem (sn_parse sample_env) \<lparr>tr_cells = [CStr ''Error''], tr_meta = None\<rparr> (podColumnIndexes sample_columns) 0 = Some PError"
    unfolding podProblem_def cols status lower
    by (simp_all add: TRANSIENT_STATUSES_def HEALTHY_STATUSES_def older_than_def stateAgeMs_def cellAt_def sample_env_def statusAgeMs_def)
qed

theorem worst_pods_first_witness:
  "let rows = [\<lparr>tr_cells = [CStr ''Pending''], tr_meta = None\<rparr>, \<lparr>tr_cells = [CStr ''Running''], tr_meta = None\<rparr>,
               \<lparr>tr_cells = [CStr ''Error''], tr_meta = None\<rparr>];
       matched = matched_pods sample_env sample_columns rows 0
   in mset (map fst matched) = {#rows ! 0, rows ! 2#} \<and> sorted_wrt (\<lambda>a b. PROBLEM_RANK (snd a) \<le> PROBLEM_RANK (snd b)) matched"
proof -
  let ?rows = "[\<lparr>tr_cells = [CStr ''Pending''], tr_meta = None\<rparr>, \<lparr>tr_cells = [CStr ''Running''], tr_meta = None\<rparr>,
               \<lparr>tr_cells = [CStr ''Error''], tr_meta = None\<rparr>]"
  have "comparator (sn_coll sample_env)" using code_units.comparator_axioms by (simp add: sample_env_def)
  note w = worst_pods_first [OF this, of sample_columns ?rows 0]
  have "map (\<lambda>row. podProblem (sn_parse sample_env) row (podColumnIndexes sample_columns) 0 \<noteq> None) ?rows = [True, False, True]"
    using sample_verdicts by simp
  then show ?thesis using w by (simp add: Let_def)
qed

end
