(* ===== verification/TableView.thy ===== *)
theory TableView
  imports DetailObject StatusColors TableSort
begin

text \<open>
  The script of \<^verbatim>\<open>components/table/ResourceTable.vue\<close>: column ids, columns hidden for carrying no information, the width memo, and the sort the table
  holds. The sorting, filtering and virtual scrolling themselves are TanStack's. A change of the properties runs the watchers in
  their declared order.
\<close>

section \<open>Column ids\<close>

definition suffixed :: "jstring \<Rightarrow> nat \<Rightarrow> jstring" where
  "suffixed name n = name @ ''#'' @ show_nat n"

text \<open>The loop over suffixes ends within as many steps as there are ids in use, plus one: the fuel.\<close>

fun suffix_loop :: "jstring list \<Rightarrow> jstring \<Rightarrow> nat \<Rightarrow> nat \<Rightarrow> jstring" where
  "suffix_loop used name n 0 = suffixed name n"
| "suffix_loop used name n (Suc fuel) = (if suffixed name n \<in> set used then suffix_loop used name (Suc n) fuel else suffixed name n)"

definition fresh_id :: "jstring list \<Rightarrow> jstring \<Rightarrow> jstring" where
  "fresh_id used name = (if name \<notin> set used then name else suffix_loop used name 2 (length used))"

fun ids_loop :: "jstring list \<Rightarrow> jstring list \<Rightarrow> jstring list" where
  "ids_loop used [] = []"
| "ids_loop used (name # names) = (let i = fresh_id used name in i # ids_loop (i # used) names)"

definition columnIds :: "table_column list \<Rightarrow> jstring list" where
  "columnIds columns = ids_loop [] (map tc_name columns)"

section \<open>Columns without information\<close>

definition has_value :: "(table_row \<Rightarrow> nat \<Rightarrow> jstring) \<Rightarrow> nat \<Rightarrow> table_row \<Rightarrow> bool" where
  "has_value stringified i row =
     (let t = trim (cellText (stringified row i) (cell_at row i)) in t \<noteq> [] \<and> t \<noteq> ''<none>'')"

text \<open>One column's turn: the names found empty so far and the ids known to hold a value.\<close>

definition judge_column ::
  "(table_row \<Rightarrow> nat \<Rightarrow> jstring) \<Rightarrow> table_row list \<Rightarrow> nat \<times> table_column \<times> jstring \<Rightarrow> jstring list \<times> jstring list \<Rightarrow> jstring list \<times> jstring list" where
  "judge_column stringified rows x acc =
     (let (i, col, cid) = x; (empties, seen) = acc in
      if tc_name col = ''Name'' \<or> cid \<in> set seen then acc
      else if list_ex (has_value stringified i) rows then (empties, cid # seen)
      else (tc_name col # empties, seen))"

definition indexed :: "table_column list \<Rightarrow> (nat \<times> table_column \<times> jstring) list" where
  "indexed columns = List.enumerate 0 (zip columns (columnIds columns))"

definition emptyColumnNames ::
  "(table_row \<Rightarrow> nat \<Rightarrow> jstring) \<Rightarrow> table_column list \<Rightarrow> table_row list \<Rightarrow> jstring list \<Rightarrow> jstring list \<times> jstring list" where
  "emptyColumnNames stringified columns rows nonEmptySeen =
     (if rows = [] then ([], nonEmptySeen) else fold (judge_column stringified rows) (indexed columns) ([], nonEmptySeen))"

definition visibleColumns :: "table_column list \<Rightarrow> jstring list \<Rightarrow> (nat \<times> table_column) list" where
  "visibleColumns columns empties = filter (\<lambda>(_, col). tc_name col \<notin> set empties) (List.enumerate 0 columns)"

section \<open>Widths\<close>

definition columnNamesKey :: "table_column list \<Rightarrow> jstring" where
  "columnNamesKey columns = join ''|'' (map tc_name columns)"

definition widths_key :: "table_column list \<Rightarrow> table_row list \<Rightarrow> jstring" where
  "widths_key columns rows = columnNamesKey columns @ ''#'' @ show_nat (min (length rows) SAMPLE_ROWS)"

definition defaultWidths ::
  "(table_column list \<Rightarrow> table_row list \<Rightarrow> int list) \<Rightarrow> table_column list \<Rightarrow> table_row list \<Rightarrow> jstring \<times> int list \<Rightarrow> jstring \<times> int list" where
  "defaultWidths estimate columns rows cached =
     (let key = widths_key columns rows in if key \<noteq> fst cached then (key, estimate columns rows) else cached)"

definition cell_class :: "jstring \<Rightarrow> jstring \<Rightarrow> jstring" where
  "cell_class header t =
     (case Option.bind (statusColumnKind header) (\<lambda>kind. cellTextClass kind t) of Some c \<Rightarrow> c | None \<Rightarrow> NEUTRAL_TEXT_CLASS)"

section \<open>The sort\<close>

text \<open>\<open>tv_wanted\<close> is the \<^verbatim>\<open>defaultSort\<close> property, \<open>tv_resetKey\<close> the \<^verbatim>\<open>resetKey\<close> one; a sorted column is its id and whether it descends.\<close>

record table_view =
  tv_columns :: "table_column list"
  tv_resetKey :: "jstring option"
  tv_wanted :: "jstring option"
  tv_sorting :: "(jstring \<times> bool) list"
  tv_sizing :: "(jstring \<times> int) list"
  tv_pending :: bool
  tv_seen :: "jstring list"

definition set_key :: "table_column list \<Rightarrow> jstring option \<Rightarrow> jstring" where
  "set_key columns resetKey = (case resetKey of Some k \<Rightarrow> k | None \<Rightarrow> columnNamesKey columns)"

definition columnSetKey :: "table_view \<Rightarrow> jstring" where
  "columnSetKey st = set_key (tv_columns st) (tv_resetKey st)"

definition resolved_sort :: "jstring option \<Rightarrow> table_column list \<Rightarrow> (jstring \<times> bool) list" where
  "resolved_sort wanted columns =
     (case wanted of
        None \<Rightarrow> []
      | Some c \<Rightarrow>
          (case find_index (\<lambda>col. tc_name col = c) columns of
             None \<Rightarrow> []
           | Some i \<Rightarrow> [(columnIds columns ! i, False)]))"

definition defaultSorting :: "table_view \<Rightarrow> (jstring \<times> bool) list" where
  "defaultSorting st = resolved_sort (tv_wanted st) (tv_columns st)"

definition applyDefaultSort :: "table_view \<Rightarrow> table_view" where
  "applyDefaultSort st =
     (if defaultSorting st = [] then st else st\<lparr>tv_sorting := defaultSorting st, tv_pending := False\<rparr>)"

definition open_table :: "table_column list \<Rightarrow> jstring option \<Rightarrow> jstring option \<Rightarrow> table_view" where
  "open_table columns resetKey wanted =
     applyDefaultSort \<lparr>tv_columns = columns, tv_resetKey = resetKey, tv_wanted = wanted, tv_sorting = [], tv_sizing = [], tv_pending = True,
                       tv_seen = []\<rparr>"

text \<open>The two watchers: on another resource (\<^verbatim>\<open>columnSetKey\<close>), then on other columns (\<^verbatim>\<open>columnNamesKey\<close>).\<close>

definition set_props :: "table_column list \<Rightarrow> jstring option \<Rightarrow> jstring option \<Rightarrow> table_view \<Rightarrow> table_view" where
  "set_props columns resetKey wanted st = st\<lparr>tv_columns := columns, tv_resetKey := resetKey, tv_wanted := wanted\<rparr>"

definition reset_table :: "table_view \<Rightarrow> table_view" where
  "reset_table st = applyDefaultSort (st\<lparr>tv_seen := [], tv_sizing := [], tv_sorting := [], tv_pending := True\<rparr>)"

definition retry_default :: "table_view \<Rightarrow> table_view" where
  "retry_default st = (if tv_pending st then applyDefaultSort st else st)"

definition props_change :: "table_column list \<Rightarrow> jstring option \<Rightarrow> jstring option \<Rightarrow> table_view \<Rightarrow> table_view" where
  "props_change columns resetKey wanted st =
     (let st1 = set_props columns resetKey wanted st;
          st2 = (if columnSetKey st1 = columnSetKey st then st1 else reset_table st1)
      in if columnNamesKey columns = columnNamesKey (tv_columns st) then st2 else retry_default st2)"

definition onSortingChange :: "((jstring \<times> bool) list \<Rightarrow> (jstring \<times> bool) list) \<Rightarrow> table_view \<Rightarrow> table_view" where
  "onSortingChange updater st = st\<lparr>tv_sorting := updater (tv_sorting st), tv_pending := False\<rparr>"

definition onColumnSizingChange :: "((jstring \<times> int) list \<Rightarrow> (jstring \<times> int) list) \<Rightarrow> table_view \<Rightarrow> table_view" where
  "onColumnSizingChange updater st = st\<lparr>tv_sizing := updater (tv_sizing st)\<rparr>"

text \<open>A render reads the empty columns, which writes the memo.\<close>

definition table_renders :: "(table_row \<Rightarrow> nat \<Rightarrow> jstring) \<Rightarrow> table_row list \<Rightarrow> table_view \<Rightarrow> table_view" where
  "table_renders stringified rows st = st\<lparr>tv_seen := snd (emptyColumnNames stringified (tv_columns st) rows (tv_seen st))\<rparr>"

section \<open>Ids are unique and follow the name\<close>

lemma suffix_loop_fresh:
  "(\<exists>m. n \<le> m \<and> m \<le> n + fuel \<and> suffixed name m \<notin> set used) \<Longrightarrow> suffix_loop used name n fuel \<notin> set used"
proof (induction fuel arbitrary: n)
  case (Suc fuel)
  show ?case
  proof (cases "suffixed name n \<in> set used")
    case True
    then obtain m where "n \<le> m" "m \<le> n + Suc fuel" "suffixed name m \<notin> set used" "m \<noteq> n" using Suc.prems by auto
    then have "Suc n \<le> m" "m \<le> Suc n + fuel" by auto
    then have "suffix_loop used name (Suc n) fuel \<notin> set used" using Suc.IH \<open>suffixed name m \<notin> set used\<close> by blast
    then show ?thesis using True by simp
  qed simp
qed auto

lemma suffixed_inj: "inj (suffixed name)"
  by (auto simp: inj_def suffixed_def show_nat_inj)

lemma fresh_suffix: "\<exists>m. 2 \<le> m \<and> m \<le> 2 + length used \<and> suffixed name m \<notin> set used"
proof (rule ccontr)
  assume "\<not> ?thesis"
  then have "suffixed name ` {2..2 + length used} \<subseteq> set used" by auto
  then have "card (suffixed name ` {2..2 + length used}) \<le> card (set used)" by (intro card_mono) simp_all
  moreover have "card (suffixed name ` {2..2 + length used}) = Suc (length used)"
    using suffixed_inj by (subst card_image) (auto intro: inj_on_subset)
  ultimately show False using card_length [of used] by simp
qed

lemma fresh_id_fresh: "fresh_id used name \<notin> set used"
  using suffix_loop_fresh fresh_suffix by (simp add: fresh_id_def)

lemma ids_loop_distinct: "distinct (ids_loop used names) \<and> set (ids_loop used names) \<inter> set used = {} \<and> length (ids_loop used names) = length names"
proof (induction names arbitrary: used)
  case (Cons name names)
  from Cons [of "fresh_id used name # used"] fresh_id_fresh [of used name] show ?case by (auto simp: Let_def)
qed simp

lemma suffix_loop_least:
  "n \<le> m \<Longrightarrow> m \<le> n + fuel \<Longrightarrow> suffixed name m \<notin> set used \<Longrightarrow> (\<And>k. n \<le> k \<Longrightarrow> k < m \<Longrightarrow> suffixed name k \<in> set used) \<Longrightarrow>
   suffix_loop used name n fuel = suffixed name m"
proof (induction fuel arbitrary: n)
  case (Suc fuel)
  show ?case
  proof (cases "n = m")
    case False
    then have "suffixed name n \<in> set used" "Suc n \<le> m" using Suc.prems by auto
    then show ?thesis using Suc.IH [of "Suc n"] Suc.prems by simp
  qed (use Suc.prems in simp)
qed simp

text \<open>An id that is in use but is no candidate makes no difference.\<close>

lemma fresh_id_other:
  assumes "set used' = insert ns (set used)" "length used \<le> length used'" "CHR ''#'' \<notin> set ns" "name \<noteq> ns"
  shows "fresh_id used' name = fresh_id used name"
proof (cases "name \<in> set used")
  case True
  have other: "suffixed name k \<in> set used' \<longleftrightarrow> suffixed name k \<in> set used" for k
    using assms(1,3) by (auto simp: suffixed_def)
  define m where "m = (LEAST m. 2 \<le> m \<and> suffixed name m \<notin> set used)"
  obtain m0 where m0: "2 \<le> m0 \<and> suffixed name m0 \<notin> set used" "m0 \<le> 2 + length used" using fresh_suffix by blast
  have m: "2 \<le> m" "suffixed name m \<notin> set used" "m \<le> m0"
    unfolding m_def using LeastI [of "\<lambda>m. 2 \<le> m \<and> suffixed name m \<notin> set used", OF m0(1)] Least_le [of "\<lambda>m. 2 \<le> m \<and> suffixed name m \<notin> set used", OF m0(1)]
    by auto
  have before: "suffixed name k \<in> set used" if "2 \<le> k" "k < m" for k
    using not_less_Least [of k "\<lambda>m. 2 \<le> m \<and> suffixed name m \<notin> set used"] that unfolding m_def by blast
  have "suffix_loop used name 2 (length used) = suffixed name m"
    by (rule suffix_loop_least) (use m m0 before in auto)
  moreover have "suffix_loop used' name 2 (length used') = suffixed name m"
    by (rule suffix_loop_least) (use m m0 before other assms(2) in auto)
  ultimately show ?thesis using True assms(1) by (simp add: fresh_id_def)
qed (use assms in \<open>simp add: fresh_id_def\<close>)

lemma ids_loop_other:
  "set used' = insert ns (set used) \<Longrightarrow> length used \<le> length used' \<Longrightarrow> CHR ''#'' \<notin> set ns \<Longrightarrow> ns \<notin> set names \<Longrightarrow>
   ids_loop used' names = ids_loop used names"
proof (induction names arbitrary: used used')
  case (Cons name names)
  let ?i = "fresh_id used name"
  have "fresh_id used' name = ?i" using Cons.prems by (intro fresh_id_other) auto
  moreover have "ids_loop (?i # used') names = ids_loop (?i # used) names"
    by (rule Cons.IH) (use Cons.prems in auto)
  ultimately show ?case by (simp add: Let_def)
qed simp

text \<open>
  Sorts and widths survive the Namespace column: column ids are distinct whatever headers the server repeats, and inserting the Namespace column, which shifts every
  position, changes no other column's id.
\<close>

theorem column_ids_stable:
  "distinct (columnIds columns) \<and> length (columnIds columns) = length columns \<and>
   (if shouldShowNamespaceColumn columns True True
    then columnIds (withNamespaceColumn columns) = NAMESPACE_COLUMN_NAME # columnIds columns else True)"
proof -
  have "ids_loop [NAMESPACE_COLUMN_NAME] (map tc_name columns) = ids_loop [] (map tc_name columns)"
    if "\<not> list_ex (\<lambda>c. tc_name c = NAMESPACE_COLUMN_NAME) columns"
    by (rule ids_loop_other [where ns = NAMESPACE_COLUMN_NAME]) (use that in \<open>auto simp: NAMESPACE_COLUMN_NAME_def list_ex_iff\<close>)
  then show ?thesis using ids_loop_distinct [of "[]" "map tc_name columns"]
    by (simp add: columnIds_def withNamespaceColumn_def shouldShowNamespaceColumn_def Let_def fresh_id_def)
qed

section \<open>What is hidden\<close>

lemma judged_columns:
  "(n \<in> set (fst (fold (judge_column stringified rows) xs acc)) \<longrightarrow> n \<in> set (fst acc) \<or>
     (\<exists>(i, col, cid) \<in> set xs. tc_name col = n \<and> n \<noteq> ''Name'' \<and> \<not> list_ex (has_value stringified i) rows)) \<and>
   set (snd acc) \<subseteq> set (snd (fold (judge_column stringified rows) xs acc))"
proof (induction xs arbitrary: acc)
  case (Cons x xs)
  obtain i col cid where x: "x = (i, col, cid)" using prod_cases3 by blast
  have "n \<in> set (fst (judge_column stringified rows x acc)) \<Longrightarrow>
      n \<in> set (fst acc) \<or> tc_name col = n \<and> n \<noteq> ''Name'' \<and> \<not> list_ex (has_value stringified i) rows"
    by (auto simp: judge_column_def x Let_def case_prod_beta split: if_splits)
  moreover have "set (snd acc) \<subseteq> set (snd (judge_column stringified rows x acc))"
    by (auto simp: judge_column_def x Let_def case_prod_beta)
  ultimately show ?case using Cons.IH [of "judge_column stringified rows x acc"] x by fastforce
qed simp

lemma indexed_columns: "(i, col, cid) \<in> set (indexed columns) \<Longrightarrow> i < length columns \<and> columns ! i = col"
proof -
  assume "(i, col, cid) \<in> set (indexed columns)"
  then have "i < length (zip columns (columnIds columns)) \<and> zip columns (columnIds columns) ! i = (col, cid)"
    by (auto simp: indexed_def in_set_enumerate_eq)
  then show ?thesis by auto
qed

text \<open>
  A hidden column carries nothing: when no two headers are equal, a column of a non-empty table is hidden only if it is not the Name column and no row holds a value in it, and a
  column that has shown a value is never hidden again until another resource is listed.
\<close>

theorem hidden_columns_are_empty:
  "let (empties, seen) = emptyColumnNames stringified columns rows nonEmptySeen in
   set nonEmptySeen \<subseteq> set seen \<and>
   (if distinct (map tc_name columns)
    then list_all (\<lambda>(i, col). (i, col) \<in> set (visibleColumns columns empties) \<or>
           tc_name col \<noteq> ''Name'' \<and> \<not> list_ex (has_value stringified i) rows) (List.enumerate 0 columns)
    else True)"
proof -
  have one: "i = j" if "distinct (map tc_name columns)" "i < length columns" "j < length columns" "tc_name (columns ! i) = tc_name (columns ! j)" for i j
    using that nth_eq_iff_index_eq [of "map tc_name columns" i j] by simp
  note j = judged_columns [of _ stringified rows "indexed columns" "([], nonEmptySeen)"]
  show ?thesis
    using j one by (fastforce simp: emptyColumnNames_def visibleColumns_def list_all_iff in_set_enumerate_eq case_prod_beta dest: indexed_columns)
qed

text \<open>With two equal headers a column that holds values is hidden because its namesake is empty.\<close>

lemma namesake_hides_values:
  "let c = \<lparr>tc_name = ''A'', tc_type = ''string'', tc_priority = None\<rparr>; rows = [\<lparr>tr_cells = [CStr ''x'', CStr []], tr_meta = None\<rparr>]
   in has_value (\<lambda>_ _. []) 0 (rows ! 0) \<and> visibleColumns [c, c] (fst (emptyColumnNames (\<lambda>_ _. []) [c, c] rows [])) = []"
  by code_simp

section \<open>Which sort the table holds\<close>

datatype table_op =
    TProps "table_column list" "jstring option"
  | TSort "(jstring \<times> bool) list \<Rightarrow> (jstring \<times> bool) list"
  | TSize "(jstring \<times> int) list \<Rightarrow> (jstring \<times> int) list"
  | TRender "table_row list"

text \<open>The default sort is a function of what is listed.\<close>

definition table_step :: "(table_row \<Rightarrow> nat \<Rightarrow> jstring) \<Rightarrow> (jstring \<Rightarrow> jstring option) \<Rightarrow> table_op \<Rightarrow> table_view \<Rightarrow> table_view" where
  "table_step stringified wanted e st =
     (case e of
        TProps columns resetKey \<Rightarrow> props_change columns resetKey (wanted (set_key columns resetKey)) st
      | TSort u \<Rightarrow> onSortingChange u st
      | TSize u \<Rightarrow> onColumnSizingChange u st
      | TRender rows \<Rightarrow> table_renders stringified rows st)"

definition plain_columns :: "table_column list \<Rightarrow> bool" where
  "plain_columns columns \<longleftrightarrow> list_all (\<lambda>c. tc_name c \<noteq> [] \<and> CHR ''|'' \<notin> set (tc_name c)) columns"

definition plain_op :: "table_op \<Rightarrow> bool" where
  "plain_op e \<longleftrightarrow> (case e of TProps columns _ \<Rightarrow> plain_columns columns | _ \<Rightarrow> True)"

lemma names_key_inj:
  assumes "plain_columns a" "plain_columns b" "columnNamesKey a = columnNamesKey b"
  shows "map tc_name a = map tc_name b"
proof -
  have e: "columnNamesKey c = [] \<longleftrightarrow> c = []" if "plain_columns c" for c
    using that by (cases c rule: list.exhaust; cases "tl c") (auto simp: columnNamesKey_def plain_columns_def)
  have s: "split_on CHR ''|'' (columnNamesKey c) = map tc_name c" if "plain_columns c" "c \<noteq> []" for c
    unfolding columnNamesKey_def by (rule split_join) (use that in \<open>auto simp: plain_columns_def list_all_iff\<close>)
  show ?thesis using e s assms by (metis list.simps(8))
qed

lemma default_by_names: "map tc_name a = map tc_name b \<Longrightarrow> resolved_sort w a = resolved_sort w b"
proof -
  have "find_index (\<lambda>col. tc_name col = c) cols = find_index (\<lambda>n. n = c) (map tc_name cols)" for c and cols :: "table_column list"
    by (induction cols) auto
  then show "map tc_name a = map tc_name b \<Longrightarrow> ?thesis" by (simp add: resolved_sort_def columnIds_def split: option.split)
qed

definition sort_inv :: "(jstring \<Rightarrow> jstring option) \<Rightarrow> table_view \<Rightarrow> bool" where
  "sort_inv wanted st \<longleftrightarrow>
     plain_columns (tv_columns st) \<and> tv_wanted st = wanted (columnSetKey st) \<and>
     (if tv_pending st then tv_sorting st = [] \<and> defaultSorting st = [] else True)"

lemma apply_fields [simp]:
  "tv_columns (applyDefaultSort st) = tv_columns st" "tv_wanted (applyDefaultSort st) = tv_wanted st"
  "tv_resetKey (applyDefaultSort st) = tv_resetKey st" "columnSetKey (applyDefaultSort st) = columnSetKey st"
  "defaultSorting (applyDefaultSort st) = defaultSorting st" "tv_sizing (applyDefaultSort st) = tv_sizing st"
  by (simp_all add: applyDefaultSort_def columnSetKey_def defaultSorting_def)

lemma sort_inv_apply:
  "plain_columns (tv_columns st) \<Longrightarrow> tv_wanted st = wanted (columnSetKey st) \<Longrightarrow> (tv_pending st \<Longrightarrow> tv_sorting st = []) \<Longrightarrow>
   sort_inv wanted (applyDefaultSort st)"
  by (simp add: sort_inv_def) (simp add: applyDefaultSort_def)

lemma set_props_fields [simp]:
  "tv_columns (set_props c k w st) = c" "tv_wanted (set_props c k w st) = w" "columnSetKey (set_props c k w st) = set_key c k"
  "defaultSorting (set_props c k w st) = resolved_sort w c" "tv_pending (set_props c k w st) = tv_pending st"
  "tv_sorting (set_props c k w st) = tv_sorting st" "tv_sizing (set_props c k w st) = tv_sizing st"
  by (simp_all add: set_props_def columnSetKey_def defaultSorting_def)

lemma sort_inv_reset:
  "plain_columns (tv_columns st) \<Longrightarrow> tv_wanted st = wanted (columnSetKey st) \<Longrightarrow> sort_inv wanted (reset_table st)"
  unfolding reset_table_def by (rule sort_inv_apply) (simp_all add: columnSetKey_def)

lemma sort_inv_retry: "sort_inv wanted st \<Longrightarrow> sort_inv wanted (retry_default st)"
  unfolding retry_default_def by (cases "tv_pending st"; simp; rule sort_inv_apply) (simp_all add: sort_inv_def)

lemma props_same_kind:
  assumes inv: "sort_inv wanted st" and plain: "plain_columns columns" and same: "set_key columns resetKey = columnSetKey st"
  shows "sort_inv wanted (props_change columns resetKey (wanted (columnSetKey st)) st)"
proof -
  let ?s = "set_props columns resetKey (wanted (columnSetKey st)) st"
  have i: "tv_wanted st = wanted (columnSetKey st)" "plain_columns (tv_columns st)"
    "tv_pending st \<Longrightarrow> tv_sorting st = [] \<and> defaultSorting st = []"
    using inv by (simp_all add: sort_inv_def)
  have eq: "props_change columns resetKey (wanted (columnSetKey st)) st =
     (if columnNamesKey columns = columnNamesKey (tv_columns st) then ?s else retry_default ?s)"
    by (simp add: props_change_def Let_def same)
  have "sort_inv wanted ?s" if "columnNamesKey columns = columnNamesKey (tv_columns st)"
  proof -
    have "resolved_sort (wanted (columnSetKey st)) columns = defaultSorting st"
      using default_by_names [OF names_key_inj [OF plain i(2) that]] i(1) by (simp add: defaultSorting_def)
    then show ?thesis using i plain same by (simp add: sort_inv_def)
  qed
  moreover have "sort_inv wanted (retry_default ?s)"
  proof (cases "tv_pending st")
    case True
    have "sort_inv wanted (applyDefaultSort ?s)" by (rule sort_inv_apply) (simp_all add: plain same i True)
    then show ?thesis by (simp add: retry_default_def True)
  qed (simp add: retry_default_def sort_inv_def plain same)
  ultimately show ?thesis by (simp add: eq)
qed

lemma props_other_kind:
  assumes plain: "plain_columns columns" and other: "set_key columns resetKey \<noteq> columnSetKey st"
  shows "sort_inv wanted (props_change columns resetKey (wanted (set_key columns resetKey)) st)"
proof -
  let ?s = "set_props columns resetKey (wanted (set_key columns resetKey)) st"
  have "sort_inv wanted (reset_table ?s)" by (rule sort_inv_reset) (simp_all add: plain)
  then show ?thesis using sort_inv_retry other by (simp add: props_change_def Let_def)
qed

lemma sort_inv_props:
  "sort_inv wanted st \<Longrightarrow> plain_columns columns \<Longrightarrow> sort_inv wanted (props_change columns resetKey (wanted (set_key columns resetKey)) st)"
  by (cases "set_key columns resetKey = columnSetKey st") (simp_all add: props_same_kind props_other_kind)

definition run_table ::
  "(table_row \<Rightarrow> nat \<Rightarrow> jstring) \<Rightarrow> (jstring \<Rightarrow> jstring option) \<Rightarrow> table_column list \<Rightarrow> jstring option \<Rightarrow> table_op list \<Rightarrow> table_view" where
  "run_table stringified wanted columns resetKey ops =
     fold (table_step stringified wanted) ops (open_table columns resetKey (wanted (set_key columns resetKey)))"

lemma run_table_inv: "plain_columns columns \<Longrightarrow> list_all plain_op ops \<Longrightarrow> sort_inv wanted (run_table stringified wanted columns resetKey ops)"
proof -
  assume c: "plain_columns columns" and ops: "list_all plain_op ops"
  have step: "sort_inv wanted (table_step stringified wanted e st)" if "sort_inv wanted st" "plain_op e" for e st
  proof (cases e)
    case (TProps c k)
    then show ?thesis using that sort_inv_props by (simp add: table_step_def plain_op_def)
  qed (use that in \<open>auto simp: table_step_def sort_inv_def onSortingChange_def onColumnSizingChange_def table_renders_def
        columnSetKey_def defaultSorting_def split: if_splits\<close>)
  have "sort_inv wanted (fold (table_step stringified wanted) ops st)" if "sort_inv wanted st" for st
    using that ops by (induction ops arbitrary: st) (simp_all add: step)
  moreover have "sort_inv wanted (open_table columns resetKey (wanted (set_key columns resetKey)))"
    unfolding open_table_def by (rule sort_inv_apply) (simp_all add: c columnSetKey_def)
  ultimately show ?thesis by (simp add: run_table_def)
qed

text \<open>
  A table's sort is the user's, else the default as soon as it can be: while the default is still pending nothing is sorted and the column it names
  is not there; once it has been applied or the user has clicked a header, no reload, blanked column set or inserted column changes the
  sort or the widths, until another resource is listed. (Headers are non-empty and hold no vertical bar.)
\<close>

theorem sort_is_users_or_default:
  "if plain_columns columns \<and> list_all plain_op ops then
     let st = run_table stringified wanted columns resetKey ops;
         st' = props_change columns' resetKey' (wanted (set_key columns' resetKey')) st
     in if tv_pending st then tv_sorting st = [] \<and> defaultSorting st = []
        else if set_key columns' resetKey' = columnSetKey st then tv_sorting st' = tv_sorting st \<and> tv_sizing st' = tv_sizing st
        else tv_sizing st' = [] \<and> (if tv_pending st' then tv_sorting st' = [] else tv_sorting st' = defaultSorting st')
   else True"
proof -
  let ?st = "run_table stringified wanted columns resetKey ops"
  have inv: "sort_inv wanted ?st" if "plain_columns columns" "list_all plain_op ops" using run_table_inv that by blast
  have same: "tv_sorting (props_change c k (wanted (set_key c k)) st) = tv_sorting st \<and> tv_sizing (props_change c k (wanted (set_key c k)) st) = tv_sizing st"
    if "\<not> tv_pending st" "set_key c k = columnSetKey st" for c k st
    using that by (simp add: props_change_def Let_def retry_default_def)
  have reset: "tv_sizing (reset_table st) = [] \<and> (if tv_pending (reset_table st) then tv_sorting (reset_table st) = []
      else tv_sorting (reset_table st) = defaultSorting (reset_table st))" for st
    by (simp add: reset_table_def) (simp add: applyDefaultSort_def)
  have retry: "tv_sizing (retry_default st) = tv_sizing st \<and> (if tv_pending (retry_default st) then tv_sorting (retry_default st) = []
      else tv_sorting (retry_default st) = defaultSorting (retry_default st))"
    if "if tv_pending st then tv_sorting st = [] else tv_sorting st = defaultSorting st" for st
    using that by (cases "tv_pending st") (simp_all add: retry_default_def, simp add: applyDefaultSort_def)
  have other: "tv_sizing (props_change c k w st) = [] \<and> (if tv_pending (props_change c k w st) then tv_sorting (props_change c k w st) = []
      else tv_sorting (props_change c k w st) = defaultSorting (props_change c k w st))"
    if "set_key c k \<noteq> columnSetKey st" for c k w st
    using that reset [of "set_props c k w st"] retry [of "reset_table (set_props c k w st)"] by (simp add: props_change_def Let_def split: if_splits)
  have pending: "tv_sorting st = [] \<and> defaultSorting st = []" if "sort_inv wanted st" "tv_pending st" for st
    using that by (simp add: sort_inv_def)
  show ?thesis
  proof (cases "plain_columns columns \<and> list_all plain_op ops \<and> \<not> tv_pending ?st")
    case True
    then show ?thesis
      using same [of ?st columns' resetKey'] other [of columns' resetKey' ?st]
      by (cases "set_key columns' resetKey' = columnSetKey ?st") (simp_all add: Let_def)
  qed (use inv pending in \<open>auto simp: Let_def\<close>)
qed

end
