(* ===== verification/ListPage.thy ===== *)
theory ListPage
  imports Chrome Catalog DetailObject StatusColors
begin

text \<open>
  The script of \<^verbatim>\<open>pages/ResourceListPage.vue\<close>: the view of a resource list (namespace, filter, label selector), its URL, and the calls it makes of
  \<^verbatim>\<open>useResourceList\<close>. An operation ends with the page's watchers, in their declared order. Promises settle by operations: \<open>LReturned\<close> is the
  continuation of \<^verbatim>\<open>reload\<close> or of \<^verbatim>\<open>nextTick\<close>, with what the list reports then; \<open>LLanded\<close> is a navigation that lands with this page still mounted.
\<close>

section \<open>The page\<close>

record list_options =
  lo_namespace :: "jstring option"
  lo_selector :: jstring

datatype list_call = CallRefresh jstring list_options | CallSearch jstring list_options

text \<open>\<open>lp_replaces\<close> logs the calls of \<^verbatim>\<open>router.replace\<close>, \<open>lp_history\<close> the writes to the current history entry, newest first.\<close>

record list_page =
  lp_group :: jstring
  lp_version :: jstring
  lp_resource :: jstring
  lp_discovery :: "discovery_resource list"
  lp_ui :: ui_store
  lp_filter :: jstring
  lp_labelSelector :: jstring
  lp_appliedSelector :: jstring
  lp_searchAfterLoad :: bool
  lp_onList :: bool
  lp_routeQuery :: location_query
  lp_urlTimer :: bool
  lp_leaving :: bool
  lp_mounted :: bool
  lp_replaces :: "(jstring \<times> jstring) list list"
  lp_history :: "(jstring \<times> jstring) list list"
  lp_calls :: "list_call list"

definition discoveryEntry :: "list_page \<Rightarrow> discovery_resource option" where
  "discoveryEntry st = findResource (lp_discovery st) (lp_group st) (lp_version st) (lp_resource st)"

definition lp_namespaced :: "list_page \<Rightarrow> bool" where
  "lp_namespaced st = (case discoveryEntry st of Some e \<Rightarrow> dr_namespaced e | None \<Rightarrow> True)"

definition listKey :: "list_page \<Rightarrow> jstring" where
  "listKey st = join ''/'' [lp_group st, lp_version st, lp_resource st]"

definition list_options_of :: "list_page \<Rightarrow> list_options" where
  "list_options_of st =
     \<lparr>lo_namespace = (if lp_namespaced st \<and> ui_namespace (lp_ui st) \<noteq> [] then Some (ui_namespace (lp_ui st)) else None),
      lo_selector = lp_appliedSelector st\<rparr>"

definition shown_view :: "list_page \<Rightarrow> list_query_state" where
  "shown_view st =
     \<lparr>lq_namespace = (if lp_namespaced st then ui_namespace (lp_ui st) else []), lq_filter = lp_filter st, lq_selector = lp_appliedSelector st\<rparr>"

definition urlQuery :: "list_page \<Rightarrow> (jstring \<times> jstring) list" where
  "urlQuery st = listQuery (shown_view st)"

definition adoptQuery :: "bool \<Rightarrow> list_query_state \<Rightarrow> list_page \<Rightarrow> list_page" where
  "adoptQuery throws q st =
     (let st1 = st\<lparr>lp_filter := lq_filter q, lp_labelSelector := lq_selector q, lp_appliedSelector := lq_selector q\<rparr>;
          st2 = (if lq_namespace q \<noteq> [] then st1\<lparr>lp_ui := set_namespace throws (lq_namespace q) (lp_ui st1)\<rparr> else st1)
      in st2\<lparr>lp_searchAfterLoad := lq_filter q \<noteq> []\<rparr>)"

definition reload :: "list_page \<Rightarrow> list_page" where
  "reload st = st\<lparr>lp_calls := CallRefresh (listKey st) (list_options_of st) # lp_calls st\<rparr>"

definition call_search :: "list_page \<Rightarrow> list_page" where
  "call_search st = st\<lparr>lp_calls := CallSearch (lp_filter st) (list_options_of st) # lp_calls st\<rparr>"

definition runPendingSearch :: "bool \<Rightarrow> bool \<Rightarrow> list_page \<Rightarrow> list_page" where
  "runPendingSearch loading hasNextPage st =
     (if \<not> lp_searchAfterLoad st \<or> loading then st
      else let st1 = st\<lparr>lp_searchAfterLoad := False\<rparr>
           in if trim (lp_filter st1) \<noteq> [] \<and> hasNextPage then call_search st1 else st1)"

definition applySelector :: "list_page \<Rightarrow> list_page" where
  "applySelector st =
     (if lp_labelSelector st \<noteq> lp_appliedSelector st then st\<lparr>lp_appliedSelector := lp_labelSelector st\<rparr> else reload st)"

section \<open>The URL\<close>

definition cancelUrlWrite :: "list_page \<Rightarrow> list_page" where
  "cancelUrlWrite st = st\<lparr>lp_urlTimer := False\<rparr>"

definition url_differs :: "list_page \<Rightarrow> bool" where
  "url_differs st \<longleftrightarrow> lp_onList st \<and> \<not> sameQuery (urlQuery st) (lp_routeQuery st)"

definition writeUrl :: "list_page \<Rightarrow> list_page" where
  "writeUrl st =
     (let st1 = cancelUrlWrite st
      in if lp_leaving st1 \<or> \<not> url_differs st1 then st1 else st1\<lparr>lp_replaces := urlQuery st1 # lp_replaces st1\<rparr>)"

definition flushUrlWrite :: "list_page \<Rightarrow> list_page" where
  "flushUrlWrite st =
     (if \<not> lp_urlTimer st then st
      else let st1 = cancelUrlWrite st
           in if \<not> url_differs st1 then st1 else st1\<lparr>lp_history := urlQuery st1 # lp_history st1\<rparr>)"

text \<open>The watcher of the URL query: only a changed filter is debounced.\<close>

definition on_url_query :: "(jstring \<times> jstring) list \<Rightarrow> list_page \<Rightarrow> list_page" where
  "on_url_query prev st =
     (let q = urlQuery st;
          filterOnly = (map_of q ''namespace'' = map_of prev ''namespace'' \<and> map_of q ''selector'' = map_of prev ''selector'')
      in if \<not> filterOnly then writeUrl st else (cancelUrlWrite st)\<lparr>lp_urlTimer := True\<rparr>)"

section \<open>The watchers\<close>

definition resource_of :: "list_page \<Rightarrow> jstring \<times> jstring \<times> jstring" where
  "resource_of st = (lp_group st, lp_version st, lp_resource st)"

definition listed_with :: "list_page \<Rightarrow> (jstring \<times> jstring \<times> jstring) \<times> jstring \<times> bool \<times> jstring" where
  "listed_with st = (resource_of st, ui_namespace (lp_ui st), lp_namespaced st, lp_appliedSelector st)"

text \<open>Adoption: on another resource, and on a landed query the view does not already hold.\<close>

definition adopting :: "bool \<Rightarrow> bool \<Rightarrow> list_page \<Rightarrow> list_page \<Rightarrow> list_page" where
  "adopting throws landed before st =
     (let st1 = (if resource_of st \<noteq> resource_of before then adoptQuery throws (parseListQuery (lp_routeQuery st)) st else st)
      in if landed \<and> url_differs st1 then adoptQuery throws (parseListQuery (lp_routeQuery st1)) st1 else st1)"

definition remember :: "list_page \<Rightarrow> list_page" where
  "remember st = st\<lparr>lp_ui := rememberListQuery (listKey st) (urlQuery st) (lp_ui st)\<rparr>"

definition watchers :: "bool \<Rightarrow> bool \<Rightarrow> list_page \<Rightarrow> list_page \<Rightarrow> list_page" where
  "watchers throws landed before st =
     (let st1 = adopting throws landed before st;
          st2 = (if listed_with st1 \<noteq> listed_with before then reload st1 else st1);
          changed = (shown_view st2 \<noteq> shown_view before \<or> lp_namespaced st2 \<noteq> lp_namespaced before);
          st3 = (if changed \<or> listKey st2 \<noteq> listKey before then remember st2 else st2)
      in if changed then on_url_query (urlQuery before) st3 else st3)"

definition open_list ::
  "bool \<Rightarrow> jstring \<Rightarrow> jstring \<Rightarrow> jstring \<Rightarrow> discovery_resource list \<Rightarrow> location_query \<Rightarrow> ui_store \<Rightarrow> list_page" where
  "open_list throws g version resource resources query ui =
     (let st = \<lparr>lp_group = g, lp_version = version, lp_resource = resource, lp_discovery = resources, lp_ui = ui, lp_filter = [],
                lp_labelSelector = [], lp_appliedSelector = [], lp_searchAfterLoad = False, lp_onList = True, lp_routeQuery = query,
                lp_urlTimer = False, lp_leaving = False, lp_mounted = True, lp_replaces = [], lp_history = [], lp_calls = []\<rparr>
      in reload (writeUrl (remember (adoptQuery throws (parseListQuery query) st))))"

datatype listpage_event =
    LFilter jstring | LSelector jstring | LApply | LSearch | LClear | LNamespace jstring | LDiscovery "discovery_resource list"
  | LLanded jstring jstring jstring location_query bool | LReturned bool bool | LTimer | LLeave | LUpdate | LAborted | LUnmount

definition list_op :: "bool \<Rightarrow> listpage_event \<Rightarrow> list_page \<Rightarrow> list_page" where
  "list_op throws e st =
     (case e of
        LFilter s \<Rightarrow> st\<lparr>lp_filter := s\<rparr>
      | LSelector s \<Rightarrow> st\<lparr>lp_labelSelector := s\<rparr>
      | LApply \<Rightarrow> applySelector st
      | LSearch \<Rightarrow> call_search st
      | LClear \<Rightarrow> reload (st\<lparr>lp_filter := []\<rparr>)
      | LNamespace ns \<Rightarrow> st\<lparr>lp_ui := set_namespace throws ns (lp_ui st)\<rparr>
      | LDiscovery resources \<Rightarrow> st\<lparr>lp_discovery := resources\<rparr>
      | LLanded g version resource query onList \<Rightarrow>
          st\<lparr>lp_group := g, lp_version := version, lp_resource := resource, lp_routeQuery := query, lp_onList := onList\<rparr>
      | LReturned loading hasNextPage \<Rightarrow> runPendingSearch loading hasNextPage st
      | LTimer \<Rightarrow> (if lp_urlTimer st then writeUrl st else st)
      | LLeave \<Rightarrow> (flushUrlWrite st)\<lparr>lp_leaving := True\<rparr>
      | LUpdate \<Rightarrow> (flushUrlWrite st)\<lparr>lp_leaving := False\<rparr>
      | LAborted \<Rightarrow> st\<lparr>lp_leaving := False\<rparr>
      | LUnmount \<Rightarrow> (cancelUrlWrite st)\<lparr>lp_mounted := False\<rparr>)"

definition is_landing :: "listpage_event \<Rightarrow> bool" where
  "is_landing e \<longleftrightarrow> (case e of LLanded _ _ _ _ _ \<Rightarrow> True | _ \<Rightarrow> False)"

definition listpage_step :: "bool \<Rightarrow> listpage_event \<Rightarrow> list_page \<Rightarrow> list_page" where
  "listpage_step throws e st =
     (if \<not> lp_mounted st then st
      else let st1 = list_op throws e st in if lp_mounted st1 then watchers throws (is_landing e) st st1 else st1)"

section \<open>Opening objects\<close>

definition list_ref :: "list_page \<Rightarrow> resource_ref" where
  "list_ref st = \<lparr>rr_group = (if lp_group st = ''core'' then [] else lp_group st), rr_version = lp_version st, rr_resource = lp_resource st\<rparr>"

definition showNamespaceColumn :: "list_page \<Rightarrow> table_column list \<Rightarrow> bool" where
  "showNamespaceColumn st columns = shouldShowNamespaceColumn columns (ui_namespace (lp_ui st) = []) (lp_namespaced st)"

definition displayColumns :: "list_page \<Rightarrow> table_column list \<Rightarrow> table_column list" where
  "displayColumns st columns = (if showNamespaceColumn st columns then withNamespaceColumn columns else columns)"

text \<open>The route a click pushes, if any; \<open>nsShown\<close> is whether the Namespace column is.\<close>

definition openDetail :: "list_page \<Rightarrow> bool \<Rightarrow> table_row \<Rightarrow> route_location option" where
  "openDetail st nsShown row =
     (let nameCell = cell_at row (if nsShown then 1 else 0);
          name = (case Option.bind (tr_meta row) om_name of
                    Some n \<Rightarrow> n
                  | None \<Rightarrow> (case nameCell of Some c \<Rightarrow> cell_string c | None \<Rightarrow> []));
          ns = (if lp_namespaced st
                then Some (case Option.bind (tr_meta row) om_namespace of Some n \<Rightarrow> n | None \<Rightarrow> ui_namespace (lp_ui st)) else None)
      in if name = [] then None else Some (resourceDetailRoute (list_ref st) ns name))"

definition defaultSort :: "list_page \<Rightarrow> jstring" where
  "defaultSort st = (if lp_resource st = ''events'' then ''Last Seen'' else if lp_resource st = ''pods'' then ''Age'' else ''Name'')"

definition page_title :: "list_page \<Rightarrow> jstring" where
  "page_title st = (case discoveryEntry st of Some e \<Rightarrow> dr_kind e | None \<Rightarrow> lp_resource st)"

definition eventObjectRoute ::
  "(jstring \<Rightarrow> jstring \<Rightarrow> rat) \<Rightarrow> discovery_resource list \<Rightarrow> jstring \<Rightarrow> jstring \<Rightarrow> route_location option" where
  "eventObjectRoute coll resources v ns =
     (case parseEventObjectCell v of
        None \<Rightarrow> None
      | Some (kind, name) \<Rightarrow>
          (case findByLowerKind coll resources kind None of
             None \<Rightarrow> None
           | Some entry \<Rightarrow>
               Some (resourceDetailRoute \<lparr>rr_group = dr_group entry, rr_version = dr_version entry, rr_resource = dr_resource entry\<rparr>
                       (if dr_namespaced entry then Some ns else None) name)))"

text \<open>The link of a cell, through the memo of the current catalog and namespace.\<close>

type_synonym link_memo = "(jstring \<times> route_location option) list"

definition eventObjectLink ::
  "(jstring \<Rightarrow> jstring \<Rightarrow> rat) \<Rightarrow> discovery_resource list \<Rightarrow> jstring \<Rightarrow> table_row \<times> jstring \<times> jstring \<Rightarrow> link_memo \<Rightarrow>
     route_location option \<times> link_memo" where
  "eventObjectLink coll resources fallbackNamespace ask cache =
     (let (row, column, v) = ask in
      if column \<noteq> ''Object'' then (None, cache)
      else let ns = (case Option.bind (tr_meta row) om_namespace of Some n \<Rightarrow> n | None \<Rightarrow> fallbackNamespace); key = ns @ ''/'' @ v
           in case map_of cache key of
                Some cached \<Rightarrow> (cached, cache)
              | None \<Rightarrow> let route = eventObjectRoute coll resources v ns in (route, AList.update key route cache))"

fun ask_links ::
  "(jstring \<Rightarrow> jstring \<Rightarrow> rat) \<Rightarrow> discovery_resource list \<Rightarrow> jstring \<Rightarrow> (table_row \<times> jstring \<times> jstring) list \<Rightarrow> link_memo \<Rightarrow> route_location option list" where
  "ask_links coll resources fallback [] cache = []"
| "ask_links coll resources fallback (ask # asks) cache =
     (let (route, cache') = eventObjectLink coll resources fallback ask cache in route # ask_links coll resources fallback asks cache')"

section \<open>What every step keeps\<close>

fun last_refresh :: "list_call list \<Rightarrow> (jstring \<times> list_options) option" where
  "last_refresh [] = None"
| "last_refresh (CallRefresh k opts # _) = Some (k, opts)"
| "last_refresh (CallSearch _ _ # cs) = last_refresh cs"

text \<open>What the list is asked for is a function of \<open>listed_with\<close>.\<close>

lemma listed_by: "listed_with st = listed_with st' \<Longrightarrow> listKey st = listKey st' \<and> list_options_of st = list_options_of st' \<and>
    lp_namespaced st = lp_namespaced st'"
  by (simp add: listed_with_def resource_of_def listKey_def list_options_of_def)

definition same_view :: "list_page \<Rightarrow> list_page \<Rightarrow> bool" where
  "same_view st st' \<longleftrightarrow> listed_with st = listed_with st' \<and> lp_filter st = lp_filter st'"

lemma same_viewD: "same_view st st' \<Longrightarrow> listKey st = listKey st' \<and> list_options_of st = list_options_of st' \<and> urlQuery st = urlQuery st' \<and>
    shown_view st = shown_view st'"
  using listed_by [of st st'] by (simp add: same_view_def listed_with_def urlQuery_def shown_view_def)

lemma same_view_writes:
  "same_view (cancelUrlWrite st) st" "same_view (writeUrl st) st" "same_view (flushUrlWrite st) st" "same_view (on_url_query q st) st"
  "same_view (reload st) st" "same_view (call_search st) st" "same_view (remember st) st" "same_view (runPendingSearch l n st) st"
  by (simp_all add: same_view_def listed_with_def resource_of_def lp_namespaced_def discoveryEntry_def cancelUrlWrite_def writeUrl_def
      flushUrlWrite_def on_url_query_def reload_def call_search_def remember_def rememberListQuery_def runPendingSearch_def Let_def)

lemma writes_keep_calls:
  "lp_calls (cancelUrlWrite st) = lp_calls st" "lp_calls (writeUrl st) = lp_calls st" "lp_calls (flushUrlWrite st) = lp_calls st"
  "lp_calls (on_url_query q st) = lp_calls st" "lp_calls (remember st) = lp_calls st"
  "lp_calls (adoptQuery throws v st) = lp_calls st" "lp_calls (adopting throws landed b st) = lp_calls st"
  by (simp_all add: cancelUrlWrite_def writeUrl_def flushUrlWrite_def on_url_query_def remember_def adoptQuery_def adopting_def Let_def)

lemma writes_keep_mounted:
  "lp_mounted (cancelUrlWrite st) = lp_mounted st" "lp_mounted (writeUrl st) = lp_mounted st" "lp_mounted (flushUrlWrite st) = lp_mounted st"
  "lp_mounted (reload st) = lp_mounted st" "lp_mounted (call_search st) = lp_mounted st" "lp_mounted (runPendingSearch l n st) = lp_mounted st"
  by (simp_all add: cancelUrlWrite_def writeUrl_def flushUrlWrite_def reload_def call_search_def runPendingSearch_def Let_def)

lemma writes_keep_remembered:
  "lp_ui (cancelUrlWrite st) = lp_ui st" "lp_ui (writeUrl st) = lp_ui st" "lp_ui (flushUrlWrite st) = lp_ui st"
  "lp_ui (on_url_query q st) = lp_ui st" "lp_ui (reload st) = lp_ui st"
  by (simp_all add: cancelUrlWrite_def writeUrl_def flushUrlWrite_def on_url_query_def reload_def Let_def)

lemma set_namespace_queries [simp]: "ui_listQueries (set_namespace throws ns ui) = ui_listQueries ui"
  by (simp add: set_namespace_def writeStoredNamespace_def)

lemma adopting_queries [simp]: "ui_listQueries (lp_ui (adopting throws landed b st)) = ui_listQueries (lp_ui st)"
  by (simp add: adopting_def adoptQuery_def Let_def)

definition page_ok :: "list_page \<Rightarrow> bool" where
  "page_ok st \<longleftrightarrow> listQueryFor (listKey st) (lp_ui st) = Some (urlQuery st) \<and> last_refresh (lp_calls st) = Some (listKey st, list_options_of st)"

lemma op_keeps:
  assumes "last_refresh (lp_calls st) = Some (listKey st, list_options_of st)"
  shows "ui_listQueries (lp_ui (list_op throws e st)) = ui_listQueries (lp_ui st) \<and>
    last_refresh (lp_calls (list_op throws e st)) = Some (listKey st, list_options_of st)"
proof -
  have clear: "listKey (st\<lparr>lp_filter := []\<rparr>) = listKey st" "list_options_of (st\<lparr>lp_filter := []\<rparr>) = list_options_of st"
    using same_viewD by (simp_all add: listKey_def list_options_of_def lp_namespaced_def discoveryEntry_def)
  show ?thesis
    using assms by (cases e)
      (simp_all add: list_op_def writes_keep_calls writes_keep_remembered applySelector_def reload_def call_search_def runPendingSearch_def
        Let_def clear)
qed

lemma same_view_trans: "same_view a b \<Longrightarrow> same_view b c \<Longrightarrow> same_view a c"
  by (simp add: same_view_def)

lemma watchers_ok:
  assumes ok: "listQueryFor (listKey b) (lp_ui st) = Some (urlQuery b)" "last_refresh (lp_calls st) = Some (listKey b, list_options_of b)"
  shows "page_ok (watchers throws landed b st)"
proof -
  define st1 where "st1 = adopting throws landed b st"
  define st2 where "st2 = (if listed_with st1 \<noteq> listed_with b then reload st1 else st1)"
  define changed where "changed = (shown_view st2 \<noteq> shown_view b \<or> lp_namespaced st2 \<noteq> lp_namespaced b)"
  define st3 where "st3 = (if changed \<or> listKey st2 \<noteq> listKey b then remember st2 else st2)"
  have v2: "same_view st2 st1" using same_view_writes(5) [of st1] by (simp add: st2_def same_view_def)
  have v3: "same_view st3 st2" using same_view_writes(7) [of st2] by (simp add: st3_def same_view_def)
  have calls: "last_refresh (lp_calls st2) = Some (listKey st2, list_options_of st2)"
  proof (cases "listed_with st1 = listed_with b")
    case True
    then show ?thesis using ok(2) listed_by [of st1 b] by (simp add: st2_def st1_def writes_keep_calls)
  next
    case False
    then show ?thesis using same_viewD [OF v2] by (simp add: st2_def reload_def)
  qed
  have queries: "listQueryFor (listKey st3) (lp_ui st3) = Some (urlQuery st3)"
  proof (cases "changed \<or> listKey st2 \<noteq> listKey b")
    case True
    then show ?thesis using same_viewD [OF same_view_writes(7) [of st2]]
      by (simp add: st3_def remember_def listQueryFor_def rememberListQuery_def update_conv')
  next
    case False
    then have "urlQuery st2 = urlQuery b" "listKey st2 = listKey b" by (simp_all add: changed_def urlQuery_def)
    then show ?thesis using False ok(1) by (simp add: st3_def st2_def st1_def writes_keep_remembered listQueryFor_def)
  qed
  have "page_ok st3"
    using calls queries same_viewD [OF v3] by (simp add: page_ok_def st3_def writes_keep_calls)
  moreover have "page_ok (on_url_query q st3) = page_ok st3" for q
    using same_viewD [OF same_view_writes(4) [of q st3]] by (simp add: page_ok_def writes_keep_calls writes_keep_remembered)
  ultimately show ?thesis
    unfolding watchers_def Let_def st1_def [symmetric] st2_def [symmetric] changed_def [symmetric] st3_def [symmetric] by simp
qed

lemma step_ok: "page_ok st \<Longrightarrow> page_ok (listpage_step throws e st)"
proof -
  assume ok: "page_ok st"
  then have l: "last_refresh (lp_calls st) = Some (listKey st, list_options_of st)" by (simp add: page_ok_def)
  let ?s = "list_op throws e st"
  have "listQueryFor (listKey st) (lp_ui ?s) = Some (urlQuery st)" "last_refresh (lp_calls ?s) = Some (listKey st, list_options_of st)"
    using op_keeps [OF l, of throws e] ok by (simp_all add: page_ok_def listQueryFor_def)
  then have w: "page_ok (watchers throws landed st ?s)" for landed by (rule watchers_ok)
  have "page_ok ?s" if "\<not> lp_mounted ?s" "lp_mounted st"
  proof -
    have "e = LUnmount" using that by (cases e) (auto simp: list_op_def applySelector_def writes_keep_mounted split: if_splits)
    moreover have "same_view ((cancelUrlWrite st)\<lparr>lp_mounted := False\<rparr>) st"
      by (simp add: same_view_def listed_with_def resource_of_def lp_namespaced_def discoveryEntry_def cancelUrlWrite_def)
    ultimately show ?thesis using ok same_viewD by (simp add: list_op_def page_ok_def writes_keep_calls writes_keep_remembered)
  qed
  then show ?thesis using w ok by (simp add: listpage_step_def Let_def)
qed

lemma open_ok: "page_ok (open_list throws g v r resources q ui)"
proof -
  have "page_ok (reload (writeUrl (remember st)))" for st
    using same_viewD [OF same_view_writes(5) [of "writeUrl (remember st)"]] same_viewD [OF same_view_writes(2) [of "remember st"]]
      same_viewD [OF same_view_writes(7) [of st]]
    by (simp add: page_ok_def writes_keep_remembered) (simp add: reload_def remember_def listQueryFor_def rememberListQuery_def update_conv')
  then show ?thesis by (simp add: open_list_def Let_def)
qed

definition run_list ::
  "bool \<Rightarrow> jstring \<Rightarrow> jstring \<Rightarrow> jstring \<Rightarrow> discovery_resource list \<Rightarrow> location_query \<Rightarrow> ui_store \<Rightarrow> listpage_event list \<Rightarrow> list_page" where
  "run_list throws g v r resources q ui es = fold (listpage_step throws) es (open_list throws g v r resources q ui)"

lemma run_ok: "page_ok (run_list throws g v r resources q ui es)"
proof -
  have "page_ok (fold (listpage_step throws) es st)" if "page_ok st" for st using that by (induction es arbitrary: st) (simp_all add: step_ok)
  then show ?thesis using open_ok by (simp add: run_list_def)
qed

text \<open>
  C22. The list is always the one the page says it is: after any typing, selecting, searching, discovery and navigation, the last load the page asked for is for
  its own resource, namespace and applied selector, and the way back from a detail page leads to the query of exactly this view.
\<close>

theorem list_is_of_its_view:
  "let st = run_list throws g v r resources q ui es in
   last_refresh (lp_calls st) = Some (listKey st, list_options_of st) \<and> listQueryFor (listKey st) (lp_ui st) = Some (urlQuery st)"
  using run_ok [of throws g v r resources q ui es] by (simp add: page_ok_def Let_def)

section \<open>The URL\<close>

lemma watchers_idle: "same_view st b \<Longrightarrow> watchers throws False b st = st"
  using same_viewD [of st b] listed_by [of st b]
  by (simp add: watchers_def adopting_def same_view_def listed_with_def)

lemma writes_when_leaving:
  "lp_leaving st \<Longrightarrow> lp_replaces (on_url_query q st) = lp_replaces st" "lp_leaving st \<Longrightarrow> lp_replaces (writeUrl st) = lp_replaces st"
  "lp_replaces (flushUrlWrite st) = lp_replaces st" "lp_replaces (cancelUrlWrite st) = lp_replaces st"
  by (simp_all add: on_url_query_def writeUrl_def flushUrlWrite_def cancelUrlWrite_def Let_def)

lemma watchers_leaving: "lp_leaving st \<Longrightarrow> lp_replaces (watchers throws landed b st) = lp_replaces st"
  by (simp add: watchers_def Let_def writes_when_leaving adopting_def adoptQuery_def reload_def remember_def)

text \<open>
  C25. A click that leaves the page is never lost to the page's own URL write: once a navigation away has started nothing is replaced, whatever is typed or lands, until the
  page is kept; and a write still pending at that moment goes to the history entry being left, so Back finds the view as it was.
\<close>

theorem leaving_is_never_cancelled:
  "(if lp_leaving st then lp_replaces (listpage_step throws e st) = lp_replaces st else True) \<and>
   (let st' = listpage_step throws LLeave st in
    if lp_mounted st
    then lp_leaving st' \<and> \<not> lp_urlTimer st' \<and> lp_replaces st' = lp_replaces st \<and>
         lp_history st' = (if lp_urlTimer st \<and> url_differs st then [urlQuery st] else []) @ lp_history st
    else st' = st)"
proof -
  have idle: "listpage_step throws e st = list_op throws e st" if "same_view (list_op throws e st) st" "\<not> is_landing e" "lp_mounted st" for e
    using that watchers_idle by (simp add: listpage_step_def Let_def)
  have view: "same_view ((flushUrlWrite st)\<lparr>lp_leaving := b\<rparr>) st" "same_view (st\<lparr>lp_leaving := b\<rparr>) st" for b
    by (simp_all add: same_view_def listed_with_def resource_of_def lp_namespaced_def discoveryEntry_def flushUrlWrite_def cancelUrlWrite_def Let_def)
  have leave: "listpage_step throws LLeave st = (flushUrlWrite st)\<lparr>lp_leaving := True\<rparr>" if "lp_mounted st"
    using idle [of LLeave] that view by (simp add: list_op_def is_landing_def)
  have "url_differs (cancelUrlWrite st) = url_differs st" "urlQuery (cancelUrlWrite st) = urlQuery st"
    using same_viewD [OF same_view_writes(1) [of st]] by (simp_all add: url_differs_def) (simp add: cancelUrlWrite_def)
  then have second: "lp_mounted st \<Longrightarrow> let st' = listpage_step throws LLeave st in lp_leaving st' \<and> \<not> lp_urlTimer st' \<and> lp_replaces st' = lp_replaces st \<and>
         lp_history st' = (if lp_urlTimer st \<and> url_differs st then [urlQuery st] else []) @ lp_history st"
    by (simp add: leave Let_def) (simp add: flushUrlWrite_def cancelUrlWrite_def Let_def)
  have first: "lp_replaces (listpage_step throws e st) = lp_replaces st" if l: "lp_leaving st"
  proof (cases "lp_mounted st \<and> (e = LUpdate \<or> e = LAborted)")
    case True
    then have "listpage_step throws e st = list_op throws e st" using idle [of e] view by (auto simp: list_op_def is_landing_def)
    then show ?thesis using True by (auto simp: list_op_def writes_when_leaving)
  next
    case False
    then have "lp_mounted st \<Longrightarrow> lp_leaving (list_op throws e st) \<and> lp_replaces (list_op throws e st) = lp_replaces st"
      using l by (cases e) (auto simp: list_op_def applySelector_def reload_def call_search_def runPendingSearch_def writeUrl_def
          flushUrlWrite_def cancelUrlWrite_def Let_def)
    then show ?thesis using watchers_leaving by (simp add: listpage_step_def Let_def)
  qed
  show ?thesis using first second by (simp add: listpage_step_def Let_def)
qed

text \<open>The URL query of a view is the one \<open>sameQuery\<close> recognises.\<close>

lemma own_query_same: "sameQuery (urlQuery st) (as_location (urlQuery st))"
  by (simp add: urlQuery_def listQuery_def sameQuery_def as_location_def)

definition url_settled :: "list_page \<Rightarrow> bool" where
  "url_settled st \<longleftrightarrow> lp_leaving st \<or> \<not> lp_onList st \<or> lp_urlTimer st \<or> sameQuery (urlQuery st) (lp_routeQuery st) \<or>
     (case lp_replaces st of q # _ \<Rightarrow> q = urlQuery st | [] \<Rightarrow> False)"

lemma write_settles: "url_settled (writeUrl st)"
proof -
  have "urlQuery (writeUrl st) = urlQuery st" "url_differs (cancelUrlWrite st) = url_differs st" "urlQuery (cancelUrlWrite st) = urlQuery st"
    using same_viewD [OF same_view_writes(2) [of st]] same_viewD [OF same_view_writes(1) [of st]]
    by (simp_all add: url_differs_def) (simp add: cancelUrlWrite_def)
  then show ?thesis by (auto simp: url_settled_def writeUrl_def Let_def url_differs_def cancelUrlWrite_def)
qed

lemma on_url_query_settles: "url_settled (on_url_query q st)"
  using write_settles by (simp add: on_url_query_def Let_def) (simp add: url_settled_def)

lemma watchers_settle: "urlQuery (watchers throws landed b st) \<noteq> urlQuery b \<Longrightarrow> url_settled (watchers throws landed b st)"
proof -
  assume differs: "urlQuery (watchers throws landed b st) \<noteq> urlQuery b"
  define st1 where "st1 = adopting throws landed b st"
  define st2 where "st2 = (if listed_with st1 \<noteq> listed_with b then reload st1 else st1)"
  define changed where "changed = (shown_view st2 \<noteq> shown_view b \<or> lp_namespaced st2 \<noteq> lp_namespaced b)"
  define st3 where "st3 = (if changed \<or> listKey st2 \<noteq> listKey b then remember st2 else st2)"
  have w: "watchers throws landed b st = (if changed then on_url_query (urlQuery b) st3 else st3)"
    unfolding watchers_def Let_def st1_def [symmetric] st2_def [symmetric] changed_def [symmetric] st3_def [symmetric] by simp
  have "urlQuery st3 = urlQuery st2" using same_viewD [OF same_view_writes(7) [of st2]] by (simp add: st3_def)
  then have changed using differs w by (auto simp: changed_def urlQuery_def split: if_splits)
  then show ?thesis using w on_url_query_settles by simp
qed

text \<open>
  The URL follows the view: when a step changes the view's query, or the debounce timer of a filter fires, the page has then asked for exactly that query, or the URL
  already holds it, or the write of the new filter is pending; and when the page's own write lands nothing is adopted or loaded again,
  so a write never rolls typing back.
\<close>

theorem url_follows_view:
  "(let st' = listpage_step throws e st
    in if lp_mounted st' \<and> (urlQuery st' \<noteq> urlQuery st \<or> e = LTimer \<and> lp_urlTimer st) then url_settled st' else True) \<and>
   (if lp_mounted st
    then listpage_step throws (LLanded (lp_group st) (lp_version st) (lp_resource st) (as_location (urlQuery st)) True) st =
         st\<lparr>lp_routeQuery := as_location (urlQuery st), lp_onList := True\<rparr>
    else True)"
proof -
  let ?land = "st\<lparr>lp_routeQuery := as_location (urlQuery st), lp_onList := True\<rparr>"
  have v: "same_view ?land st" by (simp add: same_view_def listed_with_def resource_of_def lp_namespaced_def discoveryEntry_def)
  then have "\<not> url_differs ?land" "resource_of ?land = resource_of st"
    using own_query_same [of st] same_viewD [OF v] by (simp_all add: url_differs_def same_view_def listed_with_def)
  then have "watchers throws True st ?land = ?land"
    using same_viewD [OF v] listed_by [of ?land st] v by (simp add: watchers_def adopting_def same_view_def)
  then have landed: "lp_mounted st \<Longrightarrow>
      listpage_step throws (LLanded (lp_group st) (lp_version st) (lp_resource st) (as_location (urlQuery st)) True) st = ?land"
    by (simp add: listpage_step_def list_op_def is_landing_def)
  have timer: "url_settled (listpage_step throws LTimer st)" if "lp_urlTimer st" "lp_mounted st"
    using that watchers_idle [OF same_view_writes(2)] write_settles
    by (simp add: listpage_step_def list_op_def is_landing_def writes_keep_mounted)
  have "url_settled (listpage_step throws e st)" if "lp_mounted (listpage_step throws e st)" "urlQuery (listpage_step throws e st) \<noteq> urlQuery st"
    using that watchers_settle by (auto simp: listpage_step_def Let_def split: if_splits)
  then show ?thesis using landed timer by (auto simp: Let_def listpage_step_def)
qed

text \<open>
  A link without a query to another list, or to the same one, keeps the global namespace but changes nothing the URL query depends on,
  so the URL stays bare while the list is that of one namespace.
\<close>

lemma url_lags_after_link:
  "let ui = (open_ui None None False)\<lparr>ui_namespace := ''default''\<rparr>;
       st = fold (listpage_step False)
              [LLanded ''core'' ''v1'' ''pods'' [(''namespace'', QOne (Some ''default''))] True, LLanded ''apps'' ''v1'' ''deployments'' [] True]
              (open_list False ''core'' ''v1'' ''pods'' [] [] ui)
   in lp_calls st ! 0 = CallRefresh ''apps/v1/deployments'' \<lparr>lo_namespace = Some ''default'', lo_selector = []\<rparr> \<and>
      url_differs st \<and> \<not> lp_urlTimer st \<and> \<not> lp_leaving st \<and> length (lp_replaces st) = 1"
  by code_simp

section \<open>What a click opens\<close>

lemma project_cell: "cell_at (project_row row) (Suc 0) = cell_at row 0" "tr_meta (project_row row) = tr_meta row"
  by (simp_all add: cell_at_def project_row_def)

text \<open>
  A click opens the object of its row: whether or not the Namespace column is shown, the displayed row opens what the server's row
  names, and the detail page reads back that name, this list's resource and, for a namespaced resource, the row's own namespace.
\<close>

theorem row_click_opens_its_object:
  "(let shownRows = (if nsShown then fst (withNamespaceCells (List.enumerate 0 rows) Map.empty) else rows)
    in map (openDetail st nsShown) shownRows = map (openDetail st False) rows) \<and>
   (case (openDetail st False row, Option.bind (tr_meta row) om_name) of
      (Some route, Some n) \<Rightarrow>
        pp_name (props_of route) = n \<and>
        (if lp_group st = [] then True else apiRef (props_of route) = list_ref st) \<and>
        (case (lp_namespaced st, Option.bind (tr_meta row) om_namespace) of
           (True, Some ns) \<Rightarrow> if isDNS1123Label ns then objectNamespace (props_of route) = Some ns else True
         | (False, _) \<Rightarrow> objectNamespace (props_of route) = None
         | _ \<Rightarrow> True)
    | (Some _, None) \<Rightarrow> True
    | (None, n) \<Rightarrow> n = None \<or> n = Some [])"
proof -
  have "memo_ok (\<lambda>a. if a < length rows then Some (rows ! a) else None) Map.empty" by (simp add: memo_ok_def)
  moreover have "list_all (\<lambda>(a, row). (if a < length rows then Some (rows ! a) else None) = Some row) (List.enumerate 0 rows)"
    by (auto simp: list_all_iff in_set_enumerate_eq)
  ultimately have "fst (withNamespaceCells (List.enumerate 0 rows) Map.empty) = map (project_row \<circ> snd) (List.enumerate 0 rows)"
    using memo_transparent by blast
  then have m: "fst (withNamespaceCells (List.enumerate 0 rows) Map.empty) = map project_row rows"
    by (simp add: map_map [symmetric] del: map_map)
  have "openDetail st True (project_row row) = openDetail st False row" for row
    by (simp add: openDetail_def project_cell Let_def)
  then have rows: "map (openDetail st True) (map project_row rows) = map (openDetail st False) rows" by simp
  have "n \<noteq> CLUSTER_SCOPE_SENTINEL" if "isDNS1123Label n" for n using that sentinel_is_no_namespace by auto
  moreover have "\<not> isDNS1123Label []" by (simp add: isDNS1123Label_def)
  ultimately have "case (openDetail st False row, Option.bind (tr_meta row) om_name) of
      (Some route, Some n) \<Rightarrow>
        pp_name (props_of route) = n \<and>
        (if lp_group st = [] then True else apiRef (props_of route) = list_ref st) \<and>
        (case (lp_namespaced st, Option.bind (tr_meta row) om_namespace) of
           (True, Some ns) \<Rightarrow> if isDNS1123Label ns then objectNamespace (props_of route) = Some ns else True
         | (False, _) \<Rightarrow> objectNamespace (props_of route) = None
         | _ \<Rightarrow> True)
    | (Some _, None) \<Rightarrow> True
    | (None, n) \<Rightarrow> n = None \<or> n = Some []"
    by (auto simp: openDetail_def Let_def props_of_def resourceDetailRoute_def apiRef_def objectNamespace_def routeGroup_def list_ref_def
        split: option.split bool.split)
  then show ?thesis using m rows by (simp add: Let_def)
qed

section \<open>Event links\<close>

lemma link_key_inj:
  "CHR ''/'' \<notin> set ns \<Longrightarrow> CHR ''/'' \<notin> set ns' \<Longrightarrow> ns @ ''/'' @ v = ns' @ ''/'' @ v' \<Longrightarrow> ns = ns' \<and> v = v'"
proof (induction ns arbitrary: ns')
  case Nil
  then show ?case by (cases ns') auto
next
  case (Cons c ns)
  then show ?case by (cases ns') auto
qed

definition event_namespace :: "jstring \<Rightarrow> table_row \<Rightarrow> jstring" where
  "event_namespace fallback row = (case Option.bind (tr_meta row) om_namespace of Some n \<Rightarrow> n | None \<Rightarrow> fallback)"

definition link_memo_ok :: "(jstring \<Rightarrow> jstring \<Rightarrow> rat) \<Rightarrow> discovery_resource list \<Rightarrow> link_memo \<Rightarrow> bool" where
  "link_memo_ok coll resources cache \<longleftrightarrow>
     (\<forall>ns v r. CHR ''/'' \<notin> set ns \<longrightarrow> map_of cache (ns @ ''/'' @ v) = Some r \<longrightarrow> r = eventObjectRoute coll resources v ns)"

lemma link_memoized:
  assumes "link_memo_ok coll resources cache" "CHR ''/'' \<notin> set (event_namespace fallback row)"
  shows "fst (eventObjectLink coll resources fallback (row, column, v) cache) =
      (if column = ''Object'' then eventObjectRoute coll resources v (event_namespace fallback row) else None) \<and>
    link_memo_ok coll resources (snd (eventObjectLink coll resources fallback (row, column, v) cache))"
proof -
  let ?ns = "event_namespace fallback row"
  have ext: "link_memo_ok coll resources (AList.update (?ns @ ''/'' @ v) (eventObjectRoute coll resources v ?ns) cache)"
    unfolding link_memo_ok_def
  proof (intro allI impI)
    fix ns w r
    assume ns: "CHR ''/'' \<notin> set ns" and m: "map_of (AList.update (?ns @ ''/'' @ v) (eventObjectRoute coll resources v ?ns) cache) (ns @ ''/'' @ w) = Some r"
    show "r = eventObjectRoute coll resources w ns"
    proof (cases "ns @ ''/'' @ w = ?ns @ ''/'' @ v")
      case True
      then show ?thesis using link_key_inj [OF ns assms(2)] m by (auto simp: update_conv')
    next
      case False
      then show ?thesis using m ns assms(1) by (simp add: update_conv' link_memo_ok_def)
    qed
  qed
  have hit: "r = eventObjectRoute coll resources v ?ns" if "map_of cache (?ns @ ''/'' @ v) = Some r" for r
    using that assms by (simp add: link_memo_ok_def)
  show ?thesis using ext hit assms(1) by (simp add: eventObjectLink_def event_namespace_def [symmetric] Let_def split: option.split)
qed

text \<open>
  The memo of event links is invisible: whatever cells are asked for, in whatever order and however often, each gets the link computed afresh from the catalog and its own
  namespace (namespaces hold no slash), so no event ever links to another's object.
\<close>

theorem event_links_are_exact:
  assumes "list_all (\<lambda>(row, _, _). CHR ''/'' \<notin> set (event_namespace fallback row)) asks"
  shows "ask_links coll resources fallback asks [] =
        map (\<lambda>(row, column, v). if column = ''Object'' then eventObjectRoute coll resources v (event_namespace fallback row) else None) asks"
proof -
  have "link_memo_ok coll resources cache \<Longrightarrow> list_all (\<lambda>(row, _, _). CHR ''/'' \<notin> set (event_namespace fallback row)) asks \<Longrightarrow>
      ask_links coll resources fallback asks cache =
      map (\<lambda>(row, column, v). if column = ''Object'' then eventObjectRoute coll resources v (event_namespace fallback row) else None) asks" for cache
  proof (induction asks arbitrary: cache)
    case (Cons ask asks)
    obtain row column v where a: "ask = (row, column, v)" using prod_cases3 by blast
    show ?case using Cons.prems link_memoized [OF Cons.prems(1), of fallback row column v] Cons.IH
      by (simp add: a case_prod_beta)
  qed simp
  then show ?thesis using assms by (simp add: link_memo_ok_def)
qed

theorem event_links_are_exact_witness:
  "let row = \<lparr>tr_cells = [], tr_meta = None\<rparr>; c = (row, ''Object'', ''pod/web'') in
   ask_links (\<lambda>_ _. 0) [] ''default'' [c, c] [] = [eventObjectRoute (\<lambda>_ _. 0) [] ''pod/web'' ''default'', eventObjectRoute (\<lambda>_ _. 0) [] ''pod/web'' ''default'']"
  using event_links_are_exact [of "''default''" "[(\<lparr>tr_cells = [], tr_meta = None\<rparr>, ''Object'', ''pod/web''), (\<lparr>tr_cells = [], tr_meta = None\<rparr>, ''Object'', ''pod/web'')]" "\<lambda>_ _. 0" "[]"]
  by (simp add: event_namespace_def)

end
