(* ===== verification/YamlEditor.thy ===== *)
theory YamlEditor
  imports YamlView Http
begin

text \<open>
  The YAML tab of the detail page, \<^verbatim>\<open>components/detail/YamlTab.vue\<close>. Texts are the values of the \<^verbatim>\<open>yaml\<close> library (parameters
  \<open>stringify\<close> and \<open>parse\<close> of YamlView), a message is a list of code points. An operation ends with the watcher of the draft; a disabled control does
  nothing. The request settles by \<open>YSettles\<close>.
\<close>

section \<open>The tab\<close>

record 'y yaml_request =
  yr_namespace :: "code_points option"
  yr_name :: code_points
  yr_body :: 'y
  yr_dryRun :: bool

text \<open>\<open>yt_sent\<close> logs the requests, newest first; \<open>yt_inflight\<close> is the one awaited, with the draft it was started on. Nothing reads that draft. \<open>yt_ahead\<close> says that the baseline is an applied text whose object has not come back; no operation reads it.\<close>

record 'y yaml_tab =
  yt_object :: yval
  yt_decoded :: bool
  yt_draft :: 'y
  yt_baseline :: 'y
  yt_showFull :: bool
  yt_busy :: bool
  yt_error :: "code_points option"
  yt_conflict :: "code_points option"
  yt_changed :: bool
  yt_sent :: "'y yaml_request list"
  yt_inflight :: "('y yaml_request \<times> 'y) option"
  yt_toasts :: "code_points list"
  yt_applied :: nat
  yt_ahead :: bool

definition yaml_project :: "(bool \<Rightarrow> yval \<Rightarrow> 'y) \<Rightarrow> bool \<Rightarrow> yval \<Rightarrow> 'y option" where
  "yaml_project stringify decoded obj = (if decoded then toDecodedSecretYaml stringify obj else Some (toEditableYaml stringify obj))"

definition dirty :: "'y yaml_tab \<Rightarrow> bool" where
  "dirty st \<longleftrightarrow> yt_draft st \<noteq> yt_baseline st"

definition actionsDisabled :: "'y yaml_tab \<Rightarrow> bool" where
  "actionsDisabled st \<longleftrightarrow> yt_busy st \<or> \<not> dirty st \<or> yt_showFull st"

definition decodeDisabled :: "'y yaml_tab \<Rightarrow> bool" where
  "decodeDisabled st \<longleftrightarrow> yt_busy st \<or> dirty st"

definition yaml_is_secret :: "yval \<Rightarrow> bool" where
  "yaml_is_secret obj \<longleftrightarrow> yget ''apiVersion'' obj = Some (YStr (ascii ''v1'')) \<and> yget ''kind'' obj = Some (YStr (ascii ''Secret''))"

definition fullDoc :: "(bool \<Rightarrow> yval \<Rightarrow> 'y) \<Rightarrow> 'y yaml_tab \<Rightarrow> 'y option" where
  "fullDoc stringify st = (if yt_showFull st then Some (toYaml stringify (yt_object st)) else None)"

definition open_tab :: "(bool \<Rightarrow> yval \<Rightarrow> 'y) \<Rightarrow> yval \<Rightarrow> 'y yaml_tab" where
  "open_tab stringify obj =
     \<lparr>yt_object = obj, yt_decoded = False, yt_draft = toEditableYaml stringify obj, yt_baseline = toEditableYaml stringify obj,
      yt_showFull = False, yt_busy = False, yt_error = None, yt_conflict = None, yt_changed = False, yt_sent = [], yt_inflight = None,
      yt_toasts = [], yt_applied = 0, yt_ahead = False\<rparr>"

definition setDecoded :: "(bool \<Rightarrow> yval \<Rightarrow> 'y) \<Rightarrow> bool \<Rightarrow> 'y yaml_tab \<Rightarrow> 'y yaml_tab" where
  "setDecoded stringify enable st =
     (case yaml_project stringify enable (yt_object st) of
        None \<Rightarrow> st\<lparr>yt_decoded := enable\<rparr>
      | Some t \<Rightarrow> st\<lparr>yt_decoded := enable, yt_draft := t, yt_baseline := t, yt_changed := False, yt_ahead := False\<rparr>)"

definition object_arrives :: "(bool \<Rightarrow> yval \<Rightarrow> 'y) \<Rightarrow> yval \<Rightarrow> 'y yaml_tab \<Rightarrow> 'y yaml_tab" where
  "object_arrives stringify obj st =
     (let st1 = st\<lparr>yt_object := obj\<rparr>
      in case yaml_project stringify (yt_decoded st) obj of
           None \<Rightarrow> st1
         | Some fresh \<Rightarrow>
             if fresh = yt_baseline st then st1\<lparr>yt_ahead := False\<rparr>
             else if dirty st then st1\<lparr>yt_baseline := fresh, yt_changed := True, yt_ahead := False\<rparr>
             else st1\<lparr>yt_baseline := fresh, yt_draft := fresh, yt_changed := False, yt_ahead := False\<rparr>)"

definition cancel_edit :: "'y yaml_tab \<Rightarrow> 'y yaml_tab" where
  "cancel_edit st = st\<lparr>yt_draft := yt_baseline st, yt_error := None, yt_conflict := None, yt_changed := False\<rparr>"

section \<open>Applying\<close>

definition cause_text :: "json \<Rightarrow> jstring" where
  "cause_text c =
     (case c of
        JObj m \<Rightarrow>
          (case map_of m ''message'' of
             Some (JStr s) \<Rightarrow> s
           | _ \<Rightarrow> (case map_of m ''field'' of Some (JStr s) \<Rightarrow> s | _ \<Rightarrow> []))
      | _ \<Rightarrow> [])"

definition conflict_causes :: "json option \<Rightarrow> jstring list" where
  "conflict_causes k8sStatus =
     (case k8sStatus of
        Some (JObj m) \<Rightarrow>
          (case map_of m ''details'' of
             Some (JObj d) \<Rightarrow> (case map_of d ''causes'' of Some (JArr cs) \<Rightarrow> filter (\<lambda>t. t \<noteq> []) (map cause_text cs) | _ \<Rightarrow> [])
           | _ \<Rightarrow> [])
      | _ \<Rightarrow> [])"

definition applyError :: "thrown \<Rightarrow> 'y yaml_tab \<Rightarrow> 'y yaml_tab" where
  "applyError e st =
     (case e of
        ApiError status msg k8sStatus \<Rightarrow>
          if status = 409 then st\<lparr>yt_conflict := Some (ascii (join ''\<newline>'' (msg # conflict_causes k8sStatus)))\<rparr>
          else st\<lparr>yt_error := Some (ascii (messageFromError e None))\<rparr>
      | OtherError _ \<Rightarrow> st\<lparr>yt_error := Some (ascii (messageFromError e None))\<rparr>)"

definition yaml_error_text :: "yaml_error \<Rightarrow> code_points" where
  "yaml_error_text e = (case e of YamlSyntax s \<Rightarrow> ascii s | YamlRefused s \<Rightarrow> s)"

definition text_member :: "jstring \<Rightarrow> yval option \<Rightarrow> code_points option" where
  "text_member k v = (case Option.bind v (yget k) of Some (YStr s) \<Rightarrow> Some s | _ \<Rightarrow> None)"

definition run_apply ::
  "(bool \<Rightarrow> yval \<Rightarrow> 'y) \<Rightarrow> (bool \<Rightarrow> 'y \<Rightarrow> jstring + yval) \<Rightarrow> bool \<Rightarrow> 'y yaml_tab \<Rightarrow> 'y yaml_tab" where
  "run_apply stringify parse dryRun st =
     (let meta = yget ''metadata'' (yt_object st)
      in case text_member ''name'' meta of
           None \<Rightarrow> st
         | Some name \<Rightarrow>
             let st1 = st\<lparr>yt_error := None, yt_conflict := None\<rparr>
             in case (if yt_decoded st then encodeSecretYaml stringify parse (yt_draft st) else Inr (yt_draft st)) of
                  Inl e \<Rightarrow> st1\<lparr>yt_error := Some (yaml_error_text e)\<rparr>
                | Inr body \<Rightarrow>
                    let r = \<lparr>yr_namespace = text_member ''namespace'' meta, yr_name = name, yr_body = body, yr_dryRun = dryRun\<rparr>
                    in st1\<lparr>yt_busy := True, yt_sent := r # yt_sent st, yt_inflight := Some (r, yt_draft st)\<rparr>)"

definition apply_settles :: "unit + thrown \<Rightarrow> 'y yaml_tab \<Rightarrow> 'y yaml_tab" where
  "apply_settles res st =
     (case yt_inflight st of
        None \<Rightarrow> st
      | Some (r, _) \<Rightarrow>
          let st1 = (case res of
                       Inr e \<Rightarrow> applyError e st
                     | Inl _ \<Rightarrow>
                         if yr_dryRun r then st\<lparr>yt_toasts := ascii ''Dry run succeeded: the manifest is valid.'' # yt_toasts st\<rparr>
                         else st\<lparr>yt_toasts := (ascii ''Applied '' @ yr_name r @ ascii ''.'') # yt_toasts st, yt_baseline := yt_draft st,
                                 yt_changed := False, yt_applied := Suc (yt_applied st), yt_ahead := True\<rparr>)
          in st1\<lparr>yt_busy := False, yt_inflight := None\<rparr>)"

datatype 'y yaml_event =
    YType 'y | YFull bool | YDecode bool | YObject yval | YCancel | YRun bool | YSettles "unit + thrown"

definition yaml_op ::
  "(bool \<Rightarrow> yval \<Rightarrow> 'y) \<Rightarrow> (bool \<Rightarrow> 'y \<Rightarrow> jstring + yval) \<Rightarrow> 'y yaml_event \<Rightarrow> 'y yaml_tab \<Rightarrow> 'y yaml_tab" where
  "yaml_op stringify parse e st =
     (case e of
        YType t \<Rightarrow> (if yt_showFull st then st else st\<lparr>yt_draft := t\<rparr>)
      | YFull b \<Rightarrow> st\<lparr>yt_showFull := b\<rparr>
      | YDecode b \<Rightarrow> (if decodeDisabled st \<or> \<not> yaml_is_secret (yt_object st) then st else setDecoded stringify b st)
      | YObject obj \<Rightarrow> object_arrives stringify obj st
      | YCancel \<Rightarrow> (if actionsDisabled st then st else cancel_edit st)
      | YRun dryRun \<Rightarrow> (if actionsDisabled st then st else run_apply stringify parse dryRun st)
      | YSettles res \<Rightarrow> apply_settles res st)"

text \<open>The watcher of the draft: an edit answers the banner.\<close>

definition yaml_step ::
  "(bool \<Rightarrow> yval \<Rightarrow> 'y) \<Rightarrow> (bool \<Rightarrow> 'y \<Rightarrow> jstring + yval) \<Rightarrow> 'y yaml_event \<Rightarrow> 'y yaml_tab \<Rightarrow> 'y yaml_tab" where
  "yaml_step stringify parse e st =
     (let st1 = yaml_op stringify parse e st
      in if yt_draft st1 \<noteq> yt_draft st then st1\<lparr>yt_error := None, yt_conflict := None\<rparr> else st1)"

section \<open>Properties\<close>

lemma step_fields:
  "yt_draft (yaml_step stringify parse e st) = yt_draft (yaml_op stringify parse e st)"
  "yt_baseline (yaml_step stringify parse e st) = yt_baseline (yaml_op stringify parse e st)"
  "yt_object (yaml_step stringify parse e st) = yt_object (yaml_op stringify parse e st)"
  "yt_decoded (yaml_step stringify parse e st) = yt_decoded (yaml_op stringify parse e st)"
  "yt_changed (yaml_step stringify parse e st) = yt_changed (yaml_op stringify parse e st)"
  "yt_ahead (yaml_step stringify parse e st) = yt_ahead (yaml_op stringify parse e st)"
  "yt_busy (yaml_step stringify parse e st) = yt_busy (yaml_op stringify parse e st)"
  "yt_inflight (yaml_step stringify parse e st) = yt_inflight (yaml_op stringify parse e st)"
  "yt_sent (yaml_step stringify parse e st) = yt_sent (yaml_op stringify parse e st)"
  by (simp_all add: yaml_step_def Let_def)

lemma error_fields [simp]:
  "yt_draft (applyError e st) = yt_draft st" "yt_baseline (applyError e st) = yt_baseline st" "yt_object (applyError e st) = yt_object st"
  "yt_decoded (applyError e st) = yt_decoded st" "yt_changed (applyError e st) = yt_changed st" "yt_ahead (applyError e st) = yt_ahead st"
  "yt_busy (applyError e st) = yt_busy st" "yt_sent (applyError e st) = yt_sent st"
  by (simp_all add: applyError_def split: thrown.split)

text \<open>
  C8. Edits survive everything but the user: while the draft is dirty, only typing and Cancel change it; a new version of the object, a dry run, a failed apply or the mode
  switches leave it alone, and a version that differs in what is edited raises the notice and becomes what Cancel returns to.
\<close>

theorem edits_survive_refreshes:
  assumes "dirty st"
  shows "let st' = yaml_step stringify parse e st in
      yt_draft st' = (case e of
                        YType t \<Rightarrow> if yt_showFull st then yt_draft st else t
                      | YCancel \<Rightarrow> if yt_busy st \<or> yt_showFull st then yt_draft st else yt_baseline st
                      | _ \<Rightarrow> yt_draft st) \<and>
      (case e of
         YObject obj \<Rightarrow>
           (case yaml_project stringify (yt_decoded st) obj of
              Some fresh \<Rightarrow> yt_baseline st' = fresh \<and> (if fresh \<noteq> yt_baseline st then yt_changed st' else yt_changed st' = yt_changed st)
            | None \<Rightarrow> yt_baseline st' = yt_baseline st)
       | YSettles (Inl _) \<Rightarrow> True
       | _ \<Rightarrow> yt_baseline st' = yt_baseline st)"
  using assms by (cases e) (auto simp: step_fields yaml_op_def object_arrives_def cancel_edit_def actionsDisabled_def decodeDisabled_def run_apply_def
      apply_settles_def Let_def split: option.split sum.split)

theorem edits_survive_refreshes_witness:
  "let st' = yaml_step (\<lambda>_ obj. obj) (\<lambda>_ t. Inr t) (YObject (YNum 2)) ((open_tab (\<lambda>_ obj. obj) (YNum 1))\<lparr>yt_draft := YNum 3\<rparr>)
   in yt_draft st' = YNum 3 \<and> yt_baseline st' = YNum 2 \<and> yt_changed st'"
  using edits_survive_refreshes [of "(open_tab (\<lambda>_ obj. obj) (YNum 1))\<lparr>yt_draft := YNum 3\<rparr>" "\<lambda>_ obj. obj" "\<lambda>_ t. Inr t" "YObject (YNum 2)"]
  by (simp add: open_tab_def toEditableYaml_def editableClone_def yaml_project_def dirty_def Let_def)

definition tab_ok :: "(bool \<Rightarrow> yval \<Rightarrow> 'y) \<Rightarrow> 'y yaml_tab \<Rightarrow> bool" where
  "tab_ok stringify st \<longleftrightarrow>
     (yt_ahead st \<or> (case yaml_project stringify (yt_decoded st) (yt_object st) of Some t \<Rightarrow> yt_baseline st = t | None \<Rightarrow> True)) \<and>
     yt_busy st = (yt_inflight st \<noteq> None)"

lemma tab_ok_step: "tab_ok stringify st \<Longrightarrow> tab_ok stringify (yaml_step stringify parse e st)"
proof (cases e)
  case (YSettles r)
  assume "tab_ok stringify st"
  then show ?thesis using YSettles
    by (cases r) (auto simp: tab_ok_def step_fields yaml_op_def apply_settles_def Let_def split: option.splits)
qed (auto simp: tab_ok_def step_fields yaml_op_def object_arrives_def cancel_edit_def setDecoded_def run_apply_def Let_def
    split: option.splits sum.splits)

definition run_tab :: "(bool \<Rightarrow> yval \<Rightarrow> 'y) \<Rightarrow> (bool \<Rightarrow> 'y \<Rightarrow> jstring + yval) \<Rightarrow> yval \<Rightarrow> 'y yaml_event list \<Rightarrow> 'y yaml_tab" where
  "run_tab stringify parse obj es = fold (yaml_step stringify parse) es (open_tab stringify obj)"

lemma run_tab_ok: "tab_ok stringify (run_tab stringify parse obj es)"
proof -
  have "tab_ok stringify (fold (yaml_step stringify parse) es st)" if "tab_ok stringify st" for st
    using that by (induction es arbitrary: st) (simp_all add: tab_ok_step)
  moreover have "tab_ok stringify (open_tab stringify obj)" by (simp add: tab_ok_def open_tab_def yaml_project_def)
  ultimately show ?thesis by (simp add: run_tab_def)
qed

text \<open>
  A clean editor shows the server: after any operations, unless an apply has just succeeded and its object is still to come back, a draft without unsaved
  changes is the projection of the object on screen in the chosen encoding, and the buttons are locked exactly while a request is awaited.
\<close>

theorem clean_editor_shows_object:
  "let st = run_tab stringify parse obj es in
   (if dirty st \<or> yt_ahead st then True
    else case yaml_project stringify (yt_decoded st) (yt_object st) of Some t \<Rightarrow> yt_draft st = t | None \<Rightarrow> True) \<and>
   (yt_inflight st \<noteq> None \<longleftrightarrow> yt_busy st)"
  using run_tab_ok [of stringify parse obj es] by (auto simp: tab_ok_def dirty_def Let_def split: option.split)

definition applied_body :: "(bool \<Rightarrow> yval \<Rightarrow> 'y) \<Rightarrow> (bool \<Rightarrow> 'y \<Rightarrow> jstring + yval) \<Rightarrow> 'y yaml_tab \<Rightarrow> yaml_error + 'y" where
  "applied_body stringify parse st = (if yt_decoded st then encodeSecretYaml stringify parse (yt_draft st) else Inr (yt_draft st))"

lemma run_sends:
  assumes "\<not> actionsDisabled st" "text_member ''name'' (yget ''metadata'' (yt_object st)) = Some name" "applied_body stringify parse st = Inr body"
  shows "yaml_step stringify parse (YRun d) st =
    st\<lparr>yt_error := None, yt_conflict := None, yt_busy := True,
       yt_sent := \<lparr>yr_namespace = text_member ''namespace'' (yget ''metadata'' (yt_object st)), yr_name = name, yr_body = body, yr_dryRun = d\<rparr> # yt_sent st,
       yt_inflight := Some (\<lparr>yr_namespace = text_member ''namespace'' (yget ''metadata'' (yt_object st)), yr_name = name, yr_body = body, yr_dryRun = d\<rparr>, yt_draft st)\<rparr>"
  using assms by (simp add: yaml_step_def yaml_op_def run_apply_def applied_body_def Let_def)

text \<open>
  Apply sends what is on screen and ends clean: on a dirty draft of a named object whose body can be encoded, Apply sends that body to that object; when it succeeds
  and the server's new version arrives the editor shows exactly that version, with nothing unsaved, no notice, no banner and the buttons free.
\<close>

theorem apply_ends_clean:
  "case (text_member ''name'' (yget ''metadata'' (yt_object st)), applied_body stringify parse st, yaml_project stringify (yt_decoded st) obj) of
     (Some name, Inr body, Some fresh) \<Rightarrow>
       if actionsDisabled st then True
       else (let st1 = yaml_step stringify parse (YRun False) st;
                 st3 = fold (yaml_step stringify parse) [YSettles (Inl ()), YObject obj] st1
             in yr_body (hd (yt_sent st1)) = body \<and> yr_name (hd (yt_sent st1)) = name \<and> \<not> yr_dryRun (hd (yt_sent st1)) \<and>
                yt_draft st3 = fresh \<and> \<not> dirty st3 \<and> \<not> yt_changed st3 \<and> yt_error st3 = None \<and> yt_conflict st3 = None \<and>
                \<not> yt_busy st3 \<and> yt_object st3 = obj \<and> yt_applied st3 = Suc (yt_applied st))
   | _ \<Rightarrow> True"
proof -
  have "yr_body (hd (yt_sent st1)) = body \<and> yr_name (hd (yt_sent st1)) = name \<and> \<not> yr_dryRun (hd (yt_sent st1)) \<and>
      yt_draft st3 = fresh \<and> \<not> dirty st3 \<and> \<not> yt_changed st3 \<and> yt_error st3 = None \<and> yt_conflict st3 = None \<and>
      \<not> yt_busy st3 \<and> yt_object st3 = obj \<and> yt_applied st3 = Suc (yt_applied st)"
    if a: "text_member ''name'' (yget ''metadata'' (yt_object st)) = Some name" "applied_body stringify parse st = Inr body"
      "yaml_project stringify (yt_decoded st) obj = Some fresh" "\<not> actionsDisabled st"
      and st1: "st1 = yaml_step stringify parse (YRun False) st"
      and st3: "st3 = fold (yaml_step stringify parse) [YSettles (Inl ()), YObject obj] st1" for name body fresh st1 st3
    using run_sends [OF a(4,1,2), of False] a(3) unfolding st1 st3
    by (simp add: yaml_step_def [of _ _ "YSettles (Inl ())"] yaml_step_def [of _ _ "YObject obj"] yaml_op_def apply_settles_def
        object_arrives_def dirty_def Let_def)
  then show ?thesis by (auto simp: Let_def split: option.split sum.split)
qed

text \<open>
  The editor is not locked while a request is awaited, and a success takes the draft of that moment for what was applied: whatever was typed since Apply is
  overwritten by the object that comes back, without a notice.
\<close>

lemma success_settles:
  assumes "yt_inflight st = Some (r, d)" "\<not> yr_dryRun r"
  shows "yt_baseline (yaml_step stringify parse (YSettles (Inl ())) st) = yt_draft st \<and>
    yt_draft (yaml_step stringify parse (YSettles (Inl ())) st) = yt_draft st \<and>
    yt_changed (yaml_step stringify parse (YSettles (Inl ())) st) = False \<and>
    yt_decoded (yaml_step stringify parse (YSettles (Inl ())) st) = yt_decoded st"
  using assms by (simp add: step_fields yaml_op_def apply_settles_def Let_def)

lemma clean_reseeds:
  assumes "yt_draft st = yt_baseline st" "\<not> yt_changed st" "yaml_project stringify (yt_decoded st) obj = Some fresh"
  shows "yt_draft (yaml_step stringify parse (YObject obj) st) = fresh \<and> yt_baseline (yaml_step stringify parse (YObject obj) st) = fresh \<and>
    \<not> yt_changed (yaml_step stringify parse (YObject obj) st)"
  using assms by (simp add: step_fields yaml_op_def object_arrives_def dirty_def Let_def)

lemma edits_in_flight_are_lost:
  assumes "\<not> actionsDisabled st" "text_member ''name'' (yget ''metadata'' (yt_object st)) = Some name" "applied_body stringify parse st = Inr body"
    "yaml_project stringify (yt_decoded st) obj = Some fresh"
  shows "let st' = fold (yaml_step stringify parse) [YRun False, YType typed, YSettles (Inl ()), YObject obj] st
    in yt_draft st' = fresh \<and> \<not> dirty st' \<and> \<not> yt_changed st'"
proof -
  define st1 where "st1 = yaml_step stringify parse (YRun False) st"
  define st2 where "st2 = yaml_step stringify parse (YType typed) st1"
  define st3 where "st3 = yaml_step stringify parse (YSettles (Inl ())) st2"
  have 1: "\<exists>r d. yt_inflight st1 = Some (r, d) \<and> \<not> yr_dryRun r" "yt_decoded st1 = yt_decoded st"
    using run_sends [OF assms(1,2,3), of False] by (simp_all add: st1_def)
  have 2: "yt_inflight st2 = yt_inflight st1" "yt_decoded st2 = yt_decoded st1" by (simp_all add: st2_def step_fields yaml_op_def Let_def)
  have 3: "yt_baseline st3 = yt_draft st3 \<and> \<not> yt_changed st3 \<and> yt_decoded st3 = yt_decoded st"
    using success_settles [of st2] 1 2 unfolding st3_def by force
  show ?thesis using clean_reseeds [of st3 stringify obj fresh] 3 assms(4)
    by (simp add: Let_def dirty_def st1_def [symmetric] st2_def [symmetric] st3_def [symmetric])
qed

end
