(* ===== verification/WorkloadLogs.thy ===== *)
theory WorkloadLogs
  imports DetailPage
begin

text \<open>
  The Logs tab of a pod owner, \<^verbatim>\<open>components/pod/WorkloadLogsTab.vue\<close>, and its pod picker, \<^verbatim>\<open>components/pod/WorkloadPodSelect.vue\<close>. A pod object
  is whatever the server returns; the GET settles by an operation that names the load it belongs to.
\<close>

section \<open>The picked pod\<close>

text \<open>\<open>wl_requests\<close> holds the name each load asked for; \<open>wl_from\<close> the name the pod on screen was fetched by, which no operation reads.\<close>

record 'p workload_logs =
  wl_choices :: "pod_choice list"
  wl_truncated :: bool
  wl_selected :: jstring
  wl_pod :: "'p option"
  wl_loading :: bool
  wl_error :: "jstring option"
  wl_loadId :: nat
  wl_requests :: "(nat \<times> jstring) list"
  wl_from :: "jstring option"

definition loadPod :: "'p workload_logs \<Rightarrow> 'p workload_logs" where
  "loadPod st =
     (let i = Suc (wl_loadId st); st1 = st\<lparr>wl_loadId := i\<rparr>
      in if wl_selected st = [] then st1\<lparr>wl_pod := None, wl_error := None, wl_loading := False, wl_from := None\<rparr>
         else st1\<lparr>wl_loading := True, wl_error := None, wl_requests := (i, wl_selected st) # wl_requests st\<rparr>)"

definition pod_settles :: "nat \<Rightarrow> thrown + 'p \<Rightarrow> 'p workload_logs \<Rightarrow> 'p workload_logs" where
  "pod_settles i r st =
     (case map_of (wl_requests st) i of
        None \<Rightarrow> st
      | Some name \<Rightarrow>
          if i \<noteq> wl_loadId st then st
          else case r of
                 Inr p \<Rightarrow> st\<lparr>wl_pod := Some p, wl_from := Some name, wl_loading := False\<rparr>
               | Inl e \<Rightarrow> st\<lparr>wl_error := Some (messageFromError e None), wl_loading := False\<rparr>)"

definition is_choice :: "jstring \<Rightarrow> pod_choice list \<Rightarrow> bool" where
  "is_choice name choices \<longleftrightarrow> list_ex (\<lambda>c. pch_name c = name) choices"

definition choices_change :: "pod_choice list \<times> bool \<Rightarrow> 'p workload_logs \<Rightarrow> 'p workload_logs" where
  "choices_change c st =
     (let st1 = st\<lparr>wl_choices := fst c, wl_truncated := snd c\<rparr>
      in loadPod (if is_choice (wl_selected st1) (fst c) then st1 else st1\<lparr>wl_selected := defaultPodName (fst c)\<rparr>))"

definition pick :: "jstring \<Rightarrow> 'p workload_logs \<Rightarrow> 'p workload_logs" where
  "pick name st = (if name = wl_selected st then st else loadPod (st\<lparr>wl_selected := name\<rparr>))"

definition open_workload :: "pod_choice list \<times> bool \<Rightarrow> 'p workload_logs" where
  "open_workload c =
     choices_change c \<lparr>wl_choices = [], wl_truncated = False, wl_selected = [], wl_pod = None, wl_loading = False, wl_error = None,
                       wl_loadId = 0, wl_requests = [], wl_from = None\<rparr>"

section \<open>The picker\<close>

definition sole_choice :: "pod_choice list \<Rightarrow> bool" where
  "sole_choice choices \<longleftrightarrow> length choices = 1"

definition pick_hint :: "pod_choice list \<Rightarrow> jstring option" where
  "pick_hint choices = (if sole_choice choices then Some ''The only pod'' else None)"

definition middle_dot :: jstring where "middle_dot = '' '' @ [char_of (183 :: nat)] @ '' ''"

definition optionText :: "pod_choice \<Rightarrow> jstring" where
  "optionText c = (if pch_status c = [] then pch_name c else pch_name c @ middle_dot @ pch_status c)"

text \<open>The dash of the title is a parameter: its code unit is beyond those modelled.\<close>

definition selectTitle :: "jstring \<Rightarrow> pod_choice list \<Rightarrow> jstring \<Rightarrow> jstring option" where
  "selectTitle dash choices model =
     (let t = map_option optionText (find (\<lambda>c. pch_name c = model) choices)
      in case pick_hint choices of
           None \<Rightarrow> t
         | Some hint \<Rightarrow> (case t of None \<Rightarrow> Some hint | Some s \<Rightarrow> Some (s @ dash @ to_lower hint)))"

section \<open>The pod on screen is the one picked\<close>

lemma load_gen [simp]: "wl_loadId (loadPod st) = Suc (wl_loadId st)"
  by (simp add: loadPod_def Let_def)

definition select_op :: "(pod_choice list \<times> bool) + jstring \<Rightarrow> 'p workload_logs \<Rightarrow> 'p workload_logs" where
  "select_op x st = (case x of Inl c \<Rightarrow> choices_change c st | Inr name \<Rightarrow> loadPod (st\<lparr>wl_selected := name\<rparr>))"

interpretation pick_guard: generation_guard wl_loadId select_op pod_settles "\<lambda>(_ :: unit) st. st"
  by unfold_locales (auto simp: select_op_def choices_change_def pod_settles_def Let_def split: sum.split option.split)

datatype 'p workload_event = WChoices "pod_choice list" bool | WPick jstring | WSettles nat "thrown + 'p"

text \<open>Only offered pods can be picked, and the picker is locked on a sole one.\<close>

definition workload_step :: "'p workload_event \<Rightarrow> 'p workload_logs \<Rightarrow> 'p workload_logs" where
  "workload_step e st =
     (case e of
        WChoices cs t \<Rightarrow> choices_change (cs, t) st
      | WPick name \<Rightarrow> (if is_choice name (wl_choices st) then pick name st else st)
      | WSettles i r \<Rightarrow> pod_settles i r st)"

definition workload_inv :: "'p workload_logs \<Rightarrow> bool" where
  "workload_inv st \<longleftrightarrow>
     (if wl_choices st = [] then wl_selected st = [] else is_choice (wl_selected st) (wl_choices st)) \<and>
     list_all (\<lambda>(i, _). i \<le> wl_loadId st) (wl_requests st) \<and>
     (if wl_loading st then map_of (wl_requests st) (wl_loadId st) = Some (wl_selected st)
      else wl_error st \<noteq> None \<or> (if wl_selected st = [] then wl_pod st = None else wl_pod st \<noteq> None \<and> wl_from st = Some (wl_selected st))) \<and>
     (map_of (wl_requests st) (wl_loadId st) = None \<or>
      wl_selected st \<noteq> [] \<and> map_of (wl_requests st) (wl_loadId st) = Some (wl_selected st))"

lemma default_offered: "cs \<noteq> [] \<Longrightarrow> is_choice (defaultPodName cs) cs" "defaultPodName [] = []"
proof -
  show "is_choice (defaultPodName cs) cs" if "cs \<noteq> []"
  proof (cases "find (\<lambda>c. to_lower (pch_status c) = ''running'') cs")
    case None
    then show ?thesis using that by (cases cs) (auto simp: defaultPodName_def is_choice_def)
  next
    case (Some c)
    have "c \<in> set cs" using Some by (auto simp: find_Some_iff)
    then show ?thesis by (auto simp: defaultPodName_def Some is_choice_def list_ex_iff)
  qed
qed (simp add: defaultPodName_def)

lemma load_inv:
  assumes "if wl_choices st = [] then wl_selected st = [] else is_choice (wl_selected st) (wl_choices st)"
    "list_all (\<lambda>(i, _). i \<le> wl_loadId st) (wl_requests st)"
  shows "workload_inv (loadPod st)"
proof -
  have "list_all (\<lambda>(i, _). i \<le> Suc (wl_loadId st)) (wl_requests st)" using assms(2) by (auto simp: list_all_iff)
  moreover have "map_of (wl_requests st) (Suc (wl_loadId st)) = None" using assms(2) by (auto simp: map_of_eq_None_iff list_all_iff)
  ultimately show ?thesis using assms(1) by (auto simp: loadPod_def workload_inv_def Let_def split: if_splits)
qed

lemma choices_inv: "list_all (\<lambda>(i, _). i \<le> wl_loadId st) (wl_requests st) \<Longrightarrow> workload_inv (choices_change c st)"
  unfolding choices_change_def Let_def by (rule load_inv) (auto simp: default_offered, simp add: is_choice_def)

lemma workload_inv_step: "workload_inv st \<Longrightarrow> workload_inv (workload_step e st)"
proof (cases e)
  case (WChoices cs t)
  assume "workload_inv st"
  then have "list_all (\<lambda>(i, _). i \<le> wl_loadId st) (wl_requests st)" by (simp add: workload_inv_def)
  from choices_inv [OF this] show ?thesis using WChoices by (simp add: workload_step_def)
next
  case (WPick name)
  assume inv: "workload_inv st"
  have "workload_inv (loadPod (st\<lparr>wl_selected := name\<rparr>))" if "is_choice name (wl_choices st)"
    by (rule load_inv) (use inv that in \<open>auto simp: workload_inv_def is_choice_def\<close>)
  then show ?thesis using inv WPick by (simp add: workload_step_def pick_def)
next
  case (WSettles i r)
  assume inv: "workload_inv st"
  show ?thesis
  proof (cases "map_of (wl_requests st) i")
    case (Some name)
    show ?thesis
    proof (cases "i = wl_loadId st")
      case True
      then have "name = wl_selected st" using Some inv by (auto simp: workload_inv_def)
      then show ?thesis using WSettles Some True inv
        by (cases r) (auto simp: workload_step_def pod_settles_def workload_inv_def)
    qed (use inv WSettles Some in \<open>simp add: workload_step_def pod_settles_def\<close>)
  qed (use inv WSettles in \<open>simp add: workload_step_def pod_settles_def\<close>)
qed

text \<open>
  A workload's log is that of the picked pod: after any refreshes of the list, picks and late answers, the pick is one of the offered pods (none when there are none), and unless its
  GET is still running or has failed, in which case an earlier pod may stay beside the message, the pod on screen is the one fetched by that name.
\<close>

theorem workload_log_is_of_picked_pod:
  "let st = fold workload_step es (open_workload c) in
   (if wl_choices st = [] then wl_selected st = [] else is_choice (wl_selected st) (wl_choices st)) \<and>
   (if wl_loading st then True
    else if wl_error st \<noteq> None then True
    else if wl_selected st = [] then wl_pod st = None else wl_pod st \<noteq> None \<and> wl_from st = Some (wl_selected st))"
proof -
  have "workload_inv (fold workload_step es st)" if "workload_inv st" for st :: "'p workload_logs" and es
    using that by (induction es arbitrary: st) (simp_all add: workload_inv_step)
  moreover have "workload_inv (open_workload c)" unfolding open_workload_def by (rule choices_inv) simp
  ultimately have "workload_inv (fold workload_step es (open_workload c))" by blast
  then show ?thesis by (auto simp: Let_def workload_inv_def)
qed

end
