(* ===== verification/LogsTab.thy ===== *)
theory LogsTab
  imports LogViewer KubeApi CommandLine Chrome
begin

text \<open>
  The Logs tab of a pod: \<^verbatim>\<open>components/pod/PodLogsTab.vue\<close> over the stream and the search of LogViewer, and the rows of
  \<^verbatim>\<open>components/pod/LogViewer.vue\<close>. The options and the pod decide the URL; everything the stream and the search do is an event of
  theirs. Scrolling, measuring and the virtual list are the library's: the visible items are an argument.
\<close>

section \<open>The tab\<close>

datatype tail_lines = TailAll | Tail nat

text \<open>What the tab reads of a pod object.\<close>

record log_pod =
  gp_uid :: "jstring option"
  gp_namespace :: "jstring option"
  gp_name :: "jstring option"
  gp_spec :: pod_like

record logs_tab =
  gt_pod :: log_pod
  gt_container :: jstring
  gt_tail :: tail_lines
  gt_timestamps :: bool
  gt_previous :: bool
  gt_follow :: bool
  gt_wrap :: bool
  gt_view :: "log_stream \<times> search"
  gt_startedUrl :: "jstring option"
  gt_starts :: "jstring list"
  gt_downloading :: bool
  gt_downloadError :: "jstring option"

definition pod_url :: "logs_tab \<Rightarrow> log_options \<Rightarrow> jstring option" where
  "pod_url st opts =
     (case (gp_namespace (gt_pod st), gp_name (gt_pod st)) of
        (Some ns, Some name) \<Rightarrow> Some (logsUrl ns name opts)
      | _ \<Rightarrow> None)"

definition currentUrl :: "logs_tab \<Rightarrow> jstring option" where
  "currentUrl st =
     pod_url st \<lparr>lo_container = Some (gt_container st), lo_tail = (case gt_tail st of TailAll \<Rightarrow> None | Tail n \<Rightarrow> Some (int n)), lo_since = None,
                 lo_timestamps = gt_timestamps st, lo_previous = gt_previous st, lo_follow = gt_follow st\<rparr>"

definition resumeUrl :: "logs_tab \<Rightarrow> int option \<Rightarrow> jstring option" where
  "resumeUrl st sinceSeconds =
     (case sinceSeconds of
        None \<Rightarrow> currentUrl st
      | Some s \<Rightarrow>
          pod_url st \<lparr>lo_container = Some (gt_container st), lo_tail = None, lo_since = Some s, lo_timestamps = gt_timestamps st,
                      lo_previous = gt_previous st, lo_follow = True\<rparr>)"

definition downloadUrl :: "logs_tab \<Rightarrow> jstring option" where
  "downloadUrl st =
     pod_url st \<lparr>lo_container = Some (gt_container st), lo_tail = None, lo_since = None, lo_timestamps = gt_timestamps st,
                 lo_previous = gt_previous st, lo_follow = False\<rparr>"

definition download_name :: "logs_tab \<Rightarrow> jstring \<Rightarrow> jstring" where
  "download_name st name = name @ ''_'' @ gt_container st @ (if gt_previous st then ''-previous'' else []) @ ''.log''"

text \<open>\<open>gt_starts\<close> logs the URLs streams were started with, newest first. The resume closure reads the options when it is called; it is captured here
  when the stream starts, and \<open>tab_inv\<close> below shows that the two never differ.\<close>

definition restart :: "int \<Rightarrow> logs_tab \<Rightarrow> logs_tab" where
  "restart now st =
     (case currentUrl st of
        None \<Rightarrow> st
      | Some url \<Rightarrow>
          st\<lparr>gt_startedUrl := Some url, gt_starts := url # gt_starts st,
             gt_view := viewer_step (StreamEvent (Begin (Start url (if gt_follow st then Some (resumeUrl st) else None) now))) (gt_view st)\<rparr>)"

definition selectDefaultContainerAndRestart :: "int \<Rightarrow> logs_tab \<Rightarrow> logs_tab" where
  "selectDefaultContainerAndRestart now st = restart now (st\<lparr>gt_container := defaultContainerName (gp_spec (gt_pod st))\<rparr>)"

text \<open>The watcher of the options, which runs at the end of a change.\<close>

definition options_changed :: "logs_tab \<Rightarrow> logs_tab \<Rightarrow> bool" where
  "options_changed st st' \<longleftrightarrow>
     (gt_container st, gt_tail st, gt_timestamps st, gt_previous st, gt_follow st) \<noteq>
     (gt_container st', gt_tail st', gt_timestamps st', gt_previous st', gt_follow st')"

definition on_options :: "int \<Rightarrow> logs_tab \<Rightarrow> logs_tab \<Rightarrow> logs_tab" where
  "on_options now before st =
     (if options_changed before st then if currentUrl st = gt_startedUrl st then st else restart now st else st)"

definition mount_tab :: "int \<Rightarrow> log_pod \<Rightarrow> logs_tab" where
  "mount_tab now pod =
     (let st = \<lparr>gt_pod = pod, gt_container = [], gt_tail = Tail 500, gt_timestamps = False, gt_previous = False, gt_follow = True,
                gt_wrap = False, gt_view = (new_stream, new_search), gt_startedUrl = None, gt_starts = [], gt_downloading = False,
                gt_downloadError = None\<rparr>
      in on_options now st (selectDefaultContainerAndRestart now st))"

definition pod_changes :: "int \<Rightarrow> log_pod \<Rightarrow> logs_tab \<Rightarrow> logs_tab" where
  "pod_changes now pod st =
     (let st1 = st\<lparr>gt_pod := pod\<rparr> in if gp_uid pod = gp_uid (gt_pod st) then st1 else selectDefaultContainerAndRestart now st1)"

definition download_starts :: "logs_tab \<Rightarrow> logs_tab" where
  "download_starts st =
     (if gt_downloading st \<or> downloadUrl st = None then st else st\<lparr>gt_downloading := True, gt_downloadError := None\<rparr>)"

definition download_settles :: "unit + thrown \<Rightarrow> logs_tab \<Rightarrow> logs_tab" where
  "download_settles res st =
     (if \<not> gt_downloading st then st
      else case res of
             Inl _ \<Rightarrow> st\<lparr>gt_downloading := False\<rparr>
           | Inr e \<Rightarrow> st\<lparr>gt_downloading := False, gt_downloadError := Some (messageFromError e (Some ''Log download failed.''))\<rparr>)"

definition tab_errors :: "logs_tab \<Rightarrow> jstring list" where
  "tab_errors st =
     (case ls_error (fst (gt_view st)) of Some e \<Rightarrow> [e] | None \<Rightarrow> []) @ (case gt_downloadError st of Some e \<Rightarrow> [e] | None \<Rightarrow> [])"

definition matchSummary :: "search \<Rightarrow> jstring" where
  "matchSummary s =
     (if compiled s = None then []
      else let n = length (sr_matches s)
           in if n = 0 then ''No matches''
              else case sr_active s of
                     Some i \<Rightarrow> show_nat (Suc i) @ '' / '' @ show_nat n
                   | None \<Rightarrow> if n = 1 then ''1 match'' else show_nat n @ '' matches'')"

text \<open>A key in the search field: what it does, and whether the default is prevented.\<close>

definition onSearchKeydown :: "bool \<Rightarrow> key_event \<Rightarrow> viewer_event option" where
  "onSearchKeydown isComposing e =
     (if isComposing then None
      else if ke_key e = ''Enter'' then Some (if ke_shift e then PrevHit else NextHit)
      else if ke_key e = ''Escape'' then Some ClearSearch
      else None)"

text \<open>Whether the window's listener takes the focus to the field.\<close>

definition onWindowKeydown :: "bool \<Rightarrow> key_event \<Rightarrow> bool" where
  "onWindowKeydown defaultPrevented e \<longleftrightarrow> \<not> defaultPrevented \<and> isFindShortcut e"

datatype tab_event =
    GContainer jstring | GTail tail_lines | GTimestamps bool | GPrevious bool | GFollow bool | GWrap bool | GReload
  | GPod log_pod | GView viewer_event | GKey bool key_event | GDownload | GDownloaded "unit + thrown"

text \<open>Only the tab starts and stops its stream.\<close>

definition is_control :: "viewer_event \<Rightarrow> bool" where
  "is_control e \<longleftrightarrow> (case e of StreamEvent (Begin _) \<Rightarrow> True | _ \<Rightarrow> False)"

definition tab_op :: "int \<Rightarrow> tab_event \<Rightarrow> logs_tab \<Rightarrow> logs_tab" where
  "tab_op now e st =
     (case e of
        GContainer c \<Rightarrow> st\<lparr>gt_container := c\<rparr>
      | GTail n \<Rightarrow> st\<lparr>gt_tail := n\<rparr>
      | GTimestamps b \<Rightarrow> st\<lparr>gt_timestamps := b\<rparr>
      | GPrevious b \<Rightarrow> st\<lparr>gt_previous := b\<rparr>
      | GFollow b \<Rightarrow> st\<lparr>gt_follow := b\<rparr>
      | GWrap b \<Rightarrow> st\<lparr>gt_wrap := b\<rparr>
      | GReload \<Rightarrow> restart now st
      | GPod pod \<Rightarrow> pod_changes now pod st
      | GView v \<Rightarrow> (if is_control v then st else st\<lparr>gt_view := viewer_step v (gt_view st)\<rparr>)
      | GKey composing k \<Rightarrow>
          (case onSearchKeydown composing k of None \<Rightarrow> st | Some v \<Rightarrow> st\<lparr>gt_view := viewer_step v (gt_view st)\<rparr>)
      | GDownload \<Rightarrow> download_starts st
      | GDownloaded res \<Rightarrow> download_settles res st)"

definition tab_step :: "int \<times> tab_event \<Rightarrow> logs_tab \<Rightarrow> logs_tab" where
  "tab_step e st = on_options (fst e) st (tab_op (fst e) (snd e) st)"

section \<open>The stream is the one on screen\<close>

text \<open>A pod keeps its name and namespace: \<open>place\<close> gives them for a uid.\<close>

definition placed :: "(jstring option \<Rightarrow> jstring \<times> jstring) \<Rightarrow> log_pod \<Rightarrow> bool" where
  "placed place p \<longleftrightarrow> gp_namespace p = Some (fst (place (gp_uid p))) \<and> gp_name p = Some (snd (place (gp_uid p)))"

definition op_ok :: "(jstring option \<Rightarrow> jstring \<times> jstring) \<Rightarrow> tab_event \<Rightarrow> bool" where
  "op_ok place e \<longleftrightarrow> (case e of GPod p \<Rightarrow> placed place p | _ \<Rightarrow> True)"

definition asks_for :: "logs_tab \<Rightarrow> stream_loop option \<Rightarrow> bool" where
  "asks_for st l \<longleftrightarrow>
     (case l of
        None \<Rightarrow> True
      | Some lp \<Rightarrow>
          lp_resume lp = (if gt_follow st then Some (resumeUrl st) else None) \<and>
          (Some (lp_target lp) = currentUrl st \<or> (\<exists>since. Some (lp_target lp) = resumeUrl st since)))"

definition tab_inv :: "(jstring option \<Rightarrow> jstring \<times> jstring) \<Rightarrow> logs_tab \<Rightarrow> bool" where
  "tab_inv place st \<longleftrightarrow> placed place (gt_pod st) \<and> gt_startedUrl st = currentUrl st \<and> asks_for st (ls_loop (fst (gt_view st)))"

lemma loop_fields [simp]:
  "ls_loop (flush ls) = ls_loop ls" "ls_loop (append_lines now new ls) = ls_loop ls" "ls_loop (finish ls) = None"
  "ls_loop (timer_fires ls) = ls_loop ls"
  by (simp_all add: flush_def append_lines_def finish_def timer_fires_def Let_def split: prod.splits option.splits)

lemma settle_asks:
  assumes "asks_for st (ls_loop ls)"
  shows "asks_for st (ls_loop (settle g r ls))"
proof (cases "g = ls_gen ls")
  case True
  show ?thesis
  proof (cases "ls_loop ls")
    case (Some lp)
    then have lp: "lp_resume lp = (if gt_follow st then Some (resumeUrl st) else None)"
      "Some (lp_target lp) = currentUrl st \<or> (\<exists>since. Some (lp_target lp) = resumeUrl st since)"
      using assms by (simp_all add: asks_for_def)
    have failed: "asks_for st (ls_loop (attempt_failed e now lp ls))" for e now
      using lp by (auto simp: attempt_failed_def Let_def asks_for_def split: option.split if_splits intro: sym)
    have same: "asks_for st (Some (lp\<lparr>lp_phase := p, lp_delay := d, lp_started := t\<rparr>))" "asks_for st (Some (lp\<lparr>lp_phase := p\<rparr>))" for p d t
      using lp by (simp_all add: asks_for_def)
    have none: "asks_for st None" by (simp add: asks_for_def)
    show ?thesis using True Some failed same none assms
      by (cases r; cases "lp_phase lp") (auto simp: settle_def loop_settles_def Let_def asks_for_def)
  qed (simp add: settle_def asks_for_def)
qed (use assms in \<open>simp add: settle_def\<close>)

lemma viewer_asks:
  "asks_for st (ls_loop (fst v)) \<Longrightarrow> \<not> is_control e \<Longrightarrow> asks_for st (ls_loop (fst (viewer_step e v)))"
proof (cases v)
  case (Pair ls s)
  assume a: "asks_for st (ls_loop (fst v))" "\<not> is_control e"
  have "asks_for st (ls_loop (stream_step x ls))" if "e = StreamEvent x" for x
    using that a settle_asks Pair by (cases x) (auto simp: is_control_def)
  then show ?thesis using a Pair by (cases e) (simp_all add: Let_def)
qed

text \<open>Only these fields decide what is asked for.\<close>

lemma urls_by:
  assumes "gt_pod st = gt_pod st' \<or> (gp_namespace (gt_pod st) = gp_namespace (gt_pod st') \<and> gp_name (gt_pod st) = gp_name (gt_pod st'))"
    "\<not> options_changed st st'"
  shows "currentUrl st = currentUrl st'" "resumeUrl st = resumeUrl st'" "asks_for st l = asks_for st' l"
proof -
  have pod: "pod_url st = pod_url st'" using assms(1)
    by (cases "gp_namespace (gt_pod st')"; cases "gp_name (gt_pod st')") (auto simp: pod_url_def fun_eq_iff)
  then show c: "currentUrl st = currentUrl st'" using assms(2) by (simp add: currentUrl_def options_changed_def)
  then show r: "resumeUrl st = resumeUrl st'" using pod assms(2)
    by (auto simp: resumeUrl_def options_changed_def fun_eq_iff split: option.split)
  show "asks_for st l = asks_for st' l" using c r assms(2) by (simp add: asks_for_def options_changed_def split: option.split)
qed

lemma started_asks:
  assumes "currentUrl st = Some url"
  shows "tab_inv place (restart now st) = placed place (gt_pod st)" "gt_starts (restart now st) = url # gt_starts st"
proof -
  let ?r = "restart now st"
  have same: "currentUrl ?r = currentUrl st" "resumeUrl ?r = resumeUrl st" "gt_follow ?r = gt_follow st"
    using urls_by(1,2) [of ?r st] assms by (simp_all add: restart_def options_changed_def)
  obtain ls s where v: "gt_view st = (ls, s)" by fastforce
  have "ls_loop (fst (gt_view ?r)) =
      Some \<lparr>lp_target = url, lp_resume = (if gt_follow st then Some (resumeUrl st) else None), lp_delay = 0, lp_started = now, lp_phase = Connecting\<rparr>"
    using assms by (simp add: restart_def v control_def start_def Let_def)
  then show "tab_inv place ?r = placed place (gt_pod st)" using same assms by (simp add: tab_inv_def asks_for_def) (simp add: restart_def assms)
  show "gt_starts ?r = url # gt_starts st" using assms by (simp add: restart_def)
qed

lemma placed_url: "placed place (gt_pod st) \<Longrightarrow> \<exists>url. currentUrl st = Some url"
  by (simp add: placed_def currentUrl_def pod_url_def)

definition restarts :: "logs_tab \<Rightarrow> tab_event \<Rightarrow> logs_tab \<Rightarrow> bool" where
  "restarts st e st' \<longleftrightarrow>
     (case e of GReload \<Rightarrow> True | GPod p \<Rightarrow> gp_uid p \<noteq> gp_uid (gt_pod st) | _ \<Rightarrow> currentUrl st' \<noteq> currentUrl st)"

text \<open>The URL says every option, so equal URLs mean equal options.\<close>

lemma log_params_inj:
  assumes "log_params x = log_params y" "lo_container x = Some c" "lo_container y = Some d" "lo_since x = None" "lo_since y = None"
    "lo_tail x = map_option int m" "lo_tail y = map_option int n"
  shows "x = y"
proof -
  have k: "map_of (log_params o1) ''container'' = (if given (lo_container o1) then lo_container o1 else None)"
      "map_of (log_params o1) ''tailLines'' = map_option show_int (lo_tail o1)"
      "map_of (log_params o1) ''timestamps'' = (if lo_timestamps o1 then Some ''true'' else None)"
      "map_of (log_params o1) ''previous'' = (if lo_previous o1 then Some ''true'' else None)"
      "map_of (log_params o1) ''follow'' = (if lo_follow o1 then Some ''true'' else None)" for o1
    by (auto simp: log_params_def opt_param_def given_def split: option.split)
  have "lo_container x = lo_container y" using k(1) [of x] k(1) [of y] assms(1,2,3) by (auto simp: given_def split: if_splits)
  moreover have "lo_tail x = lo_tail y" using k(2) [of x] k(2) [of y] assms(1,6,7)
    by (cases m; cases n) (auto simp: show_int_def show_nat_inj)
  moreover have "lo_timestamps x = lo_timestamps y" using k(3) [of x] k(3) [of y] assms(1) by (auto split: if_splits)
  moreover have "lo_previous x = lo_previous y" using k(4) [of x] k(4) [of y] assms(1) by (auto split: if_splits)
  moreover have "lo_follow x = lo_follow y" using k(5) [of x] k(5) [of y] assms(1) by (auto split: if_splits)
  ultimately show ?thesis using assms(4,5) by simp
qed

lemma url_says_options:
  assumes "currentUrl st = currentUrl st'" "placed place (gt_pod st)" "gt_pod st' = gt_pod st"
  shows "\<not> options_changed st st'"
proof -
  let ?opts = "\<lambda>st. \<lparr>lo_container = Some (gt_container st), lo_tail = (case gt_tail st of TailAll \<Rightarrow> None | Tail n \<Rightarrow> Some (int n)), lo_since = None,
                 lo_timestamps = gt_timestamps st, lo_previous = gt_previous st, lo_follow = gt_follow st\<rparr>"
  have "log_params (?opts st) = log_params (?opts st')"
    using assms logs_url_query [of _ _ "?opts st"] logs_url_query [of _ _ "?opts st'"]
    by (simp add: currentUrl_def pod_url_def placed_def) metis
  then have "?opts st = ?opts st'"
    by (rule log_params_inj [where m = "case gt_tail st of TailAll \<Rightarrow> None | Tail n \<Rightarrow> Some n" and n = "case gt_tail st' of TailAll \<Rightarrow> None | Tail n \<Rightarrow> Some n"])
      (simp_all split: tail_lines.split)
  then show ?thesis by (cases "gt_tail st"; cases "gt_tail st'") (auto simp: options_changed_def)
qed

definition is_option_op :: "tab_event \<Rightarrow> bool" where
  "is_option_op e \<longleftrightarrow> (case e of GContainer _ \<Rightarrow> True | GTail _ \<Rightarrow> True | GTimestamps _ \<Rightarrow> True | GPrevious _ \<Rightarrow> True | GFollow _ \<Rightarrow> True | _ \<Rightarrow> False)"

lemma inv_by:
  "gt_pod st = gt_pod st' \<Longrightarrow> \<not> options_changed st st' \<Longrightarrow> gt_startedUrl st = gt_startedUrl st' \<Longrightarrow>
   asks_for st' (ls_loop (fst (gt_view st))) \<Longrightarrow> tab_inv place st' \<Longrightarrow> tab_inv place st"
  using urls_by(1,3) [of st st'] by (simp add: tab_inv_def)

lemma quiet_options: "\<not> options_changed st st' \<Longrightarrow> on_options now st st' = st'"
  by (simp add: on_options_def)

lemma options_sym: "\<not> options_changed st st' \<Longrightarrow> \<not> options_changed st' st"
  by (auto simp: options_changed_def)

lemma option_step:
  assumes inv: "tab_inv place st" and e: "is_option_op e"
  shows "tab_inv place (tab_step (now, e) st) \<and>
    gt_starts (tab_step (now, e) st) = (if restarts st e (tab_step (now, e) st) then [the (currentUrl (tab_step (now, e) st))] else []) @ gt_starts st"
proof -
  let ?s = "tab_op now e st"
  have f: "gt_pod ?s = gt_pod st" "gt_view ?s = gt_view st" "gt_startedUrl ?s = gt_startedUrl st" "gt_starts ?s = gt_starts st"
    using e by (cases e; simp add: tab_op_def is_option_op_def)+
  have p: "placed place (gt_pod st)" "gt_startedUrl st = currentUrl st" using inv by (simp_all add: tab_inv_def)
  have r: "restarts st e s' = (currentUrl s' \<noteq> currentUrl st)" for s' using e by (cases e) (simp_all add: restarts_def is_option_op_def)
  obtain url where url: "currentUrl ?s = Some url" using placed_url [of place ?s] p f by auto
  show ?thesis
  proof (cases "currentUrl ?s = currentUrl st")
    case True
    have n: "\<not> options_changed ?s st" by (rule url_says_options [OF True, of place]) (simp_all only: f p)
    have "tab_step (now, e) st = ?s" unfolding tab_step_def fst_conv snd_conv by (rule quiet_options [OF options_sym [OF n]])
    moreover have "tab_inv place ?s" using inv_by [of ?s st place] n f inv by (simp add: tab_inv_def)
    ultimately show ?thesis using True f r by simp
  next
    case False
    then have "options_changed st ?s" using urls_by(1) [of st ?s] f by auto
    then have t: "tab_step (now, e) st = restart now ?s" using False p f by (simp add: tab_step_def on_options_def)
    have "currentUrl (restart now ?s) = currentUrl ?s" using urls_by(1) [of "restart now ?s" ?s] url by (simp add: restart_def options_changed_def)
    then show ?thesis using t started_asks(1) [OF url, of place now] started_asks(2) [OF url, of now] p f False r url by simp
  qed
qed

lemma tab_step_inv:
  assumes inv: "tab_inv place st" and ok: "op_ok place e"
  shows "tab_inv place (tab_step (now, e) st) \<and>
    gt_starts (tab_step (now, e) st) = (if restarts st e (tab_step (now, e) st) then [the (currentUrl (tab_step (now, e) st))] else []) @ gt_starts st"
proof (cases "is_option_op e")
  case True
  then show ?thesis using option_step [OF inv] by blast
next
  case False
  have p: "placed place (gt_pod st)" "gt_startedUrl st = currentUrl st" "asks_for st (ls_loop (fst (gt_view st)))"
    using inv by (simp_all add: tab_inv_def)
  have view: "tab_inv place (st\<lparr>gt_view := v\<rparr>)" if "asks_for st (ls_loop (fst v))" for v
    by (rule inv_by [OF _ _ _ _ inv]) (simp_all add: options_changed_def that)
  have same: ?thesis if "tab_op now e st = s'" "\<not> options_changed st s'" "tab_inv place s'" "gt_starts s' = gt_starts st"
    "currentUrl s' = currentUrl st" "\<not> restarts st e s'" for s'
    using that quiet_options by (simp add: tab_step_def)
  have viewed: ?thesis if "tab_op now e st = st\<lparr>gt_view := v\<rparr>" "asks_for st (ls_loop (fst v))" "\<not> restarts st e (st\<lparr>gt_view := v\<rparr>)" for v
    by (rule same [OF that(1)]) (use that view urls_by(1) [of "st\<lparr>gt_view := v\<rparr>" st] in \<open>simp_all add: options_changed_def\<close>)
  have untouched: ?thesis
    if "tab_op now e st = s'" "gt_pod s' = gt_pod st" "\<not> options_changed st s'" "gt_view s' = gt_view st" "gt_startedUrl s' = gt_startedUrl st"
      "gt_starts s' = gt_starts st" "restarts st e s' = (currentUrl s' \<noteq> currentUrl st)" for s'
    using same [OF that(1,3)] inv_by [of s' st place] that(2-7) urls_by(1) [of s' st] options_sym [OF that(3)] p(3) inv by simp
  have u: "currentUrl (st\<lparr>gt_view := v\<rparr>) = currentUrl st" for v by (rule urls_by(1)) (simp_all add: options_changed_def)
  have key: "\<not> is_control v" if "onSearchKeydown c k = Some v" for c k v
    using that by (auto simp: onSearchKeydown_def is_control_def split: if_splits)
  show ?thesis
  proof (cases e)
    case GReload
    obtain url where url: "currentUrl st = Some url" using placed_url p by blast
    have n: "\<not> options_changed st (restart now st)" by (simp add: options_changed_def restart_def url)
    have c: "currentUrl (restart now st) = currentUrl st" by (rule urls_by(1)) (use url in \<open>simp_all add: options_changed_def restart_def\<close>)
    show ?thesis using started_asks(1) [OF url, of place now] started_asks(2) [OF url, of now] p url c quiet_options [OF n, of now] GReload
      by (simp add: tab_step_def tab_op_def restarts_def)
  next
    case (GPod pod)
    then have pod: "placed place pod" using ok by (simp add: op_ok_def)
    show ?thesis
    proof (cases "gp_uid pod = gp_uid (gt_pod st)")
      case True
      let ?s = "st\<lparr>gt_pod := pod\<rparr>"
      have pl: "gp_namespace (gt_pod ?s) = gp_namespace (gt_pod st) \<and> gp_name (gt_pod ?s) = gp_name (gt_pod st)"
        using pod p(1) True by (simp add: placed_def)
      have o: "\<not> options_changed ?s st" "\<not> options_changed st ?s" by (simp_all add: options_changed_def)
      have "tab_inv place ?s" using urls_by(1,3) [of ?s st] pl o p pod by (simp add: tab_inv_def)
      then show ?thesis using GPod True quiet_options [OF o(2), of now] by (simp add: tab_step_def tab_op_def pod_changes_def restarts_def)
    next
      case False
      let ?s = "st\<lparr>gt_pod := pod, gt_container := defaultContainerName (gp_spec pod)\<rparr>"
      obtain url where url: "currentUrl ?s = Some url" using placed_url [of place ?s] pod by auto
      have r: "currentUrl (restart now ?s) = Some url" "gt_startedUrl (restart now ?s) = Some url"
        using urls_by(1) [of "restart now ?s" ?s] url by (simp_all add: options_changed_def restart_def)
      have "tab_step (now, e) st = restart now ?s"
        using GPod False r by (simp add: tab_step_def tab_op_def pod_changes_def Let_def selectDefaultContainerAndRestart_def on_options_def)
      then show ?thesis using started_asks(1) [OF url, of place now] started_asks(2) [OF url, of now] pod GPod False r by (simp add: restarts_def)
    qed
  next
    case (GView v)
    then show ?thesis using viewed [of "if is_control v then gt_view st else viewer_step v (gt_view st)"] viewer_asks [OF p(3), of v] p(3) u
      by (simp add: tab_op_def restarts_def)
  next
    case (GKey c k)
    then show ?thesis
      using viewed [of "case onSearchKeydown c k of None \<Rightarrow> gt_view st | Some v \<Rightarrow> viewer_step v (gt_view st)"] viewer_asks [OF p(3)] p(3) u key
      by (cases "onSearchKeydown c k") (simp_all add: tab_op_def restarts_def)
  next
    case (GWrap b)
    then show ?thesis using untouched [of "st\<lparr>gt_wrap := b\<rparr>"] by (simp add: tab_op_def restarts_def options_changed_def)
  next
    case GDownload
    then show ?thesis using untouched [of "download_starts st"]
      by (simp add: tab_op_def restarts_def options_changed_def) (simp add: download_starts_def)
  next
    case (GDownloaded res)
    then show ?thesis using untouched [of "download_settles res st"]
      by (cases res) (simp_all add: tab_op_def restarts_def options_changed_def download_settles_def)
  qed (use False in \<open>simp_all add: is_option_op_def\<close>)
qed

definition run_tab_log :: "int \<Rightarrow> log_pod \<Rightarrow> (int \<times> tab_event) list \<Rightarrow> logs_tab" where
  "run_tab_log now pod es = fold tab_step es (mount_tab now pod)"

lemma mount_inv:
  assumes "placed place pod"
  shows "tab_inv place (mount_tab now pod) \<and> gt_starts (mount_tab now pod) = [the (currentUrl (mount_tab now pod))]"
proof -
  let ?s = "\<lparr>gt_pod = pod, gt_container = defaultContainerName (gp_spec pod), gt_tail = Tail 500, gt_timestamps = False, gt_previous = False,
      gt_follow = True, gt_wrap = False, gt_view = (new_stream, new_search), gt_startedUrl = None, gt_starts = [], gt_downloading = False,
      gt_downloadError = None\<rparr>"
  obtain url where url: "currentUrl ?s = Some url" using placed_url [of place ?s] assms by auto
  have r: "currentUrl (restart now ?s) = Some url" "gt_startedUrl (restart now ?s) = Some url"
    using urls_by(1) [of "restart now ?s" ?s] url by (simp_all add: options_changed_def restart_def)
  have "mount_tab now pod = restart now ?s"
    using r by (simp add: mount_tab_def Let_def selectDefaultContainerAndRestart_def on_options_def)
  then show ?thesis using started_asks(1) [OF url, of place now] started_asks(2) [OF url, of now] assms r by simp
qed

lemma run_tab_inv: "placed place pod \<Longrightarrow> list_all (\<lambda>(_, e). op_ok place e) es \<Longrightarrow> tab_inv place (run_tab_log now pod es)"
proof -
  assume pod: "placed place pod" and es: "list_all (\<lambda>(_, e). op_ok place e) es"
  have "tab_inv place st \<Longrightarrow> list_all (\<lambda>(_, e). op_ok place e) es \<Longrightarrow> tab_inv place (fold tab_step es st)" for st
  proof (induction es arbitrary: st)
    case (Cons x es)
    then show ?case using tab_step_inv [of place st "snd x" "fst x"] by (cases x) simp
  qed simp
  then show ?thesis using mount_inv [OF pod] es by (simp add: run_tab_log_def)
qed

text \<open>
  C7. The Logs tab only ever asks for what it shows: whatever options, pods, reloads, stream failures and searches come, the stream in progress, a reconnect included, requests the
  log of the pod, container and options on screen, and a change starts exactly one stream: an option that leaves the URL as it is, or the echo of a change already acted on, starts none.
  (Two objects with one uid are the same pod.)
\<close>

theorem stream_asks_for_what_is_shown:
  assumes "placed place pod" "list_all (\<lambda>(_, e). op_ok place e) es" "op_ok place e"
  shows "let st = run_tab_log now pod es; st' = tab_step (t, e) st
     in asks_for st (ls_loop (fst (gt_view st))) \<and> gt_startedUrl st = currentUrl st \<and> length (gt_starts (mount_tab now pod)) = 1 \<and>
        gt_starts st' = (if restarts st e st' then [the (currentUrl st')] else []) @ gt_starts st"
  using assms run_tab_inv [of place pod es now] tab_step_inv [of place "run_tab_log now pod es" e t] mount_inv [of place pod now]
  by (auto simp: Let_def tab_inv_def)

definition demo_pod :: log_pod where
  "demo_pod = \<lparr>gp_uid = Some ''u'', gp_namespace = Some ''ns'', gp_name = Some ''p'',
     gp_spec = \<lparr>pod_containers = Some [Some ''main''], pod_initContainers = None, pod_ephemeralContainers = None, pod_annotations = None\<rparr>\<rparr>"

theorem stream_asks_for_what_is_shown_witness:
  "let st = run_tab_log 0 demo_pod [(1, GTail (Tail 100)), (2, GWrap True)]; st' = tab_step (3, GPrevious True) st
     in asks_for st (ls_loop (fst (gt_view st))) \<and> gt_startedUrl st = currentUrl st \<and> length (gt_starts (mount_tab 0 demo_pod)) = 1 \<and>
        gt_starts st' = (if restarts st (GPrevious True) st' then [the (currentUrl st')] else []) @ gt_starts st"
  by (rule stream_asks_for_what_is_shown [where place = "\<lambda>_. (''ns'', ''p'')"]) (simp_all add: placed_def op_ok_def demo_pod_def)

section \<open>The rows\<close>

text \<open>\<^verbatim>\<open>components/pod/LogViewer.vue\<close>. \<open>items\<close> are the indices of the visible rows; the cache holds one entry per line text, newest first.\<close>

definition row_count :: "bool \<Rightarrow> jstring list \<Rightarrow> nat list \<Rightarrow> nat" where
  "row_count filtered lines matches = (if filtered then length matches else length lines)"

definition lineIndexOf :: "bool \<Rightarrow> nat list \<Rightarrow> nat \<Rightarrow> nat" where
  "lineIndexOf filtered matches row = (if filtered then if row < length matches then matches ! row else 0 else row)"

definition CACHE_LIMIT :: nat where "CACHE_LIMIT = 4000"

type_synonym token_cache = "(jstring \<times> log_token list option) list"

definition tokensOf :: "jstring \<Rightarrow> token_cache \<Rightarrow> log_token list option \<times> token_cache" where
  "tokensOf line cache =
     (case map_of cache line of
        Some cached \<Rightarrow> (cached, cache)
      | None \<Rightarrow>
          let tokens = tokenizeJsonLine line; kept = (if CACHE_LIMIT \<le> length cache then [] else cache)
          in (tokens, (line, tokens) # kept))"

definition activeLine :: "nat list \<Rightarrow> nat option \<Rightarrow> nat option" where
  "activeLine matches activeMatch = Option.bind activeMatch (\<lambda>i. if i < length matches then Some (matches ! i) else None)"

record view_row =
  vr_index :: nat
  vr_line :: nat
  vr_segments :: "line_segment list"

definition view_row_of ::
  "log_query option \<Rightarrow> bool \<Rightarrow> jstring list \<Rightarrow> nat list \<Rightarrow> nat \<Rightarrow> token_cache \<Rightarrow> view_row \<times> token_cache" where
  "view_row_of q filtered lines matches i cache =
     (let line = lineIndexOf filtered matches i;
          t = (if line < length lines then lines ! line else []);
          ranges = (case q of None \<Rightarrow> [] | Some qu \<Rightarrow> (case matchRanges qu t of Some rs \<Rightarrow> rs | None \<Rightarrow> []));
          (tokens, cache') = tokensOf t cache
      in (\<lparr>vr_index = i, vr_line = line, vr_segments = segmentLine t tokens ranges\<rparr>, cache'))"

fun view_rows ::
  "log_query option \<Rightarrow> bool \<Rightarrow> jstring list \<Rightarrow> nat list \<Rightarrow> nat list \<Rightarrow> token_cache \<Rightarrow> view_row list \<times> token_cache" where
  "view_rows q filtered lines matches [] cache = ([], cache)"
| "view_rows q filtered lines matches (i # items) cache =
     (let (row, cache1) = view_row_of q filtered lines matches i cache;
          (rows, cache2) = view_rows q filtered lines matches items cache1
      in (row # rows, cache2))"

text \<open>The row a scroll request names, if one is made.\<close>

definition followToEnd :: "bool \<Rightarrow> bool \<Rightarrow> jstring list \<Rightarrow> nat list \<Rightarrow> nat option \<Rightarrow> nat option" where
  "followToEnd follow filtered lines matches activeMatch =
     (if \<not> follow \<or> activeLine matches activeMatch \<noteq> None then None
      else let n = row_count filtered lines matches in if n > 0 then Some (n - 1) else None)"

definition jump_target :: "bool \<Rightarrow> jstring list \<Rightarrow> nat list \<Rightarrow> nat option \<Rightarrow> nat option" where
  "jump_target filtered lines matches activeMatch =
     (case activeMatch of
        None \<Rightarrow> None
      | Some i \<Rightarrow>
          (case (if filtered then Some i else if i < length matches then Some (matches ! i) else None) of
             None \<Rightarrow> None
           | Some row \<Rightarrow> if row_count filtered lines matches \<le> row then None else Some row))"

definition cache_ok :: "token_cache \<Rightarrow> bool" where
  "cache_ok cache \<longleftrightarrow> list_all (\<lambda>(line, tokens). tokens = tokenizeJsonLine line) cache \<and> length cache \<le> CACHE_LIMIT"

lemma tokens_cached: "cache_ok cache \<Longrightarrow> fst (tokensOf line cache) = tokenizeJsonLine line \<and> cache_ok (snd (tokensOf line cache))"
proof (cases "map_of cache line")
  case None
  assume "cache_ok cache"
  then show ?thesis using None by (auto simp: tokensOf_def cache_ok_def CACHE_LIMIT_def Let_def)
next
  case (Some t)
  assume "cache_ok cache"
  then show ?thesis using Some map_of_SomeD [OF Some] by (auto simp: tokensOf_def cache_ok_def list_all_iff)
qed

definition plain_row :: "log_query option \<Rightarrow> bool \<Rightarrow> jstring list \<Rightarrow> nat list \<Rightarrow> nat \<Rightarrow> view_row" where
  "plain_row q filtered lines matches i =
     (let line = lineIndexOf filtered matches i; t = (if line < length lines then lines ! line else [])
      in \<lparr>vr_index = i, vr_line = line,
          vr_segments = segmentLine t (tokenizeJsonLine t)
            (case q of None \<Rightarrow> [] | Some qu \<Rightarrow> (case matchRanges qu t of Some rs \<Rightarrow> rs | None \<Rightarrow> []))\<rparr>)"

lemma view_rows_plain:
  "cache_ok cache \<Longrightarrow> fst (view_rows q filtered lines matches items cache) = map (plain_row q filtered lines matches) items \<and>
   cache_ok (snd (view_rows q filtered lines matches items cache))"
proof (induction items arbitrary: cache)
  case (Cons i items)
  have "fst (view_row_of q filtered lines matches i cache) = plain_row q filtered lines matches i \<and> cache_ok (snd (view_row_of q filtered lines matches i cache))"
    using tokens_cached [OF Cons.prems] by (simp add: view_row_of_def plain_row_def Let_def case_prod_beta)
  then show ?case using Cons.IH by (simp add: Let_def case_prod_beta)
qed simp

definition tab_rows :: "logs_tab \<Rightarrow> nat list \<Rightarrow> token_cache \<Rightarrow> view_row list \<times> token_cache" where
  "tab_rows st items cache =
     (let (ls, s) = gt_view st in view_rows (compiled s) (filtering s) (ls_lines ls) (sr_matches s) items cache)"

lemma run_tab_sync: "in_sync (fst (gt_view (run_tab_log now pod es))) (snd (gt_view (run_tab_log now pod es)))"
proof -
  let ?ok = "\<lambda>st. in_sync (fst (gt_view st)) (snd (gt_view st))"
  have v: "?ok (st\<lparr>gt_view := viewer_step e (gt_view st)\<rparr>)" if "?ok st" for st e
    using in_sync_step [OF that, of e] by simp
  have r: "?ok (restart now st)" if "?ok st" for st now
    using v [OF that] that by (simp add: restart_def split: option.split)
  have o: "?ok (on_options now b st)" if "?ok st" for st b now using that r by (simp add: on_options_def)
  have d: "?ok (selectDefaultContainerAndRestart now st)" if "?ok st" for st now
    unfolding selectDefaultContainerAndRestart_def by (rule r) (simp add: that)
  have p: "?ok (pod_changes now pod st)" if "?ok st" for st now pod
    using that d [of "st\<lparr>gt_pod := pod\<rparr>"] by (simp add: pod_changes_def Let_def)
  have t: "?ok (tab_step e st)" if "?ok st" for st e
  proof -
    have "?ok (tab_op (fst e) (snd e) st)"
    proof (cases "snd e")
      case (GDownloaded res)
      then show ?thesis using that by (cases res) (simp_all add: tab_op_def download_settles_def)
    qed (use that v [OF that] r [OF that] p [OF that] in \<open>simp_all add: tab_op_def download_starts_def split: option.split\<close>)
    then show ?thesis by (simp add: tab_step_def o)
  qed
  have "?ok (fold tab_step es st)" if "?ok st" for st using that by (induction es arbitrary: st) (simp_all add: t)
  moreover have "in_sync new_stream new_search" using run_viewer_sync [of "[]"] by (simp add: run_viewer_def)
  then have "?ok (mount_tab now pod)" unfolding mount_tab_def Let_def by (intro o d) simp
  ultimately show ?thesis by (simp add: run_tab_log_def)
qed

text \<open>
  Every visible row shows its own line, tokenised and highlighted afresh: the token cache, which never exceeds its limit, changes nothing; a jump lands on the row of the selected
  hit, in the list and under the filter alike; and while a hit is selected Follow does not scroll away.
\<close>

theorem rows_show_their_lines:
  assumes "cache_ok cache"
  shows "let st = run_tab_log now pod es; (ls, s) = gt_view st in
   fst (tab_rows st items cache) = map (plain_row (compiled s) (filtering s) (ls_lines ls) (sr_matches s)) items \<and>
   cache_ok (snd (tab_rows st items cache)) \<and>
   (case sr_active s of
      None \<Rightarrow> True
    | Some i \<Rightarrow>
        (case jump_target (filtering s) (ls_lines ls) (sr_matches s) (Some i) of
           None \<Rightarrow> False
         | Some row \<Rightarrow> Some (lineIndexOf (filtering s) (sr_matches s) row) = activeLine (sr_matches s) (Some i) \<and>
                       lineIndexOf (filtering s) (sr_matches s) row < length (ls_lines ls)) \<and>
        followToEnd (gt_follow st) (filtering s) (ls_lines ls) (sr_matches s) (Some i) = None)"
proof -
  obtain ls s where v: "gt_view (run_tab_log now pod es) = (ls, s)" by fastforce
  have sync: "sr_matches s = current_hits ls s" "active_ok s" using run_tab_sync [of now pod es] by (simp_all add: v in_sync_def)
  have "m < length (ls_lines ls)" if "m \<in> set (sr_matches s)" for m
    using that sync(1) by (auto simp: current_hits_def scanLines_def split: option.splits)
  then have bound: "sr_matches s ! i < length (ls_lines ls)" if "i < length (sr_matches s)" for i using that nth_mem by blast
  then have out: "\<not> length (ls_lines ls) \<le> sr_matches s ! i" if "i < length (sr_matches s)" for i using that by (simp add: not_le)
  have act: "i < length (sr_matches s)" if "sr_active s = Some i" for i using sync(2) that by (simp add: active_ok_def)
  show ?thesis using view_rows_plain [OF assms] act out bound
    by (auto simp: v Let_def tab_rows_def jump_target_def lineIndexOf_def activeLine_def followToEnd_def row_count_def split: option.split)
qed

theorem rows_show_their_lines_witness:
  "let st = run_tab_log 0 demo_pod []; (ls, s) = gt_view st; rows = tab_rows st [0, 1] [(''12'', tokenizeJsonLine ''12'')] in
   fst rows = map (plain_row (compiled s) (filtering s) (ls_lines ls) (sr_matches s)) [0, 1] \<and> cache_ok (snd rows)"
  using rows_show_their_lines [of "[(''12'', tokenizeJsonLine ''12'')]" 0 demo_pod "[]" "[0, 1]"]
  by (simp add: cache_ok_def CACHE_LIMIT_def Let_def case_prod_beta)

end
