(* ===== verification/TerminalTab.thy ===== *)
theory TerminalTab
  imports LogsTab ExecSession "HOL-Library.Multiset"
begin

text \<open>
  The Terminal tab of a pod, \<^verbatim>\<open>components/pod/PodTerminalTab.vue\<close>, over the exec session, and the container picker
  \<^verbatim>\<open>components/pod/ContainerSelect.vue\<close>. What happens to the session (its token, its socket) are events of ExecSession; the terminal widget is
  the library's. The continuation of \<^verbatim>\<open>nextTick\<close> in \<^verbatim>\<open>start\<close> runs before any other event, so \<^verbatim>\<open>start\<close> is one operation.
\<close>

section \<open>The container picker\<close>

definition GROUP_LABELS :: "(container_kind \<times> jstring) list" where
  "GROUP_LABELS = [(Container, ''Containers''), (Ephemeral, ''Ephemeral containers''), (Init, ''Init containers'')]"

definition sole_container :: "pod_like \<Rightarrow> bool" where
  "sole_container pod \<longleftrightarrow> length (podContainers pod) = 1"


definition picker_hint :: "jstring option \<Rightarrow> pod_like \<Rightarrow> jstring option" where
  "picker_hint title pod =
     (case title of Some t \<Rightarrow> Some t | None \<Rightarrow> if sole_container pod then Some ''The only container in this pod'' else None)"

definition container_groups :: "pod_like \<Rightarrow> (container_kind \<times> jstring \<times> jstring list) list" where
  "container_groups pod =
     filter (\<lambda>(_, _, names). names \<noteq> [])
       (map (\<lambda>(kind, label). (kind, label, map pc_name (filter (\<lambda>c. pc_kind c = kind) (podContainers pod)))) GROUP_LABELS)"

section \<open>The tab\<close>

record term_tab =
  tt_pod :: log_pod
  tt_container :: jstring
  tt_command :: jstring
  tt_started :: bool
  tt_session :: exec_session

definition argv :: "term_tab \<Rightarrow> jstring list" where
  "argv st = parseCommandLine (tt_command st)"


text \<open>The dash of the message is a parameter: its code unit is beyond those modelled.\<close>

definition missingBinaryHint :: "jstring \<Rightarrow> term_tab \<Rightarrow> jstring option" where
  "missingBinaryHint dash st =
     (case ex_error (tt_session st) of
        None \<Rightarrow> None
      | Some message \<Rightarrow>
          if \<not> isMissingExecutableError message then None
          else if \<not> isAutoCommand (argv st) then 
            Some (''That command does not exist in this container'' @ dash @ ''try the Auto command, which picks whatever shell is present.'')
          else Some (debugContainerHint (case gp_namespace (tt_pod st) of Some n \<Rightarrow> n | None \<Rightarrow> [])
                       (case gp_name (tt_pod st) of Some n \<Rightarrow> n | None \<Rightarrow> []) (tt_container st)))"









section \<open>The session is that of the pod on screen\<close>


























text \<open>
  The picker offers every container once: its groups, in the fixed order, hold exactly the pod's containers of their kind, none is empty, and the default is offered.
\<close>

theorem picker_offers_every_container:
  "(let offered = concat (map (\<lambda>(_, _, names). names) (container_groups pod)) in
    mset offered = mset (map pc_name (podContainers pod)) \<and> (if podContainers pod = [] then True else defaultContainerName pod \<in> set offered)) \<and>
   list_all (\<lambda>(kind, _, names). names \<noteq> [] \<and> names = map pc_name (filter (\<lambda>c. pc_kind c = kind) (podContainers pod))) (container_groups pod)"
proof -
  have all: "concat (map (\<lambda>(_, _, names). names) (filter (\<lambda>(_, _, names). names \<noteq> []) gs)) = concat (map (\<lambda>(_, _, names). names) gs)"
    for gs :: "(container_kind \<times> jstring \<times> jstring list) list"
    by (induction gs) auto
  have m: "mset (map pc_name cs) = mset (concat (map (\<lambda>(kind, label). map pc_name (filter (\<lambda>c. pc_kind c = kind) cs)) GROUP_LABELS))" for cs
  proof (induction cs)
    case (Cons c cs)
    then show ?case by (cases "pc_kind c") (simp_all add: GROUP_LABELS_def ac_simps)
  qed (simp add: GROUP_LABELS_def)
  have offered: "mset (concat (map (\<lambda>(_, _, names). names) (container_groups pod))) = mset (map pc_name (podContainers pod))"
    unfolding container_groups_def all m [of "podContainers pod"] map_map comp_def case_prod_beta by (simp only: fst_conv snd_conv)
  have "defaultContainerName pod \<in> set (map pc_name (podContainers pod))" if "podContainers pod \<noteq> []"
  proof -
    have "find P cs = Some c \<Longrightarrow> c \<in> set cs" for P c and cs :: "pod_container list" by (auto simp: find_Some_iff)
    then show ?thesis using that
      by (cases "podContainers pod") (auto simp: defaultContainerName_def Let_def list_ex_iff split: option.split)
  qed
  then have "defaultContainerName pod \<in> set (concat (map (\<lambda>(_, _, names). names) (container_groups pod)))" if "podContainers pod \<noteq> []"
    using mset_eq_setD [OF offered] that by simp
  then show ?thesis using offered by (auto simp: Let_def container_groups_def list_all_iff)
qed

end
