(* ===== verification/Cards.thy ===== *)
theory Cards
  imports Chrome Catalog DetailPage DetailObject StatusColors
begin

text \<open>
  The cards that load something about the object or the cluster on screen: \<^verbatim>\<open>components/detail/EventsCard.vue\<close>,
  \<^verbatim>\<open>components/detail/NodePodsCard.vue\<close>, \<^verbatim>\<open>components/detail/RelatedResourcesCard.vue\<close>, \<^verbatim>\<open>components/detail/ResourceMiniTable.vue\<close>
  and \<^verbatim>\<open>components/events/RecentEventsCard.vue\<close>. Each is an instance of \<open>subject_card\<close>: a request settles by an operation that carries
  its ticket, a walk over pages runs at the moment it settles. The fields \<open>_requests\<close> (what is still out) and \<open>_from\<close> (what the content was
  loaded for) are records of the model; no operation but the removal of a settled request reads them.
\<close>

section \<open>Events of an object\<close>

definition EVENTS_REF :: resource_ref where
  "EVENTS_REF = \<lparr>rr_group = [], rr_version = ''v1'', rr_resource = ''events''\<rparr>"

definition events_url :: "k8s_object \<Rightarrow> jstring option" where
  "events_url obj =
     (let meta = (case ko_meta obj of Some m \<Rightarrow> m | None \<Rightarrow> empty_meta)
      in case event_selector (om_uid meta) (om_name meta) of
           None \<Rightarrow> None
         | Some sel \<Rightarrow> Some (resourcePath EVENTS_REF (om_namespace meta) None None @ ''?'' @
                               query_string [(''fieldSelector'', sel), (''limit'', ''200'')]))"

definition eventsFor :: "k8s_object \<Rightarrow> thrown + event_like list option \<Rightarrow> thrown + event_like list option" where
  "eventsFor obj response = (if events_url obj = None then Inr (Some []) else response)"

record events_card =
  ec_object :: k8s_object
  ec_loadId :: nat
  ec_rows :: "event_row list"
  ec_loading :: bool
  ec_error :: "jstring option"
  ec_requests :: "(nat \<times> k8s_object) list"
  ec_from :: "(k8s_object \<times> event_like list) option"

definition events_load :: "k8s_object \<Rightarrow> events_card \<Rightarrow> events_card" where
  "events_load obj st =
     st\<lparr>ec_object := obj, ec_loadId := Suc (ec_loadId st), ec_loading := True, ec_error := None, ec_rows := [],
        ec_requests := (Suc (ec_loadId st), obj) # ec_requests st, ec_from := None\<rparr>"

definition events_settle :: "(jstring \<Rightarrow> int option) \<Rightarrow> nat \<Rightarrow> thrown + event_like list option \<Rightarrow> events_card \<Rightarrow> events_card" where
  "events_settle parse i response st =
     (case map_of (ec_requests st) i of
        None \<Rightarrow> st
      | Some obj \<Rightarrow>
          let st0 = st\<lparr>ec_requests := filter (\<lambda>e. fst e \<noteq> i) (ec_requests st)\<rparr>
          in if i \<noteq> ec_loadId st then st0
             else case eventsFor obj response of
                    Inr items \<Rightarrow> st0\<lparr>ec_rows := sortByLastSeenDesc parse (map toEventRow (or_empty items)), ec_loading := False,
                                     ec_from := Some (obj, or_empty items)\<rparr>
                  | Inl e \<Rightarrow> st0\<lparr>ec_error := Some (messageFromError e None), ec_loading := False\<rparr>)"

definition new_events_card :: "k8s_object \<Rightarrow> events_card" where
  "new_events_card obj =
     \<lparr>ec_object = obj, ec_loadId = 0, ec_rows = [], ec_loading = False, ec_error = None, ec_requests = [], ec_from = None\<rparr>"

definition events_has_content :: "events_card \<Rightarrow> bool" where
  "events_has_content st \<longleftrightarrow> ec_rows st \<noteq> [] \<or> ec_error st \<noteq> None"

interpretation events_of: subject_card ec_loadId ec_object ec_requests ec_from ec_loading "\<lambda>obj _. obj" events_load "events_settle parse" for parse
  by unfold_locales (auto simp: events_load_def events_settle_def Let_def split: sum.split)

section \<open>Pods of a node\<close>

definition NODE_POD_COLUMNS :: "jstring list" where
  "NODE_POD_COLUMNS = [''Ready'', ''Status'', ''Restarts'', ''Age'', ''IP'']"

record node_card =
  nc_object :: k8s_object
  nc_loadId :: nat
  nc_columns :: "jstring list"
  nc_rows :: "mini_row list"
  nc_truncated :: bool
  nc_loading :: bool
  nc_error :: "jstring option"
  nc_requests :: "(nat \<times> k8s_object) list"
  nc_from :: "(k8s_object \<times> mini_row list) option"

definition node_name :: "k8s_object \<Rightarrow> jstring option" where
  "node_name obj = (case Option.bind (ko_meta obj) om_name of Some n \<Rightarrow> if n = [] then None else Some n | None \<Rightarrow> None)"

definition node_load :: "k8s_object \<Rightarrow> node_card \<Rightarrow> node_card" where
  "node_load obj st =
     (let i = Suc (nc_loadId st);
          st1 = st\<lparr>nc_object := obj, nc_loadId := i, nc_rows := [], nc_error := None, nc_truncated := False, nc_from := None\<rparr>
      in if node_name obj = None then st1\<lparr>nc_loading := False\<rparr>
         else st1\<lparr>nc_loading := True, nc_requests := (i, obj) # nc_requests st\<rparr>)"

text \<open>\<open>server\<close> answers a field selector and a continue token.\<close>

definition node_walk :: "(jstring \<Rightarrow> jstring \<Rightarrow> thrown + list_result) \<Rightarrow> k8s_object \<Rightarrow> thrown + (table_column list \<times> table_row list \<times> bool)" where
  "node_walk server obj = listAllAsTable (server (''spec.nodeName='' @ opt_text (node_name obj))) (Some 3)"

definition by_namespace_name :: "(jstring \<Rightarrow> jstring \<Rightarrow> int) \<Rightarrow> mini_row \<Rightarrow> mini_row \<Rightarrow> int" where
  "by_namespace_name coll =
     cmp_then (\<lambda>a b. coll (mr_namespace a) (mr_namespace b)) (\<lambda>a b. coll (mr_name a) (mr_name b))"

definition node_settle ::
  "(table_row \<Rightarrow> nat \<Rightarrow> jstring) \<Rightarrow> (jstring \<Rightarrow> jstring \<Rightarrow> int) \<Rightarrow> nat \<Rightarrow> (jstring \<Rightarrow> jstring \<Rightarrow> thrown + list_result) \<Rightarrow> node_card \<Rightarrow> node_card" where
  "node_settle stringified coll i server st =
     (case map_of (nc_requests st) i of
        None \<Rightarrow> st
      | Some obj \<Rightarrow>
          let st0 = st\<lparr>nc_requests := filter (\<lambda>e. fst e \<noteq> i) (nc_requests st)\<rparr>
          in if i \<noteq> nc_loadId st then st0
             else case node_walk server obj of
                    Inr (cols, rows, truncated) \<Rightarrow>
                      (let mini = tableToMini stringified (Some cols) (Some rows) \<lparr>mo_keepOnly = Some NODE_POD_COLUMNS, mo_rowFilter = None\<rparr>;
                           sorted = js_sort (by_namespace_name coll) (mt_rows mini)
                       in st0\<lparr>nc_columns := mt_columns mini, nc_rows := sorted, nc_truncated := truncated, nc_loading := False,
                              nc_from := Some (obj, sorted)\<rparr>)
                  | Inl e \<Rightarrow> st0\<lparr>nc_error := Some (messageFromError e None), nc_loading := False\<rparr>)"

definition new_node_card :: "k8s_object \<Rightarrow> node_card" where
  "new_node_card obj =
     \<lparr>nc_object = obj, nc_loadId = 0, nc_columns = [], nc_rows = [], nc_truncated = False, nc_loading = False, nc_error = None,
      nc_requests = [], nc_from = None\<rparr>"

definition node_has_content :: "node_card \<Rightarrow> bool" where
  "node_has_content st \<longleftrightarrow> nc_loading st \<or> nc_error st \<noteq> None \<or> nc_rows st \<noteq> []"

interpretation pods_of: subject_card nc_loadId nc_object nc_requests nc_from nc_loading "\<lambda>obj _. obj" node_load "node_settle stringified coll"
  for stringified coll
  by unfold_locales (auto simp: node_load_def node_settle_def Let_def split: sum.split)

section \<open>The compact table\<close>

definition mini_cell_class :: "jstring \<Rightarrow> jstring \<Rightarrow> jstring" where
  "mini_cell_class columnName v =
     (case (case statusColumnKind columnName of None \<Rightarrow> None | Some kind \<Rightarrow> cellTextClass kind v) of
        Some c \<Rightarrow> c | None \<Rightarrow> NEUTRAL_TEXT_CLASS)"

definition mini_row_route :: "resource_ref \<Rightarrow> mini_row \<Rightarrow> route_location" where
  "mini_row_route linkRef row = resourceDetailRoute linkRef (if mr_namespace row \<noteq> [] then Some (mr_namespace row) else None) (mr_name row)"

section \<open>Related resources\<close>

text \<open>What the card reads of an object: the owner's part and the raw \<^verbatim>\<open>spec\<close>.\<close>

record related_object =
  ro_owner :: owner_object
  ro_spec :: "json option"

definition JOBS_REF :: resource_ref where
  "JOBS_REF = \<lparr>rr_group = ''batch'', rr_version = ''v1'', rr_resource = ''jobs''\<rparr>"

definition SERVICES_REF :: resource_ref where
  "SERVICES_REF = \<lparr>rr_group = [], rr_version = ''v1'', rr_resource = ''services''\<rparr>"

datatype related_group =
    LinksGroup jstring "(jstring \<times> route_location) list" "route_location option"
  | TableGroup jstring "jstring option" resource_ref "jstring list" "mini_row list" "route_location option"

definition MAX_RELATED_ROWS :: nat where "MAX_RELATED_ROWS = 50"
definition MAX_LINKS :: nat where "MAX_LINKS = 15"

definition tableGroup :: "jstring \<Rightarrow> resource_ref \<Rightarrow> mini_table \<Rightarrow> bool \<Rightarrow> jstring option \<Rightarrow> related_group" where
  "tableGroup label linkRef mini truncated selector =
     TableGroup (if truncated then label @ '' (partial scan)'' else label @ '' ('' @ show_nat (length (mt_rows mini)) @ '')'')
       selector linkRef (mt_columns mini) (take MAX_RELATED_ROWS (mt_rows mini))
       (if MAX_RELATED_ROWS < length (mt_rows mini) \<or> truncated then Some (resourceListRoute linkRef None) else None)"

definition owned_meta :: "jstring \<Rightarrow> object_meta \<Rightarrow> bool" where
  "owned_meta uid m \<longleftrightarrow> list_ex (\<lambda>w. ow_uid w = Some uid) (or_empty (om_owners m))"

definition loadCronJobJobs :: "(table_row \<Rightarrow> nat \<Rightarrow> jstring) \<Rightarrow> list_server \<Rightarrow> related_object \<Rightarrow> thrown + related_group option" where
  "loadCronJobJobs stringified server obj =
     (case object_uid (ro_owner obj) of
        None \<Rightarrow> Inr None
      | Some uid \<Rightarrow>
          (case listAllAsTable (server JOBS_REF (owner_namespace (ro_owner obj)) None) (Some 6) of
             Inl e \<Rightarrow> Inl e
           | Inr (cols, rows, truncated) \<Rightarrow>
               (let mini = tableToMini stringified (Some cols) (Some rows) \<lparr>mo_keepOnly = None, mo_rowFilter = Some (owned_meta uid)\<rparr>
                in Inr (if mt_rows mini = [] then None else Some (tableGroup ''Jobs'' JOBS_REF mini truncated None)))))"

definition all_columns :: mini_options where
  "all_columns = \<lparr>mo_keepOnly = None, mo_rowFilter = None\<rparr>"

definition ownedGroups :: "(table_row \<Rightarrow> nat \<Rightarrow> jstring) \<Rightarrow> owned_state option \<Rightarrow> related_group list" where
  "ownedGroups stringified owned =
     (case Option.bind owned os_result of
        None \<Rightarrow> []
      | Some r \<Rightarrow>
          (case op_replicaSets r of
             None \<Rightarrow> []
           | Some (cols, rows, truncated) \<Rightarrow>
               (let mini = tableToMini stringified (Some cols) (Some rows) all_columns
                in if mt_rows mini = [] then [] else [tableGroup ''ReplicaSets'' REPLICASETS_REF mini truncated None])) @
          (let pods = tableToMini stringified (Some (op_columns r)) (Some (op_rows r)) all_columns
           in if mt_rows pods = [] then [] else [tableGroup ''Pods'' PODS_REF pods (op_truncated r) (op_selector r)]))"

text \<open>An ingress backend's service name, if it has one.\<close>

definition backend_name :: "json option \<Rightarrow> jstring list" where
  "backend_name backend =
     (case Option.bind (Option.bind (Option.bind backend (jget ''service'')) (jget ''name'')) json_str of
        Some n \<Rightarrow> if n \<noteq> [] then [n] else []
      | None \<Rightarrow> [])"

fun json_items :: "json option \<Rightarrow> json list" where
  "json_items (Some (JArr xs)) = xs"
| "json_items _ = []"

definition add_backend :: "jstring \<Rightarrow> jstring list \<Rightarrow> jstring list" where
  "add_backend n names = (if n \<in> set names then names else names @ [n])"

definition backend_names :: "json \<Rightarrow> jstring list" where
  "backend_names spec =
     (let paths = concat (map (\<lambda>rule. json_items (Option.bind (jget ''http'' rule) (jget ''paths''))) (json_items (jget ''rules'' spec)))
      in fold add_backend (backend_name (jget ''defaultBackend'' spec) @ concat (map (\<lambda>p. backend_name (jget ''backend'' p)) paths)) [])"

definition ingressServices :: "related_object \<Rightarrow> related_group option" where
  "ingressServices obj =
     (case ro_spec obj of
        None \<Rightarrow> None
      | Some spec \<Rightarrow>
          (let names = backend_names spec; namespace = owner_namespace (ro_owner obj)
           in if names = [] then None
              else Some (LinksGroup ''Backend Services''
                          (map (\<lambda>n. (n, resourceDetailRoute SERVICES_REF namespace n)) (take MAX_LINKS names))
                          (if MAX_LINKS < length names then Some (resourceListRoute SERVICES_REF None) else None))))"

definition is_cronjob :: "related_object \<Rightarrow> bool" where
  "is_cronjob obj \<longleftrightarrow> opt_text (oo_apiVersion (ro_owner obj)) @ ''/'' @ opt_text (oo_kind (ro_owner obj)) = ''batch/v1/CronJob''"

definition ingress_groups :: "related_object \<Rightarrow> related_group list" where
  "ingress_groups obj =
     (if oo_kind (ro_owner obj) = Some ''Ingress'' then (case ingressServices obj of Some g \<Rightarrow> [g] | None \<Rightarrow> []) else [])"

record related_card =
  rc_object :: related_object
  rc_loadId :: nat
  rc_groups :: "related_group list"
  rc_loading :: bool
  rc_error :: "jstring option"
  rc_requests :: "(nat \<times> related_object) list"
  rc_from :: "(related_object \<times> related_group list) option"

text \<open>Only a CronJob's load awaits anything: without an \<^verbatim>\<open>await\<close> the function runs to its end at once.\<close>

definition related_load :: "related_object \<Rightarrow> related_card \<Rightarrow> related_card" where
  "related_load obj st =
     (let i = Suc (rc_loadId st);
          st1 = st\<lparr>rc_object := obj, rc_loadId := i, rc_groups := [], rc_error := None, rc_from := None\<rparr>
      in if is_cronjob obj then st1\<lparr>rc_loading := True, rc_requests := (i, obj) # rc_requests st\<rparr>
         else st1\<lparr>rc_loading := False, rc_groups := ingress_groups obj, rc_from := Some (obj, ingress_groups obj)\<rparr>)"

definition related_settle :: "(table_row \<Rightarrow> nat \<Rightarrow> jstring) \<Rightarrow> nat \<Rightarrow> list_server \<Rightarrow> related_card \<Rightarrow> related_card" where
  "related_settle stringified i server st =
     (case map_of (rc_requests st) i of
        None \<Rightarrow> st
      | Some obj \<Rightarrow>
          let st0 = st\<lparr>rc_requests := filter (\<lambda>e. fst e \<noteq> i) (rc_requests st)\<rparr>
          in if i \<noteq> rc_loadId st then st0
             else case loadCronJobJobs stringified server obj of
                    Inr jobs \<Rightarrow>
                      (let collected = (case jobs of Some g \<Rightarrow> [g] | None \<Rightarrow> []) @ ingress_groups obj
                       in st0\<lparr>rc_groups := collected, rc_loading := False, rc_from := Some (obj, collected)\<rparr>)
                  | Inl e \<Rightarrow> st0\<lparr>rc_error := Some (messageFromError e None), rc_loading := False\<rparr>)"

definition new_related :: "related_object \<Rightarrow> related_card" where
  "new_related obj =
     \<lparr>rc_object = obj, rc_loadId = 0, rc_groups = [], rc_loading = False, rc_error = None, rc_requests = [], rc_from = None\<rparr>"

text \<open>What the section shows; nothing at all when it has no content.\<close>

datatype related_view = NoSection | LoadingNote | ErrorNote jstring | Groups "related_group list"

definition related_view_of :: "(table_row \<Rightarrow> nat \<Rightarrow> jstring) \<Rightarrow> owned_state option \<Rightarrow> related_card \<Rightarrow> related_view" where
  "related_view_of stringified owned st =
     (let loading = (rc_loading st \<or> (case owned of Some s \<Rightarrow> os_loading s | None \<Rightarrow> False));
          errorText = (case rc_error st of Some e \<Rightarrow> Some e | None \<Rightarrow> Option.bind owned os_error);
          groups = ownedGroups stringified owned @ rc_groups st
      in if loading then LoadingNote
         else case errorText of
                Some e \<Rightarrow> ErrorNote e
              | None \<Rightarrow> if groups = [] then NoSection else Groups groups)"

interpretation related_to: subject_card rc_loadId rc_object rc_requests rc_from rc_loading "\<lambda>obj _. obj" related_load "related_settle stringified"
  for stringified
  by unfold_locales (auto simp: related_load_def related_settle_def Let_def split: sum.split)

text \<open>The detail page hands every new object to its resolution of the owned pods and to the card.\<close>

datatype page_card_event = POpen related_object | POwned nat "thrown + owned_pods option" | PRelated nat list_server

definition page_card_step :: "(table_row \<Rightarrow> nat \<Rightarrow> jstring) \<Rightarrow> page_card_event \<Rightarrow> owned_model \<times> related_card \<Rightarrow> owned_model \<times> related_card" where
  "page_card_step stringified e st =
     (case e of
        POpen obj \<Rightarrow> (load_owned (Some (ro_owner obj)) (fst st), related_load obj (snd st))
      | POwned i r \<Rightarrow> (settle_owned i r (fst st), snd st)
      | PRelated i server \<Rightarrow> (fst st, related_settle stringified i server (snd st)))"

definition page_cards :: "(table_row \<Rightarrow> nat \<Rightarrow> jstring) \<Rightarrow> related_object \<Rightarrow> page_card_event list \<Rightarrow> owned_model \<times> related_card" where
  "page_cards stringified obj es =
     fold (page_card_step stringified) es (load_owned (Some (ro_owner obj)) new_owned, related_load obj (new_related obj))"

definition page_cards_ok :: "owned_model \<times> related_card \<Rightarrow> bool" where
  "page_cards_ok st \<longleftrightarrow>
     owned_inv (fst st) \<and> related_to.card_ok (snd st) \<and> pm_object (fst st) = Some (ro_owner (rc_object (snd st))) \<and>
     rc_groups (snd st) = (case rc_from (snd st) of None \<Rightarrow> [] | Some (_, gs) \<Rightarrow> gs)"

lemma related_load_groups:
  "rc_groups (related_load obj st) = (case rc_from (related_load obj st) of None \<Rightarrow> [] | Some (_, gs) \<Rightarrow> gs)"
  by (simp add: related_load_def Let_def)

lemma related_settle_groups:
  "rc_groups st = (case rc_from st of None \<Rightarrow> [] | Some (_, gs) \<Rightarrow> gs) \<Longrightarrow>
   rc_groups (related_settle stringified i server st) = (case rc_from (related_settle stringified i server st) of None \<Rightarrow> [] | Some (_, gs) \<Rightarrow> gs)"
  by (simp add: related_settle_def Let_def split: option.split sum.split)

lemma load_owned_object [simp]: "pm_object (load_owned obj st) = obj"
  by (simp add: load_owned_def Let_def split: option.split)

lemma settle_owned_object [simp]: "pm_object (settle_owned i r st) = pm_object st"
  by (simp add: settle_owned_def split: option.split sum.split)

lemma related_objects [simp]: "rc_object (related_load obj st) = obj" "rc_object (related_settle stringified i server st) = rc_object st"
  by (simp_all add: related_load_def related_settle_def Let_def split: option.split sum.split)

lemma page_cards_ok_open: "owned_inv pm \<Longrightarrow> related_to.card_ok rc \<Longrightarrow> page_cards_ok (load_owned (Some (ro_owner obj)) pm, related_load obj rc)"
  using related_load_groups [of obj rc] by (simp add: page_cards_ok_def owned_inv_load related_to.card_ok_change)

lemma page_cards_ok_step: "page_cards_ok st \<Longrightarrow> page_cards_ok (page_card_step stringified e st)"
proof (cases e)
  case (POpen obj)
  assume "page_cards_ok st"
  then show ?thesis using POpen page_cards_ok_open [of "fst st" "snd st" obj] by (simp add: page_cards_ok_def page_card_step_def)
next
  case (POwned i r)
  assume "page_cards_ok st"
  then show ?thesis using POwned by (simp add: page_cards_ok_def page_card_step_def owned_inv_settle)
next
  case (PRelated i server)
  assume "page_cards_ok st"
  then show ?thesis using PRelated related_settle_groups [of "snd st" stringified i server]
    by (simp add: page_cards_ok_def page_card_step_def related_to.card_ok_answer)
qed

lemma page_cards_run: "page_cards_ok (page_cards stringified obj es)"
proof -
  have "page_cards_ok (fold (page_card_step stringified) es st)" if "page_cards_ok st" for st
    using that by (induction es arbitrary: st) (simp_all add: page_cards_ok_step)
  moreover have "owned_inv new_owned" by (simp add: owned_inv_def new_owned_def IDLE_def)
  moreover have "related_to.card_ok (new_related obj)" by (simp add: related_to.card_ok_def new_related_def)
  ultimately show ?thesis by (simp add: page_cards_def page_cards_ok_open)
qed

text \<open>
  The related resources are those of the object on screen: however objects are opened, requests overlap, fail or answer late, the groups the card
  displays were loaded for the object shown (its own) and resolved for an object of its uid (the owned pods), and the loading note stands only while a request for it is out.
\<close>

theorem related_shows_current_object:
  "let (pm, rc) = page_cards stringified obj es; shown = rc_object rc in
   case related_view_of stringified (Some (pm_state pm)) rc of
     NoSection \<Rightarrow> rc_groups rc = []
   | LoadingNote \<Rightarrow> os_loading (pm_state pm) \<or> map_of (rc_requests rc) (rc_loadId rc) = Some shown
   | ErrorNote e \<Rightarrow> rc_error rc = Some e \<or> os_error (pm_state pm) = Some e
   | Groups gs \<Rightarrow>
       gs = ownedGroups stringified (Some (pm_state pm)) @ rc_groups rc \<and>
       (if rc_groups rc = [] then True else rc_from rc = Some (shown, rc_groups rc)) \<and>
       (if os_result (pm_state pm) = None then True
        else case pm_for pm of Some b \<Rightarrow> object_uid b = object_uid (ro_owner shown) | None \<Rightarrow> False)"
proof -
  obtain pm rc where r: "page_cards stringified obj es = (pm, rc)" by fastforce
  have ok: "owned_inv pm" "related_to.card_ok rc" "pm_object pm = Some (ro_owner (rc_object rc))"
      "rc_groups rc = (case rc_from rc of None \<Rightarrow> [] | Some (_, gs) \<Rightarrow> gs)"
    using page_cards_run [of stringified obj es] by (simp_all add: page_cards_ok_def r)
  have own: "rc_from rc = Some (rc_object rc, rc_groups rc)" if "rc_groups rc \<noteq> []"
    using that ok(2,4) by (auto simp: related_to.card_ok_def split: option.splits)
  have load: "map_of (rc_requests rc) (rc_loadId rc) = Some (rc_object rc)" if "rc_loading rc" using that ok(2) by (simp add: related_to.card_ok_def)
  have res: "pm_for pm \<noteq> None \<and> object_uid (the (pm_for pm)) = object_uid (ro_owner (rc_object rc))" if "os_result (pm_state pm) \<noteq> None"
    using that ok(1,3) by (auto simp: owned_inv_def)
  show ?thesis using own load res by (auto simp: r Let_def related_view_of_def split: option.split)
qed

lemma set_add_backends: "set (fold add_backend xs ns) = set ns \<union> set xs" "distinct ns \<Longrightarrow> distinct (fold add_backend xs ns)"
  by (induction xs arbitrary: ns) (auto simp: add_backend_def)

lemma service_route:
  "isDNS1123Label ns \<Longrightarrow> let p = props_of (resourceDetailRoute SERVICES_REF (Some ns) n)
   in apiRef p = SERVICES_REF \<and> pp_name p = n \<and> objectNamespace p = Some ns"
  using sentinel_is_no_namespace
  by (auto simp: props_of_def resourceDetailRoute_def apiRef_def objectNamespace_def routeGroup_def SERVICES_REF_def Let_def isDNS1123Label_def)

text \<open>
  The backends of an Ingress are listed exactly: the links are the distinct non-empty service names of its spec, in order of appearance, at most fifteen with a
  link to the rest when there are more, and each leads to the service of that name in the Ingress's own namespace.
\<close>

theorem ingress_links_are_exact:
  "case ingressServices obj of
     None \<Rightarrow> (case ro_spec obj of None \<Rightarrow> True | Some spec \<Rightarrow> backend_names spec = [])
   | Some (TableGroup _ _ _ _ _ _) \<Rightarrow> False
   | Some (LinksGroup label links rest) \<Rightarrow>
       (case ro_spec obj of
          None \<Rightarrow> False
        | Some spec \<Rightarrow>
            distinct (backend_names spec) \<and> map fst links = take 15 (backend_names spec) \<and> links \<noteq> [] \<and>
            (rest \<noteq> None \<longleftrightarrow> 15 < length (backend_names spec)) \<and>
            list_all (\<lambda>(n, route). let p = props_of route in
                        apiRef p = SERVICES_REF \<and> pp_name p = n \<and>
                        (case owner_namespace (ro_owner obj) of
                           Some ns \<Rightarrow> if isDNS1123Label ns then objectNamespace p = Some ns else True
                         | None \<Rightarrow> objectNamespace p = None)) links)"
proof (cases "ro_spec obj")
  case (Some spec)
  have d: "distinct (backend_names spec)" by (simp add: backend_names_def Let_def set_add_backends)
  have p: "apiRef (props_of (resourceDetailRoute SERVICES_REF ns n)) = SERVICES_REF" "pp_name (props_of (resourceDetailRoute SERVICES_REF ns n)) = n"
      "objectNamespace (props_of (resourceDetailRoute SERVICES_REF None n)) = None" for ns n
    by (simp_all add: props_of_def resourceDetailRoute_def apiRef_def objectNamespace_def routeGroup_def SERVICES_REF_def Let_def)
  show ?thesis using Some d service_route
    by (auto simp: ingressServices_def Let_def MAX_LINKS_def list_all_iff p comp_def split: option.split)
qed (simp add: ingressServices_def)

section \<open>Recent events of a cluster\<close>

definition EVENTS_LIMIT :: nat where "EVENTS_LIMIT = 20"
definition FETCH_LIMIT :: nat where "FETCH_LIMIT = 1000"

text \<open>An empty namespace is all of them. A request is recorded with the context and the namespace it was made in.\<close>

record recent_events =
  re_context :: jstring
  re_namespace :: jstring
  re_loadId :: nat
  re_all :: "event_row list"
  re_loading :: bool
  re_error :: "jstring option"
  re_requests :: "(nat \<times> jstring \<times> jstring) list"
  re_from :: "((jstring \<times> jstring) \<times> event_like list) option"

definition recent_url :: "recent_events \<Rightarrow> jstring" where
  "recent_url st = resourcePath EVENTS_REF (Some (re_namespace st)) None None @ ''?limit='' @ show_nat FETCH_LIMIT"

definition recent_load :: "recent_events \<Rightarrow> recent_events" where
  "recent_load st =
     st\<lparr>re_loadId := Suc (re_loadId st), re_loading := True, re_error := None,
        re_requests := (Suc (re_loadId st), re_context st, re_namespace st) # re_requests st\<rparr>"

datatype recent_op = ReRefresh | ReNamespace jstring | ReContext jstring bool

definition recent_change :: "recent_op \<Rightarrow> recent_events \<Rightarrow> recent_events" where
  "recent_change x st =
     (case x of
        ReRefresh \<Rightarrow> recent_load st
      | ReNamespace ns \<Rightarrow> recent_load (st\<lparr>re_namespace := ns\<rparr>)
      | ReContext ctx authenticated \<Rightarrow>
          (let st1 = st\<lparr>re_context := ctx, re_loadId := Suc (re_loadId st), re_all := [], re_error := None, re_from := None\<rparr>
           in if authenticated then recent_load st1 else st1\<lparr>re_loading := False\<rparr>))"

definition recent_settle :: "(jstring \<Rightarrow> int option) \<Rightarrow> nat \<Rightarrow> thrown + event_like list option \<Rightarrow> recent_events \<Rightarrow> recent_events" where
  "recent_settle parse i response st =
     (case map_of (re_requests st) i of
        None \<Rightarrow> st
      | Some origin \<Rightarrow>
          let st0 = st\<lparr>re_requests := filter (\<lambda>e. fst e \<noteq> i) (re_requests st)\<rparr>
          in if i \<noteq> re_loadId st then st0
             else case response of
                    Inr items \<Rightarrow> st0\<lparr>re_all := sortByLastSeenDesc parse (map toEventRow (or_empty items)), re_loading := False,
                                     re_from := Some (origin, or_empty items)\<rparr>
                  | Inl e \<Rightarrow> st0\<lparr>re_error := Some (messageFromError e None), re_loading := False\<rparr>)"

text \<open>The Refresh button is disabled while loading.\<close>

definition recent_step :: "(jstring \<Rightarrow> int option) \<Rightarrow> (recent_op, thrown + event_like list option) card_event \<Rightarrow> recent_events \<Rightarrow> recent_events" where
  "recent_step parse e st =
     (case e of
        Change x \<Rightarrow> if x = ReRefresh \<and> re_loading st then st else recent_change x st
      | Answer i r \<Rightarrow> recent_settle parse i r st)"

definition open_recent :: "jstring \<Rightarrow> jstring \<Rightarrow> recent_events" where
  "open_recent ctx ns =
     recent_load \<lparr>re_context = ctx, re_namespace = ns, re_loadId = 0, re_all = [], re_loading = False, re_error = None,
                  re_requests = [], re_from = None\<rparr>"

definition recent_rows :: "bool \<Rightarrow> recent_events \<Rightarrow> event_row list" where
  "recent_rows onlyWarnings st = take EVENTS_LIMIT (if onlyWarnings then filter (\<lambda>row. ev_type row = ''Warning'') (re_all st) else re_all st)"

definition involvedRoute :: "discovery_resource list \<Rightarrow> event_row \<Rightarrow> route_location option" where
  "involvedRoute resources row =
     (if ev_involvedKind row = [] \<or> ev_involvedName row = [] then None
      else case findByKind resources (ev_involvedApiVersion row) (ev_involvedKind row) of
             None \<Rightarrow> None
           | Some entry \<Rightarrow>
               Some (resourceDetailRoute \<lparr>rr_group = dr_group entry, rr_version = dr_version entry, rr_resource = dr_resource entry\<rparr>
                       (if dr_namespaced entry then Some (ev_namespace row) else None) (ev_involvedName row)))"

definition rowsWithRoute :: "discovery_resource list \<Rightarrow> bool \<Rightarrow> recent_events \<Rightarrow> (event_row \<times> route_location option) list" where
  "rowsWithRoute resources onlyWarnings st = map (\<lambda>row. (row, involvedRoute resources row)) (recent_rows onlyWarnings st)"

text \<open>The card is about its context, whatever the namespace; and about its context and namespace once nothing is out and nothing failed.\<close>

definition settled_from :: "recent_events \<Rightarrow> ((jstring \<times> jstring) \<times> event_like list) option" where
  "settled_from st = (if re_loading st \<or> re_error st \<noteq> None then None else re_from st)"

definition place_of :: "recent_op \<Rightarrow> recent_events \<Rightarrow> jstring \<times> jstring" where
  "place_of x st =
     (case x of ReRefresh \<Rightarrow> (re_context st, re_namespace st) | ReNamespace ns \<Rightarrow> (re_context st, ns) | ReContext ctx _ \<Rightarrow> (ctx, re_namespace st))"

interpretation recent_place: subject_card re_loadId "\<lambda>st. (re_context st, re_namespace st)" re_requests settled_from re_loading place_of recent_change
    "recent_settle parse" for parse
  by unfold_locales
    (auto simp: recent_change_def recent_load_def recent_settle_def place_of_def settled_from_def Let_def split: recent_op.splits sum.split if_splits)

definition clusters_of :: "(nat \<times> jstring \<times> jstring) list \<Rightarrow> (nat \<times> jstring) list" where
  "clusters_of rs = map (\<lambda>(i, origin). (i, fst origin)) rs"

lemma clusters_simps:
  "clusters_of (r # rs) = (fst r, fst (snd r)) # clusters_of rs" "map_of (clusters_of rs) i = map_option fst (map_of rs i)"
  "clusters_of (filter (\<lambda>e. fst e \<noteq> i) rs) = filter (\<lambda>e. fst e \<noteq> i) (clusters_of rs)"
  by (simp add: clusters_of_def case_prod_beta, induction rs) (auto simp: clusters_of_def filter_map comp_def case_prod_beta)

definition shown_cluster :: "recent_events \<Rightarrow> (jstring \<times> event_like list) option" where
  "shown_cluster st = map_option (\<lambda>(origin, items). (fst origin, items)) (re_from st)"

interpretation recent_cluster: subject_card re_loadId re_context "\<lambda>st. clusters_of (re_requests st)" shown_cluster re_loading
    "\<lambda>x st. fst (place_of x st)" recent_change "recent_settle parse" for parse
  by unfold_locales
    (auto simp: recent_change_def recent_load_def recent_settle_def place_of_def shown_cluster_def clusters_simps Let_def
      split: recent_op.splits sum.split if_splits option.split)

definition recent_ok :: "(jstring \<Rightarrow> int option) \<Rightarrow> recent_events \<Rightarrow> bool" where
  "recent_ok parse st \<longleftrightarrow>
     recent_place.card_ok st \<and> recent_cluster.card_ok st \<and>
     re_all st = (case re_from st of None \<Rightarrow> [] | Some (_, items) \<Rightarrow> sortByLastSeenDesc parse (map toEventRow items))"

lemma recent_ok_step: "recent_ok parse st \<Longrightarrow> recent_ok parse (recent_step parse e st)"
proof (cases e)
  case (Change x)
  assume ok: "recent_ok parse st"
  then have "re_all (recent_change x st) = (case re_from (recent_change x st) of None \<Rightarrow> [] | Some (_, items) \<Rightarrow> sortByLastSeenDesc parse (map toEventRow items))"
    by (cases x) (simp_all add: recent_ok_def recent_change_def recent_load_def Let_def)
  then show ?thesis using ok Change by (simp add: recent_ok_def recent_step_def recent_place.card_ok_change recent_cluster.card_ok_change)
next
  case (Answer i r)
  assume ok: "recent_ok parse st"
  then have "re_all (recent_settle parse i r st) =
      (case re_from (recent_settle parse i r st) of None \<Rightarrow> [] | Some (_, items) \<Rightarrow> sortByLastSeenDesc parse (map toEventRow items))"
    by (simp add: recent_ok_def recent_settle_def Let_def split: option.split sum.split)
  then show ?thesis using ok Answer by (simp add: recent_ok_def recent_step_def recent_place.card_ok_answer recent_cluster.card_ok_answer)
qed

lemma recent_ok_open: "recent_ok parse (open_recent ctx ns)"
  by (simp add: recent_ok_def open_recent_def recent_load_def recent_place.card_ok_def recent_cluster.card_ok_def settled_from_def shown_cluster_def clusters_simps)
    (simp add: clusters_of_def)

text \<open>
  C37. Recent events never cross clusters: whatever switches of context and namespace, refreshes and late answers come, the rows are the sorted events of one answer, given
  to a request made in the cluster now active; once nothing is out and nothing failed they are of the namespace now selected; and the card is loading exactly while its newest request is out.
\<close>

theorem recent_events_never_cross_clusters:
  "let st = fold (recent_step parse) es (open_recent ctx ns) in
   re_all st = (case re_from st of None \<Rightarrow> [] | Some (_, items) \<Rightarrow> sortByLastSeenDesc parse (map toEventRow items)) \<and>
   (case re_from st of
      None \<Rightarrow> True
    | Some ((c, n), _) \<Rightarrow> c = re_context st \<and> (if re_loading st then True else if re_error st = None then n = re_namespace st else True)) \<and>
   (re_loading st \<longleftrightarrow> map_of (re_requests st) (re_loadId st) \<noteq> None)"
proof -
  let ?st = "fold (recent_step parse) es (open_recent ctx ns)"
  have "recent_ok parse (fold (recent_step parse) es st)" if "recent_ok parse st" for st
    using that by (induction es arbitrary: st) (simp_all add: recent_ok_step)
  then have ok: "recent_ok parse ?st" using recent_ok_open by blast
  then have "map_of (re_requests ?st) (re_loadId ?st) = (if re_loading ?st then Some (re_context ?st, re_namespace ?st) else None)"
    by (simp add: recent_ok_def recent_place.card_ok_def)
  moreover have "fst (fst (the (re_from ?st))) = re_context ?st" if "re_from ?st \<noteq> None"
    using that ok by (auto simp: recent_ok_def recent_cluster.card_ok_def shown_cluster_def)
  moreover have "snd (fst (the (re_from ?st))) = re_namespace ?st" if "re_from ?st \<noteq> None" "\<not> re_loading ?st" "re_error ?st = None"
    using that ok by (auto simp: recent_ok_def recent_place.card_ok_def settled_from_def)
  ultimately show ?thesis using ok by (auto simp: recent_ok_def Let_def split: option.split)
qed

text \<open>
  The link of an event leads to the object it involves: the resource is one the cluster serves for that apiVersion and kind, the name is the
  event's, and the namespace is the event's own for a namespaced resource and none otherwise.
\<close>

lemma event_link_leads_to_involved:
  "case involvedRoute resources row of
     None \<Rightarrow> True
   | Some route \<Rightarrow>
       (case findByKind resources (ev_involvedApiVersion row) (ev_involvedKind row) of
          None \<Rightarrow> False
        | Some entry \<Rightarrow>
            entry \<in> set resources \<and> dr_kind entry = ev_involvedKind row \<and> pp_name (props_of route) = ev_involvedName row \<and>
            pp_resource (props_of route) = dr_resource entry \<and>
            (case objectNamespace (props_of route) of Some ns \<Rightarrow> dr_namespaced entry \<and> ns = ev_namespace row | None \<Rightarrow> True))"
  by (auto simp: involvedRoute_def findByKind_def find_Some_iff props_of_def resourceDetailRoute_def objectNamespace_def Let_def
      split: option.split prod.split)

text \<open>
  The events of an object are its own: the rows are the sorted events of one answer to a request made for the object now on screen, an object
  without uid and name asks for none, and the card is loading exactly while its newest request is out.
\<close>

definition run_events :: "(jstring \<Rightarrow> int option) \<Rightarrow> k8s_object \<Rightarrow> (k8s_object, thrown + event_like list option) card_event list \<Rightarrow> events_card" where
  "run_events parse obj es = fold (events_of.card_step parse) es (events_load obj (new_events_card obj))"

theorem event_card_is_about_object:
  "let st = run_events parse obj es in
   ec_rows st = (case ec_from st of None \<Rightarrow> [] | Some (b, items) \<Rightarrow> sortByLastSeenDesc parse (map toEventRow items)) \<and>
   (case ec_from st of None \<Rightarrow> True | Some (b, items) \<Rightarrow> b = ec_object st \<and> (if events_url b = None then items = [] else True)) \<and>
   (ec_loading st \<longleftrightarrow> map_of (ec_requests st) (ec_loadId st) \<noteq> None)"
proof -
  let ?rows = "\<lambda>st. ec_rows st = (case ec_from st of None \<Rightarrow> [] | Some (b, items) \<Rightarrow> sortByLastSeenDesc parse (map toEventRow items)) \<and>
    (case ec_from st of None \<Rightarrow> True | Some (b, items) \<Rightarrow> (if events_url b = None then items = [] else True))"
  have step: "?rows st \<Longrightarrow> ?rows (events_of.card_step parse e st)" for e st
    by (cases e) (auto simp: events_load_def events_settle_def eventsFor_def or_empty_def Let_def split: option.split sum.split if_splits)
  have ok: "events_of.card_ok (events_load obj (new_events_card obj))"
    by (rule events_of.card_ok_change) (simp add: events_of.card_ok_def new_events_card_def)
  have "?rows st \<Longrightarrow> ?rows (fold (events_of.card_step parse) es st)" for st
    using step by (induction es arbitrary: st) simp_all
  moreover have "?rows (events_load obj (new_events_card obj))" by (simp add: events_load_def)
  ultimately have "?rows (run_events parse obj es)" by (simp only: run_events_def)
  then show ?thesis using events_of.run_card_ok [OF ok, of parse es]
    by (auto simp: run_events_def events_of.card_ok_def Let_def split: option.split)
qed

text \<open>The pods of a node are its own, on the same terms; a node without a name asks for none and the note does not stay.\<close>

definition run_node :: "(table_row \<Rightarrow> nat \<Rightarrow> jstring) \<Rightarrow> (jstring \<Rightarrow> jstring \<Rightarrow> int) \<Rightarrow> k8s_object \<Rightarrow>
    (k8s_object, jstring \<Rightarrow> jstring \<Rightarrow> thrown + list_result) card_event list \<Rightarrow> node_card" where
  "run_node stringified coll obj es = fold (pods_of.card_step stringified coll) es (node_load obj (new_node_card obj))"

lemma node_card_is_about_node:
  "let st = run_node stringified coll obj es in
   nc_rows st = (case nc_from st of None \<Rightarrow> [] | Some (_, rows) \<Rightarrow> rows) \<and>
   (case nc_from st of None \<Rightarrow> True | Some (b, _) \<Rightarrow> b = nc_object st) \<and>
   (nc_loading st \<longleftrightarrow> map_of (nc_requests st) (nc_loadId st) \<noteq> None)"
proof -
  let ?rows = "\<lambda>st. nc_rows st = (case nc_from st of None \<Rightarrow> [] | Some (_, rows) \<Rightarrow> rows)"
  have step: "?rows st \<Longrightarrow> ?rows (pods_of.card_step stringified coll e st)" for e st
    by (cases e) (auto simp: node_load_def node_settle_def Let_def split: option.split sum.split)
  have ok: "pods_of.card_ok (node_load obj (new_node_card obj))"
    by (rule pods_of.card_ok_change) (simp add: pods_of.card_ok_def new_node_card_def)
  have "?rows st \<Longrightarrow> ?rows (fold (pods_of.card_step stringified coll) es st)" for st
    using step by (induction es arbitrary: st) simp_all
  moreover have "?rows (node_load obj (new_node_card obj))" by (simp add: node_load_def Let_def)
  ultimately have "?rows (run_node stringified coll obj es)" by (simp only: run_node_def)
  then show ?thesis using pods_of.run_card_ok [OF ok, of stringified coll es]
    by (auto simp: run_node_def pods_of.card_ok_def Let_def split: option.split)
qed

end
