(* ===== verification/Writes.thy ===== *)
theory Writes
  imports ResourceActions YamlView DetailObject Chrome Catalog
begin

text \<open>
  What the console changes in a cluster: the requests of \<^verbatim>\<open>web/src/api/k8s.ts\<close> and \<^verbatim>\<open>web/src/api/ui.ts\<close> as values, and the dialogs that
  send them, \<^verbatim>\<open>components/detail/ResourceActionDialog.vue\<close> under \<^verbatim>\<open>ResourceActions.vue\<close>, \<^verbatim>\<open>DeleteConfirmDialog.vue\<close> and
  \<^verbatim>\<open>CreateResourceDialog.vue\<close>. A sent request settles by an operation; a dialog can be dismissed at any time (Escape), its Cancel button is
  disabled while a request is out.
\<close>

section \<open>Requests\<close>

record api_request =
  aq_method :: jstring
  aq_path :: jstring
  aq_type :: "jstring option"
  aq_accept :: "jstring option"
  aq_body :: "json option"

definition TABLE_ACCEPT :: jstring where
  "TABLE_ACCEPT = ''application/json;as=Table;v=v1;g=meta.k8s.io,application/json''"

definition json_get :: "jstring \<Rightarrow> api_request" where
  "json_get path = \<lparr>aq_method = ''GET'', aq_path = path, aq_type = None, aq_accept = Some ''application/json'', aq_body = None\<rparr>"

definition getObject :: "resource_ref \<Rightarrow> jstring option \<Rightarrow> jstring \<Rightarrow> api_request" where
  "getObject ref ns name = json_get (resourcePath ref ns (Some name) None)"

definition fetchNodes :: api_request where
  "fetchNodes =
     json_get (resourcePath \<lparr>rr_group = [], rr_version = ''v1'', rr_resource = ''nodes''\<rparr> None None None @ ''?'' @
               query_string [(''resourceVersion'', ''0'')])"

definition podCount_request :: api_request where
  "podCount_request =
     (json_get (resourcePath \<lparr>rr_group = [], rr_version = ''v1'', rr_resource = ''pods''\<rparr> None None None @ ''?'' @
                query_string [(''limit'', ''500''), (''includeObject'', ''None'')]))\<lparr>aq_accept := Some TABLE_ACCEPT\<rparr>"

datatype patch_type = MergePatch | StrategicPatch

definition PATCH_CONTENT_TYPES :: "patch_type \<Rightarrow> jstring" where
  "PATCH_CONTENT_TYPES t =
     (case t of MergePatch \<Rightarrow> ''application/merge-patch+json'' | StrategicPatch \<Rightarrow> ''application/strategic-merge-patch+json'')"

definition patchObject :: "resource_ref \<Rightarrow> jstring option \<Rightarrow> jstring \<Rightarrow> json \<Rightarrow> patch_type option \<Rightarrow> jstring option \<Rightarrow> api_request" where
  "patchObject ref ns name patch t subresource =
     \<lparr>aq_method = ''PATCH'', aq_path = resourcePath ref ns (Some name) subresource,
      aq_type = Some (PATCH_CONTENT_TYPES (case t of Some p \<Rightarrow> p | None \<Rightarrow> MergePatch)), aq_accept = Some ''application/json'', aq_body = Some patch\<rparr>"

definition createObject :: "resource_ref \<Rightarrow> jstring option \<Rightarrow> json \<Rightarrow> api_request" where
  "createObject ref ns object =
     \<lparr>aq_method = ''POST'', aq_path = resourcePath ref ns None None, aq_type = Some ''application/json'',
      aq_accept = Some ''application/json'', aq_body = Some object\<rparr>"

definition deleteObject :: "resource_ref \<Rightarrow> jstring option \<Rightarrow> jstring \<Rightarrow> api_request" where
  "deleteObject ref ns name =
     \<lparr>aq_method = ''DELETE'', aq_path = resourcePath ref ns (Some name) None, aq_type = None, aq_accept = Some ''application/json'', aq_body = None\<rparr>"

definition podMetricsPath :: "jstring \<Rightarrow> jstring \<Rightarrow> jstring" where
  "podMetricsPath ns name = ''/api/ui/metrics/pods/'' @ encodeURIComponent ns @ ''/'' @ encodeURIComponent name"

definition namespaceMetricsPath :: "jstring \<Rightarrow> jstring" where
  "namespaceMetricsPath ns = ''/api/ui/metrics/pods'' @ (if ns = [] then [] else ''?namespace='' @ encodeURIComponent ns)"

definition nodeMetricsPath :: "jstring \<Rightarrow> jstring" where
  "nodeMetricsPath name = ''/api/ui/metrics/nodes/'' @ encodeURIComponent name"

definition verify_headers :: "jstring \<Rightarrow> jstring option \<Rightarrow> headers" where
  "verify_headers token ctx = (''Authorization'', ''Bearer '' @ token) # (if given ctx then [(''X-Kube-Context'', the ctx)] else [])"

section \<open>The action dialog\<close>

text \<open>\<^verbatim>\<open>v-model.number\<close>: a number, or the empty string of a cleared field.\<close>

datatype replica_input = Replicas rat | Blank

record action_dialog =
  ad_object :: action_object
  ad_ref :: resource_ref
  ad_action :: "resource_action option"
  ad_open :: bool
  ad_busy :: bool
  ad_error :: "jstring option"
  ad_replicas :: replica_input
  ad_jobName :: jstring
  ad_sent :: "api_request list"
  ad_inflight :: "action_id option"
  ad_toasts :: "jstring list"
  ad_done :: nat

definition object_name :: "action_object \<Rightarrow> jstring" where
  "object_name obj = (case Option.bind (ko_meta obj) om_name of Some n \<Rightarrow> n | None \<Rightarrow> [])"

definition object_namespace :: "action_object \<Rightarrow> jstring option" where
  "object_namespace obj = Option.bind (ko_meta obj) om_namespace"

definition is_integer :: "replica_input \<Rightarrow> bool" where
  "is_integer r \<longleftrightarrow> (case r of Replicas n \<Rightarrow> snd (quotient_of n) = 1 | Blank \<Rightarrow> False)"

definition replica_count :: "replica_input \<Rightarrow> rat" where
  "replica_count r = (case r of Replicas n \<Rightarrow> n | Blank \<Rightarrow> 0)"

text \<open>The watcher of \<open>open\<close>, when the dialog opens.\<close>

definition reset_dialog :: "int \<Rightarrow> action_dialog \<Rightarrow> action_dialog" where
  "reset_dialog now st =
     st\<lparr>ad_error := None, ad_replicas := Replicas (currentReplicas (ad_object st)),
        ad_jobName := defaultManualJobName (object_name (ad_object st)) now\<rparr>"

definition start_action :: "int \<Rightarrow> resource_action \<Rightarrow> action_dialog \<Rightarrow> action_dialog" where
  "start_action now action st =
     (let st1 = st\<lparr>ad_action := Some action, ad_open := True\<rparr> in if ad_open st then st1 else reset_dialog now st1)"

definition step_replicas :: "int \<Rightarrow> action_dialog \<Rightarrow> action_dialog" where
  "step_replicas delta st =
     (let base = (if is_integer (ad_replicas st) then replica_count (ad_replicas st) else 0)
      in st\<lparr>ad_replicas := Replicas (max 0 (base + of_int delta))\<rparr>)"

definition canRun :: "action_dialog \<Rightarrow> bool" where
  "canRun st \<longleftrightarrow>
     (case ad_action st of
        None \<Rightarrow> False
      | Some action \<Rightarrow>
          if ra_id action = Scale then is_integer (ad_replicas st) \<and> 0 \<le> replica_count (ad_replicas st)
          else if ra_id action = Trigger then ad_jobName st \<noteq> [] else True)"

definition ACTION_JOBS_REF :: resource_ref where
  "ACTION_JOBS_REF = \<lparr>rr_group = ''batch'', rr_version = ''v1'', rr_resource = ''jobs''\<rparr>"

text \<open>\<^verbatim>\<open>perform\<close>: the request it sends, and the message it composes once that has settled.\<close>

definition perform_request :: "(int \<Rightarrow> jstring) \<Rightarrow> int \<Rightarrow> action_id \<Rightarrow> action_dialog \<Rightarrow> api_request" where
  "perform_request isoText now i st =
     (let ns = object_namespace (ad_object st); name = object_name (ad_object st)
      in case i of
           Scale \<Rightarrow> patchObject (ad_ref st) ns name (replicasPatch (replica_count (ad_replicas st))) None (Some ''scale'')
         | Restart \<Rightarrow> patchObject (ad_ref st) ns name (restartPatch isoText now) (Some StrategicPatch) None
         | Trigger \<Rightarrow> createObject ACTION_JOBS_REF ns (manualJobFromCronJob (ad_object st) (ad_jobName st))
         | Suspend \<Rightarrow> patchObject (ad_ref st) ns name (suspendPatch True) None None
         | Resume \<Rightarrow> patchObject (ad_ref st) ns name (suspendPatch False) None None
         | Cordon \<Rightarrow> patchObject (ad_ref st) ns name (unschedulablePatch True) None None
         | Uncordon \<Rightarrow> patchObject (ad_ref st) ns name (unschedulablePatch False) None None)"

definition replica_text :: "(rat \<Rightarrow> jstring) \<Rightarrow> replica_input \<Rightarrow> jstring" where
  "replica_text numText r = (case r of Replicas n \<Rightarrow> numText n | Blank \<Rightarrow> [])"

definition perform_message :: "(rat \<Rightarrow> jstring) \<Rightarrow> action_id \<Rightarrow> action_dialog \<Rightarrow> jstring" where
  "perform_message numText i st =
     (let name = object_name (ad_object st)
      in case i of
           Scale \<Rightarrow> ''Scaled '' @ name @ '' to '' @ replica_text numText (ad_replicas st) @ ''.''
         | Restart \<Rightarrow> ''Restart of '' @ name @ '' triggered.''
         | Trigger \<Rightarrow> ''Created Job '' @ ad_jobName st @ ''.''
         | Suspend \<Rightarrow> ''Suspended '' @ name @ ''.''
         | Resume \<Rightarrow> ''Resumed '' @ name @ ''.''
         | Cordon \<Rightarrow> ''Cordoned '' @ name @ ''.''
         | Uncordon \<Rightarrow> ''Uncordoned '' @ name @ ''.'')"

definition run_action :: "(int \<Rightarrow> jstring) \<Rightarrow> int \<Rightarrow> action_dialog \<Rightarrow> action_dialog" where
  "run_action isoText now st =
     (case ad_action st of
        None \<Rightarrow> st
      | Some action \<Rightarrow>
          if \<not> canRun st then st
          else st\<lparr>ad_busy := True, ad_error := None, ad_sent := perform_request isoText now (ra_id action) st # ad_sent st,
                  ad_inflight := Some (ra_id action)\<rparr>)"

definition action_settles :: "(rat \<Rightarrow> jstring) \<Rightarrow> unit + thrown \<Rightarrow> action_dialog \<Rightarrow> action_dialog" where
  "action_settles numText r st =
     (case ad_inflight st of
        None \<Rightarrow> st
      | Some i \<Rightarrow>
          let st1 = (case r of
                       Inl _ \<Rightarrow> st\<lparr>ad_toasts := perform_message numText i st # ad_toasts st, ad_open := False, ad_done := Suc (ad_done st)\<rparr>
                     | Inr e \<Rightarrow> st\<lparr>ad_error := Some (messageFromError e None)\<rparr>)
          in st1\<lparr>ad_busy := False, ad_inflight := None\<rparr>)"

datatype action_event =
    AStart resource_action | ADismiss | ACancel | AReplicas replica_input | AStep int | AJobName jstring
  | AProps resource_ref action_object | ARun | ASettles "unit + thrown"

definition is_action :: "action_id \<Rightarrow> action_dialog \<Rightarrow> bool" where
  "is_action i st \<longleftrightarrow> ad_open st \<and> map_option ra_id (ad_action st) = Some i"

text \<open>The buttons of the header are those of the object; each field exists only in its own action's open dialog. \<open>AProps\<close> is the page passing other
  props: the resource follows the route, the object what was last loaded.\<close>

definition dialog_step :: "(int \<Rightarrow> jstring) \<Rightarrow> (rat \<Rightarrow> jstring) \<Rightarrow> int \<times> action_event \<Rightarrow> action_dialog \<Rightarrow> action_dialog" where
  "dialog_step isoText numText e st =
     (case snd e of
        AStart action \<Rightarrow> if action \<in> set (actionsFor (ad_object st)) then start_action (fst e) action st else st
      | ADismiss \<Rightarrow> st\<lparr>ad_open := False\<rparr>
      | ACancel \<Rightarrow> if ad_busy st then st else st\<lparr>ad_open := False\<rparr>
      | AReplicas r \<Rightarrow> if is_action Scale st then st\<lparr>ad_replicas := r\<rparr> else st
      | AStep delta \<Rightarrow>
          if is_action Scale st \<and> (if delta < 0 then 0 < replica_count (ad_replicas st) else True) then step_replicas delta st else st
      | AJobName s \<Rightarrow> if is_action Trigger st then st\<lparr>ad_jobName := s\<rparr> else st
      | AProps ref obj \<Rightarrow> st\<lparr>ad_ref := ref, ad_object := obj\<rparr>
      | ARun \<Rightarrow> if ad_open st \<and> canRun st \<and> \<not> ad_busy st then run_action isoText (fst e) st else st
      | ASettles r \<Rightarrow> action_settles numText r st)"

definition new_dialog :: "resource_ref \<Rightarrow> action_object \<Rightarrow> action_dialog" where
  "new_dialog ref obj =
     \<lparr>ad_object = obj, ad_ref = ref, ad_action = None, ad_open = False, ad_busy = False, ad_error = None, ad_replicas = Replicas 0,
      ad_jobName = [], ad_sent = [], ad_inflight = None, ad_toasts = [], ad_done = 0\<rparr>"

section \<open>What the dialog sends\<close>







definition run_dialog :: "(int \<Rightarrow> jstring) \<Rightarrow> (rat \<Rightarrow> jstring) \<Rightarrow> resource_ref \<Rightarrow> action_object \<Rightarrow> (int \<times> action_event) list \<Rightarrow> action_dialog" where
  "run_dialog isoText numText ref obj es = fold (dialog_step isoText numText) es (new_dialog ref obj)"











definition demo_node :: action_object where
  "demo_node = \<lparr>ko_meta = Some (empty_meta\<lparr>om_name := Some ''n''\<rparr>), ko_status = None, ac_apiVersion = Some ''v1'', ac_kind = Some ''Node'', ac_spec = None\<rparr>"

lemma cordon_runs:
  "let ref = \<lparr>rr_group = [], rr_version = ''v1'', rr_resource = ''nodes''\<rparr>;
       st = run_dialog (\<lambda>_. []) (\<lambda>_. []) ref demo_node
              [(0, AStart (action_of demo_node Cordon)), (1, ARun), (2, ARun), (2, AProps ref demo_node), (3, ASettles (Inl ()))]
   in map aq_body (ad_sent st) = [Some (unschedulablePatch True)] \<and> ad_toasts st = [''Cordoned n.'']"
proof -
  have "actionsFor demo_node = [action_of demo_node Cordon]"
    by (simp add: actionsFor_def demo_node_def kindKey_def ACTIONS_BY_KIND_def resolve_toggle_def spec_members_def)
  then show ?thesis
    by (simp add: Let_def run_dialog_def dialog_step_def new_dialog_def start_action_def reset_dialog_def canRun_def action_of_def
        run_action_def action_settles_def perform_request_def patchObject_def perform_message_def)
      (simp add: demo_node_def object_name_def)
qed

text \<open>The message is composed after the request has settled, from the fields as they are then: a count typed while the patch is out is the one reported.\<close>

lemma scaled_toast_reads_live_input:
  assumes "ad_open st" "ad_action st = Some a" "ra_id a = Scale" "ad_replicas st = Replicas 5" "\<not> ad_busy st"
  shows "let st' = fold (dialog_step isoText numText) [(t, ARun), (t, AReplicas (Replicas 7)), (t, ASettles (Inl ()))] st in
     aq_body (hd (ad_sent st')) = Some (replicasPatch 5) \<and>
     hd (ad_toasts st') = ''Scaled '' @ object_name (ad_object st) @ '' to '' @ numText 7 @ ''.''"
  using assms
  by (simp add: dialog_step_def run_action_def canRun_def is_integer_def replica_count_def is_action_def action_settles_def
      perform_request_def patchObject_def perform_message_def replica_text_def Let_def)

text \<open>While the next object loads, the page hands the previous one to the actions with the next one's resource.\<close>

lemma actions_mix_targets_while_loading:
  assumes "ad_object st = obj" "object_name obj = name" "object_namespace obj = ns" "ad_ref st = tg_ref t2" "tg_ref t1 \<noteq> tg_ref t2"
  shows "let page = refresh_object (Some t2) (object_settles 1 (Inr (k8s_object.truncate obj)) (refresh_object (Some t1) new_object)) in
     ro_object page = Some (k8s_object.truncate obj) \<and> ro_from page = Some t1 \<and> asked_for page = Some t2 \<and> ro_loading page \<and>
     aq_path (perform_request isoText now Restart st) = resourcePath (tg_ref t2) ns (Some name) None"
  using assms
  by (simp add: refresh_object_def object_settles_def new_object_def asked_for_def perform_request_def patchObject_def Let_def)

section \<open>The delete dialog\<close>

text \<open>\<open>dd_sent\<close> logs each request with the text confirmed at that moment, \<open>dd_leaves\<close> the lists the page goes to after a deletion.\<close>

record delete_dialog =
  dd_ref :: resource_ref
  dd_namespace :: "jstring option"
  dd_name :: jstring
  dd_open :: bool
  dd_confirmation :: jstring
  dd_busy :: bool
  dd_error :: "jstring option"
  dd_sent :: "(api_request \<times> jstring) list"
  dd_toasts :: "jstring list"
  dd_leaves :: "resource_ref list"

definition canDelete :: "delete_dialog \<Rightarrow> bool" where
  "canDelete st \<longleftrightarrow> dd_confirmation st = dd_name st"

definition open_delete :: "delete_dialog \<Rightarrow> delete_dialog" where
  "open_delete st = (if dd_open st then st else st\<lparr>dd_open := True, dd_confirmation := [], dd_error := None\<rparr>)"

definition run_delete :: "delete_dialog \<Rightarrow> delete_dialog" where
  "run_delete st =
     (if \<not> canDelete st then st
      else st\<lparr>dd_busy := True, dd_error := None,
              dd_sent := (deleteObject (dd_ref st) (dd_namespace st) (dd_name st), dd_confirmation st) # dd_sent st\<rparr>)"

definition delete_settles :: "unit + thrown \<Rightarrow> delete_dialog \<Rightarrow> delete_dialog" where
  "delete_settles r st =
     (if \<not> dd_busy st then st
      else (case r of
              Inl _ \<Rightarrow> st\<lparr>dd_toasts := (''Deleted '' @ dd_name st @ ''.'') # dd_toasts st, dd_open := False, dd_leaves := dd_ref st # dd_leaves st\<rparr>
            | Inr e \<Rightarrow> st\<lparr>dd_error := Some (messageFromError e None)\<rparr>)\<lparr>dd_busy := False\<rparr>)"

datatype delete_event =
    DOpen bool | DDismiss | DCancel | DType jstring | DRun | DSettles "unit + thrown" | DProps resource_ref "jstring option" jstring

text \<open>The Delete button of the page is enabled while an object is shown. \<^verbatim>\<open>v-model\<close> of the field exists while the dialog is open.\<close>

definition delete_step :: "delete_event \<Rightarrow> delete_dialog \<Rightarrow> delete_dialog" where
  "delete_step e st =
     (case e of
        DOpen hasObject \<Rightarrow> if hasObject then open_delete st else st
      | DDismiss \<Rightarrow> st\<lparr>dd_open := False\<rparr>
      | DCancel \<Rightarrow> if dd_busy st then st else st\<lparr>dd_open := False\<rparr>
      | DType s \<Rightarrow> if dd_open st then st\<lparr>dd_confirmation := s\<rparr> else st
      | DRun \<Rightarrow> if dd_open st \<and> canDelete st \<and> \<not> dd_busy st then run_delete st else st
      | DSettles r \<Rightarrow> delete_settles r st
      | DProps ref ns name \<Rightarrow> st\<lparr>dd_ref := ref, dd_namespace := ns, dd_name := name\<rparr>)"

definition new_delete :: "resource_ref \<Rightarrow> jstring option \<Rightarrow> jstring \<Rightarrow> delete_dialog" where
  "new_delete ref ns name =
     \<lparr>dd_ref = ref, dd_namespace = ns, dd_name = name, dd_open = False, dd_confirmation = [], dd_busy = False, dd_error = None,
      dd_sent = [], dd_toasts = [], dd_leaves = []\<rparr>"

definition delete_inv :: "jstring set \<Rightarrow> delete_dialog \<Rightarrow> bool" where
  "delete_inv typed st \<longleftrightarrow>
     (dd_confirmation st = [] \<or> dd_confirmation st \<in> typed) \<and>
     (\<forall>(q, c) \<in> set (dd_sent st). (c = [] \<or> c \<in> typed) \<and> (\<exists>ref ns. q = deleteObject ref ns c))"

lemma delete_inv_step: "delete_inv typed st \<Longrightarrow> delete_inv (typed \<union> (case e of DType s \<Rightarrow> {s} | _ \<Rightarrow> {})) (delete_step e st)"
  by (cases e) (auto simp: delete_inv_def delete_step_def open_delete_def run_delete_def canDelete_def delete_settles_def split: sum.split)

lemma delete_run_inv: "delete_inv {s. DType s \<in> set es} (fold delete_step es (new_delete ref ns name))"
proof (induction es rule: rev_induct)
  case (snoc e es)
  have "{s. DType s \<in> set (es @ [e])} = {s. DType s \<in> set es} \<union> (case e of DType s \<Rightarrow> {s} | _ \<Rightarrow> {})" by (cases e) auto
  then show ?case using delete_inv_step [OF snoc, of e] by simp
qed (simp add: delete_inv_def new_delete_def)

text \<open>
  C16. Nothing is deleted that was not named: whatever happens, a request is sent only by the Delete button of an open, idle dialog whose field holds the name shown, it
  deletes exactly the object of that resource, namespace and name, and that name was typed by the user.
\<close>

theorem deletion_needs_typed_name:
  "let st = fold delete_step es (new_delete ref ns name); st' = delete_step e st in
   (if dd_sent st' = dd_sent st then True
    else e = DRun \<and> dd_open st \<and> \<not> dd_busy st \<and> dd_confirmation st = dd_name st \<and>
         dd_sent st' = (deleteObject (dd_ref st) (dd_namespace st) (dd_name st), dd_name st) # dd_sent st) \<and>
   list_all (\<lambda>(q, c). aq_method q = ''DELETE'' \<and> (if c = [] then True else DType c \<in> set es)) (dd_sent st)"
proof -
  let ?st = "fold delete_step es (new_delete ref ns name)"
  have "list_all (\<lambda>(q, c). aq_method q = ''DELETE'' \<and> (if c = [] then True else DType c \<in> set es)) (dd_sent ?st)"
    using delete_run_inv [of es ref ns name] by (auto simp: delete_inv_def list_all_iff deleteObject_def)
  moreover have "if dd_sent (delete_step e st) = dd_sent st then True
    else e = DRun \<and> dd_open st \<and> \<not> dd_busy st \<and> dd_confirmation st = dd_name st \<and>
         dd_sent (delete_step e st) = (deleteObject (dd_ref st) (dd_namespace st) (dd_name st), dd_name st) # dd_sent st" for st
    by (cases e) (auto simp: delete_step_def open_delete_def run_delete_def canDelete_def delete_settles_def split: sum.split)
  ultimately show ?thesis by (simp add: Let_def)
qed

text \<open>The name in the message and the list gone to are read after the request has settled: when the page has moved on, they are those of the other object.\<close>

lemma delete_reports_other_object:
  assumes "dd_open st" "dd_confirmation st = dd_name st" "\<not> dd_busy st"
  shows "let st' = fold delete_step [DRun, DProps ref' ns' other, DSettles (Inl ())] st in
     fst (hd (dd_sent st')) = deleteObject (dd_ref st) (dd_namespace st) (dd_name st) \<and>
     hd (dd_toasts st') = ''Deleted '' @ other @ ''.'' \<and> hd (dd_leaves st') = ref'"
  using assms by (simp add: delete_step_def run_delete_def canDelete_def delete_settles_def Let_def)

section \<open>The create dialog\<close>

text \<open>Texts are values of the \<^verbatim>\<open>yaml\<close> library; \<open>render\<close> makes one of the template's characters. \<open>errorText\<close> is \<^verbatim>\<open>String\<close> of an error of the parser.\<close>

record 'y create_request =
  cq_ref :: resource_ref
  cq_namespace :: "yval option"
  cq_name :: yval
  cq_body :: 'y
  cq_dryRun :: bool

record 'y create_dialog =
  cd_resource :: discovery_resource
  cd_namespace :: jstring
  cd_open :: bool
  cd_text :: 'y
  cd_busy :: bool
  cd_error :: "code_points option"
  cd_sent :: "'y create_request list"
  cd_inflight :: "'y create_request option"
  cd_created :: nat

definition create_namespace :: "jstring \<Rightarrow> jstring" where
  "create_namespace ns = (if ns \<noteq> [] then ns else ''default'')"

definition create_template :: "discovery_resource \<Rightarrow> jstring \<Rightarrow> jstring" where
  "create_template resource ns =
     (let apiVersion = (if dr_group resource = [] then dr_version resource else dr_group resource @ ''/'' @ dr_version resource);
          lines = [''apiVersion: '' @ apiVersion, ''kind: '' @ dr_kind resource, ''metadata:'', ''  name: ''] @
                  (if dr_namespaced resource then [''  namespace: '' @ create_namespace ns] else [])
      in join [CHR 0x0A] lines @ [CHR 0x0A])"

definition open_create :: "(jstring \<Rightarrow> 'y) \<Rightarrow> 'y create_dialog \<Rightarrow> 'y create_dialog" where
  "open_create render st =
     (if cd_open st then st else st\<lparr>cd_open := True, cd_text := render (create_template (cd_resource st) (cd_namespace st)), cd_error := None\<rparr>)"

definition create_request_of :: "bool \<Rightarrow> parsed_manifest \<Rightarrow> 'y create_dialog \<Rightarrow> 'y create_request" where
  "create_request_of dryRun manifest st =
     \<lparr>cq_ref = \<lparr>rr_group = dr_group (cd_resource st), rr_version = dr_version (cd_resource st), rr_resource = dr_resource (cd_resource st)\<rparr>,
      cq_namespace =
        (if dr_namespaced (cd_resource st)
         then Some (case pmf_namespace manifest of
                      Some v \<Rightarrow> if v = YNull then YStr (ascii (create_namespace (cd_namespace st))) else v
                    | None \<Rightarrow> YStr (ascii (create_namespace (cd_namespace st))))
         else None),
      cq_name = pmf_name manifest, cq_body = cd_text st, cq_dryRun = dryRun\<rparr>"

definition run_create ::
  "(bool \<Rightarrow> 'y \<Rightarrow> jstring + yval) \<Rightarrow> (yaml_error \<Rightarrow> code_points) \<Rightarrow> bool \<Rightarrow> 'y create_dialog \<Rightarrow> 'y create_dialog" where
  "run_create parse errorText dryRun st =
     (case parseManifest parse (cd_text st) of
        Inl e \<Rightarrow> st\<lparr>cd_error := Some (errorText e), cd_busy := False\<rparr>
      | Inr manifest \<Rightarrow>
          (let q = create_request_of dryRun manifest st
           in st\<lparr>cd_error := None, cd_busy := True, cd_sent := q # cd_sent st, cd_inflight := Some q\<rparr>))"

definition create_settles :: "unit + thrown \<Rightarrow> 'y create_dialog \<Rightarrow> 'y create_dialog" where
  "create_settles r st =
     (case cd_inflight st of
        None \<Rightarrow> st
      | Some q \<Rightarrow>
          let st1 = (case r of
                       Inl _ \<Rightarrow> if cq_dryRun q then st else st\<lparr>cd_open := False, cd_created := Suc (cd_created st)\<rparr>
                     | Inr e \<Rightarrow> st\<lparr>cd_error := Some (ascii (messageFromError e None))\<rparr>)
          in st1\<lparr>cd_busy := False, cd_inflight := None\<rparr>)"

datatype 'y create_event = COpen | CDismiss | CCancel | CType 'y | CRun bool | CSettles "unit + thrown"

definition create_step ::
  "(jstring \<Rightarrow> 'y) \<Rightarrow> (bool \<Rightarrow> 'y \<Rightarrow> jstring + yval) \<Rightarrow> (yaml_error \<Rightarrow> code_points) \<Rightarrow> 'y create_event \<Rightarrow> 'y create_dialog \<Rightarrow> 'y create_dialog" where
  "create_step render parse errorText e st =
     (case e of
        COpen \<Rightarrow> open_create render st
      | CDismiss \<Rightarrow> st\<lparr>cd_open := False\<rparr>
      | CCancel \<Rightarrow> if cd_busy st then st else st\<lparr>cd_open := False\<rparr>
      | CType t \<Rightarrow> if cd_open st then st\<lparr>cd_text := t\<rparr> else st
      | CRun dryRun \<Rightarrow> if cd_open st \<and> \<not> cd_busy st then run_create parse errorText dryRun st else st
      | CSettles r \<Rightarrow> create_settles r st)"

text \<open>
  What is created is what is on screen, where the dialog says: a request carries the text as it stands, the name its manifest gives, this
  resource, and the manifest's namespace, else the selected one; a cluster-scoped resource gets none, and a text without a name sends nothing.
\<close>

lemma create_sends_the_text:
  "let st' = create_step render parse errorText e st in
   cd_sent st' = cd_sent st \<or>
   (case (e, parseManifest parse (cd_text st)) of
      (CRun d, Inr m) \<Rightarrow>
        cd_open st \<and> \<not> cd_busy st \<and>
        (case cd_sent st' of
           q # rest \<Rightarrow> rest = cd_sent st \<and> cq_body q = cd_text st \<and> cq_name q = pmf_name m \<and> cq_dryRun q = d \<and>
             rr_resource (cq_ref q) = dr_resource (cd_resource st) \<and> (cq_namespace q = None \<longleftrightarrow> \<not> dr_namespaced (cd_resource st))
         | [] \<Rightarrow> False)
    | _ \<Rightarrow> False)"
  by (cases e) (auto simp: create_step_def open_create_def run_create_def create_settles_def create_request_of_def Let_def split: sum.split option.split)

section \<open>Paths of the metrics\<close>

text \<open>A router splitting a metrics path at its slashes reads back the namespace and the name that were asked for.\<close>

lemma metrics_paths_roundtrip:
  "map decode_component (split_on (CHR ''/'') (podMetricsPath ns name)) = [[], ''api'', ''ui'', ''metrics'', ''pods'', ns, name]"
  "map decode_component (split_on (CHR ''/'') (nodeMetricsPath name)) = [[], ''api'', ''ui'', ''metrics'', ''nodes'', name]"
proof -
  have d: "decode_component ''api'' = ''api''" "decode_component ''ui'' = ''ui''" "decode_component ''metrics'' = ''metrics''"
    "decode_component ''pods'' = ''pods''" "decode_component ''nodes'' = ''nodes''" "decode_component [] = []"
    by (rule decode_plain, simp add: is_alnum_def is_digit_def is_lower_alpha_def)+
  show "map decode_component (split_on (CHR ''/'') (podMetricsPath ns name)) = [[], ''api'', ''ui'', ''metrics'', ''pods'', ns, name]"
    by (simp add: podMetricsPath_def split_encoded d)
  show "map decode_component (split_on (CHR ''/'') (nodeMetricsPath name)) = [[], ''api'', ''ui'', ''metrics'', ''nodes'', name]"
    by (simp add: nodeMetricsPath_def split_encoded d)
qed

end
