(* ===== verification/Pickers.thy ===== *)
theory Pickers
  imports Chrome Catalog Auth Interfaces
begin

text \<open>
  The hand-built pickers and what they choose: the context picker (\<^verbatim>\<open>components/ui/ContextListbox.vue\<close>) and its owner
  (\<^verbatim>\<open>components/layout/ClusterSelector.vue\<close>), the editable combobox (\<^verbatim>\<open>components/ui/EditableCombobox.vue\<close>), the popover
  (\<^verbatim>\<open>components/ui/PopoverMenu.vue\<close>) and the namespace selector (\<^verbatim>\<open>components/layout/NamespaceSelector.vue\<close>). Focus and caret are the browser's;
  a pointer going down outside (\<^verbatim>\<open>composables/useDismissOnOutside.ts\<close>) is an event. The list indices of the code are never negative; the
  highlighted one is \<open>-1\<close> when there is nothing to highlight.
\<close>

section \<open>What a keyboard picker promises\<close>

text \<open>\<open>arrow True\<close> is the down key.\<close>

locale keyboard_picker =
  fixes is_open :: "'s \<Rightarrow> bool"
    and position :: "'s \<Rightarrow> int"
    and choices :: "'s \<Rightarrow> nat"
    and arrow :: "bool \<Rightarrow> 's \<Rightarrow> 's"
  assumes position_bound: "position s < int (choices s) \<and> (0 < choices s \<longrightarrow> 0 \<le> position s)"
    and arrow_frame: "is_open s \<Longrightarrow> is_open (arrow down s) \<and> choices (arrow down s) = choices s"
    and arrow_moves: "is_open s \<Longrightarrow> 0 < choices s \<Longrightarrow>
      position (arrow down s) = min (max (position s + (if down then 1 else - 1)) 0) (int (choices s) - 1)"
begin

lemma arrows_stay: "is_open s \<Longrightarrow> is_open ((arrow down ^^ n) s) \<and> choices ((arrow down ^^ n) s) = choices s"
  by (induction n) (auto simp: arrow_frame)

lemma arrows_down: "is_open s \<Longrightarrow> 0 < choices s \<Longrightarrow> position s + int n < int (choices s) \<Longrightarrow> position ((arrow True ^^ n) s) = position s + int n"
proof (induction n)
  case (Suc n)
  then have "position ((arrow True ^^ n) s) = position s + int n" by simp
  then show ?case
    using Suc.prems arrows_stay [OF Suc.prems(1), of n True] position_bound [of s] arrow_moves [of "(arrow True ^^ n) s" True] by auto
qed simp

lemma arrows_up: "is_open s \<Longrightarrow> 0 < choices s \<Longrightarrow> int n \<le> position s \<Longrightarrow> position ((arrow False ^^ n) s) = position s - int n"
proof (induction n)
  case (Suc n)
  then have "position ((arrow False ^^ n) s) = position s - int n" by simp
  then show ?case
    using Suc.prems arrows_stay [OF Suc.prems(1), of n False] position_bound [of s] arrow_moves [of "(arrow False ^^ n) s" False] by auto
qed simp

definition steps_to :: "nat \<Rightarrow> 's \<Rightarrow> bool \<times> nat" where
  "steps_to k s = (position s \<le> int k, nat \<bar>int k - position s\<bar>)"

text \<open>Every option is within reach of the arrows.\<close>

lemma arrows_reach: "is_open s \<Longrightarrow> k < choices s \<Longrightarrow> position ((arrow (fst (steps_to k s)) ^^ snd (steps_to k s)) s) = int k"
  using arrows_down [of s "nat (int k - position s)"] arrows_up [of s "nat (position s - int k)"] position_bound [of s]
  by (cases "position s \<le> int k") (auto simp: steps_to_def abs_if)

end

section \<open>The context picker\<close>

record listbox =
  lb_items :: "context_item list"
  lb_selected :: jstring
  lb_open :: bool
  lb_active :: nat
  lb_emitted :: "jstring list"

definition lb_label :: "listbox \<Rightarrow> jstring" where
  "lb_label st = (if lb_selected st \<noteq> [] then lb_selected st else ''Select cluster'')"

definition lb_highlighted :: "listbox \<Rightarrow> int" where
  "lb_highlighted st = min (int (lb_active st)) (int (length (lb_items st)) - 1)"

definition lb_openMenu :: "listbox \<Rightarrow> listbox" where
  "lb_openMenu st =
     st\<lparr>lb_active := (case find_index (\<lambda>c. ci_name c = lb_selected st) (lb_items st) of Some i \<Rightarrow> i | None \<Rightarrow> 0), lb_open := True\<rparr>"

definition lb_close :: "listbox \<Rightarrow> listbox" where
  "lb_close st = st\<lparr>lb_open := False\<rparr>"

definition lb_toggle :: "listbox \<Rightarrow> listbox" where
  "lb_toggle st = (if lb_open st then lb_close st else lb_openMenu st)"

definition lb_move :: "int \<Rightarrow> listbox \<Rightarrow> listbox" where
  "lb_move delta st =
     (if lb_items st = [] then st
      else st\<lparr>lb_active := nat (min (max (lb_highlighted st + delta) 0) (int (length (lb_items st)) - 1))\<rparr>)"

definition lb_select :: "jstring \<Rightarrow> listbox \<Rightarrow> listbox" where
  "lb_select name st = (let st1 = lb_close st in if name = [] then st1 else st1\<lparr>lb_emitted := name # lb_emitted st1\<rparr>)"

definition item_at :: "int \<Rightarrow> listbox \<Rightarrow> jstring" where
  "item_at i st = (if 0 \<le> i \<and> i < int (length (lb_items st)) then ci_name (lb_items st ! nat i) else [])"

text \<open>Whether the key is consumed, and the state.\<close>

definition lb_keydown :: "jstring \<Rightarrow> listbox \<Rightarrow> bool \<times> listbox" where
  "lb_keydown key st =
     (if key = ''Escape'' then (if lb_open st then (True, lb_close st) else (False, st))
      else if key = ''ArrowDown'' then (True, if lb_open st then lb_move 1 st else lb_openMenu st)
      else if key = ''ArrowUp'' then (True, if lb_open st then lb_move (- 1) st else lb_openMenu st)
      else if key = ''Enter'' \<or> key = '' '' then (True, if lb_open st then lb_select (item_at (lb_highlighted st) st) st else lb_openMenu st)
      else if key = ''Tab'' then (False, lb_close st)
      else (False, st))"

datatype listbox_event =
    LbKey jstring | LbTrigger | LbHover nat | LbClick nat | LbOutside | LbProps "context_item list" jstring

definition lb_step :: "listbox_event \<Rightarrow> listbox \<Rightarrow> listbox" where
  "lb_step e st =
     (case e of
        LbKey key \<Rightarrow> snd (lb_keydown key st)
      | LbTrigger \<Rightarrow> lb_toggle st
      | LbHover i \<Rightarrow> if lb_open st \<and> i < length (lb_items st) then st\<lparr>lb_active := i\<rparr> else st
      | LbClick i \<Rightarrow> if lb_open st \<and> i < length (lb_items st) then lb_select (ci_name (lb_items st ! i)) st else st
      | LbOutside \<Rightarrow> lb_close st
      | LbProps items selected \<Rightarrow> st\<lparr>lb_items := items, lb_selected := selected\<rparr>)"

lemma lb_highlighted_bound: "lb_highlighted st < int (length (lb_items st)) \<and> (0 < length (lb_items st) \<longrightarrow> 0 \<le> lb_highlighted st)"
  by (cases "lb_items st") (auto simp: lb_highlighted_def)

interpretation listbox_keys: keyboard_picker lb_open lb_highlighted "\<lambda>st. length (lb_items st)"
    "\<lambda>down. lb_step (LbKey (if down then ''ArrowDown'' else ''ArrowUp''))"
proof unfold_locales
  show "lb_highlighted s < int (length (lb_items s)) \<and> (0 < length (lb_items s) \<longrightarrow> 0 \<le> lb_highlighted s)" for s
    by (rule lb_highlighted_bound)
qed (auto simp: lb_step_def lb_keydown_def lb_move_def lb_highlighted_def)

lemma lb_arrows_items: "lb_open st \<Longrightarrow> let st' = ((\<lambda>st. lb_step (LbKey (if down then ''ArrowDown'' else ''ArrowUp'')) st) ^^ n) st in
    lb_items st' = lb_items st \<and> lb_emitted st' = lb_emitted st \<and> lb_open st'"
  by (induction n) (auto simp: Let_def lb_step_def lb_keydown_def lb_move_def)

text \<open>
  The keyboard picks any cluster: from an open picker, some number of presses of one arrow key followed by Enter selects the k-th context and closes the list,
  for every k; and opening it highlights the context in use, so Enter alone keeps it.
\<close>

theorem keyboard_picks_any_context:
  assumes "k < length (lb_items st)" "list_all (\<lambda>c. ci_name c \<noteq> []) (lb_items st)"
  shows "let st1 = lb_openMenu st; (down, n) = listbox_keys.steps_to k st1;
             st2 = fold lb_step (replicate n (LbKey (if down then ''ArrowDown'' else ''ArrowUp'')) @ [LbKey ''Enter'']) st1
     in lb_emitted st2 = ci_name (lb_items st ! k) # lb_emitted st \<and> \<not> lb_open st2 \<and>
        (if ci_name (lb_items st ! k) = lb_selected st then item_at (lb_highlighted st1) st1 = lb_selected st else True)"
proof -
  let ?st1 = "lb_openMenu st"
  let ?key = "\<lambda>down. LbKey (if down then ''ArrowDown'' else ''ArrowUp'')"
  obtain down n where s: "listbox_keys.steps_to k ?st1 = (down, n)" by fastforce
  let ?st2 = "(lb_step (?key down) ^^ n) ?st1"
  have o: "lb_open ?st1" "lb_items ?st1 = lb_items st" "lb_emitted ?st1 = lb_emitted st" by (simp_all add: lb_openMenu_def)
  have pos: "lb_highlighted ?st2 = int k" using listbox_keys.arrows_reach [of ?st1 k] o assms(1) by (simp add: s)
  have f: "lb_items ?st2 = lb_items st" "lb_emitted ?st2 = lb_emitted st" "lb_open ?st2"
    using lb_arrows_items [of ?st1 n down] o by (simp_all add: Let_def)
  have "ci_name (lb_items st ! k) \<noteq> []" using assms by (simp add: list_all_length)
  then have last: "lb_step (LbKey ''Enter'') ?st2 = (lb_close ?st2)\<lparr>lb_emitted := ci_name (lb_items st ! k) # lb_emitted st\<rparr>"
    using f pos assms(1) by (simp add: lb_step_def lb_keydown_def lb_select_def item_at_def lb_close_def Let_def)
  have "item_at (lb_highlighted ?st1) ?st1 = lb_selected st" if "ci_name (lb_items st ! k) = lb_selected st"
  proof -
    have "find_index (\<lambda>c. ci_name c = lb_selected st) (lb_items st) \<noteq> None"
      using that assms(1) by (auto simp: find_index_None list_all_iff)
    then obtain i where i: "find_index (\<lambda>c. ci_name c = lb_selected st) (lb_items st) = Some i" by blast
    then show ?thesis using find_index_Some [OF i] by (simp add: lb_openMenu_def item_at_def lb_highlighted_def min_def)
  qed
  then show ?thesis using last by (simp add: s fold_replicate lb_close_def)
qed

theorem keyboard_picks_any_context_witness:
  "let st = \<lparr>lb_items = [\<lparr>ci_name = ''a'', ci_signedIn = True\<rparr>, \<lparr>ci_name = ''b'', ci_signedIn = False\<rparr>], lb_selected = ''a'', lb_open = False,
             lb_active = 0, lb_emitted = []\<rparr>;
       st2 = fold lb_step [LbKey ''ArrowDown'', LbKey ''Enter''] (lb_openMenu st)
   in lb_emitted st2 = [''b''] \<and> \<not> lb_open st2"
  using keyboard_picks_any_context [of 1 "\<lparr>lb_items = [\<lparr>ci_name = ''a'', ci_signedIn = True\<rparr>, \<lparr>ci_name = ''b'', ci_signedIn = False\<rparr>],
      lb_selected = ''a'', lb_open = False, lb_active = 0, lb_emitted = []\<rparr>"]
  by (simp add: Let_def listbox_keys.steps_to_def lb_openMenu_def lb_highlighted_def)

section \<open>The editable combobox\<close>

record combobox_option =
  cx_value :: jstring
  cx_label :: jstring
  cx_hint :: "jstring option"

record combobox =
  cx_options :: "combobox_option list"
  cx_model :: jstring
  cx_disabled :: bool
  cx_open :: bool
  cx_active :: nat
  cx_focused :: bool

definition cx_highlighted :: "combobox \<Rightarrow> int" where
  "cx_highlighted st = min (int (cx_active st)) (int (length (cx_options st)) - 1)"

definition pickedOption :: "combobox \<Rightarrow> combobox_option option" where
  "pickedOption st = find (\<lambda>opt. cx_value opt = cx_model st) (cx_options st)"

definition cx_display :: "combobox \<Rightarrow> jstring" where
  "cx_display st = (case pickedOption st of Some opt \<Rightarrow> if \<not> cx_focused st then cx_label opt else cx_model st | None \<Rightarrow> cx_model st)"

definition cx_openMenu :: "combobox \<Rightarrow> combobox" where
  "cx_openMenu st =
     (if cx_disabled st then st
      else st\<lparr>cx_active := (case find_index (\<lambda>opt. cx_value opt = cx_model st) (cx_options st) of Some i \<Rightarrow> i | None \<Rightarrow> 0), cx_open := True\<rparr>)"

definition cx_close :: "combobox \<Rightarrow> combobox" where
  "cx_close st = st\<lparr>cx_open := False\<rparr>"

definition cx_toggle :: "combobox \<Rightarrow> combobox" where
  "cx_toggle st = (if cx_open st then cx_close st else cx_openMenu st)\<lparr>cx_focused := True\<rparr>"

definition cx_move :: "int \<Rightarrow> combobox \<Rightarrow> combobox" where
  "cx_move delta st =
     (if cx_options st = [] then st
      else st\<lparr>cx_active := nat (min (max (cx_highlighted st + delta) 0) (int (length (cx_options st)) - 1))\<rparr>)"

definition cx_pick :: "int \<Rightarrow> combobox \<Rightarrow> combobox" where
  "cx_pick i st =
     (let st1 = cx_close st
      in if 0 \<le> i \<and> i < int (length (cx_options st)) then st1\<lparr>cx_model := cx_value (cx_options st ! nat i), cx_focused := True\<rparr> else st1)"

definition cx_keydown :: "jstring \<Rightarrow> combobox \<Rightarrow> bool \<times> combobox" where
  "cx_keydown key st =
     (if key = ''Escape'' then (if cx_open st then (True, cx_close st) else (False, st))
      else if key = ''ArrowDown'' then (True, if cx_open st then cx_move 1 st else cx_openMenu st)
      else if key = ''ArrowUp'' then (True, if cx_open st then cx_move (- 1) st else cx_openMenu st)
      else if key = ''Enter'' then (if cx_open st then (True, cx_pick (cx_highlighted st) st) else (False, st))
      else if key = ''Tab'' then (False, cx_close st)
      else (False, st))"

datatype combobox_event =
    CxKey jstring | CxInput jstring | CxTrigger | CxHover nat | CxClick nat | CxOutside | CxFocus | CxBlur | CxProps "combobox_option list" bool

text \<open>A disabled field takes no keys, text or focus, and its button no clicks.\<close>

definition cx_step :: "combobox_event \<Rightarrow> combobox \<Rightarrow> combobox" where
  "cx_step e st =
     (case e of
        CxKey key \<Rightarrow> if cx_disabled st then st else snd (cx_keydown key st)
      | CxInput t \<Rightarrow> if cx_disabled st then st else st\<lparr>cx_model := t\<rparr>
      | CxTrigger \<Rightarrow> if cx_disabled st then st else cx_toggle st
      | CxHover i \<Rightarrow> if cx_open st \<and> i < length (cx_options st) then st\<lparr>cx_active := i\<rparr> else st
      | CxClick i \<Rightarrow> if cx_open st then cx_pick (int i) st else st
      | CxOutside \<Rightarrow> cx_close st
      | CxFocus \<Rightarrow> if cx_disabled st then st else st\<lparr>cx_focused := True\<rparr>
      | CxBlur \<Rightarrow> st\<lparr>cx_focused := False\<rparr>
      | CxProps options disabled \<Rightarrow> st\<lparr>cx_options := options, cx_disabled := disabled\<rparr>)"

lemma cx_highlighted_bound: "cx_highlighted st < int (length (cx_options st)) \<and> (0 < length (cx_options st) \<longrightarrow> 0 \<le> cx_highlighted st)"
  by (cases "cx_options st") (auto simp: cx_highlighted_def)

interpretation combobox_keys: keyboard_picker "\<lambda>st. cx_open st \<and> \<not> cx_disabled st" cx_highlighted "\<lambda>st. length (cx_options st)"
    "\<lambda>down. cx_step (CxKey (if down then ''ArrowDown'' else ''ArrowUp''))"
proof unfold_locales
  show "cx_highlighted s < int (length (cx_options s)) \<and> (0 < length (cx_options s) \<longrightarrow> 0 \<le> cx_highlighted s)" for s
    by (rule cx_highlighted_bound)
qed (auto simp: cx_step_def cx_keydown_def cx_move_def cx_highlighted_def)

text \<open>
  The field holds what was typed or picked, and says so: whatever happens, the value is the initial one, a text typed or a value offered; typing is
  never replaced by a highlight that was not confirmed; and what is displayed is the value itself, or, while unfocused, the label of the option that has it.
\<close>

definition held_from :: "combobox_event list \<Rightarrow> combobox \<Rightarrow> jstring list" where
  "held_from es st =
     cx_model st # map cx_value (cx_options st) @
     concat (map (\<lambda>e. case e of CxInput t \<Rightarrow> [t] | CxProps options _ \<Rightarrow> map cx_value options | _ \<Rightarrow> []) es)"

lemma combobox_step_value:
  "cx_model (cx_step e st) \<in> set (held_from [e] st) \<and>
   set (map cx_value (cx_options (cx_step e st))) \<subseteq> set (held_from [e] st)"
  by (cases e) (auto simp: cx_step_def cx_keydown_def cx_pick_def cx_move_def cx_openMenu_def cx_close_def cx_toggle_def held_from_def Let_def)

lemma combobox_holds_typed_or_offered:
  "cx_model (fold cx_step es st) \<in> set (held_from es st) \<and>
   (cx_display st = cx_model st \<or> \<not> cx_focused st \<and> list_ex (\<lambda>opt. cx_value opt = cx_model st \<and> cx_label opt = cx_display st) (cx_options st))"
proof -
  have "cx_model (fold cx_step es st) \<in> set (held_from es st)"
  proof (induction es arbitrary: st)
    case (Cons e es)
    have "set (held_from es (cx_step e st)) \<subseteq> set (held_from (e # es) st)"
      using combobox_step_value [of e st] by (auto simp: held_from_def)
    then show ?case using Cons [of "cx_step e st"] by auto
  qed (simp add: held_from_def)
  moreover have "cx_display st = cx_model st \<or> \<not> cx_focused st \<and> list_ex (\<lambda>opt. cx_value opt = cx_model st \<and> cx_label opt = cx_display st) (cx_options st)"
    by (auto simp: cx_display_def pickedOption_def list_ex_iff find_Some_iff split: option.split)
  ultimately show ?thesis by blast
qed

text \<open>A popover: Escape is consumed only while it is open.\<close>

definition popover_keydown :: "jstring \<Rightarrow> bool \<Rightarrow> bool \<times> bool" where
  "popover_keydown key isOpen = (if key \<noteq> ''Escape'' \<or> \<not> isOpen then (False, isOpen) else (True, False))"

text \<open>Escape is consumed by an open popup of each kind, which closes, and left to the page by a closed one.\<close>

lemma escape_is_consumed_by_open_popups:
  "lb_keydown ''Escape'' l = (lb_open l, l\<lparr>lb_open := False\<rparr>)"
  "cx_keydown ''Escape'' c = (cx_open c, c\<lparr>cx_open := False\<rparr>)"
  "popover_keydown ''Escape'' b = (b, False)"
  by (simp_all add: lb_keydown_def lb_close_def cx_keydown_def cx_close_def popover_keydown_def)

section \<open>The namespace\<close>

definition NAMESPACES_REFRESH_MS :: int where "NAMESPACES_REFRESH_MS = 60 * 1000"

definition namespace_names :: "k8s_object list \<Rightarrow> jstring list" where
  "namespace_names items = filter (\<lambda>n. n \<noteq> []) (map (\<lambda>item. case Option.bind (ko_meta item) om_name of Some n \<Rightarrow> n | None \<Rightarrow> []) items)"

definition refetchInterval :: "bool \<Rightarrow> int option" where
  "refetchInterval failed = (if failed then None else Some NAMESPACES_REFRESH_MS)"

definition clusterScoped :: "discovery_resource list \<Rightarrow> route_location \<Rightarrow> bool" where
  "clusterScoped resources route \<longleftrightarrow>
     (if rl_name route \<noteq> RList \<and> rl_name route \<noteq> RDetail then False
      else case (map_of (rl_params route) ''group'', map_of (rl_params route) ''version'', map_of (rl_params route) ''resource'') of
             (Some g, Some v, Some r) \<Rightarrow> (case findResource resources g v r of Some entry \<Rightarrow> \<not> dr_namespaced entry | None \<Rightarrow> False)
           | _ \<Rightarrow> False)"

definition selectedMissing :: "jstring \<Rightarrow> jstring list \<Rightarrow> bool" where
  "selectedMissing ns names \<longleftrightarrow> ns \<noteq> [] \<and> ns \<notin> set names"

definition namespace_options :: "jstring \<Rightarrow> jstring list \<Rightarrow> jstring list" where
  "namespace_options ns names = [] # (if selectedMissing ns names then [ns] else []) @ names"

text \<open>The namespace after a commit of free text, which is also the text the field then shows.\<close>

definition commitFreeText :: "bool \<Rightarrow> jstring \<Rightarrow> ui_store \<Rightarrow> ui_store \<times> jstring" where
  "commitFreeText throws text ui =
     (let v = trim text; ui1 = (if v = [] \<or> isDNS1123Label v then set_namespace throws v ui else ui) in (ui1, ui_namespace ui1))"

text \<open>The watcher of the query's data: items and continue token.\<close>

definition reconcile :: "bool \<Rightarrow> (k8s_object list \<times> jstring) option \<Rightarrow> ui_store \<Rightarrow> ui_store" where
  "reconcile throws data ui =
     (case data of
        None \<Rightarrow> ui
      | Some (items, cont) \<Rightarrow>
          if cont \<noteq> [] then ui
          else if selectedMissing (ui_namespace ui) (namespace_names items) then set_namespace throws [] ui
          else ui)"

text \<open>
  The selected namespace is real and always offered: a complete list of another cluster keeps it exactly when the cluster has it and otherwise
  falls back to all, an incomplete or missing one never resets it; it always has an option; and free text is taken only when empty or a valid name, which the field then shows.
\<close>

theorem namespace_follows_the_cluster:
  "(let ui' = reconcile throws data ui in
    case data of
      None \<Rightarrow> ui' = ui
    | Some (items, cont) \<Rightarrow>
        (if cont \<noteq> [] then ui' = ui
         else ui_namespace ui' = (if ui_namespace ui \<in> set (namespace_names items) then ui_namespace ui else [])) \<and>
        ui_namespace ui' \<in> set (namespace_options (ui_namespace ui') (namespace_names items))) \<and>
   (let (ui', shown) = commitFreeText throws text ui in
    shown = ui_namespace ui' \<and> (if trim text = [] \<or> isDNS1123Label (trim text) then shown = trim text else ui' = ui))"
  by (auto simp: reconcile_def namespace_options_def selectedMissing_def commitFreeText_def set_namespace_def writeStoredNamespace_def Let_def
      namespace_names_def split: option.split)

section \<open>Switching clusters\<close>

datatype selector_push = PushLogin jstring | PushList jstring jstring jstring

text \<open>The route on screen; \<open>listPath\<close> is the router's path of a resource list.\<close>

record current_page =
  cu_route :: route_location
  cu_fullPath :: jstring

definition route_param :: "current_page \<Rightarrow> jstring \<Rightarrow> jstring" where
  "route_param pg k = (case map_of (rl_params (cu_route pg)) k of Some v \<Rightarrow> v | None \<Rightarrow> [])"

definition switchContext ::
  "(jstring \<Rightarrow> jstring \<Rightarrow> jstring \<Rightarrow> jstring) \<Rightarrow> int \<Rightarrow> current_page \<Rightarrow> jstring \<Rightarrow> auth_state \<Rightarrow> selector_push option \<times> auth_state" where
  "switchContext listPath now pg name st =
     (if name = au_active st then (None, st)
      else
        let st1 = setActiveContext now name st;
            g = route_param pg ''group''; v = route_param pg ''version''; r = route_param pg ''resource'';
            detail = (rl_name (cu_route pg) = RDetail)
        in if \<not> isAuthenticated now st1 then (Some (PushLogin (if detail then listPath g v r else cu_fullPath pg)), st1)
           else if detail then (Some (PushList g v r), st1)
           else (None, st1))"

lemma active_after_switch [simp]: "au_active (setActiveContext now name st) = name"
  by (simp add: setActiveContext_def)

text \<open>
  A switch never carries an object into another cluster: from a detail page the user always lands on its list or on the login, whose redirect is that list; the
  login comes exactly when no live session for the new cluster is held, and otherwise the requests go out with that session's token.
\<close>

theorem switch_leaves_the_object:
  "let (push, st') = switchContext listPath now pg name st in
   if name = au_active st then push = None \<and> st' = st
   else au_active st' = name \<and>
        ((case push of Some (PushLogin _) \<Rightarrow> True | _ \<Rightarrow> False) \<longleftrightarrow> \<not> hasSession now name st') \<and>
        (if rl_name (cu_route pg) = RDetail
         then push = Some (PushLogin (listPath (route_param pg ''group'') (route_param pg ''version'') (route_param pg ''resource''))) \<or>
              push = Some (PushList (route_param pg ''group'') (route_param pg ''version'') (route_param pg ''resource''))
         else push = None \<or> push = Some (PushLogin (cu_fullPath pg)))"
  by (simp add: switchContext_def Let_def isAuthenticated_def)

end
