(* ===== verification/Sidebar.thy ===== *)
theory Sidebar
  imports Catalog Stores
begin

text \<open>
  The sidebar, \<^verbatim>\<open>components/layout/Sidebar.vue\<close>: the searched catalog, the pinned resources and their reordering by drag and drop, and the
  collapsed sections. The preferences and the drawer are those of Stores; the drag events come from the browser.
\<close>

record sidebar =
  sb_ui :: ui_store
  sb_resources :: "discovery_resource list"
  sb_search :: jstring
  sb_collapsed :: "section_name list"
  sb_defaultsApplied :: bool
  sb_dragging :: "jstring option"
  sb_dropTarget :: "jstring option"

definition pinned_ids :: "sidebar \<Rightarrow> jstring list" where
  "pinned_ids st = up_pinned (ui_prefs (sb_ui st))"

definition filteredCatalog :: "(jstring \<Rightarrow> jstring \<Rightarrow> rat) \<Rightarrow> sidebar \<Rightarrow> catalog_section list" where
  "filteredCatalog coll st =
     filter (\<lambda>s. cs_resources s \<noteq> [])
       (map (\<lambda>s. s\<lparr>cs_resources := filter (\<lambda>r. matchesSearch r (sb_search st)) (cs_resources s)\<rparr>) (buildCatalog coll (sb_resources st)))"

text \<open>\<^verbatim>\<open>new Map(resources.map(r => [r.id, r]))\<close>: the last resource of an id wins.\<close>

definition resource_by_id :: "discovery_resource list \<Rightarrow> jstring \<Rightarrow> discovery_resource option" where
  "resource_by_id resources i = map_of (rev (map (\<lambda>r. (dr_id r, r)) resources)) i"

definition pinned :: "sidebar \<Rightarrow> discovery_resource list" where
  "pinned st =
     filter (\<lambda>r. matchesSearch r (sb_search st))
       (concat (map (\<lambda>i. case resource_by_id (sb_resources st) i of Some r \<Rightarrow> [r] | None \<Rightarrow> []) (pinned_ids st)))"

definition isPinned :: "jstring \<Rightarrow> sidebar \<Rightarrow> bool" where
  "isPinned i st \<longleftrightarrow> i \<in> set (pinned_ids st)"

text \<open>The watcher of the catalog: the collapse defaults, once.\<close>

definition on_catalog :: "(jstring \<Rightarrow> jstring \<Rightarrow> rat) \<Rightarrow> sidebar \<Rightarrow> sidebar" where
  "on_catalog coll st =
     (let sections = buildCatalog coll (sb_resources st)
      in if sb_defaultsApplied st \<or> sections = [] then st
         else let st1 = st\<lparr>sb_defaultsApplied := True\<rparr>
              in if pinned st1 \<noteq> [] then st1\<lparr>sb_collapsed := map cs_name sections\<rparr> else st1)"

definition toggleSection :: "section_name \<Rightarrow> sidebar \<Rightarrow> sidebar" where
  "toggleSection n st =
     st\<lparr>sb_collapsed := (if n \<in> set (sb_collapsed st) then filter (\<lambda>m. m \<noteq> n) (sb_collapsed st) else sb_collapsed st @ [n])\<rparr>"

definition isCollapsed :: "section_name \<Rightarrow> sidebar \<Rightarrow> bool" where
  "isCollapsed n st \<longleftrightarrow> trim (sb_search st) = [] \<and> n \<in> set (sb_collapsed st)"

section \<open>Drag and drop\<close>

definition canReorder :: "sidebar \<Rightarrow> bool" where
  "canReorder st \<longleftrightarrow> 1 < length (pinned st)"

definition onDragStart :: "jstring \<Rightarrow> sidebar \<Rightarrow> sidebar" where
  "onDragStart i st = st\<lparr>sb_dragging := Some i, sb_dropTarget := None\<rparr>"

definition onDragOver :: "jstring \<Rightarrow> sidebar \<Rightarrow> sidebar" where
  "onDragOver i st = (if sb_dragging st = None then st else st\<lparr>sb_dropTarget := Some i\<rparr>)"

definition onDragLeave :: "jstring \<Rightarrow> sidebar \<Rightarrow> sidebar" where
  "onDragLeave i st = (if sb_dropTarget st = Some i then st\<lparr>sb_dropTarget := None\<rparr> else st)"

definition onDragEnd :: "sidebar \<Rightarrow> sidebar" where
  "onDragEnd st = st\<lparr>sb_dragging := None, sb_dropTarget := None\<rparr>"

definition onDrop :: "bool \<Rightarrow> jstring \<Rightarrow> sidebar \<Rightarrow> sidebar" where
  "onDrop throws i st =
     onDragEnd (case sb_dragging st of None \<Rightarrow> st | Some d \<Rightarrow> st\<lparr>sb_ui := move_pin throws d i (sb_ui st)\<rparr>)"

text \<open>Where the insertion line of a row is drawn.\<close>

datatype row_mark = Plain | Dimmed | LineAbove | LineBelow

definition index_of :: "jstring \<Rightarrow> jstring list \<Rightarrow> int" where
  "index_of i l = (case find_index (\<lambda>x. x = i) l of Some k \<Rightarrow> int k | None \<Rightarrow> - 1)"

definition row_mark_of :: "jstring \<Rightarrow> sidebar \<Rightarrow> row_mark" where
  "row_mark_of i st =
     (if sb_dragging st = Some i then Dimmed
      else case sb_dragging st of
             None \<Rightarrow> Plain
           | Some d \<Rightarrow>
               if sb_dropTarget st \<noteq> Some i then Plain
               else if index_of i (pinned_ids st) < index_of d (pinned_ids st) then LineAbove else LineBelow)"

definition rowClass :: "row_mark \<Rightarrow> jstring" where
  "rowClass m =
     (case m of
        Plain \<Rightarrow> ''border-y-2 border-t-transparent border-b-transparent''
      | Dimmed \<Rightarrow> ''border-y-2 border-t-transparent border-b-transparent opacity-40''
      | LineAbove \<Rightarrow> ''border-y-2 border-t-amber-400 border-b-transparent''
      | LineBelow \<Rightarrow> ''border-y-2 border-t-transparent border-b-amber-400'')"

datatype sidebar_event =
    SbSearch jstring | SbResources "discovery_resource list" | SbToggleSection section_name | SbTogglePin jstring
  | SbDragStart jstring | SbDragOver jstring | SbDragLeave jstring | SbDrop jstring | SbDragEnd | SbUi ui_op

text \<open>A row is draggable when there is something to reorder; the rows are those of the pinned list.\<close>

definition sidebar_step :: "(jstring \<Rightarrow> jstring \<Rightarrow> rat) \<Rightarrow> bool \<Rightarrow> sidebar_event \<Rightarrow> sidebar \<Rightarrow> sidebar" where
  "sidebar_step coll throws e st =
     (case e of
        SbSearch s \<Rightarrow> st\<lparr>sb_search := s\<rparr>
      | SbResources rs \<Rightarrow> on_catalog coll (st\<lparr>sb_resources := rs\<rparr>)
      | SbToggleSection n \<Rightarrow> toggleSection n st
      | SbTogglePin i \<Rightarrow> st\<lparr>sb_ui := pin throws i (sb_ui st)\<rparr>
      | SbDragStart i \<Rightarrow> if canReorder st \<and> i \<in> set (map dr_id (pinned st)) then onDragStart i st else st
      | SbDragOver i \<Rightarrow> if i \<in> set (map dr_id (pinned st)) then onDragOver i st else st
      | SbDragLeave i \<Rightarrow> onDragLeave i st
      | SbDrop i \<Rightarrow> if i \<in> set (map dr_id (pinned st)) then onDrop throws i st else st
      | SbDragEnd \<Rightarrow> onDragEnd st
      | SbUi op1 \<Rightarrow> st\<lparr>sb_ui := ui_step throws op1 (sb_ui st)\<rparr>)"

definition open_sidebar :: "(jstring \<Rightarrow> jstring \<Rightarrow> rat) \<Rightarrow> ui_store \<Rightarrow> discovery_resource list \<Rightarrow> sidebar" where
  "open_sidebar coll ui resources =
     on_catalog coll \<lparr>sb_ui = ui, sb_resources = resources, sb_search = [], sb_collapsed = [], sb_defaultsApplied = False,
                      sb_dragging = None, sb_dropTarget = None\<rparr>"

section \<open>Properties\<close>

lemma find_index_split: "x \<notin> set A \<Longrightarrow> find_index (\<lambda>y. y = x) (A @ x # B) = Some (length A)"
  by (induction A) auto

lemma move_up:
  assumes "distinct (A @ i # B @ d # C)"
  shows "up_pinned (movePinned d i (p\<lparr>up_pinned := A @ i # B @ d # C\<rparr>)) = A @ d # i # B @ C"
proof -
  have "find_index (\<lambda>y. y = i) (A @ i # B @ d # C) = Some (length A)"
    using find_index_split [of i A "B @ d # C"] assms by simp
  moreover have "find_index (\<lambda>y. y = d) (A @ i # B @ d # C) = Some (length A + Suc (length B))"
    using find_index_split [of d "A @ i # B" C] assms by auto
  ultimately show ?thesis by (simp add: movePinned_def Let_def insert_at_def nth_append)
qed

lemma move_down:
  assumes "distinct (A @ d # B @ i # C)"
  shows "up_pinned (movePinned d i (p\<lparr>up_pinned := A @ d # B @ i # C\<rparr>)) = A @ B @ i # d # C"
proof -
  have "find_index (\<lambda>y. y = d) (A @ d # B @ i # C) = Some (length A)"
    using find_index_split [of d A "B @ i # C"] assms by simp
  moreover have "find_index (\<lambda>y. y = i) (A @ d # B @ i # C) = Some (length A + Suc (length B))"
    using find_index_split [of i "A @ d # B" C] assms by auto
  ultimately show ?thesis by (simp add: movePinned_def Let_def insert_at_def)
qed

lemma two_members:
  assumes "a \<in> set l" "b \<in> set l" "a \<noteq> b"
  obtains (first) A B C where "l = A @ a # B @ b # C" | (second) A B C where "l = A @ b # B @ a # C"
proof -
  obtain A R where l: "l = A @ a # R" using assms(1) by (meson split_list)
  show thesis
  proof (cases "b \<in> set R")
    case True
    then obtain B C where "R = B @ b # C" by (meson split_list)
    then show ?thesis using first l by simp
  next
    case False
    then have "b \<in> set A" using assms l by auto
    then obtain X Y where "A = X @ b # Y" by (meson split_list)
    then show ?thesis using second l by simp
  qed
qed

definition dropped_at :: "row_mark \<Rightarrow> jstring \<Rightarrow> jstring \<Rightarrow> jstring list \<Rightarrow> jstring list" where
  "dropped_at m d i l =
     (let rest = remove1 d l
      in takeWhile (\<lambda>x. x \<noteq> i) rest @ (if m = LineAbove then [d, i] else [i, d]) @ tl (dropWhile (\<lambda>x. x \<noteq> i) rest))"

lemma pinned_after_move [simp]: "up_pinned (ui_prefs (move_pin throws d i ui)) = up_pinned (movePinned d i (ui_prefs ui))"
  by (simp add: move_pin_def save_prefs_def Let_def)

text \<open>
  C38. A dragged pin lands where the line is drawn: over any other row the insertion line is above it or below it, and dropping there puts the dragged
  resource directly above or below that row and leaves the order of all the others as it was, pins hidden by the search included.
\<close>

theorem drop_lands_at_the_line:
  assumes "distinct (pinned_ids st)" "d \<in> set (pinned_ids st)" "i \<in> set (pinned_ids st)" "d \<noteq> i"
  shows "let over = onDragOver i (onDragStart d st); m = row_mark_of i over; st' = onDrop throws i over in
     m \<in> {LineAbove, LineBelow} \<and> pinned_ids st' = dropped_at m d i (pinned_ids st) \<and> sb_dragging st' = None \<and> sb_dropTarget st' = None"
proof -
  let ?over = "onDragOver i (onDragStart d st)"
  have o: "sb_dragging ?over = Some d" "sb_dropTarget ?over = Some i" "pinned_ids ?over = pinned_ids st" "sb_ui ?over = sb_ui st"
    by (simp_all add: onDragOver_def onDragStart_def pinned_ids_def)
  have after: "pinned_ids (onDrop throws i ?over) = up_pinned (movePinned d i (ui_prefs (sb_ui st)))"
    by (simp add: onDrop_def onDragEnd_def o pinned_ids_def)
  have self: "ui_prefs (sb_ui st) = (ui_prefs (sb_ui st))\<lparr>up_pinned := pinned_ids st\<rparr>" by (simp add: pinned_ids_def)
  have clear: "sb_dragging (onDrop throws i s) = None" "sb_dropTarget (onDrop throws i s) = None" for s by (simp_all add: onDrop_def onDragEnd_def)
  have "pinned_ids (onDrop throws i ?over) = dropped_at (row_mark_of i ?over) d i (pinned_ids st) \<and> row_mark_of i ?over \<in> {LineAbove, LineBelow}"
    using assms(3,2) not_sym [OF assms(4)]
  proof (cases rule: two_members)
    case (first A B C)
    then have dis: "distinct (A @ i # B @ d # C)" using assms(1) by simp
    have "index_of i (pinned_ids st) < index_of d (pinned_ids st)"
      using find_index_split [of i A "B @ d # C"] find_index_split [of d "A @ i # B" C] dis first by (auto simp: index_of_def)
    then have m: "row_mark_of i ?over = LineAbove" using assms(4) by (simp add: row_mark_of_def o)
    have "up_pinned (movePinned d i (ui_prefs (sb_ui st))) = A @ d # i # B @ C"
      using move_up [OF dis] first by (subst self) simp
    moreover have "remove1 d (A @ i # B @ d # C) = A @ i # B @ C" using dis by (auto simp: remove1_append)
    ultimately show ?thesis using dis first by (simp add: after m dropped_at_def Let_def takeWhile_append dropWhile_append)
  next
    case (second A B C)
    then have dis: "distinct (A @ d # B @ i # C)" using assms(1) by simp
    have "index_of d (pinned_ids st) < index_of i (pinned_ids st)"
      using find_index_split [of d A "B @ i # C"] find_index_split [of i "A @ d # B" C] dis second by (auto simp: index_of_def)
    then have m: "row_mark_of i ?over = LineBelow" using assms(4) by (simp add: row_mark_of_def o)
    have "up_pinned (movePinned d i (ui_prefs (sb_ui st))) = A @ B @ i # d # C"
      using move_down [OF dis] second by (subst self) simp
    moreover have "remove1 d (A @ d # B @ i # C) = A @ B @ i # C" using dis by (auto simp: remove1_append)
    ultimately show ?thesis using dis second by (auto simp: after m dropped_at_def Let_def takeWhile_append dropWhile_append)
  qed
  then show ?thesis using clear by (simp add: Let_def)
qed

definition demo_sidebar :: sidebar where
  "demo_sidebar =
     \<lparr>sb_ui = (open_ui None None False)\<lparr>ui_prefs := default_prefs\<lparr>up_pinned := [''a'', ''b'', ''c'']\<rparr>\<rparr>, sb_resources = [], sb_search = [],
      sb_collapsed = [], sb_defaultsApplied = False, sb_dragging = None, sb_dropTarget = None\<rparr>"

theorem drop_lands_at_the_line_witness:
  "pinned_ids (onDrop False ''a'' (onDragOver ''a'' (onDragStart ''c'' demo_sidebar))) = [''c'', ''a'', ''b'']"
  using drop_lands_at_the_line [of demo_sidebar "''c''" "''a''" False]
  by (simp add: Let_def pinned_ids_def demo_sidebar_def dropped_at_def row_mark_of_def onDragOver_def onDragStart_def index_of_def)

text \<open>
  A search shows all its matches and nothing else: the sections hold exactly the catalog's resources that match, none is empty, and none is collapsed while there is a
  query; the pinned rows are the matching pins the cluster serves, in pinned order; and the collapse defaults never undo the user's choice once a catalog has been seen.
\<close>

theorem search_shows_all_matches:
  "shown (filteredCatalog coll st) = filter (\<lambda>r. matchesSearch r (sb_search st)) (shown (buildCatalog coll (sb_resources st))) \<and>
   list_all (\<lambda>s. cs_resources s \<noteq> [] \<and> (if trim (sb_search st) = [] then True else \<not> isCollapsed (cs_name s) st)) (filteredCatalog coll st) \<and>
   map Some (pinned st) =
     filter (\<lambda>x. case x of Some r \<Rightarrow> matchesSearch r (sb_search st) | None \<Rightarrow> False) (map (resource_by_id (sb_resources st)) (pinned_ids st)) \<and>
   (if sb_defaultsApplied st then sb_collapsed (sidebar_step coll throws (SbResources rs) st) = sb_collapsed st else True)"
proof -
  have "concat (map cs_resources (filter (\<lambda>s. cs_resources s \<noteq> []) (map (\<lambda>s. s\<lparr>cs_resources := filter P (cs_resources s)\<rparr>) ss))) =
      filter P (concat (map cs_resources ss))" for P and ss :: "catalog_section list"
    by (induction ss) auto
  then have "shown (filteredCatalog coll st) = filter (\<lambda>r. matchesSearch r (sb_search st)) (shown (buildCatalog coll (sb_resources st)))"
    by (simp add: shown_def filteredCatalog_def)
  moreover have "map Some (filter P (concat (map (\<lambda>i. case f i of Some r \<Rightarrow> [r] | None \<Rightarrow> []) ids))) =
      filter (\<lambda>x. case x of Some r \<Rightarrow> P r | None \<Rightarrow> False) (map f ids)" for f :: "jstring \<Rightarrow> discovery_resource option" and P ids
    by (induction ids) (auto split: option.split)
  ultimately show ?thesis
    by (auto simp: pinned_def isCollapsed_def filteredCatalog_def list_all_iff sidebar_step_def on_catalog_def Let_def)
qed

end
