(* ===== verification/MetricsTabs.thy ===== *)
theory MetricsTabs
  imports MetricsCache MetricsPolling PodSeries Chrome Units
begin

text \<open>
  The three screens with live charts: the metrics tabs of a pod (\<^verbatim>\<open>components/pod/PodMetricsTab.vue\<close>) and of a node
  (\<^verbatim>\<open>components/node/NodeMetricsTab.vue\<close>) and the overview of a namespace (\<^verbatim>\<open>pages/NamespaceOverviewPage.vue\<close>). Each binds two
  buffers of the shared cache to its scope, polls for it, and rebinds when the scope changes. The three scripts differ in the
  scope, the values drawn from a response and what the watcher compares; the rest is the same code and one definition here.
  \<open>Date.parse\<close> is the parameter \<open>dparse\<close>; the clock is an argument.
\<close>

section \<open>Scopes and samples\<close>

datatype metrics_screen = PodScreen | NodeScreen | NamespaceScreen

record metrics_response =
  mr_observedAt :: jstring
  mr_items :: "metrics_item list"

text \<open>The part the two keys share; \<open>subj\<close> is the pod's uid, the node's name or the namespace filter.\<close>

definition scope_of :: "metrics_screen \<Rightarrow> jstring \<Rightarrow> jstring \<Rightarrow> jstring" where
  "scope_of screen ctx subj =
     ctx @ (case screen of PodScreen \<Rightarrow> '':pod:'' | NodeScreen \<Rightarrow> '':node:'' | NamespaceScreen \<Rightarrow> '':ns:'') @ subj"

definition cpuKey :: "jstring \<Rightarrow> jstring" where
  "cpuKey scope = scope @ '':cpu''"

definition memKey :: "jstring \<Rightarrow> jstring" where
  "memKey scope = scope @ '':mem''"

definition MAX_CONTAINER_SERIES :: nat where "MAX_CONTAINER_SERIES = 5"

definition pod_values :: "metrics_item list \<Rightarrow> (sample_values \<times> sample_values) option" where
  "pod_values its = (case its of [] \<Rightarrow> None | item # _ \<Rightarrow> Some (podMetricsSeries item MAX_CONTAINER_SERIES))"

definition node_values :: "metrics_item list \<Rightarrow> (sample_values \<times> sample_values) option" where
  "node_values its = (case its of [] \<Rightarrow> None | item # _ \<Rightarrow> Some ([(''usage'', item_cpu item)], [(''usage'', item_mem item)]))"

definition namespace_values :: "metrics_item list \<Rightarrow> (sample_values \<times> sample_values) option" where
  "namespace_values its =
     (let (cpu, mem) = fold (\<lambda>item (c, m). (c + item_cpu item, m + item_mem item)) its (0, 0)
      in Some ([(''total'', cpu)], [(''total'', mem)]))"

definition values_of :: "metrics_screen \<Rightarrow> metrics_item list \<Rightarrow> (sample_values \<times> sample_values) option" where
  "values_of screen =
     (case screen of PodScreen \<Rightarrow> pod_values | NodeScreen \<Rightarrow> node_values | NamespaceScreen \<Rightarrow> namespace_values)"

section \<open>State and operations\<close>

text \<open>\<open>mt_bound\<close> records every buffer handed out with the key it was asked under, \<open>mt_pushed\<close> every buffer pushed into with the key of the
  scope the response was fetched for, \<open>mt_itemsOf\<close> the scope the table of top pods was last filled for; no operation reads them.\<close>

record metrics_tab =
  mt_screen :: metrics_screen
  mt_context :: jstring
  mt_subject :: jstring
  mt_cpu :: nat
  mt_mem :: nat
  mt_items :: "metrics_item list"
  mt_cache :: mcache
  mt_poll :: "metrics_response metrics_polling"
  mt_bound :: "(nat \<times> jstring) list"
  mt_pushed :: "(nat \<times> jstring) list"
  mt_itemsOf :: jstring

definition tab_scope :: "metrics_tab \<Rightarrow> jstring" where
  "tab_scope t = scope_of (mt_screen t) (mt_context t) (mt_subject t)"

definition rebind :: "int \<Rightarrow> metrics_tab \<Rightarrow> metrics_tab" where
  "rebind now t =
     (let ck = cpuKey (tab_scope t); mk = memKey (tab_scope t); (bs, c) = getMetricsBuffers now [ck, mk] (mt_cache t)
      in t\<lparr>mt_cpu := bs ! 0, mt_mem := bs ! 1, mt_cache := c, mt_bound := (bs ! 1, mk) # (bs ! 0, ck) # mt_bound t\<rparr>)"

text \<open>\<^verbatim>\<open>onSample\<close>; \<open>asked\<close> is the scope the response was fetched for.\<close>

definition onSample :: "(jstring \<Rightarrow> int option) \<Rightarrow> jstring \<Rightarrow> metrics_response \<Rightarrow> metrics_tab \<Rightarrow> metrics_tab" where
  "onSample dparse asked resp t =
     (case (dparse (mr_observedAt resp), values_of (mt_screen t) (mr_items resp)) of
        (Some ts, Some (cpu, mem)) \<Rightarrow>
          (let t1 = t\<lparr>mt_cache := push_into (mt_mem t) ts mem (push_into (mt_cpu t) ts cpu (mt_cache t)),
                      mt_pushed := (mt_mem t, memKey asked) # (mt_cpu t, cpuKey asked) # mt_pushed t\<rparr>
           in if mt_screen t = NamespaceScreen then t1\<lparr>mt_items := mr_items resp, mt_itemsOf := asked\<rparr> else t1)
      | _ \<Rightarrow> t)"

text \<open>What the watcher compares: the tabs a joined string, the overview the two sources.\<close>

definition scope_moved :: "metrics_screen \<Rightarrow> jstring \<Rightarrow> jstring \<Rightarrow> jstring \<Rightarrow> jstring \<Rightarrow> bool" where
  "scope_moved screen subj ctx subj' ctx' \<longleftrightarrow>
     (if screen = NamespaceScreen then subj \<noteq> subj' \<or> ctx \<noteq> ctx' else subj @ ''|'' @ ctx \<noteq> subj' @ ''|'' @ ctx')"

definition start_tab :: "nat \<Rightarrow> metrics_tab \<Rightarrow> metrics_tab" where
  "start_tab interval t = t\<lparr>mt_poll := start_metrics interval (tab_scope t) (mt_poll t)\<rparr>"

text \<open>The fetcher reads the props it is called with, so its scope moves with them even when the polling is only stopped.\<close>

definition stop_tab :: "nat \<Rightarrow> metrics_tab \<Rightarrow> metrics_tab" where
  "stop_tab interval t = t\<lparr>mt_poll := drive_metrics interval PollStop ((mt_poll t)\<lparr>mp_scope := tab_scope t\<rparr>)\<rparr>"

definition scope_changes :: "nat \<Rightarrow> int \<Rightarrow> jstring \<Rightarrow> jstring \<Rightarrow> bool \<Rightarrow> metrics_tab \<Rightarrow> metrics_tab" where
  "scope_changes interval now ctx subj authenticated t =
     (let t1 = t\<lparr>mt_context := ctx, mt_subject := subj\<rparr>
      in if \<not> scope_moved (mt_screen t) (mt_subject t) (mt_context t) subj ctx then t1
         else let t2 = (rebind now t1)\<lparr>mt_items := []\<rparr>
              in if authenticated then start_tab interval t2 else stop_tab interval t2)"

text \<open>An event of the polling composable; \<^verbatim>\<open>onSample\<close> runs inside the delivery of a response.\<close>

definition tab_polls :: "nat \<Rightarrow> (jstring \<Rightarrow> int option) \<Rightarrow> metrics_response metrics_event \<Rightarrow> metrics_tab \<Rightarrow> metrics_tab" where
  "tab_polls interval dparse e t =
     (let p = metrics_step interval e (mt_poll t);
          new = take (length (mp_samples p) - length (mp_samples (mt_poll t))) (mp_samples p)
      in fold (\<lambda>(asked, _, resp). onSample dparse asked resp) (rev new) (t\<lparr>mt_poll := p\<rparr>))"

definition open_screen :: "nat \<Rightarrow> int \<Rightarrow> metrics_screen \<Rightarrow> jstring \<Rightarrow> jstring \<Rightarrow> mcache \<Rightarrow> metrics_tab" where
  "open_screen interval now screen ctx subj c =
     start_tab interval (rebind now
       \<lparr>mt_screen = screen, mt_context = ctx, mt_subject = subj, mt_cpu = 0, mt_mem = 0, mt_items = [], mt_cache = c, mt_poll = new_metrics,
        mt_bound = map (\<lambda>(k, b). (b, k)) (entries c), mt_pushed = [], mt_itemsOf = []\<rparr>)"

datatype charts_event =
    TabScope int jstring jstring bool
  | TabPoll "metrics_response metrics_event"
  | TabSignedOut jstring

definition charts_step :: "nat \<Rightarrow> (jstring \<Rightarrow> int option) \<Rightarrow> charts_event \<Rightarrow> metrics_tab \<Rightarrow> metrics_tab" where
  "charts_step interval dparse e t =
     (case e of
        TabScope now ctx subj authenticated \<Rightarrow> scope_changes interval now ctx subj authenticated t
      | TabPoll pe \<Rightarrow> if starts pe then t else tab_polls interval dparse pe t
      | TabSignedOut ctx \<Rightarrow> t\<lparr>mt_cache := clearMetricsCacheContext ctx (mt_cache t)\<rparr>)"

text \<open>What the charts are given.\<close>

definition cpuData :: "jstring \<Rightarrow> metrics_tab \<Rightarrow> RingBuffer.cell list list" where
  "cpuData rng t = toUplotData (map_of METRICS_RANGE_SECONDS rng) (heap (mt_cache t) ! mt_cpu t)"

definition memData :: "jstring \<Rightarrow> metrics_tab \<Rightarrow> RingBuffer.cell list list" where
  "memData rng t = toUplotData (map_of METRICS_RANGE_SECONDS rng) (heap (mt_cache t) ! mt_mem t)"

definition cpuLabels :: "metrics_tab \<Rightarrow> jstring list" where
  "cpuLabels t = labels (heap (mt_cache t) ! mt_cpu t)"

definition memLabels :: "metrics_tab \<Rightarrow> jstring list" where
  "memLabels t = labels (heap (mt_cache t) ! mt_mem t)"

definition scopeLabel :: "jstring \<Rightarrow> jstring" where
  "scopeLabel ns = (if ns = [] then ''All namespaces'' else ns)"

section \<open>The table of top pods\<close>

definition MAX_TOP_ROWS :: nat where "MAX_TOP_ROWS = 10"

definition top_usage :: "bool \<Rightarrow> metrics_item \<Rightarrow> rat" where
  "top_usage byCpu item = (if byCpu then item_cpu item else item_mem item)"

definition top_pods :: "bool \<Rightarrow> metrics_item list \<Rightarrow> metrics_item list" where
  "top_pods byCpu its = take MAX_TOP_ROWS (js_sort (\<lambda>a b. top_usage byCpu b - top_usage byCpu a) its)"

definition top_pod_route :: "metrics_item \<Rightarrow> route_location" where
  "top_pod_route item =
     resourceDetailRoute \<lparr>rr_group = [], rr_version = ''v1'', rr_resource = ''pods''\<rparr> (item_namespace item) (item_name item)"

text \<open>A row: its link, the name, the namespace and the formatted usage.\<close>

definition top_pod_row :: "bool \<Rightarrow> metrics_item \<Rightarrow> route_location \<times> jstring \<times> jstring option \<times> jstring" where
  "top_pod_row byCpu item =
     (top_pod_route item, item_name item, item_namespace item, if byCpu then formatCpu (item_cpu item) else formatBytes (item_mem item))"

section \<open>Scopes are told apart\<close>

lemma first_part:
  assumes "ch \<notin> set a" "ch \<notin> set b" "a @ ch # x = b @ ch # y"
  shows "a = b \<and> x = y"
  using assms
proof (induction a arbitrary: b)
  case Nil
  then show ?case by (cases b) auto
next
  case (Cons c a)
  then show ?case by (cases b) auto
qed

lemma last_part:
  assumes "ch \<notin> set a" "ch \<notin> set b" "x @ ch # a = y @ ch # b"
  shows "x = y \<and> a = b"
proof -
  have "rev a @ ch # rev x = rev b @ ch # rev y" using arg_cong [OF assms(3), of rev] by simp
  then show ?thesis using assms(1,2) first_part [of ch "rev a" "rev b" "rev x" "rev y"] by simp
qed

text \<open>A uid, a node name and a namespace have no colon, so the keys of two scopes coincide only for the same object of the same cluster.\<close>

definition screen_part :: "metrics_screen \<Rightarrow> jstring" where
  "screen_part screen = (case screen of PodScreen \<Rightarrow> ''pod'' | NodeScreen \<Rightarrow> ''node'' | NamespaceScreen \<Rightarrow> ''ns'')"

lemma screen_part_simps [simp]: "CHR '':'' \<notin> set (screen_part s)" "screen_part s = screen_part s' \<longleftrightarrow> s = s'"
  by (cases s; cases s'; simp add: screen_part_def)+

lemma scope_of_parts: "scope_of screen ctx subj = (ctx @ CHR '':'' # screen_part screen) @ CHR '':'' # subj"
  by (cases screen) (simp_all add: scope_of_def screen_part_def)

lemma scopes_apart:
  assumes "CHR '':'' \<notin> set subj" "CHR '':'' \<notin> set subj'" "scope_of screen ctx subj = scope_of screen' ctx' subj'"
  shows "screen = screen' \<and> ctx = ctx' \<and> subj = subj'"
proof -
  have "ctx @ CHR '':'' # screen_part screen = ctx' @ CHR '':'' # screen_part screen' \<and> subj = subj'"
    by (rule last_part [OF assms(1,2)]) (use assms(3) in \<open>simp only: scope_of_parts\<close>)
  then show ?thesis using last_part [OF screen_part_simps(1) screen_part_simps(1)] by auto
qed

lemma keys_apart [simp]: "cpuKey a = cpuKey b \<longleftrightarrow> a = b" "memKey a = memKey b \<longleftrightarrow> a = b" "cpuKey a \<noteq> memKey b" "memKey a \<noteq> cpuKey b"
proof -
  have eq: "cpuKey x = x @ CHR '':'' # ''cpu''" "memKey x = x @ CHR '':'' # ''mem''" for x by (simp_all add: cpuKey_def memKey_def)
  show "cpuKey a \<noteq> memKey b" using last_part [of "CHR '':''" "''cpu''" "''mem''" a b] by (auto simp: eq)
  then show "memKey b \<noteq> cpuKey a" for a b using last_part [of "CHR '':''" "''mem''" "''cpu''" b a] by (auto simp: eq)
qed (simp_all add: cpuKey_def memKey_def)

section \<open>Every buffer belongs to one key\<close>

definition owned :: "(nat \<times> jstring) list \<Rightarrow> mcache \<Rightarrow> bool" where
  "owned g c \<longleftrightarrow> single_valued (set g) \<and> (\<forall>(b, k) \<in> set g. b < length (heap c)) \<and> (\<forall>(k, b) \<in> set (entries c). (b, k) \<in> set g)"

lemma owned_filter: "owned g c \<Longrightarrow> owned g (c\<lparr>entries := filter P (entries c)\<rparr>)"
  by (auto simp: owned_def)

lemma set_update_subset: "set (AList.update k v es) \<subseteq> insert (k, v) (set es)"
  by (induction es) auto

lemma owned_bind:
  assumes "owned g c"
  shows "owned ((fst (bind_scope now key c), key) # g) (snd (bind_scope now key c))"
proof (cases rule: bind_scope_cases [of now key c])
  case fresh
  have "(length (heap c), k) \<notin> set g" for k using assms by (auto simp: owned_def)
  then have "single_valued (insert (length (heap c), key) (set g))" using assms by (auto simp: owned_def single_valued_def)
  then show ?thesis using assms set_update_subset [of key "length (heap c)" "entries c"]
    by (fastforce simp: fresh owned_def less_Suc_eq)
next
  case (reuse b)
  have "(b, key) \<in> set g" using assms map_of_SomeD [OF reuse(1)] by (auto simp: owned_def)
  then have "set ((b, key) # g) = set g" by auto
  then show ?thesis using assms \<open>(b, key) \<in> set g\<close> by (auto simp: owned_def reuse AList.delete_eq)
qed

lemma owned_evict: "owned g c \<Longrightarrow> owned g (evict now ks c)"
  by (rule evict_entries [of now ks c]) (simp add: owned_filter)

lemma owned_push: "owned g (push_into b t vs c) = owned g c"
  by (simp add: owned_def push_into_def)

lemma get_two:
  "\<exists>b1 b2 c'. getMetricsBuffers now [k1, k2] c = ([b1, b2], c') \<and> (owned g c \<longrightarrow> owned ((b2, k2) # (b1, k1) # g) c')"
proof -
  let ?r1 = "bind_scope now k1 c"
  let ?r2 = "bind_scope now k2 (snd ?r1)"
  have "getMetricsBuffers now [k1, k2] c = ([fst ?r1, fst ?r2], evict now [k1, k2] (snd ?r2))"
    by (simp add: getMetricsBuffers_def Let_def case_prod_beta)
  then show ?thesis using owned_evict owned_bind by metis
qed

section \<open>The invariant\<close>

definition tab_inv :: "metrics_tab \<Rightarrow> bool" where
  "tab_inv t \<longleftrightarrow>
     owned (mt_bound t) (mt_cache t) \<and>
     (mt_cpu t, cpuKey (tab_scope t)) \<in> set (mt_bound t) \<and> (mt_mem t, memKey (tab_scope t)) \<in> set (mt_bound t) \<and>
     set (mt_pushed t) \<subseteq> set (mt_bound t) \<and> metrics_inv (mt_poll t) \<and> mp_scope (mt_poll t) = tab_scope t \<and>
     (mt_items t = [] \<or> mt_itemsOf t = tab_scope t)"

lemma metrics_inv_moved: "metrics_inv st \<Longrightarrow> metrics_inv (drive_metrics interval PollStop (st\<lparr>mp_scope := scope\<rparr>))"
  by (simp add: drive_metrics_def host_step_def Let_def metrics_inv_def metrics_onStop_def put_metrics_def
      keys_le [of "mp_gateGen st"] keys_fresh [of "mp_gateGen st"] fetches_older [of "pl_gen (mp_loop st)" "mp_scope st"])

lemma start_metrics_scope [simp]: "mp_scope (start_metrics interval scope st) = scope"
  by (simp add: start_metrics_def metrics_gate_def Let_def)

lemma scope_fields [simp]:
  "tab_scope (t\<lparr>mt_poll := p\<rparr>) = tab_scope t" "tab_scope (t\<lparr>mt_items := x\<rparr>) = tab_scope t"
  "tab_scope (t\<lparr>mt_cache := c\<rparr>) = tab_scope t"
  by (simp_all add: tab_scope_def)

lemma rebind_eq:
  "\<exists>b1 b2 c. rebind now t = t\<lparr>mt_cpu := b1, mt_mem := b2, mt_cache := c,
      mt_bound := (b2, memKey (tab_scope t)) # (b1, cpuKey (tab_scope t)) # mt_bound t\<rparr> \<and>
    (owned (mt_bound t) (mt_cache t) \<longrightarrow> owned ((b2, memKey (tab_scope t)) # (b1, cpuKey (tab_scope t)) # mt_bound t) c)"
proof -
  obtain b1 b2 c where "getMetricsBuffers now [cpuKey (tab_scope t), memKey (tab_scope t)] (mt_cache t) = ([b1, b2], c)"
    "owned (mt_bound t) (mt_cache t) \<longrightarrow> owned ((b2, memKey (tab_scope t)) # (b1, cpuKey (tab_scope t)) # mt_bound t) c"
    using get_two by metis
  then show ?thesis by (auto simp: rebind_def Let_def)
qed

lemma tab_inv_rebound:
  assumes "owned (mt_bound t) (mt_cache t)" "set (mt_pushed t) \<subseteq> set (mt_bound t)" "metrics_inv (mt_poll t)"
  shows "tab_inv (start_tab interval ((rebind now t)\<lparr>mt_items := []\<rparr>))" "tab_inv (stop_tab interval ((rebind now t)\<lparr>mt_items := []\<rparr>))"
proof -
  obtain b1 b2 c where r: "rebind now t = t\<lparr>mt_cpu := b1, mt_mem := b2, mt_cache := c,
      mt_bound := (b2, memKey (tab_scope t)) # (b1, cpuKey (tab_scope t)) # mt_bound t\<rparr>"
    "owned ((b2, memKey (tab_scope t)) # (b1, cpuKey (tab_scope t)) # mt_bound t) c"
    using rebind_eq [of now t] assms(1) by blast
  then show "tab_inv (start_tab interval ((rebind now t)\<lparr>mt_items := []\<rparr>))" "tab_inv (stop_tab interval ((rebind now t)\<lparr>mt_items := []\<rparr>))"
    using assms(2,3) by (auto simp: tab_inv_def start_tab_def stop_tab_def tab_scope_def metrics_inv_start metrics_inv_moved)
qed

lemma metrics_inv_stays: "metrics_inv (mt_poll t) \<Longrightarrow> metrics_inv (metrics_step interval e (mt_poll t))"
  by (rule metrics_inv_step)

lemma scope_same:
  assumes "\<not> scope_moved screen subj ctx subj' ctx'" "CHR ''|'' \<notin> set subj" "CHR ''|'' \<notin> set subj'"
  shows "subj = subj' \<and> ctx = ctx'"
proof (cases "screen = NamespaceScreen")
  case False
  then have "subj @ CHR ''|'' # ctx = subj' @ CHR ''|'' # ctx'" using assms(1) by (simp add: scope_moved_def)
  then show ?thesis by (rule first_part [OF assms(2,3)])
qed (use assms(1) in \<open>simp add: scope_moved_def\<close>)

lemma tab_inv_sample:
  assumes "tab_inv t" "asked = tab_scope t"
  shows "tab_inv (onSample dparse asked resp t) \<and> tab_scope (onSample dparse asked resp t) = tab_scope t"
  using assms by (auto simp: onSample_def tab_inv_def tab_scope_def owned_push Let_def split: option.split)

lemma tab_inv_samples:
  assumes "tab_inv t" "list_all (\<lambda>x. fst x = tab_scope t) new"
  shows "tab_inv (fold (\<lambda>(asked, _, resp). onSample dparse asked resp) new t) \<and>
    tab_scope (fold (\<lambda>(asked, _, resp). onSample dparse asked resp) new t) = tab_scope t"
  using assms
proof (induction new arbitrary: t)
  case (Cons x new)
  obtain asked held resp where x: "x = (asked, held, resp)" by (cases x)
  then have "tab_inv (onSample dparse asked resp t)" "tab_scope (onSample dparse asked resp t) = tab_scope t"
    using tab_inv_sample Cons.prems by auto
  then show ?case using Cons.IH [of "onSample dparse asked resp t"] Cons.prems(2) by (simp add: x)
qed simp

lemma tab_inv_polls:
  assumes "tab_inv t" "\<not> starts e"
  shows "tab_inv (tab_polls interval dparse e t) \<and> tab_scope (tab_polls interval dparse e t) = tab_scope t"
proof -
  let ?p = "metrics_step interval e (mt_poll t)"
  obtain xs where xs: "mp_samples ?p = xs @ mp_samples (mt_poll t)" "list_all (\<lambda>x. fst (snd x) = mp_scope (mt_poll t)) xs"
    using metrics_step_frame(2) [OF assms(2)] by blast
  have p: "metrics_inv ?p" "mp_scope ?p = mp_scope (mt_poll t)"
    using assms(1) by (simp_all add: tab_inv_def metrics_inv_step metrics_step_frame(1) [OF assms(2)])
  then have "list_all (\<lambda>(asked, held, _). asked = held) xs" using xs(1) by (simp add: metrics_inv_def)
  then have "list_all (\<lambda>x. fst x = tab_scope t) (rev xs)"
    using xs(2) assms(1) by (fastforce simp: list_all_iff tab_inv_def)
  moreover have "tab_inv (t\<lparr>mt_poll := ?p\<rparr>)" using assms(1) p by (simp add: tab_inv_def)
  ultimately show ?thesis
    using tab_inv_samples [of "t\<lparr>mt_poll := ?p\<rparr>" "rev xs" dparse] by (simp add: tab_polls_def Let_def xs(1))
qed

lemma tab_inv_scope:
  assumes "tab_inv t" "CHR ''|'' \<notin> set subj" "CHR ''|'' \<notin> set (mt_subject t)"
  shows "tab_inv (scope_changes interval now ctx subj authenticated t)"
proof (cases "scope_moved (mt_screen t) (mt_subject t) (mt_context t) subj ctx")
  case True
  let ?t = "t\<lparr>mt_context := ctx, mt_subject := subj\<rparr>"
  have "tab_inv (start_tab interval ((rebind now ?t)\<lparr>mt_items := []\<rparr>))" "tab_inv (stop_tab interval ((rebind now ?t)\<lparr>mt_items := []\<rparr>))"
    by (rule tab_inv_rebound; use assms(1) in \<open>simp add: tab_inv_def\<close>)+
  then show ?thesis using True by (simp add: scope_changes_def Let_def)
next
  case False
  then have "t\<lparr>mt_context := ctx, mt_subject := subj\<rparr> = t" using scope_same assms(2,3) by fastforce
  then show ?thesis using False assms(1) by (simp add: scope_changes_def)
qed

text \<open>A subject as the API server names objects.\<close>

definition charts_event_ok :: "charts_event \<Rightarrow> bool" where
  "charts_event_ok e \<longleftrightarrow> (case e of TabScope _ _ subj _ \<Rightarrow> CHR ''|'' \<notin> set subj | _ \<Rightarrow> True)"

definition run_tab :: "nat \<Rightarrow> (jstring \<Rightarrow> int option) \<Rightarrow> int \<Rightarrow> metrics_screen \<Rightarrow> jstring \<Rightarrow> jstring \<Rightarrow> cache_event list \<Rightarrow> charts_event list \<Rightarrow> metrics_tab" where
  "run_tab interval dparse now screen ctx subj before es =
     fold (charts_step interval dparse) es (open_screen interval now screen ctx subj (run_cache before))"

lemma tab_subject_step:
  "mt_subject (charts_step interval dparse e t) = (case e of TabScope _ _ subj _ \<Rightarrow> subj | _ \<Rightarrow> mt_subject t)"
proof -
  have s: "mt_subject (onSample dparse asked resp t) = mt_subject t" for asked resp t
    by (simp add: onSample_def Let_def split: option.split)
  have "mt_subject (fold (\<lambda>(asked, _, resp). onSample dparse asked resp) new t) = mt_subject t" for new :: "(jstring \<times> jstring \<times> metrics_response) list" and t
    by (induction new arbitrary: t) (auto simp: s)
  then show ?thesis
    by (cases e) (simp_all add: charts_step_def scope_changes_def tab_polls_def rebind_def start_tab_def stop_tab_def Let_def case_prod_beta)
qed

lemma tab_inv_step:
  assumes "tab_inv t" "charts_event_ok e" "CHR ''|'' \<notin> set (mt_subject t)"
  shows "tab_inv (charts_step interval dparse e t) \<and> CHR ''|'' \<notin> set (mt_subject (charts_step interval dparse e t))"
proof
  show "CHR ''|'' \<notin> set (mt_subject (charts_step interval dparse e t))"
    using assms(2,3) by (cases e) (simp_all add: tab_subject_step charts_event_ok_def)
  show "tab_inv (charts_step interval dparse e t)"
  proof (cases e)
    case (TabSignedOut ctx)
    then show ?thesis using assms(1) owned_filter
      by (fastforce simp: charts_step_def tab_inv_def clearMetricsCacheContext_def)
  qed (use assms in \<open>simp_all add: charts_step_def charts_event_ok_def tab_inv_scope tab_inv_polls\<close>)
qed

lemma tab_inv_open: "tab_inv (open_screen interval now screen ctx subj (run_cache before))"
proof -
  let ?c = "run_cache before"
  let ?t = "\<lparr>mt_screen = screen, mt_context = ctx, mt_subject = subj, mt_cpu = 0, mt_mem = 0, mt_items = [], mt_cache = ?c, mt_poll = new_metrics,
      mt_bound = map (\<lambda>(k, b). (b, k)) (entries ?c), mt_pushed = [], mt_itemsOf = []\<rparr>"
  have "distinct (map snd (entries ?c))" "\<forall>b \<in> snd ` set (entries ?c). b < length (heap ?c)"
    using run_cache_ok [of before] by (simp_all add: cache_ok_def)
  then have "owned (mt_bound ?t) (mt_cache ?t)"
    by (fastforce simp: owned_def single_valued_def distinct_map inj_on_def)
  then have "tab_inv (start_tab interval ((rebind now ?t)\<lparr>mt_items := []\<rparr>))"
    by (intro tab_inv_rebound) (simp_all add: metrics_inv_new)
  moreover have "(rebind now ?t)\<lparr>mt_items := []\<rparr> = rebind now ?t" by (simp add: rebind_def Let_def case_prod_beta)
  ultimately show ?thesis by (simp add: open_screen_def)
qed

lemma run_charts_inv:
  assumes "CHR ''|'' \<notin> set subj" "list_all charts_event_ok es"
  shows "tab_inv (run_tab interval dparse now screen ctx subj before es)"
proof -
  have "tab_inv (fold (charts_step interval dparse) es t)" if "tab_inv t" "CHR ''|'' \<notin> set (mt_subject t)" for t
    using assms(2) that
  proof (induction es arbitrary: t)
    case (Cons e es)
    then have "tab_inv (charts_step interval dparse e t) \<and> CHR ''|'' \<notin> set (mt_subject (charts_step interval dparse e t))"
      by (intro tab_inv_step) simp_all
    then show ?case using Cons.IH Cons.prems(1) by simp
  qed simp
  moreover have "mt_subject (open_screen interval now screen ctx subj c) = subj" for c
    by (simp add: open_screen_def start_tab_def rebind_def Let_def case_prod_beta)
  ultimately show ?thesis using assms(1) tab_inv_open by (simp add: run_tab_def)
qed

section \<open>Properties\<close>

text \<open>
  C14. Charts never blend two objects. Whatever the cache held before the screen opened, and however scope and cluster changes, stopped or
  restarted polling, late responses, hidden tabs and sign-outs interleave, every buffer handed out belongs to one key for good, every sample
  was pushed into the buffer of the object and cluster it was fetched for, the two charts shown are bound to the present scope, and the
  tables of top pods are empty or of that scope. (Uids and node names contain no \<^verbatim>\<open>|\<close>, which the watcher joins them with.)
\<close>

theorem charts_never_blend:
  assumes "CHR ''|'' \<notin> set subj" "list_all charts_event_ok es"
  shows "let t = run_tab interval dparse now screen ctx subj before es in
    list_all (\<lambda>(b, k). map_of (mt_bound t) b = Some k) (mt_bound t) \<and> list_all (\<lambda>(b, k). map_of (mt_bound t) b = Some k) (mt_pushed t) \<and>
    map_of (mt_bound t) (mt_cpu t) = Some (cpuKey (tab_scope t)) \<and> map_of (mt_bound t) (mt_mem t) = Some (memKey (tab_scope t)) \<and>
    (mt_items t = [] \<or> mt_itemsOf t = tab_scope t)"
proof -
  define t where "t = run_tab interval dparse now screen ctx subj before es"
  have inv: "tab_inv t" using run_charts_inv [OF assms] by (simp add: t_def)
  have look: "map_of (mt_bound t) b = Some k" if bk: "(b, k) \<in> set (mt_bound t)" for b k
  proof -
    obtain k' where k': "map_of (mt_bound t) b = Some k'" using weak_map_of_SomeI [OF bk] by blast
    then have "(b, k') \<in> set (mt_bound t)" by (rule map_of_SomeD)
    then show ?thesis using bk inv k' by (auto simp: tab_inv_def owned_def single_valued_def)
  qed
  then show ?thesis using inv by (auto simp: t_def [symmetric] tab_inv_def list_all_iff)
qed

text \<open>Two pods in turn: the sample of the first and the sample of the second end up in different buffers.\<close>

definition blend_events :: "charts_event list" where
  "blend_events =
     (let resp = (\<lambda>w v. \<lparr>mr_observedAt = w, mr_items = [\<lparr>item_namespace = None, item_name = ''web'', item_cpu = v, item_mem = v, item_containers = None\<rparr>]\<rparr>)
      in [TabPoll (MProbed 2 (Inr CapAvailable)), TabPoll (MFetched 2 ''prod:pod:u1'' (Inr (resp ''a'' 5))),
          TabScope 10 ''prod'' ''u2'' True, TabPoll (MFetched 2 ''prod:pod:u1'' (Inr (resp ''b'' 7))),
          TabPoll (MProbed 4 (Inr CapAvailable)), TabPoll (MFetched 4 ''prod:pod:u2'' (Inr (resp ''c'' 9)))])"

lemma blend_run:
  "let t = run_tab 5 (\<lambda>s. Some (int (length s))) 0 PodScreen ''prod'' ''u1'' [] blend_events in
    mt_pushed t = [(3, ''prod:pod:u2:mem''), (2, ''prod:pod:u2:cpu''), (1, ''prod:pod:u1:mem''), (0, ''prod:pod:u1:cpu'')] \<and> mt_cpu t = 2"
  by code_simp

theorem charts_never_blend_witness:
  "let t = run_tab 5 (\<lambda>s. Some (int (length s))) 0 PodScreen ''prod'' ''u1'' [] blend_events in
    map_of (mt_bound t) (mt_cpu t) = Some ''prod:pod:u2:cpu''"
proof -
  have "CHR ''|'' \<notin> set ''u1''" "list_all charts_event_ok blend_events" by (simp_all add: blend_events_def charts_event_ok_def Let_def)
  from charts_never_blend [OF this, of 5 "\<lambda>s. Some (int (length s))" 0 PodScreen "''prod''" "[]"]
  have "let t = run_tab 5 (\<lambda>s. Some (int (length s))) 0 PodScreen ''prod'' ''u1'' [] blend_events in
    list_all (\<lambda>(b, k). map_of (mt_bound t) b = Some k) (mt_pushed t)" by (simp add: Let_def)
  then show ?thesis using blend_run by (auto simp: Let_def)
qed

text \<open>The table of top pods: of the sample's pods the ten that use most, in descending order, and none left out uses more.\<close>

lemma top_pods_are_the_top:
  "sorted_wrt (\<lambda>a b. top_usage byCpu b \<le> top_usage byCpu a) (top_pods byCpu its) \<and> length (top_pods byCpu its) = min 10 (length its) \<and>
   (\<exists>rest. mset (top_pods byCpu its) + mset rest = mset its \<and>
     (\<forall>a \<in> set (top_pods byCpu its). \<forall>b \<in> set rest. top_usage byCpu b \<le> top_usage byCpu a))"
proof -
  let ?s = "js_sort (\<lambda>a b. top_usage byCpu b - top_usage byCpu a) its"
  have "sorted_wrt (\<lambda>a b. top_usage byCpu b - top_usage byCpu a \<le> 0) ?s"
    by (rule comparator.js_sort_sorted [OF comparator_desc])
  then have "sorted_wrt (\<lambda>a b. top_usage byCpu b \<le> top_usage byCpu a) ?s" by simp
  then have s: "sorted_wrt (\<lambda>a b. top_usage byCpu b \<le> top_usage byCpu a) (take 10 ?s @ drop 10 ?s)" by simp
  then have parts: "sorted_wrt (\<lambda>a b. top_usage byCpu b \<le> top_usage byCpu a) (take 10 ?s)"
    "\<forall>a \<in> set (take 10 ?s). \<forall>b \<in> set (drop 10 ?s). top_usage byCpu b \<le> top_usage byCpu a"
    using s unfolding sorted_wrt_append by blast+
  have "mset (take 10 ?s) + mset (drop 10 ?s) = mset its" by (metis append_take_drop_id mset_append mset_js_sort)
  then show ?thesis using parts by (auto simp: top_pods_def MAX_TOP_ROWS_def)
qed

end
