(* ===== verification/Charts.thy ===== *)
theory Charts
  imports PodSeries Units ClusterSummary Chrome Urls MetricsPolling
begin

text \<open>
  What the metrics screens draw: a line chart (\<^verbatim>\<open>components/metrics/MetricsChart.vue\<close>: palette, axis, legend, tooltip, and when the plot is
  rebuilt or fed), a gauge (\<^verbatim>\<open>components/metrics/GaugeCard.vue\<close>), the four gauges of a cluster (\<^verbatim>\<open>ClusterSummaryCards.vue\<close>) and the notice shown
  instead of charts (\<^verbatim>\<open>MetricsUnavailable.vue\<close>). The plotting library draws; \<open>plot\<close> is what it was given. Text measurement, the em dash and
  \<^verbatim>\<open>String(number)\<close> are parameters. Cells are numbers or null, as the props are declared.
\<close>

section \<open>Colours and texts\<close>

definition LIGHT_PALETTE :: "jstring list" where
  "LIGHT_PALETTE = [''#2a78d6'', ''#008300'', ''#e87ba4'', ''#eda100'', ''#1baf7a'', ''#eb6834'']"

definition DARK_PALETTE :: "jstring list" where
  "DARK_PALETTE = [''#3987e5'', ''#008300'', ''#d55181'', ''#c98500'', ''#199e70'', ''#d95926'']"

definition palette_of :: "bool \<Rightarrow> jstring list" where
  "palette_of dark = (if dark then DARK_PALETTE else LIGHT_PALETTE)"

definition colorFor :: "bool \<Rightarrow> nat \<Rightarrow> jstring" where
  "colorFor dark i = palette_of dark ! (i mod length (palette_of dark))"

text \<open>\<^verbatim>\<open>parseInt(s, 16)\<close> of hexadecimal digits.\<close>

definition hex_digit :: "char \<Rightarrow> nat" where
  "hex_digit c = (if is_digit c then code c - 48 else if is_lower_alpha c then code c - 87 else code c - 55)"

definition parse_hex :: "jstring \<Rightarrow> nat" where
  "parse_hex s = foldl (\<lambda>n c. 16 * n + hex_digit c) 0 s"

definition slice :: "nat \<Rightarrow> nat \<Rightarrow> jstring \<Rightarrow> jstring" where
  "slice a b s = take (b - a) (drop a s)"

definition fillColor :: "jstring \<Rightarrow> jstring \<Rightarrow> jstring" where
  "fillColor hex alpha =
     ''rgba('' @ join '', '' [show_nat (parse_hex (slice 1 3 hex)), show_nat (parse_hex (slice 3 5 hex)), show_nat (parse_hex (slice 5 7 hex)), alpha] @ '')''"

datatype chart_unit = UnitCpu | UnitMemory

definition formatValue :: "chart_unit \<Rightarrow> rat option \<Rightarrow> jstring" where
  "formatValue unit v = (case v of None \<Rightarrow> [] | Some q \<Rightarrow> if unit = UnitCpu then formatCpu q else formatBytes q)"

definition formatStat :: "jstring \<Rightarrow> chart_unit \<Rightarrow> rat option \<Rightarrow> jstring" where
  "formatStat dash unit v = (if v = None then dash else formatValue unit v)"

definition Y_AXIS_GAP :: int where "Y_AXIS_GAP = 12"
definition Y_AXIS_MIN :: int where "Y_AXIS_MIN = 52"

text \<open>Without a canvas (\<open>None\<close>) the width is an estimate.\<close>

definition labelWidth :: "(jstring \<Rightarrow> rat) option \<Rightarrow> jstring \<Rightarrow> rat" where
  "labelWidth canvas s = (case canvas of None \<Rightarrow> of_nat (length s * 7) | Some width \<Rightarrow> width s)"

definition yAxisSize :: "(jstring \<Rightarrow> rat) option \<Rightarrow> jstring list option \<Rightarrow> int" where
  "yAxisSize canvas vals =
     (case vals of
        None \<Rightarrow> Y_AXIS_MIN
      | Some [] \<Rightarrow> Y_AXIS_MIN
      | Some vs \<Rightarrow> max Y_AXIS_MIN (\<lceil>fold (\<lambda>v widest. max widest (labelWidth canvas v)) vs 0\<rceil> + Y_AXIS_GAP))"

section \<open>The chart\<close>

type_synonym chart_data = "rat option list list"

record plot_series =
  ps_label :: jstring
  ps_stroke :: jstring
  ps_fill :: jstring

text \<open>A plot keeps the palette it was built with; its data is replaced in place.\<close>

record plot =
  pl_series :: "plot_series list"
  pl_palette :: "jstring list"
  pl_data :: chart_data
  pl_width :: int

record chart =
  ch_unit :: chart_unit
  ch_labels :: "jstring list"
  ch_data :: chart_data
  ch_dark :: bool
  ch_plot :: "plot option"
  ch_resizeObserver :: bool
  ch_themeObserver :: bool

definition hasData :: "chart_data \<Rightarrow> bool" where
  "hasData data = (case data of [] \<Rightarrow> False | xs # _ \<Rightarrow> xs \<noteq> [])"

definition chart_stats :: "chart \<Rightarrow> (jstring \<times> jstring \<times> series_stat) list" where
  "chart_stats c =
     map (\<lambda>(i, label). (label, colorFor (ch_dark c) i, seriesStats (map (map (map_option Num)) (ch_data c)) i)) (enumerate 0 (ch_labels c))"

definition seriesKey :: "bool \<Rightarrow> jstring list \<Rightarrow> jstring" where
  "seriesKey dark ls = (if dark then ''dark'' else ''light'') @ '':'' @ join ''|'' ls"

definition destroyChart :: "chart \<Rightarrow> chart" where
  "destroyChart c = c\<lparr>ch_resizeObserver := False, ch_plot := None\<rparr>"

text \<open>\<^verbatim>\<open>buildChart\<close>; the host element is always in the page, its width is the argument.\<close>

definition buildChart :: "int \<Rightarrow> chart \<Rightarrow> chart" where
  "buildChart clientWidth c =
     (let palette = palette_of (ch_dark c); alpha = (if length (ch_labels c) > 1 then ''0.08'' else ''0.15'');
          series = map (\<lambda>(i, label). let stroke = palette ! (i mod length palette)
                     in \<lparr>ps_label = label, ps_stroke = stroke, ps_fill = fillColor stroke alpha\<rparr>) (enumerate 0 (ch_labels c))
      in (destroyChart c)\<lparr>ch_plot := Some \<lparr>pl_series = series, pl_palette = palette, pl_data = ch_data c, pl_width = max clientWidth 320\<rparr>,
                          ch_resizeObserver := True\<rparr>)"

datatype chart_event =
    ThemeChanges bool int
  | PropsChange "jstring list" chart_data int
  | HostResized int

definition set_data :: "chart_data \<Rightarrow> chart \<Rightarrow> chart" where
  "set_data d c = c\<lparr>ch_plot := map_option (\<lambda>p. p\<lparr>pl_data := d\<rparr>) (ch_plot c)\<rparr>"

text \<open>The watchers: a changed series key rebuilds, then changed data is put into the plot.\<close>

definition chart_step :: "chart_event \<Rightarrow> chart \<Rightarrow> chart" where
  "chart_step e c =
     (case e of
        ThemeChanges dark w \<Rightarrow> if dark = ch_dark c then c else buildChart w (c\<lparr>ch_dark := dark\<rparr>)
      | PropsChange ls d w \<Rightarrow>
          (let c1 = c\<lparr>ch_labels := ls, ch_data := d\<rparr>;
               c2 = (if seriesKey (ch_dark c) ls = seriesKey (ch_dark c) (ch_labels c) then c1 else buildChart w c1)
           in if d = ch_data c then c2 else set_data d c2)
      | HostResized w \<Rightarrow> if ch_resizeObserver c \<and> 0 < w then c\<lparr>ch_plot := map_option (\<lambda>p. p\<lparr>pl_width := w\<rparr>) (ch_plot c)\<rparr> else c)"

definition mount_chart :: "chart_unit \<Rightarrow> jstring list \<Rightarrow> chart_data \<Rightarrow> bool \<Rightarrow> int \<Rightarrow> chart" where
  "mount_chart unit ls d dark w =
     (buildChart w \<lparr>ch_unit = unit, ch_labels = ls, ch_data = d, ch_dark = dark, ch_plot = None, ch_resizeObserver = False, ch_themeObserver = False\<rparr>)
       \<lparr>ch_themeObserver := True\<rparr>"

definition unmount_chart :: "chart \<Rightarrow> chart" where
  "unmount_chart c = destroyChart (c\<lparr>ch_themeObserver := False\<rparr>)"

text \<open>The rows of the hover tooltip at position \<open>idx\<close>: colour of the key, value, name.\<close>

definition tooltip_rows :: "jstring \<Rightarrow> chart_unit \<Rightarrow> nat \<Rightarrow> plot \<Rightarrow> (jstring \<times> jstring \<times> jstring) list" where
  "tooltip_rows dash unit idx p =
     map (\<lambda>s. (pl_palette p ! ((s - 1) mod length (pl_palette p)),
               formatStat dash unit (if idx < length (pl_data p ! s) then pl_data p ! s ! idx else None),
               if s - 1 < length (pl_series p) then ps_label (pl_series p ! (s - 1)) else []))
       [1..<length (pl_data p)]"

text \<open>\<^verbatim>\<open>setCursor\<close>: hidden off the plot, else the rows of the index under the crosshair.\<close>

definition tooltip :: "jstring \<Rightarrow> chart_unit \<Rightarrow> nat option \<Rightarrow> int \<Rightarrow> int \<Rightarrow> plot \<Rightarrow> (jstring \<times> jstring \<times> jstring) list option" where
  "tooltip dash unit idx cx cy p = (case idx of None \<Rightarrow> None | Some i \<Rightarrow> if cx < 0 \<or> cy < 0 then None else Some (tooltip_rows dash unit i p))"

definition tooltip_pos :: "int \<Rightarrow> int \<Rightarrow> int \<Rightarrow> int \<Rightarrow> int \<Rightarrow> int \<times> int" where
  "tooltip_pos cx cy overW tipW tipH =
     (let x = cx + 12; x1 = (if x + tipW > overW then cx - tipW - 12 else x); x2 = (if x1 < 0 then 0 else x1);
          y = cy - tipH - 12; y1 = (if y < 0 then cy + 12 else y)
      in (x2, y1))"

section \<open>The gauge\<close>

definition MIN_ALERT_ARC :: rat where "MIN_ALERT_ARC = 2"

definition clamped :: "rat option \<Rightarrow> rat" where
  "clamped pct = (case pct of None \<Rightarrow> 0 | Some p \<Rightarrow> max 0 (min 100 p))"

definition alertArc :: "rat option \<Rightarrow> rat option \<Rightarrow> rat" where
  "alertArc pct alert =
     (case alert of None \<Rightarrow> 0 | Some a \<Rightarrow> if a \<le> 0 then 0 else min (clamped pct) (max MIN_ALERT_ARC a))"

definition alertOffset :: "rat option \<Rightarrow> rat option \<Rightarrow> rat" where
  "alertOffset pct alert = - (clamped pct - alertArc pct alert)"

definition centerLabel :: "jstring \<Rightarrow> rat option \<Rightarrow> jstring" where
  "centerLabel dash pct = (case pct of None \<Rightarrow> dash | Some p \<Rightarrow> to_fixed 1 p @ '' %'')"

datatype gauge_variant = GaugeUsage | GaugeHealth

definition ringColor :: "gauge_variant \<Rightarrow> rat option \<Rightarrow> jstring" where
  "ringColor variant pct =
     (let p = clamped pct
      in if variant = GaugeHealth
         then (if p \<ge> 100 then ''text-emerald-500'' else if p > 0 then ''text-amber-500'' else ''text-rose-500'')
         else (if p \<ge> 90 then ''text-rose-500'' else if p \<ge> 70 then ''text-amber-500'' else ''text-sky-500''))"

section \<open>The gauges of a cluster\<close>

record gauge =
  ga_key :: jstring
  ga_title :: jstring
  ga_detail :: jstring
  ga_percent :: "rat option"
  ga_variant :: gauge_variant
  ga_alertPercent :: "rat option"
  ga_alertLabel :: "jstring option"
  ga_to :: "route_location option"

definition ratio :: "rat option \<Rightarrow> rat \<Rightarrow> rat option" where
  "ratio used all = (case used of None \<Rightarrow> None | Some u \<Rightarrow> if all \<le> 0 then None else Some (u / all * 100))"

definition podsRoute :: route_location where
  "podsRoute = resourceListRoute \<lparr>rr_group = [], rr_version = ''v1'', rr_resource = ''pods''\<rparr> None"

definition nodesRoute :: route_location where
  "nodesRoute = resourceListRoute \<lparr>rr_group = [], rr_version = ''v1'', rr_resource = ''nodes''\<rparr> None"

definition summary_cards :: "jstring \<Rightarrow> (rat \<Rightarrow> jstring) \<Rightarrow> int option \<Rightarrow> bool \<Rightarrow> summary option \<Rightarrow> gauge list" where
  "summary_cards dash str problems truncated data =
     (case data of
        None \<Rightarrow> []
      | Some d \<Rightarrow>
          (let inTrouble = (case problems of None \<Rightarrow> False | Some n \<Rightarrow> 0 < n);
               cpuUsed = (case su_usedCores d of None \<Rightarrow> dash | Some u \<Rightarrow> formatCores u);
               memUsed = (case su_usedBytes d of None \<Rightarrow> dash | Some u \<Rightarrow> formatBytes u)
           in [\<lparr>ga_key = ''cpu'', ga_title = ''CPU Usage'', ga_detail = cpuUsed @ '' / '' @ formatCores (su_totalCores d) @ '' cores'',
                ga_percent = ratio (su_usedCores d) (su_totalCores d), ga_variant = GaugeUsage, ga_alertPercent = None, ga_alertLabel = None, ga_to = None\<rparr>,
               \<lparr>ga_key = ''memory'', ga_title = ''Memory Usage'', ga_detail = memUsed @ '' / '' @ formatBytes (su_totalBytes d),
                ga_percent = ratio (su_usedBytes d) (su_totalBytes d), ga_variant = GaugeUsage, ga_alertPercent = None, ga_alertLabel = None, ga_to = None\<rparr>,
               \<lparr>ga_key = ''pods'', ga_title = ''Pods'',
                ga_detail = (case su_podCount d of None \<Rightarrow> dash | Some n \<Rightarrow> show_int n) @ '' / '' @ str (su_podCapacity d),
                ga_percent = ratio (map_option of_int (su_podCount d)) (su_podCapacity d), ga_variant = GaugeUsage,
                ga_alertPercent = (if inTrouble then ratio (map_option of_int problems) (su_podCapacity d) else None),
                ga_alertLabel = (if inTrouble then Some (show_int (the problems) @ (if truncated then ''+'' else []) @ '' in trouble'') else None),
                ga_to = Some podsRoute\<rparr>,
               \<lparr>ga_key = ''nodes'', ga_title = ''Nodes'', ga_detail = show_nat (su_ready d) @ '' / '' @ show_nat (su_nodes d) @ '' Ready'',
                ga_percent = ratio (Some (of_nat (su_ready d))) (of_nat (su_nodes d)), ga_variant = GaugeHealth,
                ga_alertPercent = None, ga_alertLabel = None, ga_to = Some nodesRoute\<rparr>]))"

section \<open>Instead of charts\<close>

definition unavailable_message :: "metrics_ui_state \<Rightarrow> jstring" where
  "unavailable_message s =
     (case s of
        UiLoading \<Rightarrow> ''Checking Metrics Server availability...''
      | UiUserDisabled \<Rightarrow> ''Metrics polling is turned off in your preferences.''
      | UiCapability CapAvailable \<Rightarrow> []
      | UiCapability CapNotInstalled \<Rightarrow> ''Metrics Server is not installed in this cluster, so live CPU/memory charts are not available.''
      | UiCapability CapForbidden \<Rightarrow>
          ''Your account is not allowed to read metrics.k8s.io. Ask a cluster administrator for read access to pod and node metrics.''
      | UiCapability CapUnavailable \<Rightarrow>
          ''Metrics Server is currently unreachable. Charts will work again once metrics.k8s.io responds.''
      | UiCapability CapDisabled \<Rightarrow> ''The metrics adapter is disabled in the kube-console backend configuration.'')"

section \<open>Properties\<close>

lemma join_bars_eq:
  assumes "list_all (\<lambda>l. l \<noteq> [] \<and> CHR ''|'' \<notin> set l) xs" "list_all (\<lambda>l. l \<noteq> [] \<and> CHR ''|'' \<notin> set l) ys" "join ''|'' xs = join ''|'' ys"
  shows "xs = ys"
proof -
  have clean: "list_all (\<lambda>l. CHR ''|'' \<notin> set l) zs" if "list_all (\<lambda>l. l \<noteq> [] \<and> CHR ''|'' \<notin> set l) zs" for zs
    using that by (simp add: list_all_iff)
  have "join ''|'' zs = [] \<longleftrightarrow> zs = []" if "list_all (\<lambda>l. l \<noteq> [] \<and> CHR ''|'' \<notin> set l) zs" for zs
    using that by (cases zs; cases "tl zs") (auto simp: join_Cons)
  then show ?thesis using assms split_join [OF _ clean, of xs] split_join [OF _ clean, of ys] by (cases "xs = []"; cases "ys = []") metis+
qed

definition label_ok :: "jstring \<Rightarrow> bool" where
  "label_ok l \<longleftrightarrow> l \<noteq> [] \<and> CHR ''|'' \<notin> set l"

definition chart_event_ok :: "chart_event \<Rightarrow> bool" where
  "chart_event_ok e \<longleftrightarrow> (case e of PropsChange ls _ _ \<Rightarrow> list_all label_ok ls | _ \<Rightarrow> True)"

text \<open>What a plot must show to be current.\<close>

definition drawn :: "chart \<Rightarrow> plot \<Rightarrow> bool" where
  "drawn c p \<longleftrightarrow> pl_data p = ch_data c \<and> map ps_label (pl_series p) = ch_labels c \<and> pl_palette p = palette_of (ch_dark c) \<and>
     map ps_stroke (pl_series p) = map (colorFor (ch_dark c)) [0..<length (ch_labels c)]"

definition chart_current :: "chart \<Rightarrow> bool" where
  "chart_current c \<longleftrightarrow> list_all label_ok (ch_labels c) \<and> ch_resizeObserver c \<and> (case ch_plot c of None \<Rightarrow> False | Some p \<Rightarrow> drawn c p)"

lemma seriesKey_eq:
  assumes "list_all label_ok xs" "list_all label_ok ys"
  shows "seriesKey dark xs = seriesKey dark ys \<longleftrightarrow> xs = ys"
  using join_bars_eq [of xs ys] assms unfolding seriesKey_def label_ok_def [abs_def] by auto

lemma built_current: "list_all label_ok (ch_labels c) \<Longrightarrow> chart_current (buildChart w c)"
  by (simp add: chart_current_def buildChart_def destroyChart_def drawn_def Let_def comp_def case_prod_beta)
     (auto intro: nth_equalityI simp: nth_enumerate_eq colorFor_def list_eq_iff_nth_eq [of "map _ _"])

lemma chart_current_step:
  assumes "chart_current c" "chart_event_ok e"
  shows "chart_current (chart_step e c)"
proof (cases e)
  case (ThemeChanges dark w)
  then show ?thesis using assms by (auto simp: chart_step_def chart_current_def [of c] intro!: built_current)
next
  case (PropsChange ls d w)
  have ok: "list_all label_ok ls" "list_all label_ok (ch_labels c)" using assms PropsChange by (simp_all add: chart_event_ok_def chart_current_def)
  let ?c = "c\<lparr>ch_labels := ls, ch_data := d\<rparr>"
  obtain p where p: "ch_plot c = Some p" "drawn c p" using assms(1) by (auto simp: chart_current_def split: option.splits)
  have fed: "chart_current (set_data d x)" if "chart_current x" "ch_data x = d" for x
    using that by (auto simp: chart_current_def set_data_def drawn_def split: option.splits)
  show ?thesis
  proof (cases "ls = ch_labels c")
    case True
    then have "chart_step e c = (if d = ch_data c then c else set_data d ?c)" by (simp add: PropsChange chart_step_def Let_def)
    moreover have "chart_current (set_data d ?c)"
      using assms(1) p True by (auto simp: chart_current_def set_data_def drawn_def)
    ultimately show ?thesis using assms(1) by simp
  next
    case False
    then have "chart_step e c = (if d = ch_data c then buildChart w ?c else set_data d (buildChart w ?c))"
      using seriesKey_eq [OF ok] by (simp add: PropsChange chart_step_def Let_def)
    moreover have "chart_current (buildChart w ?c)" by (rule built_current) (simp add: ok)
    moreover have "ch_data (buildChart w ?c) = d" by (simp add: buildChart_def destroyChart_def Let_def)
    ultimately show ?thesis using fed by (auto simp del: fold_simps)
  qed
next
  case (HostResized w)
  then show ?thesis using assms(1) by (auto simp: chart_step_def chart_current_def drawn_def split: option.splits)
qed

lemma enumerate_upt: "map f (enumerate 0 xs) = map (\<lambda>i. f (i, xs ! i)) [0..<length xs]"
  by (rule nth_equalityI) (simp_all add: nth_enumerate_eq)

lemma drawn_rows:
  assumes "drawn c p" "length (ch_data c) = Suc (length (ch_labels c))"
  shows "map (\<lambda>(colour, _, name). (name, colour)) (tooltip_rows dash unit idx p) = map (\<lambda>(label, colour, _). (label, colour)) (chart_stats c)"
proof -
  have len: "length (pl_series p) = length (ch_labels c)" using assms(1) by (metis drawn_def length_map)
  have nm: "ps_label (pl_series p ! i) = ch_labels c ! i" if "i < length (ch_labels c)" for i
    using assms(1) that len by (metis drawn_def nth_map)
  have "[1..<length (pl_data p)] = map Suc [0..<length (ch_labels c)]" using assms by (simp add: drawn_def map_Suc_upt)
  then show ?thesis using assms(1) len nm
    by (simp add: tooltip_rows_def chart_stats_def enumerate_upt comp_def drawn_def colorFor_def)
qed

text \<open>
  A mounted chart always shows the present series: after any theme changes, new data and labels, and resizes, the plot exists, holds exactly the
  data and labels of the props, and is painted in the palette of the present theme - so each row of its tooltip has the name and the colour
  the legend below gives that series, and the value plotted. (Labels are not empty and contain no \<^verbatim>\<open>|\<close>, which the series key joins them with.)
\<close>

theorem chart_is_current:
  assumes "list_all label_ok ls" "list_all chart_event_ok es"
  shows "let c = fold chart_step es (mount_chart unit ls d dark w) in
    case ch_plot c of None \<Rightarrow> False
    | Some p \<Rightarrow> pl_data p = ch_data c \<and> map ps_label (pl_series p) = ch_labels c \<and>
        (if length (ch_data c) = Suc (length (ch_labels c))
         then map (\<lambda>(colour, _, name). (name, colour)) (tooltip_rows dash unit idx p) = map (\<lambda>(label, colour, _). (label, colour)) (chart_stats c)
         else True)"
proof -
  let ?c = "fold chart_step es (mount_chart unit ls d dark w)"
  have "chart_current (mount_chart unit ls d dark w)"
  proof -
    let ?b = "buildChart w \<lparr>ch_unit = unit, ch_labels = ls, ch_data = d, ch_dark = dark, ch_plot = None, ch_resizeObserver = False, ch_themeObserver = False\<rparr>"
    have "chart_current ?b" by (rule built_current) (simp add: assms(1))
    then show ?thesis by (auto simp: mount_chart_def chart_current_def drawn_def split: option.splits)
  qed
  then have "chart_current ?c" using assms(2)
  proof (induction es arbitrary: ls d dark w rule: rev_induct)
    case (snoc e es)
    then show ?case by (simp add: chart_current_step)
  qed simp
  then obtain p where p: "ch_plot ?c = Some p" "drawn ?c p" by (auto simp: chart_current_def split: option.splits)
  show ?thesis using p drawn_rows [OF p(2)] by (auto simp: Let_def drawn_def simp del: fold_simps)
qed

theorem chart_is_current_witness:
  "let c = fold chart_step [PropsChange [''total'', ''app''] [[Some 1], [Some 5], [Some 4]] 500, ThemeChanges True 500, HostResized 200]
      (mount_chart UnitCpu [''total''] [[], []] False 640) in
    map_option (map ps_label \<circ> pl_series) (ch_plot c) = Some [''total'', ''app''] \<and> map_option pl_palette (ch_plot c) = Some DARK_PALETTE"
proof -
  let ?es = "[PropsChange [''total'', ''app''] [[Some 1], [Some 5], [Some 4]] 500, ThemeChanges True 500, HostResized 200]"
  have h: "list_all label_ok [''total'']" "list_all chart_event_ok ?es" by (simp_all add: label_ok_def chart_event_ok_def)
  let ?c = "fold chart_step ?es (mount_chart UnitCpu [''total''] [[], []] False 640)"
  have "ch_labels ?c = [''total'', ''app'']" "map_option pl_palette (ch_plot ?c) = Some DARK_PALETTE"
    by (simp_all add: mount_chart_def chart_step_def buildChart_def destroyChart_def set_data_def seriesKey_def palette_of_def Let_def)
  then show ?thesis using chart_is_current [OF h, of UnitCpu "[[], []]" False 640] by (auto simp: Let_def split: option.splits)
qed

text \<open>
  A gauge never claims more than it shows. The filled arc is between nothing and the full ring; the trouble segment is drawn exactly when there is trouble and something
  filled, never exceeds the fill and ends where the fill ends; an unknown percentage fills nothing.
\<close>

theorem gauge_never_overclaims:
  "0 \<le> clamped pct \<and> clamped pct \<le> 100 \<and> 0 \<le> alertArc pct alert \<and> alertArc pct alert \<le> clamped pct \<and>
   alertArc pct alert - alertOffset pct alert = clamped pct \<and>
   (0 < alertArc pct alert \<longleftrightarrow> (case alert of None \<Rightarrow> False | Some a \<Rightarrow> 0 < a) \<and> 0 < clamped pct) \<and>
   (case pct of None \<Rightarrow> clamped pct = 0 | Some p \<Rightarrow> if 0 \<le> p \<and> p \<le> 100 then clamped pct = p else True)"
  by (auto simp: clamped_def alertArc_def alertOffset_def MIN_ALERT_ARC_def max_def min_def split: option.split)

text \<open>
  Not knowing is never shown as zero: with an unreadable pod list the pods gauge has no percentage and a dash for the count, and trouble is marked exactly
  when a scan found some.
\<close>

theorem unknown_counts_are_not_zero:
  "case summary_cards dash str problems truncated (Some d) of
     [c, m, p, n] \<Rightarrow>
       (if su_podCount d = None then ga_percent p = None \<and> ga_detail p = dash @ '' / '' @ str (su_podCapacity d) else True) \<and>
       (if su_usedCores d = None then ga_percent c = None else True) \<and> (if su_usedBytes d = None then ga_percent m = None else True) \<and>
       ((ga_alertLabel p = None) = (case problems of None \<Rightarrow> True | Some k \<Rightarrow> k \<le> 0)) \<and>
       (if ga_alertLabel p = None then alertArc (ga_percent p) (ga_alertPercent p) = 0 else True)
   | _ \<Rightarrow> False"
  by (auto simp: summary_cards_def ratio_def alertArc_def Let_def split: option.split)

text \<open>The axis is wide enough for every tick label.\<close>

lemma axis_fits_labels: "v \<in> set vs \<Longrightarrow> labelWidth canvas v + 12 \<le> of_int (yAxisSize canvas (Some vs))"
proof -
  assume v: "v \<in> set vs"
  let ?f = "fold (\<lambda>v widest. max widest (labelWidth canvas v)) vs"
  have "labelWidth canvas v \<le> ?f x" for x
    using v
  proof (induction vs arbitrary: x)
    case (Cons u us)
    have mono: "x \<le> fold (\<lambda>v widest. max widest (labelWidth canvas v)) us x" for x
    proof (induction us arbitrary: x)
      case (Cons u us)
      then show ?case by (metis fold_simps(2) max.boundedE)
    qed simp
    show ?case using Cons mono [of "max x (labelWidth canvas u)"] by auto
  qed simp
  then have "labelWidth canvas v \<le> of_int \<lceil>?f 0\<rceil>" using le_of_int_ceiling order_trans by blast
  then have "labelWidth canvas v + 12 \<le> of_int (\<lceil>?f 0\<rceil> + Y_AXIS_GAP)" by (simp add: Y_AXIS_GAP_def)
  moreover have "of_int (\<lceil>?f 0\<rceil> + Y_AXIS_GAP) \<le> (of_int (yAxisSize canvas (Some vs)) :: rat)"
    using v by (cases vs) (simp_all add: yAxisSize_def)
  ultimately show ?thesis by (rule order_trans)
qed

end
