(* ===== verification/EnvTab.thy ===== *)
theory EnvTab
  imports PodEnv Base64 Chrome Auth Units
begin

text \<open>
  The screens that hold Secret data: the environment tab of a pod (\<^verbatim>\<open>components/pod/PodEnvTab.vue\<close>) and the data panels of a Secret and a
  ConfigMap (\<^verbatim>\<open>components/detail/SecretDataPanel.vue\<close>, \<^verbatim>\<open>ConfigMapDataPanel.vue\<close>, \<^verbatim>\<open>components/ui/ExpandableValue.vue\<close>). The query library keeps
  what a query returned under its key and runs a query only while it is enabled: \<open>et_cache\<close> and \<open>et_asked\<close>, whose keys are among those of the
  store's query cache; when it refetches is up to it (\<open>EnvAsk\<close>). The sessions are those of the auth store, whose operations are events here, so
  what they evict is what the store evicts. \<^verbatim>\<open>auth.isAuthenticated\<close> is a cached computed: \<open>et_signed\<close> is what it last came to, and it is worked out
  again when the sessions, the active context or the mode are assigned, not when the clock passes. \<^verbatim>\<open>localeCompare\<close>, the dash and the ellipsis are
  parameters.
\<close>

section \<open>Sources of the variables\<close>

definition CM_REF :: resource_ref where
  "CM_REF = \<lparr>rr_group = [], rr_version = ''v1'', rr_resource = ''configmaps''\<rparr>"

definition SECRET_REF :: resource_ref where
  "SECRET_REF = \<lparr>rr_group = [], rr_version = ''v1'', rr_resource = ''secrets''\<rparr>"

definition VALUE_THRESHOLD :: nat where "VALUE_THRESHOLD = 200"

record env_pod =
  ep_uid :: "jstring option"
  ep_namespace :: "jstring option"
  ep_spec :: "pod_spec option"

text \<open>\<^verbatim>\<open>fetchMap\<close>: what each request came to, in the order of the names; \<open>Inr None\<close> is an object without data.\<close>

definition fetchMap :: "jstring list \<Rightarrow> (thrown + env_data option) list \<Rightarrow> data_map" where
  "fetchMap names results =
     fold (\<lambda>(n, res). AList.update n (case res of Inl _ \<Rightarrow> None | Inr d \<Rightarrow> Some (case d of Some data \<Rightarrow> data | None \<Rightarrow> []))) (zip names results) []"

definition sourceNames :: "env_pod \<Rightarrow> ref_kind \<Rightarrow> jstring list" where
  "sourceNames pod kind =
     (let (cms, secrets) = collectEnvSourceNames (ep_spec pod) in js_sort str_cmp (if kind = RkConfigMap then cms else secrets))"

record query_key =
  qk_context :: jstring
  qk_namespace :: "jstring option"
  qk_kind :: ref_kind
  qk_names :: "jstring list"

section \<open>State and operations\<close>

record env_tab =
  et_pod :: env_pod
  et_auth :: auth_state
  et_signed :: bool
  et_cache :: "(query_key \<times> data_map) list"
  et_asked :: "query_key list"
  et_revealed :: "jstring list"

text \<open>A key as the query cache holds it, the context at index 1.\<close>

definition query_path :: "query_key \<Rightarrow> jstring list" where
  "query_path k =
     [''podEnvSource'', qk_context k, case qk_namespace k of None \<Rightarrow> ''null'' | Some n \<Rightarrow> CHR 0x22 # n,
      if qk_kind k = RkConfigMap then ''configmaps'' else ''secrets''] @ qk_names k"

definition envSourceQuery :: "env_tab \<Rightarrow> ref_kind \<Rightarrow> query_key" where
  "envSourceQuery t kind =
     \<lparr>qk_context = au_active (et_auth t), qk_namespace = ep_namespace (et_pod t), qk_kind = kind, qk_names = sourceNames (et_pod t) kind\<rparr>"

definition source_text :: "env_source \<Rightarrow> jstring" where
  "source_text s =
     (case es_ref s of Some (kind, name) \<Rightarrow> kind_name kind @ ''/'' @ name | None \<Rightarrow> text_of (es_label s))"

definition type_text :: "container_type \<Rightarrow> jstring" where
  "type_text ct = (case ct of CtInit \<Rightarrow> ''init'' | CtContainer \<Rightarrow> ''container'' | CtEphemeral \<Rightarrow> ''ephemeral'')"

definition rowKey :: "env_row \<Rightarrow> jstring" where
  "rowKey row = join '':'' [type_text (er_type row), er_container row, source_text (er_source row), er_name row]"

definition container_label :: "env_row \<Rightarrow> jstring" where
  "container_label row = (if er_type row = CtContainer then er_container row else er_container row @ '' ('' @ type_text (er_type row) @ '')'')"

definition sourceRoute :: "env_pod \<Rightarrow> env_row \<Rightarrow> route_location option" where
  "sourceRoute pod row =
     (case es_ref (er_source row) of
        None \<Rightarrow> None
      | Some (kind, name) \<Rightarrow> Some (resourceDetailRoute (if kind = RkConfigMap then CM_REF else SECRET_REF) (ep_namespace pod) name))"

text \<open>What assigns one of the refs the computed reads.\<close>

definition store_touched :: "auth_event \<Rightarrow> auth_state \<Rightarrow> auth_state \<Rightarrow> bool" where
  "store_touched e a a' \<longleftrightarrow>
     au_sessions a' \<noteq> au_sessions a \<or> au_active a' \<noteq> au_active a \<or> au_local a' \<noteq> au_local a \<or>
     (case e of EvSetSession _ _ _ _ _ \<Rightarrow> True | _ \<Rightarrow> False)"

text \<open>An operation of the auth store, with the time the computed is read again at, and what it leaves of the query cache.\<close>

definition store_event :: "int \<Rightarrow> auth_event \<Rightarrow> env_tab \<Rightarrow> env_tab" where
  "store_event now e t =
     (let a = auth_step e (et_auth t)
      in t\<lparr>et_auth := a, et_signed := (if store_touched e (et_auth t) a then Auth.isAuthenticated now a else et_signed t),
           et_cache := filter (\<lambda>(k, _). query_path k \<in> set (au_queries a)) (et_cache t),
           et_asked := filter (\<lambda>k. query_path k \<in> set (au_queries a)) (et_asked t)\<rparr>)"

text \<open>The mode is decided before anything is mounted, so \<open>EvLocalAuth\<close> does not happen under an open tab.\<close>

datatype env_event =
    EnvAsk ref_kind
  | EnvAnswer query_key "(thrown + env_data option) list"
  | EnvPod env_pod
  | EnvAuth int auth_event
  | EnvToggle env_row

definition env_step :: "env_event \<Rightarrow> env_tab \<Rightarrow> env_tab" where
  "env_step e t =
     (case e of
        EnvAsk kind \<Rightarrow>
          if et_signed t
          then let k = envSourceQuery t kind
               in t\<lparr>et_asked := k # et_asked t, et_auth := (et_auth t)\<lparr>au_queries := List.insert (query_path k) (au_queries (et_auth t))\<rparr>\<rparr>
          else t
      | EnvAnswer k results \<Rightarrow>
          if k \<in> set (et_asked t)
          then t\<lparr>et_asked := remove1 k (et_asked t), et_cache := AList.update k (fetchMap (qk_names k) results) (et_cache t)\<rparr> else t
      | EnvPod pod \<Rightarrow>
          t\<lparr>et_pod := pod,
            et_revealed := (if ep_uid pod = ep_uid (et_pod t) then et_revealed t else reveal_step rowKey SourceChanged (et_revealed t))\<rparr>
      | EnvAuth now ev \<Rightarrow> (case ev of EvLocalAuth _ \<Rightarrow> t | _ \<Rightarrow> store_event now ev t)
      | EnvToggle row \<Rightarrow> t\<lparr>et_revealed := reveal_step rowKey (Toggle row) (et_revealed t)\<rparr>)"

text \<open>Opened over the store as it is; \<open>now\<close> is when the computed was last read.\<close>

definition new_env_tab :: "env_pod \<Rightarrow> int \<Rightarrow> auth_state \<Rightarrow> env_tab" where
  "new_env_tab pod now a = \<lparr>et_pod = pod, et_auth = a, et_signed = Auth.isAuthenticated now a, et_cache = [], et_asked = [], et_revealed = []\<rparr>"

section \<open>What is shown\<close>

text \<open>\<^verbatim>\<open>ExpandableValue\<close>: past the threshold a value is cut until expanded.\<close>

definition expandable :: "'c list \<Rightarrow> nat \<Rightarrow> bool \<Rightarrow> 'c list \<Rightarrow> 'c list" where
  "expandable ellipsis threshold expanded v = (if threshold < length v \<and> \<not> expanded then take threshold v @ ellipsis else v)"

datatype shown_value = Masked | Decoded code_points | Plain jstring | Note jstring

definition value_cell :: "jstring \<Rightarrow> jstring list \<Rightarrow> env_row \<Rightarrow> shown_value" where
  "value_cell dash revealed row =
     (if er_kind row = EnvSecret
      then (if isRevealed rowKey revealed row then Decoded (decodeBase64Utf8 (ascii (er_value row))) else Masked)
      else if (er_kind row = EnvLiteral \<or> er_kind row = EnvConfigmap) \<and> er_value row \<noteq> [] then Plain (er_value row)
      else Note (if er_value row = [] then dash else er_value row))"

datatype env_shown = SignedOut | LoadingSources | NoVariables | EnvTable "env_row list"

definition env_rows :: "(jstring \<Rightarrow> jstring \<Rightarrow> int) \<Rightarrow> env_tab \<Rightarrow> env_row list option" where
  "env_rows coll t =
     (case (map_of (et_cache t) (envSourceQuery t RkConfigMap), map_of (et_cache t) (envSourceQuery t RkSecret)) of
        (Some cms, Some secrets) \<Rightarrow> Some (buildEnvRows coll (ep_spec (et_pod t)) \<lparr>res_configMaps = cms, res_secrets = secrets\<rparr>)
      | _ \<Rightarrow> None)"

definition env_view :: "(jstring \<Rightarrow> jstring \<Rightarrow> int) \<Rightarrow> env_tab \<Rightarrow> env_shown" where
  "env_view coll t =
     (if \<not> et_signed t then SignedOut
      else case env_rows coll t of None \<Rightarrow> LoadingSources | Some rows \<Rightarrow> if rows = [] then NoVariables else EnvTable rows)"

section \<open>Data panels\<close>

datatype panel_cell = PanelMasked | PanelValue code_points

definition secret_panel :: "jstring list \<Rightarrow> (jstring \<times> code_points) list \<Rightarrow> (jstring \<times> panel_cell) list" where
  "secret_panel revealed data =
     map (\<lambda>(key, v). (key, if isRevealed (\<lambda>k. k) revealed key then PanelValue (decodeBase64Utf8 v) else PanelMasked)) data"

definition base64Size :: "code_points \<Rightarrow> nat" where
  "base64Size b64 =
     (let padding = (if length b64 \<ge> 2 \<and> drop (length b64 - 2) b64 = [PAD, PAD] then 2
                     else if b64 \<noteq> [] \<and> last b64 = PAD then 1 else 0)
      in length b64 * 3 div 4 - padding)"

definition binary_note :: "code_points \<Rightarrow> jstring" where
  "binary_note b64 = ''(binary, '' @ formatBytes (of_nat (base64Size b64)) @ '')''"

section \<open>What is masked does not show\<close>

text \<open>The same sources with every Secret value taken out.\<close>

definition blank_data :: "env_data \<Rightarrow> env_data" where
  "blank_data d = map (\<lambda>(k, _). (k, None)) d"

definition blank_secrets :: "env_resolver \<Rightarrow> env_resolver" where
  "blank_secrets res = res\<lparr>res_secrets := map (\<lambda>(n, d). (n, map_option blank_data d)) (res_secrets res)\<rparr>"

definition blank_row :: "env_row \<Rightarrow> env_row" where
  "blank_row row = (if er_kind row = EnvSecret then row\<lparr>er_value := []\<rparr> else row)"

lemma blank_row_fields [simp]:
  "er_name (blank_row r) = er_name r" "er_container (blank_row r) = er_container r" "er_type (blank_row r) = er_type r"
  "er_source (blank_row r) = er_source r" "er_kind (blank_row r) = er_kind r" "rowKey (blank_row r) = rowKey r"
  by (simp_all add: blank_row_def rowKey_def)

lemma blank_row_key [simp]: "rowKey (row\<lparr>er_value := v\<rparr>) = rowKey row"
  by (simp add: rowKey_def)

lemma blank_fields [simp]:
  "res_configMaps (blank_secrets res) = res_configMaps res"
  "res_secrets (blank_secrets res) = map (\<lambda>(n, d). (n, map_option blank_data d)) (res_secrets res)"
  by (simp_all add: blank_secrets_def)

lemma map_of_blank:
  "map_of (map (\<lambda>(n, d). (n, map_option blank_data d)) m) n = map_option (map_option blank_data) (map_of m n)"
  "map_of (blank_data d) k = map_option (\<lambda>_. None) (map_of d k)" "keys (blank_data d) = keys d"
  by (induction m) (auto simp: blank_data_def map_of_map comp_def case_prod_beta intro: arg_cong)

lemma update_mapped: "w = f v \<Longrightarrow> AList.update k w (map (\<lambda>(k, v). (k, f v)) m) = map (\<lambda>(k, v). (k, f v)) (AList.update k v m)"
  by (induction m) auto

lemma fold_update_mapped:
  "(\<And>k. h k = f (g k)) \<Longrightarrow> fold (\<lambda>k. AList.update (p k) (h k)) ks (map (\<lambda>(k, v). (k, f v)) m) =
     map (\<lambda>(k, v). (k, f v)) (fold (\<lambda>k. AList.update (p k) (g k)) ks m)"
  by (induction ks arbitrary: m) (simp_all add: update_mapped)

abbreviation blank_env :: "env_map \<Rightarrow> env_map" where
  "blank_env \<equiv> map (\<lambda>(k, v). (k, blank_row v))"

lemma blank_rows:
  "placeholder_row ct refKind objName prefix = blank_row (placeholder_row ct refKind objName prefix)"
  "import_row ct n EnvConfigmap refKind objName v = blank_row (import_row ct n EnvConfigmap refKind objName v)"
  "import_row ct n EnvSecret refKind objName (map_option (\<lambda>_. None) v) = blank_row (import_row ct n EnvSecret refKind objName v)"
  by (cases v; simp add: placeholder_row_def import_row_def env_row_of_def blank_row_def text_of_def)+

lemma expand_blank_configmap:
  "expandEnvFrom m objName prefix EnvConfigmap refKind ct (blank_env merged) = blank_env (expandEnvFrom m objName prefix EnvConfigmap refKind ct merged)"
  unfolding expandEnvFrom_def
  by (cases "Option.bind (map_of m objName) (\<lambda>d. d)")
     (simp_all only: option.case update_mapped [where f = blank_row, OF blank_rows(1)] fold_update_mapped [where f = blank_row, OF blank_rows(2)])

lemma bind_blank:
  "Option.bind (map_option (map_option blank_data) x) (\<lambda>d. d) = map_option blank_data (Option.bind x (\<lambda>d. d))"
  by (cases x) auto

lemma expand_blank_secret:
  "expandEnvFrom (map (\<lambda>(n, d). (n, map_option blank_data d)) m) objName prefix EnvSecret refKind ct (blank_env merged) =
   blank_env (expandEnvFrom m objName prefix EnvSecret refKind ct merged)"
  unfolding expandEnvFrom_def map_of_blank(1) bind_blank
  by (cases "Option.bind (map_of m objName) (\<lambda>d. d)")
     (simp_all only: option.case option.map map_of_blank(2,3) update_mapped [where f = blank_row, OF blank_rows(1)] fold_update_mapped [where f = blank_row, OF blank_rows(3)])

lemma import_blank: "import_from (blank_secrets res) ct ef (blank_env m) = blank_env (import_from res ct ef m)"
  by (simp add: import_from_def Let_def expand_blank_configmap expand_blank_secret)

definition blank_resolved :: "resolved \<Rightarrow> resolved" where
  "blank_resolved r = (case r of (kind, v, source) \<Rightarrow> (kind, if kind = EnvSecret then [] else v, source))"

lemma row_blank: "env_row_of ct n (blank_resolved r) = blank_row (env_row_of ct n r)"
  by (cases r) (simp add: env_row_of_def blank_row_def blank_resolved_def)

lemma resolve_key_blank:
  "resolveKeyRef m ref EnvConfigmap refKind = blank_resolved (resolveKeyRef m ref EnvConfigmap refKind)"
  "resolveKeyRef (map (\<lambda>(n, d). (n, map_option blank_data d)) m) ref EnvSecret refKind = blank_resolved (resolveKeyRef m ref EnvSecret refKind)"
  by (simp_all add: resolveKeyRef_def blank_resolved_def Let_def map_of_blank text_of_def split: option.split)

lemma resolve_blank: "env_row_of ct n (resolveEnvVar e (blank_secrets res)) = blank_row (env_row_of ct n (resolveEnvVar e res))"
proof -
  have "resolveEnvVar e (blank_secrets res) = blank_resolved (resolveEnvVar e res)"
  proof (cases "ev_value e = None \<and> (\<exists>vf. ev_from e = Some vf \<and> (vf_configMap vf \<noteq> None \<or> vf_secret vf \<noteq> None))")
    case True
    then show ?thesis
      using resolve_key_blank(1) by (auto simp: resolveEnvVar_def resolve_key_blank(2) split: option.split)
  next
    case False
    then show ?thesis by (auto simp: resolveEnvVar_def blank_resolved_def split: option.split)
  qed
  then show ?thesis by (simp add: row_blank)
qed

lemma merged_blank: "merged_env (blank_secrets res) ct = blank_env (merged_env res ct)"
proof -
  have i: "fold (import_from (blank_secrets res) ct) efs (blank_env m) = blank_env (fold (import_from res ct) efs m)" for efs m
    by (induction efs arbitrary: m) (simp_all add: import_blank)
  have v: "fold (set_var (blank_secrets res) ct) es (blank_env m) = blank_env (fold (set_var res ct) es m)" for es m
  proof (induction es arbitrary: m)
    case (Cons e es)
    have "set_var (blank_secrets res) ct e (blank_env m) = blank_env (set_var res ct e m)"
      by (simp add: set_var_def update_mapped [where f = blank_row, OF resolve_blank])
    then show ?case by (simp add: Cons.IH)
  qed simp
  show ?thesis using i [of _ "[]"] v by (simp add: merged_env_def)
qed

lemma js_sort_mapped: "(\<And>a b. cmp (f a) (f b) = cmp a b) \<Longrightarrow> js_sort cmp (map f xs) = map f (js_sort cmp xs)"
proof (induction xs)
  case (Cons x xs)
  have "js_insert cmp (f x) (map f ys) = map f (js_insert cmp x ys)" for ys
    by (induction ys) (simp_all add: Cons.prems)
  then show ?case using Cons by simp
qed simp

lemma build_blank: "buildEnvRows coll object (blank_secrets res) = map blank_row (buildEnvRows coll object res)"
proof -
  have "concat (map (\<lambda>ct. map snd (merged_env (blank_secrets res) ct)) cts) = map blank_row (concat (map (\<lambda>ct. map snd (merged_env res ct)) cts))" for cts
    by (simp add: merged_blank map_concat comp_def case_prod_beta)
  then show ?thesis by (simp add: buildEnvRows_def js_sort_mapped cmp_then_def)
qed

section \<open>Runs\<close>

text \<open>The operations on the revealed keys that a run of the tab amounts to.\<close>

fun reveal_ops :: "env_tab \<Rightarrow> env_event list \<Rightarrow> env_row reveal_op list" where
  "reveal_ops t [] = []"
| "reveal_ops t (e # es) =
     (case e of EnvToggle row \<Rightarrow> [Toggle row] | EnvPod pod \<Rightarrow> if ep_uid pod = ep_uid (et_pod t) then [] else [SourceChanged] | _ \<Rightarrow> []) @
     reveal_ops (env_step e t) es"

lemma revealed_ops: "et_revealed (fold env_step es t) = fold (reveal_step rowKey) (reveal_ops t es) (et_revealed t)"
proof (induction es arbitrary: t)
  case (Cons e es)
  show ?case by (simp add: Cons.IH) (cases e; simp add: env_step_def Let_def store_event_def split: auth_event.split)
qed simp

text \<open>What every operation of the store does to sessions and query cache: a context that loses its session loses its entries.\<close>

definition evicts :: "auth_state \<Rightarrow> auth_state \<Rightarrow> bool" where
  "evicts a a' \<longleftrightarrow> au_local a' = au_local a \<and> set (au_queries a') \<subseteq> set (au_queries a) \<and>
     (\<forall>c k. c \<in> set (keys (au_sessions a)) \<longrightarrow> c \<notin> set (keys (au_sessions a')) \<longrightarrow> k \<in> set (au_queries a') \<longrightarrow> \<not> query_of_context c k)"

lemma evicts_refl: "au_local a' = au_local a \<Longrightarrow> au_queries a' = au_queries a \<Longrightarrow> set (keys (au_sessions a)) \<subseteq> set (keys (au_sessions a')) \<Longrightarrow> evicts a a'"
  by (auto simp: evicts_def)

lemma evicts_trans: "evicts a b \<Longrightarrow> evicts b c \<Longrightarrow> evicts a c"
proof -
  assume ab: "evicts a b" and bc: "evicts b c"
  have "\<not> query_of_context x k" if x: "x \<in> set (keys (au_sessions a))" "x \<notin> set (keys (au_sessions c))" and k: "k \<in> set (au_queries c)" for x k
  proof (cases "x \<in> set (keys (au_sessions b))")
    case True
    then show ?thesis using bc x(2) k by (simp add: evicts_def)
  next
    case False
    have "k \<in> set (au_queries b)" using bc k by (auto simp: evicts_def)
    then show ?thesis using ab x(1) False by (simp add: evicts_def)
  qed
  then show ?thesis using ab bc by (auto simp: evicts_def)
qed

lemma evicts_clear: "evicts a (clearSession c a)"
  by (auto simp: evicts_def AList.delete_eq)

lemma evicts_set: "evicts a (setSession now c tok i u a)"
proof (rule evicts_refl)
  have "set (keys m) \<subseteq> set (keys (AList.update k v m))" for k v and m :: "(jstring \<times> session) list" by (induction m) auto
  then show "set (keys (au_sessions a)) \<subseteq> set (keys (au_sessions (setSession now c tok i u a)))" by (simp add: setSession_def)
qed (simp_all add: setSession_def)

lemma evicts_prune: "evicts a (fst (pruneExpiredSessions now a))"
proof -
  have "set (keys (au_sessions a)) \<subseteq> set (keys (au_sessions (fst (pruneExpiredSessions now a)))) \<union> set (expired_contexts now a)"
    by (auto simp: pruneExpiredSessions_def Let_def fold_delete image_iff)
  then show ?thesis unfolding evicts_def prune_caches by (auto simp: list_ex_iff)
qed

lemma evicts_active: "evicts a (setActiveContext now n a)"
  unfolding setActiveContext_def by (rule evicts_trans [OF evicts_prune [where now = now]]) (rule evicts_refl, simp_all)

lemma evicts_push: "evicts a b \<Longrightarrow> evicts a (push_route n b)"
  by (rule evicts_trans, assumption) (rule evicts_refl, simp_all)

lemma evicts_recover: "evicts a (snd (recoverFromUnknownContext now route c d a))"
proof -
  have "evicts a (setActiveContext now f (clearSession c a))" for f by (rule evicts_trans [OF evicts_clear evicts_active])
  then show ?thesis by (auto simp: recoverFromUnknownContext_def Let_def intro: evicts_push split: current_route.split)
qed

lemma evicts_handler: "evicts a (run_handler now route d h a)"
proof -
  have r: "evicts a a" by (rule evicts_refl) simp_all
  show ?thesis
    using r evicts_clear evicts_push [OF evicts_clear] evicts_recover
    by (auto simp: run_handler_def logout_def unauthorized_handler_def unknown_context_handler_def Let_def split: handler_call.split)
qed

lemma guard_prunes: "snd (before_each now dest a) = fst (pruneExpiredSessions now a)"
  by (simp add: before_each_def Let_def)

lemma evicts_step: "(case e of EvLocalAuth _ \<Rightarrow> False | _ \<Rightarrow> True) \<Longrightarrow> evicts a (auth_step e a)"
proof (cases e)
  case (EvFailure now route d skip ctx r)
  have "evicts a (fold (run_handler now route d) hs a)" for hs
  proof (induction hs arbitrary: a)
    case (Cons h hs)
    then show ?case using evicts_trans [OF evicts_handler Cons] by simp
  qed (simp add: evicts_refl)
  then show ?thesis using EvFailure by simp
next
  case (EvContextList now route names d)
  have "evicts a a" by (rule evicts_refl) simp_all
  then show ?thesis using EvContextList evicts_active evicts_recover by (simp add: reconcile_contexts_def)
next
  case (EvLocalIdentity i u)
  then show ?thesis by (simp add: setLocalIdentity_def evicts_refl)
next
  case (EvNavigate now dest)
  then show ?thesis using evicts_prune by (simp add: guard_prunes)
qed (simp_all add: evicts_set evicts_active clearActiveSession_def evicts_clear getBearerToken_def Let_def evicts_prune)

text \<open>A context is held while the store has a session for it, or in the local mode, which needs none.\<close>

definition held :: "auth_state \<Rightarrow> jstring \<Rightarrow> bool" where
  "held a ctx \<longleftrightarrow> au_local a \<or> sessionFor (au_sessions a) ctx \<noteq> None"

definition env_inv :: "env_tab \<Rightarrow> bool" where
  "env_inv t \<longleftrightarrow> (if et_signed t then held (et_auth t) (au_active (et_auth t)) else True) \<and>
     list_all (\<lambda>(k, _). held (et_auth t) (qk_context k)) (et_cache t) \<and> list_all (\<lambda>k. held (et_auth t) (qk_context k)) (et_asked t)"

lemma held_keys: "held a ctx \<longleftrightarrow> au_local a \<or> ctx \<in> set (keys (au_sessions a))"
  by (simp add: held_def sessionFor_def map_of_eq_None_iff)

lemma held_evicts: "evicts a a' \<Longrightarrow> held a (qk_context k) \<Longrightarrow> query_path k \<in> set (au_queries a') \<Longrightarrow> held a' (qk_context k)"
proof -
  have "query_of_context (qk_context k) (query_path k)" by (simp add: query_of_context_def query_path_def)
  then show "evicts a a' \<Longrightarrow> held a (qk_context k) \<Longrightarrow> query_path k \<in> set (au_queries a') \<Longrightarrow> held a' (qk_context k)"
    unfolding evicts_def held_keys by blast
qed

lemma env_inv_store:
  assumes inv: "env_inv t" and e: "case e of EvLocalAuth _ \<Rightarrow> False | _ \<Rightarrow> True"
  shows "env_inv (store_event now e t)"
proof -
  let ?a = "auth_step e (et_auth t)"
  note ev = evicts_step [OF e, of "et_auth t"]
  have l: "au_local ?a = au_local (et_auth t)" using ev by (simp add: evicts_def)
  have signed: "held ?a (au_active ?a)" if "Auth.isAuthenticated now ?a"
    using that by (auto simp: Auth.isAuthenticated_def hasSession_def held_def split: if_splits option.splits)
  have same: "held ?a (au_active ?a)" if "\<not> store_touched e (et_auth t) ?a" "et_signed t"
    using that inv l by (simp add: store_touched_def env_inv_def held_def)
  show ?thesis using inv signed same held_evicts [OF ev]
    by (auto simp: env_inv_def store_event_def Let_def list_all_iff)
qed

lemma env_inv_step: "env_inv t \<Longrightarrow> env_inv (env_step e t)"
proof (cases e)
  case (EnvAnswer k results)
  have "set (AList.update k v c) \<subseteq> insert (k, v) (set c)" for v and c :: "(query_key \<times> data_map) list" by (induction c) auto
  moreover have "set (remove1 k ks) \<subseteq> set ks" for ks :: "query_key list" by (rule set_remove1_subset)
  moreover assume "env_inv t"
  ultimately show ?thesis unfolding EnvAnswer env_step_def env_inv_def list_all_iff by (simp, blast)
next
  case (EnvAuth now ev)
  assume "env_inv t"
  then show ?thesis using env_inv_store [of t ev now] by (cases ev) (simp_all add: EnvAuth env_step_def)
qed (auto simp: env_step_def env_inv_def list_all_iff envSourceQuery_def Let_def held_def)

lemma run_env_inv: "env_inv (fold env_step es (new_env_tab pod now a))"
proof -
  have "env_inv t \<Longrightarrow> env_inv (fold env_step es t)" for t
    by (induction es arbitrary: t) (simp_all add: env_inv_step)
  moreover have "env_inv (new_env_tab pod now a)"
    by (auto simp: env_inv_def new_env_tab_def Auth.isAuthenticated_def hasSession_def held_def split: if_splits option.splits)
  ultimately show ?thesis by blast
qed

text \<open>After a prune no session left has run out.\<close>

definition live :: "int \<Rightarrow> auth_state \<Rightarrow> jstring \<Rightarrow> bool" where
  "live now a ctx \<longleftrightarrow> au_local a \<or> (case sessionFor (au_sessions a) ctx of Some s \<Rightarrow> \<not> isSessionExpired now s | None \<Rightarrow> False)"

lemma pruned_live: "sessionFor (au_sessions (fst (pruneExpiredSessions now a))) ctx = Some s \<Longrightarrow> \<not> isSessionExpired now s"
proof -
  have del: "map_of (filter (\<lambda>(k, v). k \<notin> ks) m) ctx = (if ctx \<in> ks then None else map_of m ctx)" for ks and m :: "(jstring \<times> session) list"
    by (induction m) auto
  have key: "map_of m ctx = Some s \<Longrightarrow> ctx \<in> set (keys m)" for m :: "(jstring \<times> session) list" by (force dest: map_of_SomeD)
  have e: "fst (pruneExpiredSessions now a) = a" if "expired_contexts now a = []" using that by (simp add: pruneExpiredSessions_def)
  have f: "au_sessions (fst (pruneExpiredSessions now a)) = filter (\<lambda>(k, v). k \<notin> set (expired_contexts now a)) (au_sessions a)"
    if "expired_contexts now a \<noteq> []" using that by (simp add: pruneExpiredSessions_def Let_def fold_delete)
  assume s: "sessionFor (au_sessions (fst (pruneExpiredSessions now a))) ctx = Some s"
  then have m: "map_of (au_sessions a) ctx = Some s \<and> ctx \<notin> set (expired_contexts now a)"
    using e f by (cases "expired_contexts now a = []") (auto simp: sessionFor_def del split: if_splits)
  then have "ctx \<in> set (keys (au_sessions a))" using key by blast
  then show ?thesis using m by (auto simp: expired_contexts_def sessionFor_def)
qed

lemma looked_live: "e \<in> set [EvTokenFetch now, EvNavigate now dest, EvSwitch now c] \<Longrightarrow> held (auth_step e a) ctx \<Longrightarrow> live now (auth_step e a) ctx"
  using pruned_live by (auto simp: live_def held_def getBearerToken_def guard_prunes setActiveContext_def Let_def split: option.split)

section \<open>Properties\<close>

text \<open>
  C12. Masked means absent: as long as a row is not revealed, nothing the table shows of it - its name, container, source, value cell and place in the order -
  depends on a Secret's values. The unrevealed rows are the same as over sources with every Secret value taken out.
\<close>

theorem masked_rows_hide_secrets:
  "map (\<lambda>row. (rowKey row, container_label row, sourceRoute pod row, value_cell dash revealed row))
     (filter (\<lambda>row. \<not> isRevealed rowKey revealed row) (buildEnvRows coll object res)) =
   map (\<lambda>row. (rowKey row, container_label row, sourceRoute pod row, value_cell dash revealed row))
     (filter (\<lambda>row. \<not> isRevealed rowKey revealed row) (buildEnvRows coll object (blank_secrets res)))"
proof -
  have "value_cell dash revealed (blank_row row) = value_cell dash revealed row" if "\<not> isRevealed rowKey revealed row" for row
    using that by (simp add: value_cell_def isRevealed_def blank_row_def)
  then show ?thesis
    by (simp add: build_blank filter_map comp_def container_label_def sourceRoute_def isRevealed_def)
qed

text \<open>
  C13. A Secret's value is on screen only because it was asked for, and not past the end of its session: a decoded cell means that its row was toggled an odd number of times
  since the pod shown last became another one; a table is shown only while the store holds a session for the active context, or in the local kubeconfig mode; and whatever was
  fetched of a context, or is being fetched, is gone from the cache with its session, whether by sign-out, a 401, a vanished context or a prune. A session that merely runs out is
  noticed the next time the store looks - the next token fetch, navigation or switch: after it neither the screen nor the cache has anything of a session expired by then.
\<close>

theorem secret_values_are_guarded:
  "let t = fold env_step es (new_env_tab pod opened a) in
    (case value_cell dash (et_revealed t) row of Decoded _ \<Rightarrow> odd (toggles_since rowKey (rowKey row) (reveal_ops (new_env_tab pod opened a) es)) | _ \<Rightarrow> True) \<and>
    (case env_view coll t of SignedOut \<Rightarrow> True | _ \<Rightarrow> held (et_auth t) (au_active (et_auth t))) \<and>
    list_all (\<lambda>(k, _). held (et_auth t) (qk_context k)) (et_cache t) \<and> list_all (\<lambda>k. held (et_auth t) (qk_context k)) (et_asked t) \<and>
    list_all (\<lambda>e. let t' = env_step (EnvAuth rd e) t in
        (case env_view coll t' of SignedOut \<Rightarrow> True | _ \<Rightarrow> live now (et_auth t') (au_active (et_auth t'))) \<and>
        list_all (\<lambda>(k, _). live now (et_auth t') (qk_context k)) (et_cache t') \<and> list_all (\<lambda>k. live now (et_auth t') (qk_context k)) (et_asked t'))
      [EvTokenFetch now, EvNavigate now dest, EvSwitch now c]"
proof -
  let ?t = "fold env_step es (new_env_tab pod opened a)"
  have r: "isRevealed rowKey (et_revealed ?t) row \<longleftrightarrow> odd (toggles_since rowKey (rowKey row) (reveal_ops (new_env_tab pod opened a) es))"
    unfolding revealed_ops by (simp add: new_env_tab_def revealed_by_this_user_choice)
  have v: "env_view coll t = SignedOut \<or> et_signed t" for t by (simp add: env_view_def)
  have inv: "env_inv ?t" by (rule run_env_inv)
  have looked: "(case env_view coll t' of SignedOut \<Rightarrow> True | _ \<Rightarrow> live now (et_auth t') (au_active (et_auth t'))) \<and>
      list_all (\<lambda>(k, _). live now (et_auth t') (qk_context k)) (et_cache t') \<and> list_all (\<lambda>k. live now (et_auth t') (qk_context k)) (et_asked t')"
    if e: "e \<in> set [EvTokenFetch now, EvNavigate now dest, EvSwitch now c]" and t': "t' = env_step (EnvAuth rd e) ?t" for e t'
  proof -
    have a': "et_auth t' = auth_step e (et_auth ?t)" using e t' by (auto simp: env_step_def store_event_def Let_def)
    have "env_inv t'" unfolding t' by (rule env_inv_step [OF inv])
    then show ?thesis using looked_live [OF e, of "et_auth ?t"] v [of t'] unfolding a' [symmetric]
      by (auto simp: env_inv_def list_all_iff split: env_shown.split)
  qed
  then have all: "list_all (\<lambda>e. let t' = env_step (EnvAuth rd e) ?t in
        (case env_view coll t' of SignedOut \<Rightarrow> True | _ \<Rightarrow> live now (et_auth t') (au_active (et_auth t'))) \<and>
        list_all (\<lambda>(k, _). live now (et_auth t') (qk_context k)) (et_cache t') \<and> list_all (\<lambda>k. live now (et_auth t') (qk_context k)) (et_asked t'))
      [EvTokenFetch now, EvNavigate now dest, EvSwitch now c]"
    unfolding list_all_iff Let_def by blast
  have "case value_cell dash (et_revealed ?t) row of Decoded _ \<Rightarrow> odd (toggles_since rowKey (rowKey row) (reveal_ops (new_env_tab pod opened a) es)) | _ \<Rightarrow> True"
    using r by (simp add: value_cell_def)
  moreover have "case env_view coll ?t of SignedOut \<Rightarrow> True | _ \<Rightarrow> held (et_auth ?t) (au_active (et_auth ?t))"
    using inv v [of ?t] by (auto simp: env_inv_def split: env_shown.split)
  ultimately show ?thesis using inv all unfolding Let_def env_inv_def by blast
qed

text \<open>The size a panel notes for binary data is the size of the data.\<close>

lemma base64Size_exact: "is_bytes bs \<Longrightarrow> base64Size (bytesToBase64 bs) = length bs"
proof -
  assume bs: "is_bytes bs"
  let ?s = "map b64_char (btoa_sextets bs)"
  have plain: "c \<noteq> PAD" if "c \<in> set ?s" for c
    using that sextets_small [OF bs] b64_char_plain by (auto simp: list_all_iff)
  have "length ?s + pads bs = 4 * ((length bs + 2) div 3)" using sextets_length(1) [of bs] by simp
  moreover have "(let b64 = ?s @ replicate (pads bs) PAD in
      (if length b64 \<ge> 2 \<and> drop (length b64 - 2) b64 = [PAD, PAD] then 2 else if b64 \<noteq> [] \<and> last b64 = PAD then 1 else 0)) = pads bs"
  proof -
    consider "pads bs = 0" | "pads bs = 1" | "pads bs = 2" using sextets_length(3) [of bs] by linarith
    then show ?thesis
    proof cases
      case 1
      have "last ?s \<noteq> PAD" if "?s \<noteq> []" using plain last_in_set [OF that] by blast
      moreover have "drop (length ?s - 2) ?s \<noteq> [PAD, PAD]" using plain in_set_dropD [of PAD "length ?s - 2" ?s] by fastforce
      ultimately show ?thesis using 1 by (auto simp: Let_def)
    next
      case 2
      have "drop (length (?s @ [PAD]) - 2) (?s @ [PAD]) \<noteq> [PAD, PAD]"
        using plain in_set_dropD [of PAD "length ?s - 1" ?s] by (cases "drop (length ?s - 1) ?s") auto
      then show ?thesis using 2 by (simp add: Let_def)
    next
      case 3
      then show ?thesis by (simp add: Let_def numeral_2_eq_2)
    qed
  qed
  ultimately have "base64Size (bytesToBase64 bs) = 4 * ((length bs + 2) div 3) * 3 div 4 - pads bs"
    by (simp add: base64Size_def bytesToBase64_def btoa_split Let_def)
  moreover have "4 * k * 3 div 4 = 3 * k" for k :: nat by simp
  ultimately show ?thesis by (simp add: pads_def) presburger
qed

end
