(* ===== verification/Login.thy ===== *)
theory Login
  imports Auth Writes
begin

text \<open>
  The sign-in page (\<^verbatim>\<open>pages/LoginPage.vue\<close>) over the auth store: picking a context, verifying a token, and where to land. The answer of the verify
  request settles as an event; its submit button is disabled while one is out, and with it the submission of the form. The clock is an argument, the
  parameter \<open>redirect\<close> is the query parameter when it is a single string.
\<close>

section \<open>Where to land\<close>

definition redirect_ok :: "jstring \<Rightarrow> bool" where
  "redirect_ok r \<longleftrightarrow> (case r of c # rest \<Rightarrow> c = CHR ''/'' \<and> (case rest of d # _ \<Rightarrow> d \<noteq> CHR ''/'' \<and> d \<noteq> CHR 0x5C | [] \<Rightarrow> True) | [] \<Rightarrow> False)"

definition redirectTarget :: "jstring option \<Rightarrow> jstring" where
  "redirectTarget redirect = (case redirect of Some r \<Rightarrow> if redirect_ok r then r else ''/overview'' | None \<Rightarrow> ''/overview'')"

section \<open>State and operations\<close>

record verify_response =
  vr_identity :: "identity option"
  vr_unavailable :: "bool option"
  vr_context :: "jstring option"

text \<open>\<open>lg_out\<close> is the verify request that is out: the token and the context asked. \<open>lg_pushed\<close> are the routes pushed; \<open>lg_stored\<close> records each
  session stored with the request and the answer it comes from.\<close>

record login_page =
  lg_auth :: auth_state
  lg_token :: jstring
  lg_error :: "jstring option"
  lg_loading :: bool
  lg_out :: "(jstring \<times> jstring option) option"
  lg_pushed :: "jstring list"
  lg_stored :: "(jstring \<times> jstring \<times> jstring option \<times> jstring option) list"

definition targetContext :: "login_page \<Rightarrow> jstring option" where
  "targetContext p = (if au_active (lg_auth p) \<noteq> [] then Some (au_active (lg_auth p)) else None)"

definition login_items :: "int \<Rightarrow> jstring list \<Rightarrow> login_page \<Rightarrow> context_item list" where
  "login_items now names p =
     contextItems (names @ signedInContexts now (lg_auth p) @ [au_active (lg_auth p)]) (\<lambda>name. hasSession now name (lg_auth p))"

definition login_pick :: "int \<Rightarrow> jstring option \<Rightarrow> jstring \<Rightarrow> login_page \<Rightarrow> login_page" where
  "login_pick now redirect name p =
     (if lg_loading p \<or> name = au_active (lg_auth p) then p
      else let a = setActiveContext now name (lg_auth p); p1 = p\<lparr>lg_auth := a, lg_error := None\<rparr>
           in if Auth.isAuthenticated now a then p1\<lparr>lg_pushed := lg_pushed p1 @ [redirectTarget redirect]\<rparr> else p1)"

definition login_submit :: "login_page \<Rightarrow> login_page" where
  "login_submit p =
     (if lg_loading p then p
      else let candidate = trim (lg_token p)
           in if candidate = [] then p\<lparr>lg_error := Some ''Paste a Kubernetes bearer token.''\<rparr>
              else p\<lparr>lg_loading := True, lg_error := None, lg_out := Some (candidate, targetContext p)\<rparr>)"

definition verify_error :: "thrown \<Rightarrow> jstring" where
  "verify_error e =
     (case e of
        ApiError status msg _ \<Rightarrow>
          if status = 401 then ''The token was rejected by the cluster (401). Check that it is valid and not expired.''
          else ''Cannot verify the token: '' @ msg
      | OtherError _ \<Rightarrow> ''Cannot reach the backend.'')"

definition verify_settles :: "int \<Rightarrow> jstring option \<Rightarrow> thrown + verify_response \<Rightarrow> login_page \<Rightarrow> login_page" where
  "verify_settles now redirect r p =
     (case lg_out p of
        None \<Rightarrow> p
      | Some (candidate, asked) \<Rightarrow>
          (case r of
             Inl e \<Rightarrow> p\<lparr>lg_out := None, lg_error := Some (verify_error e), lg_loading := False\<rparr>
           | Inr result \<Rightarrow>
               (let ctx = (case vr_context result of Some c \<Rightarrow> c | None \<Rightarrow> (case targetContext p of Some c \<Rightarrow> c | None \<Rightarrow> []))
                in p\<lparr>lg_out := None,
                     lg_auth := setSession now ctx candidate (vr_identity result) (vr_unavailable result = Some True) (lg_auth p),
                     lg_token := [], lg_pushed := lg_pushed p @ [redirectTarget redirect], lg_loading := False,
                     lg_stored := (ctx, candidate, asked, vr_context result) # lg_stored p\<rparr>)))"

datatype login_event =
    LgType jstring
  | LgPick int jstring
  | LgSubmit
  | LgVerified int "thrown + verify_response"

definition login_step :: "jstring option \<Rightarrow> login_event \<Rightarrow> login_page \<Rightarrow> login_page" where
  "login_step redirect e p =
     (case e of
        LgType s \<Rightarrow> p\<lparr>lg_token := s\<rparr>
      | LgPick now name \<Rightarrow> login_pick now redirect name p
      | LgSubmit \<Rightarrow> login_submit p
      | LgVerified now r \<Rightarrow> verify_settles now redirect r p)"

definition open_login :: "auth_state \<Rightarrow> login_page" where
  "open_login a = \<lparr>lg_auth = a, lg_token = [], lg_error = None, lg_loading = False, lg_out = None, lg_pushed = [], lg_stored = []\<rparr>"

section \<open>The invariant\<close>

text \<open>Where a route may point, position by position: it begins with a slash, and what comes second, if anything does, is neither of the two characters
  a browser reads as the slash of a host.\<close>

definition own_path :: "jstring \<Rightarrow> bool" where
  "own_path r \<longleftrightarrow> take 1 r = ''/'' \<and> take 2 r \<notin> {''/'' @ [c] | c. c = CHR 0x2F \<or> c = CHR 0x5C}"

text \<open>What the user is sent to: what was asked for when that is such a path, the overview otherwise.\<close>

definition landing :: "jstring option \<Rightarrow> jstring \<Rightarrow> bool" where
  "landing redirect r \<longleftrightarrow> own_path r \<and> (case redirect of Some q \<Rightarrow> r = (if own_path q then q else ''/overview'') | None \<Rightarrow> r = ''/overview'')"

lemma own_path_test: "own_path r = redirect_ok r"
  by (cases r; cases "tl r") (auto simp: own_path_def redirect_ok_def)

lemma redirectTarget_lands: "landing redirect (redirectTarget redirect)"
proof -
  have "own_path ''/overview''" by (simp add: own_path_test redirect_ok_def)
  then show ?thesis by (simp add: landing_def redirectTarget_def own_path_test split: option.split)
qed

text \<open>A session is accounted for when it is one the page was opened with, or one a verification stored.\<close>

definition accounted :: "auth_state \<Rightarrow> login_page \<Rightarrow> bool" where
  "accounted a p \<longleftrightarrow>
     list_all (\<lambda>(n, s). (n, s) \<in> set (au_sessions a) \<or> list_ex (\<lambda>(ctx, tok, _, _). ctx = n \<and> tok = ss_token s) (lg_stored p)) (au_sessions (lg_auth p))"

lemma deleted_subset: "set (fold AList.delete ks m) \<subseteq> set m"
proof (induction ks arbitrary: m)
  case (Cons k ks)
  have "set (AList.delete k m) \<subseteq> set m" by (auto simp: AList.delete_eq)
  then show ?case using Cons [of "AList.delete k m"] by auto
qed simp

lemma picked_sessions: "set (au_sessions (setActiveContext now name st)) \<subseteq> set (au_sessions st)"
  using deleted_subset by (auto simp: setActiveContext_def pruneExpiredSessions_def Let_def)

lemma updated_subset: "x \<in> set (AList.update k v m) \<Longrightarrow> x = (k, v) \<or> x \<in> set m"
  by (induction m) (auto split: if_splits)

text \<open>The context a session belongs under: the one the answer names, or else the one asked.\<close>

definition answered_context :: "jstring option \<Rightarrow> jstring option \<Rightarrow> jstring" where
  "answered_context asked answered = (case answered of Some c \<Rightarrow> c | None \<Rightarrow> (case asked of Some c \<Rightarrow> c | None \<Rightarrow> []))"

lemma answered_simps [simp]:
  "answered_context asked (Some c) = c" "answered_context (Some c) None = c" "answered_context None None = []"
  by (simp_all add: answered_context_def)

definition login_inv :: "jstring option \<Rightarrow> auth_state \<Rightarrow> login_page \<Rightarrow> bool" where
  "login_inv redirect a p \<longleftrightarrow>
     (case lg_out p of None \<Rightarrow> \<not> lg_loading p | Some (_, asked) \<Rightarrow> lg_loading p \<and> asked = targetContext p) \<and>
     list_all (\<lambda>(ctx, _, asked, answered). ctx = answered_context asked answered) (lg_stored p) \<and>
     list_all (landing redirect) (lg_pushed p) \<and> accounted a p"

definition login_rest :: "jstring option \<Rightarrow> login_page \<Rightarrow> bool" where
  "login_rest redirect p \<longleftrightarrow>
     (case lg_out p of None \<Rightarrow> \<not> lg_loading p | Some (_, asked) \<Rightarrow> lg_loading p \<and> asked = targetContext p) \<and>
     list_all (\<lambda>(ctx, _, asked, answered). ctx = answered_context asked answered) (lg_stored p) \<and>
     list_all (landing redirect) (lg_pushed p)"

lemma login_inv_parts: "login_inv redirect a p \<longleftrightarrow> login_rest redirect p \<and> accounted a p"
  by (simp add: login_inv_def login_rest_def)

lemma accounted_step: "accounted a p \<Longrightarrow> accounted a (login_step redirect e p)"
proof (cases e)
  case (LgPick now name)
  assume "accounted a p"
  then show ?thesis using picked_sessions [of now name "lg_auth p"]
    by (auto simp: LgPick login_step_def login_pick_def Let_def accounted_def list_all_iff)
next
  case (LgVerified now r)
  assume acc: "accounted a p"
  show ?thesis
  proof (cases "lg_out p")
    case (Some c)
    then show ?thesis using acc
      by (cases r) (auto simp: LgVerified login_step_def verify_settles_def Let_def accounted_def list_all_iff setSession_def case_prod_beta dest!: updated_subset)
  qed (use acc in \<open>simp add: LgVerified login_step_def verify_settles_def\<close>)
qed (simp_all add: login_step_def login_submit_def accounted_def Let_def)

lemma login_rest_step: "login_rest redirect p \<Longrightarrow> login_rest redirect (login_step redirect e p)"
proof (cases e)
  case (LgPick now name)
  assume inv: "login_rest redirect p"
  show ?thesis
  proof (cases "lg_loading p \<or> name = au_active (lg_auth p)")
    case False
    then have "lg_out p = None" using inv by (auto simp: login_rest_def split: option.splits)
    then show ?thesis using inv False
      by (simp add: LgPick login_step_def login_pick_def login_rest_def Let_def redirectTarget_lands)
  qed (use inv in \<open>simp add: LgPick login_step_def login_pick_def\<close>)
next
  case LgSubmit
  assume inv: "login_rest redirect p"
  have "targetContext (p\<lparr>lg_loading := True, lg_error := None, lg_out := x\<rparr>) = targetContext p" for x by (simp add: targetContext_def)
  then show ?thesis using inv by (auto simp: LgSubmit login_step_def login_submit_def login_rest_def targetContext_def Let_def split: option.splits)
next
  case (LgVerified now r)
  assume inv: "login_rest redirect p"
  then show ?thesis
    by (auto simp: LgVerified login_step_def verify_settles_def login_rest_def Let_def redirectTarget_lands split: option.splits sum.splits)
qed (auto simp: login_step_def login_rest_def targetContext_def split: option.splits)

lemma login_inv_step: "login_inv redirect a p \<Longrightarrow> login_inv redirect a (login_step redirect e p)"
  by (simp add: login_inv_parts login_rest_step accounted_step)

lemma run_login_inv: "login_inv redirect a (fold (login_step redirect) es (open_login a))"
proof -
  have "login_inv redirect a p \<Longrightarrow> login_inv redirect a (fold (login_step redirect) es p)" for p
    by (induction es arbitrary: p) (simp_all add: login_inv_step)
  moreover have "login_inv redirect a (open_login a)" by (auto simp: login_inv_def open_login_def accounted_def list_all_iff)
  ultimately show ?thesis by blast
qed

section \<open>Properties\<close>

text \<open>
  C11. A token is kept only for the cluster that accepted it: whatever is typed, picked and submitted in whatever order, and however late the answers come, every session the page
  holds was there before or was stored under the context the backend says it verified the token against, or without one under the context asked; while a
  request is out the page stays on the context it was made for. Every route pushed is the redirect asked for when that begins with one slash that neither a second slash nor a
  backslash follows, and the overview otherwise. (Only these two characters are looked at; what a URL parser drops between them is a finding.)
\<close>

theorem token_lands_where_verified:
  "let p = fold (login_step redirect) es (open_login a) in
    accounted a p \<and> list_all (\<lambda>(ctx, _, asked, answered). ctx = answered_context asked answered) (lg_stored p) \<and>
    (case lg_out p of None \<Rightarrow> \<not> lg_loading p | Some (_, asked) \<Rightarrow> lg_loading p \<and> asked = targetContext p) \<and>
    list_all (landing redirect) (lg_pushed p)"
  using run_login_inv [of redirect a es] by (simp add: login_inv_def Let_def)

text \<open>
  What a verification does: accepted, the token is the active session's, the user is signed in and lands; refused, no session, no active context and no cache changes, nothing is pushed, and
  the page says why - and in both cases the form can be used again.
\<close>

theorem verification_outcomes:
  assumes "lg_out p = Some (candidate, asked)" "\<not> au_local (lg_auth p)" "candidate \<noteq> []"
    and "0 < now + SESSION_TTL_MS"
  shows "\<not> lg_loading (verify_settles now redirect r p) \<and>
    (case r of
       Inl e \<Rightarrow> lg_auth (verify_settles now redirect r p) = lg_auth p \<and> lg_pushed (verify_settles now redirect r p) = lg_pushed p \<and>
         lg_error (verify_settles now redirect r p) = Some (verify_error e) \<and> lg_token (verify_settles now redirect r p) = lg_token p
     | Inr result \<Rightarrow> auth_token (lg_auth (verify_settles now redirect r p)) = Some candidate \<and>
         Auth.isAuthenticated now (lg_auth (verify_settles now redirect r p)) \<and> lg_token (verify_settles now redirect r p) = [] \<and>
         (case vr_context result of Some c \<Rightarrow> au_active (lg_auth (verify_settles now redirect r p)) = c | None \<Rightarrow> True))"
  using assms
  by (auto simp: verify_settles_def Let_def setSession_def auth_token_def active_session_def sessionFor_def Auth.isAuthenticated_def hasSession_def
      isSessionExpired_def SESSION_TTL_MS_def update_conv' split: sum.split option.split)

theorem verification_outcomes_witness:
  "let p = login_submit ((open_login (sample_state ''prod'' []))\<lparr>lg_token := '' tok ''\<rparr>);
       q = verify_settles 5 None (Inr \<lparr>vr_identity = None, vr_unavailable = None, vr_context = Some ''prod''\<rparr>) p in
    auth_token (lg_auth q) = Some ''tok'' \<and> au_active (lg_auth q) = ''prod''"
proof -
  let ?p = "login_submit ((open_login (sample_state ''prod'' []))\<lparr>lg_token := '' tok ''\<rparr>)"
  have "trim '' tok '' = ''tok''" by (simp add: trim_def is_space_def)
  then have "lg_out ?p = Some (''tok'', Some ''prod'')" "\<not> au_local (lg_auth ?p)"
    by (simp_all add: login_submit_def open_login_def sample_state_def targetContext_def)
  from verification_outcomes [OF this, of 5 None "Inr \<lparr>vr_identity = None, vr_unavailable = None, vr_context = Some ''prod''\<rparr>"]
  show ?thesis by (simp add: SESSION_TTL_MS_def)
qed

text \<open>The context being signed into is always among the rows, and a context with a session is marked.\<close>

lemma login_lists_target: "au_active (lg_auth p) \<noteq> [] \<Longrightarrow> au_active (lg_auth p) \<in> set (map ci_name (login_items now names p))"
  by (force simp: login_items_def contextItems_def)

text \<open>The test looks at two characters only: a tab between the slashes passes it, and a browser's URL parser drops tabs.\<close>

lemma tab_passes_redirect_test:
  "redirectTarget (Some (''/'' @ [CHR 0x09] @ ''/evil.example'')) = ''/'' @ [CHR 0x09] @ ''/evil.example''"
  by (simp add: redirectTarget_def redirect_ok_def)

end
