(* ===== verification/Overview.thy ===== *)
theory Overview
  imports FieldTree Chrome Catalog KubeApi EnvTab
begin

text \<open>
  The overview tab of the detail page (\<^verbatim>\<open>components/detail/OverviewTab.vue\<close>): which panels it has, its spec and status trees with their compact
  and raw switches, the conditions table (\<^verbatim>\<open>ConditionsTable.vue\<close>), the metadata card (\<^verbatim>\<open>MetadataCard.vue\<close>) and the renderer of a field tree
  (\<^verbatim>\<open>ObjectFieldTree.vue\<close>), whose every instance keeps its own toggles. An object is its members and its typed metadata; \<open>pretty\<close> is
  \<^verbatim>\<open>JSON.stringify(value, null, 2)\<close>, \<open>parse\<close> is \<^verbatim>\<open>JSON.parse\<close>.
\<close>

section \<open>Panels\<close>

record overview_object =
  oo_members :: "(jstring \<times> json) list"
  oo_meta :: object_meta

definition core_kind :: "jstring \<Rightarrow> overview_object \<Rightarrow> bool" where
  "core_kind kind x \<longleftrightarrow>
     map_of (oo_members x) ''kind'' = Some (JStr kind) \<and>
     (case map_of (oo_members x) ''apiVersion'' of None \<Rightarrow> True | Some JNull \<Rightarrow> True | Some v \<Rightarrow> v = JStr ''v1'')"

definition overview_isSecret :: "overview_object \<Rightarrow> bool" where "overview_isSecret x = core_kind ''Secret'' x"
definition overview_isConfigMap :: "overview_object \<Rightarrow> bool" where "overview_isConfigMap x = core_kind ''ConfigMap'' x"
definition overview_isNode :: "overview_object \<Rightarrow> bool" where "overview_isNode x = core_kind ''Node'' x"

definition detailNodes :: "tree_env \<Rightarrow> overview_object \<Rightarrow> field_node list" where
  "detailNodes env x = (case topLevelFields (oo_members x) of None \<Rightarrow> [] | Some rest \<Rightarrow> buildFieldTree env (JObj rest) [])"

definition compactJson :: "(json \<Rightarrow> jstring) \<Rightarrow> json option \<Rightarrow> jstring" where
  "compactJson pretty v = (case v of None \<Rightarrow> [] | Some j \<Rightarrow> if j = JNull then [] else pretty j)"

section \<open>Spec and status\<close>

record overview_tab =
  ov_rawSpec :: bool
  ov_rawStatus :: bool
  ov_compactSpec :: bool
  ov_compactStatus :: bool

definition new_overview :: overview_tab where
  "new_overview = \<lparr>ov_rawSpec = False, ov_rawStatus = False, ov_compactSpec = True, ov_compactStatus = True\<rparr>"

text \<open>A member that is absent builds no tree.\<close>

definition specResult :: "json_parser \<Rightarrow> overview_tab \<Rightarrow> overview_object \<Rightarrow> compact_result option" where
  "specResult parse t x =
     map_option (\<lambda>spec. if ov_compactSpec t then compactSpec parse spec (om_annotations (oo_meta x)) (om_managed (oo_meta x))
                        else \<lparr>co_value = spec, co_filtered = False, co_source = NoSource\<rparr>) (map_of (oo_members x) ''spec'')"

definition specNodes :: "tree_env \<Rightarrow> json_parser \<Rightarrow> overview_tab \<Rightarrow> overview_object \<Rightarrow> field_node list" where
  "specNodes env parse t x = (case specResult parse t x of None \<Rightarrow> [] | Some r \<Rightarrow> buildFieldTree env (co_value r) [])"

text \<open>The badge says what is hidden, whenever something may be.\<close>

definition specBadge :: "json_parser \<Rightarrow> overview_tab \<Rightarrow> overview_object \<Rightarrow> compact_source option" where
  "specBadge parse t x =
     (case specResult parse t x of
        None \<Rightarrow> None
      | Some r \<Rightarrow> if \<not> ov_rawSpec t \<and> ov_compactSpec t \<and> co_filtered r then Some (co_source r) else None)"

definition CONDITION_TABLE_KEYS :: "jstring list" where
  "CONDITION_TABLE_KEYS = [''type'', ''status'', ''reason'', ''lastTransitionTime'', ''message'']"

definition overview_status :: "overview_object \<Rightarrow> json option" where
  "overview_status x = map_of (oo_members x) ''status''"

definition status_conditions :: "overview_object \<Rightarrow> json list option" where
  "status_conditions x = (case Option.bind (overview_status x) (jget ''conditions'') of Some (JArr cs) \<Rightarrow> Some cs | _ \<Rightarrow> None)"

definition conditionsFullyShown :: "overview_object \<Rightarrow> bool" where
  "conditionsFullyShown x =
     (case status_conditions x of
        None \<Rightarrow> False
      | Some cs \<Rightarrow> list_all (\<lambda>c. case c of JObj m \<Rightarrow> list_all (\<lambda>k. k \<in> set CONDITION_TABLE_KEYS) (keys m) | _ \<Rightarrow> False) cs)"

definition statusNodes :: "tree_env \<Rightarrow> overview_tab \<Rightarrow> overview_object \<Rightarrow> field_node list" where
  "statusNodes env t x =
     (case overview_status x of
        None \<Rightarrow> []
      | Some s \<Rightarrow> buildFieldTree env (if ov_compactStatus t then pruneEmpty s else s) (if conditionsFullyShown x then [''conditions''] else []))"

definition showStatusSection :: "tree_env \<Rightarrow> (json \<Rightarrow> jstring) \<Rightarrow> overview_tab \<Rightarrow> overview_object \<Rightarrow> bool" where
  "showStatusSection env pretty t x \<longleftrightarrow>
     compactJson pretty (overview_status x) \<noteq> [] \<and> \<not> (conditionsFullyShown x \<and> statusNodes env t x = [])"

section \<open>The conditions table\<close>

definition conditions_of :: "overview_object \<Rightarrow> json list" where
  "conditions_of x = (case status_conditions x of Some cs \<Rightarrow> cs | None \<Rightarrow> [])"

definition NEGATIVE_WHEN_TRUE :: "jstring list" where
  "NEGATIVE_WHEN_TRUE =
     [''DiskPressure'', ''MemoryPressure'', ''PIDPressure'', ''NetworkUnavailable'', ''Degraded'', ''Failed'', ''Unschedulable'']"

definition condition_text :: "jstring \<Rightarrow> json \<Rightarrow> jstring" where
  "condition_text k c = (case Option.bind (jget k c) json_str of Some s \<Rightarrow> s | None \<Rightarrow> [])"

definition condition_class :: "json \<Rightarrow> jstring" where
  "condition_class c =
     (let good = ''text-green-600 dark:text-green-400''; bad = ''text-red-600 dark:text-red-400''; neutral = ''text-slate-500 dark:text-slate-400'';
          negative = condition_text ''type'' c \<in> set NEGATIVE_WHEN_TRUE; status = condition_text ''status'' c
      in if status = ''True'' then (if negative then bad else good)
         else if status = ''False'' then (if negative then good else neutral)
         else neutral)"

definition condition_row :: "tree_env \<Rightarrow> json \<Rightarrow> jstring list" where
  "condition_row env c =
     [condition_text ''type'' c, condition_text ''status'' c, condition_text ''reason'' c,
      (let s = condition_text ''lastTransitionTime'' c in if s = [] then [] else formatAge (te_parse env s) (te_now env)), condition_text ''message'' c]"

section \<open>The metadata card\<close>

definition LONG_ANNOTATION :: nat where "LONG_ANNOTATION = 140"

datatype shown_annotation = AnnValue jstring | AnnExpanded jstring | AnnHidden nat | AnnCut jstring nat

definition annotation_view :: "(jstring \<times> json) list \<Rightarrow> jstring list \<Rightarrow> jstring \<times> jstring \<Rightarrow> shown_annotation" where
  "annotation_view obj expanded entry =
     (case entry of (key, v) \<Rightarrow>
        if \<not> isMaskedAnnotation obj key \<and> \<not> LONG_ANNOTATION < length v then AnnValue v
        else if isRevealed (\<lambda>k. k) expanded key then AnnExpanded v
        else if isMaskedAnnotation obj key then AnnHidden (length v)
        else AnnCut (take LONG_ANNOTATION v) (length v))"

definition ref_of_discovery :: "discovery_resource \<Rightarrow> resource_ref" where
  "ref_of_discovery d = \<lparr>rr_group = dr_group d, rr_version = dr_version d, rr_resource = dr_resource d\<rparr>"

definition ownerRoute :: "discovery_resource list \<Rightarrow> object_meta \<Rightarrow> owner_ref \<Rightarrow> route_location option" where
  "ownerRoute resources meta owner =
     (case findByKind resources (ow_apiVersion owner) (ow_kind owner) of
        None \<Rightarrow> None
      | Some d \<Rightarrow> Some (resourceDetailRoute (ref_of_discovery d) (if dr_namespaced d then om_namespace meta else None) (ow_name owner)))"

section \<open>The tree renderer\<close>

text \<open>A namespaced target without a namespace to point at gets no link.\<close>

definition resolveRefRoute ::
    "(jstring \<Rightarrow> jstring \<Rightarrow> rat) \<Rightarrow> discovery_resource list \<Rightarrow> jstring option \<Rightarrow> object_ref \<Rightarrow> route_location option" where
  "resolveRefRoute coll resources ns ref =
     (let direct = (case ob_apiVersion ref of Some v \<Rightarrow> findByKind resources v (ob_kind ref) | None \<Rightarrow> None);
          entry = (case direct of Some d \<Rightarrow> Some d | None \<Rightarrow> findByLowerKind coll resources (ob_kind ref) (ob_apiGroup ref))
      in case entry of
           None \<Rightarrow> None
         | Some d \<Rightarrow>
             if \<not> dr_namespaced d then Some (resourceDetailRoute (ref_of_discovery d) None (ob_name ref))
             else (case (case ob_namespace ref of Some n \<Rightarrow> Some n | None \<Rightarrow> ns) of
                     None \<Rightarrow> None
                   | Some n \<Rightarrow> if n = [] then None else Some (resourceDetailRoute (ref_of_discovery d) (Some n) (ob_name ref))))"

record tree_view =
  tv_toggled :: "(jstring \<times> bool) list"
  tv_long :: "jstring list"

definition new_tree_view :: tree_view where
  "new_tree_view = \<lparr>tv_toggled = [], tv_long = []\<rparr>"

definition MAX_OPEN_SIZE :: nat where "MAX_OPEN_SIZE = 25"
definition MAX_OPEN_ITEMS :: nat where "MAX_OPEN_ITEMS = 3"
definition CELL_PREVIEW_CHARS :: nat where "CELL_PREVIEW_CHARS = 60"

definition defaultGroupOpen :: "nat \<Rightarrow> nat \<Rightarrow> bool" where
  "defaultGroupOpen depth leafCount \<longleftrightarrow> depth < 2 \<and> leafCount \<le> MAX_OPEN_SIZE"

definition defaultItemOpen :: "nat \<Rightarrow> nat \<Rightarrow> nat \<Rightarrow> bool" where
  "defaultItemOpen depth itemCount leafCount \<longleftrightarrow> depth < 2 \<and> itemCount \<le> MAX_OPEN_ITEMS \<and> leafCount \<le> MAX_OPEN_SIZE"

definition isOpen :: "jstring \<Rightarrow> bool \<Rightarrow> tree_view \<Rightarrow> bool" where
  "isOpen key fallback v = (case map_of (tv_toggled v) key of Some b \<Rightarrow> b | None \<Rightarrow> fallback)"

definition toggle_node :: "jstring \<Rightarrow> bool \<Rightarrow> tree_view \<Rightarrow> tree_view" where
  "toggle_node key fallback v = v\<lparr>tv_toggled := AList.update key (\<not> isOpen key fallback v) (tv_toggled v)\<rparr>"

definition toggleLong :: "jstring \<Rightarrow> tree_view \<Rightarrow> tree_view" where
  "toggleLong key v =
     v\<lparr>tv_long := (if key \<in> set (tv_long v) then filter (\<lambda>k. k \<noteq> key) (tv_long v) else tv_long v @ [key])\<rparr>"

definition rowId :: "tree_cell list \<Rightarrow> jstring" where
  "rowId row = join [char_of (31 :: nat)] (map ce_text row)"

definition cellKey :: "jstring \<Rightarrow> tree_cell list \<Rightarrow> nat \<Rightarrow> jstring" where
  "cellKey nodeKey row ci = nodeKey @ '':'' @ rowId row @ '':'' @ show_nat ci"

datatype shown_text = LinkTo route_location jstring | WholeText jstring jstring | CutText jstring

definition leaf_view :: "(object_ref \<Rightarrow> route_location option) \<Rightarrow> tree_view \<Rightarrow> leaf \<Rightarrow> shown_text" where
  "leaf_view route v l =
     (if \<not> lf_long l
      then (case Option.bind (lf_ref l) route of
              Some r \<Rightarrow> LinkTo r (lf_text l)
            | None \<Rightarrow> WholeText (case lf_status l of Some c \<Rightarrow> c | None \<Rightarrow> NEUTRAL_TEXT_CLASS) (lf_text l))
      else if lf_key l \<in> set (tv_long v) then WholeText [] (lf_text l)
      else CutText (take LONG_VALUE_CHARS (lf_text l)))"

definition chip_view :: "tree_view \<Rightarrow> jstring \<Rightarrow> nat \<Rightarrow> chip \<Rightarrow> shown_text" where
  "chip_view v nodeKey i c =
     (if \<not> ch_long c \<or> nodeKey @ '':'' @ show_nat i \<in> set (tv_long v) then WholeText [] (ch_text c) else CutText (take LONG_VALUE_CHARS (ch_text c)))"

definition tree_cell_view :: "tree_view \<Rightarrow> jstring \<Rightarrow> tree_cell list \<Rightarrow> nat \<Rightarrow> shown_text" where
  "tree_cell_view v nodeKey row ci =
     (let c = row ! ci
      in if \<not> ce_long c \<or> cellKey nodeKey row ci \<in> set (tv_long v)
         then WholeText (case ce_status c of Some cl \<Rightarrow> cl | None \<Rightarrow> NEUTRAL_TEXT_CLASS) (ce_text c)
         else CutText (take CELL_PREVIEW_CHARS (ce_text c)))"

section \<open>Properties\<close>

lemma tree_keys: "map node_key (buildFieldTree env (JObj m) skip) = filter (\<lambda>k. k \<notin> set skip) (keys m)"
proof -
  have "node_key \<circ> (\<lambda>(key, child). buildNode env key child 0) = fst" by (auto simp: node_key_build)
  then show ?thesis by (simp add: buildFieldTree_def filter_map comp_def)
qed

definition condition_shown :: "tree_env \<Rightarrow> json \<Rightarrow> bool" where
  "condition_shown env c \<longleftrightarrow>
     is_record c \<and> list_all (\<lambda>k. k = ''lastTransitionTime'' \<or> condition_text k c \<in> set (condition_row env c)) (keys (record_members c))"

lemma full_conditions:
  "(case c of JObj m \<Rightarrow> list_all (\<lambda>k. k \<in> set CONDITION_TABLE_KEYS) (keys m) | _ \<Rightarrow> False) \<Longrightarrow> condition_shown env c"
  by (cases c) (auto simp: condition_shown_def CONDITION_TABLE_KEYS_def condition_row_def record_members_def list_all_iff)

text \<open>
  Nothing of a status is lost between the conditions table and the tree. With the compact switch off every member of the status has a node of its own, except the conditions, and these only
  when each one is a record of which the table shows every member in a row of its own; and a tree with nodes is shown.
\<close>

theorem status_fields_are_shown:
  "case overview_status x of
     Some (JObj m) \<Rightarrow>
       list_all (\<lambda>k. k \<in> set (map node_key (statusNodes env (t\<lparr>ov_compactStatus := False\<rparr>) x)) \<or> k = ''conditions'' \<and> conditionsFullyShown x) (keys m) \<and>
       (if conditionsFullyShown x
        then list_all (condition_shown env) (conditions_of x)
        else True) \<and>
       (if statusNodes env t x = [] \<or> pretty (JObj m) = [] then True else showStatusSection env pretty t x)
   | _ \<Rightarrow> True"
proof (cases "overview_status x")
  case (Some s)
  show ?thesis
  proof (cases s)
    case (JObj m)
    let ?t = "t\<lparr>ov_compactStatus := False\<rparr>"
    have "map node_key (statusNodes env ?t x) = filter (\<lambda>k. \<not> (conditionsFullyShown x \<and> k = ''conditions'')) (keys m)"
      using Some JObj by (auto simp: statusNodes_def tree_keys intro: filter_cong)
    then have "list_all (\<lambda>k. k \<in> set (map node_key (statusNodes env ?t x)) \<or> k = ''conditions'' \<and> conditionsFullyShown x) (keys m)"
      by (auto simp: list_all_iff simp del: set_map)
    moreover have "conditionsFullyShown x \<Longrightarrow> list_all (condition_shown env) (conditions_of x)"
      using full_conditions by (auto simp: conditionsFullyShown_def conditions_of_def list_all_iff split: option.splits)
    ultimately show ?thesis using Some JObj by (simp add: showStatusSection_def compactJson_def)
  qed (simp_all add: Some)
qed simp

text \<open>
  What a Secret's applied manifest says stays off the metadata card until asked for: the cell of that annotation is the same for any two values of one length,
  whatever is expanded besides; every other annotation shows its value, or its first \<^verbatim>\<open>LONG_ANNOTATION\<close> characters.
\<close>

theorem masked_annotation_hides_content:
  "if isMaskedAnnotation obj key then
     (if length v = length v' \<and> \<not> isRevealed (\<lambda>k. k) expanded key then annotation_view obj expanded (key, v) = annotation_view obj expanded (key, v') else True)
   else annotation_view obj expanded (key, v) \<in> {AnnValue v, AnnExpanded v, AnnCut (take LONG_ANNOTATION v) (length v)}"
  by (simp add: annotation_view_def)

text \<open>The generic tree never repeats what the data panel of a Secret masks - provided the object says it is a \<^verbatim>\<open>v1\<close> Secret.\<close>

lemma prune_keys: "pruneEmpty (JObj m) = JObj m' \<Longrightarrow> set (keys m') \<subseteq> set (keys m)"
  by (force simp: pruneEmpty.simps)

lemma secret_data_only_in_panel:
  assumes "map_of (oo_members x) ''apiVersion'' = Some (JStr ''v1'')" "map_of (oo_members x) ''kind'' = Some (JStr ''Secret'')"
  shows "list_all (\<lambda>n. node_key n \<noteq> ''data'' \<and> node_key n \<noteq> ''stringData'') (detailNodes env x)"
proof (cases "topLevelFields (oo_members x)")
  case (Some rest)
  define kept where "kept = filter (\<lambda>kv. \<not> (fst kv \<in> set SKELETON_KEYS \<or> fst kv \<in> set [''data'', ''stringData''])) (oo_members x)"
  have "pruneEmpty (JObj kept) = JObj rest"
    using Some assms by (auto simp: topLevelFields_def string_member_def PANEL_OWNED_def kept_def Let_def split: json.splits if_splits)
  then have "set (keys rest) \<subseteq> set (keys kept)" by (rule prune_keys)
  then have "\<forall>k \<in> set (map node_key (buildFieldTree env (JObj rest) [])). k \<noteq> ''data'' \<and> k \<noteq> ''stringData''"
    unfolding tree_keys by (auto simp: kept_def)
  then show ?thesis by (simp add: detailNodes_def Some list_all_iff)
qed (simp add: detailNodes_def)

text \<open>The tab takes a Secret without an \<^verbatim>\<open>apiVersion\<close> for a core one, the tree does not: its data would be in both.\<close>

lemma versionless_secret_shows_data:
  "let x = \<lparr>oo_members = [(''kind'', JStr ''Secret''), (''data'', JObj [(''pw'', JStr ''c2VjcmV0'')])],
            oo_meta = \<lparr>om_name = None, om_namespace = None, om_uid = None, om_rv = None, om_created = None, om_deletion = None, om_labels = None,
              om_annotations = None, om_owners = None, om_managed = None\<rparr>\<rparr>
   in overview_isSecret x \<and> map node_key (detailNodes env x) = [''data'']"
  by (simp add: overview_isSecret_def core_kind_def detailNodes_def topLevelFields_def string_member_def PANEL_OWNED_def SKELETON_KEYS_def
      pruneEmpty.simps isEmpty.simps tree_keys Let_def)

text \<open>A reference links only to a kind the cluster serves, and to a namespaced one only with a namespace.\<close>

lemma found_by_kind: "findByKind resources v kind = Some d \<Longrightarrow> d \<in> set resources \<and> dr_kind d = kind"
  by (auto simp: findByKind_def find_Some_iff split: prod.splits)

lemma found_by_lower_kind: "findByLowerKind coll resources kind g = Some d \<Longrightarrow> d \<in> set resources \<and> to_lower (dr_kind d) = to_lower kind"
proof -
  have "fold (better_kind coll kind g) rs best = Some d \<Longrightarrow> (d \<in> set rs \<and> kind_candidate kind g d) \<or> best = Some d" for rs best
  proof (induction rs arbitrary: best)
    case (Cons r rs)
    show ?case using Cons.IH [of "better_kind coll kind g r best"] Cons.prems
      by (auto simp: better_kind_def split: option.splits if_splits)
  qed simp
  then show "findByLowerKind coll resources kind g = Some d \<Longrightarrow> ?thesis" by (auto simp: findByLowerKind_def kind_candidate_def)
qed

theorem references_lead_somewhere:
  "case resolveRefRoute coll resources ns ref of
     None \<Rightarrow> True
   | Some r \<Rightarrow> \<exists>d. d \<in> set resources \<and> to_lower (dr_kind d) = to_lower (ob_kind ref) \<and>
       (if dr_namespaced d then \<exists>n. n \<noteq> [] \<and> r = resourceDetailRoute (ref_of_discovery d) (Some n) (ob_name ref)
        else r = resourceDetailRoute (ref_of_discovery d) None (ob_name ref))"
proof (cases "resolveRefRoute coll resources ns ref")
  case (Some r)
  define entry where "entry = (case (case ob_apiVersion ref of Some v \<Rightarrow> findByKind resources v (ob_kind ref) | None \<Rightarrow> None) of
      Some d \<Rightarrow> Some d | None \<Rightarrow> findByLowerKind coll resources (ob_kind ref) (ob_apiGroup ref))"
  obtain d where d: "entry = Some d" using Some by (cases entry) (simp_all add: resolveRefRoute_def entry_def [symmetric] Let_def)
  have "d \<in> set resources \<and> to_lower (dr_kind d) = to_lower (ob_kind ref)"
    using d found_by_kind found_by_lower_kind by (fastforce simp: entry_def split: option.splits)
  then show ?thesis using Some d
    by (auto simp: resolveRefRoute_def entry_def [symmetric] Let_def split: option.splits if_splits intro!: exI [of _ d])
qed simp

text \<open>A caret does what it says, and no other one moves; what nobody toggled deeper than two levels is closed.\<close>

lemma toggle_flips: "isOpen k f (toggle_node key fallback v) = (if k = key then \<not> isOpen key fallback v else isOpen k f v)"
  by (simp add: isOpen_def toggle_node_def update_conv')

lemma deep_groups_start_closed: "2 \<le> depth \<Longrightarrow> \<not> isOpen key (defaultGroupOpen depth n) new_tree_view"
  by (simp add: isOpen_def new_tree_view_def defaultGroupOpen_def)

end
