(* ===== verification/TableCells.thy ===== *)
theory TableCells
  imports TableView Chrome
begin

text \<open>
  What \<^verbatim>\<open>components/table/ResourceTable.vue\<close> hands to the table library and shows per cell: the column definitions with their memo, and the
  memo of a row's cell views. \<open>table_column\<close> has no description, so a column comes with its own here. The library makes new rows exactly when the rows
  array is replaced: \<open>tk_data\<close> counts the arrays and a row is that number with its index. A row keeps the values it has read, by column id, as long as it
  lives (\<open>tk_values\<close>): a value is what the accessor of the column gave when rendering, sorting or filtering first asked for it. \<^verbatim>\<open>JSON.stringify\<close> tells arrays of numbers and strings apart, so the key of the definitions is the array itself.
  Measuring widths, \<^verbatim>\<open>JSON.stringify\<close> of a cell and the dash are parameters; \<open>link\<close> is the family of functions the owner passes as \<^verbatim>\<open>cellLink\<close>.
\<close>

section \<open>Column definitions\<close>

type_synonym described_columns = "(table_column \<times> jstring option) list"

text \<open>The inputs of one definition: position, id, width and description.\<close>

type_synonym def_key = "nat \<times> jstring \<times> int option \<times> jstring"

record column_def =
  cd_index :: nat
  cd_id :: jstring
  cd_header :: jstring
  cd_size :: int
  cd_description :: jstring

definition widthsById :: "jstring list \<Rightarrow> int list \<Rightarrow> (nat \<times> table_column) list \<Rightarrow> (jstring \<times> int option) list" where
  "widthsById ids widths visible = map (\<lambda>(i, _). (ids ! i, if i < length widths then Some (widths ! i) else None)) visible"

definition key_of :: "described_columns \<Rightarrow> int list \<Rightarrow> (nat \<times> table_column) list \<Rightarrow> nat \<times> table_column \<Rightarrow> def_key" where
  "key_of columns widths visible x =
     (let (i, col) = x; ids = columnIds (map fst columns)
      in (i, ids ! i, Option.bind (map_of (widthsById ids widths visible) (ids ! i)) (\<lambda>w. w), case snd (columns ! i) of Some d \<Rightarrow> d | None \<Rightarrow> []))"

definition make_def :: "jstring \<Rightarrow> def_key \<Rightarrow> column_def" where
  "make_def name k =
     (case k of (i, cid, width, description) \<Rightarrow>
        \<lparr>cd_index = i, cd_id = cid, cd_header = name, cd_size = (case width of Some w \<Rightarrow> w | None \<Rightarrow> 150), cd_description = description\<rparr>)"

definition accessorFn :: "(table_row \<Rightarrow> nat \<Rightarrow> jstring) \<Rightarrow> column_def \<Rightarrow> table_row \<Rightarrow> jstring" where
  "accessorFn stringified d row = cellText (stringified row (cd_index d)) (cell_at row (cd_index d))"

definition headerTitle :: "jstring \<Rightarrow> column_def \<Rightarrow> jstring" where
  "headerTitle dash d =
     (if cd_description d \<noteq> [] \<and> cd_description d \<noteq> cd_header d then cd_header d @ '' '' @ dash @ '' '' @ cd_description d else cd_header d)"

section \<open>Cell views\<close>

definition statusColumnKinds :: "column_def list \<Rightarrow> (jstring \<times> status_kind) list" where
  "statusColumnKinds defs =
     fold (\<lambda>d kinds. case statusColumnKind (cd_header d) of Some kind \<Rightarrow> AList.update (cd_id d) kind kinds | None \<Rightarrow> kinds) defs []"

record cell_view =
  cv_id :: jstring
  cv_route :: "route_location option"
  cv_text :: jstring
  cv_class :: jstring

type_synonym cell_links = "nat \<Rightarrow> table_row \<Rightarrow> jstring \<Rightarrow> jstring \<Rightarrow> route_location option"

definition cellRoute :: "cell_links \<Rightarrow> nat option \<Rightarrow> table_row \<Rightarrow> column_def \<Rightarrow> jstring \<Rightarrow> route_location option" where
  "cellRoute link cellLink row d v = (case cellLink of None \<Rightarrow> None | Some f \<Rightarrow> link f row (cd_header d) v)"

definition views_of :: "cell_links \<Rightarrow> nat option \<Rightarrow> column_def list \<Rightarrow> table_row \<Rightarrow> jstring list \<Rightarrow> cell_view list" where
  "views_of link cellLink defs row texts =
     (let kinds = statusColumnKinds defs
      in map (\<lambda>(d, s). \<lparr>cv_id = cd_id d, cv_route = cellRoute link cellLink row d s, cv_text = s,
                    cv_class = (case Option.bind (map_of kinds (cd_id d)) (\<lambda>kind. cellTextClass kind s) of Some c \<Rightarrow> c | None \<Rightarrow> NEUTRAL_TEXT_CLASS)\<rparr>)
            (zip defs texts))"

text \<open>The cells as they would be with no memo at all.\<close>

definition build_views ::
    "cell_links \<Rightarrow> (table_row \<Rightarrow> nat \<Rightarrow> jstring) \<Rightarrow> nat option \<Rightarrow> column_def list \<Rightarrow> table_row \<Rightarrow> cell_view list" where
  "build_views link stringified cellLink defs row = views_of link cellLink defs row (map (\<lambda>d. accessorFn stringified d row) defs)"

section \<open>State and operations\<close>

record table_cells =
  tk_columns :: described_columns
  tk_setKey :: jstring
  tk_rows :: "table_row list"
  tk_data :: nat
  tk_link :: "nat option"
  tk_seen :: "jstring list"
  tk_empty :: "jstring list"
  tk_widths :: "jstring \<times> int list"
  tk_defsKey :: "def_key list option"
  tk_defs :: "column_def list"
  tk_views :: "((nat \<times> nat) \<times> cell_view list) list"
  tk_values :: "((nat \<times> nat \<times> jstring) \<times> jstring) list"

definition shown_columns :: "table_cells \<Rightarrow> (nat \<times> table_column) list" where
  "shown_columns st = visibleColumns (map fst (tk_columns st)) (tk_empty st)"

definition defs_key :: "table_cells \<Rightarrow> def_key list" where
  "defs_key st = map (key_of (tk_columns st) (snd (tk_widths st)) (shown_columns st)) (shown_columns st)"

definition fresh_defs :: "table_cells \<Rightarrow> column_def list" where
  "fresh_defs st = map (\<lambda>(i, col). make_def (tc_name col) (key_of (tk_columns st) (snd (tk_widths st)) (shown_columns st) (i, col))) (shown_columns st)"

text \<open>The memo of the definitions; its watcher drops the cell views when the array is another one.\<close>

definition columnDefs :: "table_cells \<Rightarrow> table_cells" where
  "columnDefs st =
     (if tk_defsKey st = Some (defs_key st) then st
      else st\<lparr>tk_defsKey := Some (defs_key st), tk_defs := fresh_defs st, tk_views := []\<rparr>)"

text \<open>What depends on the columns and the rows, evaluated when the watchers run.\<close>

definition evaluate ::
    "(table_column list \<Rightarrow> table_row list \<Rightarrow> int list) \<Rightarrow> (table_row \<Rightarrow> nat \<Rightarrow> jstring) \<Rightarrow> table_cells \<Rightarrow> table_cells" where
  "evaluate estimate stringified st =
     (let cols = map fst (tk_columns st); (empties, seen) = emptyColumnNames stringified cols (tk_rows st) (tk_seen st)
      in columnDefs (st\<lparr>tk_seen := seen, tk_empty := empties, tk_widths := defaultWidths estimate cols (tk_rows st) (tk_widths st)\<rparr>))"

text \<open>\<open>ReadValue\<close> is sorting or filtering reading a row under a column.\<close>

datatype cells_event =
    ColumnsArrive described_columns "jstring option"
  | RowsArrive "table_row list"
  | ListArrives described_columns "jstring option" "table_row list"
  | LinkChanges "nat option"
  | RenderRow nat
  | ReadValue nat nat

definition getValue :: "(table_row \<Rightarrow> nat \<Rightarrow> jstring) \<Rightarrow> nat \<Rightarrow> column_def \<Rightarrow> table_cells \<Rightarrow> jstring \<times> table_cells" where
  "getValue stringified i d st =
     (case map_of (tk_values st) (tk_data st, i, cd_id d) of
        Some v \<Rightarrow> (v, st)
      | None \<Rightarrow> let v = accessorFn stringified d (tk_rows st ! i)
                in (v, st\<lparr>tk_values := ((tk_data st, i, cd_id d), v) # tk_values st\<rparr>))"

text \<open>Sorting compares two rows by the values they have under the column.\<close>

definition sortingFn ::
    "(jstring \<Rightarrow> jstring \<Rightarrow> rat) \<Rightarrow> (table_row \<Rightarrow> nat \<Rightarrow> jstring) \<Rightarrow> column_def \<Rightarrow> nat \<Rightarrow> nat \<Rightarrow> table_cells \<Rightarrow> rat" where
  "sortingFn coll stringified d a b st = compareTableValues coll (fst (getValue stringified a d st)) (fst (getValue stringified b d st))"

fun read_values :: "(table_row \<Rightarrow> nat \<Rightarrow> jstring) \<Rightarrow> nat \<Rightarrow> column_def list \<Rightarrow> table_cells \<Rightarrow> jstring list \<times> table_cells" where
  "read_values stringified i [] st = ([], st)"
| "read_values stringified i (d # ds) st =
     (let (v, st1) = getValue stringified i d st; (vs, st2) = read_values stringified i ds st1 in (v # vs, st2))"

definition cellViews ::
    "cell_links \<Rightarrow> (table_row \<Rightarrow> nat \<Rightarrow> jstring) \<Rightarrow> nat \<Rightarrow> table_cells \<Rightarrow> cell_view list \<times> table_cells" where
  "cellViews link stringified i st =
     (case map_of (tk_views st) (tk_data st, i) of
        Some vs \<Rightarrow> (vs, st)
      | None \<Rightarrow>
          (let (texts, st1) = read_values stringified i (tk_defs st) st;
               vs = views_of link (tk_link st) (tk_defs st) (tk_rows st ! i) texts
           in (vs, st1\<lparr>tk_views := ((tk_data st, i), vs) # tk_views st\<rparr>)))"

definition cells_step ::
    "(table_column list \<Rightarrow> table_row list \<Rightarrow> int list) \<Rightarrow> cell_links \<Rightarrow> (table_row \<Rightarrow> nat \<Rightarrow> jstring) \<Rightarrow> cells_event \<Rightarrow> table_cells \<Rightarrow> table_cells"
  where
  "cells_step estimate link stringified e st =
     (case e of
        ColumnsArrive columns resetKey \<Rightarrow>
          (let key = set_key (map fst columns) resetKey
           in evaluate estimate stringified
                (st\<lparr>tk_columns := columns, tk_setKey := key, tk_seen := (if key = tk_setKey st then tk_seen st else [])\<rparr>))
      | RowsArrive rows \<Rightarrow> evaluate estimate stringified (st\<lparr>tk_rows := rows, tk_data := Suc (tk_data st)\<rparr>)
      | ListArrives columns resetKey rows \<Rightarrow>
          (let key = set_key (map fst columns) resetKey
           in evaluate estimate stringified
                (st\<lparr>tk_columns := columns, tk_setKey := key, tk_seen := (if key = tk_setKey st then tk_seen st else []),
                    tk_rows := rows, tk_data := Suc (tk_data st)\<rparr>))
      | LinkChanges l \<Rightarrow> if l = tk_link st then st else st\<lparr>tk_link := l, tk_views := []\<rparr>
      | ReadValue i j \<Rightarrow> if i < length (tk_rows st) \<and> j < length (tk_defs st) then snd (getValue stringified i (tk_defs st ! j) st) else st
      | RenderRow i \<Rightarrow> if i < length (tk_rows st) then snd (cellViews link stringified i st) else st)"

definition open_cells ::
    "(table_column list \<Rightarrow> table_row list \<Rightarrow> int list) \<Rightarrow> (table_row \<Rightarrow> nat \<Rightarrow> jstring) \<Rightarrow> described_columns \<Rightarrow> jstring option \<Rightarrow> table_row list \<Rightarrow>
     nat option \<Rightarrow> table_cells" where
  "open_cells estimate stringified columns resetKey rows l =
     evaluate estimate stringified
       \<lparr>tk_columns = columns, tk_setKey = set_key (map fst columns) resetKey, tk_rows = rows, tk_data = 0, tk_link = l, tk_seen = [], tk_empty = [],
        tk_widths = ([], []), tk_defsKey = None, tk_defs = [], tk_views = [], tk_values = []\<rparr>"

definition table_note :: "jstring \<Rightarrow> bool \<Rightarrow> table_row list \<Rightarrow> jstring option" where
  "table_note ellipsis loading rows =
     (if rows \<noteq> [] then None else if loading then Some (''Loading'' @ ellipsis) else Some ''No resources found.'')"

section \<open>A header can be read off its id\<close>

definition plain_header :: "table_column \<times> jstring option \<Rightarrow> bool" where
  "plain_header c \<longleftrightarrow> CHR ''#'' \<notin> set (tc_name (fst c))"

definition name_of_id :: "jstring \<Rightarrow> jstring" where
  "name_of_id cid = takeWhile (\<lambda>ch. ch \<noteq> CHR ''#'') cid"

definition named_def :: "def_key \<Rightarrow> column_def" where
  "named_def k = make_def (name_of_id (fst (snd k))) k"

lemma suffix_loop_form: "\<exists>m. suffix_loop used name n fuel = suffixed name m"
  by (induction fuel arbitrary: n) auto

lemma name_of_fresh: "CHR ''#'' \<notin> set name \<Longrightarrow> name_of_id (fresh_id used name) = name"
proof -
  assume plain: "CHR ''#'' \<notin> set name"
  obtain m where "suffix_loop used name 2 (length used) = suffixed name m" using suffix_loop_form by blast
  then show ?thesis using plain by (auto simp: name_of_id_def fresh_id_def suffixed_def takeWhile_append takeWhile_eq_all_conv)
qed

lemma name_of_ids: "list_all (\<lambda>n. CHR ''#'' \<notin> set n) names \<Longrightarrow> map name_of_id (ids_loop used names) = names"
  by (induction names arbitrary: used) (simp_all add: Let_def name_of_fresh)

lemma name_of_column:
  assumes "list_all plain_header columns" "i < length columns"
  shows "name_of_id (columnIds (map fst columns) ! i) = tc_name (fst (columns ! i))"
proof -
  have names: "map name_of_id (columnIds (map fst columns)) = map tc_name (map fst columns)"
    unfolding columnIds_def by (rule name_of_ids) (use assms(1) in \<open>auto simp: list_all_iff plain_header_def\<close>)
  from arg_cong [OF this, of "\<lambda>l. l ! i"] arg_cong [OF names, of length] assms(2) show ?thesis by simp
qed

lemma shown_column: "(i, col) \<in> set (shown_columns st) \<Longrightarrow> i < length (tk_columns st) \<and> col = fst (tk_columns st ! i)"
  by (auto simp: shown_columns_def visibleColumns_def in_set_enumerate_eq)

lemma fresh_defs_named: "list_all plain_header (tk_columns st) \<Longrightarrow> fresh_defs st = map named_def (defs_key st)"
  using shown_column [of _ _ st] by (auto simp: fresh_defs_def defs_key_def named_def_def key_of_def Let_def name_of_column)

section \<open>The memos are invisible\<close>

definition views_ok :: "cell_links \<Rightarrow> (table_row \<Rightarrow> nat \<Rightarrow> jstring) \<Rightarrow> table_cells \<Rightarrow> bool" where
  "views_ok link stringified st \<longleftrightarrow>
     (\<forall>g i vs. ((g, i), vs) \<in> set (tk_views st) \<longrightarrow> g \<le> tk_data st \<and>
        (g = tk_data st \<longrightarrow> vs = build_views link stringified (tk_link st) (tk_defs st) (tk_rows st ! i)))"

definition memo_ok :: "table_cells \<Rightarrow> bool" where
  "memo_ok st \<longleftrightarrow> (case tk_defsKey st of None \<Rightarrow> True | Some ks \<Rightarrow> tk_defs st = map named_def ks)"

text \<open>No column of the one set stands elsewhere in the other.\<close>

definition same_places :: "described_columns \<Rightarrow> described_columns \<Rightarrow> bool" where
  "same_places a b \<longleftrightarrow>
     list_all (\<lambda>(i, c). list_all (\<lambda>(j, d). if c = d then i = j else True) (enumerate 0 (columnIds (map fst b)))) (enumerate 0 (columnIds (map fst a)))"

lemma columnIds_length: "length (columnIds cols) = length cols"
proof -
  have "length (ids_loop used names) = length names" for used names by (induction names arbitrary: used) (simp_all add: Let_def)
  then show ?thesis by (simp add: columnIds_def)
qed

lemma same_placesD:
  "same_places a b \<Longrightarrow> i < length a \<Longrightarrow> j < length b \<Longrightarrow> columnIds (map fst a) ! i = columnIds (map fst b) ! j \<Longrightarrow> i = j"
proof -
  assume p: "same_places a b" and i: "i < length a" "j < length b" and eq: "columnIds (map fst a) ! i = columnIds (map fst b) ! j"
  let ?ids = "\<lambda>c. columnIds (map fst c)"
  have "(i, ?ids a ! i) \<in> set (enumerate 0 (?ids a))" "(j, ?ids b ! j) \<in> set (enumerate 0 (?ids b))"
    using i by (simp_all add: in_set_enumerate_eq columnIds_length)
  then show "i = j" using p eq unfolding same_places_def list_all_iff by fastforce
qed

lemma same_places_refl: "distinct (columnIds (map fst a)) \<Longrightarrow> same_places a a"
  by (auto simp: same_places_def list_all_iff in_set_enumerate_eq nth_eq_iff_index_eq)

text \<open>Columns may change over the rows they found as long as none moves: \<open>kept\<close> are the column sets there have been over the present rows.\<close>

fun orderly :: "described_columns list \<Rightarrow> cells_event list \<Rightarrow> bool" where
  "orderly kept [] = True"
| "orderly kept (e # es) =
     (case e of
        ColumnsArrive columns _ \<Rightarrow> list_all (same_places columns) kept \<and> orderly (columns # kept) es
      | RowsArrive _ \<Rightarrow> orderly (take 1 kept) es
      | ListArrives columns _ _ \<Rightarrow> orderly [columns] es
      | _ \<Rightarrow> orderly kept es)"

definition col_value :: "(table_row \<Rightarrow> nat \<Rightarrow> jstring) \<Rightarrow> table_cells \<Rightarrow> nat \<Rightarrow> nat \<Rightarrow> jstring" where
  "col_value stringified st i j = cellText (stringified (tk_rows st ! i) j) (cell_at (tk_rows st ! i) j)"

text \<open>A value kept is that of the place its column has had.\<close>

definition values_ok :: "(table_row \<Rightarrow> nat \<Rightarrow> jstring) \<Rightarrow> described_columns list \<Rightarrow> table_cells \<Rightarrow> bool" where
  "values_ok stringified kept st \<longleftrightarrow>
     (\<forall>g i c v. ((g, i, c), v) \<in> set (tk_values st) \<longrightarrow> g \<le> tk_data st \<and>
        (g = tk_data st \<longrightarrow> (\<exists>cols \<in> set kept. \<exists>j < length cols. columnIds (map fst cols) ! j = c \<and> v = col_value stringified st i j)))"

definition kept_ok :: "described_columns list \<Rightarrow> table_cells \<Rightarrow> bool" where
  "kept_ok kept st \<longleftrightarrow> (\<exists>rest. kept = tk_columns st # rest) \<and> list_all (same_places (tk_columns st)) kept"

definition cells_inv :: "cell_links \<Rightarrow> (table_row \<Rightarrow> nat \<Rightarrow> jstring) \<Rightarrow> described_columns list \<Rightarrow> table_cells \<Rightarrow> bool" where
  "cells_inv link stringified kept st \<longleftrightarrow>
     list_all plain_header (tk_columns st) \<and> tk_defsKey st = Some (defs_key st) \<and> memo_ok st \<and> views_ok link stringified st \<and>
     values_ok stringified kept st \<and> kept_ok kept st"

lemma evaluate_inv:
  assumes "list_all plain_header (tk_columns st)" "memo_ok st" "views_ok link stringified st" "values_ok stringified kept st" "kept_ok kept st"
  shows "cells_inv link stringified kept (evaluate estimate stringified st)"
proof -
  obtain empties seen where e: "emptyColumnNames stringified (map fst (tk_columns st)) (tk_rows st) (tk_seen st) = (empties, seen)" by fastforce
  let ?s = "st\<lparr>tk_seen := seen, tk_empty := empties, tk_widths := defaultWidths estimate (map fst (tk_columns st)) (tk_rows st) (tk_widths st)\<rparr>"
  have same: "defs_key (s\<lparr>tk_defsKey := k, tk_defs := d, tk_views := v\<rparr>) = defs_key s" for s k d v
    by (simp add: defs_key_def shown_columns_def)
  have vk: "values_ok stringified kept ?s" "kept_ok kept ?s" using assms(4,5) by (simp_all add: values_ok_def kept_ok_def col_value_def)
  have "cells_inv link stringified kept (columnDefs ?s)"
  proof (cases "tk_defsKey ?s = Some (defs_key ?s)")
    case True
    then have "columnDefs ?s = ?s" by (simp add: columnDefs_def)
    moreover have "cells_inv link stringified kept ?s" using True assms(1-3) vk by (simp add: cells_inv_def memo_ok_def views_ok_def)
    ultimately show ?thesis by simp
  next
    case False
    then show ?thesis using assms(1) fresh_defs_named [of ?s] vk
      by (simp add: cells_inv_def columnDefs_def memo_ok_def views_ok_def same values_ok_def kept_ok_def col_value_def)
  qed
  then show ?thesis by (simp add: evaluate_def e Let_def)
qed

subsection \<open>Reading values\<close>

lemma def_place:
  assumes "cells_inv link stringified kept st" "d \<in> set (tk_defs st)"
  shows "cd_index d < length (tk_columns st)" "cd_id d = columnIds (map fst (tk_columns st)) ! cd_index d"
proof -
  have "tk_defs st = map named_def (defs_key st)" using assms(1) by (auto simp: cells_inv_def memo_ok_def)
  then obtain x where x: "x \<in> set (shown_columns st)" "d = named_def (key_of (tk_columns st) (snd (tk_widths st)) (shown_columns st) x)"
    using assms(2) by (auto simp: defs_key_def)
  obtain i col where ic: "x = (i, col)" by fastforce
  then have "cd_index d = i" "cd_id d = columnIds (map fst (tk_columns st)) ! i"
    using x(2) by (simp_all add: named_def_def key_of_def make_def_def Let_def)
  then show "cd_index d < length (tk_columns st)" "cd_id d = columnIds (map fst (tk_columns st)) ! cd_index d"
    using shown_column [of i col st] x(1) ic by simp_all
qed

lemma getValue_fresh:
  assumes inv: "cells_inv link stringified kept st" and d: "d \<in> set (tk_defs st)"
  shows "fst (getValue stringified i d st) = accessorFn stringified d (tk_rows st ! i)"
proof (cases "map_of (tk_values st) (tk_data st, i, cd_id d)")
  case (Some v)
  then obtain cols j where c: "cols \<in> set kept" "j < length cols" "columnIds (map fst cols) ! j = cd_id d" "v = col_value stringified st i j"
    using inv map_of_SomeD [OF Some] unfolding cells_inv_def values_ok_def by blast
  have "same_places (tk_columns st) cols" using inv c(1) by (auto simp: cells_inv_def kept_ok_def list_all_iff)
  then have "cd_index d = j" using same_placesD def_place [OF inv d] c(2,3) by metis
  then show ?thesis using Some c(4) by (simp add: getValue_def accessorFn_def col_value_def)
qed (simp add: getValue_def Let_def)

lemma getValue_only: "\<exists>v. snd (getValue stringified i d st) = st\<lparr>tk_values := v\<rparr>"
  by (auto simp: getValue_def Let_def split: option.split intro: exI [of _ "tk_values st"])

lemma values_cong: "cells_inv link stringified kept st \<Longrightarrow> values_ok stringified kept (st\<lparr>tk_values := v\<rparr>) \<Longrightarrow> cells_inv link stringified kept (st\<lparr>tk_values := v\<rparr>)"
  by (auto simp: cells_inv_def memo_ok_def views_ok_def kept_ok_def defs_key_def shown_columns_def)

lemma getValue_inv:
  assumes inv: "cells_inv link stringified kept st" and d: "d \<in> set (tk_defs st)"
  shows "cells_inv link stringified kept (snd (getValue stringified i d st))"
proof (cases "map_of (tk_values st) (tk_data st, i, cd_id d)")
  case None
  let ?v = "accessorFn stringified d (tk_rows st ! i)"
  have cur: "tk_columns st \<in> set kept" using inv by (auto simp: cells_inv_def kept_ok_def)
  have v: "?v = col_value stringified st i (cd_index d)" by (simp add: accessorFn_def col_value_def)
  have "values_ok stringified kept (st\<lparr>tk_values := ((tk_data st, i, cd_id d), ?v) # tk_values st\<rparr>)"
    using inv cur def_place [OF inv d] v by (auto simp: cells_inv_def values_ok_def col_value_def)
  then show ?thesis using values_cong [OF inv] None by (simp add: getValue_def Let_def)
qed (simp add: getValue_def inv)

lemma read_values_fresh:
  "cells_inv link stringified kept st \<Longrightarrow> set ds \<subseteq> set (tk_defs st) \<Longrightarrow>
   fst (read_values stringified i ds st) = map (\<lambda>d. accessorFn stringified d (tk_rows st ! i)) ds \<and>
   cells_inv link stringified kept (snd (read_values stringified i ds st)) \<and> (\<exists>v. snd (read_values stringified i ds st) = st\<lparr>tk_values := v\<rparr>)"
proof (induction ds arbitrary: st)
  case Nil
  then show ?case by (auto intro: exI [of _ "tk_values st"])
next
  case (Cons d ds)
  obtain v where v: "snd (getValue stringified i d st) = st\<lparr>tk_values := v\<rparr>" using getValue_only by blast
  have d: "d \<in> set (tk_defs st)" using Cons.prems(2) by simp
  have inv: "cells_inv link stringified kept (st\<lparr>tk_values := v\<rparr>)" using getValue_inv [OF Cons.prems(1) d, of i] v by simp
  have "set ds \<subseteq> set (tk_defs (st\<lparr>tk_values := v\<rparr>))" using Cons.prems(2) by simp
  from Cons.IH [OF inv this] show ?case
    using getValue_fresh [OF Cons.prems(1) d, of i] v by (auto simp: Let_def case_prod_beta)
qed

lemma cellViews_fresh:
  assumes inv: "cells_inv link stringified kept st"
  shows "fst (cellViews link stringified i st) = build_views link stringified (tk_link st) (tk_defs st) (tk_rows st ! i) \<and>
    cells_inv link stringified kept (snd (cellViews link stringified i st))"
proof (cases "map_of (tk_views st) (tk_data st, i)")
  case (Some vs)
  then show ?thesis using inv map_of_SomeD [OF Some] by (auto simp: cellViews_def cells_inv_def views_ok_def)
next
  case None
  obtain texts st1 where r: "read_values stringified i (tk_defs st) st = (texts, st1)" by fastforce
  from read_values_fresh [OF inv, of "tk_defs st" i] r obtain v where
    t: "texts = map (\<lambda>d. accessorFn stringified d (tk_rows st ! i)) (tk_defs st)" "cells_inv link stringified kept st1" "st1 = st\<lparr>tk_values := v\<rparr>" by auto
  have "cells_inv link stringified kept (st1\<lparr>tk_views := ((tk_data st, i), build_views link stringified (tk_link st) (tk_defs st) (tk_rows st ! i)) # tk_views st\<rparr>)"
    using t(2) unfolding t(3) by (auto simp: cells_inv_def memo_ok_def views_ok_def values_ok_def kept_ok_def col_value_def defs_key_def shown_columns_def)
  then show ?thesis using None r t(1) by (simp add: cellViews_def Let_def build_views_def)
qed

subsection \<open>Runs\<close>

definition cells_event_ok :: "cells_event \<Rightarrow> bool" where
  "cells_event_ok e \<longleftrightarrow>
     (case e of ColumnsArrive columns _ \<Rightarrow> list_all plain_header columns | ListArrives columns _ _ \<Rightarrow> list_all plain_header columns | _ \<Rightarrow> True)"

text \<open>What an event makes of the column sets over the present rows.\<close>

definition kept_after :: "described_columns list \<Rightarrow> cells_event \<Rightarrow> described_columns list" where
  "kept_after kept e =
     (case e of ColumnsArrive columns _ \<Rightarrow> columns # kept | RowsArrive _ \<Rightarrow> take 1 kept | ListArrives columns _ _ \<Rightarrow> [columns] | _ \<Rightarrow> kept)"

lemma ids_distinct: "distinct (columnIds cols)"
  using ids_loop_distinct [of "[]" "map tc_name cols"] by (simp add: columnIds_def)

lemma new_rows_values:
  "values_ok stringified kept st \<Longrightarrow> tk_values st' = tk_values st \<Longrightarrow> tk_data st' = Suc (tk_data st) \<Longrightarrow> values_ok stringified kept' st'"
  by (fastforce simp: values_ok_def)

lemma new_rows_views:
  "views_ok link stringified st \<Longrightarrow> tk_views st' = tk_views st \<Longrightarrow> tk_data st' = Suc (tk_data st) \<Longrightarrow> views_ok link stringified st'"
  by (fastforce simp: views_ok_def)

lemma cells_inv_step:
  assumes inv: "cells_inv link stringified kept st" and ok: "cells_event_ok e"
    and places: "case e of ColumnsArrive columns _ \<Rightarrow> list_all (same_places columns) kept | _ \<Rightarrow> True"
  shows "cells_inv link stringified (kept_after kept e) (cells_step estimate link stringified e st)"
proof (cases e)
  case (ColumnsArrive columns resetKey)
  let ?key = "set_key (map fst columns) resetKey"
  let ?s = "st\<lparr>tk_columns := columns, tk_setKey := ?key, tk_seen := (if ?key = tk_setKey st then tk_seen st else [])\<rparr>"
  have "values_ok stringified (columns # kept) ?s" using inv by (fastforce simp: cells_inv_def values_ok_def col_value_def)
  moreover have "kept_ok (columns # kept) ?s" using places ColumnsArrive same_places_refl [OF ids_distinct] by (simp add: kept_ok_def)
  ultimately have "cells_inv link stringified (columns # kept) (evaluate estimate stringified ?s)"
    by (intro evaluate_inv) (use inv ok ColumnsArrive in \<open>auto simp: cells_inv_def cells_event_ok_def memo_ok_def views_ok_def\<close>)
  then show ?thesis using ColumnsArrive by (simp add: cells_step_def Let_def kept_after_def)
next
  case (RowsArrive rows)
  let ?s = "st\<lparr>tk_rows := rows, tk_data := Suc (tk_data st)\<rparr>"
  obtain rest where rest: "kept = tk_columns st # rest" using inv by (auto simp: cells_inv_def kept_ok_def)
  have "values_ok stringified (take 1 kept) ?s" "views_ok link stringified ?s"
    using inv by (auto simp: cells_inv_def intro: new_rows_values new_rows_views)
  moreover have "kept_ok (take 1 kept) ?s" using rest same_places_refl [OF ids_distinct] by (simp add: kept_ok_def)
  ultimately have "cells_inv link stringified (take 1 kept) (evaluate estimate stringified ?s)"
    by (intro evaluate_inv) (use inv in \<open>auto simp: cells_inv_def memo_ok_def\<close>)
  then show ?thesis using RowsArrive by (simp add: cells_step_def kept_after_def)
next
  case (ListArrives columns resetKey rows)
  let ?key = "set_key (map fst columns) resetKey"
  let ?s = "st\<lparr>tk_columns := columns, tk_setKey := ?key, tk_seen := (if ?key = tk_setKey st then tk_seen st else []),
      tk_rows := rows, tk_data := Suc (tk_data st)\<rparr>"
  have "values_ok stringified [columns] ?s" "views_ok link stringified ?s"
    using inv by (auto simp: cells_inv_def intro: new_rows_values new_rows_views)
  moreover have "kept_ok [columns] ?s" using same_places_refl [OF ids_distinct] by (simp add: kept_ok_def)
  ultimately have "cells_inv link stringified [columns] (evaluate estimate stringified ?s)"
    by (intro evaluate_inv) (use inv ok ListArrives in \<open>auto simp: cells_inv_def cells_event_ok_def memo_ok_def\<close>)
  then show ?thesis using ListArrives by (simp add: cells_step_def Let_def kept_after_def)
next
  case (LinkChanges l)
  then show ?thesis using inv
    by (auto simp: cells_step_def kept_after_def cells_inv_def memo_ok_def views_ok_def values_ok_def kept_ok_def col_value_def defs_key_def shown_columns_def)
next
  case (RenderRow i)
  then show ?thesis using inv cellViews_fresh [OF inv, of i] by (simp add: cells_step_def kept_after_def)
next
  case (ReadValue i j)
  then show ?thesis using inv getValue_inv [OF inv, of "tk_defs st ! j" i] by (simp add: cells_step_def kept_after_def)
qed

definition run_cells ::
    "(table_column list \<Rightarrow> table_row list \<Rightarrow> int list) \<Rightarrow> cell_links \<Rightarrow> (table_row \<Rightarrow> nat \<Rightarrow> jstring) \<Rightarrow> described_columns \<Rightarrow> jstring option \<Rightarrow>
     table_row list \<Rightarrow> nat option \<Rightarrow> cells_event list \<Rightarrow> table_cells" where
  "run_cells estimate link stringified columns resetKey rows l es =
     fold (cells_step estimate link stringified) es (open_cells estimate stringified columns resetKey rows l)"

lemma run_cells_inv:
  assumes "list_all plain_header columns" "list_all cells_event_ok es" "orderly [columns] es"
  shows "\<exists>kept. cells_inv link stringified kept (run_cells estimate link stringified columns resetKey rows l es)"
proof -
  have "\<exists>kept'. cells_inv link stringified kept' (fold (cells_step estimate link stringified) es st)"
    if "cells_inv link stringified kept st" "list_all cells_event_ok es" "orderly kept es" for es kept st
    using that
  proof (induction es arbitrary: kept st)
    case (Cons e es)
    have "cells_inv link stringified (kept_after kept e) (cells_step estimate link stringified e st)"
      by (rule cells_inv_step) (use Cons.prems in \<open>auto split: cells_event.split\<close>)
    moreover have "orderly (kept_after kept e) es" using Cons.prems(3) by (cases e) (simp_all add: kept_after_def)
    ultimately show ?case using Cons.IH Cons.prems(2) by simp
  qed auto
  moreover have "cells_inv link stringified [columns] (open_cells estimate stringified columns resetKey rows l)"
    unfolding open_cells_def
    by (rule evaluate_inv) (simp_all add: assms(1) memo_ok_def views_ok_def values_ok_def kept_ok_def same_places_refl [OF ids_distinct])
  ultimately show ?thesis using assms(2,3) by (auto simp: run_cells_def)
qed

text \<open>
  C21. The memos of the table cannot be seen: after any sequence of column sets, rows, link functions, renders, sorts and filters, the cells of a row are those built afresh from
  the columns as they are now, the row as it is now and the link function passed now. (No header holds a number sign, and a column does not move to another place over rows that
  stay - the list page replaces the rows with the columns; the library's own memo of a row's values would show the old place's.)
\<close>

theorem cells_show_current_row:
  assumes "list_all plain_header columns" "list_all cells_event_ok es" "orderly [columns] es"
  shows "let st = run_cells estimate link stringified columns resetKey rows l es
         in fst (cellViews link stringified i st) = build_views link stringified (tk_link st) (fresh_defs st) (tk_rows st ! i)"
proof -
  let ?st = "run_cells estimate link stringified columns resetKey rows l es"
  obtain kept where inv: "cells_inv link stringified kept ?st" using run_cells_inv [OF assms] by blast
  then have "tk_defs ?st = fresh_defs ?st" by (auto simp: cells_inv_def memo_ok_def fresh_defs_named)
  then show ?thesis using cellViews_fresh [OF inv, of i] by (simp add: Let_def)
qed

definition plain_column :: "jstring \<Rightarrow> table_column \<times> jstring option" where
  "plain_column name = (\<lparr>tc_name = name, tc_type = ''string'', tc_priority = None\<rparr>, None)"

definition text_row :: "jstring list \<Rightarrow> table_row" where
  "text_row cs = \<lparr>tr_cells = map CStr cs, tr_meta = None\<rparr>"

text \<open>The id does not tell a header apart from a suffixed one, and the key of the definitions has no header: the column keeps the old one.\<close>

lemma suffixed_id_keeps_old_header:
  "let st = run_cells (\<lambda>cols _. map (\<lambda>_. 100) cols) (\<lambda>_ _ _ _. None) (\<lambda>_ _. []) (map plain_column [''A'', ''A'']) (Some ''k'') [] None
              [ColumnsArrive (map plain_column [''A'', ''A#2'']) (Some ''k'')]
   in map cd_header (tk_defs st) = [''A'', ''A''] \<and> map cd_header (fresh_defs st) = [''A'', ''A#2'']"
  by code_simp


definition two_columns :: described_columns where
  "two_columns = map plain_column [''Name'', ''Status'']"

text \<open>Columns that change places over the same rows show the values of their old places.\<close>

lemma moved_column_keeps_value:
  "let columns = map plain_column [''Name'', ''Status''];
       st = run_cells (\<lambda>cols _. map (\<lambda>_. 100) cols) (\<lambda>_ _ _ _. None) (\<lambda>_ _. []) columns (Some ''k'') [text_row [''a'', ''Failed'']] None
              [RenderRow 0, ColumnsArrive (rev columns) (Some ''k'')]
   in map cv_text (fst (cellViews (\<lambda>_ _ _ _. None) (\<lambda>_ _. []) 0 st)) = [''Failed'', ''a''] \<and> map cd_header (tk_defs st) = [''Status'', ''Name''] \<and>
      map cv_text (build_views (\<lambda>_ _ _ _. None) (\<lambda>_ _. []) None (fresh_defs st) (tk_rows st ! 0)) = [''a'', ''Failed'']"
  by code_simp

definition pod_fails :: "cells_event list" where
  "pod_fails = [RenderRow 0, ReadValue 0 1, ColumnsArrive (two_columns @ [plain_column ''Age'']) (Some ''k''), RenderRow 0,
     RowsArrive [text_row [''a'', ''Failed'']], RenderRow 0]"

theorem cells_show_current_row_witness:
  "let st = run_cells (\<lambda>cols _. map (\<lambda>_. 100) cols) (\<lambda>_ _ _ _. None) (\<lambda>_ _. []) two_columns (Some ''k'') [text_row [''a'', ''Running'']] None pod_fails
   in fst (cellViews (\<lambda>_ _ _ _. None) (\<lambda>_ _. []) 0 st) = build_views (\<lambda>_ _ _ _. None) (\<lambda>_ _. []) (tk_link st) (fresh_defs st) (tk_rows st ! 0) \<and>
      take 2 (map cv_text (fst (cellViews (\<lambda>_ _ _ _. None) (\<lambda>_ _. []) 0 st))) = [''a'', ''Failed'']"
proof -
  have ok: "list_all plain_header two_columns" "list_all cells_event_ok pod_fails" "orderly [two_columns] pod_fails" by code_simp+
  have "take 2 (map cv_text (fst (cellViews (\<lambda>_ _ _ _. None) (\<lambda>_ _. []) 0
      (run_cells (\<lambda>cols _. map (\<lambda>_. 100) cols) (\<lambda>_ _ _ _. None) (\<lambda>_ _. []) two_columns (Some ''k'') [text_row [''a'', ''Running'']] None pod_fails)))) =
    [''a'', ''Failed'']"
    by code_simp
  then show ?thesis
    using cells_show_current_row [OF ok, of "\<lambda>cols _. map (\<lambda>_. 100) cols" "\<lambda>_ _ _ _. None" "\<lambda>_ _. []" "Some ''k''" "[text_row [''a'', ''Running'']]" None 0]
    by (simp add: Let_def)
qed

end
