(* ===== verification/DetailScreen.thy ===== *)
theory DetailScreen
  imports DetailPage DetailObject Chrome
begin

text \<open>
  The detail page put together (\<^verbatim>\<open>pages/ResourceDetailPage.vue\<close>): the route's properties, the object of the page (\<open>DetailObject\<close>), the pods it owns
  (\<open>DetailPage\<close>), the tabs (\<open>Chrome\<close>) and the panels its template mounts. Requests settle as events; a settled object runs the watchers in their declared
  order: the owned pods are loaded, the tab list is recomputed, the tab falls back. \<open>full\<close> reads the kind and the selectors of the object.
\<close>

section \<open>State\<close>

record detail_screen =
  ds_props :: page_props
  ds_object :: object_model
  ds_owned :: owned_model
  ds_view :: detail_view
  ds_deleteOpen :: bool
  ds_pushed :: "route_location list"

definition page_target :: "page_props \<Rightarrow> target" where
  "page_target p = \<lparr>tg_ref = apiRef p, tg_namespace = objectNamespace p, tg_name = pp_name p\<rparr>"

definition page_kind :: "(k8s_object \<Rightarrow> owner_object) \<Rightarrow> k8s_object option \<Rightarrow> jstring" where
  "page_kind full obj = (case Option.bind obj (\<lambda>b. oo_kind (full b)) of Some k \<Rightarrow> k | None \<Rightarrow> [])"

text \<open>\<^verbatim>\<open>ownedPods\<close>: a result with at least one pod.\<close>

definition owns_pods :: "owned_model \<Rightarrow> bool" where
  "owns_pods m \<longleftrightarrow> (case os_result (pm_state m) of None \<Rightarrow> False | Some r \<Rightarrow> op_rows r \<noteq> [])"

definition recompute_tabs :: "(k8s_object \<Rightarrow> owner_object) \<Rightarrow> detail_screen \<Rightarrow> detail_screen" where
  "recompute_tabs full s =
     s\<lparr>ds_view := view_step (ObjectChanges (page_kind full (ro_object (ds_object s))) (owns_pods (ds_owned s))) (ds_view s)\<rparr>"

definition page_refresh :: "detail_screen \<Rightarrow> detail_screen" where
  "page_refresh s = s\<lparr>ds_object := refresh_object (Some (page_target (ds_props s))) (ds_object s)\<rparr>"

section \<open>Events\<close>

datatype screen_event =
    ScreenRoute page_props
  | ScreenRefresh
  | ScreenObject nat "thrown + k8s_object"
  | ScreenOwned nat "thrown + owned_pods option"
  | ScreenTab tab_id
  | ScreenDelete
  | ScreenDeleted "(jstring \<times> jstring) list option"

text \<open>A fetched object is another object even when it says the same, so the pods are resolved again; a failure changes them only by clearing the object.\<close>

definition object_watch :: "(k8s_object \<Rightarrow> owner_object) \<Rightarrow> object_model \<Rightarrow> bool \<Rightarrow> detail_screen \<Rightarrow> detail_screen" where
  "object_watch full before arrived s =
     (let now = ro_object (ds_object s)
      in if arrived \<or> (ro_object before \<noteq> None \<and> now = None)
         then s\<lparr>ds_owned := load_owned (map_option full now) (ds_owned s)\<rparr> else s)"

definition current_answer :: "nat \<Rightarrow> object_model \<Rightarrow> bool" where
  "current_answer gen m \<longleftrightarrow> gen = ro_generation m \<and> map_of (ro_requests m) gen \<noteq> None"

definition screen_object :: "(k8s_object \<Rightarrow> owner_object) \<Rightarrow> nat \<Rightarrow> thrown + k8s_object \<Rightarrow> detail_screen \<Rightarrow> detail_screen" where
  "screen_object full gen r s =
     (let m = ds_object s; arrived = (case r of Inl _ \<Rightarrow> False | Inr _ \<Rightarrow> current_answer gen m)
      in recompute_tabs full (object_watch full m arrived (s\<lparr>ds_object := object_settles gen r m\<rparr>)))"

definition listRoute :: "page_props \<Rightarrow> (jstring \<times> jstring) list option \<Rightarrow> route_location" where
  "listRoute p remembered = resourceListRoute (apiRef p) remembered"

definition page_list_key :: "page_props \<Rightarrow> jstring" where
  "page_list_key p = join ''/'' [pp_group p, pp_version p, pp_resource p]"

text \<open>\<open>ScreenDeleted\<close> carries what the view store remembers of the list (\<^verbatim>\<open>listQueryFor\<close> of \<open>page_list_key\<close>).\<close>

definition screen_step :: "(k8s_object \<Rightarrow> owner_object) \<Rightarrow> screen_event \<Rightarrow> detail_screen \<Rightarrow> detail_screen" where
  "screen_step full e s =
     (case e of
        ScreenRoute p \<Rightarrow> if p = ds_props s then s else page_refresh (s\<lparr>ds_props := p\<rparr>)
      | ScreenRefresh \<Rightarrow> page_refresh s
      | ScreenObject gen r \<Rightarrow> screen_object full gen r s
      | ScreenOwned i r \<Rightarrow> recompute_tabs full (s\<lparr>ds_owned := settle_owned i r (ds_owned s)\<rparr>)
      | ScreenTab t \<Rightarrow> if ro_object (ds_object s) = None then s else s\<lparr>ds_view := view_step (SelectTab t) (ds_view s)\<rparr>
      | ScreenDelete \<Rightarrow> if ro_object (ds_object s) = None then s else s\<lparr>ds_deleteOpen := True\<rparr>
      | ScreenDeleted remembered \<Rightarrow> s\<lparr>ds_deleteOpen := False, ds_pushed := ds_pushed s @ [listRoute (ds_props s) remembered]\<rparr>)"

definition open_page :: "page_props \<Rightarrow> detail_screen" where
  "open_page p =
     page_refresh \<lparr>ds_props = p, ds_object = new_object, ds_owned = load_owned None new_owned, ds_view = new_view, ds_deleteOpen = False, ds_pushed = []\<rparr>"

section \<open>What is mounted\<close>

datatype panel_kind = PnOverview | PnEnv | PnPodLogs | PnWorkloadLogs | PnPodMetrics | PnNodeMetrics | PnYaml | PnTerminal

text \<open>A mounted panel: what it is, the key it is mounted under (the two that outlive a tab switch have one) and whether it is visible.\<close>

type_synonym panel = "panel_kind \<times> jstring option \<times> bool"

definition switched_panel :: "jstring \<Rightarrow> bool \<Rightarrow> tab_id \<Rightarrow> panel_kind list" where
  "switched_panel kind ownsPods tab =
     (if tab = TabOverview then [PnOverview]
      else if tab = TabEnv \<and> kind = ''Pod'' then [PnEnv]
      else if tab = TabLogs \<and> kind = ''Pod'' then [PnPodLogs]
      else if tab = TabLogs \<and> ownsPods then [PnWorkloadLogs]
      else if tab = TabMetrics \<and> kind = ''Pod'' then [PnPodMetrics]
      else if tab = TabMetrics \<and> kind = ''Node'' then [PnNodeMetrics]
      else [])"

definition panels :: "(k8s_object \<Rightarrow> owner_object) \<Rightarrow> detail_screen \<Rightarrow> panel list" where
  "panels full s =
     (if ro_object (ds_object s) = None then []
      else let v = ds_view s; kind = page_kind full (ro_object (ds_object s)); key = Some (objectKey (ds_props s))
           in map (\<lambda>k. (k, None, True)) (switched_panel kind (owns_pods (ds_owned s)) (dv_active v)) @
              (if dv_yamlMounted v then [(PnYaml, key, dv_active v = TabYaml)] else []) @
              (if dv_terminalMounted v \<and> kind = ''Pod'' then [(PnTerminal, key, dv_active v = TabTerminal)] else []))"

definition page_notice :: "detail_screen \<Rightarrow> jstring option" where
  "page_notice s =
     (case ro_error (ds_object s) of
        Some e \<Rightarrow> Some (messageFromError e None)
      | None \<Rightarrow> if ro_loading (ds_object s) \<and> ro_object (ds_object s) = None then Some ''Loading...'' else None)"


section \<open>One panel at a time\<close>

definition view_inv :: "jstring \<Rightarrow> bool \<Rightarrow> detail_view \<Rightarrow> bool" where
  "view_inv kind owns v \<longleftrightarrow>
     dv_kind v = kind \<and> dv_ownsPods v = owns \<and> dv_active v \<in> set (detail_tabs kind owns) \<and>
     (dv_active v = TabTerminal \<longrightarrow> dv_terminalMounted v) \<and> (dv_active v = TabYaml \<longrightarrow> dv_yamlMounted v)"

definition screen_inv :: "(k8s_object \<Rightarrow> owner_object) \<Rightarrow> detail_screen \<Rightarrow> bool" where
  "screen_inv full s \<longleftrightarrow> view_inv (page_kind full (ro_object (ds_object s))) (owns_pods (ds_owned s)) (ds_view s)"

definition mounts_ok :: "detail_view \<Rightarrow> bool" where
  "mounts_ok v \<longleftrightarrow> (dv_active v = TabTerminal \<longrightarrow> dv_terminalMounted v) \<and> (dv_active v = TabYaml \<longrightarrow> dv_yamlMounted v)"

lemma overview_offered [simp]: "TabOverview \<in> set (detail_tabs kind owns)"
  by (simp add: detail_tabs_def)

lemma view_inv_change: "mounts_ok v \<Longrightarrow> view_inv kind owns (view_step (ObjectChanges kind owns) v)"
  by (simp add: view_inv_def mounts_ok_def tabs_change_def Let_def activate_def)

lemma view_inv_select: "view_inv kind owns v \<Longrightarrow> view_inv kind owns (view_step (SelectTab t) v)"
  by (auto simp: view_inv_def activate_def)

lemma view_inv_same: "view_inv kind owns v \<Longrightarrow> view_step (ObjectChanges kind owns) v = v"
  by (simp add: view_inv_def tabs_change_def)

lemma view_inv_mounts: "view_inv kind owns v \<Longrightarrow> mounts_ok v"
  by (simp add: view_inv_def mounts_ok_def)

lemma refresh_keeps_object: "ro_object (refresh_object t m) = ro_object m"
  by (simp add: refresh_object_def Let_def split: option.split)

lemma screen_inv_recompute: "mounts_ok (ds_view s) \<Longrightarrow> screen_inv full (recompute_tabs full s)"
  by (simp only: screen_inv_def recompute_tabs_def) (simp del: view_step.simps add: view_inv_change)

lemma recompute_same: "screen_inv full s \<Longrightarrow> recompute_tabs full s = s"
  by (simp add: screen_inv_def recompute_tabs_def view_inv_same del: view_step.simps)

lemma screen_inv_step:
  assumes "screen_inv full s"
  shows "screen_inv full (screen_step full e s)"
proof -
  have m: "mounts_ok (ds_view s)" using assms view_inv_mounts by (auto simp: screen_inv_def)
  show ?thesis
  proof (cases e)
    case (ScreenObject gen r)
    have "ds_view (object_watch full m a (s\<lparr>ds_object := x\<rparr>)) = ds_view s" for m a x by (simp add: object_watch_def Let_def)
    then show ?thesis using m ScreenObject by (simp add: screen_step_def screen_object_def Let_def screen_inv_recompute)
  next
    case (ScreenOwned i r)
    then show ?thesis using m by (simp add: screen_step_def screen_inv_recompute)
  next
    case (ScreenTab t)
    then show ?thesis using assms
      by (cases "ro_object (ds_object s)") (simp_all add: screen_step_def screen_inv_def view_inv_select del: view_step.simps)
  next
    case ScreenDelete
    then show ?thesis using assms by (cases "ro_object (ds_object s)") (simp_all add: screen_step_def screen_inv_def)
  qed (use assms in \<open>simp_all add: screen_step_def screen_inv_def page_refresh_def refresh_keeps_object\<close>)
qed

definition run_screen :: "(k8s_object \<Rightarrow> owner_object) \<Rightarrow> page_props \<Rightarrow> screen_event list \<Rightarrow> detail_screen" where
  "run_screen full p es = fold (screen_step full) es (open_page p)"

lemma run_screen_inv: "screen_inv full (run_screen full p es)"
proof -
  have "screen_inv full s \<Longrightarrow> screen_inv full (fold (screen_step full) es s)" for s
    by (induction es arbitrary: s) (simp_all add: screen_inv_step)
  moreover have "screen_inv full (open_page p)"
    by (simp add: open_page_def page_refresh_def screen_inv_def refresh_keeps_object new_object_def page_kind_def new_owned_def load_owned_def
        IDLE_def owns_pods_def view_inv_def new_view_def Let_def)
  ultimately show ?thesis by (simp add: run_screen_def)
qed

definition panel_of :: "jstring \<Rightarrow> tab_id \<Rightarrow> panel_kind" where
  "panel_of kind tab =
     (case tab of TabOverview \<Rightarrow> PnOverview | TabYaml \<Rightarrow> PnYaml | TabEnv \<Rightarrow> PnEnv | TabTerminal \<Rightarrow> PnTerminal
      | TabLogs \<Rightarrow> if kind = ''Pod'' then PnPodLogs else PnWorkloadLogs
      | TabMetrics \<Rightarrow> if kind = ''Pod'' then PnPodMetrics else PnNodeMetrics)"

lemma visible_panel:
  assumes "screen_inv full s" "ro_object (ds_object s) = Some obj"
  shows "map fst (filter (\<lambda>(_, _, visible). visible) (panels full s)) = [panel_of (page_kind full (Some obj)) (dv_active (ds_view s))]"
proof (cases "dv_active (ds_view s)")
  case TabLogs
  then show ?thesis using assms by (auto simp: screen_inv_def view_inv_def panels_def Let_def switched_panel_def panel_of_def detail_tabs_def split: if_splits)
next
  case TabMetrics
  then show ?thesis using assms by (auto simp: screen_inv_def view_inv_def panels_def Let_def switched_panel_def panel_of_def detail_tabs_def split: if_splits)
next
  case TabEnv
  then show ?thesis using assms by (auto simp: screen_inv_def view_inv_def panels_def Let_def switched_panel_def panel_of_def detail_tabs_def split: if_splits)
next
  case TabTerminal
  then show ?thesis using assms by (auto simp: screen_inv_def view_inv_def panels_def Let_def switched_panel_def panel_of_def detail_tabs_def split: if_splits)
qed (use assms in \<open>simp_all add: screen_inv_def view_inv_def panels_def Let_def switched_panel_def panel_of_def\<close>)

text \<open>
  C17. The detail page never shows a blank tab: whatever objects, owned pods, tab clicks and navigations arrive in whatever order, while an object is on screen exactly one panel is visible, the one of the active
  tab, and it is a panel for that kind of object; the terminal and the editor are mounted under the key of the route.
\<close>

theorem page_is_never_blank:
  "let s = run_screen full p es; kind = page_kind full (ro_object (ds_object s)) in
   if ro_object (ds_object s) = None then panels full s = []
   else map fst (filter (\<lambda>(_, _, visible). visible) (panels full s)) = [panel_of kind (dv_active (ds_view s))] \<and>
        dv_active (ds_view s) \<in> set (detail_tabs kind (owns_pods (ds_owned s))) \<and>
        list_all (\<lambda>(k, key, _). if k = PnYaml \<or> k = PnTerminal then key = Some (objectKey (ds_props s)) else key = None) (panels full s)"
proof (cases "ro_object (ds_object (run_screen full p es))")
  case (Some obj)
  let ?s = "run_screen full p es"
  have inv: "screen_inv full ?s" by (rule run_screen_inv)
  have "k \<noteq> PnYaml \<and> k \<noteq> PnTerminal" if "k \<in> set (switched_panel kind owns tab)" for k kind owns tab
    using that by (auto simp: switched_panel_def split: if_splits)
  then have "list_all (\<lambda>(k, key, _). if k = PnYaml \<or> k = PnTerminal then key = Some (objectKey (ds_props ?s)) else key = None) (panels full ?s)"
    by (fastforce simp: list_all_iff panels_def Let_def split: if_splits)
  then show ?thesis using visible_panel [OF inv Some] inv Some by (simp add: Let_def screen_inv_def view_inv_def)
qed (simp add: panels_def Let_def)

section \<open>A failed refresh\<close>

lemma object_watch_same: "ro_object (ds_object s) = ro_object before \<Longrightarrow> object_watch full before False s = s"
  by (auto simp: object_watch_def Let_def)

lemma panels_cong:
  "ro_object (ds_object a) = ro_object (ds_object b) \<Longrightarrow> ds_owned a = ds_owned b \<Longrightarrow> ds_view a = ds_view b \<Longrightarrow> ds_props a = ds_props b \<Longrightarrow>
   panels full a = panels full b"
  by (simp only: panels_def)

text \<open>
  C18. A failed refresh of the object on screen unmounts nothing - not the shell, not the log stream, not the draft; a failed load of another object takes its predecessor off the screen with
  everything that was mounted for it.
\<close>

theorem failed_refresh_keeps_panels:
  "let s = run_screen full p es; s1 = screen_step full ScreenRefresh s;
       s2 = screen_step full (ScreenObject (ro_generation (ds_object s1)) (Inl err)) s1
   in page_notice s2 = Some (messageFromError (asApiError err) None) \<and>
      (if ro_loadedKey (ds_object s) = Some (targetKey (page_target (ds_props s)))
       then panels full s2 = panels full s \<and> ds_owned s2 = ds_owned s
       else panels full s2 = [])"
proof -
  let ?s = "run_screen full p es"
  let ?m = "refresh_object (Some (page_target (ds_props ?s))) (ds_object ?s)"
  have inv: "screen_inv full ?s" by (rule run_screen_inv)
  have settled: "object_settles (ro_generation ?m) (Inl err) ?m =
      (if ro_loadedKey (ds_object ?s) = Some (targetKey (page_target (ds_props ?s))) then ?m\<lparr>ro_error := Some (asApiError err), ro_loading := False\<rparr>
       else ?m\<lparr>ro_error := Some (asApiError err), ro_object := None, ro_loadedKey := None, ro_from := None, ro_loading := False\<rparr>)"
    by (simp add: object_settles_def refresh_object_def Let_def)
  show ?thesis
  proof (cases "ro_loadedKey (ds_object ?s) = Some (targetKey (page_target (ds_props ?s)))")
    case True
    let ?s2 = "?s\<lparr>ds_object := ?m\<lparr>ro_error := Some (asApiError err), ro_loading := False\<rparr>\<rparr>"
    have "screen_inv full ?s2" using inv by (simp add: screen_inv_def refresh_keeps_object)
    note same = recompute_same [OF this]
    have "panels full ?s2 = panels full ?s" by (rule panels_cong) (simp_all add: refresh_keeps_object)
    then show ?thesis using True settled same
      by (simp add: Let_def screen_step_def page_refresh_def screen_object_def object_watch_same refresh_keeps_object page_notice_def)
  next
    case False
    then show ?thesis using settled
      by (simp add: Let_def screen_step_def page_refresh_def screen_object_def object_watch_def recompute_tabs_def panels_def page_notice_def del: view_step.simps)
  qed
qed

end
