(* ===== verification/Shell.thy ===== *)
theory Shell
  imports Auth Chrome Login
begin

text \<open>
  The application around the pages: the shell with its drawer (\<^verbatim>\<open>components/layout/AppShell.vue\<close>), the header (\<^verbatim>\<open>TopBar.vue\<close>, \<^verbatim>\<open>ThemeToggle.vue\<close>,
  \<^verbatim>\<open>SidebarToggle.vue\<close>), the labels that come with the contexts (\<^verbatim>\<open>ClusterName.vue\<close>, \<^verbatim>\<open>AppVersion.vue\<close>, \<^verbatim>\<open>usePageTitle.ts\<close>), the identity of the local
  kubeconfig mode (\<^verbatim>\<open>composables/useLocalIdentity.ts\<close>), the theme signal (\<^verbatim>\<open>composables/useDarkMode.ts\<close> with its users \<^verbatim>\<open>App.vue\<close> and the editor), and the
  two wrappers of a third-party widget: the editor (\<^verbatim>\<open>components/detail/CodeMirrorEditor.vue\<close>) and the terminal (\<^verbatim>\<open>components/pod/TerminalView.vue\<close>).
  The query library is the data it holds by context; the browser delivers keys, viewport and theme changes.
\<close>

section \<open>Header texts\<close>

definition identityLabel :: "auth_state \<Rightarrow> jstring" where
  "identityLabel a =
     (case auth_identity a of
        Some i \<Rightarrow> id_username i
      | None \<Rightarrow> if identityUnavailable a then ''signed in (identity unavailable)'' else [])"

definition trimmed_label :: "jstring option \<Rightarrow> jstring" where
  "trimmed_label s = trim (case s of Some t \<Rightarrow> t | None \<Rightarrow> [])"

definition cluster_name :: "jstring option \<Rightarrow> jstring option" where
  "cluster_name clusterName = (let name = trimmed_label clusterName in if name \<noteq> [] then Some name else None)"

definition app_version :: "jstring option \<Rightarrow> jstring option" where
  "app_version version = (let v = trimmed_label version in if v \<noteq> [] then Some v else None)"

definition logout_title :: "auth_state \<Rightarrow> jstring option" where
  "logout_title a =
     (if au_local a then None else Some (if au_active a \<noteq> [] then ''Sign out of '' @ au_active a else ''Sign out''))"

definition theme_options :: "(theme \<times> jstring) list" where
  "theme_options = [(ThemeSystem, ''Auto (match system theme)''), (ThemeLight, ''Light theme''), (ThemeDark, ''Dark theme'')]"

definition labelOf :: "theme \<Rightarrow> jstring" where
  "labelOf t = (case find (\<lambda>(v, _). v = t) theme_options of Some (_, l) \<Rightarrow> l | None \<Rightarrow> [])"

definition theme_icon :: "theme \<Rightarrow> jstring" where
  "theme_icon t = (case t of ThemeSystem \<Rightarrow> ''computer-desktop'' | ThemeLight \<Rightarrow> ''sun'' | ThemeDark \<Rightarrow> ''moon'')"

definition nextTheme :: "theme \<Rightarrow> theme" where
  "nextTheme t =
     (let idx = (case find_index (\<lambda>(v, _). v = t) theme_options of Some i \<Rightarrow> int i | None \<Rightarrow> - 1)
      in fst (theme_options ! nat ((idx + 1) mod int (length theme_options))))"

definition cycleLabel :: "theme \<Rightarrow> jstring" where
  "cycleLabel t = ''Theme: '' @ labelOf t @ ''. Switch to '' @ labelOf (nextTheme t)"

definition link_title :: "resource_ref \<Rightarrow> jstring" where
  "link_title r = (if rr_group r = [] then rr_resource r else rr_resource r @ ''.'' @ rr_group r)"

section \<open>The shell\<close>

text \<open>\<open>sh_identities\<close> is what the identity query holds per context, \<open>sh_rootDark\<close> the class on the document, \<open>sh_editorDark\<close> the theme of an open editor,
  \<open>sh_focused\<close> whether the toggle that mounted last took the focus.\<close>

record shell =
  sh_auth :: auth_state
  sh_ui :: ui_store
  sh_identities :: "(jstring \<times> verify_response) list"
  sh_asked :: "jstring list"
  sh_prefersDark :: bool
  sh_rootDark :: bool
  sh_editorDark :: bool
  sh_focused :: bool
  sh_title :: jstring
  sh_clusterName :: "jstring option"

definition modal :: "shell \<Rightarrow> bool" where
  "modal s \<longleftrightarrow> ui_narrow (sh_ui s) \<and> sidebarOpen (sh_ui s)"

definition identity_data :: "shell \<Rightarrow> verify_response option" where
  "identity_data s = map_of (sh_identities s) (au_active (sh_auth s))"

definition adopt_identity :: "verify_response option \<Rightarrow> auth_state \<Rightarrow> auth_state" where
  "adopt_identity d a =
     (case d of
        None \<Rightarrow> setLocalIdentity None False a
      | Some r \<Rightarrow> setLocalIdentity (vr_identity r) (vr_unavailable r = Some True) a)"

text \<open>The watcher of the identity query, run after an operation that may have changed its data.\<close>

definition watch_identity :: "verify_response option \<Rightarrow> shell \<Rightarrow> shell" where
  "watch_identity before s = (if identity_data s = before then s else s\<lparr>sh_auth := adopt_identity (identity_data s) (sh_auth s)\<rparr>)"

definition dark_now :: "shell \<Rightarrow> bool" where
  "dark_now s = isDark (up_theme (ui_prefs (sh_ui s))) (sh_prefersDark s)"

text \<open>The effects that follow the theme and the title.\<close>

definition run_effects :: "shell \<Rightarrow> shell" where
  "run_effects s =
     s\<lparr>sh_rootDark := dark_now s, sh_editorDark := dark_now s, sh_title := pageTitle (sh_clusterName s) (au_active (sh_auth s))\<rparr>"

text \<open>When the sidebar opens or closes, the toggle mounts at its other place and claims the focus if it was left to it.\<close>

definition toggle_mounts :: "ui_store \<Rightarrow> shell \<Rightarrow> shell" where
  "toggle_mounts before s =
     (if sidebarOpen before = sidebarOpen (sh_ui s) then s
      else let (got, u) = consumeToggleFocus (sh_ui s) in s\<lparr>sh_ui := u, sh_focused := got\<rparr>)"

definition on_ui :: "(ui_store \<Rightarrow> ui_store) \<Rightarrow> shell \<Rightarrow> shell" where
  "on_ui f s = toggle_mounts (sh_ui s) (s\<lparr>sh_ui := f (sh_ui s)\<rparr>)"

datatype shell_event =
    ShContext int jstring
  | ShAsk
  | ShIdentity jstring verify_response
  | ShContexts "jstring option"
  | ShLogout
  | ShTheme bool theme
  | ShSystemTheme bool
  | ShEscape bool
  | ShNavigates
  | ShToggle bool
  | ShViewport bool

definition set_theme :: "bool \<Rightarrow> theme \<Rightarrow> ui_store \<Rightarrow> ui_store" where
  "set_theme throws t u = save_prefs throws (u\<lparr>ui_prefs := (ui_prefs u)\<lparr>up_theme := t\<rparr>\<rparr>)"

definition on_escape :: "bool \<Rightarrow> shell \<Rightarrow> shell" where
  "on_escape prevented s = (if prevented \<or> \<not> ui_narrow (sh_ui s) \<or> \<not> sidebarOpen (sh_ui s) then s else on_ui (closeSidebar True) s)"

definition shell_event_step :: "shell_event \<Rightarrow> shell \<Rightarrow> shell" where
  "shell_event_step e s =
     (case e of
        ShContext now ctx \<Rightarrow>
          (let gone = snd (pruneExpiredSessions now (sh_auth s))
           in s\<lparr>sh_auth := setActiveContext now ctx (sh_auth s), sh_identities := filter (\<lambda>(c, _). c \<notin> set gone) (sh_identities s)\<rparr>)
      | ShAsk \<Rightarrow> if au_local (sh_auth s) then s\<lparr>sh_asked := au_active (sh_auth s) # sh_asked s\<rparr> else s
      | ShIdentity ctx r \<Rightarrow>
          if ctx \<in> set (sh_asked s)
          then s\<lparr>sh_asked := remove1 ctx (sh_asked s), sh_identities := AList.update ctx r (sh_identities s)\<rparr> else s
      | ShContexts name \<Rightarrow> s\<lparr>sh_clusterName := name\<rparr>
      | ShLogout \<Rightarrow>
          s\<lparr>sh_auth := clearActiveSession (sh_auth s), sh_identities := AList.delete (au_active (sh_auth s)) (sh_identities s),
            sh_asked := removeAll (au_active (sh_auth s)) (sh_asked s)\<rparr>
      | ShTheme throws t \<Rightarrow> s\<lparr>sh_ui := set_theme throws t (sh_ui s)\<rparr>
      | ShSystemTheme b \<Rightarrow> s\<lparr>sh_prefersDark := b\<rparr>
      | ShEscape prevented \<Rightarrow> on_escape prevented s
      | ShNavigates \<Rightarrow> on_ui (closeSidebar False) s
      | ShToggle throws \<Rightarrow> on_ui (toggleSidebar throws) s
      | ShViewport b \<Rightarrow> on_ui (viewport_changes b) s)"

definition shell_step :: "shell_event \<Rightarrow> shell \<Rightarrow> shell" where
  "shell_step e s = run_effects (watch_identity (identity_data s) (shell_event_step e s))"

definition open_shell :: "auth_state \<Rightarrow> ui_store \<Rightarrow> bool \<Rightarrow> shell" where
  "open_shell a u prefersDark =
     run_effects
       \<lparr>sh_auth = adopt_identity None a, sh_ui = u, sh_identities = [], sh_asked = [], sh_prefersDark = prefersDark, sh_rootDark = False,
        sh_editorDark = False, sh_focused = False, sh_title = [], sh_clusterName = None\<rparr>"


definition run_shell :: "auth_state \<Rightarrow> jstring option \<Rightarrow> json option \<Rightarrow> bool \<Rightarrow> bool \<Rightarrow> shell_event list \<Rightarrow> shell" where
  "run_shell a ns prefs narrow prefersDark es = fold shell_step es (open_shell a (open_ui ns prefs narrow) prefersDark)"

section \<open>Whose identity is shown\<close>

definition adopted :: "verify_response option \<Rightarrow> identity option \<times> bool" where
  "adopted d = (case d of None \<Rightarrow> (None, False) | Some r \<Rightarrow> (vr_identity r, vr_unavailable r = Some True))"

lemma adopt_identity_adopted: "adopt_identity d a = a\<lparr>au_local_identity := Some (adopted d)\<rparr>"
  by (cases d) (simp_all add: adopt_identity_def adopted_def setLocalIdentity_def)

lemma session_operations_keep_identity [simp]:
  "au_local_identity (setActiveContext now c a) = au_local_identity a" "au_local_identity (clearActiveSession a) = au_local_identity a"
  by (simp_all add: setActiveContext_def pruneExpiredSessions_def clearActiveSession_def clearSession_def Let_def)

definition identity_inv :: "shell \<Rightarrow> bool" where
  "identity_inv s \<longleftrightarrow> au_local_identity (sh_auth s) = Some (adopted (identity_data s))"

lemma on_ui_auth [simp]:
  "sh_auth (on_ui f s) = sh_auth s" "sh_identities (on_ui f s) = sh_identities s" "sh_prefersDark (on_ui f s) = sh_prefersDark s"
  "sh_clusterName (on_ui f s) = sh_clusterName s"
  by (simp_all add: on_ui_def toggle_mounts_def case_prod_beta Let_def)

lemma event_keeps_identity: "au_local_identity (sh_auth (shell_event_step e s)) = au_local_identity (sh_auth s)"
  by (cases e) (simp_all add: shell_event_step_def on_escape_def Let_def)

lemma identity_inv_step: "identity_inv s \<Longrightarrow> identity_inv (shell_step e s)"
proof -
  assume inv: "identity_inv s"
  let ?s = "shell_event_step e s"
  have adopt: "identity_data (x\<lparr>sh_auth := adopt_identity d (sh_auth x)\<rparr>) = identity_data x" for x d
    by (simp add: identity_data_def adopt_identity_adopted)
  have "identity_inv (watch_identity (identity_data s) ?s)"
    using inv by (cases "identity_data ?s = identity_data s")
      (simp_all add: identity_inv_def watch_identity_def event_keeps_identity adopt, simp add: adopt_identity_adopted)
  then show ?thesis by (simp add: shell_step_def run_effects_def identity_inv_def identity_data_def)
qed

lemma run_shell_fold:
  assumes "P (open_shell a (open_ui ns prefs narrow) prefersDark)" "\<And>e s. P s \<Longrightarrow> P (shell_step e s)"
  shows "P (run_shell a ns prefs narrow prefersDark es)"
proof -
  have "P s \<Longrightarrow> P (fold shell_step es s)" for s using assms(2) by (induction es arbitrary: s) simp_all
  then show ?thesis using assms(1) by (simp add: run_shell_def)
qed

text \<open>
  C20. In the local kubeconfig mode the header names the user of the cluster on screen: after any sequence of context switches, answers in any order, sign-outs and evictions, it shows the answer
  held for the active context, and nothing while there is none - never the user of the context before. The tab title names that context or the configured cluster.
\<close>

theorem identity_is_of_active_context:
  "let s = run_shell a ns prefs narrow prefersDark es in
   (if au_local (sh_auth s)
    then identityLabel (sh_auth s) =
      (case identity_data s of
         None \<Rightarrow> []
       | Some r \<Rightarrow> (case vr_identity r of Some i \<Rightarrow> id_username i
                    | None \<Rightarrow> if vr_unavailable r = Some True then ''signed in (identity unavailable)'' else []))
    else True) \<and>
   sh_title s = pageTitle (sh_clusterName s) (au_active (sh_auth s))"
proof -
  let ?s = "run_shell a ns prefs narrow prefersDark es"
  have "identity_inv ?s"
    by (rule run_shell_fold) (simp_all add: identity_inv_step, simp add: identity_inv_def open_shell_def run_effects_def identity_data_def adopt_identity_adopted)
  moreover have "sh_title ?s = pageTitle (sh_clusterName ?s) (au_active (sh_auth ?s))"
    by (rule run_shell_fold) (simp_all add: open_shell_def shell_step_def run_effects_def)
  ultimately show ?thesis
    by (auto simp: Let_def identityLabel_def auth_identity_def identityUnavailable_def identity_inv_def adopted_def split: option.split)
qed

section \<open>The drawer\<close>

definition drawer_inv :: "shell \<Rightarrow> bool" where
  "drawer_inv s \<longleftrightarrow> \<not> ui_focusPending (sh_ui s) \<and> (ui_drawer (sh_ui s) \<longrightarrow> ui_narrow (sh_ui s))"

lemmas drawer_defs = on_ui_def toggle_mounts_def consumeToggleFocus_def toggleSidebar_def closeSidebar_def viewport_changes_def requestToggleFocus_def
  sidebarOpen_def save_prefs_def Let_def

lemma drawer_inv_ui:
  "drawer_inv s \<Longrightarrow> drawer_inv (on_ui (toggleSidebar throws) s)" "drawer_inv s \<Longrightarrow> drawer_inv (on_ui (closeSidebar f) s)"
  "drawer_inv s \<Longrightarrow> drawer_inv (on_ui (viewport_changes b) s)"
  by (auto simp: drawer_inv_def drawer_defs)

lemma drawer_inv_step: "drawer_inv s \<Longrightarrow> drawer_inv (shell_step e s)"
proof -
  assume inv: "drawer_inv s"
  have "drawer_inv (shell_event_step e s)"
  proof (cases e)
    case (ShTheme throws t)
    then show ?thesis using inv by (simp add: shell_event_step_def drawer_inv_def set_theme_def save_prefs_def)
  qed (use inv drawer_inv_ui in \<open>auto simp: shell_event_step_def on_escape_def Let_def\<close>, simp_all add: drawer_inv_def)
  then show ?thesis by (simp add: shell_step_def run_effects_def watch_identity_def drawer_inv_def)
qed

text \<open>
  The drawer never traps anyone. Whenever it covers the page, Escape and any navigation take it away - Escape hands the focus back to the toggle, a navigation does not - unless another control took
  the key; on a wide viewport neither collapses the sidebar. A pending handoff of the focus never outlives the operation that left it, and neither way changes the preferences.
\<close>

theorem drawer_never_traps:
  "let s = run_shell a ns prefs narrow prefersDark es; escaped = shell_step (ShEscape False) s; moved = shell_step ShNavigates s in
   \<not> ui_focusPending (sh_ui s) \<and>
   \<not> modal escaped \<and> \<not> modal moved \<and>
   (if modal s then sh_focused escaped \<and> \<not> sh_focused moved else sidebarOpen (sh_ui escaped) = sidebarOpen (sh_ui s) \<and> sidebarOpen (sh_ui moved) = sidebarOpen (sh_ui s)) \<and>
   sh_ui (shell_step (ShEscape True) s) = sh_ui s \<and>
   ui_prefs (sh_ui escaped) = ui_prefs (sh_ui s) \<and> ui_prefs (sh_ui moved) = ui_prefs (sh_ui s)"
proof -
  let ?s = "run_shell a ns prefs narrow prefersDark es"
  have inv: "drawer_inv ?s"
    by (rule run_shell_fold) (simp_all add: drawer_inv_step, simp add: drawer_inv_def open_shell_def run_effects_def open_ui_def)
  have ui: "sh_ui (shell_step e s) = sh_ui (shell_event_step e s)" "sh_focused (shell_step e s) = sh_focused (shell_event_step e s)" for e s
    by (simp_all add: shell_step_def run_effects_def watch_identity_def)
  show ?thesis
    using inv by (cases "modal ?s") (simp_all add: Let_def ui modal_def, auto simp: shell_event_step_def on_escape_def modal_def drawer_inv_def drawer_defs)
qed

lemma theme_cycles: "nextTheme (nextTheme (nextTheme t)) = t \<and> distinct [t, nextTheme t, nextTheme (nextTheme t)]"
  by (cases t) (simp_all add: nextTheme_def theme_options_def Let_def)

end
