(* ===== verification/Widgets.thy ===== *)
theory Widgets
  imports Prelude
begin

text \<open>
  The wrappers of the two third-party widgets: the YAML editor (\<^verbatim>\<open>components/detail/CodeMirrorEditor.vue\<close>), which keeps the document of the editor and the
  text of its owner equal, and the terminal (\<^verbatim>\<open>components/pod/TerminalView.vue\<close>), which fits its grid to the host element. The libraries are represented
  by what the scripts hand them and what they report: a document, a grid. Line breaks are newlines; the terminal's grid for a content box is the parameter \<open>grid_of\<close>.
\<close>

section \<open>The editor\<close>

text \<open>\<open>ed_doc\<close> is the document of the editor while there is one, \<open>ed_model\<close> the owner's text, \<open>ed_emitted\<close> the texts reported to the owner.\<close>

record editor_view =
  ed_doc :: "jstring option"
  ed_model :: jstring
  ed_emitted :: "jstring list"

text \<open>\<^verbatim>\<open>updateListener\<close>: after a change of the document.\<close>

definition doc_changes :: "jstring \<Rightarrow> editor_view \<Rightarrow> editor_view" where
  "doc_changes s v =
     (let v1 = v\<lparr>ed_doc := Some s\<rparr> in if s = ed_model v1 then v1 else v1\<lparr>ed_model := s, ed_emitted := ed_emitted v1 @ [s]\<rparr>)"

definition model_changes :: "jstring \<Rightarrow> editor_view \<Rightarrow> editor_view" where
  "model_changes s v =
     (let v1 = v\<lparr>ed_model := s\<rparr>
      in case ed_doc v1 of None \<Rightarrow> v1 | Some d \<Rightarrow> if d = s then v1 else doc_changes s v1)"

datatype editor_event = EdMount | EdType jstring | EdModel jstring | EdUnmount

definition editor_step :: "editor_event \<Rightarrow> editor_view \<Rightarrow> editor_view" where
  "editor_step e v =
     (case e of
        EdMount \<Rightarrow> v\<lparr>ed_doc := Some (ed_model v)\<rparr>
      | EdType s \<Rightarrow> (case ed_doc v of None \<Rightarrow> v | Some d \<Rightarrow> if s = d then v else doc_changes s v)
      | EdModel s \<Rightarrow> if s = ed_model v then v else model_changes s v
      | EdUnmount \<Rightarrow> v\<lparr>ed_doc := None\<rparr>)"

definition new_editor :: "jstring \<Rightarrow> editor_view" where
  "new_editor s = \<lparr>ed_doc = None, ed_model = s, ed_emitted = []\<rparr>"

text \<open>The texts typed by the user that differed from the document at that moment.\<close>

definition typed :: "editor_event \<Rightarrow> editor_view \<Rightarrow> jstring list" where
  "typed e v = (case e of EdType s \<Rightarrow> (case ed_doc v of Some d \<Rightarrow> if s = d then [] else [s] | None \<Rightarrow> []) | _ \<Rightarrow> [])"

definition editor_inv :: "editor_view \<Rightarrow> bool" where
  "editor_inv v \<longleftrightarrow> (case ed_doc v of Some d \<Rightarrow> d = ed_model v | None \<Rightarrow> True)"

lemma editor_inv_step: "editor_inv v \<Longrightarrow> editor_inv (editor_step e v)"
  by (cases e) (auto simp: editor_step_def editor_inv_def doc_changes_def model_changes_def Let_def split: option.split)

lemma editor_inv_run: "editor_inv (fold editor_step es (new_editor s))"
proof -
  have "editor_inv v \<Longrightarrow> editor_inv (fold editor_step es v)" for v by (induction es arbitrary: v) (simp_all add: editor_inv_step)
  moreover have "editor_inv (new_editor s)" by (simp add: editor_inv_def new_editor_def)
  ultimately show ?thesis by blast
qed

text \<open>
  The editor and its owner never disagree: while it is mounted its document is the owner's text, whichever of them changed it; what the user types is reported once,
  and a text the owner sets is never reported back as an edit.
\<close>

theorem editor_mirrors_model:
  "let v = fold editor_step es (new_editor s) in
   (case ed_doc v of Some d \<Rightarrow> d = ed_model v | None \<Rightarrow> True) \<and>
   ed_emitted (editor_step e v) = ed_emitted v @ typed e v"
proof -
  let ?v = "fold editor_step es (new_editor s)"
  have "editor_inv ?v" by (rule editor_inv_run)
  then show ?thesis
    by (cases e) (auto simp: Let_def editor_inv_def editor_step_def typed_def doc_changes_def model_changes_def split: option.split)
qed

section \<open>The terminal\<close>

text \<open>\<open>tw_box\<close> is the content box of the host, \<open>tw_lastFit\<close> the box of the last report of the observer, \<open>tw_sent\<close> each grid reported upstream with the box it was
  measured on. Measuring leaves the padding out: a host is visible when its box has both sizes.\<close>

record terminal_view =
  tw_mounted :: bool
  tw_box :: "nat \<times> nat"
  tw_lastFit :: "nat \<times> nat"
  tw_grid :: "nat \<times> nat"
  tw_sent :: "((nat \<times> nat) \<times> (nat \<times> nat)) list"

definition isVisible :: "terminal_view \<Rightarrow> bool" where
  "isVisible t \<longleftrightarrow> 0 < fst (tw_box t) \<and> 0 < snd (tw_box t)"

text \<open>The library resizes when the grid is another one, and reports it once the listener is there.\<close>

definition fit :: "(nat \<times> nat \<Rightarrow> nat \<times> nat) \<Rightarrow> bool \<Rightarrow> terminal_view \<Rightarrow> terminal_view" where
  "fit grid_of listening t =
     (let g = grid_of (tw_box t)
      in if g = tw_grid t then t else t\<lparr>tw_grid := g, tw_sent := (if listening then tw_sent t @ [(tw_box t, g)] else tw_sent t)\<rparr>)"

definition fitNow :: "(nat \<times> nat \<Rightarrow> nat \<times> nat) \<Rightarrow> bool \<Rightarrow> terminal_view \<Rightarrow> terminal_view" where
  "fitNow grid_of listening t = (if tw_mounted t \<and> isVisible t then fit grid_of listening t else t)"

definition observed :: "(nat \<times> nat \<Rightarrow> nat \<times> nat) \<Rightarrow> terminal_view \<Rightarrow> terminal_view" where
  "observed grid_of t = (if tw_box t = tw_lastFit t then t else fitNow grid_of True (t\<lparr>tw_lastFit := tw_box t\<rparr>))"

datatype terminal_event = TwLayout "nat \<times> nat" | TwFit | TwUnmount

text \<open>A layout runs the observer, which also reports once when it starts to observe.\<close>

definition terminal_step :: "(nat \<times> nat \<Rightarrow> nat \<times> nat) \<Rightarrow> terminal_event \<Rightarrow> terminal_view \<Rightarrow> terminal_view" where
  "terminal_step grid_of e t =
     (case e of
        TwLayout box \<Rightarrow> if tw_mounted t then observed grid_of (t\<lparr>tw_box := box\<rparr>) else t\<lparr>tw_box := box\<rparr>
      | TwFit \<Rightarrow> fitNow grid_of True t
      | TwUnmount \<Rightarrow> t\<lparr>tw_mounted := False\<rparr>)"

definition mount_terminal :: "(nat \<times> nat \<Rightarrow> nat \<times> nat) \<Rightarrow> nat \<times> nat \<Rightarrow> nat \<times> nat \<Rightarrow> terminal_view" where
  "mount_terminal grid_of initial box =
     observed grid_of (fitNow grid_of False \<lparr>tw_mounted = True, tw_box = box, tw_lastFit = (0, 0), tw_grid = initial, tw_sent = []\<rparr>)"

definition terminal_size :: "terminal_view \<Rightarrow> (nat \<times> nat) option" where
  "terminal_size t = (if tw_mounted t then Some (tw_grid t) else None)"

definition terminal_inv :: "(nat \<times> nat \<Rightarrow> nat \<times> nat) \<Rightarrow> terminal_view \<Rightarrow> bool" where
  "terminal_inv grid_of t \<longleftrightarrow>
     list_all (\<lambda>(box, g). 0 < fst box \<and> 0 < snd box \<and> g = grid_of box) (tw_sent t) \<and>
     (tw_mounted t \<longrightarrow> tw_lastFit t = tw_box t \<and> (isVisible t \<longrightarrow> tw_grid t = grid_of (tw_box t)))"

lemmas terminal_defs = terminal_inv_def fitNow_def fit_def observed_def isVisible_def Let_def

lemma terminal_inv_step: "terminal_inv grid_of t \<Longrightarrow> terminal_inv grid_of (terminal_step grid_of e t)"
  by (cases e) (auto simp: terminal_step_def terminal_defs)

lemma terminal_inv_run: "terminal_inv grid_of (fold (terminal_step grid_of) es (mount_terminal grid_of initial box))"
proof -
  have "terminal_inv grid_of t \<Longrightarrow> terminal_inv grid_of (fold (terminal_step grid_of) es t)" for t
    by (induction es arbitrary: t) (simp_all add: terminal_inv_step)
  moreover have "terminal_inv grid_of (mount_terminal grid_of initial box)" by (auto simp: mount_terminal_def terminal_defs)
  ultimately show ?thesis by blast
qed

text \<open>
  C40. A hidden terminal never reshapes the shell behind it, and a visible one always has its true shape: every grid sent upstream was measured on a visible host,
  and whenever the mounted terminal is visible its grid is the one of the box it has now - however often it was hidden, shown and resized between.
\<close>

theorem terminal_grid_is_true:
  "let t = fold (terminal_step grid_of) es (mount_terminal grid_of initial box) in
   list_all (\<lambda>(b, g). 0 < fst b \<and> 0 < snd b \<and> g = grid_of b) (tw_sent t) \<and>
   (if tw_mounted t \<and> isVisible t then terminal_size t = Some (grid_of (tw_box t)) else True)"
  using terminal_inv_run [of grid_of es initial box] by (auto simp: Let_def terminal_inv_def terminal_size_def)

end
