(* ===== verification/TreeRender.thy ===== *)
theory TreeRender
  imports Overview "HOL-Library.Sublist"
begin

text \<open>
  The recursion of \<^verbatim>\<open>components/detail/ObjectFieldTree.vue\<close>: which rows of a field tree are on screen. Every group and every item that is open mounts
  an instance of the component one level deeper, with toggles of its own: \<open>vs\<close> gives the view of the instance at a path of keys, a fresh one where there is none.
\<close>

datatype tree_row =
    RowField "jstring list" field_node
  | RowGroup "jstring list" jstring nat bool
  | RowItem "jstring list" jstring bool

definition item_key :: "jstring \<Rightarrow> nat \<Rightarrow> jstring" where
  "item_key k ii = k @ '':'' @ show_nat ii"

lemma size_child: "c \<in> set cs \<Longrightarrow> size c < Suc (size_list size cs)"
  by (induction cs) auto

lemma size_item_child:
  "(ii, title, cs, cnt) \<in> set (enumerate m items) \<Longrightarrow> c \<in> set cs \<Longrightarrow>
   size c < Suc (size_list (size_prod (\<lambda>_. 0) (size_prod (size_list size) (\<lambda>_. 0))) items)"
proof (induction items arbitrary: m)
  case (Cons x items)
  then show ?case using size_child [of c cs] by (cases x) (fastforce simp: less_Suc_eq)
qed simp

text \<open>The rows of one node, in the instance at \<open>path\<close> of depth \<open>depth\<close>.\<close>

function shown_rows :: "(jstring list \<Rightarrow> tree_view) \<Rightarrow> nat \<Rightarrow> jstring list \<Rightarrow> field_node \<Rightarrow> tree_row list" where
  "shown_rows vs depth path (GroupNode k l children cnt) =
     (let shown = isOpen k (defaultGroupOpen depth cnt) (vs path)
      in RowGroup path k cnt shown # (if shown then concat (map (shown_rows vs (Suc depth) (path @ [k])) children) else []))"
| "shown_rows vs depth path (ItemsNode k l items cnt) =
     concat (map (\<lambda>(ii, title, children, n).
       let shown = isOpen (item_key k ii) (defaultItemOpen depth (length items) n) (vs path)
       in RowItem path title shown #
          (if shown then concat (map (shown_rows vs (Suc depth) (path @ [item_key k ii @ '':'' @ title])) children) else [])) (enumerate 0 items))"
| "shown_rows vs depth path (LeafNode x) = [RowField path (LeafNode x)]"
| "shown_rows vs depth path (ChipsNode k l cs) = [RowField path (ChipsNode k l cs)]"
| "shown_rows vs depth path (TableNode k l cols rows) = [RowField path (TableNode k l cols rows)]"
  by pat_completeness auto
termination
  by (relation "measure (\<lambda>(vs, depth, path, n). size n)") (auto simp del: enumerate_simps intro: size_child size_item_child)

definition tree_rows :: "(jstring list \<Rightarrow> tree_view) \<Rightarrow> field_node list \<Rightarrow> tree_row list" where
  "tree_rows vs nodes = concat (map (shown_rows vs 0 []) nodes)"


section \<open>How many rows are shown\<close>

definition row_size :: "tree_row \<Rightarrow> nat" where
  "row_size r = (case r of RowField _ n \<Rightarrow> rows_of n | RowGroup _ _ _ _ \<Rightarrow> 0 | RowItem _ _ _ \<Rightarrow> 1)"

definition rows_shown :: "tree_row list \<Rightarrow> nat" where
  "rows_shown rs = sum_list (map row_size rs)"

lemma rows_shown_simps [simp]:
  "rows_shown [] = 0" "rows_shown (r # rs) = row_size r + rows_shown rs" "rows_shown (as @ bs) = rows_shown as + rows_shown bs"
  by (simp_all add: rows_shown_def)

lemma rows_shown_concat: "rows_shown (concat (map f xs)) = sum_list (map (\<lambda>x. rows_shown (f x)) xs)"
  by (induction xs) simp_all

lemma sum_items: "sum_list (map (\<lambda>(i, x). f x) (enumerate m xs)) = sum_list (map f xs)"
  by (induction xs arbitrary: m) auto

lemma sum_items_le:
  "(\<And>i x. (i, x) \<in> set (enumerate m xs) \<Longrightarrow> f (i, x) \<le> g x) \<Longrightarrow> sum_list (map f (enumerate m xs)) \<le> (sum_list (map g xs) :: nat)"
proof (induction xs arbitrary: m)
  case (Cons x xs)
  have "f (m, x) \<le> g x" "sum_list (map f (enumerate (Suc m) xs)) \<le> sum_list (map g xs)"
    using Cons.prems by (auto intro: Cons.IH)
  then show ?case by simp
qed simp

lemma sum_children_le: "(\<And>c. c \<in> set cs \<Longrightarrow> f c \<le> g c) \<Longrightarrow> sum_list (map f cs) \<le> (sum_list (map g cs) :: nat)"
  by (rule sum_list_mono)

lemma shown_at_most: "rows_shown (shown_rows vs depth path n) \<le> rows_of n"
proof (induction vs depth path n rule: shown_rows.induct)
  case (1 vs depth path k l children cnt)
  show ?case
  proof (cases "isOpen k (defaultGroupOpen depth cnt) (vs path)")
    case True
    have "sum_list (map (\<lambda>c. rows_shown (shown_rows vs (Suc depth) (path @ [k]) c)) children) \<le> sum_list (map rows_of children)"
      by (rule sum_children_le) (use "1.IH" True in auto)
    then show ?thesis using True by (simp add: Let_def row_size_def rows_shown_concat)
  qed (simp add: Let_def row_size_def)
next
  case (2 vs depth path k l items cnt)
  let ?f = "\<lambda>(ii, title, children, n).
       let shown = isOpen (item_key k ii) (defaultItemOpen depth (length items) n) (vs path)
       in RowItem path title shown #
          (if shown then concat (map (shown_rows vs (Suc depth) (path @ [item_key k ii @ '':'' @ title])) children) else [])"
  have "rows_shown (?f (i, x)) \<le> (case x of (_, children, _) \<Rightarrow> 1 + sum_list (map rows_of children))" if "(i, x) \<in> set (enumerate 0 items)" for i x
  proof -
    obtain title children n where x: "x = (title, children, n)" using prod_cases3 by blast
    show ?thesis
    proof (cases "isOpen (item_key k i) (defaultItemOpen depth (length items) n) (vs path)")
      case True
      have "sum_list (map (\<lambda>c. rows_shown (shown_rows vs (Suc depth) (path @ [item_key k i @ '':'' @ title]) c)) children) \<le> sum_list (map rows_of children)"
        by (rule sum_children_le) (use "2.IH" [OF that [unfolded x] _ _ _ refl] True x in auto)
      then show ?thesis using True by (simp add: x Let_def row_size_def rows_shown_concat)
    qed (simp add: x Let_def row_size_def)
  qed
  then have "sum_list (map (\<lambda>x. rows_shown (?f x)) (enumerate 0 items)) \<le> sum_list (map (\<lambda>(_, children, _). 1 + sum_list (map rows_of children)) items)"
    by (rule sum_items_le)
  then show ?case by (simp add: rows_shown_concat)
qed (simp_all add: row_size_def)


definition first_paint :: "jstring list \<Rightarrow> tree_view" where
  "first_paint _ = new_tree_view"

lemma first_paint_open [simp]: "isOpen k f (first_paint p) = f"
  by (simp add: first_paint_def isOpen_def new_tree_view_def)

definition paint_bound :: "field_node \<Rightarrow> nat" where
  "paint_bound n =
     (case n of
        GroupNode _ _ _ _ \<Rightarrow> MAX_OPEN_SIZE
      | ItemsNode _ _ items _ \<Rightarrow> length items + MAX_OPEN_ITEMS * MAX_OPEN_SIZE
      | _ \<Rightarrow> rows_of n)"

lemma group_paint:
  assumes "counts_ok (GroupNode k l children cnt)"
  shows "rows_shown (shown_rows first_paint depth path (GroupNode k l children cnt)) \<le> MAX_OPEN_SIZE"
proof (cases "defaultGroupOpen depth cnt")
  case True
  then have "rows_of (GroupNode k l children cnt) \<le> MAX_OPEN_SIZE" using assms by (simp add: defaultGroupOpen_def)
  then show ?thesis using shown_at_most le_trans by blast
qed (simp add: Let_def row_size_def)

lemma item_paint:
  assumes "counts_ok (ItemsNode k l items cnt)" "(title, children, n) \<in> set items"
  shows "rows_shown (if defaultItemOpen depth (length items) n then concat (map (shown_rows vs (Suc depth) path) children) else []) \<le>
         (if length items \<le> MAX_OPEN_ITEMS then MAX_OPEN_SIZE else 0)"
proof (cases "defaultItemOpen depth (length items) n")
  case True
  have "rows_shown (concat (map (shown_rows vs (Suc depth) path) children)) \<le> sum_list (map rows_of children)"
    unfolding rows_shown_concat by (rule sum_children_le) (rule shown_at_most)
  also have "\<dots> = n" using assms by (auto simp: list_all_iff)
  finally show ?thesis using True by (simp add: defaultItemOpen_def)
qed simp

lemma items_paint:
  assumes "counts_ok (ItemsNode k l items cnt)"
  shows "rows_shown (shown_rows first_paint depth path (ItemsNode k l items cnt)) \<le> length items + MAX_OPEN_ITEMS * MAX_OPEN_SIZE"
proof -
  let ?b = "if length items \<le> MAX_OPEN_ITEMS then MAX_OPEN_SIZE else 0"
  let ?f = "\<lambda>(ii, title, children, n).
       let shown = isOpen (item_key k ii) (defaultItemOpen depth (length items) n) (first_paint path)
       in RowItem path title shown #
          (if shown then concat (map (shown_rows first_paint (Suc depth) (path @ [item_key k ii @ '':'' @ title])) children) else [])"
  have "rows_shown (?f (i, x)) \<le> Suc ?b" if "(i, x) \<in> set (enumerate 0 items)" for i x
  proof -
    obtain title children n where x: "x = (title, children, n)" using prod_cases3 by blast
    then have "(title, children, n) \<in> set items" using that nth_mem [of i items] by (auto simp: in_set_enumerate_eq)
    from item_paint [OF assms this, of depth first_paint "path @ [item_key k i @ '':'' @ title]"]
    show ?thesis by (cases "defaultItemOpen depth (length items) n") (simp_all add: x Let_def row_size_def)
  qed
  then have "sum_list (map (\<lambda>x. rows_shown (?f x)) (enumerate 0 items)) \<le> sum_list (map (\<lambda>_. Suc ?b) items)"
    by (rule sum_items_le)
  also have "\<dots> = length items + length items * ?b" by (simp add: sum_list_triv)
  also have "\<dots> \<le> length items + MAX_OPEN_ITEMS * MAX_OPEN_SIZE" by simp
  finally show ?thesis by (simp add: rows_shown_concat)
qed

text \<open>The parts of a tree in its order: headings, item titles and, at the bottom, the fields, chips and tables.\<close>

datatype tree_part = Heading jstring nat | Title jstring | Field field_node

fun tree_parts :: "field_node \<Rightarrow> tree_part list" where
  "tree_parts (GroupNode k l children cnt) = Heading k cnt # concat (map tree_parts children)"
| "tree_parts (ItemsNode k l items cnt) = concat (map (\<lambda>(title, children, _). Title title # concat (map tree_parts children)) items)"
| "tree_parts n = [Field n]"

definition part_of :: "tree_row \<Rightarrow> tree_part" where
  "part_of r = (case r of RowField _ n \<Rightarrow> Field n | RowGroup _ k cnt _ \<Rightarrow> Heading k cnt | RowItem _ title _ \<Rightarrow> Title title)"

lemma part_of_simps [simp]:
  "part_of (RowField p n) = Field n" "part_of (RowGroup p k cnt b) = Heading k cnt" "part_of (RowItem p title b) = Title title"
  by (simp_all add: part_of_def)

lemma subseq_concat: "(\<And>x. x \<in> set xs \<Longrightarrow> subseq (f x) (g x)) \<Longrightarrow> subseq (concat (map f xs)) (concat (map g xs))"
  by (induction xs) (auto intro: list_emb_append_mono)

lemma subseq_items:
  "(\<And>i x. (i, x) \<in> set (enumerate m xs) \<Longrightarrow> subseq (f (i, x)) (g x)) \<Longrightarrow> subseq (concat (map f (enumerate m xs))) (concat (map g xs))"
proof (induction xs arbitrary: m)
  case (Cons x xs)
  have "subseq (f (m, x)) (g x)" "subseq (concat (map f (enumerate (Suc m) xs))) (concat (map g xs))"
    using Cons.prems by (auto intro: Cons.IH)
  then show ?case by (simp add: list_emb_append_mono)
qed simp

lemma shown_in_tree: "subseq (map part_of (shown_rows vs depth path n)) (tree_parts n)"
proof (induction vs depth path n rule: shown_rows.induct)
  case (1 vs depth path k l children cnt)
  show ?case
  proof (cases "isOpen k (defaultGroupOpen depth cnt) (vs path)")
    case True
    have "subseq (concat (map (\<lambda>c. map part_of (shown_rows vs (Suc depth) (path @ [k]) c)) children)) (concat (map tree_parts children))"
      by (rule subseq_concat) (use "1.IH" True in auto)
    then show ?thesis using True by (simp add: Let_def map_concat comp_def)
  qed (simp add: Let_def)
next
  case (2 vs depth path k l items cnt)
  let ?f = "\<lambda>(ii, title, children, n).
       let shown = isOpen (item_key k ii) (defaultItemOpen depth (length items) n) (vs path)
       in RowItem path title shown #
          (if shown then concat (map (shown_rows vs (Suc depth) (path @ [item_key k ii @ '':'' @ title])) children) else [])"
  have "subseq (map part_of (?f (i, x))) (case x of (title, children, _) \<Rightarrow> Title title # concat (map tree_parts children))"
    if "(i, x) \<in> set (enumerate 0 items)" for i x
  proof -
    obtain title children n where x: "x = (title, children, n)" using prod_cases3 by blast
    show ?thesis
    proof (cases "isOpen (item_key k i) (defaultItemOpen depth (length items) n) (vs path)")
      case True
      have "subseq (concat (map (\<lambda>c. map part_of (shown_rows vs (Suc depth) (path @ [item_key k i @ '':'' @ title]) c)) children))
          (concat (map tree_parts children))"
        by (rule subseq_concat) (use "2.IH" [OF that [unfolded x] _ _ _ refl] True x in auto)
      then show ?thesis using True by (simp add: x Let_def map_concat comp_def)
    qed (simp add: x Let_def)
  qed
  from subseq_items [of 0 items "\<lambda>p. map part_of (?f p)", OF this] show ?case by (simp add: map_concat comp_def)
qed simp_all

text \<open>
  C39. What a tree shows at first is bounded, and it is never anything else than the tree. Before any toggle a group shows at most 25 lines of values and item titles, and a list of
  items its titles and at most 75 such lines more, whatever the object; headings, one line each, are not counted, and what stands at the top outside groups and lists - a field,
  chips, a table - is shown whole. Whatever is toggled, the rows on screen are headings, titles, fields, chips and tables of the tree, in its order, each shown no
  more often than it is there; and no more lines than the tree has.
\<close>

theorem first_paint_is_bounded:
  "list_all (\<lambda>n. rows_shown (shown_rows first_paint 0 [] n) \<le> paint_bound n \<and>
       subseq (map part_of (shown_rows vs 0 [] n)) (tree_parts n) \<and> rows_shown (shown_rows vs 0 [] n) \<le> rows_of n) (buildFieldTree env v skipKeys)"
proof -
  have "list_all counts_ok (buildFieldTree env v skipKeys)"
    using build_ok by (cases v) (auto simp: buildFieldTree_def list_all_iff)
  moreover have "rows_shown (shown_rows first_paint 0 [] n) \<le> paint_bound n" if "counts_ok n" for n
  proof (cases n)
    case (GroupNode k l children cnt)
    then show ?thesis using that group_paint by (simp add: paint_bound_def del: shown_rows.simps counts_ok.simps)
  next
    case (ItemsNode k l items cnt)
    then show ?thesis using that items_paint by (simp add: paint_bound_def del: shown_rows.simps counts_ok.simps)
  qed (simp_all add: paint_bound_def row_size_def)
  ultimately show ?thesis using shown_at_most shown_in_tree by (auto simp: list_all_iff)
qed

text \<open>Opening every group and item shows every row.\<close>

lemma all_open_shows_all:
  "(\<And>p k f. isOpen k f (vs p)) \<Longrightarrow> rows_shown (shown_rows vs depth path n) = rows_of n"
proof (induction vs depth path n rule: shown_rows.induct)
  case (1 vs depth path k l children cnt)
  have "sum_list (map (\<lambda>c. rows_shown (shown_rows vs (Suc depth) (path @ [k]) c)) children) = sum_list (map rows_of children)"
    by (rule arg_cong [of _ _ sum_list], rule map_cong) (use 1 in auto)
  then show ?case using "1.prems" by (simp add: Let_def row_size_def rows_shown_concat)
next
  case (2 vs depth path k l items cnt)
  have "sum_list (map (\<lambda>c. rows_shown (shown_rows vs (Suc depth) (path @ [item_key k i @ '':'' @ title]) c)) children) = sum_list (map rows_of children)"
    if "(i, title, children, n) \<in> set (enumerate 0 items)" for i title children n
    by (rule arg_cong [of _ _ sum_list], rule map_cong) (use "2.IH" [OF that refl refl refl refl] "2.prems" in auto)
  then have "map (\<lambda>x. rows_shown (case x of (ii, title, children, n) \<Rightarrow>
       RowItem path title True # concat (map (shown_rows vs (Suc depth) (path @ [item_key k ii @ '':'' @ title])) children))) (enumerate 0 items) =
     map (\<lambda>(i, x). case x of (_, children, _) \<Rightarrow> 1 + sum_list (map rows_of children)) (enumerate 0 items)"
    by (intro map_cong) (auto simp: row_size_def rows_shown_concat)
  from arg_cong [OF this, of sum_list, unfolded sum_items] show ?case
    using "2.prems" by (simp add: Let_def rows_shown_concat del: map_eq_conv)
qed (simp_all add: row_size_def)

end
