(* ===== verification/Startup.thy ===== *)
theory Startup
  imports Auth Writes
begin

text \<open>
  How the program starts (\<^verbatim>\<open>main.ts\<close>): the auth mode is asked for before anything is routed or mounted, and the navigation guard (\<^verbatim>\<open>router/index.ts\<close>) waits for the
  answer. The probe settles once, by an answer, an error or its timeout. The fixed requests of the adapter client (\<^verbatim>\<open>api/ui.ts\<close>) are here as well.
\<close>

section \<open>Requests of the adapter\<close>

definition fetchAuthMode :: api_request where "fetchAuthMode = json_get ''/api/ui/auth/mode''"
definition fetchContexts :: api_request where "fetchContexts = json_get ''/api/ui/contexts''"
definition fetchDiscovery :: api_request where "fetchDiscovery = json_get ''/api/ui/discovery''"
definition fetchMetricsCapabilities :: api_request where "fetchMetricsCapabilities = json_get ''/api/ui/metrics/capabilities''"
definition fetchAllNodeMetrics :: api_request where "fetchAllNodeMetrics = json_get ''/api/ui/metrics/nodes''"

section \<open>The start\<close>

datatype auth_mode = ModeKubeconfig | ModeToken

text \<open>\<open>su_waiting\<close> are the navigations the guard holds, \<open>su_decided\<close> what it decided.\<close>

record startup =
  su_auth :: auth_state
  su_ready :: bool
  su_mounted :: bool
  su_waiting :: "target_route list"
  su_decided :: "(target_route \<times> guard_result) list"

definition resolveAuthMode :: "thrown + auth_mode \<Rightarrow> auth_state \<Rightarrow> auth_state" where
  "resolveAuthMode r a = (case r of Inl _ \<Rightarrow> a | Inr mode \<Rightarrow> if mode = ModeKubeconfig then setLocalAuth True a else a)"

definition decide :: "int \<Rightarrow> target_route \<Rightarrow> startup \<Rightarrow> startup" where
  "decide now dest s =
     (let (r, a) = before_each now dest (su_auth s) in s\<lparr>su_auth := a, su_decided := su_decided s @ [(dest, r)]\<rparr>)"

definition guard_navigation :: "int \<Rightarrow> target_route \<Rightarrow> startup \<Rightarrow> startup" where
  "guard_navigation now dest s = (if su_ready s then decide now dest s else s\<lparr>su_waiting := su_waiting s @ [dest]\<rparr>)"

text \<open>The probe settles: the held navigations go on in their order, and the app is mounted.\<close>

definition mode_settles :: "int \<Rightarrow> thrown + auth_mode \<Rightarrow> startup \<Rightarrow> startup" where
  "mode_settles now r s =
     (if su_ready s then s
      else let s1 = fold (decide now) (su_waiting s) (s\<lparr>su_auth := resolveAuthMode r (su_auth s), su_ready := True, su_waiting := []\<rparr>)
           in s1\<lparr>su_mounted := True\<rparr>)"

datatype startup_event = StNavigate int target_route | StMode int "thrown + auth_mode" | StAuth auth_event

text \<open>\<open>StAuth\<close> is any operation of the store but those of the mode itself.\<close>

definition startup_step :: "startup_event \<Rightarrow> startup \<Rightarrow> startup" where
  "startup_step e s =
     (case e of
        StNavigate now dest \<Rightarrow> guard_navigation now dest s
      | StMode now r \<Rightarrow> mode_settles now r s
      | StAuth ae \<Rightarrow> (case ae of EvLocalAuth _ \<Rightarrow> s | _ \<Rightarrow> s\<lparr>su_auth := auth_step ae (su_auth s)\<rparr>))"

definition start_program :: "auth_state \<Rightarrow> startup" where
  "start_program a = \<lparr>su_auth = a, su_ready = False, su_mounted = False, su_waiting = [], su_decided = []\<rparr>"

section \<open>Nothing is decided before the mode is known\<close>

lemma mode_kept [simp]:
  "au_local (setSession now c t i u a) = au_local a" "au_local (setActiveContext now c a) = au_local a" "au_local (setLocalIdentity i u a) = au_local a"
  by (simp_all add: setSession_def setActiveContext_def setLocalIdentity_def)

lemma guard_keeps_mode [simp]: "au_local (snd (before_each now dest a)) = au_local a"
  by (simp add: before_each_def Let_def)

lemma recovery_keeps_mode [simp]: "au_local (snd (recoverFromUnknownContext now route c d a)) = au_local a"
  by (simp add: recoverFromUnknownContext_def Let_def split: current_route.split)

lemma handlers_keep_mode [simp]: "au_local (fold (run_handler now route d) hs a) = au_local a"
proof -
  have "au_local (run_handler now route d h a) = au_local a" for h a
    by (cases h) (simp_all add: run_handler_def logout_def unauthorized_handler_def unknown_context_handler_def Let_def)
  then show ?thesis by (induction hs arbitrary: a) simp_all
qed

text \<open>Only \<^verbatim>\<open>setLocalAuth\<close> changes the mode.\<close>

lemma operations_keep_mode: "case e of EvLocalAuth _ \<Rightarrow> True | _ \<Rightarrow> au_local (auth_step e a) = au_local a"
  by (cases e) (simp_all add: clearActiveSession_def getBearerToken_def Let_def reconcile_contexts_def)

definition no_login :: "target_route \<times> guard_result \<Rightarrow> bool" where
  "no_login d = (case snd d of RedirectLogin _ \<Rightarrow> False | _ \<Rightarrow> True)"

lemma local_is_never_sent_to_login: "au_local a \<Longrightarrow> no_login (dest, fst (before_each now dest a))"
  by (simp add: no_login_def before_each_def Let_def isAuthenticated_def hasSession_def)

definition startup_inv :: "startup \<Rightarrow> bool" where
  "startup_inv s \<longleftrightarrow>
     su_mounted s = su_ready s \<and> (su_ready s \<longrightarrow> su_waiting s = []) \<and> (\<not> su_ready s \<longrightarrow> su_decided s = [] \<and> \<not> au_local (su_auth s)) \<and>
     (au_local (su_auth s) \<longrightarrow> list_all no_login (su_decided s))"

definition all_navigations :: "startup \<Rightarrow> target_route list" where
  "all_navigations s = map fst (su_decided s) @ su_waiting s"

lemma decide_facts:
  "su_ready (decide now dest s) = su_ready s" "su_mounted (decide now dest s) = su_mounted s" "su_waiting (decide now dest s) = su_waiting s"
  "au_local (su_auth (decide now dest s)) = au_local (su_auth s)" "map fst (su_decided (decide now dest s)) = map fst (su_decided s) @ [dest]"
  "au_local (su_auth s) \<Longrightarrow> list_all no_login (su_decided s) \<Longrightarrow> list_all no_login (su_decided (decide now dest s))"
  using local_is_never_sent_to_login [of "su_auth s" dest now] guard_keeps_mode [of now dest "su_auth s"]
  by (simp_all add: decide_def case_prod_beta Let_def)

lemma decides_facts:
  "su_ready (fold (decide now) ds s) = su_ready s" "su_mounted (fold (decide now) ds s) = su_mounted s" "su_waiting (fold (decide now) ds s) = su_waiting s"
  "au_local (su_auth (fold (decide now) ds s)) = au_local (su_auth s)" "map fst (su_decided (fold (decide now) ds s)) = map fst (su_decided s) @ ds"
  "au_local (su_auth s) \<Longrightarrow> list_all no_login (su_decided s) \<Longrightarrow> list_all no_login (su_decided (fold (decide now) ds s))"
  by (induction ds arbitrary: s) (simp_all add: decide_facts)

lemma startup_inv_step: "startup_inv s \<Longrightarrow> startup_inv (startup_step e s)"
proof (cases e)
  case (StAuth ae)
  assume "startup_inv s"
  then show ?thesis using StAuth operations_keep_mode [of ae "su_auth s"]
    by (cases ae) (simp_all add: startup_step_def startup_inv_def del: auth_step.simps)
qed (auto simp: startup_step_def startup_inv_def guard_navigation_def mode_settles_def Let_def decide_facts decides_facts)

definition asked_route :: "startup_event \<Rightarrow> target_route list" where
  "asked_route e = (case e of StNavigate _ dest \<Rightarrow> [dest] | _ \<Rightarrow> [])"

lemma navigations_step: "startup_inv s \<Longrightarrow> all_navigations (startup_step e s) = all_navigations s @ asked_route e"
  by (cases e) (auto simp: startup_step_def guard_navigation_def mode_settles_def Let_def decide_facts decides_facts all_navigations_def asked_route_def
      startup_inv_def split: auth_event.split)

text \<open>How the probe ended, read off the events: the first answer, error or timeout there is.\<close>

fun probe_result :: "startup_event list \<Rightarrow> (thrown + auth_mode) option" where
  "probe_result [] = None"
| "probe_result (e # es) = (case e of StMode _ r \<Rightarrow> Some r | _ \<Rightarrow> probe_result es)"

definition probed_local :: "(thrown + auth_mode) option \<Rightarrow> bool" where
  "probed_local r = (case r of Some (Inr ModeKubeconfig) \<Rightarrow> True | _ \<Rightarrow> False)"

lemma ready_stays: "su_ready s \<Longrightarrow> su_ready (startup_step e s) \<and> au_local (su_auth (startup_step e s)) = au_local (su_auth s)"
proof (cases e)
  case (StAuth ae)
  assume "su_ready s"
  then show ?thesis using StAuth operations_keep_mode [of ae "su_auth s"]
    by (cases ae) (simp_all add: startup_step_def del: auth_step.simps)
qed (auto simp: startup_step_def guard_navigation_def mode_settles_def decide_facts)

lemma ready_runs: "su_ready s \<Longrightarrow> su_ready (fold startup_step es s) \<and> au_local (su_auth (fold startup_step es s)) = au_local (su_auth s)"
  by (induction es arbitrary: s) (simp_all add: ready_stays)

lemma mode_follows_probe:
  "\<not> su_ready s \<Longrightarrow> \<not> au_local (su_auth s) \<Longrightarrow>
   su_ready (fold startup_step es s) = (probe_result es \<noteq> None) \<and> au_local (su_auth (fold startup_step es s)) = probed_local (probe_result es)"
proof (induction es arbitrary: s)
  case (Cons e es)
  show ?case
  proof (cases e)
    case (StMode now r)
    let ?s = "startup_step e s"
    have "su_ready ?s" "au_local (su_auth ?s) = probed_local (Some r)"
      using StMode Cons.prems
      by (auto simp: startup_step_def mode_settles_def Let_def decides_facts resolveAuthMode_def setLocalAuth_def probed_local_def split: sum.split auth_mode.split)
    then show ?thesis using ready_runs [of ?s es] StMode by simp
  next
    case (StNavigate now dest)
    then show ?thesis using Cons by (simp add: startup_step_def guard_navigation_def)
  next
    case (StAuth ae)
    have "\<not> su_ready (startup_step e s)" "\<not> au_local (su_auth (startup_step e s))"
      using StAuth Cons.prems operations_keep_mode [of ae "su_auth s"] by (cases ae; simp add: startup_step_def del: auth_step.simps)+
    then show ?thesis using Cons.IH StAuth by simp
  qed
qed (simp add: probed_local_def)

text \<open>
  C19. Nothing is routed or mounted before the auth mode is known, and the mode is what the backend answered: the local kubeconfig mode is on exactly when the probe's answer was
  kubeconfig - a token answer, an error or a timeout leaves the token mode - and the app is mounted whichever way the probe ended. No navigation is lost by waiting: every one is
  decided once, in order, after the probe has settled; in the local mode none is ever sent to the sign-in page, which that mode does not have.
\<close>

theorem mode_is_known_before_routing:
  "let s = fold startup_step es (start_program (open_store now0 works raw)) in
   su_ready s = (probe_result es \<noteq> None) \<and> au_local (su_auth s) = probed_local (probe_result es) \<and>
   su_mounted s = su_ready s \<and>
   (if su_ready s then su_waiting s = [] else su_decided s = []) \<and>
   map fst (su_decided s) @ su_waiting s = concat (map asked_route es) \<and>
   (if probed_local (probe_result es) then list_all no_login (su_decided s) else True)"
proof -
  let ?s0 = "start_program (open_store now0 works raw)"
  have init: "startup_inv ?s0" "\<not> su_ready ?s0" "\<not> au_local (su_auth ?s0)" by (simp_all add: startup_inv_def start_program_def open_store_def Let_def)
  have "startup_inv s \<Longrightarrow> startup_inv (fold startup_step es s) \<and> all_navigations (fold startup_step es s) = all_navigations s @ concat (map asked_route es)" for s
    by (induction es arbitrary: s) (simp_all add: startup_inv_step navigations_step)
  from this [OF init(1)] have inv: "startup_inv (fold startup_step es ?s0)"
    and navs: "all_navigations (fold startup_step es ?s0) = concat (map asked_route es)" by (simp_all add: all_navigations_def start_program_def)
  then show ?thesis using mode_follows_probe [OF init(2,3), of es] by (auto simp: Let_def startup_inv_def all_navigations_def)
qed

end
