(* ===== verification/Spec2Isabelle.thy ===== *)
theory Spec2Isabelle
  imports MetricsCache PodSeries CommandLine LogViewer Auth ResourceList PollingLoop Catalog PodHealth PodEnv FieldFilter Units FieldTree Stores DetailPage DetailObject ExecSession
    ClusterSummary MetricsPolling YamlView ResourceActions Chrome ProblemPods TableView ListPage YamlEditor WorkloadLogs TerminalTab Cards Writes Pickers Sidebar MetricsTabs Charts EnvTab Login Overview TableCells DetailScreen Shell Widgets TreeRender Startup
begin
text \<open>
  The browser program of kube-console (\<^verbatim>\<open>web/src\<close>): a single-page console for Kubernetes clusters. A backend proxies the API server and answers a few
  adapter requests; everything below is the TypeScript program. Paths are relative to \<^verbatim>\<open>web/src\<close>.

  \<^bold>\<open>The program and how its parts interact.\<close> \<^verbatim>\<open>main.ts\<close> asks for the auth mode, and only then routes and mounts. The auth store holds one session per cluster
  context; every request goes through the HTTP wrapper, which asks the credential provider for the token and the context and reports 401 and unknown contexts
  to global handlers that end sessions and navigate. The API layer builds paths and walks paged tables; on it stand the composables (lists with a watch, one object,
  the pods of an owner, metrics polling, the cluster summary, logs, exec sessions), each a small state machine around awaited requests. The pages and components own
  these, follow the route, the context and the namespace by watchers, and show projections computed by pure utilities.

  \<^bold>\<open>How state and operations correspond.\<close> A store, a composable or the script of a component is a record with one field per reactive variable; each
  function, watcher and handler is one definition that takes the state and returns it. An awaited request is split at the await: an operation starts it, and a later event
  settles it with the answer or the error, in any order - so every interleaving of answers, clicks, timers and navigations is a list of events, and the properties hold for
  all of them. Watchers run at the end of the operation that triggers them, in the order of their declaration. Fields that say what was asked or where a shown value comes from are read
  by no operation; the text at the record names them. Errors are values: \<^verbatim>\<open>ApiError\<close> and everything else thrown are the datatype \<open>thrown\<close>, a result is a sum.

  \<^bold>\<open>Theories.\<close>
  \<^item> \<open>Prelude\<close> (strings, lists, maps, shared lemmas), \<open>Interfaces\<close> (the locales \<open>generation_guard\<close> of the composables, \<open>subject_card\<close> of the cards and \<open>sample_buffer\<close> of the charts; with \<open>comparator\<close> in \<open>Sort\<close>,
    \<open>keyboard_picker\<close> in \<open>Pickers\<close> and \<open>poll_client\<close> in \<open>PollHost\<close>, each interpreted on the code's model where it is provided), \<open>Json\<close>, \<open>Numbers\<close>, \<open>Sort\<close> (values of JSON, \<^verbatim>\<open>Number\<close> and \<^verbatim>\<open>toFixed\<close>, \<^verbatim>\<open>Array.sort\<close>).
  \<^item> \<open>Http\<close> (\<^verbatim>\<open>api/http.ts\<close>), \<open>Urls\<close>, \<open>KubeApi\<close> (\<^verbatim>\<open>api/k8s.ts\<close>: paths, queries, the Table fallback, the walks), \<open>Writes\<close> (its single requests, \<^verbatim>\<open>api/ui.ts\<close>, the dialogs of actions, deletion and creation).
  \<^item> \<open>Auth\<close> (\<^verbatim>\<open>stores/auth.ts\<close>, the credential provider, the handlers of \<^verbatim>\<open>main.ts\<close>, the guard of \<^verbatim>\<open>router/index.ts\<close>, \<^verbatim>\<open>useContexts\<close>), \<open>Login\<close> (\<^verbatim>\<open>LoginPage.vue\<close>), \<open>Startup\<close> (the bootstrap), \<open>Shell\<close> (\<^verbatim>\<open>App.vue\<close>,
    \<^verbatim>\<open>AppShell.vue\<close>, \<^verbatim>\<open>TopBar.vue\<close>, \<^verbatim>\<open>ThemeToggle.vue\<close>, \<^verbatim>\<open>useLocalIdentity\<close>, \<^verbatim>\<open>useDarkMode\<close>, \<^verbatim>\<open>usePageTitle\<close>).
  \<^item> \<open>ResourceList\<close> (\<^verbatim>\<open>useWatch\<close> and \<^verbatim>\<open>useResourceList\<close>: rows keyed by uid, the watch loop, paging and the full search), \<open>ListPage\<close> (\<^verbatim>\<open>ResourceListPage.vue\<close>), \<open>TableView\<close> and \<open>TableCells\<close> (\<^verbatim>\<open>ResourceTable.vue\<close>),
    \<open>TableSort\<close> (\<^verbatim>\<open>tableSort.ts\<close>, \<^verbatim>\<open>k8sNames.ts\<close>), \<open>Catalog\<close> (\<^verbatim>\<open>resourceCatalog.ts\<close>, \<^verbatim>\<open>useDiscovery\<close>), \<open>Sidebar\<close>, \<open>Pickers\<close> (listboxes, the namespace and cluster selectors).
  \<^item> \<open>DetailObject\<close> (\<^verbatim>\<open>useResourceObject\<close>, table projections), \<open>DetailPage\<close> (owned pods), \<open>Chrome\<close> (route helpers, tabs, titles, \<^verbatim>\<open>useReveal\<close>), \<open>DetailScreen\<close> (\<^verbatim>\<open>ResourceDetailPage.vue\<close>, composed of the three), \<open>Cards\<close> (events, related resources,
    node pods), \<open>FieldFilter\<close>, \<open>FieldTree\<close>, \<open>Overview\<close>, \<open>TreeRender\<close> (\<^verbatim>\<open>OverviewTab.vue\<close> with the compact view, the tree and its renderer), \<open>YamlView\<close>, \<open>YamlEditor\<close>, \<open>Base64\<close> (\<^verbatim>\<open>YamlTab.vue\<close>), \<open>PodEnv\<close>,
    \<open>EnvTab\<close> (environment and Secret panels), \<open>ResourceActions\<close>.
  \<^item> \<open>LogStream\<close>, \<open>LogSearch\<close>, \<open>LogViewer\<close>, \<open>LogTokens\<close>, \<open>LogsTab\<close>, \<open>WorkloadLogs\<close> (\<^verbatim>\<open>useLogsStream\<close>, \<^verbatim>\<open>useLogSearch\<close>, \<^verbatim>\<open>logSearch.ts\<close>, \<^verbatim>\<open>logJson.ts\<close>, the log tabs), \<open>ExecSession\<close>, \<open>CommandLine\<close>, \<open>TerminalTab\<close>,
    \<open>Widgets\<close> (\<^verbatim>\<open>useExecSession\<close>, \<^verbatim>\<open>podHelpers.ts\<close>, \<^verbatim>\<open>PodTerminalTab.vue\<close>, the wrappers of xterm and CodeMirror).
  \<^item> \<open>PollingLoop\<close>, \<open>PollHost\<close>, \<open>MetricsPolling\<close>, \<open>ClusterSummary\<close>, \<open>ProblemPods\<close>, \<open>RingBuffer\<close>, \<open>MetricsCache\<close>, \<open>PodSeries\<close>, \<open>MetricsTabs\<close>, \<open>Charts\<close> (\<^verbatim>\<open>usePollingLoop\<close> and everything that polls; buffers are shared objects, so the
    cache is an explicit store of addresses), \<open>PodHealth\<close>, \<open>StatusColors\<close>, \<open>Units\<close>, \<open>Stores\<close> (preferences, view state, toasts, \<^verbatim>\<open>listQuery.ts\<close>).

  \<^bold>\<open>What the lemmas show.\<close> For each state machine an invariant of all runs and what follows from it: what is on screen belongs to the object, cluster, namespace and options now
  selected, late answers are dropped, nothing a user typed is lost without their doing, secrets show only when revealed, sessions and storage agree. For the utilities: refinement of an abstract
  value (keyed map, log of samples, contiguous tail of a stream), equality with a reference (the precedence of environment variables, the full search, freshly built cells), round trips (tokens, command lines, the
  YAML of a Secret), bounds and termination. Where the code does not do what its comments say, a lemma exhibits it and the manifest lists it as a finding.

  \<^bold>\<open>Fuel and bounds.\<close> The JSON scanner runs on fuel three times the input plus two, each step consuming input or a pending action; the matching loop on the length of the line plus one, as each
  step advances; the loop for a free column id on the number of ids in use. That each is enough is proved. The source's own caps are constants: 200000 log lines, 3, 4 and 6 pages for the scans, depth 32 of
  the field tree, 4000 cached tokenised lines, 20 shown of 1000 fetched events.

  \<^bold>\<open>Parameters and simplifications.\<close> Code outside the repository is an argument: fetch and the sockets (as events), \<^verbatim>\<open>localeCompare\<close>, \<^verbatim>\<open>Date.parse\<close> and the clock, \<^verbatim>\<open>JSON.parse\<close> and \<^verbatim>\<open>JSON.stringify\<close> where only their
  result matters, \<^verbatim>\<open>String(number)\<close>, the yaml package, the Intl formatters, text measurement, and the characters outside the strings of the model (dash, ellipsis). Strings are lists of code units below 256, and of code points in \<open>Base64\<close> and what
  stands on it. Numbers are exact rationals, so rounding of doubles is not covered. Objects are association lists in the order of insertion: integer-like keys, which JavaScript moves to the front, are not reordered. Typed
  payloads are taken as typed. The query library is what it holds by key; the code after \<^verbatim>\<open>nextTick\<close> in the terminal tab runs before any other event.

  \<^bold>\<open>Not modelled.\<close> The markup and styles beyond what a template decides, and the primitives that are markup only; rendering, sorting, virtual scrolling, plotting, terminal emulation and editing, which are Vue's, TanStack's, uPlot's, xterm's and
  CodeMirror's; the icon table and the download link; the test helpers; the Go backend (\<^verbatim>\<open>internal\<close>, \<^verbatim>\<open>cmd\<close>) and the deployment files, which are another program.
\<close>

section \<open>From the sign-in page through the guard to the requests\<close>

lemma pruned_session:
  "map_of (au_sessions (fst (pruneExpiredSessions later a))) ctx =
   (case map_of (au_sessions a) ctx of None \<Rightarrow> None | Some s \<Rightarrow> if isSessionExpired later s then None else Some s)"
proof -
  have deleted: "map_of (fold AList.delete ks al) k = (if k \<in> set ks then None else map_of al k)" for ks k and al :: "(jstring \<times> session) list"
    by (induction ks arbitrary: al) (auto simp: delete_conv')
  have "ctx \<in> set (expired_contexts later a) \<longleftrightarrow> (\<exists>s. map_of (au_sessions a) ctx = Some s \<and> isSessionExpired later s)"
    by (auto simp: expired_contexts_def sessionFor_def split: option.splits dest: map_of_SomeD intro: rev_image_eqI)
  then show ?thesis by (auto simp: pruneExpiredSessions_def Let_def deleted split: option.split)
qed

text \<open>
  C10. Signing in works until the session runs out, and then ends by itself: from an accepted verification on and for eight hours, the guard lets the user through to every page and every request carries the token that was
  verified; from then on the guard sends them back to the sign-in page with the path they wanted, and no request carries it any more.
\<close>

theorem signed_in_until_expiry:
  assumes "lg_out p = Some (candidate, asked)" "\<not> au_local (lg_auth p)" "candidate \<noteq> []" "0 < now + SESSION_TTL_MS" "\<not> tr_public dest"
  shows "let a = lg_auth (verify_settles now redirect (Inr result) p) in
    if later < now + SESSION_TTL_MS
    then fst (before_each later dest a) = Proceed \<and> fst (getBearerToken later a) = Some candidate
    else fst (before_each later dest a) = RedirectLogin (if tr_path dest = ''/'' then None else Some (tr_path dest)) \<and> fst (getBearerToken later a) = None"
proof -
  let ?a = "lg_auth (verify_settles now redirect (Inr result) p)"
  let ?s = "map_of (au_sessions ?a) (au_active ?a)"
  obtain s where s: "?s = Some s" "ss_token s = candidate" "ss_expires s = of_int (now + SESSION_TTL_MS)"
    using assms(1) by (simp add: verify_settles_def Let_def setSession_def update_conv')
  have mode: "\<not> au_local ?a" using assms(1,2) by (simp add: verify_settles_def Let_def setSession_def)
  have expired: "isSessionExpired t s \<longleftrightarrow> now + SESSION_TTL_MS \<le> t" for t
    using assms(4) unfolding isSessionExpired_def s(3) by (simp flip: of_int_add)
  show ?thesis
    using assms(3,5) mode s(2) by (simp add: Let_def before_each_def getBearerToken_def auth_token_def active_session_def Auth.isAuthenticated_def hasSession_def
        sessionFor_def pruned_session s(1) expired)
qed

theorem signed_in_until_expiry_witness:
  "let p = login_submit ((open_login (sample_state ''prod'' []))\<lparr>lg_token := '' tok ''\<rparr>);
       a = lg_auth (verify_settles 5 None (Inr \<lparr>vr_identity = None, vr_unavailable = None, vr_context = Some ''prod''\<rparr>) p);
       dest = \<lparr>tr_public = False, tr_login = False, tr_path = ''/overview''\<rparr>
   in fst (before_each 1000 dest a) = Proceed \<and> fst (getBearerToken 1000 a) = Some ''tok''"
proof -
  let ?p = "login_submit ((open_login (sample_state ''prod'' []))\<lparr>lg_token := '' tok ''\<rparr>)"
  let ?dest = "\<lparr>tr_public = False, tr_login = False, tr_path = ''/overview''\<rparr>"
  have "trim '' tok '' = ''tok''" by (simp add: trim_def is_space_def)
  then have p: "lg_out ?p = Some (''tok'', Some ''prod'')" "\<not> au_local (lg_auth ?p)"
    by (simp_all add: login_submit_def open_login_def sample_state_def targetContext_def)
  show ?thesis
    using signed_in_until_expiry [OF p, of 5 ?dest None "\<lparr>vr_identity = None, vr_unavailable = None, vr_context = Some ''prod''\<rparr>" 1000]
    by (simp add: SESSION_TTL_MS_def Let_def)
qed

end
